(* ===== verification/Bog_Prelude.thy ===== *)
theory Bog_Prelude
  imports
    Main
    "HOL-Library.Word"
    "HOL-Library.AList"
    "HOL-Library.Multiset"
    "HOL-Library.Char_ord"
    "HOL-Library.List_Lexorder"
    "HOL-Library.Product_Lexorder"
begin

text \<open>
  Shared ground of the development: the types that stand for Python's bytes, strings,
  dictionaries and exceptions, the operations of the language's own library that the
  sources use (string formatting, \<open>bytes.hex\<close>, \<open>bytes.fromhex\<close>, slicing into chunks,
  \<open>min(..., key=...)\<close>), and the generic lemmas that the component theories rely on.

  Exceptions are values: a function that may raise returns \<^typ>\<open>'e + 'a\<close> with \<open>Inl\<close>
  for the exception. \<open>rbind\<close> sequences such computations, \<open>map_res\<close> and \<open>fold_res\<close> are
  the loops that stop at the first exception.

  A Python dictionary keeps insertion order and overwrites in place, which is what
  \<^const>\<open>AList.update\<close> does on an association list; lookup is \<^const>\<open>map_of\<close>.
\<close>

named_theorems res_simps \<open>evaluation of exception-passing code\<close>
named_theorems roundtrip \<open>decode after encode\<close>
named_theorems len_simps \<open>lengths of encoded and decoded byte strings\<close>

unbundle bit_operations_syntax

type_synonym byte = "8 word"
type_synonym bytes = "byte list"
type_synonym ('k, 'v) pydict = "('k \<times> 'v) list"

text \<open>The exceptions that the modelled code raises or can run into.\<close>

datatype exn =
    ValueError string
  | KeyError string
  | IndexError
  | StopIteration
  | StructError
  | AssertionError
  | OptimizerError string
  | ContainerError string
  | SchemaError string
  | PackerError string
  | AssemblerError string
  | VMError string
  | JSONDecodeError string
  | UnicodeDecodeError
  | TypeError
  | AttributeError
  | FileNotFoundError string
  | FileExistsError string
  | IsADirectoryError string
  | NotADirectoryError string
  | ArchiveError string
  | StoreError string
  | BogBootError string
  | BogCellError string
  | BogKernelError string
  | BogOSError string
  | GenesisError string
  | BogCapabilityError string
  | OverflowError

type_synonym 'a res = "exn + 'a"

section \<open>Sequencing with exceptions\<close>

definition rbind :: "'e + 'a \<Rightarrow> ('a \<Rightarrow> 'e + 'b) \<Rightarrow> 'e + 'b" where
  "rbind m f = (case m of Inl e \<Rightarrow> Inl e | Inr x \<Rightarrow> f x)"

primrec map_res :: "('a \<Rightarrow> 'e + 'b) \<Rightarrow> 'a list \<Rightarrow> 'e + 'b list" where
  "map_res f [] = Inr []"
| "map_res f (x # xs) = rbind (f x) (\<lambda>y. rbind (map_res f xs) (\<lambda>ys. Inr (y # ys)))"

primrec fold_res :: "('s \<Rightarrow> 'a \<Rightarrow> 'e + 's) \<Rightarrow> 's \<Rightarrow> 'a list \<Rightarrow> 'e + 's" where
  "fold_res f s [] = Inr s"
| "fold_res f s (x # xs) = rbind (f s x) (\<lambda>s'. fold_res f s' xs)"

lemma rbind_simps [simp, res_simps]:
  "rbind (Inl e) f = Inl e"
  "rbind (Inr x) f = f x"
  by (simp_all add: rbind_def)

lemma rbind_Inr_iff: "rbind m f = Inr y \<longleftrightarrow> (\<exists>x. m = Inr x \<and> f x = Inr y)"
  by (cases m) auto

lemma rbind_Inl_iff:
  "rbind m f = Inl e \<longleftrightarrow> m = Inl e \<or> (\<exists>x. m = Inr x \<and> f x = Inl e)"
  by (cases m) auto

lemma rbind_assoc: "rbind (rbind m f) g = rbind m (\<lambda>x. rbind (f x) g)"
  by (cases m) auto

lemma rbind_cong [fundef_cong]:
  assumes "m = m'" and "\<And>x. m' = Inr x \<Longrightarrow> f x = g x"
  shows "rbind m f = rbind m' g"
  using assms by (cases m') auto

lemma map_res_Inr_iff: "map_res f xs = Inr ys \<longleftrightarrow> list_all2 (\<lambda>x y. f x = Inr y) xs ys"
  by (induction xs arbitrary: ys) (auto simp: rbind_Inr_iff list_all2_Cons1)

lemma map_res_total:
  assumes "\<And>x. x \<in> set xs \<Longrightarrow> f x = Inr (g x)"
  shows "map_res f xs = Inr (map g xs)"
  using assms by (induction xs) auto

lemma map_res_map: "map_res f (map g xs) = map_res (\<lambda>x. f (g x)) xs"
  by (induction xs) auto

lemma map_res_length [len_simps]: "map_res f xs = Inr ys \<Longrightarrow> length ys = length xs"
  by (auto simp: map_res_Inr_iff dest: list_all2_lengthD)

lemma map_res_append:
  "map_res f (xs @ ys) = rbind (map_res f xs) (\<lambda>us. rbind (map_res f ys) (\<lambda>vs. Inr (us @ vs)))"
proof (induction xs)
  case Nil
  show ?case by (cases "map_res f ys") auto
next
  case (Cons x xs)
  then show ?case by (cases "f x") (auto simp: rbind_assoc)
qed

lemma fold_res_append:
  "fold_res f s (xs @ ys) = rbind (fold_res f s xs) (\<lambda>t. fold_res f t ys)"
  by (induction xs arbitrary: s) (auto simp: rbind_assoc)

lemma fold_res_invariant:
  assumes "fold_res f s xs = Inr t" and "P s"
    and "\<And>s x s'. P s \<Longrightarrow> x \<in> set xs \<Longrightarrow> f s x = Inr s' \<Longrightarrow> P s'"
  shows "P t"
  using assms(1,2,3)
proof (induction xs arbitrary: s)
  case (Cons x xs)
  from Cons.prems(1) obtain s' where s': "f s x = Inr s'" "fold_res f s' xs = Inr t"
    by (auto simp: rbind_Inr_iff)
  have "P s'" by (rule Cons.prems(3) [OF Cons.prems(2) _ s'(1)]) simp
  then show ?case by (rule Cons.IH [OF s'(2)]) (rule Cons.prems(3), auto)
qed simp

section \<open>Decimal and hexadecimal text\<close>

text \<open>\<open>str(n)\<close> for a non-negative integer, and for any integer.\<close>

definition digit_char :: "nat \<Rightarrow> char" where
  "digit_char d = char_of (48 + d)"

fun str_nat :: "nat \<Rightarrow> string" where
  "str_nat n = (if n < 10 then [digit_char n] else str_nat (n div 10) @ [digit_char (n mod 10)])"

declare str_nat.simps [simp del]

definition str_int :: "int \<Rightarrow> string" where
  "str_int i = (if i < 0 then CHR ''-'' # str_nat (nat (- i)) else str_nat (nat i))"

text \<open>The format \<open>{n:04d}\<close> of a non-negative integer.\<close>

definition pad4 :: "nat \<Rightarrow> string" where
  "pad4 n = replicate (4 - length (str_nat n)) (CHR ''0'') @ str_nat n"

fun nat_of_digits :: "nat \<Rightarrow> string \<Rightarrow> nat" where
  "nat_of_digits acc [] = acc"
| "nat_of_digits acc (c # cs) = nat_of_digits (10 * acc + (of_char c - 48)) cs"

definition is_digit :: "char \<Rightarrow> bool" where
  "is_digit c \<longleftrightarrow> 48 \<le> (of_char c :: nat) \<and> (of_char c :: nat) \<le> 57"

lemma of_char_digit_char: "d < 10 \<Longrightarrow> of_char (digit_char d) = (48 + d :: nat)"
  by (simp add: digit_char_def)

lemma is_digit_digit_char: "d < 10 \<Longrightarrow> is_digit (digit_char d)"
  by (simp add: is_digit_def of_char_digit_char)

lemma nat_of_digits_append:
  "nat_of_digits acc (xs @ ys) = nat_of_digits (nat_of_digits acc xs) ys"
  by (induction acc xs rule: nat_of_digits.induct) auto

lemma str_nat_digits: "c \<in> set (str_nat n) \<Longrightarrow> is_digit c"
proof (induction n rule: str_nat.induct)
  case (1 n)
  then show ?case
    by (subst (asm) (2) str_nat.simps) (auto simp: is_digit_digit_char split: if_splits)
qed

lemma str_nat_not_Nil [simp]: "str_nat n \<noteq> []"
  by (subst str_nat.simps) simp

lemma nat_of_digits_str_nat [roundtrip]: "nat_of_digits 0 (str_nat n) = n"
proof (induction n rule: str_nat.induct)
  case (1 n)
  show ?case
  proof (cases "n < 10")
    case True
    then show ?thesis by (subst str_nat.simps) (simp add: of_char_digit_char)
  next
    case False
    with 1 have "nat_of_digits 0 (str_nat (n div 10)) = n div 10" by simp
    with False show ?thesis
      by (subst str_nat.simps) (simp add: nat_of_digits_append of_char_digit_char)
  qed
qed

lemma str_nat_inject [simp]: "str_nat m = str_nat n \<longleftrightarrow> m = n"
  by (metis nat_of_digits_str_nat)

lemma nat_of_digits_zeros: "nat_of_digits 0 (replicate k (CHR ''0'')) = 0"
  by (induction k) auto

lemma pad4_inject [simp]: "pad4 m = pad4 n \<longleftrightarrow> m = n"
proof
  assume "pad4 m = pad4 n"
  moreover have "nat_of_digits 0 (pad4 k) = k" for k
    by (simp add: pad4_def nat_of_digits_append nat_of_digits_zeros nat_of_digits_str_nat)
  ultimately show "m = n" by metis
qed simp

text \<open>\<open>bytes.hex()\<close> and \<open>bytes.fromhex\<close>.\<close>

definition hex_digit :: "nat \<Rightarrow> char" where
  "hex_digit d = (if d < 10 then char_of (48 + d) else char_of (87 + d))"

definition hex_byte :: "byte \<Rightarrow> string" where
  "hex_byte b = [hex_digit (unat b div 16), hex_digit (unat b mod 16)]"

definition bytes_hex :: "bytes \<Rightarrow> string" where
  "bytes_hex bs = concat (map hex_byte bs)"

definition hex_value :: "char \<Rightarrow> nat option" where
  "hex_value c = (let n = of_char c in
     if 48 \<le> n \<and> n \<le> 57 then Some (n - 48)
     else if 97 \<le> n \<and> n \<le> 102 then Some (n - 87)
     else if 65 \<le> n \<and> n \<le> 70 then Some (n - 55)
     else None)"

definition is_ascii_space :: "char \<Rightarrow> bool" where
  "is_ascii_space c \<longleftrightarrow> of_char c \<in> {9, 10, 11, 12, 13, 32 :: nat}"

fun bytes_fromhex :: "string \<Rightarrow> bytes res" where
  "bytes_fromhex [] = Inr []"
| "bytes_fromhex [c] = (if is_ascii_space c then Inr []
     else Inl (ValueError ''non-hexadecimal number found in fromhex() arg''))"
| "bytes_fromhex (c # d # cs) =
     (if is_ascii_space c then bytes_fromhex (d # cs)
      else case (hex_value c, hex_value d) of
        (Some h, Some l) \<Rightarrow> rbind (bytes_fromhex cs) (\<lambda>bs. Inr (word_of_nat (16 * h + l) # bs))
      | _ \<Rightarrow> Inl (ValueError ''non-hexadecimal number found in fromhex() arg''))"

lemma unat_byte_less [simp]: "unat (b :: byte) < 256"
  using unsigned_less [of b, where 'a = nat] by simp

lemma hex_digit_cases: "d < 16 \<Longrightarrow> hex_value (hex_digit d) = Some d \<and> \<not> is_ascii_space (hex_digit d)"
  by (auto simp: hex_digit_def hex_value_def is_ascii_space_def)

lemma bytes_hex_simps [simp]:
  "bytes_hex [] = []"
  "bytes_hex (b # bs) = hex_digit (unat b div 16) # hex_digit (unat b mod 16) # bytes_hex bs"
  by (simp_all add: bytes_hex_def hex_byte_def)

lemma length_bytes_hex [simp, len_simps]: "length (bytes_hex bs) = 2 * length bs"
  by (induction bs) auto

lemma fromhex_hex [simp, roundtrip]: "bytes_fromhex (bytes_hex bs) = Inr bs"
proof (induction bs)
  case (Cons b bs)
  have "unat b div 16 < 16" using unat_byte_less [of b] by linarith
  then show ?case using Cons by (simp add: hex_digit_cases)
qed simp

lemma bytes_hex_inject [simp]: "bytes_hex xs = bytes_hex ys \<longleftrightarrow> xs = ys"
  by (metis fromhex_hex sum.inject(2))

section \<open>Text and fixed-width integers as bytes\<close>

text \<open>\<open>str.encode("utf-8")\<close> for code points below 256, the code points a \<^typ>\<open>char\<close> can hold.\<close>

definition utf8_char :: "char \<Rightarrow> bytes" where
  "utf8_char c = (let n = of_char c in
     if n < 128 then [word_of_nat n] else [word_of_nat (192 + n div 64), word_of_nat (128 + n mod 64)])"

definition utf8 :: "string \<Rightarrow> bytes" where
  "utf8 s = concat (map utf8_char s)"

fun utf8_decode :: "bytes \<Rightarrow> string res" where
  "utf8_decode [] = Inr []"
| "utf8_decode (b # bs) =
    (if unat b < 128 then rbind (utf8_decode bs) (\<lambda>s. Inr (char_of (unat b) # s))
     else if unat b = 194 \<or> unat b = 195 then
       (case bs of
          c # cs \<Rightarrow>
            if 128 \<le> unat c \<and> unat c < 192
            then rbind (utf8_decode cs) (\<lambda>s. Inr (char_of (64 * (unat b - 192) + (unat c - 128)) # s))
            else Inl UnicodeDecodeError
        | [] \<Rightarrow> Inl UnicodeDecodeError)
     else Inl UnicodeDecodeError)"

text \<open>\<open>n.to_bytes(k, "big")\<close> and \<open>n.to_bytes(k, "little")\<close> for \<open>n < 256 ^ k\<close>.\<close>

fun to_bytes_le :: "nat \<Rightarrow> nat \<Rightarrow> bytes" where
  "to_bytes_le 0 n = []"
| "to_bytes_le (Suc k) n = word_of_nat (n mod 256) # to_bytes_le k (n div 256)"

definition to_bytes_be :: "nat \<Rightarrow> nat \<Rightarrow> bytes" where
  "to_bytes_be k n = rev (to_bytes_le k n)"

fun from_bytes_le :: "bytes \<Rightarrow> nat" where
  "from_bytes_le [] = 0"
| "from_bytes_le (b # bs) = unat b + 256 * from_bytes_le bs"

definition from_bytes_be :: "bytes \<Rightarrow> nat" where
  "from_bytes_be bs = from_bytes_le (rev bs)"

lemma unat_word_of_nat_byte: "unat (word_of_nat n :: byte) = n mod 256"
  by (simp add: unat_of_nat)

lemma utf8_decode_char: "utf8_decode (utf8_char c @ bs) = rbind (utf8_decode bs) (\<lambda>s. Inr (c # s))"
proof -
  define n where "n = (of_char c :: nat)"
  have c: "c = char_of n" and n: "n < 256" by (simp_all add: n_def)
  show ?thesis
  proof (cases "n < 128")
    case True
    then show ?thesis by (simp add: utf8_char_def n_def [symmetric] unat_word_of_nat_byte c)
  next
    case False
    define q where "q = n div 64"
    define r where "r = n mod 64"
    have q: "q = 2 \<or> q = 3" using False n unfolding q_def by linarith
    have r: "r < 64" and nqr: "n = 64 * q + r" by (simp_all add: q_def r_def)
    have "unat (word_of_nat (192 + q) :: byte) = 192 + q" "unat (word_of_nat (128 + r) :: byte) = 128 + r"
      using q r unat_word_of_nat_byte [of "192 + q"] unat_word_of_nat_byte [of "128 + r"] by (auto simp del: of_nat_add)
    moreover have "utf8_char c = [word_of_nat (192 + q), word_of_nat (128 + r)]"
      using False by (simp add: utf8_char_def Let_def n_def q_def r_def)
    ultimately show ?thesis using q r nqr by (auto simp: c simp del: of_nat_add)
  qed
qed

lemma utf8_decode_utf8 [simp, roundtrip]: "utf8_decode (utf8 s) = Inr s"
  by (induction s) (simp_all add: utf8_def utf8_decode_char)

lemma length_to_bytes_le [simp, len_simps]: "length (to_bytes_le k n) = k"
  by (induction k n rule: to_bytes_le.induct) auto

lemma length_to_bytes_be [simp, len_simps]: "length (to_bytes_be k n) = k"
  by (simp add: to_bytes_be_def)

lemma from_to_bytes_le [simp, roundtrip]:
  "n < 256 ^ k \<Longrightarrow> from_bytes_le (to_bytes_le k n) = n"
proof (induction k n rule: to_bytes_le.induct)
  case (2 k n)
  then have "n div 256 < 256 ^ k" by (simp add: less_mult_imp_div_less mult.commute)
  with 2 have "from_bytes_le (to_bytes_le k (n div 256)) = n div 256" by simp
  then show ?case by (simp add: unat_word_of_nat_byte)
qed simp

lemma from_to_bytes_be [simp, roundtrip]:
  "n < 256 ^ k \<Longrightarrow> from_bytes_be (to_bytes_be k n) = n"
  by (simp add: from_bytes_be_def to_bytes_be_def)

text \<open>\<open>v.to_bytes(k, "little")\<close> of any integer: one that does not fit raises.\<close>

definition int_le :: "nat \<Rightarrow> int \<Rightarrow> bytes res" where
  "int_le k v = (if 0 \<le> v \<and> v < 256 ^ k then Inr (to_bytes_le k (nat v)) else Inl OverflowError)"

lemma int_le_Inr_iff: "int_le k v = Inr b \<longleftrightarrow> 0 \<le> v \<and> v < 256 ^ k \<and> b = to_bytes_le k (nat v)"
  by (auto simp: int_le_def)

lemma to_bytes_le_inject:
  assumes "to_bytes_le k m = to_bytes_le k n" and "m < 256 ^ k" and "n < 256 ^ k"
  shows "m = n"
  using assms from_to_bytes_le by metis

lemma int_le_inject:
  assumes "int_le k v = Inr b" and "int_le k w = Inr b"
  shows "v = w"
proof -
  have bnd: "0 \<le> v" "v < 256 ^ k" "0 \<le> w" "w < 256 ^ k" and eq: "to_bytes_le k (nat v) = to_bytes_le k (nat w)"
    using assms by (auto simp: int_le_Inr_iff)
  have "nat v < 256 ^ k" "nat w < 256 ^ k" using bnd by (simp_all add: nat_less_iff)
  then have "nat v = nat w" by (rule to_bytes_le_inject [OF eq])
  then show ?thesis using bnd by simp
qed

lemma length_int_le [len_simps]: "int_le k v = Inr b \<Longrightarrow> length b = k"
  by (auto simp: int_le_Inr_iff)

section \<open>First minimum under a key\<close>

text \<open>
  The tournament loops of the sources keep the first candidate whose key is least:
  \<open>if best is None or key(c) < key(best): best = c\<close>. \<open>min(xs, key=f)\<close> is the same loop.
\<close>

fun keep_best :: "('a \<Rightarrow> 'k :: linorder) \<Rightarrow> 'a option \<Rightarrow> 'a list \<Rightarrow> 'a option" where
  "keep_best key best [] = best"
| "keep_best key None (c # cs) = keep_best key (Some c) cs"
| "keep_best key (Some b) (c # cs) = keep_best key (Some (if key c < key b then c else b)) cs"

lemma keep_best_Some:
  "\<exists>r. keep_best key (Some b) cs = Some r \<and> r \<in> insert b (set cs) \<and>
     key r \<le> key b \<and> (\<forall>c \<in> set cs. key r \<le> key c)"
proof (induction cs arbitrary: b)
  case (Cons c cs)
  show ?case
  proof (cases "key c < key b")
    case True
    with Cons [of c] show ?thesis by force
  next
    case False
    with Cons [of b] show ?thesis by force
  qed
qed simp

lemma keep_best_None:
  assumes "cs \<noteq> []"
  obtains r where "keep_best key None cs = Some r" and "r \<in> set cs"
    and "\<forall>c \<in> set cs. key r \<le> key c"
proof -
  obtain x xs where cs: "cs = x # xs" using assms by (cases cs) auto
  obtain r where r: "keep_best key (Some x) xs = Some r" "r \<in> insert x (set xs)"
    "key r \<le> key x" "\<forall>c \<in> set xs. key r \<le> key c"
    using keep_best_Some [of key x xs] by auto
  from r show ?thesis unfolding cs by (intro that [of r]) (auto simp: cs)
qed

lemma keep_best_in:
  assumes "keep_best key None cs = Some r"
  shows "r \<in> set cs" and "c \<in> set cs \<Longrightarrow> key r \<le> key c"
proof -
  have "cs \<noteq> []" using assms by (cases cs) auto
  then obtain r' where "keep_best key None cs = Some r'" and "r' \<in> set cs"
    and "\<forall>c \<in> set cs. key r' \<le> key c"
    by (rule keep_best_None)
  then show "r \<in> set cs" and "c \<in> set cs \<Longrightarrow> key r \<le> key c"
    using assms by auto
qed

section \<open>Slices of fixed size\<close>

text \<open>\<open>[xs[o:o + n] for o in range(0, len(xs), n)]\<close> for \<open>n > 0\<close>.\<close>

definition slice_count :: "nat \<Rightarrow> nat \<Rightarrow> nat" where
  "slice_count n len = (len + n - 1) div n"

definition slices :: "nat \<Rightarrow> 'a list \<Rightarrow> 'a list list" where
  "slices n xs = map (\<lambda>i. take n (drop (i * n) xs)) [0..<slice_count n (length xs)]"

lemma slice_count_0 [simp]: "0 < n \<Longrightarrow> slice_count n 0 = 0"
  by (simp add: slice_count_def)

lemma slice_count_pos: "0 < n \<Longrightarrow> 0 < len \<Longrightarrow> 0 < slice_count n len"
  by (simp add: slice_count_def div_greater_zero_iff)

lemma slice_count_step:
  assumes "0 < n" and "0 < len"
  shows "slice_count n len = Suc (slice_count n (len - n))"
proof (cases "n \<le> len")
  case True
  have "len + n - 1 = (len - n + n - 1) + n" using True assms by simp
  then have "(len + n - 1) div n = Suc ((len - n + n - 1) div n)"
    using assms by (metis add.commute div_add_self1 not_gr_zero plus_1_eq_Suc)
  then show ?thesis by (simp add: slice_count_def)
next
  case False
  then have "(len + n - 1) div n = 1"
    using assms by (intro div_nat_eqI) auto
  moreover have "len - n = 0" using False by simp
  ultimately show ?thesis using assms by (simp add: slice_count_def)
qed

lemma slices_Nil [simp]: "0 < n \<Longrightarrow> slices n [] = []"
  by (simp add: slices_def)

lemma slices_step:
  assumes "0 < n" and "xs \<noteq> []"
  shows "slices n xs = take n xs # slices n (drop n xs)"
proof -
  have "slice_count n (length xs) = Suc (slice_count n (length xs - n))"
    using assms by (intro slice_count_step) auto
  then have "slices n xs =
      map (\<lambda>i. take n (drop (i * n) xs)) (0 # map Suc [0..<slice_count n (length xs - n)])"
    by (simp add: slices_def upt_conv_Cons map_Suc_upt del: upt_Suc)
  then show ?thesis
    by (simp add: slices_def comp_def add.commute)
qed

lemma slices_induct:
  assumes n: "0 < n" and base: "P []"
    and step: "\<And>xs. xs \<noteq> [] \<Longrightarrow> P (drop n xs) \<Longrightarrow> P xs"
  shows "P xs"
proof (induction xs rule: length_induct)
  case (1 xs)
  then show ?case
    using n base step by (cases "xs = []") auto
qed

lemma concat_slices [simp, roundtrip]:
  assumes "0 < n"
  shows "concat (slices n xs) = xs"
proof (induction xs rule: slices_induct [OF assms])
  case (2 xs)
  then show ?case using assms by (simp add: slices_step)
qed (use assms in simp)

lemma length_slices [simp, len_simps]: "length (slices n xs) = slice_count n (length xs)"
  by (simp add: slices_def)

lemma slices_nth: "i < slice_count n (length xs) \<Longrightarrow> slices n xs ! i = take n (drop (i * n) xs)"
  by (simp add: slices_def)

lemma slices_nonempty:
  assumes "0 < n" and "c \<in> set (slices n xs)"
  shows "c \<noteq> [] \<and> length c \<le> n"
  using assms(2)
proof (induction xs rule: slices_induct [OF assms(1)])
  case (2 xs)
  then show ?case using assms(1) by (auto simp: slices_step)
qed (use assms(1) in simp)

section \<open>Positions in lists\<close>

text \<open>\<open>xs.index(x)\<close>: the first position, or \<open>None\<close> where Python raises \<open>ValueError\<close>.\<close>

fun list_index :: "'a \<Rightarrow> 'a list \<Rightarrow> nat option" where
  "list_index x [] = None"
| "list_index x (y # ys) = (if y = x then Some 0 else map_option Suc (list_index x ys))"

lemma list_index_Some: "list_index x xs = Some i \<Longrightarrow> i < length xs \<and> xs ! i = x"
  by (induction xs arbitrary: i) (auto split: if_splits)

lemma list_index_None: "list_index x xs = None \<longleftrightarrow> x \<notin> set xs"
  by (induction xs) auto

lemma list_index_ex: "x \<in> set xs \<Longrightarrow> \<exists>i. list_index x xs = Some i"
  by (cases "list_index x xs") (auto simp: list_index_None)

lemma sum_list_int: "sum_list (map (\<lambda>x. int (f x)) xs) = int (sum_list (map f xs))"
  by (induction xs) auto

section \<open>Insertion-ordered dictionaries\<close>

lemma map_of_update [simp]: "map_of (AList.update k v d) k' = (if k' = k then Some v else map_of d k')"
  by (simp add: update_conv')

text \<open>A dictionary display or comprehension: later values replace earlier ones in place.\<close>

definition pydict_of :: "('k \<times> 'v) list \<Rightarrow> ('k, 'v) pydict" where
  "pydict_of kvs = foldl (\<lambda>d (k, v). AList.update k v d) [] kvs"

lemma foldl_update_distinct:
  assumes "distinct (map fst d @ map fst kvs)"
  shows "foldl (\<lambda>d (k, v). AList.update k v d) d kvs = d @ kvs"
  using assms
proof (induction kvs arbitrary: d)
  case (Cons kv kvs)
  obtain k v where kv: "kv = (k, v)" by (cases kv)
  have "AList.update k v d = d @ [(k, v)]"
    using Cons.prems kv by (induction d) auto
  then show ?case using Cons kv by simp
qed simp

lemma pydict_of_distinct: "distinct (map fst kvs) \<Longrightarrow> pydict_of kvs = kvs"
  by (simp add: pydict_of_def foldl_update_distinct)

lemma update_new: "k \<notin> fst ` set d \<Longrightarrow> AList.update k v d = d @ [(k, v)]"
  by (induction d) auto

lemma update_keys: "fst ` set (AList.update k v d) = insert k (fst ` set d)"
  by (simp add: dom_map_of_conv_image_fst [symmetric] update_conv' dom_def) auto

section \<open>Operations that change a state\<close>

text \<open>
  An operation on a state returns its result and the state afterwards, so that what a call changed
  before it raised stays changed.
\<close>

type_synonym ('s, 'a) action = "'s \<Rightarrow> 'a res \<times> 's"

definition abind :: "('s, 'a) action \<Rightarrow> ('a \<Rightarrow> ('s, 'b) action) \<Rightarrow> ('s, 'b) action" where
  "abind m f = (\<lambda>s. case m s of (Inl e, s') \<Rightarrow> (Inl e, s') | (Inr x, s') \<Rightarrow> f x s')"

definition alift :: "'a res \<Rightarrow> ('s, 'a) action" where
  "alift r = (\<lambda>s. (r, s))"

definition aread :: "('s \<Rightarrow> 'a res) \<Rightarrow> ('s, 'a) action" where
  "aread f = (\<lambda>s. (f s, s))"

lemma abind_simps [simp, res_simps]:
  "abind (alift (Inr x)) f = f x"
  "abind (alift (Inl e)) f = alift (Inl e)"
  by (simp_all add: abind_def alift_def)

end
