(* ===== verification/Hashlib.thy ===== *)
theory Hashlib
  imports Bog_Prelude
begin

text \<open>
  The part of Python's \<open>hashlib\<close> that the sources use: SHA-256 as FIPS 180-4 defines it, on
  32-bit words, with \<open>digest()\<close> and \<open>hexdigest()\<close>.

  The hash is a concrete, executable function and no assumption is made about it anywhere in
  the development. Statements that need two messages with the same digest to be equal are
  stated up to an explicit collision.
\<close>

type_synonym u32 = "32 word"

definition rotr32 :: "nat \<Rightarrow> u32 \<Rightarrow> u32" where
  "rotr32 n x = drop_bit n x OR push_bit (32 - n) x"

definition sha_Ch :: "u32 \<Rightarrow> u32 \<Rightarrow> u32 \<Rightarrow> u32" where
  "sha_Ch x y z = (x AND y) XOR (NOT x AND z)"

definition sha_Maj :: "u32 \<Rightarrow> u32 \<Rightarrow> u32 \<Rightarrow> u32" where
  "sha_Maj x y z = (x AND y) XOR (x AND z) XOR (y AND z)"

definition sha_S0 :: "u32 \<Rightarrow> u32" where
  "sha_S0 x = rotr32 2 x XOR rotr32 13 x XOR rotr32 22 x"

definition sha_S1 :: "u32 \<Rightarrow> u32" where
  "sha_S1 x = rotr32 6 x XOR rotr32 11 x XOR rotr32 25 x"

definition sha_s0 :: "u32 \<Rightarrow> u32" where
  "sha_s0 x = rotr32 7 x XOR rotr32 18 x XOR drop_bit 3 x"

definition sha_s1 :: "u32 \<Rightarrow> u32" where
  "sha_s1 x = rotr32 17 x XOR rotr32 19 x XOR drop_bit 10 x"

definition sha_K :: "u32 list" where
  "sha_K = [
   1116352408, 1899447441, 3049323471, 3921009573, 961987163, 1508970993, 2453635748, 2870763221,
   3624381080, 310598401, 607225278, 1426881987, 1925078388, 2162078206, 2614888103, 3248222580,
   3835390401, 4022224774, 264347078, 604807628, 770255983, 1249150122, 1555081692, 1996064986,
   2554220882, 2821834349, 2952996808, 3210313671, 3336571891, 3584528711, 113926993, 338241895,
   666307205, 773529912, 1294757372, 1396182291, 1695183700, 1986661051, 2177026350, 2456956037,
   2730485921, 2820302411, 3259730800, 3345764771, 3516065817, 3600352804, 4094571909, 275423344,
   430227734, 506948616, 659060556, 883997877, 958139571, 1322822218, 1537002063, 1747873779,
   1955562222, 2024104815, 2227730452, 2361852424, 2428436474, 2756734187, 3204031479, 3329325298]"

definition sha_H0 :: "u32 list" where
  "sha_H0 = [1779033703, 3144134277, 1013904242, 2773480762, 1359893119, 2600822924, 528734635, 1541459225]"

text \<open>The message schedule: a window of sixteen words that moves forward one word at a time.\<close>

fun sha_schedule :: "nat \<Rightarrow> u32 list \<Rightarrow> u32 list" where
  "sha_schedule 0 w = w"
| "sha_schedule (Suc n) w = (case w of
     [] \<Rightarrow> []
   | w0 # ws \<Rightarrow> w0 # sha_schedule n (ws @ [sha_s1 (w ! 14) + w ! 9 + sha_s0 (w ! 1) + w0]))"

fun sha_round :: "u32 list \<Rightarrow> u32 \<times> u32 \<Rightarrow> u32 list" where
  "sha_round [a, b, c, d, e, f, g, h] (k, w) =
     (let t1 = h + sha_S1 e + sha_Ch e f g + k + w;
          t2 = sha_S0 a + sha_Maj a b c
      in [t1 + t2, a, b, c, d + t1, e, f, g])"
| "sha_round s kw = s"

definition sha_compress :: "u32 list \<Rightarrow> u32 list \<Rightarrow> u32 list" where
  "sha_compress h block = map2 (+) h (foldl sha_round h (zip sha_K (sha_schedule 48 block)))"

definition sha_pad :: "bytes \<Rightarrow> bytes" where
  "sha_pad m = m @ [128] @ replicate ((119 - length m mod 64) mod 64) 0 @ to_bytes_be 8 (8 * length m)"

definition sha_block :: "bytes \<Rightarrow> u32 list" where
  "sha_block b = map (\<lambda>w. word_of_nat (from_bytes_be w)) (slices 4 b)"

definition sha256 :: "bytes \<Rightarrow> bytes" where
  "sha256 m = concat (map (\<lambda>w. to_bytes_be 4 (unat w))
     (foldl (\<lambda>h b. sha_compress h (sha_block b)) sha_H0 (slices 64 (sha_pad m))))"

definition hexdigest :: "bytes \<Rightarrow> string" where
  "hexdigest m = bytes_hex (sha256 m)"

lemma length_sha_round: "length s = 8 \<Longrightarrow> length (sha_round s kw) = 8"
  by (cases "(s, kw)" rule: sha_round.cases) (auto simp: Let_def)

lemma length_sha_rounds: "length s = 8 \<Longrightarrow> length (foldl sha_round s kws) = 8"
  by (induction kws arbitrary: s) (auto simp: length_sha_round)

lemma length_sha_compress: "length h = 8 \<Longrightarrow> length (sha_compress h b) = 8"
  by (simp add: sha_compress_def length_sha_rounds)

lemma length_sha_blocks:
  "length h = 8 \<Longrightarrow> length (foldl (\<lambda>h b. sha_compress h (sha_block b)) h bs) = 8"
  by (induction bs arbitrary: h) (auto simp: length_sha_compress)

lemma length_concat_be4: "length (concat (map (\<lambda>w. to_bytes_be 4 (f w)) ws)) = 4 * length ws"
  by (induction ws) auto

lemma length_sha256 [simp, len_simps]: "length (sha256 m) = 32"
  by (simp add: sha256_def length_concat_be4 length_sha_blocks sha_H0_def)

lemma length_hexdigest [simp, len_simps]: "length (hexdigest m) = 64"
  by (simp add: hexdigest_def)

lemma hexdigest_eq_iff [simp]: "hexdigest m = hexdigest m' \<longleftrightarrow> sha256 m = sha256 m'"
  by (simp add: hexdigest_def)

lemma fromhex_hexdigest [simp, roundtrip]: "bytes_fromhex (hexdigest m) = Inr (sha256 m)"
  by (simp add: hexdigest_def)

section \<open>Collisions\<close>

text \<open>Two different messages with one digest.\<close>

definition collision :: "bytes \<Rightarrow> bytes \<Rightarrow> bool" where
  "collision m m' \<longleftrightarrow> m \<noteq> m' \<and> sha256 m = sha256 m'"

lemma no_collision: "sha256 m = sha256 m' \<Longrightarrow> \<not> collision m m' \<Longrightarrow> m = m'"
  by (simp add: collision_def)

end
