(* ===== verification/Bases.thy ===== *)
theory Bases
  imports Bog_Prelude
begin

text \<open>
  The deterministic bases of \<^verbatim>\<open>src/bogvm/bases.py\<close>: \<open>synthesize_basis\<close> produces the byte
  string that a residual plan patches. The interface that the optimizer, the container and the
  VM rely on is the locale \<open>basis_provider\<close>: on valid coefficients the provider returns, and it
  returns exactly the requested number of bytes.
\<close>

definition BASIS_ORDER :: "string list" where
  "BASIS_ORDER = [''zero_block'', ''repeat_byte'', ''delta_u8'', ''dictionary_u8'', ''rle_u8'',
     ''ramp_u8'', ''triangle_u8'', ''sine8_u8'', ''fourier8_u8'']"

definition TRIANGLE_U8_OFFSETS :: "int list" where
  "TRIANGLE_U8_OFFSETS = [0, 32, 64, 96, 128, 96, 64, 32]"

definition SINE8_U8_OFFSETS :: "int list" where
  "SINE8_U8_OFFSETS = [0, 90, 127, 90, 0, -90, -127, -90]"

definition COSINE8_U8_OFFSETS :: "int list" where
  "COSINE8_U8_OFFSETS = [127, 90, 0, -90, -127, -90, 0, 90]"

lemma basis_cases:
  assumes "b \<in> set BASIS_ORDER"
  shows "b = ''zero_block'' \<or> b = ''repeat_byte'' \<or> b = ''delta_u8'' \<or> b = ''dictionary_u8'' \<or>
    b = ''rle_u8'' \<or> b = ''ramp_u8'' \<or> b = ''triangle_u8'' \<or> b = ''sine8_u8'' \<or> b = ''fourier8_u8''"
  using assms by (simp add: BASIS_ORDER_def)

text \<open>\<open>bytes(f(i) % 256 for i in range(length))\<close>\<close>

definition bytes_from :: "(nat \<Rightarrow> int) \<Rightarrow> nat \<Rightarrow> bytes" where
  "bytes_from f n = map (\<lambda>i. word_of_int (f i mod 256)) [0..<n]"

definition synthesize_basis :: "string \<Rightarrow> int \<Rightarrow> int \<Rightarrow> int \<Rightarrow> bytes res" where
  "synthesize_basis basis start_byte len delta =
    (if basis \<notin> set BASIS_ORDER then
       Inl (ValueError (''Unsupported deterministic basis: '' @ basis))
     else if \<not> (0 \<le> start_byte \<and> start_byte \<le> 255) then
       Inl (ValueError ''start_byte must be 0..255'')
     else if \<not> (0 \<le> delta \<and> delta \<le> 255) then
       Inl (ValueError ''delta must be 0..255'')
     else if len < 0 then
       Inl (ValueError ''length must be non-negative'')
     else if basis = ''zero_block'' then
       Inr (replicate (nat len) 0)
     else if basis = ''delta_u8'' then
       Inr (bytes_from (\<lambda>i. start_byte + int i * delta) (nat len))
     else if basis \<in> {''dictionary_u8'', ''rle_u8'', ''repeat_byte''} then
       Inr (replicate (nat len) (word_of_int start_byte))
     else if basis = ''ramp_u8'' then
       Inr (bytes_from (\<lambda>i. start_byte + int i) (nat len))
     else if basis = ''triangle_u8'' then
       Inr (bytes_from (\<lambda>i. start_byte + TRIANGLE_U8_OFFSETS ! (i mod length TRIANGLE_U8_OFFSETS))
              (nat len))
     else if basis = ''sine8_u8'' then
       Inr (bytes_from (\<lambda>i. start_byte + SINE8_U8_OFFSETS ! (i mod length SINE8_U8_OFFSETS))
              (nat len))
     else if basis = ''fourier8_u8'' then
       (let cosine_delta = delta div 2 in
        Inr (bytes_from (\<lambda>i. start_byte
                + (delta * SINE8_U8_OFFSETS ! (i mod 8)) div 127
                + (cosine_delta * COSINE8_U8_OFFSETS ! (i mod 8)) div 127) (nat len)))
     else Inl (ValueError (''Unsupported deterministic basis: '' @ basis)))"

lemma length_bytes_from [simp, len_simps]: "length (bytes_from f n) = n"
  by (simp add: bytes_from_def)

lemma nth_bytes_from: "i < n \<Longrightarrow> bytes_from f n ! i = word_of_int (f i mod 256)"
  by (simp add: bytes_from_def)

section \<open>The interface of a basis provider\<close>

locale basis_provider =
  fixes names :: "string list"
    and synth :: "string \<Rightarrow> int \<Rightarrow> int \<Rightarrow> int \<Rightarrow> bytes res"
  assumes synth_length:
    "b \<in> set names \<Longrightarrow> 0 \<le> s \<and> s \<le> 255 \<Longrightarrow> 0 \<le> n \<Longrightarrow> 0 \<le> d \<and> d \<le> 255 \<Longrightarrow>
       \<exists>bs. synth b s n d = Inr bs \<and> length bs = nat n"
    and synth_Inr_args:
    "synth b s n d = Inr bs \<Longrightarrow>
       b \<in> set names \<and> (0 \<le> s \<and> s \<le> 255) \<and> 0 \<le> n \<and> (0 \<le> d \<and> d \<le> 255)"
begin

lemma synth_Inr_length:
  assumes "synth b s n d = Inr bs"
  shows "length bs = nat n"
  using synth_length synth_Inr_args [OF assms] assms by fastforce

lemma synth_succeeds_iff:
  "(\<exists>bs. synth b s n d = Inr bs) \<longleftrightarrow>
     b \<in> set names \<and> (0 \<le> s \<and> s \<le> 255) \<and> 0 \<le> n \<and> (0 \<le> d \<and> d \<le> 255)"
  using synth_length synth_Inr_args by blast

end

lemma synthesize_basis_length:
  assumes "b \<in> set BASIS_ORDER" and "0 \<le> s \<and> s \<le> 255" and "0 \<le> n" and "0 \<le> d \<and> d \<le> 255"
  shows "\<exists>bs. synthesize_basis b s n d = Inr bs \<and> length bs = nat n"
  using basis_cases [OF assms(1)] assms
  by (elim disjE) (simp_all add: synthesize_basis_def Let_def)

lemma synthesize_basis_Inr_args:
  assumes "synthesize_basis b s n d = Inr bs"
  shows "b \<in> set BASIS_ORDER \<and> (0 \<le> s \<and> s \<le> 255) \<and> 0 \<le> n \<and> (0 \<le> d \<and> d \<le> 255)"
  using assms unfolding synthesize_basis_def
  by (metis Inl_Inr_False linorder_not_le)

interpretation bogbasis: basis_provider BASIS_ORDER synthesize_basis
  by unfold_locales (use synthesize_basis_length synthesize_basis_Inr_args in blast)+

text \<open>The linear basis: byte \<open>i\<close> is \<open>start + i * delta\<close> modulo 256.\<close>

lemma synthesize_delta_u8:
  assumes "0 \<le> s \<and> s \<le> 255" and "0 \<le> n" and "0 \<le> d \<and> d \<le> 255"
  shows "synthesize_basis ''delta_u8'' s n d = Inr (bytes_from (\<lambda>i. s + int i * d) (nat n))"
  using assms by (simp add: synthesize_basis_def BASIS_ORDER_def)

end
