(* ===== verification/Transforms.thy ===== *)
theory Transforms
  imports Bog_Prelude
begin

text \<open>
  The reversible byte transforms of \<^verbatim>\<open>src/bogvm/transforms.py\<close>: differences to the previous
  byte, nibble swap, move-to-front, the Burrows-Wheeler transform and its composition with
  move-to-front.

  The contract that the optimizer and the container decoder rely on is the locale
  \<open>reversible_transform\<close>: the forward direction never raises and keeps the length, and the
  inverse applied to its output and parameter gives the input back. Each transform name is an
  interpretation; the Burrows-Wheeler/move-to-front pair is an instance of the general
  composition \<open>transform_then_bytes\<close>.
\<close>

definition TRANSFORM_ORDER :: "string list" where
  "TRANSFORM_ORDER = [''identity'', ''xor_previous'', ''delta_previous'', ''nibble_split'',
     ''mtf'', ''bwt'', ''bwt_mtf'']"

definition BWT_TRANSFORMS :: "string set" where
  "BWT_TRANSFORMS = {''bwt'', ''bwt_mtf''}"

lemma transform_cases:
  assumes "name \<in> set TRANSFORM_ORDER"
  shows "name = ''identity'' \<or> name = ''xor_previous'' \<or> name = ''delta_previous'' \<or>
    name = ''nibble_split'' \<or> name = ''mtf'' \<or> name = ''bwt'' \<or> name = ''bwt_mtf''"
  using assms by (simp add: TRANSFORM_ORDER_def)

section \<open>The transforms\<close>

definition swap_nibbles :: "byte \<Rightarrow> byte" where
  "swap_nibbles v = push_bit 4 (v AND 15) OR drop_bit 4 v"

text \<open>
  The two loops over \<open>range(1, len(data))\<close>: the encoder reads \<open>data[index - 1]\<close>, the decoder
  reads \<open>out[index - 1]\<close>. \<open>f\<close> and \<open>g\<close> are the byte operations.
\<close>

definition previous_encode :: "(byte \<Rightarrow> byte \<Rightarrow> byte) \<Rightarrow> bytes \<Rightarrow> bytes" where
  "previous_encode f data =
     (if data = [] then []
      else foldl (\<lambda>out index. out @ [f (data ! index) (data ! (index - 1))]) [data ! 0] [1..<length data])"

definition previous_decode :: "(byte \<Rightarrow> byte \<Rightarrow> byte) \<Rightarrow> bytes \<Rightarrow> bytes" where
  "previous_decode g data =
     (if data = [] then []
      else foldl (\<lambda>out index. out @ [g (data ! index) (out ! (index - 1))]) [data ! 0] [1..<length data])"

text \<open>\<open>alphabet.pop(index); alphabet.insert(0, value)\<close> when \<open>index\<close> is not zero.\<close>

definition move_front :: "nat \<Rightarrow> byte list \<Rightarrow> byte list" where
  "move_front i al = (if i \<noteq> 0 then al ! i # take i al @ drop (Suc i) al else al)"

fun mtf_encode_loop :: "byte list \<Rightarrow> bytes \<Rightarrow> bytes res" where
  "mtf_encode_loop alphabet [] = Inr []"
| "mtf_encode_loop alphabet (value # data) =
     (case list_index value alphabet of
        None \<Rightarrow> Inl (ValueError ''value is not in list'')
      | Some index \<Rightarrow>
          rbind (mtf_encode_loop (move_front index alphabet) data)
            (\<lambda>encoded. Inr (word_of_nat index # encoded)))"

fun mtf_decode_loop :: "byte list \<Rightarrow> bytes \<Rightarrow> bytes res" where
  "mtf_decode_loop alphabet [] = Inr []"
| "mtf_decode_loop alphabet (index # data) =
     (if unat index < length alphabet then
        rbind (mtf_decode_loop (move_front (unat index) alphabet) data)
          (\<lambda>decoded. Inr (alphabet ! unat index # decoded))
      else Inl IndexError)"

definition alphabet256 :: "byte list" where
  "alphabet256 = map word_of_nat [0..<256]"

definition mtf_encode :: "bytes \<Rightarrow> bytes res" where
  "mtf_encode data = mtf_encode_loop alphabet256 data"

definition mtf_decode :: "bytes \<Rightarrow> bytes res" where
  "mtf_decode data = mtf_decode_loop alphabet256 data"

definition rotation :: "bytes \<Rightarrow> nat \<Rightarrow> bytes" where
  "rotation data index = drop index data @ take index data"

definition bwt_rotations :: "bytes \<Rightarrow> (bytes \<times> nat) list" where
  "bwt_rotations data = sort (map (\<lambda>index. (rotation data index, index)) [0..<length data])"

definition bwt_encode :: "bytes \<Rightarrow> (bytes \<times> nat) res" where
  "bwt_encode data =
     (if data = [] then Inr ([], 0)
      else
        let rotations = bwt_rotations data in
        case list_index 0 (map snd rotations) of
          None \<Rightarrow> Inl StopIteration
        | Some primary_index \<Rightarrow> Inr (map (\<lambda>(rotation, _). last rotation) rotations, primary_index))"

definition bwt_table_step :: "bytes \<Rightarrow> bytes list \<Rightarrow> bytes list" where
  "bwt_table_step data table = sort (map (\<lambda>index. data ! index # table ! index) [0..<length data])"

definition bwt_decode :: "bytes \<Rightarrow> int \<Rightarrow> bytes res" where
  "bwt_decode data primary_index =
     (if length data = 0 then
        (if primary_index \<noteq> 0 then Inl (ValueError ''empty BWT transform requires primary index 0'')
         else Inr [])
      else if \<not> (0 \<le> primary_index \<and> primary_index < int (length data)) then
        Inl (ValueError ''BWT primary index out of range'')
      else
        Inr (((bwt_table_step data ^^ length data) (replicate (length data) [])) ! nat primary_index))"

definition apply_transform_with_param :: "string \<Rightarrow> bytes \<Rightarrow> (bytes \<times> nat) res" where
  "apply_transform_with_param name data =
    (if name \<notin> set TRANSFORM_ORDER then Inl (ValueError (''Unsupported transform: '' @ name))
     else if name = ''identity'' then Inr (data, 0)
     else if name = ''xor_previous'' then Inr (previous_encode (\<lambda>x p. x XOR p) data, 0)
     else if name = ''delta_previous'' then Inr (previous_encode (\<lambda>x p. x - p) data, 0)
     else if name = ''nibble_split'' then Inr (map swap_nibbles data, 0)
     else if name = ''mtf'' then rbind (mtf_encode data) (\<lambda>encoded. Inr (encoded, 0))
     else if name = ''bwt'' then bwt_encode data
     else if name = ''bwt_mtf'' then
       rbind (bwt_encode data) (\<lambda>(bwt_data, primary_index).
         rbind (mtf_encode bwt_data) (\<lambda>encoded. Inr (encoded, primary_index)))
     else Inl (ValueError (''Unsupported transform: '' @ name)))"

definition apply_transform :: "string \<Rightarrow> bytes \<Rightarrow> bytes res" where
  "apply_transform name data =
     rbind (apply_transform_with_param name data) (\<lambda>(transformed, _). Inr transformed)"

definition invert_transform :: "string \<Rightarrow> bytes \<Rightarrow> int \<Rightarrow> bytes res" where
  "invert_transform name data param =
    (if name \<notin> set TRANSFORM_ORDER then Inl (ValueError (''Unsupported transform: '' @ name))
     else if name = ''identity'' then Inr data
     else if name = ''xor_previous'' then Inr (previous_decode (\<lambda>x p. x XOR p) data)
     else if name = ''delta_previous'' then Inr (previous_decode (\<lambda>x p. p + x) data)
     else if name = ''nibble_split'' then Inr (map swap_nibbles data)
     else if name = ''mtf'' then mtf_decode data
     else if name = ''bwt'' then bwt_decode data param
     else if name = ''bwt_mtf'' then rbind (mtf_decode data) (\<lambda>decoded. bwt_decode decoded param)
     else Inl (ValueError (''Unsupported transform: '' @ name)))"

section \<open>The contracts\<close>

text \<open>A transform with a parameter, as the optimizer and the container use it.\<close>

locale reversible_transform =
  fixes fwd :: "bytes \<Rightarrow> (bytes \<times> nat) res"
    and bwd :: "bytes \<Rightarrow> int \<Rightarrow> bytes res"
  assumes fwd_bwd: "\<exists>t p. fwd d = Inr (t, p) \<and> length t = length d \<and> bwd t (int p) = Inr d"
begin

lemma fwd_total: "\<exists>t p. fwd d = Inr (t, p)"
  using fwd_bwd by blast

lemma fwd_length: "fwd d = Inr (t, p) \<Longrightarrow> length t = length d"
  using fwd_bwd [of d] by auto

lemma bwd_fwd: "fwd d = Inr (t, p) \<Longrightarrow> bwd t (int p) = Inr d"
  using fwd_bwd [of d] by auto

lemma fwd_injective: "fwd d = fwd d' \<Longrightarrow> d = d'"
  using fwd_bwd [of d] fwd_bwd [of d'] by auto

end

text \<open>A length-preserving byte code without a parameter.\<close>

locale byte_code =
  fixes enc dec :: "bytes \<Rightarrow> bytes res"
  assumes enc_dec: "\<exists>e. enc d = Inr e \<and> length e = length d \<and> dec e = Inr d"

sublocale byte_code \<subseteq> plain: reversible_transform
  "\<lambda>d. rbind (enc d) (\<lambda>e. Inr (e, 0))" "\<lambda>t p. dec t"
proof unfold_locales
  fix d
  show "\<exists>t p. rbind (enc d) (\<lambda>e. Inr (e, 0)) = Inr (t, p) \<and> length t = length d \<and> dec t = Inr d"
    using enc_dec [of d] by auto
qed

text \<open>A transform followed by a byte code on its output.\<close>

locale transform_then_bytes =
  first: reversible_transform fwd bwd + second: byte_code enc dec
  for fwd :: "bytes \<Rightarrow> (bytes \<times> nat) res"
    and bwd :: "bytes \<Rightarrow> int \<Rightarrow> bytes res"
    and enc dec :: "bytes \<Rightarrow> bytes res"

sublocale transform_then_bytes \<subseteq> composed: reversible_transform
  "\<lambda>d. rbind (fwd d) (\<lambda>(t, p). rbind (enc t) (\<lambda>e. Inr (e, p)))"
  "\<lambda>t p. rbind (dec t) (\<lambda>u. bwd u p)"
proof unfold_locales
  fix d
  obtain t p where tp: "fwd d = Inr (t, p)" "length t = length d" "bwd t (int p) = Inr d"
    using first.fwd_bwd by blast
  obtain e where e: "enc t = Inr e" "length e = length t" "dec e = Inr t"
    using second.enc_dec by blast
  show "\<exists>t p. rbind (fwd d) (\<lambda>(t, p). rbind (enc t) (\<lambda>e. Inr (e, p))) = Inr (t, p) \<and>
      length t = length d \<and> rbind (dec t) (\<lambda>u. bwd u (int p)) = Inr d"
    using tp e by auto
qed

section \<open>Differences to the previous byte\<close>

text \<open>The byte operations of a difference code: \<open>g\<close> undoes \<open>f\<close> for the same previous byte.\<close>

locale previous_ops =
  fixes f g :: "byte \<Rightarrow> byte \<Rightarrow> byte"
  assumes g_f: "g (f x p) p = x"
begin

lemma encode_prefix:
  assumes "data \<noteq> []" and "k < length data"
  shows "foldl (\<lambda>out i. out @ [f (data ! i) (data ! (i - 1))]) [data ! 0] [1..<Suc k] =
         data ! 0 # map (\<lambda>i. f (data ! i) (data ! (i - 1))) [1..<Suc k]"
  using assms by (induction k) auto

lemma encode_eq:
  assumes "data \<noteq> []"
  shows "previous_encode f data = data ! 0 # map (\<lambda>i. f (data ! i) (data ! (i - 1))) [1..<length data]"
proof -
  obtain k where k: "length data = Suc k" using assms by (cases data) auto
  show ?thesis using encode_prefix [OF assms, of k] assms k by (simp add: previous_encode_def)
qed

lemma length_previous_encode: "length (previous_encode f data) = length data"
proof (cases "data = []")
  case True
  then show ?thesis by (simp add: previous_encode_def)
next
  case False
  then have "0 < length data" by simp
  then show ?thesis using False by (simp add: encode_eq)
qed

lemma nth_previous_encode:
  assumes "0 < i" and "i < length data"
  shows "previous_encode f data ! i = f (data ! i) (data ! (i - 1))"
proof -
  have ne: "data \<noteq> []" using assms by auto
  have "[1..<length data] ! (i - 1) = i" using assms by (subst nth_upt) auto
  then show ?thesis using assms unfolding encode_eq [OF ne] by (simp add: nth_Cons')
qed

lemma decode_prefix:
  assumes "0 < k" and "k \<le> length data"
  shows "foldl (\<lambda>out i. out @ [g (previous_encode f data ! i) (out ! (i - 1))]) [data ! 0] [1..<k] =
         take k data"
  using assms
proof (induction k)
  case (Suc k)
  show ?case
  proof (cases "k = 0")
    case True
    then show ?thesis using Suc.prems by (cases data) auto
  next
    case False
    then have "foldl (\<lambda>out i. out @ [g (previous_encode f data ! i) (out ! (i - 1))]) [data ! 0] [1..<Suc k] =
        take k data @ [g (previous_encode f data ! k) (take k data ! (k - 1))]"
      using Suc by simp
    also have "g (previous_encode f data ! k) (take k data ! (k - 1)) = data ! k"
      using False Suc.prems by (simp add: nth_previous_encode g_f)
    finally show ?thesis using Suc.prems by (simp add: take_Suc_conv_app_nth)
  qed
qed simp

lemma previous_roundtrip: "previous_decode g (previous_encode f data) = data"
proof (cases "data = []")
  case True
  then show ?thesis by (simp add: previous_decode_def previous_encode_def)
next
  case False
  then have "previous_encode f data \<noteq> []" and "previous_encode f data ! 0 = data ! 0"
    by (simp_all add: encode_eq)
  then show ?thesis
    using decode_prefix [of "length data" data] False
    by (simp add: previous_decode_def length_previous_encode)
qed

end

interpretation xor_prev: previous_ops "\<lambda>x p. x XOR p" "\<lambda>x p. x XOR p"
  by unfold_locales (simp add: xor.assoc)

interpretation delta_prev: previous_ops "\<lambda>x p. x - p" "\<lambda>x p. p + x"
  by unfold_locales simp

section \<open>Nibble swap\<close>

lemma bit_swap_nibbles:
  "bit (swap_nibbles v) n \<longleftrightarrow> n < 8 \<and> (if 4 \<le> n then bit v (n - 4) else bit v (n + 4))"
proof -
  have "v AND 15 = take_bit 4 v"
    by (simp add: take_bit_eq_mask mask_eq_exp_minus_1)
  then have "bit (swap_nibbles v) n \<longleftrightarrow>
      (4 \<le> n \<and> n < 8 \<and> n - 4 < 4 \<and> bit v (n - 4)) \<or> bit v (n + 4)"
    by (simp add: swap_nibbles_def bit_or_iff bit_push_bit_iff bit_drop_bit_eq bit_take_bit_iff add.commute)
      auto
  moreover have "bit v (n + 4) \<Longrightarrow> n < 4"
    using bit_imp_le_length [of v "n + 4"] by simp
  ultimately show ?thesis by auto
qed

lemma swap_nibbles_involution [simp, roundtrip]: "swap_nibbles (swap_nibbles v) = v"
  by (rule bit_word_eqI) (auto simp: bit_swap_nibbles)

section \<open>Move to front\<close>

lemma length_alphabet256 [simp]: "length alphabet256 = 256"
  by (simp add: alphabet256_def)

lemma set_alphabet256 [simp]: "set alphabet256 = UNIV"
proof -
  have "v \<in> set alphabet256" for v :: byte
  proof -
    have "v = word_of_nat (unat v)" by simp
    then show ?thesis unfolding alphabet256_def
      using unat_byte_less [of v] by (metis atLeastLessThan_iff atLeast_upt image_eqI less_eq_nat.simps(1)
        list.set_map set_upt)
  qed
  then show ?thesis by auto
qed

lemma move_front_props:
  assumes "i < length al"
  shows "length (move_front i al) = length al" and "set (move_front i al) = set al"
proof -
  have al: "al = take i al @ al ! i # drop (Suc i) al" using assms by (rule id_take_nth_drop)
  have "set al = set (take i al @ al ! i # drop (Suc i) al)" using al by simp
  then show "set (move_front i al) = set al" by (auto simp: move_front_def)
  show "length (move_front i al) = length al" using assms by (auto simp: move_front_def)
qed

lemma mtf_loop_roundtrip:
  assumes "length al = 256" and "set al = UNIV"
  shows "\<exists>e. mtf_encode_loop al d = Inr e \<and> length e = length d \<and> mtf_decode_loop al e = Inr d"
  using assms
proof (induction d arbitrary: al)
  case (Cons v d)
  obtain i where i: "list_index v al = Some i" using list_index_ex [of v al] Cons.prems by auto
  then have il: "i < length al" "al ! i = v" by (auto dest: list_index_Some)
  obtain e where e: "mtf_encode_loop (move_front i al) d = Inr e" "length e = length d"
      "mtf_decode_loop (move_front i al) e = Inr d"
    using Cons.IH [of "move_front i al"] Cons.prems move_front_props [OF il(1)] by auto
  have "unat (word_of_nat i :: byte) = i" using il Cons.prems by (simp add: unat_word_of_nat_byte)
  then show ?case using i il e by simp
qed simp

interpretation mtf: byte_code mtf_encode mtf_decode
  by unfold_locales (simp add: mtf_encode_def mtf_decode_def mtf_loop_roundtrip)

section \<open>Burrows-Wheeler\<close>

lemma take_mono_lex:
  fixes xs ys :: "'a :: linorder list"
  shows "xs \<le> ys \<Longrightarrow> take k xs \<le> take k ys"
proof (induction k arbitrary: xs ys)
  case (Suc k)
  then show ?case by (cases xs; cases ys) auto
qed simp

lemma sorted_map_take:
  fixes xss :: "'a :: linorder list list"
  shows "sorted xss \<Longrightarrow> sorted (map (take k) xss)"
  by (auto simp: sorted_wrt_map intro: sorted_wrt_mono_rel [rotated] take_mono_lex)

lemma sorted_map_fst:
  fixes ps :: "('a :: linorder \<times> 'b :: linorder) list"
  assumes "sorted ps"
  shows "sorted (map fst ps)"
proof -
  have "x \<le> y \<Longrightarrow> fst x \<le> fst y" for x y :: "'a \<times> 'b"
    by (auto simp: less_eq_prod_def)
  then show ?thesis
    unfolding sorted_map using assms by (rule sorted_wrt_mono_rel)
qed

text \<open>The rotation one step back: the last byte moves to the front.\<close>

definition rotate_back :: "bytes \<Rightarrow> bytes" where
  "rotate_back r = last r # butlast r"

lemma rotate_back_0: "d \<noteq> [] \<Longrightarrow> rotate_back (rotation d 0) = rotation d (length d - 1)"
  by (cases d rule: rev_cases) (simp_all add: rotate_back_def rotation_def)

lemma rotate_back_Suc:
  assumes "Suc i < length d"
  shows "rotate_back (rotation d (Suc i)) = rotation d i"
proof -
  have "take (Suc i) d = take i d @ [d ! i]" using assms by (simp add: take_Suc_conv_app_nth)
  then have "rotate_back (rotation d (Suc i)) = d ! i # drop (Suc i) d @ take i d"
    by (simp add: rotate_back_def rotation_def butlast_append)
  then show ?thesis using assms by (simp add: rotation_def Cons_nth_drop_Suc)
qed

lemma mset_rotate_back:
  assumes "d \<noteq> []"
  shows "mset (map rotate_back (map (rotation d) [0..<length d])) = mset (map (rotation d) [0..<length d])"
proof -
  obtain m where m: "length d = Suc m" using assms by (cases d) auto
  have "map rotate_back (map (rotation d) [0..<Suc m]) =
      rotate_back (rotation d 0) # map (\<lambda>i. rotate_back (rotation d (Suc i))) [0..<m]"
    by (simp add: upt_conv_Cons map_Suc_upt [symmetric] comp_def del: upt_Suc)
  also have "map (\<lambda>i. rotate_back (rotation d (Suc i))) [0..<m] = map (rotation d) [0..<m]"
    using m by (auto simp: rotate_back_Suc)
  finally show ?thesis using assms m by (simp add: rotate_back_0)
qed

definition sorted_rotations :: "bytes \<Rightarrow> bytes list" where
  "sorted_rotations d = map fst (bwt_rotations d)"

lemma length_bwt_rotations [simp]: "length (bwt_rotations d) = length d"
  by (simp add: bwt_rotations_def)

lemma mset_sorted_rotations: "mset (sorted_rotations d) = mset (map (rotation d) [0..<length d])"
  by (simp add: sorted_rotations_def bwt_rotations_def mset_map [symmetric] comp_def
      del: mset_map)
    (simp add: multiset.map_comp comp_def)

lemma sorted_sorted_rotations: "sorted (sorted_rotations d)"
  by (simp add: sorted_rotations_def bwt_rotations_def sorted_map_fst)

lemma sorted_rotations_length: "r \<in> set (sorted_rotations d) \<Longrightarrow> length r = length d"
proof -
  assume "r \<in> set (sorted_rotations d)"
  then have "r \<in># mset (map (rotation d) [0..<length d])"
    using mset_sorted_rotations by (metis set_mset_mset)
  then show ?thesis by (auto simp: rotation_def)
qed

lemma bwt_table_step_take:
  assumes "d \<noteq> []" and "k < length d"
  shows "bwt_table_step (map last (sorted_rotations d)) (map (take k) (sorted_rotations d)) =
         map (take (Suc k)) (sorted_rotations d)"
proof -
  let ?R = "sorted_rotations d"
  have len: "length ?R = length d" by (simp add: sorted_rotations_def)
  have "map (\<lambda>i. map last ?R ! i # map (take k) ?R ! i) [0..<length ?R] = map (\<lambda>r. last r # take k r) ?R"
    by (rule nth_equalityI) auto
  also have "\<dots> = map (take (Suc k)) (map rotate_back ?R)"
    using assms by (auto simp: rotate_back_def butlast_conv_take dest: sorted_rotations_length)
  finally have step: "bwt_table_step (map last ?R) (map (take k) ?R) =
      sort (map (take (Suc k)) (map rotate_back ?R))"
    by (simp add: bwt_table_step_def)
  have "mset (map rotate_back ?R) = mset ?R"
    using mset_rotate_back [OF assms(1)] mset_sorted_rotations [of d] by (simp only: mset_map)
  then have "mset (map (take (Suc k)) ?R) = mset (map (take (Suc k)) (map rotate_back ?R))"
    by (simp only: mset_map)
  then show ?thesis
    unfolding step by (intro properties_for_sort sorted_map_take sorted_sorted_rotations)
qed

lemma bwt_table_iterate:
  assumes "d \<noteq> []" and "k \<le> length d"
  shows "(bwt_table_step (map last (sorted_rotations d)) ^^ k) (replicate (length d) []) =
         map (take k) (sorted_rotations d)"
  using assms(2)
proof (induction k)
  case 0
  show ?case
    by (simp add: sorted_rotations_def map_replicate_const)
next
  case (Suc k)
  then show ?case using bwt_table_step_take [OF assms(1), of k] by simp
qed

lemma bwt_roundtrip:
  "\<exists>t p. bwt_encode d = Inr (t, p) \<and> length t = length d \<and> bwt_decode t (int p) = Inr d"
proof (cases "d = []")
  case True
  then show ?thesis by (simp add: bwt_encode_def bwt_decode_def)
next
  case False
  let ?rs = "bwt_rotations d"
  have zero: "0 \<in> set (map snd ?rs)"
    using False by (simp add: bwt_rotations_def image_image)
  obtain p where p: "list_index 0 (map snd ?rs) = Some p"
    using list_index_ex [OF zero] ..
  then have pl: "p < length d" and "snd (?rs ! p) = 0"
    by (auto dest: list_index_Some)
  moreover have "?rs ! p \<in> set ?rs" using pl by simp
  ultimately have nth: "fst (?rs ! p) = rotation d 0"
    by (auto simp: bwt_rotations_def)
  have t: "map (\<lambda>(r, _). last r) ?rs = map last (sorted_rotations d)"
    by (simp add: sorted_rotations_def split_def comp_def)
  have "(bwt_table_step (map last (sorted_rotations d)) ^^ length d) (replicate (length d) []) =
      map (take (length d)) (sorted_rotations d)"
    by (rule bwt_table_iterate [OF False order_refl])
  also have "\<dots> = sorted_rotations d"
    by (intro map_idI) (simp add: sorted_rotations_length)
  finally have "bwt_decode (map last (sorted_rotations d)) (int p) = Inr (sorted_rotations d ! p)"
    using False pl by (simp add: bwt_decode_def sorted_rotations_def)
  also have "sorted_rotations d ! p = d"
    using nth pl by (simp add: sorted_rotations_def rotation_def)
  finally show ?thesis
    using False p by (auto simp: bwt_encode_def t) (simp add: sorted_rotations_def)
qed

lemma bwt_encode_param:
  assumes "bwt_encode d = Inr (t, p)"
  shows "d = [] \<and> p = 0 \<or> p < length d"
  using assms
  by (auto simp: bwt_encode_def Let_def split: if_splits option.splits dest: list_index_Some)

interpretation bwt: reversible_transform bwt_encode bwt_decode
  by unfold_locales (rule bwt_roundtrip)

interpretation bwt_mtf: transform_then_bytes bwt_encode bwt_decode mtf_encode mtf_decode ..

section \<open>Every named transform is reversible\<close>

lemma named_transform_roundtrip:
  assumes "name \<in> set TRANSFORM_ORDER"
  shows "\<exists>t p. apply_transform_with_param name d = Inr (t, p) \<and> length t = length d \<and>
           invert_transform name t (int p) = Inr d"
  using transform_cases [OF assms]
proof (elim disjE)
  assume "name = ''mtf''"
  then show ?thesis using mtf.plain.fwd_bwd [of d]
    by (simp add: apply_transform_with_param_def invert_transform_def TRANSFORM_ORDER_def)
next
  assume "name = ''bwt''"
  then show ?thesis using bwt.fwd_bwd [of d]
    by (simp add: apply_transform_with_param_def invert_transform_def TRANSFORM_ORDER_def)
next
  assume "name = ''bwt_mtf''"
  then show ?thesis using bwt_mtf.composed.fwd_bwd [of d]
    by (simp add: apply_transform_with_param_def invert_transform_def TRANSFORM_ORDER_def)
qed (simp_all add: apply_transform_with_param_def invert_transform_def TRANSFORM_ORDER_def
    xor_prev.previous_roundtrip xor_prev.length_previous_encode
    delta_prev.previous_roundtrip delta_prev.length_previous_encode comp_def)

text \<open>The parameter is zero except for the two transforms that store a primary index.\<close>

lemma transform_param_range:
  assumes "apply_transform_with_param name d = Inr (t, p)"
  shows "(name \<notin> BWT_TRANSFORMS \<longrightarrow> p = 0) \<and> (p = 0 \<or> p < length d)"
  using assms
  by (auto simp: apply_transform_with_param_def BWT_TRANSFORMS_def rbind_Inr_iff split: if_splits
      dest: bwt_encode_param)

section \<open>Inverting keeps the length\<close>

lemma mtf_decode_loop_length: "mtf_decode_loop al d = Inr e \<Longrightarrow> length e = length d"
  by (induction al d arbitrary: e rule: mtf_decode_loop.induct) (auto simp: rbind_Inr_iff split: if_splits)

lemma bwt_table_rows:
  assumes "table = (bwt_table_step data ^^ k) (replicate (length data) [])"
  shows "length table = length data" and "row \<in> set table \<Longrightarrow> length row = k"
proof -
  have "length table = length data \<and> (\<forall>row \<in> set table. length row = k)"
    using assms
  proof (induction k arbitrary: table)
    case (Suc k)
    define t where "t = (bwt_table_step data ^^ k) (replicate (length data) [])"
    have "length t = length data" "\<forall>row \<in> set t. length row = k" using Suc.IH [OF t_def] by auto
    moreover have "table = bwt_table_step data t" using Suc.prems by (simp add: t_def)
    ultimately show ?case by (auto simp: bwt_table_step_def)
  qed simp
  then show "length table = length data" and "row \<in> set table \<Longrightarrow> length row = k" by auto
qed

lemma bwt_decode_length:
  assumes "bwt_decode d p = Inr e"
  shows "length e = length d"
proof (cases "d = []")
  case False
  define t where "t = (bwt_table_step d ^^ length d) (replicate (length d) [])"
  have "e = t ! nat p" "nat p < length d"
    using assms False by (auto simp: bwt_decode_def t_def [symmetric] split: if_splits)
  then show ?thesis using bwt_table_rows [OF t_def] by simp
qed (use assms in \<open>simp add: bwt_decode_def split: if_splits\<close>)

lemma length_previous_decode: "length (previous_decode g d) = length d"
proof (cases d)
  case (Cons x xs)
  have "length (foldl (\<lambda>out i. out @ [g (d ! i) (out ! (i - 1))]) ys ks) = length ys + length ks" for ys ks
    by (induction ks arbitrary: ys) auto
  then have "length (foldl (\<lambda>out i. out @ [g (d ! i) (out ! (i - 1))]) ys [1..<length d]) = length ys + (length d - 1)" for ys
    by simp
  then have "length (previous_decode g d) = Suc (length d - 1)" using Cons by (simp add: previous_decode_def)
  then show ?thesis using Cons by simp
qed (simp add: previous_decode_def)

lemma invert_transform_length:
  assumes "invert_transform name d p = Inr e"
  shows "length e = length d"
proof -
  have "name \<in> set TRANSFORM_ORDER" using assms by (auto simp: invert_transform_def split: if_splits)
  from transform_cases [OF this] assms show ?thesis
    by (elim disjE) (auto simp: invert_transform_def TRANSFORM_ORDER_def length_previous_decode mtf_decode_def
        rbind_Inr_iff dest!: mtf_decode_loop_length bwt_decode_length)
qed

lemma invert_transform_param:
  assumes "invert_transform name d p = Inr e"
  shows "name \<in> BWT_TRANSFORMS \<Longrightarrow> d \<noteq> [] \<Longrightarrow> 0 \<le> p \<and> p < int (length d)"
    and "name \<notin> BWT_TRANSFORMS \<Longrightarrow> invert_transform name d q = Inr e"
proof -
  have "name \<in> set TRANSFORM_ORDER" using assms by (auto simp: invert_transform_def split: if_splits)
  note cases = transform_cases [OF this]
  show "name \<notin> BWT_TRANSFORMS \<Longrightarrow> invert_transform name d q = Inr e"
    using cases assms by (elim disjE) (simp_all add: invert_transform_def BWT_TRANSFORMS_def TRANSFORM_ORDER_def)
  show "name \<in> BWT_TRANSFORMS \<Longrightarrow> d \<noteq> [] \<Longrightarrow> 0 \<le> p \<and> p < int (length d)"
    using cases assms
    by (elim disjE) (auto simp: invert_transform_def BWT_TRANSFORMS_def TRANSFORM_ORDER_def bwt_decode_def mtf_decode_def
        rbind_Inr_iff dest!: mtf_decode_loop_length split: if_splits)
qed

end
