(* ===== verification/Optimizer.thy ===== *)
theory Optimizer
  imports Hashlib Bases Transforms
begin

text \<open>
  The residual planner of \<^verbatim>\<open>src/bogvm/optimizer.py\<close>. A plan names a basis with its
  coefficients and lists the bytes in which the data differs from the synthesized basis; the
  planner searches all bases (and, in the transform tournament, all reversible transforms) for
  the cheapest plan, and checks the plan it returns by reconstructing the data.

  Shown here: the planner never raises, its plan reconstructs the data exactly, and its residual
  count is least among all coefficients of all bases.
\<close>

record residual =
  r_offset :: int
  r_byte :: int

record plan =
  p_basis :: string
  p_start_byte :: int
  p_delta :: int
  p_length :: int
  p_sha256 :: string
  p_residual_count :: int
  p_residuals :: "residual list"
  p_reconstructed_hash :: string

definition TRANSFORM_COSTS :: "(string, int) pydict" where
  "TRANSFORM_COSTS = [(''identity'', 0), (''xor_previous'', 1), (''delta_previous'', 1),
     (''nibble_split'', 1), (''mtf'', 8), (''bwt'', 16), (''bwt_mtf'', 24)]"

definition BASIS_COSTS :: "(string, int) pydict" where
  "BASIS_COSTS = [(''zero_block'', 0), (''repeat_byte'', 1), (''delta_u8'', 2), (''dictionary_u8'', 3),
     (''rle_u8'', 3), (''ramp_u8'', 2), (''triangle_u8'', 4), (''sine8_u8'', 5), (''fourier8_u8'', 6)]"

section \<open>Residuals\<close>

text \<open>The positions where the data and the generated bytes differ.\<close>

definition count_residuals :: "bytes \<Rightarrow> bytes \<Rightarrow> nat" where
  "count_residuals data generated = length (filter (\<lambda>(actual, expected). actual \<noteq> expected) (zip data generated))"

definition make_residuals :: "bytes \<Rightarrow> bytes \<Rightarrow> residual list" where
  "make_residuals data generated =
     map (\<lambda>(offset, actual, expected). \<lparr>r_offset = int offset, r_byte = uint actual\<rparr>)
       (filter (\<lambda>(offset, actual, expected). actual \<noteq> expected) (enumerate 0 (zip data generated)))"

fun apply_residuals_from :: "bytes \<Rightarrow> int \<Rightarrow> residual list \<Rightarrow> bytes res" where
  "apply_residuals_from reconstructed previous_offset [] = Inr reconstructed"
| "apply_residuals_from reconstructed previous_offset (patch # patches) =
    (if r_offset patch \<le> previous_offset then
       Inl (OptimizerError ''residual offsets must be strictly increasing'')
     else if \<not> (0 \<le> r_offset patch \<and> r_offset patch < int (length reconstructed)) then
       Inl (OptimizerError ''residual offset out of generated byte range'')
     else if \<not> (0 \<le> r_byte patch \<and> r_byte patch \<le> 255) then
       Inl (OptimizerError ''residual byte must be 0..255'')
     else apply_residuals_from
       (reconstructed[nat (r_offset patch) := word_of_int (r_byte patch)]) (r_offset patch) patches)"

definition apply_residuals :: "bytes \<Rightarrow> residual list \<Rightarrow> bytes res" where
  "apply_residuals generated residuals = apply_residuals_from generated (- 1) residuals"

definition assert_exact_reconstruction :: "plan \<Rightarrow> bytes \<Rightarrow> unit res" where
  "assert_exact_reconstruction plan data =
    rbind (synthesize_basis (p_basis plan) (p_start_byte plan) (p_length plan) (p_delta plan)) (\<lambda>generated.
    rbind (apply_residuals generated (p_residuals plan)) (\<lambda>reconstructed.
    let actual_hash = hexdigest reconstructed; expected_hash = hexdigest data in
    if p_length plan \<noteq> int (length data) then
      Inl (OptimizerError ''residual plan length does not match input length'')
    else if p_sha256 plan \<noteq> expected_hash then
      Inl (OptimizerError ''residual plan target hash does not match input bytes'')
    else if p_residual_count plan \<noteq> int (length (p_residuals plan)) then
      Inl (OptimizerError ''residual_count does not match residual list length'')
    else if actual_hash \<noteq> expected_hash then
      Inl (OptimizerError ''residual plan failed exact SHA-256 reconstruction'')
    else if p_reconstructed_hash plan \<noteq> actual_hash then
      Inl (OptimizerError ''reconstructed_hash does not match residual application'')
    else Inr ()))"

section \<open>The search over bases and coefficients\<close>

text \<open>\<open>counts = [0] * 256; for v in vals: counts[v] += 1\<close>\<close>

definition byte_counts :: "nat list \<Rightarrow> nat list" where
  "byte_counts vals = foldl (\<lambda>counts v. counts[v := counts ! v + 1]) (replicate 256 0) vals"

text \<open>\<open>min(range(256), key=lambda value: (-counts[value], value))\<close>\<close>

definition best_count_byte :: "nat list \<Rightarrow> int" where
  "best_count_byte counts =
     (case keep_best (\<lambda>value. (- int (counts ! value), value)) None [0..<256] of
        Some value \<Rightarrow> int value
      | None \<Rightarrow> 0)"

definition most_common_byte :: "bytes \<Rightarrow> int" where
  "most_common_byte data =
     (if data = [] then 0 else best_count_byte (byte_counts (map unat data)))"

definition delta_start_votes :: "bytes \<Rightarrow> nat \<Rightarrow> nat list" where
  "delta_start_votes data delta =
     map (\<lambda>(offset, value). nat ((uint value - int offset * int delta) mod 256)) (enumerate 0 data)"

definition coefficient_tuples_for_basis :: "string \<Rightarrow> bytes \<Rightarrow> (int \<times> int) list" where
  "coefficient_tuples_for_basis basis data =
    (if basis = ''zero_block'' then [(0, 0)]
     else if basis = ''delta_u8'' then
       map (\<lambda>delta. (best_count_byte (byte_counts (delta_start_votes data delta)), int delta)) [0..<256]
     else if basis \<in> {''dictionary_u8'', ''rle_u8''} then [(most_common_byte data, 0)]
     else map (\<lambda>start_byte. (int start_byte, 0)) [0..<256])"

record candidate =
  c_basis :: string
  c_basis_index :: nat
  c_tuple :: "int \<times> int"
  c_residual_count :: nat

definition candidate_key :: "candidate \<Rightarrow> nat \<times> nat \<times> int \<times> int" where
  "candidate_key c = (c_residual_count c, c_basis_index c, c_tuple c)"

definition search_space :: "bytes \<Rightarrow> (nat \<times> string \<times> int \<times> int) list" where
  "search_space data = concat (map (\<lambda>(basis_index, basis).
     map (\<lambda>coefficient_tuple. (basis_index, basis, coefficient_tuple)) (coefficient_tuples_for_basis basis data))
     (enumerate 0 BASIS_ORDER))"

definition eval_candidate :: "bytes \<Rightarrow> nat \<times> string \<times> int \<times> int \<Rightarrow> candidate res" where
  "eval_candidate data = (\<lambda>(basis_index, basis, start_byte, delta).
     rbind (synthesize_basis basis start_byte (int (length data)) delta) (\<lambda>generated.
       Inr \<lparr>c_basis = basis, c_basis_index = basis_index, c_tuple = (start_byte, delta),
            c_residual_count = count_residuals data generated\<rparr>))"

definition optimize_residual_plan :: "bytes \<Rightarrow> plan res" where
  "optimize_residual_plan data =
    rbind (map_res (eval_candidate data) (search_space data)) (\<lambda>candidates.
    case keep_best candidate_key None candidates of
      None \<Rightarrow> Inl AssertionError
    | Some best \<Rightarrow>
        rbind (synthesize_basis (c_basis best) (fst (c_tuple best)) (int (length data)) (snd (c_tuple best)))
          (\<lambda>generated.
        let residuals = make_residuals data generated in
        rbind (apply_residuals generated residuals) (\<lambda>reconstructed.
        let plan = \<lparr>p_basis = c_basis best, p_start_byte = fst (c_tuple best), p_delta = snd (c_tuple best),
              p_length = int (length data), p_sha256 = hexdigest data,
              p_residual_count = int (c_residual_count best), p_residuals = residuals,
              p_reconstructed_hash = hexdigest reconstructed\<rparr> in
        rbind (assert_exact_reconstruction plan data) (\<lambda>_. Inr plan))))"

section \<open>Patching the differences restores the data\<close>

lemma word_of_int_uint_byte [simp]: "word_of_int (uint (b :: byte)) = b"
  by simp

lemma uint_byte_bounds [simp]: "0 \<le> uint (b :: byte)" "uint (b :: byte) \<le> 255"
proof -
  show "0 \<le> uint b" by simp
  have "uint b < 2 ^ 8" using uint_lt2p [of b] by simp
  then show "uint b \<le> 255" by simp
qed

lemma uint_byte_mod [simp]: "uint (b :: byte) mod 256 = uint b"
  using uint_byte_bounds [of b] by (intro mod_pos_pos_trivial) linarith+

text \<open>
  Patching from position \<open>length us\<close> on: everything before is already the data, everything after is
  still the generated basis.
\<close>

lemma apply_make_residuals_from:
  assumes "length xs = length ys" and "prev < int (length us)"
  shows "apply_residuals_from (us @ ys) prev
           (map (\<lambda>(offset, actual, expected). \<lparr>r_offset = int offset, r_byte = uint actual\<rparr>)
             (filter (\<lambda>(offset, actual, expected). actual \<noteq> expected) (enumerate (length us) (zip xs ys)))) =
         Inr (us @ xs)"
  using assms
proof (induction xs ys arbitrary: us prev rule: list_induct2)
  case (Cons x xs y ys)
  have step: "us @ z # zs = (us @ [z]) @ zs" "Suc (length us) = length (us @ [z])" for z :: byte and zs
    by simp_all
  show ?case
  proof (cases "x = y")
    case True
    then show ?thesis
      using Cons.IH [of prev "us @ [y]"] Cons.prems by (simp add: enumerate_simps)
  next
    case False
    then show ?thesis
      using Cons.IH [of "int (length us)" "us @ [x]"] Cons.prems
      by (simp add: enumerate_simps)
  qed
qed (simp add: enumerate_simps)

lemma apply_make_residuals:
  "length data = length generated \<Longrightarrow> apply_residuals generated (make_residuals data generated) = Inr data"
  using apply_make_residuals_from [of data generated "- 1" "[]"]
  by (simp add: apply_residuals_def make_residuals_def)

lemma filter_enumerate_length:
  "length (filter (\<lambda>(i, p). P p) (enumerate n xs)) = length (filter P xs)"
  by (induction xs arbitrary: n) (auto simp: enumerate_simps)

lemma length_make_residuals [len_simps]:
  "length (make_residuals data generated) = count_residuals data generated"
  unfolding make_residuals_def count_residuals_def
  using filter_enumerate_length [of "\<lambda>(a, e). a \<noteq> e" 0 "zip data generated"]
  by (simp add: case_prod_unfold)

text \<open>
  Well-formed residual lists: strictly increasing offsets inside the block, byte values. On such
  lists \<open>apply_residuals\<close> succeeds and is a plain sequence of byte updates.
\<close>

fun residuals_ok :: "int \<Rightarrow> int \<Rightarrow> residual list \<Rightarrow> bool" where
  "residuals_ok len previous_offset [] = True"
| "residuals_ok len previous_offset (patch # patches) =
    (previous_offset < r_offset patch \<and> 0 \<le> r_offset patch \<and> r_offset patch < len \<and>
     0 \<le> r_byte patch \<and> r_byte patch \<le> 255 \<and> residuals_ok len (r_offset patch) patches)"

definition patch_bytes :: "bytes \<Rightarrow> residual list \<Rightarrow> bytes" where
  "patch_bytes generated residuals =
     foldl (\<lambda>data patch. data[nat (r_offset patch) := word_of_int (r_byte patch)]) generated residuals"

lemma length_patch_bytes [simp, len_simps]: "length (patch_bytes generated residuals) = length generated"
  unfolding patch_bytes_def by (induction residuals arbitrary: generated) auto

lemma apply_residuals_from_eq:
  "apply_residuals_from generated prev rs = Inr out \<longleftrightarrow>
     residuals_ok (int (length generated)) prev rs \<and> out = patch_bytes generated rs"
  unfolding patch_bytes_def
  by (induction rs arbitrary: generated prev) (auto split: if_splits)

lemma apply_residuals_eq:
  "apply_residuals generated rs = Inr out \<longleftrightarrow>
     residuals_ok (int (length generated)) (- 1) rs \<and> out = patch_bytes generated rs"
  by (simp add: apply_residuals_def apply_residuals_from_eq)

lemma residuals_ok_count:
  assumes "residuals_ok len prev rs"
  shows "rs = [] \<or> int (length rs) \<le> len - prev - 1"
  using assms
proof (induction rs arbitrary: prev)
  case (Cons p ps)
  then have "ps = [] \<or> int (length ps) \<le> len - r_offset p - 1" by simp
  then show ?case using Cons.prems by auto
qed simp

section \<open>Counting bytes\<close>

lemma byte_counts_from:
  assumes "\<forall>v \<in> set vals. v < length counts" and "v < length counts"
  shows "foldl (\<lambda>counts v. counts[v := counts ! v + 1]) counts vals ! v = counts ! v + count_list vals v \<and>
         length (foldl (\<lambda>counts v. counts[v := counts ! v + 1]) counts vals) = length counts"
  using assms by (induction vals arbitrary: counts) (auto simp: nth_list_update)

lemma nth_byte_counts:
  assumes "\<forall>v \<in> set vals. v < 256" and "v < 256"
  shows "byte_counts vals ! v = count_list vals v"
  using byte_counts_from [of vals "replicate 256 0" v] assms by (simp add: byte_counts_def)

lemma best_count_byte:
  shows "0 \<le> best_count_byte counts \<and> best_count_byte counts \<le> 255"
    and "v < 256 \<Longrightarrow> counts ! v \<le> counts ! nat (best_count_byte counts)"
proof -
  obtain r where r: "keep_best (\<lambda>value. (- int (counts ! value), value)) None [0..<256] = Some r"
      "r \<in> set [0..<256]" "\<forall>v \<in> set [0..<256]. (- int (counts ! r), r) \<le> (- int (counts ! v), v)"
    by (rule keep_best_None [of "[0..<256]"]) simp
  have eq: "best_count_byte counts = int r" using r(1) by (simp add: best_count_byte_def)
  show "0 \<le> best_count_byte counts \<and> best_count_byte counts \<le> 255" using eq r(2) by auto
  assume "v < 256"
  then have "(- int (counts ! r), r) \<le> (- int (counts ! v), v)" using r(3) by simp
  then show "counts ! v \<le> counts ! nat (best_count_byte counts)"
    using eq by (auto simp: less_eq_prod_def)
qed

lemma most_common_byte_range: "0 \<le> most_common_byte data \<and> most_common_byte data \<le> 255"
  using best_count_byte(1) by (simp add: most_common_byte_def)

section \<open>The search always succeeds\<close>

lemma coefficient_tuples_range:
  "(s, d) \<in> set (coefficient_tuples_for_basis basis data) \<Longrightarrow>
     (0 \<le> s \<and> s \<le> 255) \<and> (0 \<le> d \<and> d \<le> 255)"
  using most_common_byte_range best_count_byte(1)
  by (auto simp: coefficient_tuples_for_basis_def split: if_splits)

lemma search_space_iff:
  "(i, b, s, d) \<in> set (search_space data) \<longleftrightarrow>
     i < length BASIS_ORDER \<and> b = BASIS_ORDER ! i \<and> (s, d) \<in> set (coefficient_tuples_for_basis b data)"
  by (auto simp: search_space_def in_set_enumerate_eq image_iff)

definition synth_of :: "bytes \<Rightarrow> string \<Rightarrow> int \<Rightarrow> int \<Rightarrow> bytes" where
  "synth_of data b s d = (case synthesize_basis b s (int (length data)) d of Inr bs \<Rightarrow> bs | Inl _ \<Rightarrow> [])"

lemma synth_of:
  assumes "b \<in> set BASIS_ORDER" and "0 \<le> s \<and> s \<le> 255" and "0 \<le> d \<and> d \<le> 255"
  shows "synthesize_basis b s (int (length data)) d = Inr (synth_of data b s d)"
    and "length (synth_of data b s d) = length data"
  using bogbasis.synth_length [OF assms(1,2) _ assms(3), of "int (length data)"]
  by (auto simp: synth_of_def)

definition space_candidate :: "bytes \<Rightarrow> nat \<times> string \<times> int \<times> int \<Rightarrow> candidate" where
  "space_candidate data = (\<lambda>(i, b, s, d). \<lparr>c_basis = b, c_basis_index = i, c_tuple = (s, d),
     c_residual_count = count_residuals data (synth_of data b s d)\<rparr>)"

lemma eval_search_space:
  "map_res (eval_candidate data) (search_space data) =
     Inr (map (space_candidate data) (search_space data))"
proof (rule map_res_total)
  fix x assume mem: "x \<in> set (search_space data)"
  obtain i b s d where x: "x = (i, b, s, d)" by (cases x)
  have "b \<in> set BASIS_ORDER" and "(s, d) \<in> set (coefficient_tuples_for_basis b data)"
    using mem unfolding x search_space_iff by auto
  with synth_of [of b s d data] coefficient_tuples_range [of s d b data]
  show "eval_candidate data x = Inr (space_candidate data x)"
    by (simp add: eval_candidate_def space_candidate_def x)
qed

lemma search_space_nonempty: "search_space data \<noteq> []"
  by (simp add: search_space_def BASIS_ORDER_def enumerate_simps coefficient_tuples_for_basis_def)

text \<open>What the returned plan says: the winner of the search and its residuals.\<close>

lemma optimize_residual_plan_winner:
  obtains i b s d plan where
    "optimize_residual_plan data = Inr plan"
    "(i, b, s, d) \<in> set (search_space data)"
    "\<forall>x \<in> set (search_space data).
       candidate_key (space_candidate data (i, b, s, d)) \<le> candidate_key (space_candidate data x)"
    "plan = \<lparr>p_basis = b, p_start_byte = s, p_delta = d, p_length = int (length data),
       p_sha256 = hexdigest data, p_residual_count = int (count_residuals data (synth_of data b s d)),
       p_residuals = make_residuals data (synth_of data b s d), p_reconstructed_hash = hexdigest data\<rparr>"
    "synthesize_basis b s (int (length data)) d = Inr (synth_of data b s d)"
    "length (synth_of data b s d) = length data"
proof -
  let ?cs = "map (space_candidate data) (search_space data)"
  have "?cs \<noteq> []" by (simp add: search_space_nonempty)
  then obtain best where best: "keep_best candidate_key None ?cs = Some best" "best \<in> set ?cs"
      "\<forall>c \<in> set ?cs. candidate_key best \<le> candidate_key c"
    by (rule keep_best_None)
  from best(2) obtain i b s d where x: "(i, b, s, d) \<in> set (search_space data)"
      "best = space_candidate data (i, b, s, d)"
    by auto
  then have bs: "b \<in> set BASIS_ORDER" "(0 \<le> s \<and> s \<le> 255) \<and> (0 \<le> d \<and> d \<le> 255)"
    by (auto simp: search_space_iff dest: coefficient_tuples_range)
  note synth = synth_of [OF bs(1) conjunct1 [OF bs(2)] conjunct2 [OF bs(2)], of data]
  have "optimize_residual_plan data = Inr \<lparr>p_basis = b, p_start_byte = s, p_delta = d,
      p_length = int (length data), p_sha256 = hexdigest data,
      p_residual_count = int (count_residuals data (synth_of data b s d)),
      p_residuals = make_residuals data (synth_of data b s d), p_reconstructed_hash = hexdigest data\<rparr>"
    using best(1) x(2) synth apply_make_residuals [of data "synth_of data b s d"]
    by (simp add: optimize_residual_plan_def eval_search_space space_candidate_def Let_def
        assert_exact_reconstruction_def length_make_residuals)
  with that [OF _ x(1) _ refl synth] best(3) x(2) show thesis by auto
qed

text \<open>A plan that reconstructs the given data.\<close>

definition plan_exact :: "plan \<Rightarrow> bytes \<Rightarrow> bool" where
  "plan_exact plan data \<longleftrightarrow>
     p_length plan = int (length data) \<and>
     p_basis plan \<in> set BASIS_ORDER \<and>
     (0 \<le> p_start_byte plan \<and> p_start_byte plan \<le> 255) \<and> (0 \<le> p_delta plan \<and> p_delta plan \<le> 255) \<and>
     p_residual_count plan = int (length (p_residuals plan)) \<and>
     p_sha256 plan = hexdigest data \<and>
     (\<exists>generated. synthesize_basis (p_basis plan) (p_start_byte plan) (p_length plan) (p_delta plan) = Inr generated \<and>
        length generated = length data \<and>
        p_residuals plan = make_residuals data generated \<and>
        apply_residuals generated (p_residuals plan) = Inr data)"

lemma optimize_residual_plan_exact:
  "\<exists>plan. optimize_residual_plan data = Inr plan \<and> plan_exact plan data"
proof -
  obtain i b s d plan where w: "optimize_residual_plan data = Inr plan"
    "(i, b, s, d) \<in> set (search_space data)"
    "plan = \<lparr>p_basis = b, p_start_byte = s, p_delta = d, p_length = int (length data),
       p_sha256 = hexdigest data, p_residual_count = int (count_residuals data (synth_of data b s d)),
       p_residuals = make_residuals data (synth_of data b s d), p_reconstructed_hash = hexdigest data\<rparr>"
    "synthesize_basis b s (int (length data)) d = Inr (synth_of data b s d)"
    "length (synth_of data b s d) = length data"
    by (rule optimize_residual_plan_winner) blast
  then have "b \<in> set BASIS_ORDER" "(0 \<le> s \<and> s \<le> 255) \<and> (0 \<le> d \<and> d \<le> 255)"
    by (auto simp: search_space_iff dest: coefficient_tuples_range)
  with w show ?thesis
    by (simp add: plan_exact_def length_make_residuals apply_make_residuals)
qed

section \<open>The residual count is least\<close>

text \<open>Matching bytes as votes: position \<open>i\<close> votes for the one coefficient that would match it.\<close>

lemma count_residuals_votes:
  assumes "length data = length generated" and "length votes = length data"
    and "\<And>i. i < length data \<Longrightarrow> data ! i = generated ! i \<longleftrightarrow> votes ! i = v"
  shows "count_residuals data generated + count_list votes v = length data"
  using assms
proof (induction data generated arbitrary: votes rule: list_induct2)
  case (Cons x xs y ys)
  obtain w ws where votes: "votes = w # ws" using Cons.prems(1) by (cases votes) auto
  have "count_residuals xs ys + count_list ws v = length xs"
  proof (rule Cons.IH)
    show "length ws = length xs" using Cons.prems(1) votes by simp
    show "\<And>i. i < length xs \<Longrightarrow> xs ! i = ys ! i \<longleftrightarrow> ws ! i = v"
      using Cons.prems(2) [of "Suc _"] votes by simp
  qed
  moreover have "x = y \<longleftrightarrow> w = v" using Cons.prems(2) [of 0] votes by simp
  ultimately show ?case by (auto simp: count_residuals_def votes)
qed (simp add: count_residuals_def)

lemma byte_eq_word_of_int_iff:
  assumes "0 \<le> v" and "v < 256"
  shows "(x :: byte) = word_of_int ((v + k) mod 256) \<longleftrightarrow> (uint x - k) mod 256 = v"
proof -
  have "x = word_of_int ((v + k) mod 256) \<longleftrightarrow> uint x = (v + k) mod 256"
    by (simp add: word_uint_eq_iff uint_word_of_int)
  also have "\<dots> \<longleftrightarrow> (uint x - k) mod 256 = v"
  proof
    assume "uint x = (v + k) mod 256"
    then show "(uint x - k) mod 256 = v" using assms by (simp add: mod_diff_left_eq)
  next
    assume v: "(uint x - k) mod 256 = v"
    have "(v + k) mod 256 = (uint x - k + k) mod 256" unfolding v [symmetric] by (simp add: mod_add_left_eq)
    also have "\<dots> = uint x" using uint_byte_bounds [of x] by simp
    finally show "uint x = (v + k) mod 256" by simp
  qed
  finally show ?thesis .
qed

lemma delta_votes_count:
  assumes "0 \<le> s \<and> s \<le> 255" and "d < 256"
  shows "count_residuals data (synth_of data ''delta_u8'' s (int d)) +
         byte_counts (delta_start_votes data d) ! nat s = length data"
proof -
  let ?votes = "delta_start_votes data d"
  have gen: "synth_of data ''delta_u8'' s (int d) = bytes_from (\<lambda>i. s + int i * int d) (length data)"
    using assms synthesize_delta_u8 [of s "int (length data)" "int d"] by (simp add: synth_of_def)
  have small: "\<forall>v \<in> set ?votes. v < 256"
    by (auto simp: delta_start_votes_def nat_less_iff)
  have "count_residuals data (synth_of data ''delta_u8'' s (int d)) + count_list ?votes (nat s) = length data"
  proof (rule count_residuals_votes)
    show "length data = length (synth_of data ''delta_u8'' s (int d))" by (simp add: gen)
    show "length ?votes = length data" by (simp add: delta_start_votes_def)
    fix i assume "i < length data"
    then show "data ! i = synth_of data ''delta_u8'' s (int d) ! i \<longleftrightarrow> ?votes ! i = nat s"
      using byte_eq_word_of_int_iff [of s "data ! i" "int i * int d"] assms(1)
      by (auto simp: gen nth_bytes_from delta_start_votes_def nth_enumerate_eq)
  qed
  moreover have "nat s < 256" using assms(1) by linarith
  ultimately show ?thesis using small by (simp add: nth_byte_counts)
qed

lemma constant_votes_count:
  assumes "0 \<le> s \<and> s \<le> 255"
  shows "count_residuals data (replicate (length data) (word_of_int s)) +
         byte_counts (map unat data) ! nat s = length data"
proof -
  have "count_residuals data (replicate (length data) (word_of_int s)) + count_list (map unat data) (nat s) =
      length data"
  proof (rule count_residuals_votes)
    fix i assume i: "i < length data"
    have "data ! i = word_of_int s \<longleftrightarrow> uint (data ! i) = s"
      using assms byte_eq_word_of_int_iff [of s "data ! i" 0] by simp
    moreover have "int (unat (data ! i)) = uint (data ! i)" by simp
    ultimately show "data ! i = replicate (length data) (word_of_int s) ! i \<longleftrightarrow> map unat data ! i = nat s"
      using i assms by (simp del: of_nat_unat, arith)
  qed simp_all
  moreover have "nat s < 256" using assms by linarith
  ultimately show ?thesis by (simp add: nth_byte_counts)
qed

text \<open>
  The coefficients that the planner tries contain a best one for every basis. The exception is
  \<open>fourier8_u8\<close>, which is only tried with \<open>delta = 0\<close>.
\<close>

lemma synth_ignores_delta:
  assumes "b \<in> {''zero_block'', ''repeat_byte'', ''dictionary_u8'', ''rle_u8'', ''ramp_u8'', ''triangle_u8'', ''sine8_u8''}"
    and "0 \<le> d \<and> d \<le> 255"
  shows "synth_of data b s d = synth_of data b s 0"
  using assms by (auto simp: synth_of_def synthesize_basis_def)

lemma synth_zero_block:
  assumes "0 \<le> s \<and> s \<le> 255" and "0 \<le> d \<and> d \<le> 255"
  shows "synth_of data ''zero_block'' s d = replicate (length data) 0"
  using assms by (simp add: synth_of_def synthesize_basis_def BASIS_ORDER_def)

lemma synth_constant:
  assumes "b \<in> {''repeat_byte'', ''dictionary_u8'', ''rle_u8''}"
    and "0 \<le> s \<and> s \<le> 255" and "0 \<le> d \<and> d \<le> 255"
  shows "synth_of data b s d = replicate (length data) (word_of_int s)"
  using assms by (auto simp: synth_of_def synthesize_basis_def BASIS_ORDER_def)

lemma most_common_byte_best:
  assumes "0 \<le> s \<and> s \<le> 255"
  shows "count_residuals data (replicate (length data) (word_of_int (most_common_byte data))) \<le>
         count_residuals data (replicate (length data) (word_of_int s))"
proof (cases "data = []")
  case True
  then show ?thesis by (simp add: count_residuals_def)
next
  case False
  have "nat s < 256" using assms by linarith
  then have "byte_counts (map unat data) ! nat s \<le> byte_counts (map unat data) ! nat (most_common_byte data)"
    using False best_count_byte(2) by (simp add: most_common_byte_def)
  then show ?thesis
    using constant_votes_count [OF assms, of data] constant_votes_count [OF most_common_byte_range, of data data]
    by linarith
qed

lemma delta_start_best:
  assumes "0 \<le> s \<and> s \<le> 255" and "d < 256"
  shows "count_residuals data (synth_of data ''delta_u8''
           (best_count_byte (byte_counts (delta_start_votes data d))) (int d)) \<le>
         count_residuals data (synth_of data ''delta_u8'' s (int d))"
proof -
  let ?counts = "byte_counts (delta_start_votes data d)"
  have "nat s < 256" using assms(1) by linarith
  then have "?counts ! nat s \<le> ?counts ! nat (best_count_byte ?counts)" by (rule best_count_byte(2))
  then show ?thesis
    using delta_votes_count [OF assms, of data]
      delta_votes_count [OF best_count_byte(1) [of ?counts] assms(2), of data]
    by linarith
qed

lemma tuples_contain_best:
  assumes "b \<in> set BASIS_ORDER" and s: "0 \<le> s \<and> s \<le> 255" and d: "0 \<le> d \<and> d \<le> 255"
    and "b = ''fourier8_u8'' \<Longrightarrow> d = 0"
  shows "\<exists>(s', d') \<in> set (coefficient_tuples_for_basis b data).
           count_residuals data (synth_of data b s' d') \<le> count_residuals data (synth_of data b s d)"
proof -
  consider "b = ''zero_block''" | "b = ''delta_u8''" | "b \<in> {''dictionary_u8'', ''rle_u8''}"
    | "b \<in> {''repeat_byte'', ''ramp_u8'', ''triangle_u8'', ''sine8_u8''}" | "b = ''fourier8_u8''"
    using basis_cases [OF assms(1)] by (elim disjE) simp_all
  then show ?thesis
  proof cases
    case 1
    then show ?thesis using s d
      by (simp add: coefficient_tuples_for_basis_def synth_zero_block)
  next
    case 2
    have "nat d < 256" "int (nat d) = d" using d by linarith+
    then show ?thesis using delta_start_best [OF s, of "nat d" data] 2
      by (auto simp: coefficient_tuples_for_basis_def intro!: bexI [of _ "nat d"])
  next
    case 3
    then have "b \<in> {''repeat_byte'', ''dictionary_u8'', ''rle_u8''}" by blast
    note const = synth_constant [OF this]
    have "coefficient_tuples_for_basis b data = [(most_common_byte data, 0)]"
      using 3 by (elim insertE emptyE) (simp_all add: coefficient_tuples_for_basis_def)
    then show ?thesis
      using most_common_byte_best [OF s, of data] const [OF s d, of data]
        const [OF most_common_byte_range, of 0 data data]
      by simp
  next
    case 4
    have "nat s < 256" "int (nat s) = s" using s by linarith+
    moreover have "synth_of data b s d = synth_of data b s 0"
      using 4 d by (intro synth_ignores_delta) auto
    moreover have "coefficient_tuples_for_basis b data = map (\<lambda>start_byte. (int start_byte, 0)) [0..<256]"
      using 4 by (elim insertE emptyE) (simp_all add: coefficient_tuples_for_basis_def)
    ultimately show ?thesis by (auto intro!: bexI [of _ "nat s"])
  next
    case 5
    have "nat s < 256" "int (nat s) = s" using s by linarith+
    then show ?thesis using 5 assms(4)
      by (auto simp: coefficient_tuples_for_basis_def intro!: bexI [of _ "nat s"])
  qed
qed

text \<open>
  The tournament keeps the first plan with the least residual count, so a basis that never does
  better than an earlier one is never selected. \<open>dictionary_u8\<close>, \<open>rle_u8\<close> and \<open>fourier8_u8\<close> with
  \<open>delta = 0\<close> all synthesize what \<open>repeat_byte\<close> does, and \<open>ramp_u8\<close> is \<open>delta_u8\<close> with \<open>delta = 1\<close>.
\<close>

lemma winner_key_le:
  assumes "\<forall>x \<in> set (search_space data).
      candidate_key (space_candidate data (i, b, s, d)) \<le> candidate_key (space_candidate data x)"
    and "(i', b', s', d') \<in> set (search_space data)"
    and "count_residuals data (synth_of data b' s' d') \<le> count_residuals data (synth_of data b s d)"
  shows "count_residuals data (synth_of data b' s' d') = count_residuals data (synth_of data b s d)" and "i \<le> i'"
proof -
  have "candidate_key (space_candidate data (i, b, s, d)) \<le> candidate_key (space_candidate data (i', b', s', d'))"
    using assms(1,2) by blast
  then show "count_residuals data (synth_of data b' s' d') = count_residuals data (synth_of data b s d)" and "i \<le> i'"
    using assms(3) by (auto simp: candidate_key_def space_candidate_def less_eq_prod_def)
qed

lemma optimize_residual_plan_least:
  assumes "optimize_residual_plan data = Inr plan"
    and "b \<in> set BASIS_ORDER" and "0 \<le> s \<and> s \<le> 255" and "0 \<le> d \<and> d \<le> 255"
    and "b = ''fourier8_u8'' \<Longrightarrow> d = 0"
    and "synthesize_basis b s (int (length data)) d = Inr generated"
  shows "p_residual_count plan \<le> int (count_residuals data generated)"
proof -
  obtain i w u v pl where win: "optimize_residual_plan data = Inr pl"
    "\<forall>x \<in> set (search_space data).
       candidate_key (space_candidate data (i, w, u, v)) \<le> candidate_key (space_candidate data x)"
    "p_residual_count pl = int (count_residuals data (synth_of data w u v))"
    by (rule optimize_residual_plan_winner [of data]) auto
  have gen: "generated = synth_of data b s d" using assms(6) by (simp add: synth_of_def)
  obtain s' d' where best: "(s', d') \<in> set (coefficient_tuples_for_basis b data)"
      "count_residuals data (synth_of data b s' d') \<le> count_residuals data (synth_of data b s d)"
    using tuples_contain_best [OF assms(2-4), of data] assms(5) by blast
  obtain j where j: "j < length BASIS_ORDER" "b = BASIS_ORDER ! j"
    using assms(2) by (metis in_set_conv_nth)
  have mem: "(j, b, s', d') \<in> set (search_space data)"
    using j best(1) by (simp add: search_space_iff)
  have "count_residuals data (synth_of data w u v) \<le> count_residuals data (synth_of data b s' d')"
    using winner_key_le(1) [OF win(2) mem] by (cases "count_residuals data (synth_of data b s' d') \<le> count_residuals data (synth_of data w u v)") auto
  then show ?thesis using win(1,3) best(2) gen assms(1) by simp
qed

lemma synth_fourier_0:
  assumes "0 \<le> s \<and> s \<le> 255"
  shows "synth_of data ''fourier8_u8'' s 0 = replicate (length data) (word_of_int s)"
  using assms
  by (auto simp: synth_of_def synthesize_basis_def BASIS_ORDER_def bytes_from_def Let_def
      intro!: nth_equalityI)

lemma synth_ramp:
  assumes "0 \<le> s \<and> s \<le> 255"
  shows "synth_of data ''ramp_u8'' s 0 = synth_of data ''delta_u8'' s 1"
  using assms by (simp add: synth_of_def synthesize_basis_def BASIS_ORDER_def)

lemma selected_basis:
  assumes "(i, b, s, d) \<in> set (search_space data)"
    and least: "\<forall>x \<in> set (search_space data).
      candidate_key (space_candidate data (i, b, s, d)) \<le> candidate_key (space_candidate data x)"
  shows "b \<in> {''zero_block'', ''repeat_byte'', ''delta_u8'', ''triangle_u8'', ''sine8_u8''}"
proof (rule ccontr)
  assume no: "\<not> ?thesis"
  have i: "i < 9" "b = BASIS_ORDER ! i" and sd: "(s, d) \<in> set (coefficient_tuples_for_basis b data)"
    using assms(1) by (auto simp: search_space_iff BASIS_ORDER_def)
  have s: "0 \<le> s \<and> s \<le> 255" using coefficient_tuples_range [OF sd] by simp
  then have ns: "nat s < 256" "int (nat s) = s" by linarith+
  have "(1, ''repeat_byte'', s, 0) \<in> set (search_space data)"
    using ns by (auto simp: search_space_iff BASIS_ORDER_def coefficient_tuples_for_basis_def intro!: image_eqI [of _ _ "nat s"])
  note repeat = winner_key_le(2) [OF least this]
  have "(2, ''delta_u8'', best_count_byte (byte_counts (delta_start_votes data 1)), 1) \<in> set (search_space data)"
    by (auto simp: search_space_iff BASIS_ORDER_def coefficient_tuples_for_basis_def intro!: image_eqI [of _ _ 1])
  note linear = winner_key_le(2) [OF least this]
  have "i = 3 \<or> i = 4 \<or> i = 5 \<or> i = 8"
    using i no by (auto simp: BASIS_ORDER_def less_Suc_eq numeral_eq_Suc)
  then consider "b = ''dictionary_u8''" "2 < i" | "b = ''rle_u8''" "2 < i" | "b = ''ramp_u8''" "2 < i"
    | "b = ''fourier8_u8''" "2 < i"
    using i(2) by (auto simp: BASIS_ORDER_def)
  then show False
  proof cases
    case 3
    then have "d = 0" using sd by (auto simp: coefficient_tuples_for_basis_def)
    then show False using linear 3 s delta_start_best [OF s, of 1 data] by (simp add: synth_ramp)
  next
    case 4
    then have "d = 0" using sd by (auto simp: coefficient_tuples_for_basis_def)
    then show False using repeat 4 s by (simp add: synth_fourier_0 synth_constant)
  qed (use repeat s sd in \<open>simp_all add: synth_constant coefficient_tuples_for_basis_def\<close>)
qed

lemma optimize_residual_plan_basis:
  assumes "optimize_residual_plan data = Inr plan"
  shows "p_basis plan \<in> {''zero_block'', ''repeat_byte'', ''delta_u8'', ''triangle_u8'', ''sine8_u8''}"
proof -
  obtain i b s d pl where win: "optimize_residual_plan data = Inr pl" "p_basis pl = b"
    "(i, b, s, d) \<in> set (search_space data)"
    "\<forall>x \<in> set (search_space data).
       candidate_key (space_candidate data (i, b, s, d)) \<le> candidate_key (space_candidate data x)"
    by (rule optimize_residual_plan_winner [of data]) auto
  then show ?thesis using selected_basis [OF win(3,4)] assms by simp
qed

end
