(* ===== verification/Tournament.thy ===== *)
theory Tournament
  imports Optimizer
begin

text \<open>
  The second half of \<^verbatim>\<open>src/bogvm/optimizer.py\<close>: scoring a plan, the tournament over the
  reversible transforms, and the plans for a payload that is cut into chunks.
\<close>

text \<open>\<open>d.get(key, default)\<close> on an optional key.\<close>

definition get_or :: "'a option \<Rightarrow> 'a \<Rightarrow> 'a" where
  "get_or opt dflt = (case opt of None \<Rightarrow> dflt | Some x \<Rightarrow> x)"

lemma get_or_simps [simp]: "get_or None x = x" "get_or (Some y) x = y"
  by (simp_all add: get_or_def)

section \<open>Scores\<close>

record score =
  s_residual_count :: int
  s_container_size :: int
  s_transform_cost :: int
  s_basis_cost :: int
  s_decode_cost :: int
  s_total_cost :: int

function varuint_size_loop :: "nat \<Rightarrow> nat \<Rightarrow> nat" where
  "varuint_size_loop sz value = (if value = 0 then sz else varuint_size_loop (sz + 1) (value div 128))"
  by pat_completeness auto
termination
  by (relation "measure snd") auto

declare varuint_size_loop.simps [simp del]

definition varuint_size :: "int \<Rightarrow> int res" where
  "varuint_size value =
     (if value < 0 then Inl (OptimizerError ''varuint size cannot be negative'')
      else Inr (int (varuint_size_loop 1 (nat value div 128))))"

definition estimate_delta_residual_size :: "residual list \<Rightarrow> int res" where
  "estimate_delta_residual_size residuals =
     rbind (fold_res (\<lambda>(sz, previous_offset) patch.
         let offset = r_offset patch;
             delta = (if previous_offset < 0 then offset else offset - previous_offset - 1)
         in rbind (varuint_size delta) (\<lambda>v. Inr (sz + v + 1, offset)))
       (0, - 1) residuals)
     (\<lambda>(sz, _). Inr sz)"

definition lookup_cost :: "(string, int) pydict \<Rightarrow> string \<Rightarrow> int res" where
  "lookup_cost costs name = (case map_of costs name of None \<Rightarrow> Inl (KeyError name) | Some c \<Rightarrow> Inr c)"

definition score_reconstruction_plan :: "string option \<Rightarrow> plan \<Rightarrow> score res" where
  "score_reconstruction_plan transform_key plan =
    (let residual_count = p_residual_count plan;
         len = p_length plan;
         transform = get_or transform_key ''identity'';
         basis = p_basis plan
     in
     rbind (lookup_cost TRANSFORM_COSTS transform) (\<lambda>transform_cost.
     rbind (lookup_cost BASIS_COSTS basis) (\<lambda>basis_cost.
     let descriptor_size = 3 + (if transform \<in> {''bwt'', ''bwt_mtf''} then 1 else 0) in
     rbind (estimate_delta_residual_size (p_residuals plan)) (\<lambda>residual_delta_size.
     let residual_bitmask_size = (if residual_count \<noteq> 0 then (len + 7) div 8 + residual_count else 0);
         residual_size = min residual_delta_size
           (if residual_count \<noteq> 0 then residual_bitmask_size else residual_delta_size)
     in
     rbind (varuint_size residual_count) (\<lambda>count_size.
     let container_size = descriptor_size + count_size + residual_size;
         decode_cost = len + residual_count + transform_cost + basis_cost;
         total_cost = (container_size * 16) + residual_count + transform_cost + decode_cost
     in Inr \<lparr>s_residual_count = residual_count, s_container_size = container_size,
          s_transform_cost = transform_cost, s_basis_cost = basis_cost,
          s_decode_cost = decode_cost, s_total_cost = total_cost\<rparr>)))))"

section \<open>The transform tournament\<close>

record tplan = plan +
  t_transform :: string
  t_transform_param :: int
  t_transformed_sha256 :: string
  t_original_sha256 :: string
  t_score :: score

definition tplan_key ::
  "nat \<times> tplan \<Rightarrow> int \<times> int \<times> int \<times> int \<times> int \<times> nat \<times> string \<times> int \<times> int \<times> int" where
  "tplan_key = (\<lambda>(transform_index, c).
     (s_total_cost (t_score c), s_container_size (t_score c), p_residual_count c,
      s_decode_cost (t_score c), s_transform_cost (t_score c), transform_index,
      p_basis c, p_start_byte c, p_delta c, t_transform_param c))"

definition transform_candidate :: "bytes \<Rightarrow> nat \<times> string \<Rightarrow> (nat \<times> tplan) res" where
  "transform_candidate data = (\<lambda>(transform_index, transform).
    rbind (apply_transform_with_param transform data) (\<lambda>(transformed, transform_param).
    rbind (optimize_residual_plan transformed) (\<lambda>plan.
    rbind (invert_transform transform transformed (int transform_param)) (\<lambda>restored.
    if restored \<noteq> data then Inl (OptimizerError (''transform is not reversible: '' @ transform))
    else
      let plan' = plan\<lparr>p_sha256 := hexdigest transformed\<rparr> in
      rbind (score_reconstruction_plan (Some transform) plan') (\<lambda>score.
      Inr (transform_index, plan.extend plan'
        (tplan.fields transform (int transform_param) (hexdigest transformed) (hexdigest data) score)))))))"

definition optimize_transformed_residual_plan :: "bytes \<Rightarrow> tplan res" where
  "optimize_transformed_residual_plan data =
    rbind (map_res (transform_candidate data) (enumerate 0 TRANSFORM_ORDER)) (\<lambda>candidates.
    case keep_best tplan_key None candidates of
      None \<Rightarrow> Inl AssertionError
    | Some (_, best) \<Rightarrow>
        rbind (apply_transform (t_transform best) data) (\<lambda>transformed.
        rbind (assert_exact_reconstruction (plan.truncate best) transformed) (\<lambda>_.
        rbind (apply_transform (t_transform best) data) (\<lambda>transformed'.
        rbind (invert_transform (t_transform best) transformed' (t_transform_param best)) (\<lambda>restored.
        if hexdigest restored \<noteq> t_original_sha256 best then
          Inl (OptimizerError ''transformed residual plan failed original SHA-256 reconstruction'')
        else Inr best)))))"

section \<open>Chunked plans\<close>

record chunk_plan = plan +
  cp_index :: int
  cp_offset :: int
  cp_transform :: "string option"
  cp_transform_param :: "int option"
  cp_transformed_sha256 :: "string option"
  cp_original_sha256 :: "string option"
  cp_score :: "score option"

record chunked_plan =
  ck_chunk_size :: int
  ck_chunk_count :: int
  ck_chunks :: "chunk_plan list"
  ck_total_residual_count :: int
  ck_whole_sha256 :: string
  ck_length :: int
  ck_transform_tournament_enabled :: "bool option"
  ck_candidate_transforms :: "string list option"
  ck_transform_counts :: "(string, int) pydict option"

definition plain_chunk :: "nat \<Rightarrow> nat \<times> bytes \<Rightarrow> chunk_plan res" where
  "plain_chunk chunk_size = (\<lambda>(index, chunk).
    rbind (optimize_residual_plan chunk) (\<lambda>plan.
    rbind (assert_exact_reconstruction plan chunk) (\<lambda>_.
    Inr (plan.extend (plan\<lparr>p_sha256 := hexdigest chunk\<rparr>)
      (chunk_plan.fields (int index) (int (index * chunk_size)) None None None None None)))))"

definition optimize_chunked_residual_plan :: "bytes \<Rightarrow> int \<Rightarrow> chunked_plan res" where
  "optimize_chunked_residual_plan data chunk_size =
    (if chunk_size \<le> 0 then Inl (ValueError ''chunk_size must be positive'')
     else if chunk_size > 65535 then Inl (ValueError ''chunk_size must be <= 65535'')
     else
       rbind (map_res (plain_chunk (nat chunk_size)) (enumerate 0 (slices (nat chunk_size) data))) (\<lambda>chunks.
       Inr \<lparr>ck_chunk_size = chunk_size, ck_chunk_count = int (length chunks), ck_chunks = chunks,
         ck_total_residual_count = sum_list (map p_residual_count chunks),
         ck_whole_sha256 = hexdigest data, ck_length = int (length data),
         ck_transform_tournament_enabled = None, ck_candidate_transforms = None,
         ck_transform_counts = None\<rparr>))"

definition transformed_chunk :: "nat \<Rightarrow> nat \<times> bytes \<Rightarrow> chunk_plan res" where
  "transformed_chunk chunk_size = (\<lambda>(index, chunk).
    rbind (optimize_transformed_residual_plan chunk) (\<lambda>plan.
    Inr (plan.extend (plan.truncate plan)
      (chunk_plan.fields (int index) (int (index * chunk_size)) (Some (t_transform plan))
        (Some (t_transform_param plan)) (Some (t_transformed_sha256 plan))
        (Some (t_original_sha256 plan)) (Some (t_score plan))))))"

definition count_transform :: "(string, int) pydict \<Rightarrow> string \<Rightarrow> (string, int) pydict res" where
  "count_transform counts transform =
     (case map_of counts transform of
        None \<Rightarrow> Inl (KeyError transform)
      | Some n \<Rightarrow> Inr (AList.update transform (n + 1) counts))"

definition zero_transform_counts :: "(string, int) pydict" where
  "zero_transform_counts = map (\<lambda>transform. (transform, 0)) TRANSFORM_ORDER"

definition optimize_transformed_chunked_residual_plan :: "bytes \<Rightarrow> int \<Rightarrow> chunked_plan res" where
  "optimize_transformed_chunked_residual_plan data chunk_size =
    (if chunk_size \<le> 0 then Inl (ValueError ''chunk_size must be positive'')
     else if chunk_size > 65535 then Inl (ValueError ''chunk_size must be <= 65535'')
     else
       rbind (map_res (transformed_chunk (nat chunk_size)) (enumerate 0 (slices (nat chunk_size) data))) (\<lambda>chunks.
       rbind (fold_res count_transform zero_transform_counts
                (map (\<lambda>c. get_or (cp_transform c) ''identity'') chunks)) (\<lambda>transform_counts.
       Inr \<lparr>ck_chunk_size = chunk_size, ck_chunk_count = int (length chunks), ck_chunks = chunks,
         ck_total_residual_count = sum_list (map p_residual_count chunks),
         ck_whole_sha256 = hexdigest data, ck_length = int (length data),
         ck_transform_tournament_enabled = Some True,
         ck_candidate_transforms = Some TRANSFORM_ORDER,
         ck_transform_counts = Some transform_counts\<rparr>)))"

section \<open>Scoring succeeds on every plan of the search\<close>

lemma varuint_size_total: "0 \<le> v \<Longrightarrow> \<exists>n. varuint_size v = Inr n"
  by (simp add: varuint_size_def)

lemma estimate_total_from:
  assumes "residuals_ok len prev rs" and "- 1 \<le> prev"
  shows "\<exists>st. fold_res (\<lambda>(sz, previous_offset) patch.
      let offset = r_offset patch;
          delta = (if previous_offset < 0 then offset else offset - previous_offset - 1)
      in rbind (varuint_size delta) (\<lambda>v. Inr (sz + v + 1, offset))) (n, prev) rs = Inr st"
  using assms
proof (induction rs arbitrary: prev n)
  case (Cons p ps)
  let ?delta = "if prev < 0 then r_offset p else r_offset p - prev - 1"
  have "0 \<le> ?delta" using Cons.prems by simp
  then obtain v where "varuint_size ?delta = Inr v"
    using varuint_size_total by blast
  then show ?case using Cons by (auto simp: Let_def)
qed simp

lemma estimate_total:
  assumes "residuals_ok len (- 1) rs"
  shows "\<exists>n. estimate_delta_residual_size rs = Inr n"
  using estimate_total_from [OF assms, of 0] by (auto simp: estimate_delta_residual_size_def)

lemma lookup_cost_transform: "t \<in> set TRANSFORM_ORDER \<Longrightarrow> \<exists>c. lookup_cost TRANSFORM_COSTS t = Inr c"
  by (drule transform_cases, elim disjE) (simp_all add: TRANSFORM_COSTS_def lookup_cost_def)

lemma lookup_cost_basis: "b \<in> set BASIS_ORDER \<Longrightarrow> \<exists>c. lookup_cost BASIS_COSTS b = Inr c"
  by (drule basis_cases, elim disjE) (simp_all add: BASIS_COSTS_def lookup_cost_def)

lemma plan_exact_residuals_ok:
  assumes "plan_exact plan data"
  shows "residuals_ok (p_length plan) (- 1) (p_residuals plan)"
proof -
  obtain g where "apply_residuals g (p_residuals plan) = Inr data" and "length g = length data"
      and "p_length plan = int (length data)"
    using assms unfolding plan_exact_def by blast
  then show ?thesis by (metis apply_residuals_eq)
qed

lemma score_total:
  assumes "plan_exact plan data" and "transform \<in> set TRANSFORM_ORDER"
  shows "\<exists>sc. score_reconstruction_plan (Some transform) plan = Inr sc"
proof -
  obtain c where c: "lookup_cost TRANSFORM_COSTS transform = Inr c"
    using lookup_cost_transform [OF assms(2)] by blast
  obtain k where k: "lookup_cost BASIS_COSTS (p_basis plan) = Inr k"
    using lookup_cost_basis assms(1) by (auto simp: plan_exact_def)
  obtain n where n: "estimate_delta_residual_size (p_residuals plan) = Inr n"
    using estimate_total [OF plan_exact_residuals_ok [OF assms(1)]] by blast
  obtain m where m: "varuint_size (p_residual_count plan) = Inr m"
    using varuint_size_total [of "p_residual_count plan"] assms(1) by (auto simp: plan_exact_def)
  show ?thesis by (simp add: score_reconstruction_plan_def c k n m Let_def)
qed

section \<open>The tournament returns an exact plan\<close>

text \<open>
  A plan for the transformed bytes, together with the transform and parameter that lead back to
  the chunk itself. \<open>tr\<close> and \<open>param\<close> are the transform and its parameter with the defaults of a
  plan without a transform.
\<close>

definition exact_via :: "plan \<Rightarrow> string \<Rightarrow> int \<Rightarrow> string \<Rightarrow> string \<Rightarrow> bytes \<Rightarrow> bool" where
  "exact_via plan tr param transformed_hash original_hash chunk \<longleftrightarrow>
     (\<exists>transformed. plan_exact plan transformed \<and> length transformed = length chunk \<and>
        tr \<in> set TRANSFORM_ORDER \<and> 0 \<le> param \<and>
        (tr \<notin> BWT_TRANSFORMS \<longrightarrow> param = 0) \<and> (param = 0 \<or> param < int (length chunk)) \<and>
        invert_transform tr transformed param = Inr chunk \<and>
        transformed_hash = hexdigest transformed \<and> original_hash = hexdigest chunk)"

definition tplan_exact :: "tplan \<Rightarrow> bytes \<Rightarrow> bool" where
  "tplan_exact tp data \<longleftrightarrow>
     (\<exists>transformed. apply_transform_with_param (t_transform tp) data = Inr (transformed, nat (t_transform_param tp)) \<and>
        plan_exact (plan.truncate tp) transformed) \<and>
     p_reconstructed_hash tp = p_sha256 tp \<and>
     exact_via (plan.truncate tp) (t_transform tp) (t_transform_param tp)
       (t_transformed_sha256 tp) (t_original_sha256 tp) data"

lemma optimize_residual_plan_hash:
  "optimize_residual_plan data = Inr plan \<Longrightarrow> p_reconstructed_hash plan = hexdigest data"
  by (rule optimize_residual_plan_winner [of data]) auto

lemma transform_candidate_exact:
  assumes "transform \<in> set TRANSFORM_ORDER"
  shows "\<exists>tp. transform_candidate data (i, transform) = Inr (i, tp) \<and>
           t_transform tp = transform \<and> tplan_exact tp data"
proof -
  obtain t p where tp: "apply_transform_with_param transform data = Inr (t, p)"
      "length t = length data" "invert_transform transform t (int p) = Inr data"
    using named_transform_roundtrip [OF assms] by blast
  obtain pl where pl: "optimize_residual_plan t = Inr pl" "plan_exact pl t"
    using optimize_residual_plan_exact by blast
  have sha: "pl\<lparr>p_sha256 := hexdigest t\<rparr> = pl" using pl(2) by (simp add: plan_exact_def)
  obtain sc where sc: "score_reconstruction_plan (Some transform) pl = Inr sc"
    using score_total [OF pl(2) assms] by blast
  let ?tp = "plan.extend pl (tplan.fields transform (int p) (hexdigest t) (hexdigest data) sc)"
  have trunc: "plan.truncate ?tp = pl" by (simp add: plan.defs tplan.defs)
  have "transform_candidate data (i, transform) = Inr (i, ?tp)"
    using tp pl(1) sc by (simp add: transform_candidate_def sha Let_def)
  moreover have "t_transform ?tp = transform" "t_transform_param ?tp = int p"
      "t_transformed_sha256 ?tp = hexdigest t" "t_original_sha256 ?tp = hexdigest data"
      "p_reconstructed_hash ?tp = hexdigest t" "p_sha256 ?tp = hexdigest t"
    using pl(2) optimize_residual_plan_hash [OF pl(1)] by (simp_all add: plan.defs tplan.defs plan_exact_def)
  moreover have "exact_via pl transform (int p) (hexdigest t) (hexdigest data) data"
    using tp pl(2) assms transform_param_range [OF tp(1)] by (auto simp: exact_via_def)
  ultimately show ?thesis using tp(1) pl(2) trunc by (auto simp: tplan_exact_def)
qed

lemma optimize_transformed_residual_plan_winner:
  obtains tp where "optimize_transformed_residual_plan data = Inr tp" and "tplan_exact tp data"
    and "\<forall>(i, transform) \<in> set (enumerate 0 TRANSFORM_ORDER). \<forall>c.
           transform_candidate data (i, transform) = Inr c \<longrightarrow> s_total_cost (t_score tp) \<le> s_total_cost (t_score (snd c))"
proof -
  let ?dom = "enumerate 0 TRANSFORM_ORDER"
  have "\<forall>x \<in> set ?dom. \<exists>c. transform_candidate data x = Inr c \<and> tplan_exact (snd c) data"
    using transform_candidate_exact [of _ data] by (force simp: in_set_enumerate_eq)
  then obtain g where g: "\<And>x. x \<in> set ?dom \<Longrightarrow> transform_candidate data x = Inr (g x) \<and> tplan_exact (snd (g x)) data"
    by metis
  have cs: "map_res (transform_candidate data) ?dom = Inr (map g ?dom)"
    using g by (intro map_res_total) auto
  have "map g ?dom \<noteq> []" by (simp add: TRANSFORM_ORDER_def enumerate_simps)
  then obtain best where best: "keep_best tplan_key None (map g ?dom) = Some best" "best \<in> set (map g ?dom)"
      "\<forall>c \<in> set (map g ?dom). tplan_key best \<le> tplan_key c"
    by (rule keep_best_None)
  obtain j tp where b: "best = (j, tp)" by (cases best)
  have ex: "tplan_exact tp data" using best(2) g b by (metis (no_types, lifting) imageE list.set_map snd_conv)
  then obtain t where t: "apply_transform_with_param (t_transform tp) data = Inr (t, nat (t_transform_param tp))"
      "plan_exact (plan.truncate tp) t"
    by (auto simp: tplan_exact_def)
  have ap: "apply_transform (t_transform tp) data = Inr t" using t(1) by (simp add: apply_transform_def)
  have tr: "t_transform tp \<in> set TRANSFORM_ORDER" "0 \<le> t_transform_param tp"
      "t_original_sha256 tp = hexdigest data"
    using ex by (auto simp: tplan_exact_def exact_via_def)
  have inv: "invert_transform (t_transform tp) t (t_transform_param tp) = Inr data"
    using named_transform_roundtrip [OF tr(1), of data] t(1) tr(2) by auto
  have "p_reconstructed_hash (plan.truncate tp) = p_sha256 (plan.truncate tp)"
    using ex by (simp add: tplan_exact_def plan.defs)
  then have "assert_exact_reconstruction (plan.truncate tp) t = Inr ()"
    using t(2) by (auto simp: assert_exact_reconstruction_def plan_exact_def Let_def)
  then have "optimize_transformed_residual_plan data = Inr tp"
    using best(1) ap inv tr(3) by (simp add: optimize_transformed_residual_plan_def cs b)
  moreover have "\<forall>(i, transform) \<in> set ?dom. \<forall>c. transform_candidate data (i, transform) = Inr c \<longrightarrow>
      s_total_cost (t_score tp) \<le> s_total_cost (t_score (snd c))"
  proof (clarsimp simp del: enumerate_eq_zip)
    fix i tr i' c
    assume "(i, tr) \<in> set ?dom" "transform_candidate data (i, tr) = Inr (i', c)"
    then have "(i', c) \<in> set (map g ?dom)" using g by (metis image_eqI list.set_map sum.inject(2))
    then have "tplan_key (j, tp) \<le> tplan_key (i', c)" using best(3) b by blast
    then show "s_total_cost (t_score tp) \<le> s_total_cost (t_score c)"
      by (auto simp: tplan_key_def less_eq_prod_def)
  qed
  ultimately show thesis using ex that by blast
qed

section \<open>Chunked plans are exact chunk by chunk\<close>

definition chunk_exact :: "chunk_plan \<Rightarrow> bytes \<Rightarrow> bool" where
  "chunk_exact cp chunk \<longleftrightarrow>
     exact_via (plan.truncate cp) (get_or (cp_transform cp) ''identity'') (get_or (cp_transform_param cp) 0)
       (get_or (cp_transformed_sha256 cp) (p_sha256 cp)) (get_or (cp_original_sha256 cp) (p_sha256 cp)) chunk"

text \<open>What both chunkers return: one exact plan per slice, numbered and placed in order.\<close>

definition chunked_exact :: "chunked_plan \<Rightarrow> bytes \<Rightarrow> nat \<Rightarrow> bool" where
  "chunked_exact ck data chunk_size \<longleftrightarrow>
     ck_chunk_size ck = int chunk_size \<and>
     ck_chunk_count ck = int (length (ck_chunks ck)) \<and>
     ck_whole_sha256 ck = hexdigest data \<and>
     ck_length ck = int (length data) \<and>
     ck_total_residual_count ck = sum_list (map p_residual_count (ck_chunks ck)) \<and>
     list_all2 (\<lambda>(i, chunk) cp. cp_index cp = int i \<and> cp_offset cp = int (i * chunk_size) \<and> chunk_exact cp chunk)
       (enumerate 0 (slices chunk_size data)) (ck_chunks ck) \<and>
     (case ck_transform_counts ck of None \<Rightarrow> True
      | Some counts \<Rightarrow> sum_list (map snd counts) = ck_chunk_count ck)"

lemma plain_chunk_exact:
  "\<exists>cp. plain_chunk n (i, chunk) = Inr cp \<and>
     (cp_index cp = int i \<and> cp_offset cp = int (i * n) \<and> chunk_exact cp chunk)"
proof -
  obtain pl where pl: "optimize_residual_plan chunk = Inr pl" "plan_exact pl chunk"
    using optimize_residual_plan_exact by blast
  have sha: "pl\<lparr>p_sha256 := hexdigest chunk\<rparr> = pl" using pl(2) by (simp add: plan_exact_def)
  have "assert_exact_reconstruction pl chunk = Inr ()"
    using pl(2) optimize_residual_plan_hash [OF pl(1)]
    by (auto simp: assert_exact_reconstruction_def plan_exact_def Let_def)
  moreover have "exact_via pl ''identity'' 0 (p_sha256 pl) (p_sha256 pl) chunk"
  proof -
    have "p_sha256 pl = hexdigest chunk" using pl(2) unfolding plan_exact_def by blast
    then show ?thesis using pl(2) unfolding exact_via_def
      by (intro exI [of _ chunk]) (simp add: TRANSFORM_ORDER_def invert_transform_def)
  qed
  moreover let ?cp = "plan.extend pl (chunk_plan.fields (int i) (int (i * n)) None None None None None)"
  have "plan.truncate ?cp = pl" "cp_index ?cp = int i" "cp_offset ?cp = int (i * n)"
      "cp_transform ?cp = None" "cp_transform_param ?cp = None" "cp_transformed_sha256 ?cp = None"
      "cp_original_sha256 ?cp = None" "p_sha256 ?cp = p_sha256 pl"
    by (simp_all add: plan.defs chunk_plan.defs)
  ultimately show ?thesis
    using pl(1) by (intro exI [of _ ?cp]) (simp add: plain_chunk_def sha chunk_exact_def)
qed

lemma transformed_chunk_exact:
  "\<exists>cp. transformed_chunk n (i, chunk) = Inr cp \<and>
     (cp_index cp = int i \<and> cp_offset cp = int (i * n) \<and> chunk_exact cp chunk) \<and>
     get_or (cp_transform cp) ''identity'' \<in> set TRANSFORM_ORDER"
proof -
  obtain tp where tp: "optimize_transformed_residual_plan chunk = Inr tp" "tplan_exact tp chunk"
    by (rule optimize_transformed_residual_plan_winner)
  then show ?thesis
    by (auto simp: transformed_chunk_def chunk_exact_def tplan_exact_def exact_via_def plan.defs chunk_plan.defs)
qed

lemma count_transform_sum:
  assumes "count_transform d t = Inr d'" and "distinct (map fst d)"
  shows "sum_list (map snd d') = sum_list (map snd d) + 1" and "map fst d' = map fst d"
proof -
  obtain n where n: "map_of d t = Some n" "d' = AList.update t (n + 1) d"
    using assms(1) by (auto simp: count_transform_def split: option.splits)
  have "map_of d t = Some n \<Longrightarrow> distinct (map fst d) \<Longrightarrow>
      sum_list (map snd (AList.update t (n + 1) d)) = sum_list (map snd d) + 1 \<and>
      map fst (AList.update t (n + 1) d) = map fst d"
    by (induction d) (auto split: if_splits)
  then show "sum_list (map snd d') = sum_list (map snd d) + 1" and "map fst d' = map fst d"
    using n assms(2) by auto
qed

lemma count_transforms_total:
  assumes "set ts \<subseteq> fst ` set d" and "distinct (map fst d)"
  shows "\<exists>d'. fold_res count_transform d ts = Inr d' \<and>
           sum_list (map snd d') = sum_list (map snd d) + int (length ts)"
  using assms
proof (induction ts arbitrary: d)
  case (Cons t ts)
  have "t \<in> fst ` set d" using Cons.prems(1) by simp
  then obtain n where "map_of d t = Some n" using map_of_eq_None_iff [of d t] by blast
  then obtain d1 where d1: "count_transform d t = Inr d1" by (simp add: count_transform_def)
  note sums = count_transform_sum [OF d1 Cons.prems(2)]
  have "fst ` set d1 = fst ` set d" using arg_cong [OF sums(2), of set] by simp
  then have "set ts \<subseteq> fst ` set d1" "distinct (map fst d1)"
    using Cons.prems sums(2) by simp_all
  from Cons.IH [OF this] show ?case using d1 sums(1) by auto
qed simp

lemma map_res_list_all2:
  assumes "\<And>x. x \<in> set xs \<Longrightarrow> \<exists>y. f x = Inr y \<and> P x y"
  shows "\<exists>ys. map_res f xs = Inr ys \<and> list_all2 P xs ys"
  using assms
proof (induction xs)
  case (Cons x xs)
  from Cons.prems obtain y where y: "f x = Inr y \<and> P x y" by (meson list.set_intros(1))
  have "\<exists>ys. map_res f xs = Inr ys \<and> list_all2 P xs ys"
    by (rule Cons.IH) (rule Cons.prems, simp)
  then show ?case using y by auto
qed simp

lemma list_all2_set2_ex: "list_all2 P xs ys \<Longrightarrow> y \<in> set ys \<Longrightarrow> \<exists>x \<in> set xs. P x y"
  by (induction rule: list_all2_induct) auto

lemma optimize_chunked_exact:
  assumes "0 < n" and "n \<le> 65535"
  shows "\<exists>ck. optimize_chunked_residual_plan data (int n) = Inr ck \<and> chunked_exact ck data n"
proof -
  obtain cps where cps: "map_res (plain_chunk n) (enumerate 0 (slices n data)) = Inr cps"
      "list_all2 (\<lambda>(i, chunk) cp. cp_index cp = int i \<and> cp_offset cp = int (i * n) \<and> chunk_exact cp chunk)
        (enumerate 0 (slices n data)) cps"
    using map_res_list_all2 [of "enumerate 0 (slices n data)" "plain_chunk n"
        "\<lambda>(i, chunk) cp. cp_index cp = int i \<and> cp_offset cp = int (i * n) \<and> chunk_exact cp chunk"]
      plain_chunk_exact by fastforce
  then show ?thesis using assms by (simp add: optimize_chunked_residual_plan_def chunked_exact_def)
qed

lemma optimize_transformed_chunked_exact:
  assumes "0 < n" and "n \<le> 65535"
  shows "\<exists>ck. optimize_transformed_chunked_residual_plan data (int n) = Inr ck \<and> chunked_exact ck data n"
proof -
  let ?P = "\<lambda>(i, chunk) cp. (cp_index cp = int i \<and> cp_offset cp = int (i * n) \<and> chunk_exact cp chunk) \<and>
      get_or (cp_transform cp) ''identity'' \<in> set TRANSFORM_ORDER"
  obtain cps where cps: "map_res (transformed_chunk n) (enumerate 0 (slices n data)) = Inr cps"
      "list_all2 ?P (enumerate 0 (slices n data)) cps"
    using map_res_list_all2 [of "enumerate 0 (slices n data)" "transformed_chunk n" ?P]
      transformed_chunk_exact by fastforce
  have all2: "list_all2 (\<lambda>(i, chunk) cp. cp_index cp = int i \<and> cp_offset cp = int (i * n) \<and> chunk_exact cp chunk)
        (enumerate 0 (slices n data)) cps"
    by (rule list_all2_mono [OF cps(2)]) auto
  have "\<forall>cp \<in> set cps. get_or (cp_transform cp) ''identity'' \<in> set TRANSFORM_ORDER"
    using list_all2_set2_ex [OF cps(2)] by fastforce
  then have sub: "set (map (\<lambda>c. get_or (cp_transform c) ''identity'') cps) \<subseteq> fst ` set zero_transform_counts"
    by (auto simp: zero_transform_counts_def image_image)
  have dist: "distinct (map fst zero_transform_counts)"
    by (simp add: zero_transform_counts_def TRANSFORM_ORDER_def)
  have zero: "sum_list (map snd zero_transform_counts) = 0"
    by (simp add: zero_transform_counts_def TRANSFORM_ORDER_def)
  obtain counts where "fold_res count_transform zero_transform_counts
      (map (\<lambda>c. get_or (cp_transform c) ''identity'') cps) = Inr counts"
      "sum_list (map snd counts) = int (length cps)"
    using count_transforms_total [OF sub dist] zero by auto
  then show ?thesis using assms cps(1) all2
    by (simp add: optimize_transformed_chunked_residual_plan_def chunked_exact_def)
qed

end
