(* ===== verification/Bogpk.thy ===== *)
theory Bogpk
  imports Tournament
begin

text \<open>
  The byte-level coding of \<^verbatim>\<open>src/bogvm/container.py\<close>: variable-length integers, chunk
  descriptors, and the two encodings of residual lists.

  The reader class \<open>_ByteReader\<close> holds the data and an offset and only ever uses the bytes from
  the offset on; its state is that suffix of the data. A reading method returns the value and the
  reader after it. \<open>bytearray.append\<close> is \<open>append_byte\<close>, which raises outside 0..255.
\<close>

section \<open>The reader\<close>

type_synonym byte_reader = bytes

definition read_byte :: "byte_reader \<Rightarrow> (byte \<times> byte_reader) res" where
  "read_byte reader = (case reader of
       [] \<Rightarrow> Inl (ContainerError ''Unexpected end of BOGPK data'')
     | b # rest \<Rightarrow> Inr (b, rest))"

definition read_bytes :: "byte_reader \<Rightarrow> nat \<Rightarrow> (bytes \<times> byte_reader) res" where
  "read_bytes reader len =
     (if length reader < len then Inl (ContainerError ''Unexpected end of BOGPK data'')
      else Inr (take len reader, drop len reader))"

definition remaining :: "byte_reader \<Rightarrow> nat" where
  "remaining reader = length reader"

definition append_byte :: "int \<Rightarrow> bytes res" where
  "append_byte v = (if 0 \<le> v \<and> v \<le> 255 then Inr [word_of_int v]
     else Inl (ValueError ''byte must be in range(0, 256)''))"

lemma read_byte_simps [simp, res_simps]:
  "read_byte (b # rest) = Inr (b, rest)"
  "read_byte [] = Inl (ContainerError ''Unexpected end of BOGPK data'')"
  by (simp_all add: read_byte_def)

lemma read_byte_Inr_iff: "read_byte r = Inr (b, r') \<longleftrightarrow> r = b # r'"
  by (cases r) auto

lemma read_bytes_append [simp, res_simps]:
  "length bs = n \<Longrightarrow> read_bytes (bs @ rest) n = Inr (bs, rest)"
  by (auto simp: read_bytes_def)

lemma read_bytes_Inr_iff: "read_bytes r n = Inr (bs, r') \<longleftrightarrow> r = bs @ r' \<and> length bs = n"
  by (auto simp: read_bytes_def)

section \<open>Variable-length integers\<close>

text \<open>Seven bits per byte, least significant first; bit 7 marks that another byte follows.\<close>

function varuint_bytes :: "nat \<Rightarrow> bytes" where
  "varuint_bytes value =
     (let byte = (word_of_nat (value mod 128) :: byte); value' = value div 128 in
      if value' \<noteq> 0 then (byte OR 0x80) # varuint_bytes value' else [byte])"
  by pat_completeness auto
termination
  by (relation "measure id") auto

declare varuint_bytes.simps [simp del]

definition encode_varuint :: "int \<Rightarrow> bytes res" where
  "encode_varuint value =
     (if value < 0 then Inl (ContainerError ''BOGPK varuint cannot be negative'')
      else Inr (varuint_bytes (nat value)))"

function decode_varuint_loop :: "byte_reader \<Rightarrow> nat \<Rightarrow> nat \<Rightarrow> bytes \<Rightarrow> (int \<times> byte_reader) res" where
  "decode_varuint_loop reader value shift raw =
    rbind (read_byte reader) (\<lambda>(byte, reader').
      let raw' = raw @ [byte];
          value' = value OR push_bit shift (unat (byte AND 0x7F))
      in
      if byte AND 0x80 = 0 then
        rbind (encode_varuint (int value')) (\<lambda>encoded.
          if encoded \<noteq> raw' then Inl (ContainerError ''BOGPK non-minimal varuint'')
          else Inr (int value', reader'))
      else
        let shift' = shift + 7 in
        if shift' > 63 then Inl (ContainerError ''BOGPK varuint too large'')
        else decode_varuint_loop reader' value' shift' raw')"
  by pat_completeness auto
termination
  by (relation "measure (\<lambda>(reader, _). length reader)") (auto simp: read_byte_Inr_iff)

declare decode_varuint_loop.simps [simp del]

definition decode_varuint :: "byte_reader \<Rightarrow> (int \<times> byte_reader) res" where
  "decode_varuint reader = decode_varuint_loop reader 0 0 []"

section \<open>Facts on seven-bit groups\<close>

lemma byte_and_127: "unat ((b :: byte) AND 0x7F) = unat b mod 128"
proof -
  have "(b AND 0x7F) = take_bit 7 b" by (simp add: take_bit_eq_mask mask_eq_exp_minus_1)
  then have "b AND 0x7F = b mod 128" by (simp add: take_bit_eq_mod)
  then show ?thesis by (simp add: unat_mod_distrib)
qed

lemma byte_and_128: "(b :: byte) AND 0x80 = 0 \<longleftrightarrow> unat b < 128"
proof -
  have "(b AND 0x80 = 0) = (\<not> bit b 7)"
    using and_exp_eq_0_iff_not_bit [of b 7] by simp
  also have "\<dots> = (\<not> bit (unat b) 7)" by (simp add: bit_unsigned_iff)
  also have "\<dots> = (unat b < 128)"
  proof -
    have "unat b div 128 < 2" using unat_byte_less [of b] by linarith
    then have "unat b div 128 = 0 \<or> unat b div 128 = 1" by linarith
    then show ?thesis by (auto simp: bit_iff_odd)
  qed
  finally show ?thesis .
qed

lemma byte_or_128: "v < 128 \<Longrightarrow> (word_of_nat v :: byte) OR 0x80 = word_of_nat (v + 128)"
proof -
  assume v: "v < 128"
  have "(word_of_nat v :: byte) OR push_bit 7 1 = word_of_nat v + push_bit 7 1"
  proof (rule disjunctive_add_eq_or [symmetric])
    show "(word_of_nat v :: byte) AND push_bit 7 1 = 0"
      using byte_and_128 [of "word_of_nat v"] v by (simp add: unat_word_of_nat_byte)
  qed
  then show ?thesis by simp
qed

lemma or_push_bit_add: "(v :: nat) < 2 ^ s \<Longrightarrow> v OR push_bit s w = v + w * 2 ^ s"
proof -
  assume v: "v < 2 ^ s"
  have "v AND push_bit s w = 0"
  proof (rule bit_eqI)
    fix n
    have "bit v n \<Longrightarrow> n < s"
    proof (rule ccontr)
      assume "bit v n" "\<not> n < s"
      then have "take_bit s v = v" using v by (simp add: take_bit_nat_eq_self)
      then show False using \<open>bit v n\<close> \<open>\<not> n < s\<close> by (metis bit_take_bit_iff)
    qed
    then show "bit (v AND push_bit s w) n = bit 0 n" by (auto simp: bit_simps)
  qed
  then show ?thesis using disjunctive_add_eq_or [of v "push_bit s w"] by (simp add: push_bit_eq_mult)
qed

section \<open>What a self-delimiting code promises\<close>

text \<open>
  The contract between the writers and readers below: a valid value is written without error, and
  reading the written bytes back returns the value and leaves whatever follows unread.
\<close>

locale stream_codec =
  fixes enc :: "'a \<Rightarrow> bytes res"
    and dec :: "byte_reader \<Rightarrow> ('a \<times> byte_reader) res"
    and valid :: "'a \<Rightarrow> bool"
  assumes dec_enc: "valid x \<Longrightarrow> \<exists>bs. enc x = Inr bs \<and> (\<forall>rest. dec (bs @ rest) = Inr (x, rest))"
begin

lemma enc_total: "valid x \<Longrightarrow> \<exists>bs. enc x = Inr bs"
  using dec_enc by blast

lemma dec_after_enc: "valid x \<Longrightarrow> enc x = Inr bs \<Longrightarrow> dec (bs @ rest) = Inr (x, rest)"
  using dec_enc by fastforce

lemma dec_all: "valid x \<Longrightarrow> enc x = Inr bs \<Longrightarrow> dec bs = Inr (x, [])"
  using dec_after_enc [of x bs "[]"] by simp

lemma prefix_free:
  assumes "valid x" "valid y" "enc x = Inr bs" "enc y = Inr (bs @ cs)"
  shows "x = y \<and> cs = []"
  using dec_all [OF assms(2,4)] dec_after_enc [OF assms(1,3), of cs] by auto

lemma enc_injective: "valid x \<Longrightarrow> valid y \<Longrightarrow> enc x = Inr bs \<Longrightarrow> enc y = Inr bs \<Longrightarrow> x = y"
  using prefix_free [of x y bs "[]"] by simp

end

text \<open>A code in which the reader accepts only what the writer writes.\<close>

locale canonical_codec = stream_codec +
  assumes enc_dec: "dec r = Inr (x, r') \<Longrightarrow> valid x \<and> (\<exists>bs. enc x = Inr bs \<and> r = bs @ r')"
begin

lemma dec_iff: "dec r = Inr (x, r') \<longleftrightarrow> valid x \<and> (\<exists>bs. enc x = Inr bs \<and> r = bs @ r')"
  using enc_dec dec_after_enc by blast

lemma dec_unique:
  assumes "dec (as @ r') = Inr (x, r')" and "dec (bs @ s') = Inr (x, s')"
  shows "as = bs"
  using enc_dec [OF assms(1)] enc_dec [OF assms(2)] by auto

end

lemma decode_varuint_loop_encoded:
  assumes "v0 < 2 ^ (7 * k)" and "n < 2 ^ (70 - 7 * k)" and "k \<le> 9"
    and "raw @ varuint_bytes n = varuint_bytes (v0 + n * 2 ^ (7 * k))"
  shows "decode_varuint_loop (varuint_bytes n @ rest) v0 (7 * k) raw = Inr (int (v0 + n * 2 ^ (7 * k)), rest)"
  using assms
proof (induction n arbitrary: v0 k raw rule: varuint_bytes.induct)
  case (1 n)
  show ?case
  proof (cases "n div 128 = 0")
    case True
    then have small: "n < 128" by simp
    then have enc: "varuint_bytes n = [word_of_nat n]" by (subst varuint_bytes.simps) simp
    have u: "unat (word_of_nat n :: byte) = n" using small by (simp add: unat_word_of_nat_byte)
    show ?thesis using 1(2,5) small
      by (subst decode_varuint_loop.simps)
        (simp add: enc byte_and_127 byte_and_128 u or_push_bit_add encode_varuint_def nat_mult_distrib nat_add_distrib nat_power_eq)
  next
    case False
    define low where "low = n mod 128"
    define high where "high = n div 128"
    define b where "b = (word_of_nat low :: byte) OR 0x80"
    have n: "n = low + high * 128" and low: "low < 128" and high: "high \<noteq> 0"
      using False by (simp_all add: low_def high_def)
    have enc: "varuint_bytes n = b # varuint_bytes high"
      using False by (subst varuint_bytes.simps) (simp add: b_def low_def high_def)
    have "b = word_of_nat (low + 128)" using low by (simp add: b_def byte_or_128)
    then have ub: "unat b = low + 128" using low by (simp only: unat_word_of_nat_byte) simp
    let ?v1 = "v0 + low * 2 ^ (7 * k)"
    have val: "v0 OR push_bit (7 * k) (unat (b AND 0x7F)) = ?v1"
      using 1(2) low by (simp add: byte_and_127 ub or_push_bit_add)
    have "k \<noteq> 9" using 1(3) high n by auto
    then have k: "k \<le> 8" using 1(4) by simp
    have tot: "?v1 + high * 2 ^ (7 * Suc k) = v0 + n * 2 ^ (7 * k)"
      by (simp add: n power_add algebra_simps)
    have "?v1 < 2 ^ (7 * k) + 127 * 2 ^ (7 * k)"
      using 1(2) low by (intro add_less_le_mono mult_right_mono) auto
    then have v1: "?v1 < 2 ^ (7 * Suc k)" by (simp add: power_add)
    have "70 - 7 * k = (70 - 7 * Suc k) + 7" using k by simp
    then have "n < 2 ^ (70 - 7 * Suc k) * 2 ^ 7" using 1(3) by (metis power_add)
    then have hb: "high < 2 ^ (70 - 7 * Suc k)" by (simp add: high_def less_mult_imp_div_less)
    have raw: "(raw @ [b]) @ varuint_bytes high = varuint_bytes (?v1 + high * 2 ^ (7 * Suc k))"
      unfolding tot using 1(5) enc by simp
    have "decode_varuint_loop (varuint_bytes high @ rest) ?v1 (7 * Suc k) (raw @ [b]) =
        Inr (int (?v1 + high * 2 ^ (7 * Suc k)), rest)"
    proof (rule 1(1) [OF _ _ _ v1 hb _ raw])
      show "high = n div 128" "high \<noteq> 0" by (fact high_def, fact high)
    qed (use k in simp_all)
    then have "decode_varuint_loop (varuint_bytes high @ rest) ?v1 (7 * k + 7) (raw @ [b]) =
        Inr (int (v0 + n * 2 ^ (7 * k)), rest)"
      unfolding tot by (simp only: mult_Suc_right add.commute)
    then show ?thesis
      using k by (subst decode_varuint_loop.simps) (simp add: enc byte_and_128 ub val Let_def)
  qed
qed

lemma decode_varuint_loop_canonical:
  assumes "decode_varuint_loop r v0 shift raw = Inr (v, r')"
  shows "0 \<le> v \<and> (\<exists>bs. r = bs @ r' \<and> encode_varuint v = Inr (raw @ bs))"
  using assms
proof (induction r v0 shift raw arbitrary: v rule: decode_varuint_loop.induct)
  case (1 r v0 shift raw)
  from 1(2) obtain b rest where r: "r = b # rest"
    by (subst (asm) decode_varuint_loop.simps) (cases r; auto)
  show ?case
  proof (cases "b AND 0x80 = 0")
    case True
    then show ?thesis using 1(2)
      by (subst (asm) decode_varuint_loop.simps) (auto simp: r Let_def rbind_Inr_iff split: if_splits)
  next
    case False
    have "decode_varuint_loop rest (v0 OR push_bit shift (unat (b AND 0x7F))) (shift + 7) (raw @ [b]) = Inr (v, r')"
      using 1(2) False by (subst (asm) decode_varuint_loop.simps) (auto simp: r Let_def split: if_splits)
    moreover have "\<not> 63 < shift + 7"
      using 1(2) False by (subst (asm) decode_varuint_loop.simps) (auto simp: r Let_def split: if_splits)
    ultimately have "0 \<le> v \<and> (\<exists>bs. rest = bs @ r' \<and> encode_varuint v = Inr ((raw @ [b]) @ bs))"
      using 1(1) [of "(b, rest)" b rest] False r by auto
    then show ?thesis using r by auto
  qed
qed

lemma decode_varuint_loop_bound:
  assumes "decode_varuint_loop r v0 (7 * k) raw = Inr (v, r')" and "k \<le> 9" and "v0 < 2 ^ (7 * k)"
  shows "v < 2 ^ 70"
  using assms
proof (induction r arbitrary: v0 k raw)
  case (Cons b rest)
  have w: "unat (b AND 0x7F) < 128" by (simp add: byte_and_127)
  let ?v1 = "v0 OR push_bit (7 * k) (unat (b AND 0x7F))"
  have "?v1 < 2 ^ (7 * k) + 127 * 2 ^ (7 * k)"
    using Cons.prems(3) w by (simp only: or_push_bit_add) (intro add_less_le_mono mult_right_mono, auto)
  then have v1: "?v1 < 2 ^ (7 * Suc k)" by (simp add: power_add)
  have "(2 :: nat) ^ (7 * Suc k) \<le> 2 ^ 70" using Cons.prems(2) by (intro power_increasing) auto
  then have small: "int ?v1 < 2 ^ 70" using v1 by (simp only: of_nat_less_numeral_power_cancel_iff)
  show ?case
  proof (cases "b AND 0x80 = 0")
    case True
    then have "v = int ?v1" using Cons.prems(1)
      by (subst (asm) decode_varuint_loop.simps) (auto simp: Let_def rbind_Inr_iff split: if_splits)
    then show ?thesis using small by simp
  next
    case False
    then have "decode_varuint_loop rest ?v1 (7 * k + 7) (raw @ [b]) = Inr (v, r') \<and> 7 * k + 7 \<le> 63"
      using Cons.prems(1) by (subst (asm) decode_varuint_loop.simps) (auto simp: Let_def split: if_splits)
    then show ?thesis using Cons.IH [of ?v1 "Suc k" "raw @ [b]"] v1 by (simp add: add.commute)
  qed
qed (subst (asm) decode_varuint_loop.simps, simp)

definition varuint_valid :: "int \<Rightarrow> bool" where
  "varuint_valid v \<longleftrightarrow> 0 \<le> v \<and> v < 2 ^ 70"

interpretation varuint: canonical_codec encode_varuint decode_varuint varuint_valid
proof unfold_locales
  fix v assume "varuint_valid v"
  then have v: "0 \<le> v" "nat v < 2 ^ 70" by (simp_all add: varuint_valid_def nat_less_iff)
  have "decode_varuint (varuint_bytes (nat v) @ rest) = Inr (v, rest)" for rest
    using decode_varuint_loop_encoded [of 0 0 "nat v" "[]" rest] v by (simp add: decode_varuint_def)
  then show "\<exists>bs. encode_varuint v = Inr bs \<and> (\<forall>rest. decode_varuint (bs @ rest) = Inr (v, rest))"
    using v(1) by (simp add: encode_varuint_def)
next
  fix r v r' assume dec: "decode_varuint r = Inr (v, r')"
  then show "varuint_valid v \<and> (\<exists>bs. encode_varuint v = Inr bs \<and> r = bs @ r')"
    using decode_varuint_loop_canonical [of r 0 0 "[]"] decode_varuint_loop_bound [of r 0 0 "[]"]
    by (auto simp: decode_varuint_def varuint_valid_def)
qed

section \<open>Chunks and their descriptors\<close>

text \<open>
  A chunk of the container. The keys that the code reads with \<open>chunk.get\<close> may be absent and are
  optional here; the accessors below supply the defaults of those calls.
\<close>

record bog_chunk =
  b_index :: int
  b_name :: string
  b_offset :: int
  b_length :: int
  b_basis :: string
  b_start_byte :: int
  b_delta :: "int option"
  b_transform :: "string option"
  b_transform_param :: "int option"
  b_residual_count :: int
  b_residuals :: "residual list"
  b_chunk_sha256 :: string
  b_transformed_sha256 :: "string option"
  b_original_chunk_sha256 :: "string option"

definition chunk_delta :: "bog_chunk \<Rightarrow> int" where
  "chunk_delta chunk = get_or (b_delta chunk) 0"

definition chunk_transform :: "bog_chunk \<Rightarrow> string" where
  "chunk_transform chunk = get_or (b_transform chunk) ''identity''"

definition chunk_transform_param :: "bog_chunk \<Rightarrow> int" where
  "chunk_transform_param chunk = get_or (b_transform_param chunk) 0"

definition BOGPK_DESCRIPTOR_SENTINEL :: byte where
  "BOGPK_DESCRIPTOR_SENTINEL = 0xFF"

definition BOGPK_DESCRIPTOR_BITMASK_RESIDUALS :: nat where
  "BOGPK_DESCRIPTOR_BITMASK_RESIDUALS = 1"

text \<open>\<open>xs.index(x)\<close> on a tuple of names, which raises \<open>ValueError\<close>.\<close>

definition name_index :: "string \<Rightarrow> string list \<Rightarrow> nat res" where
  "name_index name names = (case list_index name names of
     None \<Rightarrow> Inl (ValueError ''tuple.index(x): x not in tuple'') | Some i \<Rightarrow> Inr i)"

definition encode_descriptor :: "bog_chunk \<Rightarrow> string \<Rightarrow> int res" where
  "encode_descriptor chunk residual_encoding =
    rbind (name_index (chunk_transform chunk) TRANSFORM_ORDER) (\<lambda>transform_id.
    rbind (name_index (b_basis chunk) BASIS_ORDER) (\<lambda>basis_id.
    if transform_id > 7 then Inl (ContainerError ''BOGPK transform_id out of range'')
    else if basis_id > 15 then Inl (ContainerError ''BOGPK basis_id out of range'')
    else
      let flag = (if residual_encoding = ''bitmask'' then BOGPK_DESCRIPTOR_BITMASK_RESIDUALS else 0) in
      Inr (int (push_bit 5 transform_id OR push_bit 1 basis_id OR flag))))"

record descriptor =
  d_transform :: string
  d_basis :: string
  d_start_byte :: int
  d_delta :: int
  d_transform_param :: int
  d_residual_count :: int
  d_residual_encoding :: string

definition transform_id_of :: "byte \<Rightarrow> nat" where
  "transform_id_of value = unat (drop_bit 5 value AND 7)"

definition basis_id_of :: "byte \<Rightarrow> nat" where
  "basis_id_of value = unat (drop_bit 1 value AND 15)"

definition decode_descriptor :: "byte \<Rightarrow> byte \<Rightarrow> byte \<Rightarrow> int \<Rightarrow> int \<Rightarrow> descriptor res" where
  "decode_descriptor value start_byte delta transform_param residual_count =
    (let residual_encoding = (if value AND word_of_nat BOGPK_DESCRIPTOR_BITMASK_RESIDUALS \<noteq> 0
                              then ''bitmask'' else ''delta'');
         transform_id = transform_id_of value;
         basis_id = basis_id_of value
     in if transform_id \<ge> length TRANSFORM_ORDER then Inl (ContainerError ''BOGPK reserved transform ID'')
        else if basis_id \<ge> length BASIS_ORDER then Inl (ContainerError ''BOGPK reserved basis ID'')
        else Inr \<lparr>d_transform = TRANSFORM_ORDER ! transform_id, d_basis = BASIS_ORDER ! basis_id,
               d_start_byte = uint start_byte, d_delta = uint delta, d_transform_param = transform_param,
               d_residual_count = residual_count, d_residual_encoding = residual_encoding\<rparr>)"

definition append_transform_param :: "bog_chunk \<Rightarrow> bytes res" where
  "append_transform_param chunk =
     (if chunk_transform chunk \<in> BWT_TRANSFORMS then encode_varuint (chunk_transform_param chunk) else Inr [])"

definition read_transform_param :: "byte_reader \<Rightarrow> byte \<Rightarrow> (int \<times> byte_reader) res" where
  "read_transform_param reader descriptor =
    (let transform_id = transform_id_of descriptor in
     if transform_id \<ge> length TRANSFORM_ORDER then Inl (ContainerError ''BOGPK reserved transform ID'')
     else if TRANSFORM_ORDER ! transform_id \<in> BWT_TRANSFORMS then decode_varuint reader
     else Inr (0, reader))"

section \<open>Residual lists\<close>

fun append_residuals_from :: "int \<Rightarrow> residual list \<Rightarrow> bytes res" where
  "append_residuals_from previous_offset [] = Inr []"
| "append_residuals_from previous_offset (patch # patches) =
    rbind (encode_varuint (if previous_offset < 0 then r_offset patch else r_offset patch - previous_offset - 1))
      (\<lambda>delta.
    rbind (append_byte (r_byte patch)) (\<lambda>b.
    rbind (append_residuals_from (r_offset patch) patches) (\<lambda>rest. Inr (delta @ b @ rest))))"

definition append_residuals :: "residual list \<Rightarrow> bytes res" where
  "append_residuals residuals = append_residuals_from (- 1) residuals"

definition encoded_delta_residuals :: "residual list \<Rightarrow> bytes res" where
  "encoded_delta_residuals residuals = append_residuals residuals"

text \<open>
  The dictionary \<open>residuals_by_offset\<close> is built by assigning in list order; the mask has one bit per
  offset, and the bytes follow in increasing order of offset.
\<close>

definition residuals_by_offset :: "residual list \<Rightarrow> (int, int) pydict" where
  "residuals_by_offset residuals = foldl (\<lambda>d patch. AList.update (r_offset patch) (r_byte patch) d) [] residuals"

definition set_mask_bit :: "bytes \<Rightarrow> int \<Rightarrow> bytes res" where
  "set_mask_bit bitmap offset =
    (let i = offset div 8 in
     if 0 \<le> i \<and> i < int (length bitmap) then
       Inr (bitmap[nat i := bitmap ! nat i OR push_bit (nat (offset mod 8)) 1])
     else Inl IndexError)"

definition append_bitmask_residuals :: "int \<Rightarrow> residual list \<Rightarrow> bytes res" where
  "append_bitmask_residuals len residuals =
    (let by_offset = residuals_by_offset residuals in
     rbind (fold_res set_mask_bit (replicate (nat ((len + 7) div 8)) 0) (map fst by_offset)) (\<lambda>bitmap.
     rbind (map_res (\<lambda>offset. case map_of by_offset offset of
                None \<Rightarrow> Inl (KeyError (str_int offset)) | Some byte \<Rightarrow> append_byte byte)
              (sort (map fst by_offset))) (\<lambda>bs.
     Inr (bitmap @ concat bs))))"

fun read_residuals_from :: "byte_reader \<Rightarrow> nat \<Rightarrow> int \<Rightarrow> int \<Rightarrow> (residual list \<times> byte_reader) res" where
  "read_residuals_from reader 0 previous_offset len = Inr ([], reader)"
| "read_residuals_from reader (Suc n) previous_offset len =
    rbind (decode_varuint reader) (\<lambda>(offset_delta, reader1).
    let offset = (if previous_offset < 0 then offset_delta else previous_offset + 1 + offset_delta) in
    if \<not> (0 \<le> offset \<and> offset < len) then Inl (ContainerError ''BOGPK residual offset out of range'')
    else
      rbind (read_byte reader1) (\<lambda>(byte, reader2).
      rbind (read_residuals_from reader2 n offset len) (\<lambda>(residuals, reader3).
      Inr (\<lparr>r_offset = offset, r_byte = uint byte\<rparr> # residuals, reader3))))"

definition read_residuals :: "byte_reader \<Rightarrow> int \<Rightarrow> int \<Rightarrow> (residual list \<times> byte_reader) res" where
  "read_residuals reader residual_count len =
    (if residual_count > len then Inl (ContainerError ''BOGPK residual count exceeds chunk length'')
     else read_residuals_from reader (nat residual_count) (- 1) len)"

fun read_patches :: "byte_reader \<Rightarrow> nat list \<Rightarrow> (residual list \<times> byte_reader) res" where
  "read_patches reader [] = Inr ([], reader)"
| "read_patches reader (offset # offsets) =
    rbind (read_byte reader) (\<lambda>(byte, reader1).
    rbind (read_patches reader1 offsets) (\<lambda>(residuals, reader2).
    Inr (\<lparr>r_offset = int offset, r_byte = uint byte\<rparr> # residuals, reader2)))"

definition mask_offsets :: "bytes \<Rightarrow> nat \<Rightarrow> nat list" where
  "mask_offsets bitmap len = filter (\<lambda>offset. bitmap ! (offset div 8) AND push_bit (offset mod 8) 1 \<noteq> 0) [0..<len]"

definition read_bitmask_residuals :: "byte_reader \<Rightarrow> int \<Rightarrow> int \<Rightarrow> (residual list \<times> byte_reader) res" where
  "read_bitmask_residuals reader residual_count len =
    (if residual_count > len then Inl (ContainerError ''BOGPK residual count exceeds chunk length'')
     else
       rbind (read_bytes reader (nat ((len + 7) div 8))) (\<lambda>(bitmap, reader1).
       let unused_mask = push_bit (nat (len mod 8)) (0xFF :: byte) in
       if len mod 8 \<noteq> 0 \<and> bitmap \<noteq> [] \<and> last bitmap AND unused_mask \<noteq> 0 then
         Inl (ContainerError ''BOGPK bitmask has offsets outside chunk length'')
       else
         let offsets = mask_offsets bitmap (nat len) in
         if int (length offsets) \<noteq> residual_count then
           Inl (ContainerError ''BOGPK bitmask residual count mismatch'')
         else read_patches reader1 offsets))"

definition best_residual_encoding :: "bog_chunk \<Rightarrow> string res" where
  "best_residual_encoding chunk =
    (let residual_count = b_residual_count chunk in
     if residual_count = 0 then Inr ''delta''
     else
       rbind (encoded_delta_residuals (b_residuals chunk)) (\<lambda>encoded.
       let delta_size = int (length encoded);
           bitmask_size = (b_length chunk + 7) div 8 + residual_count
       in Inr (if bitmask_size < delta_size then ''bitmask'' else ''delta'')))"

section \<open>Descriptors read back\<close>

lemma descriptor_value:
  assumes "t < 8" and "b < 16" and "f < 2"
  shows "push_bit 5 t OR push_bit 1 b OR f = 32 * t + 2 * b + (f :: nat)"
proof -
  have "f OR push_bit 1 b = f + b * 2" using or_push_bit_add [of f 1 b] assms(3) by simp
  moreover have "(f + b * 2) OR push_bit 5 t = f + b * 2 + t * 32"
    using or_push_bit_add [of "f + b * 2" 5 t] assms by simp
  ultimately show ?thesis by (metis (no_types, lifting) add.assoc add.commute mult.commute or.assoc or.commute)
qed

lemma unat_and_15: "unat ((b :: byte) AND 15) = unat b mod 16"
proof -
  have "b AND 15 = b mod 16" using take_bit_eq_mask [of 4 b] by (simp add: take_bit_eq_mod mask_eq_exp_minus_1)
  then show ?thesis by (simp add: unat_mod_distrib)
qed

lemma unat_and_7: "unat ((b :: byte) AND 7) = unat b mod 8"
proof -
  have "b AND 7 = b mod 8" using take_bit_eq_mask [of 3 b] by (simp add: take_bit_eq_mod mask_eq_exp_minus_1)
  then show ?thesis by (simp add: unat_mod_distrib)
qed

lemma transform_id_of_eq: "transform_id_of value = unat value div 32"
proof -
  have "unat value div 32 < 8" using unat_byte_less [of "value"] by linarith
  then show ?thesis by (simp add: transform_id_of_def unat_and_7 drop_bit_eq_div unat_div_distrib)
qed

lemma basis_id_of_eq: "basis_id_of value = unat value div 2 mod 16"
  by (simp add: basis_id_of_def unat_and_15 drop_bit_eq_div unat_div_distrib)

lemma bitmask_flag_eq: "value AND word_of_nat BOGPK_DESCRIPTOR_BITMASK_RESIDUALS \<noteq> 0 \<longleftrightarrow> odd (unat value)"
proof -
  have "even value \<longleftrightarrow> even (unat value)" using bit_unsigned_iff [where w = "value" and n = 0 and 'a = nat] by (simp add: bit_0)
  then show ?thesis by (simp add: BOGPK_DESCRIPTOR_BITMASK_RESIDUALS_def and_one_eq mod_2_eq_odd)
qed

lemma name_index_in:
  assumes "name \<in> set names"
  obtains i where "name_index name names = Inr i" and "i < length names" and "names ! i = name"
  using list_index_ex [OF assms] list_index_Some by (fastforce simp: name_index_def)

lemma descriptor_roundtrip:
  assumes "chunk_transform chunk \<in> set TRANSFORM_ORDER" and "b_basis chunk \<in> set BASIS_ORDER"
    and "enc \<in> {''delta'', ''bitmask''}"
  obtains v where "encode_descriptor chunk enc = Inr v" and "0 \<le> v" and "v \<le> 255"
    and "(word_of_int v :: byte) \<noteq> BOGPK_DESCRIPTOR_SENTINEL"
    and "transform_id_of (word_of_int v) < length TRANSFORM_ORDER"
    and "TRANSFORM_ORDER ! transform_id_of (word_of_int v) = chunk_transform chunk"
    and "\<And>s d p n. decode_descriptor (word_of_int v) s d p n =
           Inr \<lparr>d_transform = chunk_transform chunk, d_basis = b_basis chunk, d_start_byte = uint s,
             d_delta = uint d, d_transform_param = p, d_residual_count = n, d_residual_encoding = enc\<rparr>"
proof -
  obtain t where t: "name_index (chunk_transform chunk) TRANSFORM_ORDER = Inr t" "t < length TRANSFORM_ORDER"
      "TRANSFORM_ORDER ! t = chunk_transform chunk"
    using name_index_in [OF assms(1)] .
  obtain b where b: "name_index (b_basis chunk) BASIS_ORDER = Inr b" "b < length BASIS_ORDER"
      "BASIS_ORDER ! b = b_basis chunk"
    using name_index_in [OF assms(2)] .
  have bounds: "t < 7" "b < 9" using t(2) b(2) by (simp_all add: TRANSFORM_ORDER_def BASIS_ORDER_def)
  define f :: nat where "f = (if enc = ''bitmask'' then 1 else 0)"
  define n where "n = 32 * t + 2 * b + f"
  have f: "f < 2" by (simp add: f_def)
  have n: "n < 224" using bounds f by (simp add: n_def)
  have flag: "(if enc = ''bitmask'' then BOGPK_DESCRIPTOR_BITMASK_RESIDUALS else 0) = f"
    by (simp add: f_def BOGPK_DESCRIPTOR_BITMASK_RESIDUALS_def)
  have enc: "encode_descriptor chunk enc = Inr (int n)"
    unfolding encode_descriptor_def t(1) b(1) n_def
    using bounds f by (simp only: rbind_simps Let_def flag descriptor_value if_False) simp
  have w: "unat (word_of_int (int n) :: byte) = n" using n by (simp add: unat_word_of_nat_byte)
  have tid: "transform_id_of (word_of_int (int n)) = t"
    unfolding transform_id_of_eq w using bounds f by (simp add: n_def)
  have bid: "basis_id_of (word_of_int (int n)) = b"
  proof -
    have "n = (16 * t + b) * 2 + f" by (simp add: n_def)
    then have "n div 2 = 16 * t + b" using f by simp
    then show ?thesis unfolding basis_id_of_eq w using bounds by simp
  qed
  have odd: "odd n \<longleftrightarrow> enc = ''bitmask''" by (simp add: n_def f_def)
  show thesis
  proof (rule that [OF enc])
    show "(word_of_int (int n) :: byte) \<noteq> BOGPK_DESCRIPTOR_SENTINEL"
      using w n by (auto simp: BOGPK_DESCRIPTOR_SENTINEL_def)
    show "decode_descriptor (word_of_int (int n)) s d p k =
           Inr \<lparr>d_transform = chunk_transform chunk, d_basis = b_basis chunk, d_start_byte = uint s,
             d_delta = uint d, d_transform_param = p, d_residual_count = k, d_residual_encoding = enc\<rparr>" for s d p k
      unfolding decode_descriptor_def bitmask_flag_eq tid bid w odd
      using t(2,3) b(2,3) assms(3) by auto
  qed (use n tid t in simp_all)
qed

section \<open>Residual lists read back\<close>

lemma append_byte_Inr: "0 \<le> v \<Longrightarrow> v \<le> 255 \<Longrightarrow> append_byte v = Inr [word_of_int v]"
  by (simp add: append_byte_def)

lemma uint_word_of_int_byte [simp]: "0 \<le> v \<Longrightarrow> v \<le> 255 \<Longrightarrow> uint (word_of_int v :: byte) = v"
  by (simp add: uint_word_of_int)

lemma delta_residuals_from_roundtrip:
  assumes "residuals_ok len prev rs" and "- 1 \<le> prev" and "len \<le> 2 ^ 70"
  shows "\<exists>bs. append_residuals_from prev rs = Inr bs \<and>
           (\<forall>rest. read_residuals_from (bs @ rest) (length rs) prev len = Inr (rs, rest))"
  using assms
proof (induction rs arbitrary: prev)
  case (Cons p ps)
  let ?d = "if prev < 0 then r_offset p else r_offset p - prev - 1"
  have "varuint_valid ?d" using Cons.prems by (auto simp: varuint_valid_def)
  then obtain ds where ds: "encode_varuint ?d = Inr ds" "\<And>rest. decode_varuint (ds @ rest) = Inr (?d, rest)"
    using varuint.dec_enc by blast
  obtain bs where bs: "append_residuals_from (r_offset p) ps = Inr bs"
      "\<And>rest. read_residuals_from (bs @ rest) (length ps) (r_offset p) len = Inr (ps, rest)"
    using Cons.IH [of "r_offset p"] Cons.prems by auto
  have off: "(if prev < 0 then ?d else prev + 1 + ?d) = r_offset p" using Cons.prems by auto
  have "append_residuals_from prev (p # ps) = Inr (ds @ [word_of_int (r_byte p)] @ bs)"
    using Cons.prems ds(1) bs(1) by (simp add: append_byte_Inr)
  moreover have "read_residuals_from ((ds @ [word_of_int (r_byte p)] @ bs) @ rest) (length (p # ps)) prev len =
      Inr (p # ps, rest)" for rest
    using Cons.prems ds(2) bs(2) off by (simp add: Let_def)
  ultimately show ?case by blast
qed simp

text \<open>The residual lists of a chunk of length \<open>len\<close>, as \<open>_validate_chunk\<close> accepts them.\<close>

definition residual_list_valid :: "int \<Rightarrow> residual list \<Rightarrow> bool" where
  "residual_list_valid len rs \<longleftrightarrow> 0 \<le> len \<and> len < 2 ^ 63 \<and> residuals_ok len (- 1) rs"

lemma residual_list_valid_count: "residual_list_valid len rs \<Longrightarrow> int (length rs) \<le> len"
  using residuals_ok_count [of len "- 1" rs] by (auto simp: residual_list_valid_def)

lemma delta_residuals_roundtrip:
  assumes "residual_list_valid len rs"
  shows "\<exists>bs. append_residuals rs = Inr bs \<and>
           (\<forall>rest. read_residuals (bs @ rest) (int (length rs)) len = Inr (rs, rest))"
  using delta_residuals_from_roundtrip [of len "- 1" rs] residual_list_valid_count [OF assms] assms
  by (simp add: residual_list_valid_def append_residuals_def read_residuals_def)

text \<open>Offsets of a well-formed list.\<close>

lemma residuals_ok_sorted:
  assumes "residuals_ok len prev rs"
  shows "sorted (map r_offset rs) \<and> distinct (map r_offset rs) \<and> (\<forall>p \<in> set rs. prev < r_offset p)"
  using assms
proof (induction rs arbitrary: prev)
  case (Cons p ps)
  then show ?case by (fastforce simp: image_iff)
qed simp

lemma residuals_ok_range:
  "residuals_ok len prev rs \<Longrightarrow> p \<in> set rs \<Longrightarrow>
     0 \<le> r_offset p \<and> r_offset p < len \<and> 0 \<le> r_byte p \<and> r_byte p \<le> 255"
  by (induction rs arbitrary: prev) auto

lemma update_append_new: "k \<notin> fst ` set d \<Longrightarrow> AList.update k v d = d @ [(k, v)]"
  by (induction d) auto

lemma residuals_by_offset_distinct:
  assumes "distinct (map r_offset rs)"
  shows "residuals_by_offset rs = map (\<lambda>p. (r_offset p, r_byte p)) rs"
proof -
  have "foldl (\<lambda>d patch. AList.update (r_offset patch) (r_byte patch) d) d rs =
      d @ map (\<lambda>p. (r_offset p, r_byte p)) rs" if "distinct (map fst d @ map r_offset rs)" for d
    using that
  proof (induction rs arbitrary: d)
    case (Cons p ps)
    then have "AList.update (r_offset p) (r_byte p) d = d @ [(r_offset p, r_byte p)]"
      by (intro update_append_new) auto
    then show ?case using Cons by auto
  qed simp
  from this [of "[]"] assms show ?thesis by (simp add: residuals_by_offset_def)
qed

text \<open>The bits that \<open>set_mask_bit\<close> has set after a loop over offsets.\<close>

lemma set_mask_bits:
  assumes "\<forall>offset \<in> set offs. 0 \<le> offset \<and> offset < 8 * int (length bm)"
  shows "\<exists>bm'. fold_res set_mask_bit bm offs = Inr bm' \<and> length bm' = length bm \<and>
     (\<forall>j < length bm. \<forall>k < 8. bit (bm' ! j) k \<longleftrightarrow> bit (bm ! j) k \<or> int (8 * j + k) \<in> set offs)"
  using assms
proof (induction offs arbitrary: bm)
  case (Cons off offs)
  define q where "q = nat (off div 8)"
  define e where "e = nat (off mod 8)"
  have off: "off = int (8 * q + e)" and e: "e < 8" and q: "q < length bm"
    using Cons.prems by (auto simp: q_def e_def)
  let ?bm = "bm[q := bm ! q OR push_bit e 1]"
  have step: "set_mask_bit bm off = Inr ?bm"
    using q e by (simp add: set_mask_bit_def Let_def off)
  obtain bm' where bm': "fold_res set_mask_bit ?bm offs = Inr bm'" "length bm' = length bm"
      "\<forall>j < length bm. \<forall>k < 8. bit (bm' ! j) k \<longleftrightarrow> bit (?bm ! j) k \<or> int (8 * j + k) \<in> set offs"
    using Cons.IH [of ?bm] Cons.prems by auto
  have bit: "bit (?bm ! j) k \<longleftrightarrow> bit (bm ! j) k \<or> int (8 * j + k) = off" if "j < length bm" "k < 8" for j k
  proof (cases "j = q")
    case True
    then show ?thesis using that e q by (auto simp: off bit_simps)
  next
    case False
    then have "8 * j + k \<noteq> 8 * q + e" using that e by (metis div_mult_self4 div_less add.commute add_0 zero_neq_numeral)
    then show ?thesis using False by (simp add: off)
  qed
  show ?case using step bm'(1,2) bm'(3) bit by auto
qed simp

lemma and_push_bit_1: "(b :: byte) AND push_bit k 1 \<noteq> 0 \<longleftrightarrow> k < 8 \<and> bit b k"
proof (cases "k < 8")
  case True
  then show ?thesis using and_exp_eq_0_iff_not_bit [of b k] by simp
next
  case False
  then have "push_bit k (1 :: byte) = 0" by (intro bit_word_eqI) (auto simp: bit_simps)
  then have "b AND push_bit k 1 = 0" by (simp only: and_zero_eq)
  then show ?thesis using False by blast
qed

text \<open>The offsets that the reader finds in a mask are the ones the writer set, in order.\<close>

lemma mask_offsets_written:
  assumes "sorted offs" "distinct offs" "\<forall>off \<in> set offs. 0 \<le> off \<and> off < int n"
    and "length bm = (n + 7) div 8"
    and "\<forall>j < length bm. \<forall>k < 8. bit (bm ! j) k \<longleftrightarrow> int (8 * j + k) \<in> set offs"
  shows "mask_offsets bm n = map nat offs"
proof (rule sorted_distinct_set_unique)
  have bit: "bm ! (o' div 8) AND push_bit (o' mod 8) 1 \<noteq> 0 \<longleftrightarrow> int o' \<in> set offs" if "o' < n" for o'
  proof -
    have "o' div 8 < length bm" using that assms(4) by linarith
    then have "bit (bm ! (o' div 8)) (o' mod 8) \<longleftrightarrow> int (8 * (o' div 8) + o' mod 8) \<in> set offs"
      using assms(5) by (simp del: of_nat_add of_nat_mult)
    then show ?thesis unfolding and_push_bit_1 by (simp del: of_nat_add of_nat_mult)
  qed
  show "set (mask_offsets bm n) = set (map nat offs)"
  proof (rule set_eqI)
    fix x
    have "x \<in> set (mask_offsets bm n) \<longleftrightarrow> x < n \<and> int x \<in> set offs"
      using bit by (auto simp: mask_offsets_def)
    also have "\<dots> \<longleftrightarrow> x \<in> set (map nat offs)" using assms(3) by (force simp: image_iff)
    finally show "x \<in> set (mask_offsets bm n) \<longleftrightarrow> x \<in> set (map nat offs)" .
  qed
  show "sorted (map nat offs)" using assms(1) by (auto simp: sorted_wrt_map intro: sorted_wrt_mono_rel [rotated])
  show "distinct (map nat offs)" using assms(2,3) by (auto simp: distinct_map intro!: inj_onI) (metis eq_nat_nat_iff)
qed (simp_all add: mask_offsets_def sorted_wrt_filter)

lemma read_patches_written:
  assumes "residuals_ok len prev rs"
  shows "read_patches (map (\<lambda>p. word_of_int (r_byte p)) rs @ rest) (map (nat \<circ> r_offset) rs) = Inr (rs, rest)"
  using assms by (induction rs arbitrary: prev) auto

lemma bitmask_residuals_roundtrip:
  assumes "residual_list_valid len rs"
  shows "\<exists>bs. append_bitmask_residuals len rs = Inr bs \<and> length bs = nat ((len + 7) div 8) + length rs \<and>
           (\<forall>rest. read_bitmask_residuals (bs @ rest) (int (length rs)) len = Inr (rs, rest))"
proof -
  define n where "n = nat len"
  have len: "len = int n" and ok: "residuals_ok len (- 1) rs"
    using assms by (auto simp: residual_list_valid_def n_def)
  let ?offs = "map r_offset rs"
  have srt: "sorted ?offs" "distinct ?offs" using residuals_ok_sorted [OF ok] by auto
  have rng: "\<forall>off \<in> set ?offs. 0 \<le> off \<and> off < int n"
    using residuals_ok_range [OF ok] len by auto
  have size: "nat ((len + 7) div 8) = (n + 7) div 8" by (simp add: len nat_div_distrib nat_add_distrib)
  let ?bm0 = "replicate ((n + 7) div 8) (0 :: byte)"
  have "\<forall>off \<in> set ?offs. 0 \<le> off \<and> off < 8 * int (length ?bm0)" using rng by fastforce
  then obtain bm where bm: "fold_res set_mask_bit ?bm0 ?offs = Inr bm" "length bm = (n + 7) div 8"
      "\<forall>j < length bm. \<forall>k < 8. bit (bm ! j) k \<longleftrightarrow> int (8 * j + k) \<in> set ?offs"
    using set_mask_bits [of ?offs ?bm0] by auto
  have dict: "residuals_by_offset rs = map (\<lambda>p. (r_offset p, r_byte p)) rs"
    by (rule residuals_by_offset_distinct [OF srt(2)])
  have keys: "map fst (residuals_by_offset rs) = ?offs" by (simp add: dict comp_def)
  have look: "map_of (residuals_by_offset rs) (r_offset p) = Some (r_byte p)" if "p \<in> set rs" for p
    using that srt(2) by (intro map_of_is_SomeI) (auto simp: dict comp_def)
  have bytes: "map_res (\<lambda>offset. case map_of (residuals_by_offset rs) offset of
                None \<Rightarrow> Inl (KeyError (str_int offset)) | Some byte \<Rightarrow> append_byte byte) ?offs =
      Inr (map (\<lambda>p. [word_of_int (r_byte p)]) rs)" (is "map_res ?f _ = _")
  proof -
    have "?f (r_offset p) = Inr [word_of_int (r_byte p)]" if "p \<in> set rs" for p
      using look [OF that] residuals_ok_range [OF ok that] by (simp add: append_byte_Inr)
    then show ?thesis unfolding map_res_map by (intro map_res_total)
  qed
  let ?bs = "bm @ map (\<lambda>p. word_of_int (r_byte p)) rs"
  have "append_bitmask_residuals len rs = Inr ?bs"
    using bm(1) bytes srt(1) by (simp add: append_bitmask_residuals_def Let_def keys size sorted_sort_id)
  moreover have "read_bitmask_residuals (?bs @ rest) (int (length rs)) len = Inr (rs, rest)" for rest
  proof -
    have offs: "mask_offsets bm n = map nat ?offs" by (rule mask_offsets_written [OF srt rng bm(2,3)])
    have unused: "last bm AND push_bit (n mod 8) 0xFF = 0" if "n mod 8 \<noteq> 0" "bm \<noteq> []"
    proof (rule bit_word_eqI)
      fix k assume "k < LENGTH(8)"
      then have k: "k < 8" by simp
      have l: "last bm = bm ! (n div 8)" "n div 8 < length bm"
      proof -
        have "(n + 7) div 8 = Suc (n div 8)"
        proof -
          have "n = 8 * (n div 8) + n mod 8" "n mod 8 < 8" by simp_all
          then show ?thesis using that(1) by linarith
        qed
        then show "last bm = bm ! (n div 8)" "n div 8 < length bm"
          using that(2) bm(2) by (simp_all add: last_conv_nth)
      qed
      have "\<not> bit (last bm) k" if "n mod 8 \<le> k"
      proof
        assume "bit (last bm) k"
        then have "int (8 * (n div 8) + k) \<in> set ?offs" using bm(3) k l by simp
        then have "8 * (n div 8) + k < n" using rng by fastforce
        then show False using that mult_div_mod_eq [of 8 n] by linarith
      qed
      then show "bit (last bm AND push_bit (n mod 8) 0xFF) k = bit 0 k" by (auto simp: bit_simps)
    qed
    have "int n mod 8 \<noteq> 0 \<Longrightarrow> 0 < n mod 8" by presburger
    then show ?thesis
      using residual_list_valid_count [OF assms] bm(2) unused read_patches_written [OF ok, of rest] offs
      by (auto simp: read_bitmask_residuals_def size Let_def len nat_mod_distrib)
  qed
  ultimately show ?thesis using bm(2) size by auto
qed

text \<open>
  Both residual codes as instances of the contract, for a chunk length and a residual count the
  reader already knows from the descriptor.
\<close>

interpretation delta_code: stream_codec append_residuals "\<lambda>r. read_residuals r (int k) len"
    "\<lambda>rs. residual_list_valid len rs \<and> length rs = k" for k len
  by unfold_locales (use delta_residuals_roundtrip in blast)

interpretation bitmask_code: stream_codec "append_bitmask_residuals len" "\<lambda>r. read_bitmask_residuals r (int k) len"
    "\<lambda>rs. residual_list_valid len rs \<and> length rs = k" for k len
  by unfold_locales (use bitmask_residuals_roundtrip in blast)

text \<open>The readers only return well-formed lists of the announced length.\<close>

lemma read_residuals_from_ok:
  assumes "read_residuals_from r n prev len = Inr (rs, r')" and "- 1 \<le> prev"
  shows "residuals_ok len prev rs \<and> length rs = n"
  using assms
proof (induction n arbitrary: r prev rs)
  case (Suc n)
  from Suc.prems(1) obtain d r1 b r2 ps where d: "decode_varuint r = Inr (d, r1)" and r1: "read_byte r1 = Inr (b, r2)"
    and off: "0 \<le> (if prev < 0 then d else prev + 1 + d)" "(if prev < 0 then d else prev + 1 + d) < len"
    and rec: "read_residuals_from r2 n (if prev < 0 then d else prev + 1 + d) len = Inr (ps, r')"
    and rs: "rs = \<lparr>r_offset = (if prev < 0 then d else prev + 1 + d), r_byte = uint b\<rparr> # ps"
    by (auto simp: rbind_Inr_iff Let_def split: if_splits)
  have "0 \<le> d" using varuint.enc_dec [OF d] by (simp add: varuint_valid_def)
  moreover have "residuals_ok len (if prev < 0 then d else prev + 1 + d) ps \<and> length ps = n"
    by (rule Suc.IH [OF rec]) (use off in simp)
  ultimately show ?case using rs off Suc.prems(2) by auto
qed auto

lemma read_residuals_ok:
  assumes "read_residuals r k len = Inr (rs, r')" and "0 \<le> k"
  shows "residuals_ok len (- 1) rs \<and> int (length rs) = k"
  using assms read_residuals_from_ok [of r "nat k" "- 1" len rs r']
  by (auto simp: read_residuals_def split: if_splits)

lemma read_patches_ok:
  assumes "read_patches r offs = Inr (rs, r')" and "sorted_wrt (<) offs"
    and "\<forall>off \<in> set offs. off < n \<and> prev < int off"
  shows "residuals_ok (int n) prev rs \<and> length rs = length offs"
  using assms
proof (induction offs arbitrary: r rs prev)
  case (Cons off offs)
  from Cons.prems(1) obtain b r1 ps where "read_byte r = Inr (b, r1)" and rec: "read_patches r1 offs = Inr (ps, r')"
    and rs: "rs = \<lparr>r_offset = int off, r_byte = uint b\<rparr> # ps"
    by (auto simp: rbind_Inr_iff)
  have "residuals_ok (int n) (int off) ps \<and> length ps = length offs"
    by (rule Cons.IH [OF rec]) (use Cons.prems in auto)
  then show ?case using rs Cons.prems by auto
qed auto

lemma read_bitmask_residuals_ok:
  assumes "read_bitmask_residuals r k len = Inr (rs, r')" and "0 \<le> len"
  shows "residuals_ok len (- 1) rs \<and> int (length rs) = k"
proof -
  from assms(1) obtain bm r1 where rp: "read_patches r1 (mask_offsets bm (nat len)) = Inr (rs, r')"
    and k: "int (length (mask_offsets bm (nat len))) = k"
    by (auto simp: read_bitmask_residuals_def rbind_Inr_iff Let_def split: if_splits)
  have "sorted_wrt (<) (mask_offsets bm (nat len))" by (simp add: mask_offsets_def sorted_wrt_filter)
  moreover have "\<forall>off \<in> set (mask_offsets bm (nat len)). off < nat len \<and> - 1 < int off"
    by (auto simp: mask_offsets_def)
  ultimately show ?thesis using read_patches_ok [OF rp] k assms(2) by fastforce
qed

text \<open>
  The chooser takes the bitmask exactly when it is strictly shorter, and both encoders then produce
  as many bytes as it counted.
\<close>

lemma best_residual_encoding_least:
  assumes "residual_list_valid (b_length chunk) (b_residuals chunk)"
    and "b_residual_count chunk = int (length (b_residuals chunk))"
  obtains enc bd bb where "best_residual_encoding chunk = Inr enc" and "enc \<in> {''delta'', ''bitmask''}"
    and "append_residuals (b_residuals chunk) = Inr bd"
    and "append_bitmask_residuals (b_length chunk) (b_residuals chunk) = Inr bb"
    and "b_residuals chunk \<noteq> [] \<Longrightarrow>
          length (if enc = ''bitmask'' then bb else bd) = min (length bd) (length bb)"
    and "b_residuals chunk = [] \<Longrightarrow> enc = ''delta'' \<and> bd = []"
proof -
  obtain bd where bd: "append_residuals (b_residuals chunk) = Inr bd"
    using delta_residuals_roundtrip [OF assms(1)] by blast
  obtain bb where bb: "append_bitmask_residuals (b_length chunk) (b_residuals chunk) = Inr bb"
      "length bb = nat ((b_length chunk + 7) div 8) + length (b_residuals chunk)"
    using bitmask_residuals_roundtrip [OF assms(1)] by blast
  let ?enc = "if b_residuals chunk \<noteq> [] \<and> length bb < length bd then ''bitmask'' else ''delta''"
  have size: "(b_length chunk + 7) div 8 + b_residual_count chunk = int (length bb)"
    using bb(2) assms by (simp add: residual_list_valid_def)
  have "best_residual_encoding chunk = Inr ?enc"
    unfolding best_residual_encoding_def Let_def size
    by (simp add: encoded_delta_residuals_def bd assms(2))
  moreover have "bd = []" if "b_residuals chunk = []"
    using bd that by (simp add: append_residuals_def)
  ultimately show thesis using bd bb(1) by (intro that [of ?enc bd bb]) auto
qed

end
