(* ===== verification/Py_Text.thy ===== *)
theory Py_Text
  imports Bog_Prelude
begin

text \<open>
  The string methods of Python that the assembler and the JSON writer rely on, for text whose code
  points are below 256: \<open>isspace\<close>, \<open>splitlines\<close>, \<open>strip\<close>, \<open>split()\<close>, \<open>upper\<close>, \<open>lower\<close> and
  \<open>int(s)\<close>. Letters outside ASCII keep their case, which can only change the wording of an error.
\<close>

definition is_space :: "char \<Rightarrow> bool" where
  "is_space c \<longleftrightarrow> (let n = (of_char c :: nat) in
     9 \<le> n \<and> n \<le> 13 \<or> 28 \<le> n \<and> n \<le> 32 \<or> n = 133 \<or> n = 160)"

definition is_line_break :: "char \<Rightarrow> bool" where
  "is_line_break c \<longleftrightarrow> (let n = (of_char c :: nat) in 10 \<le> n \<and> n \<le> 13 \<or> 28 \<le> n \<and> n \<le> 30 \<or> n = 133)"

text \<open>\<open>str.splitlines()\<close>: a carriage return followed by a newline is one break.\<close>

fun splitlines_from :: "string \<Rightarrow> string \<Rightarrow> string list" where
  "splitlines_from acc [] = (if acc = [] then [] else [rev acc])"
| "splitlines_from acc (c # cs) =
    (if is_line_break c then
       rev acc # (case cs of
           [] \<Rightarrow> []
         | d # ds \<Rightarrow> if c = char_of (13 :: nat) \<and> d = char_of (10 :: nat) then splitlines_from [] ds
                     else splitlines_from [] cs)
     else splitlines_from (c # acc) cs)"

definition splitlines :: "string \<Rightarrow> string list" where
  "splitlines text = splitlines_from [] text"

definition strip :: "string \<Rightarrow> string" where
  "strip s = rev (dropWhile is_space (rev (dropWhile is_space s)))"

text \<open>\<open>str.split()\<close> without arguments: maximal runs of non-space characters.\<close>

fun split_words :: "string \<Rightarrow> string \<Rightarrow> string list" where
  "split_words acc [] = (if acc = [] then [] else [rev acc])"
| "split_words acc (c # cs) =
    (if is_space c then (if acc = [] then split_words [] cs else rev acc # split_words [] cs)
     else split_words (c # acc) cs)"

definition words :: "string \<Rightarrow> string list" where
  "words s = split_words [] s"

definition upper_char :: "char \<Rightarrow> char" where
  "upper_char c = (let n = of_char c in if 97 \<le> n \<and> n \<le> 122 then char_of (n - 32 :: nat) else c)"

definition upper :: "string \<Rightarrow> string" where
  "upper s = map upper_char s"

definition lower_char :: "char \<Rightarrow> char" where
  "lower_char c = (let n = of_char c in if 65 \<le> n \<and> n \<le> 90 then char_of (n + 32 :: nat) else c)"

definition lower :: "string \<Rightarrow> string" where
  "lower s = map lower_char s"

text \<open>\<open>int(s)\<close>: an optional sign, then digits; a single underscore may stand between digits.\<close>

fun digits_value :: "nat \<Rightarrow> string \<Rightarrow> nat option" where
  "digits_value acc [] = Some acc"
| "digits_value acc (c # cs) =
    (if is_digit c then digits_value (10 * acc + (of_char c - 48)) cs
     else if c = CHR ''_'' then
       (case cs of d # ds \<Rightarrow> if is_digit d then digits_value (10 * acc + (of_char d - 48)) ds else None | [] \<Rightarrow> None)
     else None)"

definition unsigned_value :: "string \<Rightarrow> nat option" where
  "unsigned_value s = (case s of [] \<Rightarrow> None | c # cs \<Rightarrow> if is_digit c then digits_value 0 s else None)"

definition py_int :: "string \<Rightarrow> int res" where
  "py_int s =
    (let t = strip s;
         parsed = (case t of
             [] \<Rightarrow> None
           | c # cs \<Rightarrow> if c = CHR ''-'' then map_option (\<lambda>n. - int n) (unsigned_value cs)
                       else if c = CHR ''+'' then map_option int (unsigned_value cs)
                       else map_option int (unsigned_value t))
     in case parsed of
          None \<Rightarrow> Inl (ValueError (''invalid literal for int() with base 10: '' @ s))
        | Some v \<Rightarrow> Inr v)"

section \<open>Lines\<close>

definition newline :: string where
  "newline = [char_of (10 :: nat)]"

text \<open>\<open>"\n".join(lines) + "\n"\<close> for a non-empty list of lines.\<close>

definition unlines :: "string list \<Rightarrow> string" where
  "unlines lines = concat (map (\<lambda>line. line @ newline) lines)"

lemma splitlines_from_line:
  assumes "list_all (\<lambda>c. \<not> is_line_break c) line"
  shows "splitlines_from acc (line @ newline @ rest) = (rev acc @ line) # splitlines_from [] rest"
  using assms
proof (induction line arbitrary: acc)
  case Nil
  have "is_line_break (char_of (10 :: nat))" "char_of (10 :: nat) \<noteq> (char_of (13 :: nat) :: char)"
    by (simp_all add: is_line_break_def)
  then show ?case by (cases rest) (simp_all add: newline_def)
qed simp

lemma splitlines_unlines [roundtrip]:
  assumes "list_all (list_all (\<lambda>c. \<not> is_line_break c)) lines"
  shows "splitlines (unlines lines) = lines"
  unfolding splitlines_def unlines_def using assms
  by (induction lines) (simp_all add: splitlines_from_line)

section \<open>Words\<close>

definition is_word :: "string \<Rightarrow> bool" where
  "is_word s \<longleftrightarrow> s \<noteq> [] \<and> list_all (\<lambda>c. \<not> is_space c) s"

fun unwords :: "string list \<Rightarrow> string" where
  "unwords [] = ''''"
| "unwords [w] = w"
| "unwords (w # v # ws) = w @ '' '' @ unwords (v # ws)"

lemma split_words_word:
  assumes "list_all (\<lambda>c. \<not> is_space c) w"
  shows "split_words acc (w @ rest) = split_words (rev w @ acc) rest"
  using assms by (induction w arbitrary: acc) auto

lemma is_space_blank [simp]: "is_space (CHR '' '')"
  by (simp add: is_space_def)

lemma words_unwords [roundtrip]:
  assumes "list_all is_word ws"
  shows "words (unwords ws) = ws"
  unfolding words_def using assms
  by (induction ws rule: unwords.induct)
    (auto simp: is_word_def split_words_word split_words_word [where rest = "[]", simplified])

lemma strip_id:
  assumes "s \<noteq> []" and "\<not> is_space (hd s)" and "\<not> is_space (last s)"
  shows "strip s = s"
  using assms by (simp add: strip_def hd_rev)
    (metis dropWhile_eq_self_iff hd_rev rev_rev_ident)

lemma unwords_ends:
  assumes "list_all is_word ws" and "ws \<noteq> []"
  shows "unwords ws \<noteq> []" and "hd (unwords ws) = hd (hd ws)" and "last (unwords ws) = last (last ws)"
  using assms by (induction ws rule: unwords.induct) (auto simp: is_word_def)

lemma strip_unwords:
  assumes "list_all is_word ws" and "ws \<noteq> []"
  shows "strip (unwords ws) = unwords ws"
proof (rule strip_id)
  have w: "is_word (hd ws)" "is_word (last ws)" using assms by (auto simp: list_all_iff)
  show "unwords ws \<noteq> []" by (rule unwords_ends(1) [OF assms])
  show "\<not> is_space (hd (unwords ws))" "\<not> is_space (last (unwords ws))"
    using w unwords_ends(2,3) [OF assms] by (auto simp: is_word_def list_all_iff)
qed

lemma set_unwords: "set (unwords ws) \<subseteq> insert (CHR '' '') (\<Union> (set ` set ws))"
  by (induction ws rule: unwords.induct) auto

section \<open>Numbers\<close>

lemma is_digit_not_space: "is_digit c \<Longrightarrow> \<not> is_space c"
  by (auto simp: is_digit_def is_space_def Let_def)

lemma str_nat_word: "is_word (str_nat n)"
  using str_nat_digits is_digit_not_space by (auto simp: is_word_def list_all_iff)

lemma str_int_word: "is_word (str_int i)"
  using str_nat_word by (auto simp: str_int_def is_word_def is_space_def)

lemma digits_value_digits: "list_all is_digit s \<Longrightarrow> digits_value acc s = Some (nat_of_digits acc s)"
  by (induction s arbitrary: acc) auto

lemma unsigned_value_str_nat: "unsigned_value (str_nat n) = Some n"
proof -
  have "list_all is_digit (str_nat n)" using str_nat_digits by (auto simp: list_all_iff)
  then have "digits_value 0 (str_nat n) = Some n" by (simp add: digits_value_digits nat_of_digits_str_nat)
  moreover obtain c cs where "str_nat n = c # cs" by (cases "str_nat n") auto
  ultimately show ?thesis using \<open>list_all is_digit (str_nat n)\<close> by (simp add: unsigned_value_def)
qed

lemma py_int_str_int [simp, roundtrip]: "py_int (str_int i) = Inr i"
proof -
  have st: "strip (str_int i) = str_int i"
    using str_int_word [of i] by (intro strip_id) (auto simp: is_word_def list_all_iff)
  show ?thesis
  proof (cases "i < 0")
    case True
    then have "str_int i = CHR ''-'' # str_nat (nat (- i))" by (simp add: str_int_def)
    then show ?thesis using True st by (simp add: py_int_def unsigned_value_str_nat)
  next
    case False
    then have eq: "str_int i = str_nat (nat i)" by (simp add: str_int_def)
    obtain c cs where c: "str_nat (nat i) = c # cs" by (cases "str_nat (nat i)") auto
    then have "is_digit c" using str_nat_digits [of c "nat i"] by simp
    then have "c \<noteq> CHR ''-''" "c \<noteq> CHR ''+''" by (auto simp: is_digit_def)
    then show ?thesis using False unsigned_value_str_nat [of "nat i"] st by (simp add: py_int_def eq c)
  qed
qed

text \<open>\<open>", ".join\<close>.\<close>

fun join_comma_space :: "string list \<Rightarrow> string" where
  "join_comma_space [] = ''''"
| "join_comma_space [s] = s"
| "join_comma_space (s # t # ss) = s @ '', '' @ join_comma_space (t # ss)"

end
