(* ===== verification/Container.thy ===== *)
theory Container
  imports Bogpk Py_Text
begin

text \<open>
  The BOG container of \<^verbatim>\<open>src/bogvm/container.py\<close> and its packed form: building a container
  from a chunked plan, the chunk-size tournament, validation, the BOGPK encoder and decoder, the
  reconstruction of the payload, and the BOGASM program a container compiles to.

  A container is a record with the keys of the dictionary the code builds. Keys the code reads with
  \<open>container.get\<close> are optional. The \<open>isinstance\<close> checks of the validator and its checks that the
  required keys are there hold by typing. A float that \<open>round(x, 6)\<close> returns is the integer
  number of millionths; no branch of the code depends on the float itself.

  The JSON schema check calls a third-party validator; the errors it reports for an instance are the
  parameter \<open>iter_errors\<close> of the definitions below.
\<close>

type_synonym millionths = int

record tournament_result =
  tr_chunk_size :: int
  tr_chunk_count :: int
  tr_total_residual_count :: int
  tr_residual_density :: millionths
  tr_transform_counts :: "(string, int) pydict option"

record container =
  bc_format :: string
  bc_vm_format :: string
  bc_pack_mode :: string
  bc_chunk_size :: int
  bc_chunk_count :: int
  bc_whole_sha256 :: string
  bc_total_residual_count :: int
  bc_chunks :: "bog_chunk list"
  bc_chunk_tournament_enabled :: "bool option"
  bc_candidate_chunk_sizes :: "int list option"
  bc_selected_chunk_size :: "int option"
  bc_selected_total_residual_count :: "int option"
  bc_selected_residual_density :: "millionths option"
  bc_chunk_tournament_results :: "tournament_result list option"
  bc_transform_tournament_enabled :: "bool option"
  bc_candidate_transforms :: "string list option"
  bc_selected_transform_counts :: "(string, int) pydict option"

definition CANDIDATE_CHUNK_SIZES :: "int list" where
  "CANDIDATE_CHUNK_SIZES = [16, 32, 64, 128]"

definition BOG_FORMAT :: string where
  "BOG_FORMAT = ''BOG-2.0''"

definition BOGBIN_FORMAT :: string where
  "BOGBIN_FORMAT = ''BOGBIN-2.0''"

definition BOGPK_MAGIC :: bytes where
  "BOGPK_MAGIC = utf8 ''BOGPK1''"

definition BOGPK_VERSION :: byte where
  "BOGPK_VERSION = 1"

definition BOGPK_FLAG_TRANSFORMED_HASHES :: byte where
  "BOGPK_FLAG_TRANSFORMED_HASHES = 1"

definition BOGPK_FLAG_ORIGINAL_HASHES :: byte where
  "BOGPK_FLAG_ORIGINAL_HASHES = 2"

definition BOGPK_FLAG_ZERO_RESIDUAL_RUNS :: byte where
  "BOGPK_FLAG_ZERO_RESIDUAL_RUNS = 4"

section \<open>Building a container\<close>

text \<open>
  \<open>round(total_residual_count / length, 6)\<close>: the quotient of two integers is the nearest double, of 53 significant
  bits, and \<open>round\<close> picks the nearest millionth to the exact value of that double; ties go to even.
\<close>

definition half_even_div :: "int \<Rightarrow> int \<Rightarrow> int" where
  "half_even_div x y =
    (let q = x div y; r = x mod y in if 2 * r < y then q else if y < 2 * r then q + 1 else if even q then q else q + 1)"

fun bit_count :: "nat \<Rightarrow> nat" where
  "bit_count n = (if n = 0 then 0 else Suc (bit_count (n div 2)))"

declare bit_count.simps [simp del]

definition shifted_ratio :: "int \<Rightarrow> int \<Rightarrow> int \<Rightarrow> int \<times> int" where
  "shifted_ratio x y s = (if 0 \<le> s then (x * 2 ^ nat s, y) else (x, y * 2 ^ nat (- s)))"

definition double_ratio :: "int \<Rightarrow> int \<Rightarrow> int \<times> int" where
  "double_ratio x y =
    (let s = 53 + int (bit_count (nat y)) - int (bit_count (nat x));
         (n, d) = shifted_ratio x y s; s' = (if n div d < 2 ^ 53 then s else s - 1);
         (n', d') = shifted_ratio x y s'
     in (half_even_div n' d', s'))"

definition residual_density :: "int \<Rightarrow> int \<Rightarrow> millionths" where
  "residual_density total_residual_count len =
    (if len = 0 \<or> total_residual_count = 0 then 0
     else let (m, s) = double_ratio total_residual_count len
          in if 0 \<le> s then half_even_div (m * 1000000) (2 ^ nat s) else m * 2 ^ nat (- s) * 1000000)"

definition optimize_chunked_plan :: "bytes \<Rightarrow> int \<Rightarrow> bool \<Rightarrow> chunked_plan res" where
  "optimize_chunked_plan data chunk_size transform_tournament =
    (if transform_tournament then optimize_transformed_chunked_residual_plan data chunk_size
     else optimize_chunked_residual_plan data chunk_size)"

text \<open>One round of the chunk-size tournament: the plan, its key and its entry in the result list.\<close>

definition chunk_size_key :: "int \<Rightarrow> int \<times> chunked_plan \<Rightarrow> int \<times> millionths \<times> int \<times> int" where
  "chunk_size_key len = (\<lambda>(chunk_size, plan).
     (ck_total_residual_count plan, residual_density (ck_total_residual_count plan) len,
      ck_chunk_count plan, chunk_size))"

definition chunk_size_result :: "int \<Rightarrow> bool \<Rightarrow> int \<times> chunked_plan \<Rightarrow> tournament_result" where
  "chunk_size_result len transform_tournament = (\<lambda>(chunk_size, plan).
     \<lparr>tr_chunk_size = chunk_size, tr_chunk_count = ck_chunk_count plan,
      tr_total_residual_count = ck_total_residual_count plan,
      tr_residual_density = residual_density (ck_total_residual_count plan) len,
      tr_transform_counts = (if transform_tournament then ck_transform_counts plan else None)\<rparr>)"

definition optimize_adaptive_chunked_residual_plan ::
  "bytes \<Rightarrow> bool \<Rightarrow> (chunked_plan \<times> tournament_result list) res" where
  "optimize_adaptive_chunked_residual_plan data transform_tournament =
    rbind (map_res (\<lambda>chunk_size. rbind (optimize_chunked_plan data chunk_size transform_tournament)
             (\<lambda>plan. Inr (chunk_size, plan))) CANDIDATE_CHUNK_SIZES) (\<lambda>rounds.
    case keep_best (chunk_size_key (int (length data))) None rounds of
      None \<Rightarrow> Inl AssertionError
    | Some (_, best_plan) \<Rightarrow>
        Inr (best_plan, map (chunk_size_result (int (length data)) transform_tournament) rounds))"

definition chunk_name :: "int \<Rightarrow> string" where
  "chunk_name index = ''payload_chunk_'' @ pad4 (nat index)"

definition container_chunk :: "chunk_plan \<Rightarrow> bog_chunk" where
  "container_chunk chunk =
    \<lparr>b_index = cp_index chunk, b_name = chunk_name (cp_index chunk), b_offset = cp_offset chunk,
     b_length = p_length chunk, b_basis = p_basis chunk, b_start_byte = p_start_byte chunk,
     b_delta = Some (p_delta chunk),
     b_transform = Some (get_or (cp_transform chunk) ''identity''),
     b_transform_param = Some (get_or (cp_transform_param chunk) 0),
     b_residual_count = p_residual_count chunk, b_residuals = p_residuals chunk,
     b_chunk_sha256 = p_sha256 chunk,
     b_transformed_sha256 = Some (get_or (cp_transformed_sha256 chunk) (p_sha256 chunk)),
     b_original_chunk_sha256 = Some (get_or (cp_original_sha256 chunk) (p_sha256 chunk))\<rparr>"

definition build_bog_container_from_plan ::
  "chunked_plan \<Rightarrow> bool \<Rightarrow> tournament_result list \<Rightarrow> bool \<Rightarrow> container" where
  "build_bog_container_from_plan plan auto_chunk tournament_results transform_tournament =
    \<lparr>bc_format = BOG_FORMAT, bc_vm_format = BOGBIN_FORMAT, bc_pack_mode = ''chunked'',
     bc_chunk_size = ck_chunk_size plan, bc_chunk_count = ck_chunk_count plan,
     bc_whole_sha256 = ck_whole_sha256 plan,
     bc_total_residual_count = ck_total_residual_count plan,
     bc_chunks = map container_chunk (ck_chunks plan),
     bc_chunk_tournament_enabled = Some auto_chunk,
     bc_candidate_chunk_sizes = Some (if auto_chunk then CANDIDATE_CHUNK_SIZES else [ck_chunk_size plan]),
     bc_selected_chunk_size = Some (ck_chunk_size plan),
     bc_selected_total_residual_count = Some (ck_total_residual_count plan),
     bc_selected_residual_density = Some (residual_density (ck_total_residual_count plan) (ck_length plan)),
     bc_chunk_tournament_results = Some tournament_results,
     bc_transform_tournament_enabled = Some transform_tournament,
     bc_candidate_transforms = Some (if transform_tournament then TRANSFORM_ORDER else [''identity'']),
     bc_selected_transform_counts =
       Some (get_or (ck_transform_counts plan) [(''identity'', ck_chunk_count plan)])\<rparr>"

definition build_bog_container_v1 :: "bytes \<Rightarrow> int \<Rightarrow> bool \<Rightarrow> bool \<Rightarrow> container res" where
  "build_bog_container_v1 data chunk_size auto_chunk transform_tournament =
    rbind (if auto_chunk then optimize_adaptive_chunked_residual_plan data transform_tournament
           else rbind (optimize_chunked_plan data chunk_size transform_tournament) (\<lambda>plan. Inr (plan, [])))
      (\<lambda>(plan, tournament_results).
    Inr (build_bog_container_from_plan plan auto_chunk tournament_results transform_tournament))"

definition build_bog_container :: "bytes \<Rightarrow> int \<Rightarrow> bool \<Rightarrow> container res" where
  "build_bog_container data chunk_size auto_chunk = build_bog_container_v1 data chunk_size auto_chunk False"

section \<open>Validation\<close>

definition is_sha256 :: "string \<Rightarrow> bool" where
  "is_sha256 value \<longleftrightarrow> length value = 64 \<and> (\<forall>ch \<in> set value. ch \<in> set ''0123456789abcdef'')"

fun validate_residuals :: "int \<Rightarrow> int \<Rightarrow> residual list \<Rightarrow> unit res" where
  "validate_residuals len previous_offset [] = Inr ()"
| "validate_residuals len previous_offset (patch # patches) =
    (if \<not> (0 \<le> r_offset patch \<and> r_offset patch < len) then
       Inl (ContainerError ''residual offset out of range'')
     else if r_offset patch \<le> previous_offset then
       Inl (ContainerError ''residual offsets must be strictly increasing'')
     else if \<not> (0 \<le> r_byte patch \<and> r_byte patch \<le> 255) then
       Inl (ContainerError ''residual byte must be 0..255'')
     else validate_residuals len (r_offset patch) patches)"

definition validate_chunk :: "bog_chunk \<Rightarrow> int \<Rightarrow> int \<Rightarrow> int \<Rightarrow> unit res" where
  "validate_chunk chunk expected_index expected_offset chunk_size =
    (if b_index chunk \<noteq> expected_index then
       Inl (ContainerError ''chunk index ordering is not deterministic'')
     else if b_name chunk \<noteq> chunk_name expected_index then
       Inl (ContainerError (''chunk name must be '' @ chunk_name expected_index))
     else if b_offset chunk \<noteq> expected_offset then
       Inl (ContainerError ''chunk offset ordering is not deterministic'')
     else if b_length chunk < 0 \<or> b_length chunk > chunk_size then
       Inl (ContainerError ''chunk length is invalid'')
     else if b_length chunk = 0 then Inl (ContainerError ''empty chunks are not allowed'')
     else if b_basis chunk \<notin> set BASIS_ORDER then
       Inl (ContainerError (''Unsupported deterministic basis: '' @ b_basis chunk))
     else if chunk_transform chunk \<notin> set TRANSFORM_ORDER then
       Inl (ContainerError (''Unsupported reversible transform: '' @ get_or (b_transform chunk) ''None''))
     else if chunk_transform_param chunk < 0 then
       Inl (ContainerError ''transform_param must be a non-negative integer'')
     else if \<not> (0 \<le> b_start_byte chunk \<and> b_start_byte chunk \<le> 255) then
       Inl (ContainerError ''start_byte must be 0..255'')
     else if \<not> (0 \<le> chunk_delta chunk \<and> chunk_delta chunk \<le> 255) then
       Inl (ContainerError ''delta must be 0..255'')
     else if b_residual_count chunk < 0 then
       Inl (ContainerError ''residual_count must be a non-negative integer'')
     else if int (length (b_residuals chunk)) \<noteq> b_residual_count chunk then
       Inl (ContainerError ''residual_count does not match residual list length'')
     else if \<not> is_sha256 (b_chunk_sha256 chunk) then
       Inl (ContainerError ''chunk_sha256 must be a SHA-256 hex string'')
     else if \<not> is_sha256 (get_or (b_transformed_sha256 chunk) (b_chunk_sha256 chunk)) then
       Inl (ContainerError ''transformed_sha256 must be a SHA-256 hex string'')
     else if \<not> is_sha256 (get_or (b_original_chunk_sha256 chunk) (b_chunk_sha256 chunk)) then
       Inl (ContainerError ''original_chunk_sha256 must be a SHA-256 hex string'')
     else validate_residuals (b_length chunk) (- 1) (b_residuals chunk))"

definition container_length :: "container \<Rightarrow> int" where
  "container_length container = sum_list (map b_length (bc_chunks container))"

definition validate_tournament_metadata :: "container \<Rightarrow> unit res" where
  "validate_tournament_metadata container =
    (let enabled = get_or (bc_chunk_tournament_enabled container) False;
         candidate_sizes = get_or (bc_candidate_chunk_sizes container) [bc_chunk_size container];
         selected_chunk_size = get_or (bc_selected_chunk_size container) (bc_chunk_size container);
         selected_total_residual_count = get_or (bc_selected_total_residual_count container)
           (bc_total_residual_count container)
     in
     if \<not> list_all (\<lambda>sz. sz > 0) candidate_sizes then
       Inl (ContainerError ''candidate_chunk_sizes must be positive integers'')
     else if selected_chunk_size \<noteq> bc_chunk_size container then
       Inl (ContainerError ''selected_chunk_size must match chunk_size'')
     else if selected_total_residual_count \<noteq> bc_total_residual_count container then
       Inl (ContainerError ''selected_total_residual_count must match total_residual_count'')
     else if enabled \<and> candidate_sizes \<noteq> CANDIDATE_CHUNK_SIZES then
       Inl (ContainerError ''auto chunk candidate sizes must match v1.3 tournament'')
     else Inr ())"

definition validate_transform_metadata :: "container \<Rightarrow> unit res" where
  "validate_transform_metadata container =
    (let enabled = get_or (bc_transform_tournament_enabled container) False;
         candidate_transforms = get_or (bc_candidate_transforms container) [''identity''];
         selected_counts = get_or (bc_selected_transform_counts container)
           [(''identity'', bc_chunk_count container)]
     in
     if \<not> list_all (\<lambda>transform. transform \<in> set TRANSFORM_ORDER) candidate_transforms then
       Inl (ContainerError ''candidate_transforms must be supported reversible transforms'')
     else if enabled \<and> candidate_transforms \<noteq> TRANSFORM_ORDER then
       Inl (ContainerError ''transform tournament candidates must match deterministic order'')
     else if sum_list (map snd selected_counts) \<noteq> bc_chunk_count container then
       Inl (ContainerError ''selected_transform_counts must sum to chunk_count'')
     else Inr ())"

text \<open>The loop over the chunks carries the running offset and residual total.\<close>

definition validate_step :: "int \<Rightarrow> int \<times> int \<Rightarrow> nat \<times> bog_chunk \<Rightarrow> (int \<times> int) res" where
  "validate_step chunk_size = (\<lambda>(total_residual_count, expected_offset) (expected_index, chunk).
     rbind (validate_chunk chunk (int expected_index) expected_offset chunk_size) (\<lambda>_.
     Inr (total_residual_count + b_residual_count chunk, expected_offset + b_length chunk)))"

definition validate_bog_container :: "container \<Rightarrow> unit res" where
  "validate_bog_container container =
    (if bc_format container \<noteq> BOG_FORMAT then
       Inl (ContainerError (''Unsupported .bog format: '' @ bc_format container))
     else if bc_vm_format container \<noteq> BOGBIN_FORMAT then
       Inl (ContainerError (''Unsupported VM format: '' @ bc_vm_format container))
     else if bc_pack_mode container \<noteq> ''chunked'' then
       Inl (ContainerError (''Unsupported pack mode: '' @ bc_pack_mode container))
     else if bc_chunk_size container \<le> 0 then
       Inl (ContainerError ''chunk_size must be a positive integer'')
     else if bc_chunk_count container < 0 then
       Inl (ContainerError ''chunk_count must be a non-negative integer'')
     else if bc_total_residual_count container < 0 then
       Inl (ContainerError ''total_residual_count must be a non-negative integer'')
     else if \<not> is_sha256 (bc_whole_sha256 container) then
       Inl (ContainerError ''whole_sha256 must be a SHA-256 hex string'')
     else if int (length (bc_chunks container)) \<noteq> bc_chunk_count container then
       Inl (ContainerError ''chunk_count does not match chunks length'')
     else
       rbind (fold_res (validate_step (bc_chunk_size container)) (0, 0) (enumerate 0 (bc_chunks container)))
         (\<lambda>(total_residual_count, _).
       if total_residual_count \<noteq> bc_total_residual_count container then
         Inl (ContainerError ''total_residual_count does not match chunk residuals'')
       else
         rbind (validate_tournament_metadata container) (\<lambda>_. validate_transform_metadata container)))"

text \<open>
  \<open>validate_schema\<close>: the errors are sorted by path and the first one is raised. The schema file
  \<^verbatim>\<open>src/schemas/bogpk-metadata.schema.json\<close> constrains eight keys, each a top-level one.
\<close>

type_synonym 'a schema_validator = "'a \<Rightarrow> (string list \<times> string) list"

fun join_dots :: "string list \<Rightarrow> string" where
  "join_dots [] = ''''"
| "join_dots [s] = s"
| "join_dots (s # t # ss) = s @ ''.'' @ join_dots (t # ss)"

definition validate_schema :: "'a schema_validator \<Rightarrow> 'a \<Rightarrow> string \<Rightarrow> unit res" where
  "validate_schema iter_errors inst schema_name =
    (case sort_key fst (iter_errors inst) of
       [] \<Rightarrow> Inr ()
     | (path, message) # _ \<Rightarrow>
         let location = (if join_dots path = '''' then ''$'' else join_dots path) in
         Inl (SchemaError (schema_name @ '' validation failed at '' @ location @ '': '' @ message)))"

definition bogpk_metadata_schema :: "container \<Rightarrow> bool" where
  "bogpk_metadata_schema container \<longleftrightarrow>
     bc_format container = ''BOG-2.0'' \<and> bc_vm_format container = ''BOGBIN-2.0'' \<and>
     bc_pack_mode container = ''chunked'' \<and> 1 \<le> bc_chunk_size container \<and> 0 \<le> bc_chunk_count container \<and>
     is_sha256 (bc_whole_sha256 container) \<and> 0 \<le> bc_total_residual_count container"

section \<open>The BOGPK encoder\<close>

definition same_descriptor :: "bog_chunk \<Rightarrow> bog_chunk \<Rightarrow> bool" where
  "same_descriptor candidate first \<longleftrightarrow>
     \<not> (chunk_transform candidate \<noteq> chunk_transform first \<or>
        chunk_transform_param candidate \<noteq> chunk_transform_param first \<or>
        b_basis candidate \<noteq> b_basis first \<or>
        b_start_byte candidate \<noteq> b_start_byte first \<or>
        chunk_delta candidate \<noteq> chunk_delta first)"

text \<open>The loops work on \<open>chunks[index:]\<close>, the chunks not yet written.\<close>

definition zero_residual_run_length :: "bog_chunk list \<Rightarrow> nat" where
  "zero_residual_run_length chunks = (case chunks of
     [] \<Rightarrow> 0
   | first # candidates \<Rightarrow>
       if b_residual_count first \<noteq> 0 then 0
       else 1 + length (takeWhile (\<lambda>candidate. b_residual_count candidate = 0 \<and> same_descriptor candidate first)
                          candidates))"

definition encode_run :: "bog_chunk \<Rightarrow> nat \<Rightarrow> bytes res" where
  "encode_run chunk run_length =
    rbind (encode_varuint (int run_length)) (\<lambda>run.
    rbind (encode_descriptor chunk ''delta'') (\<lambda>descriptor.
    rbind (append_byte descriptor) (\<lambda>descriptor_byte.
    rbind (append_byte (b_start_byte chunk)) (\<lambda>start_byte.
    rbind (append_byte (chunk_delta chunk)) (\<lambda>delta.
    rbind (append_transform_param chunk) (\<lambda>param.
    Inr ([BOGPK_DESCRIPTOR_SENTINEL] @ run @ descriptor_byte @ start_byte @ delta @ param)))))))"

definition encode_single :: "bog_chunk \<Rightarrow> (bytes \<times> bytes) res" where
  "encode_single chunk =
    rbind (best_residual_encoding chunk) (\<lambda>residual_encoding.
    rbind (encode_descriptor chunk residual_encoding) (\<lambda>descriptor.
    rbind (append_byte descriptor) (\<lambda>descriptor_byte.
    rbind (append_byte (b_start_byte chunk)) (\<lambda>start_byte.
    rbind (append_byte (chunk_delta chunk)) (\<lambda>delta.
    rbind (append_transform_param chunk) (\<lambda>param.
    rbind (encode_varuint (b_residual_count chunk)) (\<lambda>count.
    rbind (if residual_encoding = ''bitmask'' then append_bitmask_residuals (b_length chunk) (b_residuals chunk)
           else append_residuals (b_residuals chunk)) (\<lambda>residuals.
    Inr (descriptor_byte @ start_byte @ delta @ param @ count, residuals)))))))))"

function encode_chunks :: "bog_chunk list \<Rightarrow> byte \<Rightarrow> bytes \<Rightarrow> bytes \<Rightarrow> (byte \<times> bytes \<times> bytes) res" where
  "encode_chunks [] flags descriptor_bytes residual_bytes = Inr (flags, descriptor_bytes, residual_bytes)"
| "encode_chunks (chunk # chunks) flags descriptor_bytes residual_bytes =
    (let run_length = zero_residual_run_length (chunk # chunks) in
     if run_length \<ge> 2 then
       rbind (encode_run chunk run_length) (\<lambda>run.
       encode_chunks (drop run_length (chunk # chunks)) (flags OR BOGPK_FLAG_ZERO_RESIDUAL_RUNS)
         (descriptor_bytes @ run) residual_bytes)
     else
       rbind (encode_single chunk) (\<lambda>(descriptor, residuals).
       encode_chunks chunks flags (descriptor_bytes @ descriptor) (residual_bytes @ residuals)))"
  by pat_completeness auto
termination
  by (relation "measure (\<lambda>(chunks, _). length chunks)") auto

definition encode_bogpk_container :: "container schema_validator \<Rightarrow> container \<Rightarrow> bytes res" where
  "encode_bogpk_container iter_errors container =
    rbind (validate_bog_container container) (\<lambda>_.
    rbind (validate_schema iter_errors container ''bogpk-metadata.schema.json'') (\<lambda>_.
    case list_index (bc_chunk_size container) CANDIDATE_CHUNK_SIZES of
      None \<Rightarrow> Inl (ContainerError ''BOGPK chunk_size must be one of 16, 32, 64, 128'')
    | Some chunk_size_code \<Rightarrow>
        rbind (encode_chunks (bc_chunks container) 0 [] []) (\<lambda>(flags, descriptor_bytes, residual_bytes).
        rbind (encode_varuint (container_length container)) (\<lambda>original_length.
        rbind (encode_varuint (bc_chunk_count container)) (\<lambda>chunk_count.
        rbind (encode_varuint (bc_total_residual_count container)) (\<lambda>total_residual_count.
        rbind (bytes_fromhex (bc_whole_sha256 container)) (\<lambda>digest.
        Inr (BOGPK_MAGIC @ [BOGPK_VERSION] @ [flags] @ [word_of_nat chunk_size_code] @ original_length @
          chunk_count @ total_residual_count @ digest @ descriptor_bytes @ residual_bytes)))))))) "

section \<open>The BOGPK decoder\<close>

lemma decode_varuint_shorter: "decode_varuint r = Inr (v, r') \<Longrightarrow> length r' \<le> length r"
  using varuint.enc_dec by fastforce

lemma read_transform_param_shorter: "read_transform_param r d = Inr (v, r') \<Longrightarrow> length r' \<le> length r"
  using decode_varuint_shorter by (auto simp: read_transform_param_def Let_def split: if_splits)

function decode_descriptors ::
  "byte \<Rightarrow> int \<Rightarrow> byte_reader \<Rightarrow> descriptor list \<Rightarrow> (descriptor list \<times> byte_reader) res" where
  "decode_descriptors flags chunk_count reader descriptors =
    (if \<not> int (length descriptors) < chunk_count then Inr (descriptors, reader)
     else
       rbind (read_byte reader) (\<lambda>(marker, reader1).
       if marker = BOGPK_DESCRIPTOR_SENTINEL then
         if flags AND BOGPK_FLAG_ZERO_RESIDUAL_RUNS = 0 then
           Inl (ContainerError ''BOGPK zero-run sentinel without zero-run flag'')
         else
           rbind (decode_varuint reader1) (\<lambda>(run_length, reader2).
           if run_length < 2 then Inl (ContainerError ''BOGPK zero-residual run length must be at least 2'')
           else
             rbind (read_byte reader2) (\<lambda>(descriptor, reader3).
             rbind (read_byte reader3) (\<lambda>(start_byte, reader4).
             rbind (read_byte reader4) (\<lambda>(delta, reader5).
             rbind (read_transform_param reader5 descriptor) (\<lambda>(transform_param, reader6).
             if int (length descriptors) + run_length > chunk_count then
               Inl (ContainerError ''BOGPK zero-residual run exceeds chunk_count'')
             else
               rbind (decode_descriptor descriptor start_byte delta transform_param 0) (\<lambda>d.
               decode_descriptors flags chunk_count reader6 (descriptors @ replicate (nat run_length) d)))))))
       else
         rbind (read_byte reader1) (\<lambda>(start_byte, reader2).
         rbind (read_byte reader2) (\<lambda>(delta, reader3).
         rbind (read_transform_param reader3 marker) (\<lambda>(transform_param, reader4).
         rbind (decode_varuint reader4) (\<lambda>(residual_count, reader5).
         rbind (decode_descriptor marker start_byte delta transform_param residual_count) (\<lambda>d.
         decode_descriptors flags chunk_count reader5 (descriptors @ [d]))))))))"
  by pat_completeness auto
termination
proof (relation "measure (\<lambda>(_, _, reader, _). length reader)", goal_cases)
  case (2 flags chunk_count reader descriptors x marker r1 xa run r2 xb d r3 xc s r4 xd dl r5 xe p r6)
  then have "length r2 \<le> length r1" "length r6 \<le> length r5"
    using decode_varuint_shorter read_transform_param_shorter by blast+
  then show ?case using 2 by (auto simp: read_byte_Inr_iff)
next
  case (3 flags chunk_count reader descriptors x marker r1 xa s r2 xb dl r3 xc p r4 xd n r5)
  then have "length r4 \<le> length r3" "length r5 \<le> length r4"
    using decode_varuint_shorter read_transform_param_shorter by blast+
  then show ?case using 3 by (auto simp: read_byte_Inr_iff)
qed simp

declare decode_descriptors.simps [simp del]

definition decoded_chunk_length :: "int \<Rightarrow> int \<Rightarrow> int \<Rightarrow> int \<Rightarrow> int res" where
  "decoded_chunk_length index chunk_count chunk_size original_length =
    (if chunk_count = 0 then Inl (ContainerError ''BOGPK chunk length requested for empty container'')
     else if index < chunk_count - 1 then Inr chunk_size
     else
       let final_length = original_length - ((chunk_count - 1) * chunk_size) in
       if \<not> (1 \<le> final_length \<and> final_length \<le> chunk_size) then
         Inl (ContainerError ''BOGPK final chunk length is invalid'')
       else Inr final_length)"

text \<open>\<open>data[offset] = byte\<close> on a \<open>bytearray\<close>; a negative offset counts from the end.\<close>

definition bytearray_set :: "bytes \<Rightarrow> int \<Rightarrow> int \<Rightarrow> bytes res" where
  "bytearray_set data offset byte =
    (let i = (if offset < 0 then offset + int (length data) else offset) in
     if \<not> (0 \<le> i \<and> i < int (length data)) then Inl IndexError
     else if \<not> (0 \<le> byte \<and> byte \<le> 255) then Inl (ValueError ''byte must be in range(0, 256)'')
     else Inr (data[nat i := word_of_int byte]))"

definition synthesize_residual_chunk :: "string \<Rightarrow> int \<Rightarrow> int \<Rightarrow> int \<Rightarrow> residual list \<Rightarrow> bytes res" where
  "synthesize_residual_chunk basis start_byte delta len residuals =
    rbind (synthesize_basis basis start_byte len delta) (\<lambda>data.
    fold_res (\<lambda>data patch. bytearray_set data (r_offset patch) (r_byte patch)) data residuals)"

text \<open>\<open>except ValueError as exc: raise ContainerError(f"... {exc}")\<close>\<close>

definition wrap_value_error :: "'a res \<Rightarrow> string \<Rightarrow> 'a res" where
  "wrap_value_error r prefix = (case r of Inl (ValueError msg) \<Rightarrow> Inl (ContainerError (prefix @ msg)) | _ \<Rightarrow> r)"

definition decode_chunk ::
  "int \<Rightarrow> int \<Rightarrow> int \<Rightarrow> byte_reader \<Rightarrow> nat \<times> descriptor \<Rightarrow> (bog_chunk \<times> bytes \<times> byte_reader) res" where
  "decode_chunk chunk_count chunk_size original_length reader = (\<lambda>(index, descriptor).
    rbind (decoded_chunk_length (int index) chunk_count chunk_size original_length) (\<lambda>len.
    rbind (if d_residual_encoding descriptor = ''bitmask''
           then read_bitmask_residuals reader (d_residual_count descriptor) len
           else read_residuals reader (d_residual_count descriptor) len) (\<lambda>(residuals, reader').
    rbind (synthesize_residual_chunk (d_basis descriptor) (d_start_byte descriptor) (d_delta descriptor)
             len residuals) (\<lambda>transformed.
    rbind (wrap_value_error (invert_transform (d_transform descriptor) transformed (d_transform_param descriptor))
             ''BOGPK transform inversion failed: '') (\<lambda>original.
    Inr (\<lparr>b_index = int index, b_name = chunk_name (int index), b_offset = int index * chunk_size,
          b_length = len, b_basis = d_basis descriptor, b_start_byte = d_start_byte descriptor,
          b_delta = Some (d_delta descriptor), b_transform = Some (d_transform descriptor),
          b_transform_param = Some (d_transform_param descriptor),
          b_residual_count = int (length residuals), b_residuals = residuals,
          b_chunk_sha256 = hexdigest transformed,
          b_transformed_sha256 = Some (hexdigest transformed),
          b_original_chunk_sha256 = Some (hexdigest original)\<rparr>, original, reader'))))))"

fun decode_chunks ::
  "int \<Rightarrow> int \<Rightarrow> int \<Rightarrow> byte_reader \<Rightarrow> (nat \<times> descriptor) list \<Rightarrow> (bog_chunk list \<times> bytes list \<times> byte_reader) res" where
  "decode_chunks chunk_count chunk_size original_length reader [] = Inr ([], [], reader)"
| "decode_chunks chunk_count chunk_size original_length reader (d # ds) =
    rbind (decode_chunk chunk_count chunk_size original_length reader d) (\<lambda>(chunk, original, reader1).
    rbind (decode_chunks chunk_count chunk_size original_length reader1 ds) (\<lambda>(chunks, originals, reader2).
    Inr (chunk # chunks, original # originals, reader2)))"

record bogpk_header =
  h_flags :: byte
  h_chunk_size :: int
  h_original_length :: int
  h_chunk_count :: int
  h_total_residual_count :: int
  h_whole_sha256 :: string

definition read_header :: "byte_reader \<Rightarrow> (bogpk_header \<times> byte_reader) res" where
  "read_header reader =
    rbind (read_bytes reader (length BOGPK_MAGIC)) (\<lambda>(magic, r1).
    if magic \<noteq> BOGPK_MAGIC then Inl (ContainerError ''Invalid BOGPK magic header'')
    else rbind (read_byte r1) (\<lambda>(version, r2).
    if version \<noteq> BOGPK_VERSION then
      Inl (ContainerError (''Unsupported BOGPK version: '' @ str_nat (unat version)))
    else rbind (read_byte r2) (\<lambda>(flags, r3).
    if flags AND NOT (BOGPK_FLAG_TRANSFORMED_HASHES OR BOGPK_FLAG_ORIGINAL_HASHES OR
                      BOGPK_FLAG_ZERO_RESIDUAL_RUNS) \<noteq> 0 then
      Inl (ContainerError ''Unsupported BOGPK flags'')
    else if flags AND (BOGPK_FLAG_TRANSFORMED_HASHES OR BOGPK_FLAG_ORIGINAL_HASHES) \<noteq> 0 then
      Inl (ContainerError ''BOGPK optional chunk hash streams are not implemented yet'')
    else rbind (read_byte r3) (\<lambda>(chunk_size_code, r4).
    if unat chunk_size_code \<ge> length CANDIDATE_CHUNK_SIZES then
      Inl (ContainerError ''Invalid BOGPK chunk_size_code'')
    else rbind (decode_varuint r4) (\<lambda>(original_length, r5).
    rbind (decode_varuint r5) (\<lambda>(chunk_count, r6).
    rbind (decode_varuint r6) (\<lambda>(total_residual_count, r7).
    rbind (read_bytes r7 32) (\<lambda>(digest, r8).
    Inr (\<lparr>h_flags = flags, h_chunk_size = CANDIDATE_CHUNK_SIZES ! unat chunk_size_code,
          h_original_length = original_length, h_chunk_count = chunk_count,
          h_total_residual_count = total_residual_count, h_whole_sha256 = bytes_hex digest\<rparr>, r8)))))))))"

definition check_header :: "bogpk_header \<Rightarrow> unit res" where
  "check_header h =
    (let expected_chunk_count = (if h_original_length h = 0 then 0
           else (h_original_length h + h_chunk_size h - 1) div h_chunk_size h)
     in
     if h_original_length h = 0 \<and> h_chunk_count h \<noteq> 0 then
       Inl (ContainerError ''BOGPK zero original_length requires zero chunk_count'')
     else if h_original_length h > 0 \<and> h_chunk_count h = 0 then
       Inl (ContainerError ''BOGPK nonzero original_length requires chunks'')
     else if h_chunk_count h \<noteq> expected_chunk_count then
       Inl (ContainerError ''BOGPK chunk_count does not match original_length and chunk_size'')
     else if h_total_residual_count h > h_original_length h then
       Inl (ContainerError ''BOGPK residual total exceeds original_length'')
     else Inr ())"

definition decoded_container :: "bogpk_header \<Rightarrow> bog_chunk list \<Rightarrow> (string, int) pydict \<Rightarrow> container" where
  "decoded_container h chunks transform_counts =
    \<lparr>bc_format = BOG_FORMAT, bc_vm_format = BOGBIN_FORMAT, bc_pack_mode = ''chunked'',
     bc_chunk_size = h_chunk_size h, bc_chunk_count = h_chunk_count h, bc_whole_sha256 = h_whole_sha256 h,
     bc_total_residual_count = h_total_residual_count h, bc_chunks = chunks,
     bc_chunk_tournament_enabled = Some False, bc_candidate_chunk_sizes = Some [h_chunk_size h],
     bc_selected_chunk_size = Some (h_chunk_size h),
     bc_selected_total_residual_count = Some (h_total_residual_count h),
     bc_selected_residual_density = Some (residual_density (h_total_residual_count h) (h_original_length h)),
     bc_chunk_tournament_results = Some [], bc_transform_tournament_enabled = Some True,
     bc_candidate_transforms = Some TRANSFORM_ORDER,
     bc_selected_transform_counts = Some transform_counts\<rparr>"

definition decode_bogpk_container :: "container schema_validator \<Rightarrow> bytes \<Rightarrow> container res" where
  "decode_bogpk_container iter_errors data =
    rbind (read_header data) (\<lambda>(h, r1).
    rbind (check_header h) (\<lambda>_.
    rbind (decode_descriptors (h_flags h) (h_chunk_count h) r1 []) (\<lambda>(descriptors, r2).
    rbind (decode_chunks (h_chunk_count h) (h_chunk_size h) (h_original_length h) r2 (enumerate 0 descriptors))
      (\<lambda>(chunks, reconstructed_chunks, r3).
    let residual_total = sum_list (map (\<lambda>chunk. int (length (b_residuals chunk))) chunks);
        reconstructed = concat reconstructed_chunks
    in
    if residual_total \<noteq> h_total_residual_count h then Inl (ContainerError ''BOGPK residual total mismatch'')
    else if remaining r3 \<noteq> 0 then Inl (ContainerError ''BOGPK trailing bytes'')
    else if int (length reconstructed) \<noteq> h_original_length h then
      Inl (ContainerError ''BOGPK original length mismatch'')
    else if hexdigest reconstructed \<noteq> h_whole_sha256 h then
      Inl (ContainerError ''BOGPK whole SHA-256 mismatch'')
    else
      rbind (fold_res count_transform zero_transform_counts (map chunk_transform chunks)) (\<lambda>transform_counts.
      let container = decoded_container h chunks transform_counts in
      rbind (validate_bog_container container) (\<lambda>_.
      rbind (validate_schema iter_errors container ''bogpk-metadata.schema.json'') (\<lambda>_.
      Inr container)))))))"

section \<open>Reconstruction and compilation\<close>

definition index_chunk :: "(int, bog_chunk) pydict \<Rightarrow> bog_chunk \<Rightarrow> (int, bog_chunk) pydict res" where
  "index_chunk chunks_by_index chunk =
    (if map_of chunks_by_index (b_index chunk) \<noteq> None then
       Inl (ContainerError (''Duplicate chunk index: '' @ str_int (b_index chunk)))
     else Inr (AList.update (b_index chunk) chunk chunks_by_index))"

definition patch_reconstructed :: "bytes \<Rightarrow> residual \<Rightarrow> bytes res" where
  "patch_reconstructed data patch =
    (if r_offset patch \<ge> int (length data) then
       Inl (ContainerError ''residual offset out of reconstructed chunk range'')
     else bytearray_set data (r_offset patch) (r_byte patch))"

definition reconstruct_chunk :: "(int, bog_chunk) pydict \<Rightarrow> nat \<Rightarrow> bytes res" where
  "reconstruct_chunk chunks_by_index index =
    (case map_of chunks_by_index (int index) of
       None \<Rightarrow> Inl (KeyError (str_nat index))
     | Some chunk \<Rightarrow>
         rbind (synthesize_basis (b_basis chunk) (b_start_byte chunk) (b_length chunk) (chunk_delta chunk)) (\<lambda>data.
         rbind (fold_res patch_reconstructed data (b_residuals chunk)) (\<lambda>chunk_bytes.
         let actual_chunk_hash = hexdigest chunk_bytes in
         if actual_chunk_hash \<noteq> b_chunk_sha256 chunk then
           Inl (ContainerError (''chunk '' @ str_nat index @ '' SHA-256 mismatch''))
         else if actual_chunk_hash \<noteq> get_or (b_transformed_sha256 chunk) (b_chunk_sha256 chunk) then
           Inl (ContainerError (''chunk '' @ str_nat index @ '' transformed SHA-256 mismatch''))
         else
           rbind (invert_transform (chunk_transform chunk) chunk_bytes (chunk_transform_param chunk))
             (\<lambda>original_chunk.
           if hexdigest original_chunk \<noteq> get_or (b_original_chunk_sha256 chunk) (b_chunk_sha256 chunk) then
             Inl (ContainerError (''chunk '' @ str_nat index @ '' original SHA-256 mismatch''))
           else Inr original_chunk))))"

definition reconstruct_bog_container_bytes :: "container \<Rightarrow> bytes res" where
  "reconstruct_bog_container_bytes container =
    rbind (validate_bog_container container) (\<lambda>_.
    rbind (fold_res index_chunk [] (bc_chunks container)) (\<lambda>chunks_by_index.
    if set (map fst chunks_by_index) \<noteq> int ` {0..<nat (bc_chunk_count container)} then
      Inl (ContainerError ''Missing chunk index in container'')
    else
      rbind (map_res (reconstruct_chunk chunks_by_index) [0..<nat (bc_chunk_count container)]) (\<lambda>reconstructed_chunks.
      let reconstructed = concat reconstructed_chunks in
      if hexdigest reconstructed \<noteq> bc_whole_sha256 container then
        Inl (ContainerError ''whole SHA-256 mismatch'')
      else Inr reconstructed)))"

definition compile_chunk :: "bog_chunk \<Rightarrow> string list" where
  "compile_chunk chunk =
    (let name = b_name chunk in
     [''DATA_BLOCK '' @ name,
      ''DECLARE_BASIS '' @ b_basis chunk,
      ''LOAD_COEFFICIENTS '' @ name @ '' '' @ str_int (b_start_byte chunk) @ '' '' @ str_int (b_length chunk) @
        '' '' @ str_int (chunk_delta chunk),
      ''SYNTHESIZE '' @ name] @
     map (\<lambda>patch. ''STORE_RESIDUAL '' @ name @ '' '' @ str_int (r_offset patch) @ '' '' @ str_int (r_byte patch))
       (b_residuals chunk) @
     [''APPLY_RESIDUAL '' @ name,
      ''VERIFY_HASH '' @ name @ '' '' @ b_chunk_sha256 chunk,
      ''ACCEPT_DATA '' @ name])"

definition bogasm_lines :: "container \<Rightarrow> string list" where
  "bogasm_lines container =
     [''# BOG container '' @ bc_format container,
      ''# vm_format '' @ bc_vm_format container,
      ''# whole_sha256 '' @ bc_whole_sha256 container,
      ''# chunk_size '' @ str_int (bc_chunk_size container),
      ''# chunk_count '' @ str_int (bc_chunk_count container),
      ''# total_residual_count '' @ str_int (bc_total_residual_count container)] @
     concat (map compile_chunk (bc_chunks container)) @
     [''EMIT_RECEIPT'', ''HALT'']"

definition compile_bog_container_to_bogasm :: "container \<Rightarrow> string res" where
  "compile_bog_container_to_bogasm container =
    rbind (validate_bog_container container) (\<lambda>_. Inr (unlines (bogasm_lines container)))"

end
