(* ===== verification/Container_Correct.thy ===== *)
theory Container_Correct
  imports Container
begin

text \<open>
  Correctness of the container: what validation accepts, that the decoder reads back what the encoder
  wrote, that a built container reconstructs the payload, and that a decoded container always
  reconstructs bytes with the SHA-256 digest of its header.
\<close>

section \<open>What validation accepts\<close>

lemma validate_residuals_iff: "validate_residuals len prev rs = Inr () \<longleftrightarrow> residuals_ok len prev rs"
  by (induction rs arbitrary: prev) auto

definition chunk_ok :: "bog_chunk \<Rightarrow> int \<Rightarrow> int \<Rightarrow> int \<Rightarrow> bool" where
  "chunk_ok chunk index offset chunk_size \<longleftrightarrow>
     b_index chunk = index \<and> b_name chunk = chunk_name index \<and> b_offset chunk = offset \<and>
     0 < b_length chunk \<and> b_length chunk \<le> chunk_size \<and>
     b_basis chunk \<in> set BASIS_ORDER \<and> chunk_transform chunk \<in> set TRANSFORM_ORDER \<and>
     0 \<le> chunk_transform_param chunk \<and>
     (0 \<le> b_start_byte chunk \<and> b_start_byte chunk \<le> 255) \<and> (0 \<le> chunk_delta chunk \<and> chunk_delta chunk \<le> 255) \<and>
     b_residual_count chunk = int (length (b_residuals chunk)) \<and>
     is_sha256 (b_chunk_sha256 chunk) \<and>
     is_sha256 (get_or (b_transformed_sha256 chunk) (b_chunk_sha256 chunk)) \<and>
     is_sha256 (get_or (b_original_chunk_sha256 chunk) (b_chunk_sha256 chunk)) \<and>
     residuals_ok (b_length chunk) (- 1) (b_residuals chunk)"

lemma validate_chunk_iff:
  "validate_chunk chunk index offset chunk_size = Inr () \<longleftrightarrow> chunk_ok chunk index offset chunk_size"
proof -
  have step: "(if b then Inl e else r) = Inr () \<longleftrightarrow> \<not> b \<and> r = Inr ()" for b e and r :: "unit res"
    by simp
  show ?thesis unfolding validate_chunk_def step validate_residuals_iff chunk_ok_def by auto
qed

fun chunks_ok :: "int \<Rightarrow> nat \<Rightarrow> int \<Rightarrow> bog_chunk list \<Rightarrow> bool" where
  "chunks_ok chunk_size index offset [] = True"
| "chunks_ok chunk_size index offset (chunk # chunks) =
    (chunk_ok chunk (int index) offset chunk_size \<and>
     chunks_ok chunk_size (Suc index) (offset + b_length chunk) chunks)"

lemma validate_loop_iff:
  "fold_res (validate_step chunk_size) (t, off) (enumerate i chunks) = Inr st \<longleftrightarrow>
     chunks_ok chunk_size i off chunks \<and>
     st = (t + sum_list (map b_residual_count chunks), off + sum_list (map b_length chunks))"
proof (induction chunks arbitrary: t off i)
  case (Cons c cs)
  have "fold_res (validate_step chunk_size) (t, off) (enumerate i (c # cs)) = Inr st \<longleftrightarrow>
      validate_chunk c (int i) off chunk_size = Inr () \<and>
      fold_res (validate_step chunk_size) (t + b_residual_count c, off + b_length c) (enumerate (Suc i) cs) = Inr st"
    by (auto simp: enumerate_simps validate_step_def rbind_Inr_iff)
  then show ?case unfolding Cons validate_chunk_iff by (auto simp: add.assoc)
qed (auto simp: enumerate_simps)

definition metadata_ok :: "container \<Rightarrow> bool" where
  "metadata_ok c \<longleftrightarrow>
     (let sizes = get_or (bc_candidate_chunk_sizes c) [bc_chunk_size c];
          transforms = get_or (bc_candidate_transforms c) [''identity'']
      in
      list_all (\<lambda>sz. 0 < sz) sizes \<and>
      get_or (bc_selected_chunk_size c) (bc_chunk_size c) = bc_chunk_size c \<and>
      get_or (bc_selected_total_residual_count c) (bc_total_residual_count c) = bc_total_residual_count c \<and>
      (get_or (bc_chunk_tournament_enabled c) False \<longrightarrow> sizes = CANDIDATE_CHUNK_SIZES) \<and>
      list_all (\<lambda>t. t \<in> set TRANSFORM_ORDER) transforms \<and>
      (get_or (bc_transform_tournament_enabled c) False \<longrightarrow> transforms = TRANSFORM_ORDER) \<and>
      sum_list (map snd (get_or (bc_selected_transform_counts c) [(''identity'', bc_chunk_count c)])) =
        bc_chunk_count c)"

text \<open>The invariant of a container: what \<open>validate_bog_container\<close> establishes.\<close>

definition container_ok :: "container \<Rightarrow> bool" where
  "container_ok c \<longleftrightarrow>
     bc_format c = BOG_FORMAT \<and> bc_vm_format c = BOGBIN_FORMAT \<and> bc_pack_mode c = ''chunked'' \<and>
     0 < bc_chunk_size c \<and> bc_chunk_count c = int (length (bc_chunks c)) \<and>
     is_sha256 (bc_whole_sha256 c) \<and> chunks_ok (bc_chunk_size c) 0 0 (bc_chunks c) \<and>
     bc_total_residual_count c = sum_list (map b_residual_count (bc_chunks c)) \<and> metadata_ok c"

lemma chunks_ok_counts: "chunks_ok sz i off cs \<Longrightarrow> 0 \<le> sum_list (map b_residual_count cs)"
  by (induction cs arbitrary: i off) (auto simp: chunk_ok_def)

lemma validate_bog_container_iff: "validate_bog_container c = Inr () \<longleftrightarrow> container_ok c"
proof -
  have step: "(if b then Inl e else r) = Inr () \<longleftrightarrow> \<not> b \<and> r = Inr ()" for b e and r :: "unit res"
    by simp
  have meta: "rbind (validate_tournament_metadata c) (\<lambda>_. validate_transform_metadata c) = Inr () \<longleftrightarrow> metadata_ok c"
    unfolding rbind_Inr_iff validate_tournament_metadata_def validate_transform_metadata_def Let_def step metadata_ok_def
    by auto
  have loop: "rbind (fold_res (validate_step (bc_chunk_size c)) (0, 0) (enumerate 0 (bc_chunks c)))
         (\<lambda>(total, _). if total \<noteq> bc_total_residual_count c then Inl e
            else rbind (validate_tournament_metadata c) (\<lambda>_. validate_transform_metadata c)) = Inr () \<longleftrightarrow>
      chunks_ok (bc_chunk_size c) 0 0 (bc_chunks c) \<and>
      bc_total_residual_count c = sum_list (map b_residual_count (bc_chunks c)) \<and> metadata_ok c" for e
    by (auto simp: rbind_Inr_iff [of "fold_res _ _ _"] validate_loop_iff meta simp del: enumerate_eq_zip)
  show ?thesis
    unfolding validate_bog_container_def step loop container_ok_def
    using chunks_ok_counts [of "bc_chunk_size c" 0 0 "bc_chunks c"] by auto
qed

lemma chunks_ok_nth:
  assumes "chunks_ok sz i off cs" and "k < length cs"
  shows "chunk_ok (cs ! k) (int (i + k)) (off + sum_list (map b_length (take k cs))) sz"
  using assms
proof (induction cs arbitrary: i off k)
  case (Cons c cs)
  show ?case
  proof (cases k)
    case (Suc m)
    then show ?thesis using Cons.IH [of "Suc i" "off + b_length c" m] Cons.prems by (simp add: algebra_simps)
  qed (use Cons.prems in simp)
qed simp

lemma container_ok_chunk:
  assumes "container_ok c" and "k < length (bc_chunks c)"
  shows "chunk_ok (bc_chunks c ! k) (int k) (sum_list (map b_length (take k (bc_chunks c)))) (bc_chunk_size c)"
  using chunks_ok_nth [of "bc_chunk_size c" 0 0 "bc_chunks c" k] assms by (simp add: container_ok_def)

text \<open>The schema accepts every container the validator accepts.\<close>

lemma container_ok_schema: "container_ok c \<Longrightarrow> bogpk_metadata_schema c"
  using chunks_ok_counts [of "bc_chunk_size c" 0 0 "bc_chunks c"]
  by (auto simp: container_ok_def bogpk_metadata_schema_def BOG_FORMAT_def BOGBIN_FORMAT_def)

text \<open>
  What the code relies on in the third-party validator: it reports no error for an instance that
  satisfies the schema.
\<close>

definition schema_complete :: "container schema_validator \<Rightarrow> bool" where
  "schema_complete iter_errors \<longleftrightarrow> (\<forall>c. bogpk_metadata_schema c \<longrightarrow> iter_errors c = [])"

lemma validate_schema_ok:
  "schema_complete iter_errors \<Longrightarrow> container_ok c \<Longrightarrow> validate_schema iter_errors c name = Inr ()"
  using container_ok_schema by (simp add: schema_complete_def validate_schema_def)

section \<open>What reconstruction returns\<close>

lemma bytearray_patches:
  assumes "residuals_ok (int (length data)) prev rs"
  shows "fold_res (\<lambda>data patch. bytearray_set data (r_offset patch) (r_byte patch)) data rs = Inr (patch_bytes data rs)"
    and "fold_res patch_reconstructed data rs = Inr (patch_bytes data rs)"
  using assms
  by (induction rs arbitrary: data prev)
    (auto simp: patch_bytes_def bytearray_set_def patch_reconstructed_def Let_def)

text \<open>The bytes a chunk synthesizes to before its transform is inverted.\<close>

definition chunk_transformed :: "bog_chunk \<Rightarrow> bytes" where
  "chunk_transformed c =
     (case synthesize_basis (b_basis c) (b_start_byte c) (b_length c) (chunk_delta c) of
        Inr data \<Rightarrow> patch_bytes data (b_residuals c) | Inl _ \<Rightarrow> [])"

lemma chunk_ok_synth:
  assumes "chunk_ok c i off sz"
  obtains data where "synthesize_basis (b_basis c) (b_start_byte c) (b_length c) (chunk_delta c) = Inr data"
    and "int (length data) = b_length c" and "chunk_transformed c = patch_bytes data (b_residuals c)"
proof -
  obtain data where d: "synthesize_basis (b_basis c) (b_start_byte c) (b_length c) (chunk_delta c) = Inr data"
      "length data = nat (b_length c)"
    using bogbasis.synth_length [of "b_basis c" "b_start_byte c" "b_length c" "chunk_delta c"] assms
    by (auto simp: chunk_ok_def)
  then show thesis using assms by (intro that [of data]) (auto simp: chunk_ok_def chunk_transformed_def)
qed

lemma synthesize_residual_chunk_ok:
  assumes "chunk_ok c i off sz"
  shows "synthesize_residual_chunk (b_basis c) (b_start_byte c) (chunk_delta c) (b_length c) (b_residuals c) =
           Inr (chunk_transformed c)"
    and "int (length (chunk_transformed c)) = b_length c"
proof -
  obtain data where d: "synthesize_basis (b_basis c) (b_start_byte c) (b_length c) (chunk_delta c) = Inr data"
      "int (length data) = b_length c" "chunk_transformed c = patch_bytes data (b_residuals c)"
    using chunk_ok_synth [OF assms] .
  have "residuals_ok (int (length data)) (- 1) (b_residuals c)" using assms d(2) by (simp add: chunk_ok_def)
  then show "synthesize_residual_chunk (b_basis c) (b_start_byte c) (chunk_delta c) (b_length c) (b_residuals c) =
        Inr (chunk_transformed c)"
    using d by (simp add: synthesize_residual_chunk_def bytearray_patches(1))
  show "int (length (chunk_transformed c)) = b_length c" using d by simp
qed

text \<open>Chunk \<open>c\<close> stands for the payload bytes \<open>part\<close>, with all three of its digests right.\<close>

definition chunk_yields :: "bog_chunk \<Rightarrow> bytes \<Rightarrow> bool" where
  "chunk_yields c part \<longleftrightarrow>
     hexdigest (chunk_transformed c) = b_chunk_sha256 c \<and>
     hexdigest (chunk_transformed c) = get_or (b_transformed_sha256 c) (b_chunk_sha256 c) \<and>
     invert_transform (chunk_transform c) (chunk_transformed c) (chunk_transform_param c) = Inr part \<and>
     hexdigest part = get_or (b_original_chunk_sha256 c) (b_chunk_sha256 c)"

lemma reconstruct_chunk_iff:
  assumes "map_of d (int i) = Some c" and "chunk_ok c j off sz"
  shows "reconstruct_chunk d i = Inr part \<longleftrightarrow> chunk_yields c part"
proof -
  obtain data where data: "synthesize_basis (b_basis c) (b_start_byte c) (b_length c) (chunk_delta c) = Inr data"
      "int (length data) = b_length c" "chunk_transformed c = patch_bytes data (b_residuals c)"
    using chunk_ok_synth [OF assms(2)] .
  have "residuals_ok (int (length data)) (- 1) (b_residuals c)" using assms(2) data(2) by (simp add: chunk_ok_def)
  then have patched: "fold_res patch_reconstructed data (b_residuals c) = Inr (chunk_transformed c)"
    using data(3) bytearray_patches(2) by simp
  have step: "(if b then Inl e else r) = Inr x \<longleftrightarrow> \<not> b \<and> r = Inr x" for b e x and r :: "bytes res"
    by simp
  show ?thesis
    unfolding reconstruct_chunk_def assms(1) option.case data(1) rbind_simps patched Let_def step rbind_Inr_iff
      chunk_yields_def
    by auto
qed

lemma index_chunks:
  assumes "chunks_ok sz i off cs" and "\<forall>k \<in> fst ` set d. k < int i"
  shows "fold_res index_chunk d cs = Inr (d @ map (\<lambda>c. (b_index c, c)) cs) \<and>
         map b_index cs = map int [i..<i + length cs]"
  using assms
proof (induction cs arbitrary: i off d)
  case (Cons c cs)
  have c: "b_index c = int i" using Cons.prems by (simp add: chunk_ok_def)
  have new: "int i \<notin> fst ` set d" using Cons.prems(2) by force
  then have step: "index_chunk d c = Inr (d @ [(int i, c)])"
    by (simp add: index_chunk_def c map_of_eq_None_iff update_append_new)
  have "\<forall>k \<in> fst ` set (d @ [(int i, c)]). k < int (Suc i)" using Cons.prems(2) by force
  with Cons.IH [of "Suc i" "off + b_length c"] Cons.prems(1)
  have "fold_res index_chunk (d @ [(int i, c)]) cs = Inr ((d @ [(int i, c)]) @ map (\<lambda>c. (b_index c, c)) cs) \<and>
      map b_index cs = map int [Suc i..<Suc i + length cs]" by simp
  then show ?case using step c by (simp add: upt_conv_Cons del: upt_Suc)
qed simp

lemma reconstruct_iff:
  "reconstruct_bog_container_bytes c = Inr data \<longleftrightarrow>
     container_ok c \<and> (\<exists>parts. list_all2 chunk_yields (bc_chunks c) parts \<and> data = concat parts) \<and>
     hexdigest data = bc_whole_sha256 c"
proof (cases "container_ok c")
  case True
  let ?cs = "bc_chunks c" and ?n = "length (bc_chunks c)"
  have cok: "chunks_ok (bc_chunk_size c) 0 0 ?cs" and count: "nat (bc_chunk_count c) = ?n"
    using True by (simp_all add: container_ok_def)
  define d where "d = map (\<lambda>c. (b_index c, c)) ?cs"
  have ix: "fold_res index_chunk [] ?cs = Inr d" and keys: "map b_index ?cs = map int [0..<?n]"
    using index_chunks [OF cok, of "[]"] by (auto simp: d_def)
  have dk: "map fst d = map int [0..<?n]" using keys by (simp add: d_def comp_def)
  have look: "map_of d (int i) = Some (?cs ! i)" if "i < ?n" for i
  proof (rule map_of_is_SomeI)
    show "distinct (map fst d)" unfolding dk by (simp add: distinct_map)
    have "b_index (?cs ! i) = int i" using arg_cong [OF keys, of "\<lambda>l. l ! i"] that by simp
    then show "(int i, ?cs ! i) \<in> set d" using that by (auto simp: d_def image_iff in_set_conv_nth)
  qed
  have each: "reconstruct_chunk d i = Inr part \<longleftrightarrow> chunk_yields (?cs ! i) part" if "i < ?n" for i part
    by (rule reconstruct_chunk_iff [OF look [OF that] container_ok_chunk [OF True that]])
  have parts: "map_res (reconstruct_chunk d) [0..<?n] = Inr ps \<longleftrightarrow> list_all2 chunk_yields ?cs ps" for ps
    by (auto simp: map_res_Inr_iff list_all2_conv_all_nth each)
  have "set (map fst d) = int ` {0..<?n}" unfolding dk by simp
  moreover have "validate_bog_container c = Inr ()" using True by (simp add: validate_bog_container_iff)
  ultimately show ?thesis
    using True by (auto simp: reconstruct_bog_container_bytes_def ix count Let_def rbind_Inr_iff parts
        simp del: set_map hexdigest_eq_iff split: if_splits)
next
  case False
  then show ?thesis
    by (auto simp: reconstruct_bog_container_bytes_def rbind_Inr_iff validate_bog_container_iff)
qed

section \<open>A built container is valid and reconstructs the payload\<close>

lemma hex_digit_in: "d < 16 \<Longrightarrow> hex_digit d \<in> set ''0123456789abcdef''"
proof -
  have "\<forall>d \<in> set [0..<16]. hex_digit d \<in> set ''0123456789abcdef''" by code_simp
  then show "d < 16 \<Longrightarrow> hex_digit d \<in> set ''0123456789abcdef''" by simp
qed

lemma bytes_hex_chars: "ch \<in> set (bytes_hex bs) \<Longrightarrow> ch \<in> set ''0123456789abcdef''"
proof (induction bs)
  case (Cons b bs)
  have "unat b div 16 < 16" "unat b mod 16 < 16" using unat_byte_less [of b] by linarith+
  then have "hex_digit (unat b div 16) \<in> set ''0123456789abcdef''" "hex_digit (unat b mod 16) \<in> set ''0123456789abcdef''"
    by (blast intro: hex_digit_in)+
  moreover have "ch = hex_digit (unat b div 16) \<or> ch = hex_digit (unat b mod 16) \<or> ch \<in> set (bytes_hex bs)"
    using Cons.prems by (simp only: bytes_hex_simps set_simps insert_iff)
  ultimately show ?case using Cons.IH by blast
qed simp

lemma is_sha256_hex: "length bs = 32 \<Longrightarrow> is_sha256 (bytes_hex bs)"
  unfolding is_sha256_def using bytes_hex_chars by simp

lemma is_sha256_hexdigest [simp]: "is_sha256 (hexdigest m)"
  unfolding hexdigest_def by (rule is_sha256_hex) simp

lemma chunks_okI:
  assumes "\<And>k. k < length cs \<Longrightarrow>
      chunk_ok (cs ! k) (int (i + k)) (off + sum_list (map b_length (take k cs))) sz"
  shows "chunks_ok sz i off cs"
  using assms
proof (induction cs arbitrary: i off)
  case (Cons c cs)
  have "chunks_ok sz (Suc i) (off + b_length c) cs"
  proof (rule Cons.IH)
    fix k assume "k < length cs"
    then show "chunk_ok (cs ! k) (int (Suc i + k)) (off + b_length c + sum_list (map b_length (take k cs))) sz"
      using Cons.prems [of "Suc k"] by (simp add: add.assoc)
  qed
  then show ?case using Cons.prems [of 0] by simp
qed simp

lemma exact_chunk:
  assumes "chunk_exact cp chunk" and "cp_index cp = i" and "cp_offset cp = off"
    and "chunk \<noteq> []" and "int (length chunk) \<le> sz"
  shows "chunk_ok (container_chunk cp) i off sz" and "chunk_yields (container_chunk cp) chunk"
    and "b_length (container_chunk cp) = int (length chunk)"
    and "chunk_transform (container_chunk cp) \<notin> BWT_TRANSFORMS \<Longrightarrow> chunk_transform_param (container_chunk cp) = 0"
proof -
  let ?c = "container_chunk cp"
  obtain t where t: "plan_exact (plan.truncate cp) t" "length t = length chunk"
      "chunk_transform ?c \<in> set TRANSFORM_ORDER" "0 \<le> chunk_transform_param ?c"
      "chunk_transform ?c \<notin> BWT_TRANSFORMS \<longrightarrow> chunk_transform_param ?c = 0"
      "invert_transform (chunk_transform ?c) t (chunk_transform_param ?c) = Inr chunk"
      "get_or (cp_transformed_sha256 cp) (p_sha256 cp) = hexdigest t"
      "get_or (cp_original_sha256 cp) (p_sha256 cp) = hexdigest chunk"
    using assms(1)
    by (auto simp: chunk_exact_def exact_via_def container_chunk_def chunk_transform_def chunk_transform_param_def)
  obtain g where g: "p_length cp = int (length t)" "p_basis cp \<in> set BASIS_ORDER"
      "0 \<le> p_start_byte cp \<and> p_start_byte cp \<le> 255" "0 \<le> p_delta cp \<and> p_delta cp \<le> 255"
      "p_residual_count cp = int (length (p_residuals cp))" "p_sha256 cp = hexdigest t"
      "synthesize_basis (p_basis cp) (p_start_byte cp) (p_length cp) (p_delta cp) = Inr g"
      "length g = length t" "apply_residuals g (p_residuals cp) = Inr t"
    using t(1) unfolding plan_exact_def by (simp add: plan.defs) metis
  have res: "residuals_ok (int (length g)) (- 1) (p_residuals cp)" "t = patch_bytes g (p_residuals cp)"
    using g(9) by (simp_all add: apply_residuals_eq)
  have tr: "chunk_transformed ?c = t"
    using g(7) res(2) by (simp add: chunk_transformed_def container_chunk_def chunk_delta_def)
  have f: "b_index ?c = i" "b_name ?c = chunk_name i" "b_offset ?c = off" "b_length ?c = int (length t)"
      "b_basis ?c = p_basis cp" "b_start_byte ?c = p_start_byte cp" "chunk_delta ?c = p_delta cp"
      "b_residual_count ?c = int (length (b_residuals ?c))" "b_residuals ?c = p_residuals cp"
      "b_chunk_sha256 ?c = hexdigest t" "get_or (b_transformed_sha256 ?c) (hexdigest t) = hexdigest t"
      "get_or (b_original_chunk_sha256 ?c) (hexdigest t) = hexdigest chunk"
    using assms(2,3) g(1,5,6) t(7,8) by (simp_all add: container_chunk_def chunk_delta_def)
  show "b_length ?c = int (length chunk)" using f(4) t(2) by simp
  show "chunk_transform ?c \<notin> BWT_TRANSFORMS \<Longrightarrow> chunk_transform_param ?c = 0" using t(5) by blast
  show "chunk_yields ?c chunk" unfolding chunk_yields_def tr f using t(6) by simp
  show "chunk_ok ?c i off sz"
    unfolding chunk_ok_def f using t(2-4) g(2-4,8) res(1) assms(4,5) f(9) by simp
qed

lemma slices_prefix_length:
  assumes "0 < n" and "k < slice_count n (length xs)"
  shows "sum_list (map length (take k (slices n xs))) = k * n" and "k * n < length xs"
proof -
  have lt: "j * n < length xs" if "j < slice_count n (length xs)" for j
  proof -
    have "Suc j \<le> (length xs + n - 1) div n" using that by (simp add: slice_count_def)
    then have "Suc j * n \<le> length xs + n - 1" using assms(1) by (metis less_eq_div_iff_mult_less_eq)
    then show ?thesis using assms(1) by simp
  qed
  show "k * n < length xs" by (rule lt [OF assms(2)])
  have "map length (take k (slices n xs)) = replicate k n"
  proof (rule nth_equalityI)
    fix j assume j: "j < length (map length (take k (slices n xs)))"
    then have "Suc j * n \<le> k * n" by (intro mult_le_mono1) simp
    then have "j * n + n < length xs" using \<open>k * n < length xs\<close> by simp
    then show "map length (take k (slices n xs)) ! j = replicate k n ! j"
      using j assms(2) by (simp add: slices_nth)
  qed (use assms(2) in simp)
  then show "sum_list (map length (take k (slices n xs))) = k * n" by (simp add: sum_list_replicate)
qed

lemma chunked_exact_chunks:
  assumes "chunked_exact ck data n" and "0 < n" and "k < slice_count n (length data)"
  shows "chunk_ok (map container_chunk (ck_chunks ck) ! k) (int k) (int (k * n)) (int n)"
    and "chunk_yields (map container_chunk (ck_chunks ck) ! k) (slices n data ! k)"
    and "b_length (map container_chunk (ck_chunks ck) ! k) = int (length (slices n data ! k))"
    and "length (ck_chunks ck) = slice_count n (length data)"
proof -
  have all2: "list_all2 (\<lambda>(i, chunk) cp. cp_index cp = int i \<and> cp_offset cp = int (i * n) \<and> chunk_exact cp chunk)
       (enumerate 0 (slices n data)) (ck_chunks ck)"
    using assms(1) by (simp add: chunked_exact_def)
  show len: "length (ck_chunks ck) = slice_count n (length data)" using list_all2_lengthD [OF all2] by simp
  have mem: "slices n data ! k \<noteq> [] \<and> length (slices n data ! k) \<le> n"
    using assms(3) by (intro slices_nonempty [OF assms(2), of _ data] nth_mem) simp
  have k: "cp_index (ck_chunks ck ! k) = int k" "cp_offset (ck_chunks ck ! k) = int (k * n)"
      "chunk_exact (ck_chunks ck ! k) (slices n data ! k)"
    using list_all2_nthD [OF all2, of k] assms(3) by (simp_all add: nth_enumerate_eq del: enumerate_eq_zip)
  show "chunk_ok (map container_chunk (ck_chunks ck) ! k) (int k) (int (k * n)) (int n)"
      "chunk_yields (map container_chunk (ck_chunks ck) ! k) (slices n data ! k)"
      "b_length (map container_chunk (ck_chunks ck) ! k) = int (length (slices n data ! k))"
    using exact_chunk [OF k(3,1,2), of "int n"] mem assms(3) len by auto
qed

text \<open>The container \<open>c\<close> holds \<open>data\<close> in slices of \<open>n\<close> bytes.\<close>

definition container_holds :: "container \<Rightarrow> nat \<Rightarrow> bytes \<Rightarrow> bool" where
  "container_holds c n data \<longleftrightarrow>
     container_ok c \<and> bc_chunk_size c = int n \<and> bc_whole_sha256 c = hexdigest data \<and>
     list_all2 chunk_yields (bc_chunks c) (slices n data) \<and>
     map b_length (bc_chunks c) = map (int \<circ> length) (slices n data)"

lemma container_holds_reconstruct:
  assumes "container_holds c n data"
  shows "reconstruct_bog_container_bytes c = Inr data"
proof -
  have "0 < n" using assms by (auto simp: container_holds_def container_ok_def)
  then show ?thesis using assms
    by (auto simp: reconstruct_iff container_holds_def simp del: hexdigest_eq_iff intro!: exI [of _ "slices n data"])
qed

lemma build_from_plan_holds:
  assumes "chunked_exact ck data n" and "0 < n"
  shows "container_holds (build_bog_container_from_plan ck auto results tt) n data"
proof -
  let ?cs = "map container_chunk (ck_chunks ck)" and ?c = "build_bog_container_from_plan ck auto results tt"
  let ?m = "slice_count n (length data)"
  note ex = chunked_exact_chunks [OF assms(1,2)]
  have len: "length ?cs = ?m"
  proof (cases "data = []")
    case True
    then show ?thesis using assms(1,2) by (simp add: chunked_exact_def enumerate_simps)
  next
    case False
    then show ?thesis using ex(4) [of 0] slice_count_pos [OF assms(2)] by simp
  qed
  have lens: "map b_length ?cs = map (int \<circ> length) (slices n data)"
  proof (rule nth_equalityI)
    fix k assume k: "k < length (map b_length ?cs)"
    then have "k < ?m" using len by simp
    then show "map b_length ?cs ! k = map (int \<circ> length) (slices n data) ! k"
      using ex(3) [of k] k by simp
  qed (use len in simp)
  have cok: "chunks_ok (int n) 0 0 ?cs"
  proof (rule chunks_okI)
    fix k assume "k < length ?cs"
    then have k: "k < ?m" using len by simp
    have "sum_list (map b_length (take k ?cs)) = sum_list (map (int \<circ> length) (take k (slices n data)))"
      using lens by (metis take_map)
    also have "\<dots> = int (sum_list (map length (take k (slices n data))))"
      by (simp add: comp_def sum_list_int)
    also have "\<dots> = int (k * n)" using slices_prefix_length(1) [OF assms(2) k] by simp
    finally show "chunk_ok (?cs ! k) (int (0 + k)) (0 + sum_list (map b_length (take k ?cs))) (int n)"
      using ex(1) [OF k] by simp
  qed
  have yields: "list_all2 chunk_yields ?cs (slices n data)"
    using ex(2) len by (simp add: list_all2_conv_all_nth)
  have ck: "ck_chunk_size ck = int n" "ck_chunk_count ck = int (length (ck_chunks ck))"
      "ck_whole_sha256 ck = hexdigest data"
      "ck_total_residual_count ck = sum_list (map b_residual_count ?cs)"
      "\<And>counts. ck_transform_counts ck = Some counts \<Longrightarrow> sum_list (map snd counts) = ck_chunk_count ck"
    using assms(1) by (auto simp: chunked_exact_def container_chunk_def comp_def)
  have "metadata_ok ?c"
    using assms(2) ck(1,5)
    by (auto simp: metadata_ok_def build_bog_container_from_plan_def CANDIDATE_CHUNK_SIZES_def Let_def
        list_all_iff get_or_def TRANSFORM_ORDER_def split: option.split)
  then have "container_ok ?c"
    using cok ck assms(2) by (simp add: container_ok_def build_bog_container_from_plan_def)
  then show ?thesis
    using yields lens ck by (simp add: container_holds_def build_bog_container_from_plan_def)
qed

lemma optimize_chunked_plan_exact:
  assumes "0 < n" and "n \<le> 65535"
  shows "\<exists>ck. optimize_chunked_plan data (int n) tt = Inr ck \<and> chunked_exact ck data n"
  using optimize_chunked_exact [OF assms] optimize_transformed_chunked_exact [OF assms]
  by (simp add: optimize_chunked_plan_def)

lemma candidate_sizes: "sz \<in> set CANDIDATE_CHUNK_SIZES \<Longrightarrow> 0 < nat sz \<and> nat sz \<le> 65535 \<and> int (nat sz) = sz"
  by (auto simp: CANDIDATE_CHUNK_SIZES_def)

text \<open>
  The chunk-size tournament: its plan is exact and needs no more residuals than a plan for any other
  candidate size.
\<close>

lemma optimize_adaptive_least:
  obtains ck results sz where
    "optimize_adaptive_chunked_residual_plan data tt = Inr (ck, results)"
    and "sz \<in> set CANDIDATE_CHUNK_SIZES" and "optimize_chunked_plan data sz tt = Inr ck"
    and "chunked_exact ck data (nat sz)"
    and "\<And>sz' ck'. sz' \<in> set CANDIDATE_CHUNK_SIZES \<Longrightarrow> optimize_chunked_plan data sz' tt = Inr ck' \<Longrightarrow>
           ck_total_residual_count ck < ck_total_residual_count ck' \<or>
           ck_total_residual_count ck = ck_total_residual_count ck' \<and>
           (ck_chunk_count ck, sz) \<le> (ck_chunk_count ck', sz')"
proof -
  let ?key = "chunk_size_key (int (length data))"
  have "\<forall>sz \<in> set CANDIDATE_CHUNK_SIZES. \<exists>ck. optimize_chunked_plan data sz tt = Inr ck \<and> chunked_exact ck data (nat sz)"
    using optimize_chunked_plan_exact candidate_sizes by metis
  then obtain g where g: "\<And>sz. sz \<in> set CANDIDATE_CHUNK_SIZES \<Longrightarrow>
      optimize_chunked_plan data sz tt = Inr (g sz) \<and> chunked_exact (g sz) data (nat sz)"
    by metis
  let ?rounds = "map (\<lambda>sz. (sz, g sz)) CANDIDATE_CHUNK_SIZES"
  have rounds: "map_res (\<lambda>sz. rbind (optimize_chunked_plan data sz tt) (\<lambda>plan. Inr (sz, plan)))
      CANDIDATE_CHUNK_SIZES = Inr ?rounds"
    using g by (intro map_res_total) simp
  have "?rounds \<noteq> []" by (simp add: CANDIDATE_CHUNK_SIZES_def)
  then obtain best where best: "keep_best ?key None ?rounds = Some best" "best \<in> set ?rounds"
      "\<forall>r \<in> set ?rounds. ?key best \<le> ?key r"
    by (rule keep_best_None)
  then obtain sz where sz: "sz \<in> set CANDIDATE_CHUNK_SIZES" "best = (sz, g sz)" by auto
  show thesis
  proof (rule that [of "g sz" "map (chunk_size_result (int (length data)) tt) ?rounds" sz])
    show "optimize_adaptive_chunked_residual_plan data tt =
        Inr (g sz, map (chunk_size_result (int (length data)) tt) ?rounds)"
      using best(1) sz(2) by (simp add: optimize_adaptive_chunked_residual_plan_def rounds)
    fix sz' ck' assume "sz' \<in> set CANDIDATE_CHUNK_SIZES" "optimize_chunked_plan data sz' tt = Inr ck'"
    then have "?key (sz, g sz) \<le> ?key (sz', ck')" using best(3) sz(2) g by auto
    then show "ck_total_residual_count (g sz) < ck_total_residual_count ck' \<or>
           ck_total_residual_count (g sz) = ck_total_residual_count ck' \<and>
           (ck_chunk_count (g sz), sz) \<le> (ck_chunk_count ck', sz')"
      by (auto simp: chunk_size_key_def less_eq_prod_def)
  qed (use g sz in auto)
qed

lemma build_holds:
  assumes "auto_chunk \<or> 0 < n \<and> n \<le> 65535"
  obtains c m where "build_bog_container_v1 data (int n) auto_chunk tt = Inr c" and "container_holds c m data"
    and "if auto_chunk then int m \<in> set CANDIDATE_CHUNK_SIZES else m = n"
proof (cases auto_chunk)
  case True
  obtain ck results sz where ck: "optimize_adaptive_chunked_residual_plan data tt = Inr (ck, results)"
      "sz \<in> set CANDIDATE_CHUNK_SIZES" "optimize_chunked_plan data sz tt = Inr ck" "chunked_exact ck data (nat sz)"
    by (rule optimize_adaptive_least)
  show thesis
    using ck candidate_sizes [OF ck(2)] True
    by (intro that [of "build_bog_container_from_plan ck auto_chunk results tt" "nat sz"] build_from_plan_holds)
      (auto simp: build_bog_container_v1_def)
next
  case False
  then obtain ck where "optimize_chunked_plan data (int n) tt = Inr ck" "chunked_exact ck data n"
    using optimize_chunked_plan_exact assms by blast
  then show thesis using False assms
    by (intro that [of "build_bog_container_from_plan ck auto_chunk [] tt" n] build_from_plan_holds)
      (auto simp: build_bog_container_v1_def)
qed

end
