(* ===== verification/Bogpk_Roundtrip.thy ===== *)
theory Bogpk_Roundtrip
  imports Container_Correct
begin

text \<open>
  The packed form end to end: the decoder of \<^verbatim>\<open>src/bogvm/container.py\<close> reads back every chunk the
  encoder wrote, runs of equal descriptors included, so a payload survives build, encode, decode and
  reconstruct; and whatever bytes the decoder accepts, the payload has the digest of the header.
\<close>

section \<open>Descriptors of chunks\<close>

definition wire_param :: "bog_chunk \<Rightarrow> int" where
  "wire_param c = (if chunk_transform c \<in> BWT_TRANSFORMS then chunk_transform_param c else 0)"

definition wire_encoding :: "bog_chunk \<Rightarrow> string" where
  "wire_encoding c = (case best_residual_encoding c of Inr e \<Rightarrow> e | Inl _ \<Rightarrow> ''delta'')"

definition chunk_descriptor :: "bog_chunk \<Rightarrow> descriptor" where
  "chunk_descriptor c = \<lparr>d_transform = chunk_transform c, d_basis = b_basis c, d_start_byte = b_start_byte c,
     d_delta = chunk_delta c, d_transform_param = wire_param c, d_residual_count = b_residual_count c,
     d_residual_encoding = wire_encoding c\<rparr>"

definition read_chunk_residuals :: "byte_reader \<Rightarrow> descriptor \<Rightarrow> int \<Rightarrow> (residual list \<times> byte_reader) res" where
  "read_chunk_residuals reader d len =
     (if d_residual_encoding d = ''bitmask'' then read_bitmask_residuals reader (d_residual_count d) len
      else read_residuals reader (d_residual_count d) len)"

text \<open>Chunks the packed form can hold.\<close>

definition packable :: "bog_chunk \<Rightarrow> bool" where
  "packable c \<longleftrightarrow> (\<exists>i off sz. chunk_ok c i off sz \<and> sz < 2 ^ 63) \<and> wire_param c < 2 ^ 70"

lemma packable_residuals: "packable c \<Longrightarrow> residual_list_valid (b_length c) (b_residuals c)"
  by (auto simp: packable_def chunk_ok_def residual_list_valid_def)

lemma packable_encoding:
  assumes "packable c"
  obtains R where "best_residual_encoding c = Inr (wire_encoding c)"
    and "wire_encoding c \<in> {''delta'', ''bitmask''}"
    and "(if wire_encoding c = ''bitmask'' then append_bitmask_residuals (b_length c) (b_residuals c)
          else append_residuals (b_residuals c)) = Inr R"
    and "b_residual_count c = 0 \<Longrightarrow> wire_encoding c = ''delta'' \<and> R = []"
    and "\<And>rest. read_chunk_residuals (R @ rest) (chunk_descriptor c) (b_length c) = Inr (b_residuals c, rest)"
proof -
  have count: "b_residual_count c = int (length (b_residuals c))" using assms by (auto simp: packable_def chunk_ok_def)
  note valid = packable_residuals [OF assms]
  obtain enc bd bb where enc: "best_residual_encoding c = Inr enc" "enc \<in> {''delta'', ''bitmask''}"
      "append_residuals (b_residuals c) = Inr bd"
      "append_bitmask_residuals (b_length c) (b_residuals c) = Inr bb"
      "b_residuals c = [] \<Longrightarrow> enc = ''delta'' \<and> bd = []"
    by (rule best_residual_encoding_least [OF valid count]) (rule that)
  have we: "wire_encoding c = enc" by (simp add: wire_encoding_def enc(1))
  let ?R = "if enc = ''bitmask'' then bb else bd"
  have "read_chunk_residuals (?R @ rest) (chunk_descriptor c) (b_length c) = Inr (b_residuals c, rest)" for rest
    using valid enc(3,4) we count
      delta_code.dec_after_enc [of "b_length c" "b_residuals c" "length (b_residuals c)" bd rest]
      bitmask_code.dec_after_enc [of "b_length c" "b_residuals c" "length (b_residuals c)" bb rest]
    by (simp add: read_chunk_residuals_def chunk_descriptor_def)
  moreover have "b_residual_count c = 0 \<Longrightarrow> wire_encoding c = ''delta'' \<and> ?R = []"
    using count enc(5) we by simp
  ultimately show thesis using enc(1-4) we by (intro that [of ?R]) auto
qed

lemma packable_param:
  assumes "packable c" and "TRANSFORM_ORDER ! transform_id_of w = chunk_transform c"
    and "transform_id_of w < length TRANSFORM_ORDER"
  obtains P where "append_transform_param c = Inr P"
    and "\<And>rest. read_transform_param (P @ rest) w = Inr (wire_param c, rest)"
proof (cases "chunk_transform c \<in> BWT_TRANSFORMS")
  case True
  then have "varuint_valid (chunk_transform_param c)" "wire_param c = chunk_transform_param c"
    using assms(1) by (auto simp: packable_def chunk_ok_def varuint_valid_def wire_param_def)
  then show thesis using True assms(2,3) varuint.dec_enc that
    by (fastforce simp: append_transform_param_def read_transform_param_def Let_def)
next
  case False
  then show thesis using assms(2,3)
    by (intro that [of "[]"]) (simp_all add: append_transform_param_def read_transform_param_def Let_def wire_param_def)
qed

text \<open>The four parts that a run and a single descriptor share: descriptor, start, delta, parameter.\<close>

lemma packable_head:
  assumes "packable c" and "enc \<in> {''delta'', ''bitmask''}"
  obtains v w P where "encode_descriptor c enc = Inr v" and "append_byte v = Inr [w]"
    and "w \<noteq> BOGPK_DESCRIPTOR_SENTINEL"
    and "append_byte (b_start_byte c) = Inr [word_of_int (b_start_byte c)]"
    and "append_byte (chunk_delta c) = Inr [word_of_int (chunk_delta c)]"
    and "append_transform_param c = Inr P"
    and "\<And>rest. read_transform_param (P @ rest) w = Inr (wire_param c, rest)"
    and "\<And>n. decode_descriptor w (word_of_int (b_start_byte c)) (word_of_int (chunk_delta c)) (wire_param c) n =
           Inr ((chunk_descriptor c)\<lparr>d_residual_count := n, d_residual_encoding := enc\<rparr>)"
proof -
  obtain i off sz where ok: "chunk_ok c i off sz" using assms(1) by (auto simp: packable_def)
  obtain v where v: "encode_descriptor c enc = Inr v" "0 \<le> v" "v \<le> 255"
      "(word_of_int v :: byte) \<noteq> BOGPK_DESCRIPTOR_SENTINEL"
      "transform_id_of (word_of_int v) < length TRANSFORM_ORDER"
      "TRANSFORM_ORDER ! transform_id_of (word_of_int v) = chunk_transform c"
      "\<And>s d p n. decode_descriptor (word_of_int v) s d p n =
           Inr \<lparr>d_transform = chunk_transform c, d_basis = b_basis c, d_start_byte = uint s,
             d_delta = uint d, d_transform_param = p, d_residual_count = n, d_residual_encoding = enc\<rparr>"
    using descriptor_roundtrip [OF _ _ assms(2), of c] ok by (auto simp: chunk_ok_def)
  obtain P where P: "append_transform_param c = Inr P"
      "\<And>rest. read_transform_param (P @ rest) (word_of_int v) = Inr (wire_param c, rest)"
    by (rule packable_param [OF assms(1) v(6,5)]) (rule that)
  show thesis
    using ok v P by (intro that [of v "word_of_int v" P]) (auto simp: chunk_ok_def append_byte_Inr chunk_descriptor_def)
qed

section \<open>One chunk and one run\<close>

lemma encode_single_decodes:
  assumes "packable c"
  obtains D R where "encode_single c = Inr (D, R)"
    and "\<And>F count rest ds. int (length ds) < count \<Longrightarrow>
           decode_descriptors F count (D @ rest) ds = decode_descriptors F count rest (ds @ [chunk_descriptor c])"
    and "\<And>rest. read_chunk_residuals (R @ rest) (chunk_descriptor c) (b_length c) = Inr (b_residuals c, rest)"
proof -
  obtain R where R: "best_residual_encoding c = Inr (wire_encoding c)"
    "wire_encoding c \<in> {''delta'', ''bitmask''}"
    "(if wire_encoding c = ''bitmask'' then append_bitmask_residuals (b_length c) (b_residuals c)
          else append_residuals (b_residuals c)) = Inr R"
    "\<And>rest. read_chunk_residuals (R @ rest) (chunk_descriptor c) (b_length c) = Inr (b_residuals c, rest)"
    using packable_encoding [OF assms] by metis
  obtain v w P where h: "encode_descriptor c (wire_encoding c) = Inr v" "append_byte v = Inr [w]"
    "w \<noteq> BOGPK_DESCRIPTOR_SENTINEL"
    "append_byte (b_start_byte c) = Inr [word_of_int (b_start_byte c)]"
    "append_byte (chunk_delta c) = Inr [word_of_int (chunk_delta c)]"
    "append_transform_param c = Inr P"
    "\<And>rest. read_transform_param (P @ rest) w = Inr (wire_param c, rest)"
    "\<And>n. decode_descriptor w (word_of_int (b_start_byte c)) (word_of_int (chunk_delta c)) (wire_param c) n =
           Inr ((chunk_descriptor c)\<lparr>d_residual_count := n, d_residual_encoding := wire_encoding c\<rparr>)"
    by (rule packable_head [OF assms R(2)]) (rule that)
  have "varuint_valid (b_residual_count c)"
    using residual_list_valid_count [OF packable_residuals [OF assms]] packable_residuals [OF assms] assms
    by (auto simp: packable_def chunk_ok_def varuint_valid_def residual_list_valid_def)
  then obtain N where N: "encode_varuint (b_residual_count c) = Inr N"
      "\<And>rest. decode_varuint (N @ rest) = Inr (b_residual_count c, rest)"
    using varuint.dec_enc by blast
  let ?D = "[w] @ [word_of_int (b_start_byte c)] @ [word_of_int (chunk_delta c)] @ P @ N"
  have desc: "(chunk_descriptor c)\<lparr>d_residual_count := b_residual_count c, d_residual_encoding := wire_encoding c\<rparr> =
      chunk_descriptor c" by (simp add: chunk_descriptor_def)
  show thesis
  proof (rule that [of ?D R])
    show "encode_single c = Inr (?D, R)"
      using R(3) by (simp add: encode_single_def R(1) h N)
    fix F count rest and ds :: "descriptor list" assume "int (length ds) < count"
    then show "decode_descriptors F count (?D @ rest) ds = decode_descriptors F count rest (ds @ [chunk_descriptor c])"
      using h(3) by (subst decode_descriptors.simps) (simp add: h(7,8) N(2) desc)
  qed (rule R(4))
qed

lemma encode_run_decodes:
  assumes "packable c" and "b_residual_count c = 0" and "2 \<le> n" and "int n < 2 ^ 70"
  obtains D where "encode_run c n = Inr D"
    and "\<And>F count rest ds. F AND BOGPK_FLAG_ZERO_RESIDUAL_RUNS \<noteq> 0 \<Longrightarrow> int (length ds) + int n \<le> count \<Longrightarrow>
           decode_descriptors F count (D @ rest) ds =
           decode_descriptors F count rest (ds @ replicate n (chunk_descriptor c))"
proof -
  have enc: "wire_encoding c = ''delta''"
    using packable_encoding [OF assms(1)] assms(2) by metis
  obtain v w P where h: "encode_descriptor c ''delta'' = Inr v" "append_byte v = Inr [w]"
    "append_byte (b_start_byte c) = Inr [word_of_int (b_start_byte c)]"
    "append_byte (chunk_delta c) = Inr [word_of_int (chunk_delta c)]"
    "append_transform_param c = Inr P"
    "\<And>rest. read_transform_param (P @ rest) w = Inr (wire_param c, rest)"
    "\<And>n. decode_descriptor w (word_of_int (b_start_byte c)) (word_of_int (chunk_delta c)) (wire_param c) n =
           Inr ((chunk_descriptor c)\<lparr>d_residual_count := n, d_residual_encoding := ''delta''\<rparr>)"
    by (rule packable_head [OF assms(1), of "''delta''"]) auto
  obtain N where N: "encode_varuint (int n) = Inr N" "\<And>rest. decode_varuint (N @ rest) = Inr (int n, rest)"
    using varuint.dec_enc [of "int n"] assms(4) by (auto simp: varuint_valid_def)
  let ?D = "[BOGPK_DESCRIPTOR_SENTINEL] @ N @ [w] @ [word_of_int (b_start_byte c)] @ [word_of_int (chunk_delta c)] @ P"
  have desc: "(chunk_descriptor c)\<lparr>d_residual_count := 0, d_residual_encoding := ''delta''\<rparr> = chunk_descriptor c"
    by (simp add: chunk_descriptor_def enc assms(2))
  show thesis
  proof (rule that [of ?D])
    show "encode_run c n = Inr ?D" by (simp add: encode_run_def h N)
    fix F count rest and ds :: "descriptor list"
    assume "F AND BOGPK_FLAG_ZERO_RESIDUAL_RUNS \<noteq> 0" and "int (length ds) + int n \<le> count"
    then show "decode_descriptors F count (?D @ rest) ds =
        decode_descriptors F count rest (ds @ replicate n (chunk_descriptor c))"
      using assms(3) by (subst decode_descriptors.simps) (simp add: h(6,7) N(2) desc)
  qed
qed

section \<open>All descriptors\<close>

lemma run_prefix:
  assumes "2 \<le> zero_residual_run_length (c # cs)"
  defines "n \<equiv> zero_residual_run_length (c # cs)"
  shows "b_residual_count c = 0" and "n \<le> length (c # cs)"
    and "\<forall>x \<in> set (take n (c # cs)). b_residual_count x = 0 \<and> same_descriptor x c"
proof -
  let ?P = "\<lambda>candidate. b_residual_count candidate = 0 \<and> same_descriptor candidate c"
  show z: "b_residual_count c = 0" using assms(1) by (auto simp: zero_residual_run_length_def split: if_splits)
  then have n: "n = Suc (length (takeWhile ?P cs))" by (simp add: n_def zero_residual_run_length_def)
  then show "n \<le> length (c # cs)" using length_takeWhile_le [of ?P cs] by simp
  have "take n (c # cs) = c # takeWhile ?P cs" unfolding n by (simp add: takeWhile_eq_take [symmetric])
  then show "\<forall>x \<in> set (take n (c # cs)). b_residual_count x = 0 \<and> same_descriptor x c"
    using z by (auto simp: same_descriptor_def dest: set_takeWhileD)
qed

lemma same_descriptor_eq:
  assumes "packable x" "packable c" "b_residual_count x = 0" "b_residual_count c = 0" "same_descriptor x c"
  shows "chunk_descriptor x = chunk_descriptor c"
proof -
  have "wire_encoding x = ''delta''" "wire_encoding c = ''delta''"
    using packable_encoding [OF assms(1)] packable_encoding [OF assms(2)] assms(3,4) by metis+
  then show ?thesis
    using assms(3-5) by (simp add: chunk_descriptor_def wire_param_def same_descriptor_def)
qed

text \<open>Reading the residual section for a list of chunks.\<close>

fun reads_residuals :: "bytes \<Rightarrow> bog_chunk list \<Rightarrow> bool" where
  "reads_residuals R [] = (R = [])"
| "reads_residuals R (c # cs) = (\<exists>R1 R2. R = R1 @ R2 \<and>
     (\<forall>rest. read_chunk_residuals (R1 @ rest) (chunk_descriptor c) (b_length c) = Inr (b_residuals c, rest)) \<and>
     reads_residuals R2 cs)"

lemma reads_residuals_skip:
  assumes "\<forall>c \<in> set cs. packable c \<and> b_residual_count c = 0" and "reads_residuals R ds"
  shows "reads_residuals R (cs @ ds)"
  using assms
proof (induction cs)
  case (Cons c cs)
  have "read_chunk_residuals rest (chunk_descriptor c) (b_length c) = Inr (b_residuals c, rest)" for rest
    using packable_encoding [of c] Cons.prems(1) by (metis append_Nil list.set_intros(1))
  then show ?case using Cons by (auto intro!: exI [of _ "[]"])
qed simp

lemma encode_chunks_decodes:
  assumes "\<forall>c \<in> set cs. packable c" and "int (length cs) < 2 ^ 70"
  shows "\<exists>F D R. encode_chunks cs flags db rb = Inr (F, db @ D, rb @ R) \<and>
     (F = flags \<or> F = flags OR BOGPK_FLAG_ZERO_RESIDUAL_RUNS) \<and> reads_residuals R cs \<and>
     (\<forall>count rest ds. int (length ds) + int (length cs) \<le> count \<longrightarrow>
        decode_descriptors F count (D @ rest) ds = decode_descriptors F count rest (ds @ map chunk_descriptor cs))"
  using assms
proof (induction cs flags db rb rule: encode_chunks.induct)
  case (2 c cs flags db rb)
  define n where "n = zero_residual_run_length (c # cs)"
  have pc: "packable c" using "2.prems" by simp
  show ?case
  proof (cases "2 \<le> n")
    case True
    note run = run_prefix [of c cs, folded n_def, OF True]
    have "int n < 2 ^ 70" using run(2) "2.prems"(2) by linarith
    then obtain D1 where D1: "encode_run c n = Inr D1"
        "\<And>F count rest ds. F AND BOGPK_FLAG_ZERO_RESIDUAL_RUNS \<noteq> 0 \<Longrightarrow> int (length ds) + int n \<le> count \<Longrightarrow>
           decode_descriptors F count (D1 @ rest) ds =
           decode_descriptors F count rest (ds @ replicate n (chunk_descriptor c))"
      using encode_run_decodes [OF pc run(1) True] by metis
    let ?rest = "drop n (c # cs)" and ?fl = "flags OR BOGPK_FLAG_ZERO_RESIDUAL_RUNS"
    have pk: "\<forall>x \<in> set ?rest. packable x" using "2.prems"(1) by (meson in_set_dropD)
    have short: "int (length ?rest) < 2 ^ 70" using "2.prems"(2) by simp
    obtain F D R where rec: "encode_chunks ?rest ?fl (db @ D1) rb = Inr (F, (db @ D1) @ D, rb @ R)"
        "F = ?fl \<or> F = ?fl OR BOGPK_FLAG_ZERO_RESIDUAL_RUNS" "reads_residuals R ?rest"
        "\<And>count rest ds. int (length ds) + int (length ?rest) \<le> count \<Longrightarrow>
           decode_descriptors F count (D @ rest) ds = decode_descriptors F count rest (ds @ map chunk_descriptor ?rest)"
      using "2.IH"(1) [of n D1, OF n_def True D1(1) pk short] by blast
    have F: "F = ?fl" using rec(2) by (auto simp: or.assoc)
    have fl: "?fl AND BOGPK_FLAG_ZERO_RESIDUAL_RUNS \<noteq> 0"
    proof -
      have "bit ?fl 2" by (simp add: BOGPK_FLAG_ZERO_RESIDUAL_RUNS_def bit_simps)
      then show ?thesis using and_exp_eq_0_iff_not_bit [of ?fl 2] by (simp add: BOGPK_FLAG_ZERO_RESIDUAL_RUNS_def)
    qed
    have pre: "\<forall>x \<in> set (take n (c # cs)). packable x \<and> b_residual_count x = 0"
      using run(3) "2.prems"(1) by (meson in_set_takeD)
    have "map chunk_descriptor (take n (c # cs)) = replicate n (chunk_descriptor c)"
    proof (rule replicate_eqI)
      show "length (map chunk_descriptor (take n (c # cs))) = n" using run(2) by simp
      fix d assume "d \<in> set (map chunk_descriptor (take n (c # cs)))"
      then show "d = chunk_descriptor c" using same_descriptor_eq [OF _ pc _ run(1)] pre run(3) by auto
    qed
    then have descs: "map chunk_descriptor (c # cs) = replicate n (chunk_descriptor c) @ map chunk_descriptor ?rest"
      by (metis append_take_drop_id map_append)
    have "decode_descriptors F count ((D1 @ D) @ rest) ds =
        decode_descriptors F count rest (ds @ map chunk_descriptor (c # cs))"
      if "int (length ds) + int (length (c # cs)) \<le> count" for count rest ds
    proof -
      have lens: "int (length ds) + int n \<le> count" "int (length ds + n) + int (length ?rest) \<le> count"
        using that run(2) by simp_all
      then show ?thesis using D1(2) [of F ds count "D @ rest"] fl F
          rec(4) [of "ds @ replicate n (chunk_descriptor c)" count rest] descs by simp
    qed
    moreover have "reads_residuals R (c # cs)"
      using reads_residuals_skip [OF pre rec(3)] by (simp only: append_take_drop_id)
    moreover have "encode_chunks (c # cs) flags db rb = Inr (F, db @ (D1 @ D), rb @ R)"
      using True rec(1) by (simp add: n_def [symmetric] Let_def D1(1))
    ultimately show ?thesis using F by blast
  next
    case False
    obtain D1 R1 where D1: "encode_single c = Inr (D1, R1)"
        "\<And>F count rest ds. int (length ds) < count \<Longrightarrow>
           decode_descriptors F count (D1 @ rest) ds = decode_descriptors F count rest (ds @ [chunk_descriptor c])"
        "\<And>rest. read_chunk_residuals (R1 @ rest) (chunk_descriptor c) (b_length c) = Inr (b_residuals c, rest)"
      using encode_single_decodes [OF pc] by metis
    obtain F D R where rec: "encode_chunks cs flags (db @ D1) (rb @ R1) = Inr (F, (db @ D1) @ D, (rb @ R1) @ R)"
        "F = flags \<or> F = flags OR BOGPK_FLAG_ZERO_RESIDUAL_RUNS" "reads_residuals R cs"
        "\<And>count rest ds. int (length ds) + int (length cs) \<le> count \<Longrightarrow>
           decode_descriptors F count (D @ rest) ds = decode_descriptors F count rest (ds @ map chunk_descriptor cs)"
      using "2.IH"(2) [of n "(D1, R1)" D1 R1, OF n_def False D1(1) refl] "2.prems" by auto
    have "decode_descriptors F count ((D1 @ D) @ rest) ds =
        decode_descriptors F count rest (ds @ map chunk_descriptor (c # cs))"
      if "int (length ds) + int (length (c # cs)) \<le> count" for count rest ds
      using that D1(2) [of ds count F "D @ rest"] rec(4) [of "ds @ [chunk_descriptor c]" count rest] by simp
    moreover have "reads_residuals (R1 @ R) (c # cs)" using D1(3) rec(3) by auto
    moreover have "encode_chunks (c # cs) flags db rb = Inr (F, db @ (D1 @ D), rb @ (R1 @ R))"
      using False rec(1) by (simp add: n_def [symmetric] Let_def D1(1))
    ultimately show ?thesis using rec(2) by blast
  qed
qed auto

section \<open>The chunks the decoder builds\<close>

definition wire_chunk :: "int \<Rightarrow> nat \<Rightarrow> bog_chunk \<Rightarrow> bytes \<Rightarrow> bog_chunk" where
  "wire_chunk chunk_size i c part =
    \<lparr>b_index = int i, b_name = chunk_name (int i), b_offset = int i * chunk_size,
     b_length = b_length c, b_basis = b_basis c, b_start_byte = b_start_byte c,
     b_delta = Some (chunk_delta c), b_transform = Some (chunk_transform c),
     b_transform_param = Some (wire_param c),
     b_residual_count = int (length (b_residuals c)), b_residuals = b_residuals c,
     b_chunk_sha256 = hexdigest (chunk_transformed c),
     b_transformed_sha256 = Some (hexdigest (chunk_transformed c)),
     b_original_chunk_sha256 = Some (hexdigest part)\<rparr>"

lemma wire_chunk_transformed [simp]: "chunk_transformed (wire_chunk sz i c part) = chunk_transformed c"
proof -
  have "b_basis (wire_chunk sz i c part) = b_basis c" "b_start_byte (wire_chunk sz i c part) = b_start_byte c"
      "b_length (wire_chunk sz i c part) = b_length c" "chunk_delta (wire_chunk sz i c part) = chunk_delta c"
      "b_residuals (wire_chunk sz i c part) = b_residuals c"
    by (simp_all add: wire_chunk_def chunk_delta_def)
  then show ?thesis by (simp only: chunk_transformed_def)
qed

lemma wire_invert:
  assumes "invert_transform (chunk_transform c) t (chunk_transform_param c) = Inr part"
  shows "invert_transform (chunk_transform c) t (wire_param c) = Inr part"
  using assms invert_transform_param(2) [OF assms] by (simp add: wire_param_def)

lemma wire_chunk_yields: "chunk_yields c part \<Longrightarrow> chunk_yields (wire_chunk sz i c part) part"
  using wire_invert [of c]
  by (simp add: chunk_yields_def) (simp add: wire_chunk_def chunk_transform_def chunk_transform_param_def)

lemma wire_chunk_ok:
  assumes "chunk_ok c j off sz"
  shows "chunk_ok (wire_chunk sz i c part) (int i) (int i * sz) sz"
  using assms
  by (simp add: chunk_ok_def) (simp add: wire_chunk_def chunk_transform_def chunk_transform_param_def chunk_delta_def wire_param_def)

lemma decode_chunk_written:
  assumes "chunk_ok c j off sz" and "chunk_yields c part"
    and "decoded_chunk_length (int i) cnt sz orig_len = Inr (b_length c)"
    and "\<And>rest. read_chunk_residuals (R @ rest) (chunk_descriptor c) (b_length c) = Inr (b_residuals c, rest)"
  shows "decode_chunk cnt sz orig_len (R @ rest) (i, chunk_descriptor c) = Inr (wire_chunk sz i c part, part, rest)"
proof -
  have inv: "invert_transform (chunk_transform c) (chunk_transformed c) (wire_param c) = Inr part"
    using assms(2) by (intro wire_invert) (simp add: chunk_yields_def)
  have d: "d_transform (chunk_descriptor c) = chunk_transform c" "d_basis (chunk_descriptor c) = b_basis c"
      "d_start_byte (chunk_descriptor c) = b_start_byte c" "d_delta (chunk_descriptor c) = chunk_delta c"
      "d_transform_param (chunk_descriptor c) = wire_param c"
    by (simp_all add: chunk_descriptor_def)
  show ?thesis
    using assms(4) [of rest, unfolded read_chunk_residuals_def]
    by (simp add: decode_chunk_def assms(3) d synthesize_residual_chunk_ok(1) [OF assms(1)] inv wrap_value_error_def
        wire_chunk_def)
qed

lemma decode_chunks_written:
  assumes "reads_residuals R cs" and "list_all2 chunk_yields cs parts"
    and "\<And>k. k < length cs \<Longrightarrow> \<exists>j off. chunk_ok (cs ! k) j off sz"
    and "\<And>k. k < length cs \<Longrightarrow> decoded_chunk_length (int (i + k)) cnt sz orig_len = Inr (b_length (cs ! k))"
  shows "decode_chunks cnt sz orig_len (R @ rest) (enumerate i (map chunk_descriptor cs)) =
           Inr (map (\<lambda>(k, c, part). wire_chunk sz k c part) (enumerate i (zip cs parts)), parts, rest)"
  using assms(2,1,3,4)
proof (induction cs parts arbitrary: R i rule: list_all2_induct)
  case (Cons c cs part parts)
  obtain R1 R2 where R: "R = R1 @ R2" "reads_residuals R2 cs"
      "\<And>rest. read_chunk_residuals (R1 @ rest) (chunk_descriptor c) (b_length c) = Inr (b_residuals c, rest)"
    using Cons.prems(1) by auto
  obtain j off where "chunk_ok c j off sz" using Cons.prems(2) [of 0] by auto
  moreover have "decoded_chunk_length (int i) cnt sz orig_len = Inr (b_length c)" using Cons.prems(3) [of 0] by simp
  ultimately have "decode_chunk cnt sz orig_len (R1 @ (R2 @ rest)) (i, chunk_descriptor c) =
      Inr (wire_chunk sz i c part, part, R2 @ rest)"
    using Cons.hyps(1) R(3) by (intro decode_chunk_written)
  moreover have "decode_chunks cnt sz orig_len (R2 @ rest) (enumerate (Suc i) (map chunk_descriptor cs)) =
      Inr (map (\<lambda>(k, c, part). wire_chunk sz k c part) (enumerate (Suc i) (zip cs parts)), parts, rest)"
  proof (rule Cons.IH [OF R(2)])
    fix k assume "k < length cs"
    then show "\<exists>j off. chunk_ok (cs ! k) j off sz"
        "decoded_chunk_length (int (Suc i + k)) cnt sz orig_len = Inr (b_length (cs ! k))"
      using Cons.prems(2,3) [of "Suc k"] by simp_all
  qed
  ultimately show ?case using R(1) by (simp add: enumerate_simps)
qed (simp add: enumerate_simps)

lemma decoded_chunk_length_slices:
  assumes "0 < n" and "k < slice_count n (length data)"
  shows "decoded_chunk_length (int k) (int (slice_count n (length data))) (int n) (int (length data)) =
           Inr (int (length (slices n data ! k)))"
proof -
  let ?m = "slice_count n (length data)"
  have last: "(?m - 1) * n < length data"
    using slices_prefix_length(2) [OF assms(1), of "?m - 1" data] assms(2) by simp
  have upper: "length data \<le> ?m * n"
  proof -
    have "(length data + n - 1) mod n < n" using assms(1) by simp
    moreover have "?m * n + (length data + n - 1) mod n = length data + n - 1"
      unfolding slice_count_def by (rule div_mult_mod_eq)
    ultimately show ?thesis using assms(1) by linarith
  qed
  have nth: "length (slices n data ! k) = min n (length data - k * n)" using assms(2) by (simp add: slices_nth min.commute)
  show ?thesis
  proof (cases "k < ?m - 1")
    case True
    then have "Suc k * n \<le> (?m - 1) * n" by (intro mult_le_mono1) simp
    then have "k * n + n \<le> length data" using last by simp
    moreover have "int k < int ?m - 1" using True by linarith
    ultimately show ?thesis using assms(2) nth by (simp add: decoded_chunk_length_def)
  next
    case False
    then have k: "k = ?m - 1" using assms(2) by simp
    have m: "?m = Suc k" using k assms(2) by simp
    have "length data - k * n \<le> n" using upper m by simp
    moreover have "k * n < length data" using last unfolding m by simp
    moreover define l where "l = length data - k * n"
    ultimately have len: "length (slices n data ! k) = l" "0 < l" "l \<le> n" "length data = k * n + l"
      using nth by simp_all
    have "int (length data) - (int ?m - 1) * int n = int l"
      using m arg_cong [OF len(4), of int] by simp
    then show ?thesis using len(1-3) m by (simp add: decoded_chunk_length_def Let_def)
  qed
qed

section \<open>Decoding what was encoded\<close>

lemma container_holds_layout:
  assumes "container_holds c n data"
  shows "0 < n" and "length (bc_chunks c) = slice_count n (length data)"
    and "bc_chunk_count c = int (slice_count n (length data))"
    and "container_length c = int (length data)"
    and "\<And>k. k < slice_count n (length data) \<Longrightarrow> b_length (bc_chunks c ! k) = int (length (slices n data ! k))"
    and "bc_total_residual_count c \<le> int (length data)"
proof -
  have lens: "map b_length (bc_chunks c) = map (int \<circ> length) (slices n data)" and ok: "container_ok c"
    using assms by (simp_all add: container_holds_def)
  show n: "0 < n" using assms by (auto simp: container_holds_def container_ok_def)
  show m: "length (bc_chunks c) = slice_count n (length data)" using arg_cong [OF lens, of length] by simp
  then show "bc_chunk_count c = int (slice_count n (length data))" using ok by (simp add: container_ok_def)
  have "container_length c = int (sum_list (map length (slices n data)))"
    unfolding container_length_def lens by (simp add: sum_list_int comp_def)
  also have "sum_list (map length (slices n data)) = length data"
    using length_concat [of "slices n data"] concat_slices [OF n, of data] by simp
  finally show total: "container_length c = int (length data)" .
  show "b_length (bc_chunks c ! k) = int (length (slices n data ! k))" if "k < slice_count n (length data)" for k
    using arg_cong [OF lens, of "\<lambda>l. l ! k"] m that by simp
  have "b_residual_count x \<le> b_length x" if x: "x \<in> set (bc_chunks c)" for x
  proof -
    obtain k where k: "k < length (bc_chunks c)" "x = bc_chunks c ! k"
      using x unfolding in_set_conv_nth by blast
    have "chunk_ok x (int k) (sum_list (map b_length (take k (bc_chunks c)))) (bc_chunk_size c)"
      unfolding k(2) by (rule container_ok_chunk [OF ok k(1)])
    then have "residuals_ok (b_length x) (- 1) (b_residuals x)" "b_residual_count x = int (length (b_residuals x))"
        "0 < b_length x"
      by (simp_all add: chunk_ok_def)
    then show ?thesis using residuals_ok_count [of "b_length x" "- 1" "b_residuals x"] by (cases "b_residuals x = []") simp_all
  qed
  then have "sum_list (map b_residual_count (bc_chunks c)) \<le> sum_list (map b_length (bc_chunks c))"
    by (intro sum_list_mono)
  then show "bc_total_residual_count c \<le> int (length data)"
    using ok total by (simp add: container_ok_def container_length_def)
qed

lemma slice_count_le:
  assumes "0 < n"
  shows "slice_count n len \<le> len"
proof (cases "slice_count n len")
  case (Suc j)
  then have "j * n < len" using slices_prefix_length(2) [OF assms, of j "replicate len ()"] by simp
  moreover have "j \<le> j * n" using assms by simp
  ultimately show ?thesis using Suc by linarith
qed simp

lemma container_holds_packable:
  assumes "container_holds c n data" and "n \<le> 128" and "x \<in> set (bc_chunks c)"
  shows "packable x"
proof -
  have ok: "container_ok c" and all: "list_all2 chunk_yields (bc_chunks c) (slices n data)"
      and sz: "bc_chunk_size c = int n"
    using assms(1) by (simp_all add: container_holds_def)
  obtain k where k: "k < length (bc_chunks c)" "x = bc_chunks c ! k"
    using assms(3) unfolding in_set_conv_nth by blast
  have xok: "chunk_ok x (int k) (sum_list (map b_length (take k (bc_chunks c)))) (int n)"
    using container_ok_chunk [OF ok k(1)] k(2) sz by simp
  have "chunk_yields x (slices n data ! k)" using list_all2_nthD [OF all k(1)] k(2) by simp
  then have inv: "invert_transform (chunk_transform x) (chunk_transformed x) (chunk_transform_param x) = Inr (slices n data ! k)"
    by (simp add: chunk_yields_def)
  have len: "int (length (chunk_transformed x)) = b_length x" by (rule synthesize_residual_chunk_ok(2) [OF xok])
  have "wire_param x < 2 ^ 70"
  proof (cases "chunk_transform x \<in> BWT_TRANSFORMS")
    case True
    then have "chunk_transform_param x < int (length (chunk_transformed x))"
    proof -
      have "0 < b_length x" using xok by (simp add: chunk_ok_def)
      then have "chunk_transformed x \<noteq> []" using len by auto
      then show ?thesis using invert_transform_param(1) [OF inv True] by simp
    qed
    then show ?thesis using len xok assms(2) by (simp add: wire_param_def chunk_ok_def)
  qed (simp add: wire_param_def)
  moreover have "int n < 2 ^ 63" using assms(2) by simp
  ultimately show ?thesis using xok unfolding packable_def by blast
qed

lemma header_written:
  assumes "list_index sz CANDIDATE_CHUNK_SIZES = Some code"
    and "flags = 0 \<or> flags = BOGPK_FLAG_ZERO_RESIDUAL_RUNS"
    and "varuint_valid a" "varuint_valid b" "varuint_valid c"
    and "encode_varuint a = Inr A" "encode_varuint b = Inr B" "encode_varuint c = Inr C"
    and "length digest = 32"
  shows "read_header (BOGPK_MAGIC @ [BOGPK_VERSION] @ [flags] @ [word_of_nat code] @ A @ B @ C @ digest @ rest) =
     Inr (\<lparr>h_flags = flags, h_chunk_size = sz, h_original_length = a, h_chunk_count = b,
           h_total_residual_count = c, h_whole_sha256 = bytes_hex digest\<rparr>, rest)"
proof -
  have code: "code < length CANDIDATE_CHUNK_SIZES" "CANDIDATE_CHUNK_SIZES ! code = sz"
    using list_index_Some [OF assms(1)] by simp_all
  then have u: "unat (word_of_nat code :: byte) = code"
    by (simp add: unat_word_of_nat_byte CANDIDATE_CHUNK_SIZES_def)
  have fl: "flags AND NOT (BOGPK_FLAG_TRANSFORMED_HASHES OR BOGPK_FLAG_ORIGINAL_HASHES OR
      BOGPK_FLAG_ZERO_RESIDUAL_RUNS) = 0" "flags AND (BOGPK_FLAG_TRANSFORMED_HASHES OR BOGPK_FLAG_ORIGINAL_HASHES) = 0"
    using assms(2)
    by (auto simp: BOGPK_FLAG_TRANSFORMED_HASHES_def BOGPK_FLAG_ORIGINAL_HASHES_def BOGPK_FLAG_ZERO_RESIDUAL_RUNS_def)
  show ?thesis
    unfolding read_header_def
    by (simp add: fl [simplified] u not_le code varuint.dec_after_enc [OF assms(3,6)] varuint.dec_after_enc [OF assms(4,7)]
        varuint.dec_after_enc [OF assms(5,8)] assms(9))
qed

lemma wire_chunks_hold:
  assumes "container_holds c n data" and "int n \<in> set CANDIDATE_CHUNK_SIZES"
  defines "cs \<equiv> map (\<lambda>(k, c, part). wire_chunk (int n) k c part) (enumerate 0 (zip (bc_chunks c) (slices n data)))"
  shows "length cs = slice_count n (length data)" and "chunks_ok (int n) 0 0 cs"
    and "list_all2 chunk_yields cs (slices n data)"
    and "map b_length cs = map (int \<circ> length) (slices n data)"
    and "map b_residual_count cs = map b_residual_count (bc_chunks c)"
    and "\<forall>x \<in> set cs. chunk_transform x \<in> set TRANSFORM_ORDER"
proof -
  let ?m = "slice_count n (length data)"
  note lay = container_holds_layout [OF assms(1)]
  have ok: "container_ok c" and all: "list_all2 chunk_yields (bc_chunks c) (slices n data)" and sz: "bc_chunk_size c = int n"
    using assms(1) by (simp_all add: container_holds_def)
  show len: "length cs = ?m" using lay(2) by (simp add: cs_def)
  have nth: "cs ! k = wire_chunk (int n) k (bc_chunks c ! k) (slices n data ! k)" if "k < ?m" for k
    using that lay(2) by (simp add: cs_def nth_enumerate_eq del: enumerate_eq_zip)
  have cok: "chunk_ok (cs ! k) (int k) (int k * int n) (int n)" if "k < ?m" for k
    unfolding nth [OF that] using container_ok_chunk [OF ok, of k] that lay(2) sz by (intro wire_chunk_ok) simp
  show "list_all2 chunk_yields cs (slices n data)"
    using wire_chunk_yields nth len list_all2_nthD [OF all] lay(2) by (simp add: list_all2_conv_all_nth)
  show lens: "map b_length cs = map (int \<circ> length) (slices n data)"
  proof (rule nth_equalityI)
    fix k assume "k < length (map b_length cs)"
    then have "k < ?m" using len by simp
    then show "map b_length cs ! k = map (int \<circ> length) (slices n data) ! k"
      using nth [of k] lay(5) [of k] len by (simp add: wire_chunk_def)
  qed (use len in simp)
  show "map b_residual_count cs = map b_residual_count (bc_chunks c)"
  proof (rule nth_equalityI)
    fix k assume "k < length (map b_residual_count cs)"
    then have "k < ?m" using len by simp
    then show "map b_residual_count cs ! k = map b_residual_count (bc_chunks c) ! k"
      using nth [of k] container_ok_chunk [OF ok, of k] len lay(2) by (simp add: wire_chunk_def chunk_ok_def)
  qed (use len lay(2) in simp)
  show "chunks_ok (int n) 0 0 cs"
  proof (rule chunks_okI)
    fix k assume "k < length cs"
    then have k: "k < ?m" using len by simp
    have "sum_list (map b_length (take k cs)) = int (sum_list (map length (take k (slices n data))))"
      using arg_cong [OF lens, of "take k"] by (simp add: take_map sum_list_int comp_def)
    then show "chunk_ok (cs ! k) (int (0 + k)) (0 + sum_list (map b_length (take k cs))) (int n)"
      using cok [OF k] slices_prefix_length(1) [OF lay(1) k] by simp
  qed
  show "\<forall>x \<in> set cs. chunk_transform x \<in> set TRANSFORM_ORDER"
    using cok len by (metis chunk_ok_def in_set_conv_nth)
qed

lemma decoded_container_holds:
  assumes "container_holds c n data" and "int n \<in> set CANDIDATE_CHUNK_SIZES"
    and "cs = map (\<lambda>(k, c, part). wire_chunk (int n) k c part) (enumerate 0 (zip (bc_chunks c) (slices n data)))"
    and "h_chunk_size h = int n" "h_chunk_count h = int (slice_count n (length data))"
    and "h_total_residual_count h = bc_total_residual_count c" "h_whole_sha256 h = hexdigest data"
    and "sum_list (map snd counts) = int (length cs)"
  shows "container_holds (decoded_container h cs counts) n data"
proof -
  note w = wire_chunks_hold [OF assms(1,2), folded assms(3)]
  have ok: "container_ok c" using assms(1) by (simp add: container_holds_def)
  have "bc_total_residual_count c = sum_list (map b_residual_count cs)" using ok w(5) by (simp add: container_ok_def)
  moreover have "metadata_ok (decoded_container h cs counts)"
    using assms(4,5,8) container_holds_layout(1) [OF assms(1)] w(1)
    by (simp add: metadata_ok_def decoded_container_def list_all_iff)
  ultimately show ?thesis
    using w(1-4) assms(4-7) container_holds_layout(1) [OF assms(1)]
    by (simp add: container_holds_def container_ok_def decoded_container_def)
qed

text \<open>The bytes the encoder writes for a container that holds \<open>data\<close>, and the header in front of them.\<close>

lemma encode_holds:
  assumes "container_holds c n data" and "int n \<in> set CANDIDATE_CHUNK_SIZES"
    and "length data < 2 ^ 70" and "schema_complete iter_errors"
  obtains bs F D R where "encode_bogpk_container iter_errors c = Inr bs"
    and "read_header bs = Inr (\<lparr>h_flags = F, h_chunk_size = int n, h_original_length = int (length data),
           h_chunk_count = int (slice_count n (length data)),
           h_total_residual_count = bc_total_residual_count c, h_whole_sha256 = hexdigest data\<rparr>, D @ R)"
    and "reads_residuals R (bc_chunks c)"
    and "decode_descriptors F (int (slice_count n (length data))) (D @ R) [] = Inr (map chunk_descriptor (bc_chunks c), R)"
proof -
  let ?m = "slice_count n (length data)" and ?cs = "bc_chunks c"
  note lay = container_holds_layout [OF assms(1)]
  have ok: "container_ok c" and sz: "bc_chunk_size c = int n" and sha: "bc_whole_sha256 c = hexdigest data"
    using assms(1) by (simp_all add: container_holds_def)
  have n128: "n \<le> 128" using assms(2) by (auto simp: CANDIDATE_CHUNK_SIZES_def)
  obtain code where code: "list_index (int n) CANDIDATE_CHUNK_SIZES = Some code" using list_index_ex [OF assms(2)] by blast
  have small: "int ?m < 2 ^ 70" "int (length data) < 2 ^ 70"
    using slice_count_le [OF lay(1), of "length data"] assms(3) by simp_all
  have "0 \<le> bc_total_residual_count c" using ok chunks_ok_counts by (auto simp: container_ok_def)
  then have v: "varuint_valid (container_length c)" "varuint_valid (bc_chunk_count c)" "varuint_valid (bc_total_residual_count c)"
    using small lay(3,4,6) by (simp_all add: varuint_valid_def)
  obtain A B C where ABC: "encode_varuint (container_length c) = Inr A" "encode_varuint (bc_chunk_count c) = Inr B"
      "encode_varuint (bc_total_residual_count c) = Inr C"
    using varuint.enc_total [OF v(1)] varuint.enc_total [OF v(2)] varuint.enc_total [OF v(3)] by blast
  have "\<forall>x \<in> set ?cs. packable x" using container_holds_packable [OF assms(1) n128] by blast
  then obtain F D R where enc: "encode_chunks ?cs 0 [] [] = Inr (F, D, R)"
      "F = 0 \<or> F = BOGPK_FLAG_ZERO_RESIDUAL_RUNS" "reads_residuals R ?cs"
      "\<And>cnt rest. int (length ?cs) \<le> cnt \<Longrightarrow>
         decode_descriptors F cnt (D @ rest) [] = decode_descriptors F cnt rest (map chunk_descriptor ?cs)"
    using encode_chunks_decodes [of ?cs 0 "[]" "[]"] small lay(2) by auto
  let ?bs = "BOGPK_MAGIC @ [BOGPK_VERSION] @ [F] @ [word_of_nat code] @ A @ B @ C @ sha256 data @ D @ R"
  show thesis
  proof (rule that [of ?bs F D R])
    have "validate_bog_container c = Inr ()" using ok by (simp add: validate_bog_container_iff)
    then show "encode_bogpk_container iter_errors c = Inr ?bs"
      using validate_schema_ok [OF assms(4) ok] code by (simp add: encode_bogpk_container_def sz enc(1) ABC sha)
    show "read_header ?bs = Inr (\<lparr>h_flags = F, h_chunk_size = int n, h_original_length = int (length data),
           h_chunk_count = int ?m, h_total_residual_count = bc_total_residual_count c,
           h_whole_sha256 = hexdigest data\<rparr>, D @ R)"
      using header_written [OF code enc(2) v ABC, of "sha256 data" "D @ R"] lay(3,4) by (simp add: hexdigest_def)
    show "decode_descriptors F (int ?m) (D @ R) [] = Inr (map chunk_descriptor ?cs, R)"
    proof -
      have "decode_descriptors F (int ?m) R (map chunk_descriptor ?cs) = Inr (map chunk_descriptor ?cs, R)"
        using lay(2) by (subst decode_descriptors.simps) simp
      then show ?thesis using enc(4) [of "int ?m" R] lay(2) by simp
    qed
  qed (rule enc(3))
qed

text \<open>What the decoder makes of the chunks of such a container.\<close>

lemma decode_chunks_holds:
  assumes "container_holds c n data" and "int n \<in> set CANDIDATE_CHUNK_SIZES" and "reads_residuals R (bc_chunks c)"
  obtains wcs counts where
    "decode_chunks (int (slice_count n (length data))) (int n) (int (length data)) R
       (enumerate 0 (map chunk_descriptor (bc_chunks c))) = Inr (wcs, slices n data, [])"
    and "sum_list (map (\<lambda>chunk. int (length (b_residuals chunk))) wcs) = bc_total_residual_count c"
    and "fold_res count_transform zero_transform_counts (map chunk_transform wcs) = Inr counts"
    and "\<And>h. h_chunk_size h = int n \<Longrightarrow> h_chunk_count h = int (slice_count n (length data)) \<Longrightarrow>
           h_total_residual_count h = bc_total_residual_count c \<Longrightarrow> h_whole_sha256 h = hexdigest data \<Longrightarrow>
           container_holds (decoded_container h wcs counts) n data"
proof -
  let ?m = "slice_count n (length data)" and ?cs = "bc_chunks c"
  let ?wcs = "map (\<lambda>(k, c, part). wire_chunk (int n) k c part) (enumerate 0 (zip ?cs (slices n data)))"
  note lay = container_holds_layout [OF assms(1)] and w = wire_chunks_hold [OF assms(1,2)]
  have ok: "container_ok c" and all: "list_all2 chunk_yields ?cs (slices n data)" and sz: "bc_chunk_size c = int n"
    using assms(1) by (simp_all add: container_holds_def)
  have "decode_chunks (int ?m) (int n) (int (length data)) (R @ []) (enumerate 0 (map chunk_descriptor ?cs)) =
      Inr (?wcs, slices n data, [])"
  proof (rule decode_chunks_written [OF assms(3) all])
    fix k assume k: "k < length ?cs"
    show "\<exists>j off. chunk_ok (?cs ! k) j off (int n)" using container_ok_chunk [OF ok k] sz by auto
    show "decoded_chunk_length (int (0 + k)) (int ?m) (int n) (int (length data)) = Inr (b_length (?cs ! k))"
      using decoded_chunk_length_slices [OF lay(1)] lay(2,5) k by simp
  qed
  moreover have "map (\<lambda>chunk. int (length (b_residuals chunk))) ?wcs = map b_residual_count ?wcs"
    by (auto simp: wire_chunk_def)
  then have "sum_list (map (\<lambda>chunk. int (length (b_residuals chunk))) ?wcs) = bc_total_residual_count c"
    using w(5) ok unfolding container_ok_def by metis
  moreover have "set (map chunk_transform ?wcs) \<subseteq> fst ` set zero_transform_counts"
    using w(6) by (auto simp: zero_transform_counts_def image_image)
  then obtain counts where counts: "fold_res count_transform zero_transform_counts (map chunk_transform ?wcs) = Inr counts"
      "sum_list (map snd counts) = int (length ?wcs)"
    using count_transforms_total [of "map chunk_transform ?wcs" zero_transform_counts]
    by (auto simp: zero_transform_counts_def TRANSFORM_ORDER_def)
  ultimately show thesis
    using decoded_container_holds [OF assms(1,2) refl _ _ _ _ counts(2)] by (intro that [of ?wcs counts]) simp_all
qed

lemma encode_decode_holds:
  assumes "container_holds c n data" and "int n \<in> set CANDIDATE_CHUNK_SIZES"
    and "length data < 2 ^ 70" and "schema_complete iter_errors"
  shows "\<exists>bs c'. encode_bogpk_container iter_errors c = Inr bs \<and>
           decode_bogpk_container iter_errors bs = Inr c' \<and> container_holds c' n data"
proof -
  let ?m = "slice_count n (length data)"
  note lay = container_holds_layout [OF assms(1)]
  obtain bs F D R where enc: "encode_bogpk_container iter_errors c = Inr bs"
    "read_header bs = Inr (\<lparr>h_flags = F, h_chunk_size = int n, h_original_length = int (length data),
           h_chunk_count = int ?m, h_total_residual_count = bc_total_residual_count c,
           h_whole_sha256 = hexdigest data\<rparr>, D @ R)" (is "_ = Inr (?h, _)")
    "reads_residuals R (bc_chunks c)"
    "decode_descriptors F (int ?m) (D @ R) [] = Inr (map chunk_descriptor (bc_chunks c), R)"
    by (rule encode_holds [OF assms])
  have chk: "check_header ?h = Inr ()"
  proof -
    have eq: "(int (length data) + int n - 1) div int n = int ?m"
      using lay(1) by (simp add: slice_count_def zdiv_int of_nat_diff)
    have "data \<noteq> [] \<Longrightarrow> 0 < ?m" using slice_count_pos [OF lay(1), of "length data"] by simp
    then show ?thesis using lay(1,6) by (cases "data = []") (simp_all add: check_header_def Let_def eq)
  qed
  obtain wcs counts where dec:
    "decode_chunks (int ?m) (int n) (int (length data)) R (enumerate 0 (map chunk_descriptor (bc_chunks c))) =
       Inr (wcs, slices n data, [])"
    "sum_list (map (\<lambda>chunk. int (length (b_residuals chunk))) wcs) = bc_total_residual_count c"
    "fold_res count_transform zero_transform_counts (map chunk_transform wcs) = Inr counts"
    and holds: "container_holds (decoded_container ?h wcs counts) n data"
    by (rule decode_chunks_holds [OF assms(1,2) enc(3)]) simp
  then have ok': "container_ok (decoded_container ?h wcs counts)" by (simp add: container_holds_def)
  then have "validate_bog_container (decoded_container ?h wcs counts) = Inr ()"
    by (simp add: validate_bog_container_iff)
  then have "decode_bogpk_container iter_errors bs = Inr (decoded_container ?h wcs counts)"
    unfolding decode_bogpk_container_def enc(2) rbind_simps prod.case chk
    using enc(4) dec validate_schema_ok [OF assms(4) ok'] concat_slices [OF lay(1), of data]
    by (simp add: remaining_def)
  then show ?thesis using enc(1) holds by blast
qed

section \<open>What the decoder accepts\<close>

lemma decode_chunk_yields:
  assumes "decode_chunk cnt sz orig_len r x = Inr (chunk, part, r')" and "chunk_ok chunk i off sz'"
  shows "chunk_yields chunk part"
proof -
  obtain k d where x: "x = (k, d)" by (cases x)
  from assms(1) obtain len res t where
    t: "synthesize_residual_chunk (d_basis d) (d_start_byte d) (d_delta d) len res = Inr t"
    and inv: "wrap_value_error (invert_transform (d_transform d) t (d_transform_param d))
             ''BOGPK transform inversion failed: '' = Inr part"
    and chunk: "b_basis chunk = d_basis d" "b_start_byte chunk = d_start_byte d" "chunk_delta chunk = d_delta d"
      "b_length chunk = len" "b_residuals chunk = res" "chunk_transform chunk = d_transform d"
      "chunk_transform_param chunk = d_transform_param d" "b_chunk_sha256 chunk = hexdigest t"
      "get_or (b_transformed_sha256 chunk) (hexdigest t) = hexdigest t"
      "get_or (b_original_chunk_sha256 chunk) (hexdigest t) = hexdigest part"
    by (auto simp: decode_chunk_def x rbind_Inr_iff chunk_delta_def chunk_transform_def chunk_transform_param_def)
  have "invert_transform (d_transform d) t (d_transform_param d) = Inr part"
    using inv by (auto simp: wrap_value_error_def split: sum.splits exn.splits)
  moreover have "chunk_transformed chunk = t"
    using synthesize_residual_chunk_ok(1) [OF assms(2)] t chunk(1-5) by simp
  ultimately show ?thesis unfolding chunk_yields_def chunk by simp
qed

lemma decode_chunks_yield:
  assumes "decode_chunks cnt sz orig_len r ds = Inr (chunks, parts, r')"
    and "\<forall>chunk \<in> set chunks. \<exists>i off sz'. chunk_ok chunk i off sz'"
  shows "list_all2 chunk_yields chunks parts"
  using assms
proof (induction ds arbitrary: r chunks parts)
  case (Cons d ds)
  from Cons.prems(1) obtain ch p r1 chs ps where d: "decode_chunk cnt sz orig_len r d = Inr (ch, p, r1)"
    and ds: "decode_chunks cnt sz orig_len r1 ds = Inr (chs, ps, r')"
    and eq: "chunks = ch # chs" "parts = p # ps"
    by (auto simp: rbind_Inr_iff)
  have "list_all2 chunk_yields chs ps" by (rule Cons.IH [OF ds]) (use Cons.prems(2) eq in simp)
  moreover have "chunk_yields ch p" using decode_chunk_yields [OF d] Cons.prems(2) eq by auto
  ultimately show ?case using eq by simp
qed simp

text \<open>Where a header that was read lies in the input: every field in its place, the digest as the 32 bytes
  before the descriptors.\<close>

lemma read_header_layout:
  assumes "read_header bs = Inr (h, r)"
  obtains code A B C digest where
    "bs = BOGPK_MAGIC @ [BOGPK_VERSION, h_flags h, code] @ A @ B @ C @ digest @ r"
    and "encode_varuint (h_original_length h) = Inr A" and "encode_varuint (h_chunk_count h) = Inr B"
    and "encode_varuint (h_total_residual_count h) = Inr C"
    and "length digest = 32" and "h_whole_sha256 h = bytes_hex digest"
    and "unat code < length CANDIDATE_CHUNK_SIZES" and "h_chunk_size h = CANDIDATE_CHUNK_SIZES ! unat code"
proof -
  obtain magic r1 version r2 r3 code r4 r5 r6 r7 digest where
    "read_bytes bs (length BOGPK_MAGIC) = Inr (magic, r1)" "magic = BOGPK_MAGIC"
    "read_byte r1 = Inr (version, r2)" "version = BOGPK_VERSION" "read_byte r2 = Inr (h_flags h, r3)"
    "read_byte r3 = Inr (code, r4)" and code: "unat code < length CANDIDATE_CHUNK_SIZES"
    and v: "decode_varuint r4 = Inr (h_original_length h, r5)" "decode_varuint r5 = Inr (h_chunk_count h, r6)"
      "decode_varuint r6 = Inr (h_total_residual_count h, r7)"
    and d: "read_bytes r7 32 = Inr (digest, r)" "h_whole_sha256 h = bytes_hex digest"
    and sz: "h_chunk_size h = CANDIDATE_CHUNK_SIZES ! unat code"
    using assms unfolding read_header_def
    by (auto simp: rbind_Inr_iff simp del: bytes_hex_simps split: if_splits prod.splits)
  then have bs: "bs = BOGPK_MAGIC @ [BOGPK_VERSION, h_flags h, code] @ r4"
    by (auto simp: read_bytes_def read_byte_def split: if_splits list.splits) (metis append_take_drop_id)
  obtain A B C where "encode_varuint (h_original_length h) = Inr A" "r4 = A @ r5"
      "encode_varuint (h_chunk_count h) = Inr B" "r5 = B @ r6"
      "encode_varuint (h_total_residual_count h) = Inr C" "r6 = C @ r7"
    using varuint.enc_dec [OF v(1)] varuint.enc_dec [OF v(2)] varuint.enc_dec [OF v(3)] by blast
  moreover have "r7 = digest @ r" "length digest = 32" using d(1) by (auto simp: read_bytes_def split: if_splits)
  ultimately show thesis using bs code sz d(2) by (intro that) simp_all
qed

lemma decode_sound:
  assumes "decode_bogpk_container iter_errors bs = Inr c"
  obtains data flags code A B C rest where "reconstruct_bog_container_bytes c = Inr data" and "container_ok c"
    and "hexdigest data = bc_whole_sha256 c"
    and "bs = BOGPK_MAGIC @ [BOGPK_VERSION, flags, code] @ A @ B @ C @ sha256 data @ rest"
    and "encode_varuint (int (length data)) = Inr A" and "encode_varuint (bc_chunk_count c) = Inr B"
    and "encode_varuint (bc_total_residual_count c) = Inr C"
    and "unat code < length CANDIDATE_CHUNK_SIZES" and "bc_chunk_size c = CANDIDATE_CHUNK_SIZES ! unat code"
proof -
  from assms obtain h r1 r2 r3 ds chunks parts counts where header: "read_header bs = Inr (h, r1)"
    and chunks: "decode_chunks (h_chunk_count h) (h_chunk_size h) (h_original_length h) r2 (enumerate 0 ds) =
        Inr (chunks, parts, r3)"
    and len: "int (length (concat parts)) = h_original_length h"
    and hash: "hexdigest (concat parts) = h_whole_sha256 h"
    and c: "c = decoded_container h chunks counts" and valid: "validate_bog_container c = Inr ()"
    unfolding decode_bogpk_container_def Let_def
    by (auto simp: rbind_Inr_iff simp del: hexdigest_eq_iff length_concat split: if_splits)
  have ok: "container_ok c" using valid by (simp add: validate_bog_container_iff)
  have sel: "bc_chunks c = chunks" "bc_whole_sha256 c = h_whole_sha256 h" "bc_chunk_count c = h_chunk_count h"
      "bc_total_residual_count c = h_total_residual_count h" "bc_chunk_size c = h_chunk_size h"
    by (simp_all add: c decoded_container_def)
  have "\<forall>chunk \<in> set chunks. \<exists>i off sz. chunk_ok chunk i off sz"
    using container_ok_chunk [OF ok] sel(1) by (metis in_set_conv_nth)
  then have "list_all2 chunk_yields chunks parts" by (rule decode_chunks_yield [OF chunks])
  then have data: "reconstruct_bog_container_bytes c = Inr (concat parts)"
    unfolding reconstruct_iff sel using ok hash by blast
  show thesis
  proof (rule read_header_layout [OF header])
    fix code A B C digest
    assume lay: "bs = BOGPK_MAGIC @ [BOGPK_VERSION, h_flags h, code] @ A @ B @ C @ digest @ r1"
      "h_whole_sha256 h = bytes_hex digest" "unat code < length CANDIDATE_CHUNK_SIZES" "h_chunk_size h = CANDIDATE_CHUNK_SIZES ! unat code"
      and enc: "encode_varuint (h_original_length h) = Inr A" "encode_varuint (h_chunk_count h) = Inr B"
      "encode_varuint (h_total_residual_count h) = Inr C"
    have "digest = sha256 (concat parts)" using hash lay(2) by (simp add: hexdigest_def)
    then show thesis
      using lay(1,3,4) enc hash by (intro that [OF data ok, of "h_flags h" code A B C r1]) (simp_all add: sel len)
  qed
qed

end
