(* ===== verification/Json.thy ===== *)
theory Json
  imports Hashlib Py_Text
begin

text \<open>
  The part of Python's \<open>json\<close> module that the sources use: \<open>json.dumps(obj, sort_keys=True,
  separators=(",", ":"))\<close> and \<open>json.loads\<close>, for text with code points below 256.

  A dictionary is a list of pairs; the writer sorts it by key. Dictionaries with integer keys are
  sorted as integers and written with the keys as strings, as Python does. A number with a fraction
  or an exponent is kept as its text.
\<close>

datatype json =
    JNull
  | JBool bool
  | JInt int
  | JFloat string
  | JStr string
  | JList "json list"
  | JObj "(string \<times> json) list"
  | JIntObj "(int \<times> json) list"

definition quote :: char where
  "quote = CHR 0x22"

definition backslash :: char where
  "backslash = CHR 0x5C"

section \<open>Writing\<close>

definition escape_char :: "char \<Rightarrow> string" where
  "escape_char c = (let n = (of_char c :: nat) in
     if n = 34 \<or> n = 92 then [backslash, c]
     else if n = 10 then [backslash, CHR ''n'']
     else if n = 13 then [backslash, CHR ''r'']
     else if n = 9 then [backslash, CHR ''t'']
     else if n = 12 then [backslash, CHR ''f'']
     else if n = 8 then [backslash, CHR ''b'']
     else if 32 \<le> n \<and> n \<le> 126 then [c]
     else [backslash, CHR ''u'', CHR ''0'', CHR ''0'', hex_digit (n div 16), hex_digit (n mod 16)])"

definition json_string :: "string \<Rightarrow> string" where
  "json_string s = [quote] @ concat (map escape_char s) @ [quote]"

fun join_comma :: "string list \<Rightarrow> string" where
  "join_comma [] = ''''"
| "join_comma [s] = s"
| "join_comma (s # t # ss) = s @ '','' @ join_comma (t # ss)"

definition dumps_members :: "(string \<times> string) list \<Rightarrow> string" where
  "dumps_members members = ''{'' @ join_comma (map (\<lambda>(k, s). json_string k @ '':'' @ s) members) @ ''}''"

fun dumps :: "json \<Rightarrow> string" where
  "dumps JNull = ''null''"
| "dumps (JBool b) = (if b then ''true'' else ''false'')"
| "dumps (JInt i) = str_int i"
| "dumps (JFloat s) = s"
| "dumps (JStr s) = json_string s"
| "dumps (JList js) = ''['' @ join_comma (map dumps js) @ '']''"
| "dumps (JObj kvs) = dumps_members (sort_key fst (map (\<lambda>(k, v). (k, dumps v)) kvs))"
| "dumps (JIntObj kvs) =
     dumps_members (map (\<lambda>(k, s). (str_int k, s)) (sort_key fst (map (\<lambda>(k, v). (k, dumps v)) kvs)))"

text \<open>\<open>canonical_hash\<close> of \<^verbatim>\<open>src/bogvm/vm.py\<close>: the digest of the canonical text.\<close>

definition canonical_hash :: "json \<Rightarrow> string" where
  "canonical_hash obj = hexdigest (utf8 (dumps obj))"

section \<open>Reading\<close>

definition json_error :: "'a res" where
  "json_error = Inl (JSONDecodeError ''invalid JSON'')"

definition is_json_space :: "char \<Rightarrow> bool" where
  "is_json_space c \<longleftrightarrow> of_char c \<in> {9, 10, 13, 32 :: nat}"

definition skip_space :: "string \<Rightarrow> string" where
  "skip_space s = dropWhile is_json_space s"

definition unescape_char :: "char \<Rightarrow> char option" where
  "unescape_char e = (if e = quote \<or> e = backslash \<or> e = CHR ''/'' then Some e
     else if e = CHR ''n'' then Some (char_of (10 :: nat))
     else if e = CHR ''r'' then Some (char_of (13 :: nat))
     else if e = CHR ''t'' then Some (char_of (9 :: nat))
     else if e = CHR ''f'' then Some (char_of (12 :: nat))
     else if e = CHR ''b'' then Some (char_of (8 :: nat))
     else None)"

fun hex4 :: "char \<Rightarrow> char \<Rightarrow> char \<Rightarrow> char \<Rightarrow> nat option" where
  "hex4 a b c d = (case (hex_value a, hex_value b, hex_value c, hex_value d) of
     (Some h1, Some h2, Some h3, Some h4) \<Rightarrow> Some (4096 * h1 + 256 * h2 + 16 * h3 + h4)
   | _ \<Rightarrow> None)"

fun parse_string :: "string \<Rightarrow> string \<Rightarrow> (string \<times> string) res" where
  "parse_string acc [] = json_error"
| "parse_string acc (c # cs) =
    (if c = quote then Inr (rev acc, cs)
     else if c = backslash then
       (case cs of
          [] \<Rightarrow> json_error
        | e # ds \<Rightarrow>
            if e = CHR ''u'' then
              (case ds of
                 h1 # h2 # h3 # h4 # rest \<Rightarrow>
                   (case hex4 h1 h2 h3 h4 of
                      Some n \<Rightarrow> if n < 256 then parse_string (char_of n # acc) rest else json_error
                    | None \<Rightarrow> json_error)
               | _ \<Rightarrow> json_error)
            else (case unescape_char e of Some d \<Rightarrow> parse_string (d # acc) ds | None \<Rightarrow> json_error))
     else if (of_char c :: nat) < 32 then json_error
     else parse_string (c # acc) cs)"

text \<open>Numbers: an optional minus sign, an integer part without leading zeros, a fraction, an exponent.\<close>

definition int_part :: "string \<Rightarrow> string \<times> string" where
  "int_part s = (case s of
     c # cs \<Rightarrow> if c = CHR ''0'' then ([c], cs) else (takeWhile is_digit s, dropWhile is_digit s)
   | [] \<Rightarrow> ([], []))"

definition frac_part :: "string \<Rightarrow> string \<times> string" where
  "frac_part s = (case s of
     c # cs \<Rightarrow> if c = CHR ''.'' \<and> takeWhile is_digit cs \<noteq> [] then (c # takeWhile is_digit cs, dropWhile is_digit cs)
                else ([], s)
   | [] \<Rightarrow> ([], []))"

definition exp_part :: "string \<Rightarrow> string \<times> string" where
  "exp_part s = (case s of
     c # cs \<Rightarrow>
       if c = CHR ''e'' \<or> c = CHR ''E'' then
         (let (sign, ds) = (case cs of d # rest \<Rightarrow> if d = CHR ''+'' \<or> d = CHR ''-'' then ([d], rest) else ([], cs) | [] \<Rightarrow> ([], []))
          in if takeWhile is_digit ds \<noteq> [] then (c # sign @ takeWhile is_digit ds, dropWhile is_digit ds) else ([], s))
       else ([], s)
   | [] \<Rightarrow> ([], []))"

definition parse_number :: "string \<Rightarrow> (json \<times> string) res" where
  "parse_number s =
    (let (neg, t) = (case s of c # cs \<Rightarrow> if c = CHR ''-'' then (True, cs) else (False, s) | [] \<Rightarrow> (False, []));
         (digits, r1) = int_part t
     in if digits = [] then json_error
        else
          let (frac, r2) = frac_part r1; (ex, r3) = exp_part r2; n = int (nat_of_digits 0 digits) in
          if frac = [] \<and> ex = [] then Inr (JInt (if neg then - n else n), r3)
          else Inr (JFloat ((if neg then ''-'' else '''') @ digits @ frac @ ex), r3))"

definition expect :: "string \<Rightarrow> json \<Rightarrow> string \<Rightarrow> (json \<times> string) res" where
  "expect lit v s = (if take (length lit) s = lit then Inr (v, drop (length lit) s) else json_error)"

text \<open>
  Values by recursive descent. The first argument bounds the nesting and the number of members still
  to read; \<open>loads\<close> starts with twice the length of the text and one more, which is always enough.
\<close>

fun parse_value :: "nat \<Rightarrow> string \<Rightarrow> (json \<times> string) res"
  and parse_elements :: "nat \<Rightarrow> string \<Rightarrow> (json list \<times> string) res"
  and parse_members :: "nat \<Rightarrow> string \<Rightarrow> ((string \<times> json) list \<times> string) res" where
  "parse_value 0 s = json_error"
| "parse_value (Suc n) s =
    (case s of
       [] \<Rightarrow> json_error
     | c # cs \<Rightarrow>
         if c = quote then rbind (parse_string [] cs) (\<lambda>(str, r). Inr (JStr str, r))
         else if c = CHR ''{'' then
           (case skip_space cs of
              d # ds \<Rightarrow> if d = CHR ''}'' then Inr (JObj [], ds)
                        else rbind (parse_members n (d # ds)) (\<lambda>(kvs, r).
                          Inr (JObj (foldl (\<lambda>d (k, v). AList.update k v d) [] kvs), r))
            | [] \<Rightarrow> json_error)
         else if c = CHR ''['' then
           (case skip_space cs of
              d # ds \<Rightarrow> if d = CHR '']'' then Inr (JList [], ds)
                        else rbind (parse_elements n (d # ds)) (\<lambda>(js, r). Inr (JList js, r))
            | [] \<Rightarrow> json_error)
         else if c = CHR ''n'' then expect ''null'' JNull s
         else if c = CHR ''t'' then expect ''true'' (JBool True) s
         else if c = CHR ''f'' then expect ''false'' (JBool False) s
         else if c = CHR ''N'' then expect ''NaN'' (JFloat ''NaN'') s
         else if c = CHR ''I'' then expect ''Infinity'' (JFloat ''Infinity'') s
         else if take 2 s = ''-I'' then expect ''-Infinity'' (JFloat ''-Infinity'') s
         else parse_number s)"
| "parse_elements 0 s = json_error"
| "parse_elements (Suc n) s =
    rbind (parse_value n (skip_space s)) (\<lambda>(j, r).
    case skip_space r of
      c # cs \<Rightarrow>
        if c = CHR '','' then rbind (parse_elements n cs) (\<lambda>(js, r'). Inr (j # js, r'))
        else if c = CHR '']'' then Inr ([j], cs)
        else json_error
    | [] \<Rightarrow> json_error)"
| "parse_members 0 s = json_error"
| "parse_members (Suc n) s =
    (case skip_space s of
       q # cs \<Rightarrow>
         if q \<noteq> quote then json_error
         else rbind (parse_string [] cs) (\<lambda>(k, r).
           case skip_space r of
             c # ds \<Rightarrow>
               if c \<noteq> CHR '':'' then json_error
               else rbind (parse_value n (skip_space ds)) (\<lambda>(v, r2).
                 case skip_space r2 of
                   e # es \<Rightarrow>
                     if e = CHR '','' then rbind (parse_members n es) (\<lambda>(kvs, r'). Inr ((k, v) # kvs, r'))
                     else if e = CHR ''}'' then Inr ([(k, v)], es)
                     else json_error
                 | [] \<Rightarrow> json_error)
           | [] \<Rightarrow> json_error)
     | [] \<Rightarrow> json_error)"

definition loads :: "string \<Rightarrow> json res" where
  "loads s =
    rbind (parse_value (2 * length s + 1) (skip_space s)) (\<lambda>(j, r).
    if skip_space r = [] then Inr j else json_error)"

section \<open>Reading back what was written\<close>

text \<open>The value the reader returns for a written value: objects in the order of their keys.\<close>

fun canon :: "json \<Rightarrow> json" where
  "canon (JList js) = JList (map canon js)"
| "canon (JObj kvs) = JObj (sort_key fst (map (\<lambda>(k, v). (k, canon v)) kvs))"
| "canon (JIntObj kvs) = JObj (map (\<lambda>(k, v). (str_int k, v)) (sort_key fst (map (\<lambda>(k, v). (k, canon v)) kvs)))"
| "canon j = j"

text \<open>Values without floats, in which no object has a key twice.\<close>

fun json_ok :: "json \<Rightarrow> bool" where
  "json_ok (JFloat s) = False"
| "json_ok (JList js) = (\<forall>j \<in> set js. json_ok j)"
| "json_ok (JObj kvs) = (distinct (map fst kvs) \<and> (\<forall>(k, v) \<in> set kvs. json_ok v))"
| "json_ok (JIntObj kvs) = (distinct (map fst kvs) \<and> (\<forall>(k, v) \<in> set kvs. json_ok v))"
| "json_ok j = True"

lemma char_of_literals:
  "char_of (34 :: nat) = CHR 0x22" "char_of (92 :: nat) = CHR 0x5C" "char_of (48 :: nat) = CHR ''0''"
  "char_of (10 :: nat) = CHR 0x0A" "char_of (13 :: nat) = CHR 0x0D" "char_of (9 :: nat) = CHR 0x09"
  "char_of (12 :: nat) = CHR 0x0C" "char_of (8 :: nat) = CHR 0x08"
  by code_simp+

lemma hex4_digits: "a < 16 \<Longrightarrow> b < 16 \<Longrightarrow> hex4 (CHR ''0'') (CHR ''0'') (hex_digit a) (hex_digit b) = Some (16 * a + b)"
  by (simp add: hex_digit_cases) (simp add: hex_value_def)

lemma parse_string_escape: "parse_string acc (escape_char c @ rest) = parse_string (c # acc) rest"
proof -
  define n where "n = (of_char c :: nat)"
  have c: "c = char_of n" and n: "n < 256" by (simp_all add: n_def)
  have bq: "backslash \<noteq> quote" by (simp add: backslash_def quote_def)
  have u: "unescape_char (CHR ''u'') = None"
    by (simp add: unescape_char_def quote_def backslash_def)
  note lits = char_of_literals
  consider (esc) "n = 34 \<or> n = 92" | (ctl) "n \<in> {10, 13, 9, 12, 8}" | (plain) "32 \<le> n \<and> n \<le> 126 \<and> n \<noteq> 34 \<and> n \<noteq> 92"
    | (hex) "\<not> (32 \<le> n \<and> n \<le> 126)" "n \<notin> {10, 13, 9, 12, 8}" by fastforce
  then show ?thesis
  proof cases
    case esc
    then have "escape_char c = [backslash, c]" "c \<noteq> CHR ''u''" "unescape_char c = Some c"
      by (auto simp: escape_char_def n_def [symmetric] unescape_char_def c quote_def backslash_def lits)
    then show ?thesis using bq by simp
  next
    case ctl
    then have "\<exists>e. escape_char c = [backslash, e] \<and> e \<noteq> CHR ''u'' \<and> unescape_char e = Some c"
      by (elim insertE emptyE)
        (simp_all add: escape_char_def n_def [symmetric] unescape_char_def c quote_def backslash_def lits)
    then obtain e where "escape_char c = [backslash, e]" "e \<noteq> CHR ''u''" "unescape_char e = Some c" by blast
    then show ?thesis using bq by simp
  next
    case plain
    then have "escape_char c = [c]" by (simp add: escape_char_def n_def [symmetric])
    moreover have "c \<noteq> quote" "c \<noteq> backslash" using plain by (auto simp: n_def quote_def backslash_def)
    ultimately show ?thesis using plain by (simp add: n_def)
  next
    case hex
    then have esc: "escape_char c = [backslash, CHR ''u'', CHR ''0'', CHR ''0'', hex_digit (n div 16), hex_digit (n mod 16)]"
      by (auto simp: escape_char_def n_def [symmetric])
    have "n div 16 < 16" "n mod 16 < 16" using n by simp_all
    then have "hex4 (CHR ''0'') (CHR ''0'') (hex_digit (n div 16)) (hex_digit (n mod 16)) = Some n"
      using hex4_digits [of "n div 16" "n mod 16"] by simp
    then show ?thesis using bq n by (simp add: esc c [symmetric] del: hex4.simps)
  qed
qed

lemma parse_string_written: "parse_string acc (concat (map escape_char s) @ quote # rest) = Inr (rev acc @ s, rest)"
  by (induction s arbitrary: acc) (simp_all add: parse_string_escape)

lemma str_nat_leading: "0 < n \<Longrightarrow> hd (str_nat n) \<noteq> CHR ''0''"
proof (induction n rule: str_nat.induct)
  case (1 n)
  show ?case
  proof (cases "n < 10")
    case True
    then have "of_char (digit_char n) \<noteq> (48 :: nat)" using 1(2) of_char_digit_char [of n] by simp
    moreover have "of_char (CHR ''0'') = (48 :: nat)" by simp
    ultimately have "digit_char n \<noteq> CHR ''0''" by metis
    then show ?thesis using True by (subst str_nat.simps) simp
  next
    case False
    then have "hd (str_nat (n div 10)) \<noteq> CHR ''0''" using 1 by simp
    then show ?thesis using False by (subst str_nat.simps) simp
  qed
qed

definition delimited :: "string \<Rightarrow> bool" where
  "delimited rest \<longleftrightarrow> rest = [] \<or> (\<not> is_digit (hd rest) \<and> hd rest \<noteq> CHR ''.'' \<and> hd rest \<noteq> CHR ''e'' \<and> hd rest \<noteq> CHR ''E'')"

lemma int_part_str_nat:
  assumes "delimited rest"
  shows "int_part (str_nat n @ rest) = (str_nat n, rest)"
proof (cases "n = 0")
  case True
  have "str_nat 0 = ''0''" by (subst str_nat.simps) (simp add: digit_char_def char_of_literals)
  then show ?thesis using True by (simp add: int_part_def)
next
  case False
  then have "hd (str_nat n) \<noteq> CHR ''0''" by (simp add: str_nat_leading)
  moreover obtain c cs where c: "str_nat n = c # cs" by (cases "str_nat n") auto
  moreover have "takeWhile is_digit (str_nat n @ rest) = str_nat n" "dropWhile is_digit (str_nat n @ rest) = rest"
    using str_nat_digits [of _ n] assms by (auto simp: takeWhile_append2 dropWhile_append2 delimited_def takeWhile_eq_Nil_iff dropWhile_eq_self_iff)
  ultimately show ?thesis by (simp add: int_part_def)
qed

lemma parse_number_str_int:
  assumes "delimited rest"
  shows "parse_number (str_int i @ rest) = Inr (JInt i, rest)"
proof -
  have parts: "frac_part rest = ([], rest)" "exp_part rest = ([], rest)"
    using assms by (auto simp: frac_part_def exp_part_def delimited_def split: list.split)
  have first: "hd (str_nat n) \<noteq> CHR ''-''" for n
    using str_nat_digits [of "hd (str_nat n)" n] by (auto simp: is_digit_def)
  show ?thesis
  proof (cases "i < 0")
    case True
    then show ?thesis
      by (simp add: parse_number_def str_int_def int_part_str_nat [OF assms] parts nat_of_digits_str_nat)
  next
    case False
    obtain c cs where c: "str_nat (nat i) = c # cs" by (cases "str_nat (nat i)") auto
    have "c \<noteq> CHR ''-''" using first [of "nat i"] c by simp
    then show ?thesis
      using False int_part_str_nat [OF assms, of "nat i"] nat_of_digits_str_nat [of "nat i"]
      by (simp add: parse_number_def str_int_def parts c)
  qed
qed

lemma insort_key_map:
  assumes "\<And>y. f (g y) = f' y"
  shows "insort_key f (g x) (map g xs) = map g (insort_key f' x xs)"
  using assms by (induction xs) auto

lemma sort_key_map:
  assumes "\<And>y. f (g y) = f' y"
  shows "sort_key f (map g xs) = map g (sort_key f' xs)"
  by (induction xs) (simp_all add: insort_key_map assms)

lemma dumps_JObj: "dumps (JObj kvs) = dumps_members (map (\<lambda>(k, v). (k, dumps v)) (sort_key fst kvs))"
  by (simp add: sort_key_map [where f' = fst] case_prod_unfold)

lemma dumps_JIntObj:
  "dumps (JIntObj kvs) = dumps_members (map (\<lambda>(k, v). (str_int k, dumps v)) (sort_key fst kvs))"
  by (simp add: sort_key_map [where f' = fst] case_prod_unfold comp_def)

lemma canon_JObj: "canon (JObj kvs) = JObj (map (\<lambda>(k, v). (k, canon v)) (sort_key fst kvs))"
  by (simp add: sort_key_map [where f' = fst] case_prod_unfold)

lemma canon_JIntObj: "canon (JIntObj kvs) = JObj (map (\<lambda>(k, v). (str_int k, canon v)) (sort_key fst kvs))"
  by (simp add: sort_key_map [where f' = fst] case_prod_unfold comp_def)

text \<open>The first character of a written value tells the reader what follows.\<close>

lemma json_string_head: "json_string s = quote # concat (map escape_char s) @ [quote]"
  by (simp add: json_string_def)

lemma str_int_head:
  obtains c cs where "str_int i = c # cs" and "c = CHR ''-'' \<or> is_digit c"
    and "c = CHR ''-'' \<Longrightarrow> \<exists>d ds. cs = d # ds \<and> is_digit d"
proof (cases "i < 0")
  case True
  obtain d ds where "str_nat (nat (- i)) = d # ds" by (cases "str_nat (nat (- i))") auto
  then show thesis using True str_nat_digits [of d "nat (- i)"] by (intro that) (auto simp: str_int_def)
next
  case False
  obtain d ds where d: "str_nat (nat i) = d # ds" by (cases "str_nat (nat i)") auto
  then have "is_digit d" using str_nat_digits [of d "nat i"] by simp
  then show thesis using False d by (intro that [of d ds]) (auto simp: str_int_def is_digit_def)
qed

lemma dumps_head:
  assumes "json_ok j"
  obtains c cs where "dumps j = c # cs" and "\<not> is_json_space c" and "c \<noteq> CHR '']''" and "c \<noteq> CHR ''}''"
proof (cases j)
  case (JInt i)
  obtain c cs where c: "str_int i = c # cs" "c = CHR ''-'' \<or> is_digit c" by (rule str_int_head)
  then show thesis using JInt
    by (intro that [of c cs]) (auto simp: is_digit_def is_json_space_def)
next
  case (JObj kvs)
  then show thesis by (intro that) (auto simp: dumps_JObj dumps_members_def is_json_space_def simp del: dumps.simps)
next
  case (JIntObj kvs)
  then show thesis by (intro that) (auto simp: dumps_JIntObj dumps_members_def is_json_space_def simp del: dumps.simps)
next
  case (JStr s)
  then show thesis by (intro that) (auto simp: json_string_head quote_def is_json_space_def)
next
  case (JList js)
  then show thesis by (intro that) (auto simp: is_json_space_def)
next
  case (JBool b)
  then show thesis by (cases b) (auto intro: that simp: is_json_space_def)
next
  case JNull
  then show thesis by (intro that) (auto simp: is_json_space_def)
qed (use assms in simp)

lemma skip_space_id: "s = c # cs \<Longrightarrow> \<not> is_json_space c \<Longrightarrow> skip_space (s @ rest) = s @ rest"
  by (simp add: skip_space_def)

lemma skip_space_dumps: "json_ok j \<Longrightarrow> skip_space (dumps j @ rest) = dumps j @ rest"
  using dumps_head skip_space_id by metis

lemma skip_space_quote [simp]: "skip_space (quote # s) = quote # s"
  by (simp add: skip_space_def quote_def is_json_space_def)

lemma skip_space_punct [simp]:
  "skip_space (CHR '','' # s) = CHR '','' # s" "skip_space (CHR '']'' # s) = CHR '']'' # s"
  "skip_space (CHR ''}'' # s) = CHR ''}'' # s" "skip_space (CHR '':'' # s) = CHR '':'' # s"
  by (simp_all add: skip_space_def is_json_space_def)

lemma delimited_punct [simp]:
  "delimited (CHR '','' # s)" "delimited (CHR '']'' # s)" "delimited (CHR ''}'' # s)"
  by (simp_all add: delimited_def is_digit_def)

definition reads_back :: "json \<Rightarrow> bool" where
  "reads_back j \<longleftrightarrow> (\<forall>n rest. length (dumps j) < n \<longrightarrow> delimited rest \<longrightarrow>
     parse_value n (dumps j @ rest) = Inr (canon j, rest))"

lemma parse_elements_written:
  assumes "js \<noteq> []" and "\<forall>j \<in> set js. json_ok j \<and> reads_back j"
    and "length (join_comma (map dumps js)) + 1 < n"
  shows "parse_elements n (join_comma (map dumps js) @ CHR '']'' # rest) = Inr (map canon js, rest)"
  using assms
proof (induction js arbitrary: n)
  case (Cons j js)
  obtain m where n: "n = Suc m" using Cons.prems(3) by (cases n) auto
  have j: "json_ok j" "reads_back j" using Cons.prems(2) by auto
  show ?case
  proof (cases js)
    case Nil
    have "parse_value m (dumps j @ CHR '']'' # rest) = Inr (canon j, CHR '']'' # rest)"
      using j(2) Cons.prems(3) n Nil by (simp add: reads_back_def)
    then show ?thesis using Nil n by (simp add: skip_space_dumps [OF j(1)])
  next
    case more: (Cons k ks)
    let ?tail = "join_comma (map dumps js) @ CHR '']'' # rest"
    have eq: "join_comma (map dumps (j # js)) @ CHR '']'' # rest = dumps j @ CHR '','' # ?tail" using more by simp
    have lens: "length (dumps j) < m" "length (join_comma (map dumps js)) + 1 < m"
      using Cons.prems(3) more n by simp_all
    have "parse_value m (dumps j @ CHR '','' # ?tail) = Inr (canon j, CHR '','' # ?tail)"
      using j(2) lens(1) by (simp add: reads_back_def)
    moreover have "parse_elements m ?tail = Inr (map canon js, rest)"
      using Cons.IH [of m] Cons.prems(2) more lens(2) by simp
    ultimately show ?thesis unfolding eq n by (simp add: skip_space_dumps [OF j(1)])
  qed
qed simp

lemma parse_members_written:
  assumes "kvs \<noteq> []" and "\<forall>(k, v) \<in> set kvs. json_ok v \<and> reads_back v"
    and "length (join_comma (map (\<lambda>(k, v). json_string k @ '':'' @ dumps v) kvs)) + 1 < n"
  shows "parse_members n (join_comma (map (\<lambda>(k, v). json_string k @ '':'' @ dumps v) kvs) @ CHR ''}'' # rest) =
           Inr (map (\<lambda>(k, v). (k, canon v)) kvs, rest)"
  using assms
proof (induction kvs arbitrary: n)
  case (Cons kv kvs)
  obtain m where n: "n = Suc m" using Cons.prems(3) by (cases n) auto
  obtain k v where kv: "kv = (k, v)" by (cases kv)
  have v: "json_ok v" "reads_back v" using Cons.prems(2) kv by auto
  let ?item = "\<lambda>(k, v). json_string k @ '':'' @ dumps v"
  show ?case
  proof (cases kvs)
    case Nil
    have "parse_value m (dumps v @ CHR ''}'' # rest) = Inr (canon v, CHR ''}'' # rest)"
      using v(2) Cons.prems(3) n Nil kv by (simp add: reads_back_def json_string_head)
    then show ?thesis
      using Nil n kv parse_string_written [of "[]" k]
      by (simp add: json_string_head skip_space_dumps [OF v(1)])
  next
    case more: (Cons x xs)
    let ?tail = "join_comma (map ?item kvs) @ CHR ''}'' # rest"
    have eq: "join_comma (map ?item (kv # kvs)) @ CHR ''}'' # rest =
        quote # concat (map escape_char k) @ quote # CHR '':'' # dumps v @ CHR '','' # ?tail"
      using more kv by (simp add: json_string_head)
    have lens: "length (dumps v) < m" "length (join_comma (map ?item kvs)) + 1 < m"
      using Cons.prems(3) more n kv by (simp_all add: json_string_head)
    have "parse_value m (dumps v @ CHR '','' # ?tail) = Inr (canon v, CHR '','' # ?tail)"
      using v(2) lens(1) by (simp add: reads_back_def)
    moreover have "parse_members m ?tail = Inr (map (\<lambda>(k, v). (k, canon v)) kvs, rest)"
      using Cons.IH [of m] Cons.prems(2) more lens(2) by simp
    ultimately show ?thesis
      unfolding eq n using parse_string_written [of "[]" k] kv
      by (simp add: skip_space_dumps [OF v(1)])
  qed
qed simp

lemma parse_object_written:
  assumes "\<forall>(k, v) \<in> set kvs. json_ok v \<and> reads_back v" and "distinct (map fst kvs)"
    and "length (dumps_members (map (\<lambda>(k, v). (k, dumps v)) kvs)) < n"
  shows "parse_value n (dumps_members (map (\<lambda>(k, v). (k, dumps v)) kvs) @ rest) =
           Inr (JObj (map (\<lambda>(k, v). (k, canon v)) kvs), rest)"
proof -
  obtain m where n: "n = Suc m" using assms(3) by (cases n) auto
  let ?body = "join_comma (map (\<lambda>(k, v). json_string k @ '':'' @ dumps v) kvs)"
  have body: "dumps_members (map (\<lambda>(k, v). (k, dumps v)) kvs) = CHR ''{'' # ?body @ ''}''"
    by (simp add: dumps_members_def comp_def case_prod_unfold)
  show ?thesis
  proof (cases kvs)
    case Nil
    then show ?thesis by (simp add: n dumps_members_def quote_def)
  next
    case more: (Cons kv rest')
    obtain q where q: "?body = quote # q"
    proof -
      obtain k v where "kv = (k, v)" by (cases kv)
      then show thesis using that more by (cases rest') (simp_all add: json_string_head)
    qed
    have "parse_members m (?body @ CHR ''}'' # rest) = Inr (map (\<lambda>(k, v). (k, canon v)) kvs, rest)"
      using more assms(1,3) n body by (intro parse_members_written) auto
    moreover have "distinct (map fst (map (\<lambda>(k, v). (k, canon v)) kvs))"
      using assms(2) by (simp add: comp_def case_prod_unfold)
    then have "foldl (\<lambda>d (k, v). AList.update k v d) [] (map (\<lambda>(k, v). (k, canon v)) kvs) =
        map (\<lambda>(k, v). (k, canon v)) kvs"
      using foldl_update_distinct [of "[]" "map (\<lambda>(k, v). (k, canon v)) kvs"] by simp
    ultimately show ?thesis
      unfolding body n using q by (simp add: skip_space_quote [unfolded quote_def] quote_def)
  qed
qed

lemma parse_list_written:
  assumes "\<forall>j \<in> set js. json_ok j \<and> reads_back j" and "length (dumps (JList js)) < n"
  shows "parse_value n (dumps (JList js) @ rest) = Inr (canon (JList js), rest)"
proof -
  obtain m where n: "n = Suc m" using assms(2) by (cases n) auto
  show ?thesis
  proof (cases js)
    case Nil
    then show ?thesis by (simp add: n quote_def skip_space_def is_json_space_def)
  next
    case more: (Cons j js')
    have "json_ok j" using assms(1) more by simp
    then obtain c cs where c: "dumps j = c # cs" "\<not> is_json_space c" "c \<noteq> CHR '']''" by (rule dumps_head)
    obtain q where q: "join_comma (map dumps js) = c # q" using c(1) more by (cases js') simp_all
    have "parse_elements m (join_comma (map dumps js) @ CHR '']'' # rest) = Inr (map canon js, rest)"
      using more assms n by (intro parse_elements_written) auto
    then show ?thesis using c n q by (simp add: quote_def skip_space_def)
  qed
qed

lemma map_fst_sort_key: "map fst (sort_key fst kvs) = sort (map fst kvs)"
  using sort_key_map [of "\<lambda>x. x" fst fst kvs] by simp

lemma distinct_map_sort_key: "distinct (map fst (sort_key fst kvs)) \<longleftrightarrow> distinct (map fst kvs)"
  by (simp add: map_fst_sort_key)

lemma str_int_inj: "str_int i = str_int j \<Longrightarrow> i = j"
  using py_int_str_int by (metis sum.inject(2))

lemma distinct_map_inj: "(\<And>x y. f x = f y \<Longrightarrow> x = y) \<Longrightarrow> distinct (map f xs) \<longleftrightarrow> distinct xs"
  by (auto simp: distinct_map inj_on_def)

lemma parse_value_written: "json_ok j \<Longrightarrow> reads_back j"
proof (induction j)
  case (JInt i)
  show ?case unfolding reads_back_def
  proof (intro allI impI)
    fix n rest assume "length (dumps (JInt i)) < n" "delimited rest"
    then obtain m where n: "n = Suc m" by (cases n) auto
    obtain c cs where c: "str_int i = c # cs" "c = CHR ''-'' \<or> is_digit c"
        "c = CHR ''-'' \<Longrightarrow> \<exists>d ds. cs = d # ds \<and> is_digit d"
      by (rule str_int_head) (rule that)
    have ne: "c \<noteq> quote" "c \<noteq> CHR ''{''" "c \<noteq> CHR ''[''" "c \<noteq> CHR ''n''" "c \<noteq> CHR ''t''" "c \<noteq> CHR ''f''"
        "c \<noteq> CHR ''N''" "c \<noteq> CHR ''I''"
      using c(2) by (auto simp: is_digit_def quote_def)
    have "take 2 (c # cs @ rest) \<noteq> ''-I''"
    proof (cases "c = CHR ''-''")
      case True
      then obtain d ds where d: "cs = d # ds" "is_digit d" using c(3) by blast
      then have "d \<noteq> CHR ''I''" by (auto simp: is_digit_def)
      then show ?thesis using d by simp
    qed simp
    then show "parse_value n (dumps (JInt i) @ rest) = Inr (canon (JInt i), rest)"
      using parse_number_str_int [OF \<open>delimited rest\<close>, of i] ne by (auto simp: n c(1))
  qed
next
  case (JStr s)
  show ?case unfolding reads_back_def
  proof (intro allI impI)
    fix n rest assume "length (dumps (JStr s)) < n"
    then obtain m where n: "n = Suc m" by (cases n) auto
    show "parse_value n (dumps (JStr s) @ rest) = Inr (canon (JStr s), rest)"
      using parse_string_written [of "[]" s rest] by (simp add: n json_string_head)
  qed
next
  case (JList js)
  have "reads_back j" "json_ok j" if j: "j \<in> set js" for j
    using JList.IH [OF j] JList.prems j by (simp_all only: json_ok.simps)
  then show ?case unfolding reads_back_def by (intro allI impI parse_list_written) (simp_all add: reads_back_def)
next
  case (JObj kvs)
  have val: "json_ok v \<and> reads_back v" if kv: "(k, v) \<in> set kvs" for k v
    using JObj.IH [of "(k, v)" v] JObj.prems kv by auto
  have "\<forall>(k, v) \<in> set (sort_key fst kvs). json_ok v \<and> reads_back v"
    using val by (simp only: set_sort) blast
  moreover have "distinct (map fst (sort_key fst kvs))"
    using JObj.prems by (simp add: distinct_map_sort_key)
  ultimately show ?case
    unfolding reads_back_def dumps_JObj canon_JObj by (intro allI impI parse_object_written) (simp_all add: reads_back_def)
next
  case (JIntObj kvs)
  let ?kvs = "map (\<lambda>(k, v). (str_int k, v)) (sort_key fst kvs)"
  have val: "json_ok v \<and> reads_back v" if kv: "(k, v) \<in> set kvs" for k v
    using JIntObj.IH [of "(k, v)" v] JIntObj.prems kv by auto
  have "\<forall>(k, v) \<in> set ?kvs. json_ok v \<and> reads_back v"
    using val by (clarsimp simp only: set_map set_sort image_iff) auto
  moreover have "distinct (map fst ?kvs)"
    using JIntObj.prems distinct_map_sort_key [of kvs]
      distinct_map_inj [of str_int "map fst (sort_key fst kvs)"] str_int_inj
    by (simp add: comp_def case_prod_unfold)
  moreover have "dumps (JIntObj kvs) = dumps_members (map (\<lambda>(k, v). (k, dumps v)) ?kvs)"
      "canon (JIntObj kvs) = JObj (map (\<lambda>(k, v). (k, canon v)) ?kvs)"
    unfolding dumps_JIntObj canon_JIntObj by (simp_all add: comp_def case_prod_unfold)
  ultimately show ?case
    unfolding reads_back_def by (simp only:) (intro allI impI parse_object_written; simp add: reads_back_def)
next
  case (JBool b)
  show ?case unfolding reads_back_def
  proof (intro allI impI)
    fix n rest assume "length (dumps (JBool b)) < n"
    then obtain m where n: "n = Suc m" by (cases n) auto
    show "parse_value n (dumps (JBool b) @ rest) = Inr (canon (JBool b), rest)"
      by (cases b) (simp_all add: n expect_def quote_def)
  qed
next
  case JNull
  show ?case unfolding reads_back_def
  proof (intro allI impI)
    fix n rest assume "length (dumps JNull) < n"
    then obtain m where n: "n = Suc m" by (cases n) auto
    show "parse_value n (dumps JNull @ rest) = Inr (canon JNull, rest)"
      by (simp add: n expect_def quote_def)
  qed
qed simp

lemma loads_dumps [roundtrip]:
  assumes "json_ok j"
  shows "loads (dumps j) = Inr (canon j)"
proof -
  have "delimited []" by (simp add: delimited_def)
  then have "parse_value (2 * length (dumps j) + 1) (dumps j) = Inr (canon j, [])"
    using parse_value_written [OF assms] unfolding reads_back_def
    by (metis add.right_neutral append_Nil2 le_add1 le_imp_less_Suc mult_2 add_Suc_right One_nat_def)
  then show ?thesis using skip_space_dumps [OF assms, of "[]"] by (simp add: loads_def skip_space_def)
qed

lemma map_of_sort_key: "distinct (map fst kvs) \<Longrightarrow> map_of (sort_key fst kvs) k = map_of kvs k"
  by (metis distinct_map_sort_key map_of_inject_set set_sort)

lemma map_of_canon:
  "distinct (map fst kvs) \<Longrightarrow>
     (case canon (JObj kvs) of JObj kvs' \<Rightarrow> map_of kvs' k | _ \<Rightarrow> None) = map_option canon (map_of kvs k)"
  by (simp add: canon_JObj map_of_map map_of_sort_key del: canon.simps)

text \<open>The compact text of an object depends only on the text of its members.\<close>

lemma sort_key_set_eq:
  assumes "distinct (map f xs)" and "distinct (map f ys)" and "set xs = set ys"
  shows "sort_key f xs = sort_key f ys"
proof (rule sort_key_inj_key_eq)
  show "mset xs = mset (sort_key f ys)" using assms by (simp add: distinct_map set_eq_iff_mset_eq_distinct [symmetric])
qed (use assms(1) in \<open>simp_all add: distinct_map\<close>)

lemma dumps_members_determined:
  assumes "distinct (map fst a)" and "distinct (map fst b)"
    and "\<And>k. map_option dumps (map_of a k) = map_option dumps (map_of b k)"
  shows "dumps (JObj a) = dumps (JObj b)"
proof -
  let ?f = "map (\<lambda>(k, v). (k, dumps v))"
  have dist: "distinct (map fst (?f xs)) = distinct (map fst xs)" for xs :: "(string \<times> json) list"
    by (simp add: comp_def case_prod_unfold)
  have "map_of (?f a) = map_of (?f b)" using assms(3) by (simp add: fun_eq_iff map_of_map)
  then have same: "set (?f a) = set (?f b)" using assms(1,2) dist by (simp add: map_of_inject_set)
  have "sort_key fst (?f a) = sort_key fst (?f b)"
    by (rule sort_key_set_eq [OF _ _ same]) (simp_all only: dist assms)
  then show ?thesis by simp
qed

end
