(* ===== verification/Archive.thy ===== *)
theory Archive
  imports Bogpk_Roundtrip Json "HOL-Library.Sublist"
begin

text \<open>
  Directory archives, \<^verbatim>\<open>src/bogvm/archive.py\<close>: a directory of files becomes one BOGPK object per distinct
  content and a manifest with the digest of the whole tree; reading, restoring and verifying check every
  object against the manifest.

  A directory is the dictionary of its regular files, keyed by their path relative to it with \<open>/\<close>
  between the parts; a path of a manifest can be spelt in other ways, and what is written goes to the plain
  spelling of it. An archive directory is its object files and its parsed manifest, where \<open>None\<close>
  stands for a manifest that is missing or does not parse. The text layer of the manifest
  (\<open>json.dumps\<close> with an indent, then \<open>json.loads\<close>) is not repeated here; \<open>Store\<close>, where it is hashed, models it. The source and the archive
  directory are distinct and neither contains the other.
\<close>

type_synonym directory = "(string, bytes) pydict"

record tree_item =
  f_path :: string
  f_size :: int
  f_sha256 :: string

record file_entry = tree_item +
  f_object :: string

record archive_manifest =
  am_format :: string
  am_container_format :: string
  am_bogpk_version :: int
  am_source :: string
  am_file_count :: int
  am_files :: "file_entry list"
  am_tree_sha256 :: string

record archive =
  ar_objects :: directory
  ar_manifest :: "archive_manifest option"

definition ARCHIVE_FORMAT :: string where
  "ARCHIVE_FORMAT = ''BOGARCHIVE-2.0''"

section \<open>Paths and trees\<close>

text \<open>\<open>split("/")\<close>, and the parts of a pure POSIX path: empty and single-dot parts vanish.\<close>

fun split_slash :: "string \<Rightarrow> string \<Rightarrow> string list" where
  "split_slash acc [] = [rev acc]"
| "split_slash acc (c # cs) = (if c = CHR ''/'' then rev acc # split_slash [] cs else split_slash (c # acc) cs)"

definition path_parts :: "string \<Rightarrow> string list" where
  "path_parts p = filter (\<lambda>s. s \<noteq> [] \<and> s \<noteq> ''.'') (split_slash [] p)"

definition is_absolute :: "string \<Rightarrow> bool" where
  "is_absolute p \<longleftrightarrow> (\<exists>cs. p = CHR ''/'' # cs)"

text \<open>The path with these parts, spelt the one way in which a directory lists it.\<close>

fun join_slash :: "string list \<Rightarrow> string" where
  "join_slash [] = []"
| "join_slash [s] = s"
| "join_slash (s # t # ss) = s @ ''/'' @ join_slash (t # ss)"

definition plain_path :: "string \<Rightarrow> string" where
  "plain_path p = join_slash (path_parts p)"

definition path_contained :: "string \<Rightarrow> bool" where
  "path_contained p \<longleftrightarrow> \<not> (is_absolute p \<or> ''..'' \<in> set (path_parts p))"

text \<open>\<open>sorted(p for p in root.rglob("*") if p.is_file())\<close>: paths are compared by their parts.\<close>

definition sorted_files :: "directory \<Rightarrow> (string \<times> bytes) list" where
  "sorted_files d = sort_key (\<lambda>(p, _). path_parts p) d"

definition tree_row :: "'a tree_item_scheme \<Rightarrow> bytes" where
  "tree_row e = utf8 (f_path e) @ [0] @ utf8 (str_int (f_size e)) @ [0] @ utf8 (f_sha256 e) @ [10]"

definition tree_hash :: "'a tree_item_scheme list \<Rightarrow> string" where
  "tree_hash files = hexdigest (concat (map tree_row (sort_key f_path files)))"

definition file_item :: "string \<Rightarrow> bytes \<Rightarrow> tree_item" where
  "file_item path data = \<lparr>f_path = path, f_size = int (length data), f_sha256 = hexdigest data\<rparr>"

definition tree_hash_for_directory :: "directory \<Rightarrow> string" where
  "tree_hash_for_directory d = tree_hash (map (\<lambda>(p, data). file_item p data) (sorted_files d))"

section \<open>Building\<close>

definition object_name :: "string \<Rightarrow> string" where
  "object_name sha = sha @ ''.bogpk''"

definition archive_file ::
  "container schema_validator \<Rightarrow> int \<Rightarrow> bool \<Rightarrow> bool \<Rightarrow> directory \<times> file_entry list \<Rightarrow> string \<times> bytes \<Rightarrow>
   (directory \<times> file_entry list) res" where
  "archive_file cv chunk_size auto_chunk transform_tournament = (\<lambda>(objs, files) (rel, data).
    let sha = hexdigest data; obj = ''objects/'' @ object_name sha
    in rbind (if obj \<in> fst ` set objs then Inr objs
              else rbind (build_bog_container_v1 data chunk_size auto_chunk transform_tournament) (\<lambda>c.
                   rbind (encode_bogpk_container cv c) (\<lambda>bs. Inr (AList.update obj bs objs))))
       (\<lambda>objs'. Inr (objs', files @
          [\<lparr>f_path = rel, f_size = int (length data), f_sha256 = sha, f_object = obj\<rparr>])))"

definition new_manifest :: "string \<Rightarrow> file_entry list \<Rightarrow> archive_manifest" where
  "new_manifest source files =
    \<lparr>am_format = ARCHIVE_FORMAT, am_container_format = BOG_FORMAT, am_bogpk_version = int (unat BOGPK_VERSION),
     am_source = source, am_file_count = int (length files), am_files = files,
     am_tree_sha256 = tree_hash files\<rparr>"

definition build_directory_archive ::
  "container schema_validator \<Rightarrow> archive_manifest schema_validator \<Rightarrow> string \<Rightarrow> directory option \<Rightarrow>
   int \<Rightarrow> bool \<Rightarrow> bool \<Rightarrow> (archive \<times> archive_manifest) res" where
  "build_directory_archive cv mv source contents chunk_size auto_chunk transform_tournament =
    (case contents of
       None \<Rightarrow> Inl (ArchiveError ''source_dir must be a directory'')
     | Some d \<Rightarrow>
         rbind (fold_res (archive_file cv chunk_size auto_chunk transform_tournament) ([], []) (sorted_files d))
           (\<lambda>(objs, files).
         let manifest = new_manifest source files
         in rbind (validate_schema mv manifest ''archive-manifest.schema.json'') (\<lambda>_.
            Inr (\<lparr>ar_objects = objs, ar_manifest = Some manifest\<rparr>, manifest))))"

section \<open>Reading\<close>

text \<open>\<open>except SchemaError\<close> turns a schema failure into an archive error.\<close>

definition as_archive_error :: "'a res \<Rightarrow> 'a res" where
  "as_archive_error m = (case m of Inl (SchemaError e) \<Rightarrow> Inl (ArchiveError e) | _ \<Rightarrow> m)"

definition read_archive_manifest ::
  "archive_manifest schema_validator \<Rightarrow> archive \<Rightarrow> archive_manifest res" where
  "read_archive_manifest mv ar =
    (case ar_manifest ar of
       None \<Rightarrow> Inl (ArchiveError ''invalid archive manifest'')
     | Some manifest \<Rightarrow>
         rbind (as_archive_error (validate_schema mv manifest ''archive-manifest.schema.json'')) (\<lambda>_.
         if am_format manifest \<noteq> ARCHIVE_FORMAT
         then Inl (ArchiveError (''unsupported archive format: '' @ am_format manifest))
         else if am_file_count manifest \<noteq> int (length (am_files manifest))
         then Inl (ArchiveError ''archive file_count mismatch'')
         else if tree_hash (am_files manifest) \<noteq> am_tree_sha256 manifest
         then Inl (ArchiveError ''archive tree hash mismatch'')
         else Inr manifest))"

definition read_bogpk_container :: "container schema_validator \<Rightarrow> directory \<Rightarrow> string \<Rightarrow> container res" where
  "read_bogpk_container cv files path = (case map_of files path of
     None \<Rightarrow> Inl (FileNotFoundError path)
   | Some bs \<Rightarrow> decode_bogpk_container cv bs)"

definition read_archive_file ::
  "container schema_validator \<Rightarrow> archive \<Rightarrow> string \<Rightarrow> archive_manifest \<Rightarrow> bytes res" where
  "read_archive_file cv ar relative_path manifest =
    (if \<not> path_contained relative_path
     then Inl (ArchiveError ''archive path must be relative and contained'')
     else case filter (\<lambda>entry. f_path entry = relative_path) (am_files manifest) of
       [] \<Rightarrow> Inl (ArchiveError (''file not found in archive: '' @ relative_path))
     | entry # _ \<Rightarrow>
         rbind (read_bogpk_container cv (ar_objects ar) (f_object entry)) (\<lambda>c.
         rbind (reconstruct_bog_container_bytes c) (\<lambda>data.
         if int (length data) \<noteq> f_size entry \<or> hexdigest data \<noteq> f_sha256 entry
         then Inl (ArchiveError (''archive object verification failed: '' @ relative_path))
         else Inr data)))"

section \<open>Restoring\<close>

text \<open>
  The output directory as it is written: the directories made, by their path relative to it, and the
  files. \<open>output / path\<close> drops empty and single-dot parts, so that several spellings name one file, and a file
  in the place of a directory, or a directory in the place of a file, raises. An exception in the middle of
  the loop leaves what was written so far. What lies outside the output directory is not modelled: for a path
  with a \<open>..\<close> part the parents are taken to be made there, and the read that follows raises. Nor are names that
  the file system itself refuses.
\<close>

record output_state =
  out_made :: "string list"
  out_files :: directory

text \<open>\<open>target.parent\<close>, relative to the output directory, or absolute for an absolute path.\<close>

definition parent_of :: "string \<Rightarrow> string" where
  "parent_of p = (if is_absolute p then ''/'' else []) @ join_slash (butlast (path_parts p))"

text \<open>\<open>target.parent.mkdir(parents=True, exist_ok=True)\<close>.\<close>

definition make_parent :: "string \<Rightarrow> output_state \<Rightarrow> output_state res" where
  "make_parent p out =
    (let parent = butlast (path_parts p); written = map (\<lambda>(f, _). path_parts f) (out_files out)
     in if \<not> is_absolute p \<and> parent \<in> set written then Inl (FileExistsError p)
        else if \<not> is_absolute p \<and> list_ex (\<lambda>parts. strict_prefix parts parent) written then Inl (NotADirectoryError p)
        else Inr (out\<lparr>out_made := out_made out @ [parent_of p]\<rparr>))"

text \<open>\<open>target.write_bytes(data)\<close> of a contained path.\<close>

definition write_target :: "string \<Rightarrow> bytes \<Rightarrow> output_state \<Rightarrow> output_state res" where
  "write_target p data out =
    (if path_parts p = [] \<or> list_ex (\<lambda>made. prefix (path_parts p) (path_parts made)) (out_made out)
     then Inl (IsADirectoryError p)
     else Inr (out\<lparr>out_files := AList.update (plain_path p) data (out_files out)\<rparr>))"

fun restore_entries ::
  "container schema_validator \<Rightarrow> archive \<Rightarrow> archive_manifest \<Rightarrow> file_entry list \<Rightarrow>
   output_state \<times> tree_item list \<Rightarrow> output_state \<times> tree_item list res" where
  "restore_entries cv ar manifest [] (out, restored) = (out, Inr restored)"
| "restore_entries cv ar manifest (entry # entries) (out, restored) =
    (case make_parent (f_path entry) out of
       Inl e \<Rightarrow> (out, Inl e)
     | Inr out1 \<Rightarrow> (case read_archive_file cv ar (f_path entry) manifest of
         Inl e \<Rightarrow> (out1, Inl e)
       | Inr data \<Rightarrow> (case write_target (f_path entry) data out1 of
           Inl e \<Rightarrow> (out1, Inl e)
         | Inr out2 \<Rightarrow>
             restore_entries cv ar manifest entries (out2, restored @ [file_item (f_path entry) data]))))"

record restore_receipt =
  rr_file_count :: int
  rr_tree_sha256 :: string
  rr_expected_tree_sha256 :: string
  rr_all_hashes_match :: bool
  rr_execution_status :: string

definition restore_receipt_of :: "archive_manifest \<Rightarrow> tree_item list \<Rightarrow> restore_receipt" where
  "restore_receipt_of manifest restored =
    \<lparr>rr_file_count = int (length restored), rr_tree_sha256 = tree_hash restored,
     rr_expected_tree_sha256 = am_tree_sha256 manifest,
     rr_all_hashes_match = (tree_hash restored = am_tree_sha256 manifest),
     rr_execution_status = (if tree_hash restored = am_tree_sha256 manifest then ''completed'' else ''blocked'')\<rparr>"

definition restore_directory_archive ::
  "container schema_validator \<Rightarrow> archive_manifest schema_validator \<Rightarrow> archive \<Rightarrow> output_state \<times> restore_receipt res" where
  "restore_directory_archive cv mv ar =
    (case read_archive_manifest mv ar of
       Inl e \<Rightarrow> (\<lparr>out_made = [], out_files = []\<rparr>, Inl e)
     | Inr manifest \<Rightarrow>
         (case restore_entries cv ar manifest (am_files manifest) (\<lparr>out_made = [], out_files = []\<rparr>, []) of
            (out, Inl e) \<Rightarrow> (out, Inl e)
          | (out, Inr restored) \<Rightarrow>
              (out, if rr_execution_status (restore_receipt_of manifest restored) \<noteq> ''completed''
                    then Inl (ArchiveError ''restored directory hash mismatch'')
                    else Inr (restore_receipt_of manifest restored))))"

section \<open>Verifying\<close>

text \<open>A failure is the path with the exception whose text the source records.\<close>

record verify_receipt =
  vr_file_count :: int
  vr_verified_file_count :: int
  vr_failures :: "(string \<times> exn) list"
  vr_execution_status :: string

fun verify_entries ::
  "container schema_validator \<Rightarrow> archive \<Rightarrow> archive_manifest \<Rightarrow> file_entry list \<Rightarrow>
   (string \<times> exn) list \<times> tree_item list \<Rightarrow> (string \<times> exn) list \<times> tree_item list" where
  "verify_entries cv ar manifest [] (failures, verified) = (failures, verified)"
| "verify_entries cv ar manifest (entry # entries) (failures, verified) =
    (case read_archive_file cv ar (f_path entry) manifest of
       Inl e \<Rightarrow> verify_entries cv ar manifest entries (failures @ [(f_path entry, e)], verified)
     | Inr data \<Rightarrow>
         verify_entries cv ar manifest entries (failures, verified @ [file_item (f_path entry) data]))"

definition verify_directory_archive ::
  "container schema_validator \<Rightarrow> archive_manifest schema_validator \<Rightarrow> archive \<Rightarrow> verify_receipt res" where
  "verify_directory_archive cv mv ar =
    (case read_archive_manifest mv ar of
       Inl (ArchiveError e) \<Rightarrow>
         Inr \<lparr>vr_file_count = 0, vr_verified_file_count = 0, vr_failures = [(''manifest.json'', ArchiveError e)],
              vr_execution_status = ''blocked''\<rparr>
     | Inl e \<Rightarrow> Inl e
     | Inr manifest \<Rightarrow>
         (case verify_entries cv ar manifest (am_files manifest) ([], []) of
            (failures, verified) \<Rightarrow>
              let failures' = (if failures = [] \<and> tree_hash verified \<noteq> am_tree_sha256 manifest
                               then [(''.'', ArchiveError ''verified archive tree hash mismatch'')] else failures)
              in Inr \<lparr>vr_file_count = am_file_count manifest, vr_verified_file_count = int (length verified),
                      vr_failures = failures',
                      vr_execution_status = (if failures' = [] then ''completed'' else ''blocked'')\<rparr>))"

end
