(* ===== verification/Archive_Correct.thy ===== *)
theory Archive_Correct
  imports Archive
begin

text \<open>
  Correctness of directory archives. What a successful read guarantees, restoring and verifying as
  functions of the reads of all manifest entries, their equivalence, and the round trip: building an
  archive of a directory and restoring it gives the directory back.
\<close>

section \<open>Tree digests\<close>

lemma tree_row_truncate [simp]: "tree_row (tree_item.truncate e) = tree_row e"
  by (simp add: tree_row_def tree_item.truncate_def)

lemma f_path_truncate [simp]: "f_path (tree_item.truncate e) = f_path e"
  by (simp add: tree_item.truncate_def)

lemma tree_hash_truncate: "tree_hash (map tree_item.truncate files) = tree_hash files"
  by (simp add: tree_hash_def sort_key_map comp_def)

lemma tree_hash_perm:
  assumes "mset xs = mset ys" and "distinct (map f_path xs)"
  shows "tree_hash xs = tree_hash ys"
proof -
  have "inj_on f_path (set xs)" using assms(2) by (simp add: distinct_map)
  then have "sort_key f_path xs = sort_key f_path ys"
    using assms(1) by (intro sort_key_inj_key_eq) simp_all
  then show ?thesis by (simp add: tree_hash_def)
qed

section \<open>Reading one file\<close>

definition entry_matches :: "'a tree_item_scheme \<Rightarrow> bytes \<Rightarrow> bool" where
  "entry_matches entry data \<longleftrightarrow> f_size entry = int (length data) \<and> f_sha256 entry = hexdigest data"

lemma read_archive_file_sound:
  assumes "read_archive_file cv ar p manifest = Inr data"
  shows "path_contained p \<and> (\<exists>entry \<in> set (am_files manifest). f_path entry = p \<and> entry_matches entry data)"
proof -
  have p: "path_contained p" using assms by (auto simp: read_archive_file_def split: if_splits)
  obtain entry rest where f: "filter (\<lambda>entry. f_path entry = p) (am_files manifest) = entry # rest"
    using assms p by (cases "filter (\<lambda>entry. f_path entry = p) (am_files manifest)") (auto simp: read_archive_file_def)
  then have "entry \<in> set (filter (\<lambda>entry. f_path entry = p) (am_files manifest))" by simp
  moreover have "entry_matches entry data"
    using assms p f by (auto simp: read_archive_file_def rbind_Inr_iff entry_matches_def simp del: hexdigest_eq_iff split: if_splits)
  ultimately show ?thesis using p by auto
qed

section \<open>Spellings of a path\<close>

lemma split_slash_part:
  assumes "CHR ''/'' \<notin> set s"
  shows "split_slash acc s = [rev acc @ s]"
    and "split_slash acc (s @ ''/'' @ t) = (rev acc @ s) # split_slash [] t"
  using assms by (induction s arbitrary: acc) auto

lemma split_slash_proper: "s \<in> set (split_slash acc p) \<Longrightarrow> CHR ''/'' \<notin> set acc \<Longrightarrow> CHR ''/'' \<notin> set s"
  by (induction acc p rule: split_slash.induct) (auto split: if_splits)

lemma split_join:
  assumes "\<forall>s \<in> set ps. CHR ''/'' \<notin> set s" and "ps \<noteq> []"
  shows "split_slash [] (join_slash ps) = ps"
  using assms
proof (induction ps rule: join_slash.induct)
  case (3 s t ss)
  then show ?case using split_slash_part(2) [of s "[]" "join_slash (t # ss)"] by simp
qed (simp_all add: split_slash_part(1))

text \<open>A part of a path: a name without slashes that is not the single dot.\<close>

definition proper_part :: "string \<Rightarrow> bool" where
  "proper_part s \<longleftrightarrow> s \<noteq> [] \<and> s \<noteq> ''.'' \<and> CHR ''/'' \<notin> set s"

lemma path_parts_proper: "s \<in> set (path_parts p) \<Longrightarrow> proper_part s"
  using split_slash_proper [of s "[]" p] by (auto simp: path_parts_def proper_part_def)

lemma path_parts_join:
  assumes "\<forall>s \<in> set ps. proper_part s"
  shows "path_parts (join_slash ps) = ps"
proof (cases "ps = []")
  case True
  then show ?thesis by (simp add: path_parts_def)
next
  case False
  then show ?thesis using assms split_join [of ps] by (auto simp: path_parts_def proper_part_def intro!: filter_True)
qed

lemma path_parts_slash: "path_parts (''/'' @ p) = path_parts p"
  by (simp add: path_parts_def)

lemma path_parts_plain [simp]: "path_parts (plain_path p) = path_parts p"
  unfolding plain_path_def by (rule path_parts_join) (use path_parts_proper in blast)

lemma path_parts_parent [simp]: "path_parts (parent_of p) = butlast (path_parts p)"
proof -
  have "path_parts (join_slash (butlast (path_parts p))) = butlast (path_parts p)"
    by (rule path_parts_join) (use path_parts_proper in_set_butlastD in fast)
  then show ?thesis using path_parts_slash by (simp add: parent_of_def)
qed

lemma plain_path_eq_iff: "plain_path p = plain_path q \<longleftrightarrow> path_parts p = path_parts q"
  using path_parts_plain by (metis plain_path_def)

lemma plain_path_idem [simp]: "plain_path (plain_path p) = plain_path p"
  by (simp add: plain_path_eq_iff)

section \<open>Layouts\<close>

text \<open>
  Paths that one directory can hold as its files: none is the directory itself, and none is a directory on
  the way to another.
\<close>

definition layout_ok :: "string list \<Rightarrow> bool" where
  "layout_ok ps \<longleftrightarrow> (\<forall>p \<in> set ps. path_parts p \<noteq> []) \<and>
     (\<forall>p \<in> set ps. \<forall>q \<in> set ps. \<not> strict_prefix (path_parts p) (path_parts q))"

lemma layout_ok_append: "layout_ok (ps @ qs) \<Longrightarrow> layout_ok ps"
  by (auto simp: layout_ok_def)

lemma layout_ok_snoc:
  "layout_ok (ps @ [p]) \<longleftrightarrow> layout_ok ps \<and> path_parts p \<noteq> [] \<and>
     (\<forall>q \<in> set ps. \<not> strict_prefix (path_parts q) (path_parts p) \<and> \<not> strict_prefix (path_parts p) (path_parts q))"
  by (auto simp: layout_ok_def)

lemma prefix_butlast: "ys \<noteq> [] \<Longrightarrow> prefix xs (butlast ys) \<longleftrightarrow> strict_prefix xs ys"
  by (cases ys rule: rev_cases) (auto simp: strict_prefix_def)

text \<open>What the output directory holds once files at these paths have been written.\<close>

definition holds_paths :: "string list \<Rightarrow> output_state \<Rightarrow> bool" where
  "holds_paths ps out \<longleftrightarrow> out_made out = map parent_of ps \<and>
     path_parts ` fst ` set (out_files out) = path_parts ` set ps"

lemma make_parent_cases:
  assumes "holds_paths ps out" and "layout_ok ps" and "\<not> is_absolute p"
  shows "make_parent p out = Inr (out\<lparr>out_made := out_made out @ [parent_of p]\<rparr>) \<or> (\<exists>e. make_parent p out = Inl e)"
    and "(\<exists>e. make_parent p out = Inl e) \<longleftrightarrow> (\<exists>q \<in> set ps. prefix (path_parts q) (butlast (path_parts p)))"
proof -
  let ?w = "map (\<lambda>(f, _). path_parts f) (out_files out)"
  have w: "set ?w = path_parts ` set ps" using assms(1) by (simp add: holds_paths_def image_image case_prod_beta)
  have "x \<in> X \<or> (\<exists>y \<in> X. strict_prefix y x) \<longleftrightarrow> (\<exists>y \<in> X. prefix y x)" for x :: "string list" and X
    by (auto simp: strict_prefix_def)
  from this [of "butlast (path_parts p)" "path_parts ` set ps"]
  have "butlast (path_parts p) \<in> set ?w \<or> list_ex (\<lambda>parts. strict_prefix parts (butlast (path_parts p))) ?w \<longleftrightarrow>
      (\<exists>q \<in> set ps. prefix (path_parts q) (butlast (path_parts p)))"
    unfolding list_ex_iff w by simp
  then show "(\<exists>e. make_parent p out = Inl e) \<longleftrightarrow> (\<exists>q \<in> set ps. prefix (path_parts q) (butlast (path_parts p)))"
    using assms(3) by (auto simp: make_parent_def Let_def)
qed (simp add: make_parent_def Let_def)

lemma write_target_cases:
  assumes "out_made out = map parent_of (ps @ [p])" and "layout_ok ps"
  shows "write_target p data out = Inr (out\<lparr>out_files := AList.update (plain_path p) data (out_files out)\<rparr>) \<or>
      (\<exists>e. write_target p data out = Inl e)"
    and "(\<exists>e. write_target p data out = Inl e) \<longleftrightarrow>
      path_parts p = [] \<or> (\<exists>q \<in> set ps. strict_prefix (path_parts p) (path_parts q))"
proof -
  have "prefix (path_parts p) (butlast (path_parts q)) \<longleftrightarrow> strict_prefix (path_parts p) (path_parts q)" if "q \<in> set ps" for q
    using assms(2) that by (intro prefix_butlast) (simp add: layout_ok_def)
  moreover have "prefix (path_parts p) (butlast (path_parts p)) \<longleftrightarrow> path_parts p = []"
    by (cases "path_parts p" rule: rev_cases) (auto dest: prefix_length_le)
  ultimately show "(\<exists>e. write_target p data out = Inl e) \<longleftrightarrow>
      path_parts p = [] \<or> (\<exists>q \<in> set ps. strict_prefix (path_parts p) (path_parts q))"
    using assms(1) by (auto simp: write_target_def list_ex_iff)
qed (simp add: write_target_def)

lemma holds_paths_write:
  assumes "holds_paths ps out"
  shows "holds_paths (ps @ [p])
    (out\<lparr>out_made := out_made out @ [parent_of p], out_files := AList.update (plain_path p) data (out_files out)\<rparr>)"
  using assms by (simp add: holds_paths_def update_keys)

text \<open>One entry that can be read is written, or raises because of the layout.\<close>

lemma write_entry_ok:
  assumes "holds_paths ps out" and "layout_ok (ps @ [p])" and "\<not> is_absolute p"
  shows "make_parent p out = Inr (out\<lparr>out_made := out_made out @ [parent_of p]\<rparr>)"
    and "write_target p data (out\<lparr>out_made := out_made out @ [parent_of p]\<rparr>) =
      Inr (out\<lparr>out_made := out_made out @ [parent_of p], out_files := AList.update (plain_path p) data (out_files out)\<rparr>)"
proof -
  have ps: "layout_ok ps" "path_parts p \<noteq> []" "\<forall>q \<in> set ps. \<not> strict_prefix (path_parts q) (path_parts p)"
      "\<not> (path_parts p = [] \<or> (\<exists>q \<in> set ps. strict_prefix (path_parts p) (path_parts q)))"
    using assms(2) by (simp_all add: layout_ok_snoc)
  show "make_parent p out = Inr (out\<lparr>out_made := out_made out @ [parent_of p]\<rparr>)"
    using make_parent_cases [OF assms(1) ps(1) assms(3)] ps(2,3) by (auto simp: prefix_butlast)
  show "write_target p data (out\<lparr>out_made := out_made out @ [parent_of p]\<rparr>) =
      Inr (out\<lparr>out_made := out_made out @ [parent_of p], out_files := AList.update (plain_path p) data (out_files out)\<rparr>)"
    using write_target_cases [of "out\<lparr>out_made := out_made out @ [parent_of p]\<rparr>" ps p data] assms(1) ps(1,4)
    by (simp add: holds_paths_def)
qed

lemma write_entry_clash:
  assumes "holds_paths ps out" and "layout_ok ps" and "\<not> layout_ok (ps @ [p])" and "\<not> is_absolute p"
    and "make_parent p out = Inr out1"
  shows "\<exists>e. write_target p data out1 = Inl e"
proof -
  note m = make_parent_cases [OF assms(1,2,4)]
  have out1: "out1 = out\<lparr>out_made := out_made out @ [parent_of p]\<rparr>"
    and below: "\<forall>q \<in> set ps. \<not> prefix (path_parts q) (butlast (path_parts p))" using m assms(5) by auto
  have "path_parts p = [] \<or> (\<exists>q \<in> set ps. strict_prefix (path_parts p) (path_parts q))"
    using assms(2,3) below by (auto simp: layout_ok_snoc prefix_butlast)
  then show ?thesis
    using write_target_cases(2) [of out1 ps p data] assms(1,2) by (simp add: out1 holds_paths_def)
qed

section \<open>Restoring and verifying\<close>

text \<open>All entries can be read, with these contents.\<close>

definition reads_entries ::
  "container schema_validator \<Rightarrow> archive \<Rightarrow> archive_manifest \<Rightarrow> file_entry list \<Rightarrow> bytes list \<Rightarrow> bool" where
  "reads_entries cv ar manifest es ds \<longleftrightarrow> list_all2 (\<lambda>e d. read_archive_file cv ar (f_path e) manifest = Inr d) es ds"

lemma reads_entries_map:
  "reads_entries cv ar manifest es ds \<longleftrightarrow> map_res (\<lambda>e. read_archive_file cv ar (f_path e) manifest) es = Inr ds"
  by (simp add: reads_entries_def map_res_Inr_iff)

definition items_of :: "file_entry list \<Rightarrow> bytes list \<Rightarrow> tree_item list" where
  "items_of es ds = map2 (\<lambda>e d. file_item (f_path e) d) es ds"

lemma read_relative: "read_archive_file cv ar p manifest = Inr data \<Longrightarrow> \<not> is_absolute p"
  using read_archive_file_sound by (auto simp: path_contained_def)

lemma restore_entries_reads:
  assumes "reads_entries cv ar manifest es ds" and "holds_paths ps out" and "layout_ok (ps @ map f_path es)"
  shows "restore_entries cv ar manifest es (out, items) =
    (\<lparr>out_made = out_made out @ map (\<lambda>e. parent_of (f_path e)) es,
      out_files = foldl (\<lambda>d (k, v). AList.update k v d) (out_files out) (zip (map (\<lambda>e. plain_path (f_path e)) es) ds)\<rparr>,
     Inr (items @ items_of es ds))"
  using assms unfolding reads_entries_def
proof (induction es ds arbitrary: out items ps rule: list_all2_induct)
  case (Cons e es d ds)
  let ?p = "f_path e"
  have "layout_ok ((ps @ [?p]) @ map f_path es)" using Cons.prems(2) by simp
  moreover have "layout_ok (ps @ [?p])" using calculation by (rule layout_ok_append)
  ultimately show ?case
    using Cons.IH [OF holds_paths_write [OF Cons.prems(1)]] Cons.hyps(1) write_entry_ok [OF Cons.prems(1)] read_relative
    by (simp add: items_of_def)
qed (simp add: items_of_def)

lemma restore_entries_fails:
  assumes "(\<nexists>ds. reads_entries cv ar manifest es ds) \<or> \<not> layout_ok (ps @ map f_path es)"
    and "holds_paths ps out" and "layout_ok ps"
  shows "\<exists>out' e. restore_entries cv ar manifest es (out, items) = (out', Inl e)"
  using assms
proof (induction es arbitrary: out items ps)
  case (Cons e es)
  let ?p = "f_path e"
  show ?case
  proof (cases "read_archive_file cv ar ?p manifest")
    case (Inl x)
    then show ?thesis by (cases "make_parent ?p out") simp_all
  next
    case (Inr d)
    then have rel: "\<not> is_absolute ?p" by (rule read_relative)
    show ?thesis
    proof (cases "layout_ok (ps @ [?p])")
      case True
      have "(\<nexists>ds. reads_entries cv ar manifest es ds) \<or> \<not> layout_ok ((ps @ [?p]) @ map f_path es)"
        using Cons.prems(1) Inr by (auto simp: reads_entries_def list_all2_Cons1)
      then show ?thesis
        using Cons.IH [OF _ holds_paths_write [OF Cons.prems(2)] True] write_entry_ok [OF Cons.prems(2) True rel] Inr by simp
    next
      case False
      then show ?thesis
        using write_entry_clash [OF Cons.prems(2,3) False rel, of _ d] Inr by (cases "make_parent ?p out") auto
    qed
  qed
qed (auto simp: reads_entries_def)

lemma verify_entries_reads:
  assumes "reads_entries cv ar manifest es ds"
  shows "verify_entries cv ar manifest es (failures, items) = (failures, items @ items_of es ds)"
  using assms unfolding reads_entries_def
  by (induction es ds arbitrary: items rule: list_all2_induct) (simp_all add: items_of_def)

lemma verify_entries_keeps: "failures \<noteq> [] \<Longrightarrow> fst (verify_entries cv ar manifest es (failures, items)) \<noteq> []"
  by (induction es arbitrary: failures items) (auto split: sum.splits)

lemma verify_entries_fails:
  assumes "\<nexists>ds. reads_entries cv ar manifest es ds"
  shows "fst (verify_entries cv ar manifest es (failures, items)) \<noteq> []"
  using assms
proof (induction es arbitrary: failures items)
  case (Cons e es)
  show ?case
  proof (cases "read_archive_file cv ar (f_path e) manifest")
    case (Inl x)
    then show ?thesis using verify_entries_keeps by simp
  next
    case (Inr d)
    then have "\<nexists>ds. reads_entries cv ar manifest es ds"
      using Cons.prems by (auto simp: reads_entries_def list_all2_Cons1)
    then show ?thesis using Cons.IH Inr by simp
  qed
qed (simp add: reads_entries_def)

text \<open>
  An archive is sound when every entry can be read and the contents have the manifest's tree digest. That is
  what verification checks; restoring also needs paths that one directory can hold.
\<close>

definition archive_reads ::
  "container schema_validator \<Rightarrow> archive_manifest schema_validator \<Rightarrow> archive \<Rightarrow> archive_manifest \<Rightarrow> bytes list \<Rightarrow> bool" where
  "archive_reads cv mv ar manifest ds \<longleftrightarrow> read_archive_manifest mv ar = Inr manifest \<and>
     reads_entries cv ar manifest (am_files manifest) ds \<and> tree_hash (items_of (am_files manifest) ds) = am_tree_sha256 manifest"

definition archive_sound ::
  "container schema_validator \<Rightarrow> archive_manifest schema_validator \<Rightarrow> archive \<Rightarrow> bool" where
  "archive_sound cv mv ar \<longleftrightarrow> (\<exists>manifest ds. archive_reads cv mv ar manifest ds)"

lemma holds_paths_start [simp]: "holds_paths [] \<lparr>out_made = [], out_files = []\<rparr>"
  by (simp add: holds_paths_def)

lemma layout_ok_Nil [simp]: "layout_ok []"
  by (simp add: layout_ok_def)

lemma restore_Inr_iff:
  "snd (restore_directory_archive cv mv ar) = Inr r \<longleftrightarrow>
    (\<exists>manifest ds. archive_reads cv mv ar manifest ds \<and> layout_ok (map f_path (am_files manifest)) \<and>
      r = restore_receipt_of manifest (items_of (am_files manifest) ds))"
  (is "?lhs \<longleftrightarrow> ?rhs")
proof (cases "read_archive_manifest mv ar")
  case (Inl e)
  then show ?thesis by (simp add: restore_directory_archive_def archive_reads_def)
next
  case (Inr manifest)
  let ?init = "\<lparr>out_made = [], out_files = []\<rparr> :: output_state"
  let ?ps = "map f_path (am_files manifest)"
  show ?thesis
  proof (cases "(\<exists>ds. reads_entries cv ar manifest (am_files manifest) ds) \<and> layout_ok ?ps")
    case True
    then obtain ds where ds: "reads_entries cv ar manifest (am_files manifest) ds" and lay: "layout_ok ?ps" by blast
    have "snd (restore_directory_archive cv mv ar) =
        (if tree_hash (items_of (am_files manifest) ds) = am_tree_sha256 manifest
         then Inr (restore_receipt_of manifest (items_of (am_files manifest) ds))
         else Inl (ArchiveError ''restored directory hash mismatch''))"
      using Inr restore_entries_reads [OF ds holds_paths_start, of "[]"] lay
      by (simp add: restore_directory_archive_def restore_receipt_of_def)
    moreover have "map_res (\<lambda>e. read_archive_file cv ar (f_path e) manifest) (am_files manifest) = Inr ds"
      using ds by (simp add: reads_entries_map)
    ultimately show ?thesis using lay by (auto simp: Inr archive_reads_def reads_entries_map)
  next
    case False
    then have "(\<nexists>ds. reads_entries cv ar manifest (am_files manifest) ds) \<or> \<not> layout_ok ([] @ ?ps)" by simp
    then obtain out' e where "restore_entries cv ar manifest (am_files manifest) (?init, []) = (out', Inl e)"
      using restore_entries_fails by (metis holds_paths_start layout_ok_Nil)
    then show ?thesis using Inr False by (auto simp: restore_directory_archive_def archive_reads_def)
  qed
qed

lemma restore_files:
  assumes "snd (restore_directory_archive cv mv ar) = Inr r"
  obtains manifest ds where "archive_reads cv mv ar manifest ds" and "layout_ok (map f_path (am_files manifest))"
    and "out_files (fst (restore_directory_archive cv mv ar)) =
      pydict_of (zip (map (\<lambda>e. plain_path (f_path e)) (am_files manifest)) ds)"
proof -
  obtain manifest ds where m: "archive_reads cv mv ar manifest ds" "layout_ok (map f_path (am_files manifest))"
    using assms by (auto simp: restore_Inr_iff)
  then have "reads_entries cv ar manifest (am_files manifest) ds" by (simp add: archive_reads_def)
  from restore_entries_reads [OF this holds_paths_start, of "[]"]
  have "out_files (fst (restore_directory_archive cv mv ar)) =
      pydict_of (zip (map (\<lambda>e. plain_path (f_path e)) (am_files manifest)) ds)"
    using m by (simp add: restore_directory_archive_def pydict_of_def archive_reads_def)
  then show thesis using m that by blast
qed

text \<open>Verification completes exactly for a sound archive.\<close>

lemma verify_completed_iff:
  "(\<exists>v. verify_directory_archive cv mv ar = Inr v \<and> vr_execution_status v = ''completed'') \<longleftrightarrow> archive_sound cv mv ar"
proof (cases "read_archive_manifest mv ar")
  case (Inl e)
  then show ?thesis by (cases e) (auto simp: verify_directory_archive_def archive_sound_def archive_reads_def)
next
  case (Inr manifest)
  show ?thesis
  proof (cases "\<exists>ds. reads_entries cv ar manifest (am_files manifest) ds")
    case True
    then obtain ds where ds: "reads_entries cv ar manifest (am_files manifest) ds" ..
    then have "map_res (\<lambda>e. read_archive_file cv ar (f_path e) manifest) (am_files manifest) = Inr ds"
      by (simp add: reads_entries_map)
    then have "archive_sound cv mv ar \<longleftrightarrow> tree_hash (items_of (am_files manifest) ds) = am_tree_sha256 manifest"
      using Inr by (auto simp: archive_sound_def archive_reads_def reads_entries_map)
    then show ?thesis using Inr verify_entries_reads [OF ds, of "[]" "[]"]
      by (simp add: verify_directory_archive_def Let_def)
  next
    case False
    obtain fs vs where v: "verify_entries cv ar manifest (am_files manifest) ([], []) = (fs, vs)" by fastforce
    then have "fs \<noteq> []" using verify_entries_fails [OF False, of "[]" "[]"] by simp
    then show ?thesis using Inr v False by (simp add: verify_directory_archive_def Let_def archive_sound_def archive_reads_def)
  qed
qed

text \<open>Restoring an archive succeeds exactly when it is sound and one directory can hold its paths.\<close>

lemma restore_completed_iff:
  assumes "read_archive_manifest mv ar = Inr manifest"
  shows "(\<exists>r. snd (restore_directory_archive cv mv ar) = Inr r) \<longleftrightarrow>
    archive_sound cv mv ar \<and> layout_ok (map f_path (am_files manifest))"
proof -
  have "m = manifest" if "archive_reads cv mv ar m ds" for m ds using assms that by (simp add: archive_reads_def)
  then show ?thesis unfolding restore_Inr_iff archive_sound_def by blast
qed

section \<open>Building\<close>

text \<open>
  The part of \<^verbatim>\<open>src/schemas/archive-manifest.schema.json\<close> that the types do not already enforce, and what is
  relied on of the validator: it reports no error for a manifest that satisfies the schema.
\<close>

definition archive_schema :: "archive_manifest \<Rightarrow> bool" where
  "archive_schema m \<longleftrightarrow> am_format m = ''BOGARCHIVE-2.0'' \<and> am_container_format m = ''BOG-2.0'' \<and>
     am_bogpk_version m = 1 \<and> 0 \<le> am_file_count m \<and> is_sha256 (am_tree_sha256 m) \<and>
     (\<forall>e \<in> set (am_files m). f_path e \<noteq> [] \<and> 0 \<le> f_size e \<and> is_sha256 (f_sha256 e) \<and>
        (\<exists>sha. is_sha256 sha \<and> f_object e = ''objects/'' @ sha @ ''.bogpk''))"

definition archive_schema_complete :: "archive_manifest schema_validator \<Rightarrow> bool" where
  "archive_schema_complete mv \<longleftrightarrow> (\<forall>m. archive_schema m \<longrightarrow> mv m = [])"

text \<open>
  A directory as listing it gives it: every path spelt plainly and once, and no file in the place of a
  directory; and no file of a size that no file system has.
\<close>

definition dir_ok :: "directory \<Rightarrow> bool" where
  "dir_ok d \<longleftrightarrow> distinct (map fst d) \<and> layout_ok (map fst d) \<and>
     (\<forall>(p, data) \<in> set d. plain_path p = p \<and> path_contained p \<and> length data < 2 ^ 70)"

lemma dir_ok_nonempty: "dir_ok d \<Longrightarrow> (p, data) \<in> set d \<Longrightarrow> p \<noteq> []"
  by (force simp: dir_ok_def layout_ok_def path_parts_def)

text \<open>No two contents of a directory are different byte strings with one digest.\<close>

definition contents_clear :: "directory \<Rightarrow> bool" where
  "contents_clear d \<longleftrightarrow> inj_on sha256 (snd ` set d)"

definition object_key :: "bytes \<Rightarrow> string" where
  "object_key data = ''objects/'' @ object_name (hexdigest data)"

lemma object_key_inject [simp]: "object_key x = object_key y \<longleftrightarrow> sha256 x = sha256 y"
  by (simp add: object_key_def object_name_def)

definition built_entry :: "string \<times> bytes \<Rightarrow> file_entry" where
  "built_entry = (\<lambda>(p, data). \<lparr>f_path = p, f_size = int (length data), f_sha256 = hexdigest data, f_object = object_key data\<rparr>)"

definition object_holds :: "container schema_validator \<Rightarrow> directory \<Rightarrow> bytes \<Rightarrow> bool" where
  "object_holds cv objs data \<longleftrightarrow>
     (\<exists>c. read_bogpk_container cv objs (object_key data) = Inr c \<and> reconstruct_bog_container_bytes c = Inr data)"

lemma write_object:
  assumes "schema_complete cv" and "length data < 2 ^ 70" and "auto_chunk \<or> int n \<in> set CANDIDATE_CHUNK_SIZES"
  obtains c bs c' where "build_bog_container_v1 data (int n) auto_chunk tt = Inr c"
    and "encode_bogpk_container cv c = Inr bs" and "decode_bogpk_container cv bs = Inr c'"
    and "reconstruct_bog_container_bytes c' = Inr data"
proof -
  have "auto_chunk \<or> 0 < n \<and> n \<le> 65535" using assms(3) candidate_sizes [of "int n"] by auto
  then obtain c m where c: "build_bog_container_v1 data (int n) auto_chunk tt = Inr c"
      "container_holds c m data" "if auto_chunk then int m \<in> set CANDIDATE_CHUNK_SIZES else m = n"
    by (rule build_holds)
  have "int m \<in> set CANDIDATE_CHUNK_SIZES" using c(3) assms(3) by (auto split: if_splits)
  then obtain bs c' where "encode_bogpk_container cv c = Inr bs" "decode_bogpk_container cv bs = Inr c'"
      "container_holds c' m data"
    using encode_decode_holds [OF c(2) _ assms(2,1)] by blast
  then show thesis using c(1) container_holds_reconstruct by (intro that) auto
qed

lemma archive_file_step:
  assumes "schema_complete cv" and "length data < 2 ^ 70" and "auto_chunk \<or> int n \<in> set CANDIDATE_CHUNK_SIZES"
    and old: "\<forall>x \<in> X. object_holds cv objs x" and keys: "fst ` set objs = object_key ` X"
    and inj: "inj_on sha256 (insert data X)"
  shows "\<exists>objs'. archive_file cv (int n) auto_chunk tt (objs, files) (p, data) = Inr (objs', files @ [built_entry (p, data)]) \<and>
    (\<forall>x \<in> insert data X. object_holds cv objs' x) \<and> fst ` set objs' = object_key ` insert data X"
proof (cases "object_key data \<in> fst ` set objs")
  case True
  then obtain x where "x \<in> X" "sha256 x = sha256 data" using keys by force
  then have "data \<in> X" using inj by (auto simp: inj_on_def)
  then show ?thesis using True old keys
    by (intro exI [of _ objs]) (auto simp: archive_file_def Let_def object_key_def built_entry_def)
next
  case False
  obtain c bs c' where c: "build_bog_container_v1 data (int n) auto_chunk tt = Inr c"
      "encode_bogpk_container cv c = Inr bs" "decode_bogpk_container cv bs = Inr c'"
      "reconstruct_bog_container_bytes c' = Inr data"
    by (rule write_object [OF assms(1-3)])
  let ?objs = "AList.update (object_key data) bs objs"
  have "archive_file cv (int n) auto_chunk tt (objs, files) (p, data) = Inr (?objs, files @ [built_entry (p, data)])"
    using False c by (simp add: archive_file_def Let_def object_key_def built_entry_def)
  moreover have "object_holds cv ?objs data" using c by (simp add: object_holds_def read_bogpk_container_def)
  moreover have "object_holds cv ?objs x" if "x \<in> X" for x
  proof -
    have "object_key x \<in> fst ` set objs" unfolding keys using that by (rule imageI)
    then have "object_key x \<noteq> object_key data" using False by metis
    then show ?thesis using old that by (simp add: object_holds_def read_bogpk_container_def del: object_key_inject)
  qed
  moreover have "fst ` set ?objs = object_key ` insert data X" by (simp only: update_keys keys image_insert)
  ultimately show ?thesis by blast
qed

lemma archive_files:
  assumes "schema_complete cv" and "\<forall>(p, data) \<in> set xs. length data < 2 ^ 70"
    and "auto_chunk \<or> int n \<in> set CANDIDATE_CHUNK_SIZES"
    and "\<forall>x \<in> X. object_holds cv objs x" and "fst ` set objs = object_key ` X" and "inj_on sha256 (X \<union> snd ` set xs)"
  shows "\<exists>objs'. fold_res (archive_file cv (int n) auto_chunk tt) (objs, files) xs = Inr (objs', files @ map built_entry xs) \<and>
    (\<forall>x \<in> snd ` set xs. object_holds cv objs' x) \<and> (\<forall>x \<in> X. object_holds cv objs' x)"
  using assms
proof (induction xs arbitrary: objs files X)
  case (Cons px xs)
  obtain p data where px: "px = (p, data)" by (cases px)
  have "inj_on sha256 (insert data X)" by (rule inj_on_subset [OF Cons.prems(6)]) (auto simp: px)
  then obtain objs1 where step: "archive_file cv (int n) auto_chunk tt (objs, files) (p, data) = Inr (objs1, files @ [built_entry (p, data)])"
      "\<forall>x \<in> insert data X. object_holds cv objs1 x" "fst ` set objs1 = object_key ` insert data X"
    using archive_file_step [OF Cons.prems(1) _ Cons.prems(3,4,5)] Cons.prems(2) px by (metis (no_types, lifting) case_prodD list.set_intros(1))
  have "\<exists>objs'. fold_res (archive_file cv (int n) auto_chunk tt) (objs1, files @ [built_entry px]) xs =
      Inr (objs', (files @ [built_entry px]) @ map built_entry xs) \<and>
      (\<forall>x \<in> snd ` set xs. object_holds cv objs' x) \<and> (\<forall>x \<in> insert data X. object_holds cv objs' x)"
  proof (rule Cons.IH [OF Cons.prems(1) _ Cons.prems(3) step(2,3)])
    show "inj_on sha256 (insert data X \<union> snd ` set xs)" using Cons.prems(6) px by simp
  qed (use Cons.prems(2) in auto)
  then show ?case using step(1) px by auto
qed simp

text \<open>The files of a directory in the order the source visits them.\<close>

lemma set_sorted_files [simp]: "set (sorted_files d) = set d"
  by (simp add: sorted_files_def)

lemma distinct_sorted_files: "distinct (map fst d) \<Longrightarrow> distinct (map fst (sorted_files d))"
  unfolding distinct_map sorted_files_def by simp

lemma built_entry_fields [simp]:
  "f_path (built_entry px) = fst px"
  "f_size (built_entry px) = int (length (snd px))"
  "f_sha256 (built_entry px) = hexdigest (snd px)"
  "f_object (built_entry px) = object_key (snd px)"
  by (simp_all add: built_entry_def split: prod.splits)

lemma new_manifest_schema:
  assumes "\<forall>(p, data) \<in> set xs. p \<noteq> []"
  shows "archive_schema (new_manifest source (map built_entry xs))"
  using assms
  by (auto simp: archive_schema_def new_manifest_def ARCHIVE_FORMAT_def BOG_FORMAT_def BOGPK_VERSION_def tree_hash_def
      object_key_def object_name_def intro!: exI [of _ "hexdigest _"])

lemma filter_unique_key:
  assumes "distinct (map f xs)" and "x \<in> set xs"
  shows "filter (\<lambda>y. f y = f x) xs = [x]"
  using assms
proof (induction xs)
  case (Cons y ys)
  then have "f z \<noteq> f y" if "z \<in> set ys" for z using that by (metis distinct.simps(2) image_eqI list.set_map list.simps(9))
  then show ?case using Cons by (cases "y = x") (auto simp: filter_empty_conv)
qed simp

lemma read_built:
  assumes "(p, data) \<in> set xs" and "distinct (map fst xs)" and "path_contained p" and "object_holds cv objs data"
    and "am_files manifest = map built_entry xs" and "ar_objects ar = objs"
  shows "read_archive_file cv ar p manifest = Inr data"
proof -
  have "filter (\<lambda>y. fst y = p) xs = [(p, data)]" using filter_unique_key [OF assms(2,1)] by simp
  then have "filter (\<lambda>entry. f_path entry = p) (am_files manifest) = [built_entry (p, data)]"
    by (simp add: assms(5) filter_map comp_def)
  then show ?thesis using assms(3,4,6) by (auto simp: read_archive_file_def object_holds_def)
qed

lemma build_succeeds:
  assumes "schema_complete cv" and "archive_schema_complete mv" and "dir_ok d" and "contents_clear d"
    and "auto_chunk \<or> int n \<in> set CANDIDATE_CHUNK_SIZES"
  obtains objs where
    "build_directory_archive cv mv source (Some d) (int n) auto_chunk tt =
       Inr (\<lparr>ar_objects = objs, ar_manifest = Some (new_manifest source (map built_entry (sorted_files d)))\<rparr>,
            new_manifest source (map built_entry (sorted_files d)))"
    and "\<forall>x \<in> snd ` set d. object_holds cv objs x"
proof -
  have "\<forall>(p, data) \<in> set (sorted_files d). length data < 2 ^ 70" using assms(3) by (auto simp: dir_ok_def)
  moreover have "inj_on sha256 ({} \<union> snd ` set (sorted_files d))" using assms(4) by (simp add: contents_clear_def)
  ultimately obtain objs where objs: "fold_res (archive_file cv (int n) auto_chunk tt) ([], []) (sorted_files d) =
      Inr (objs, [] @ map built_entry (sorted_files d))" "\<forall>x \<in> snd ` set (sorted_files d). object_holds cv objs x"
    using archive_files [OF assms(1) _ assms(5), of "sorted_files d" "{}" "[]" tt "[]"] by auto
  have "archive_schema (new_manifest source (map built_entry (sorted_files d)))"
    using dir_ok_nonempty [OF assms(3)] by (intro new_manifest_schema) auto
  then have "validate_schema mv (new_manifest source (map built_entry (sorted_files d))) name = Inr ()" for name
    using assms(2) by (simp add: archive_schema_complete_def validate_schema_def)
  then show thesis using objs
    by (intro that [of objs]) (simp_all add: build_directory_archive_def Let_def)
qed

lemma built_manifest:
  assumes "archive_schema_complete mv" and "dir_ok d"
  shows "read_archive_manifest mv \<lparr>ar_objects = objs, ar_manifest = Some (new_manifest source (map built_entry (sorted_files d)))\<rparr> =
    Inr (new_manifest source (map built_entry (sorted_files d)))"
proof -
  let ?m = "new_manifest source (map built_entry (sorted_files d))"
  have "archive_schema ?m" using dir_ok_nonempty [OF assms(2)] by (intro new_manifest_schema) auto
  then have "mv ?m = []" using assms(1) by (simp add: archive_schema_complete_def)
  then show ?thesis
    by (simp add: read_archive_manifest_def validate_schema_def as_archive_error_def) (simp add: new_manifest_def)
qed

lemma restore_built:
  assumes "archive_schema_complete mv" and "dir_ok d" and "\<forall>x \<in> snd ` set d. object_holds cv objs x"
    and ar: "ar = \<lparr>ar_objects = objs, ar_manifest = Some (new_manifest source (map built_entry (sorted_files d)))\<rparr>"
  shows "archive_sound cv mv ar" and "\<exists>r. snd (restore_directory_archive cv mv ar) = Inr r \<and> rr_tree_sha256 r = tree_hash_for_directory d"
    and "map_of (out_files (fst (restore_directory_archive cv mv ar))) = map_of d"
proof -
  let ?xs = "sorted_files d" let ?m = "new_manifest source (map built_entry ?xs)"
  have man: "read_archive_manifest mv ar = Inr ?m" unfolding ar by (rule built_manifest [OF assms(1,2)])
  have dist: "distinct (map fst ?xs)" using assms(2) distinct_sorted_files by (simp add: dir_ok_def)
  have "read_archive_file cv ar (fst px) ?m = Inr (snd px)" if "px \<in> set ?xs" for px
    by (rule read_built [of "fst px" "snd px" ?xs])
      (use that dist assms(2,3) ar in \<open>auto simp: dir_ok_def new_manifest_def\<close>)
  then have reads: "reads_entries cv ar ?m (am_files ?m) (map snd ?xs)"
    by (auto simp: reads_entries_def new_manifest_def list_all2_map1 list_all2_map2 list_all2_same)
  have items: "items_of (am_files ?m) (map snd ?xs) = map (\<lambda>(p, data). file_item p data) ?xs"
    by (induction ?xs) (auto simp: items_of_def new_manifest_def zip_map1 zip_map2 zip_same_conv_map)
  have "map tree_item.truncate (am_files ?m) = map (\<lambda>(p, data). file_item p data) ?xs"
    by (auto simp: new_manifest_def built_entry_def file_item_def tree_item.truncate_def)
  then have tree: "tree_hash (items_of (am_files ?m) (map snd ?xs)) = am_tree_sha256 ?m"
    using tree_hash_truncate [of "am_files ?m"] items by (simp only:) (simp add: new_manifest_def)
  have lay: "layout_ok (map f_path (am_files ?m))"
    using assms(2) by (auto simp: dir_ok_def layout_ok_def new_manifest_def)
  have sound: "archive_reads cv mv ar ?m (map snd ?xs)" using man reads tree by (simp add: archive_reads_def)
  then have r: "snd (restore_directory_archive cv mv ar) = Inr (restore_receipt_of ?m (items_of (am_files ?m) (map snd ?xs)))"
    unfolding restore_Inr_iff using lay by blast
  show "archive_sound cv mv ar" using sound by (auto simp: archive_sound_def)
  show "\<exists>r. snd (restore_directory_archive cv mv ar) = Inr r \<and> rr_tree_sha256 r = tree_hash_for_directory d"
    using r by (simp add: restore_receipt_of_def items tree_hash_for_directory_def)
  have plain: "plain_path (fst px) = fst px" if "px \<in> set ?xs" for px
    using assms(2) that by (cases px) (force simp: dir_ok_def)
  have "map (\<lambda>e. plain_path (f_path e)) (am_files ?m) = map fst ?xs"
    unfolding new_manifest_def by (simp add: plain)
  then have files: "zip (map (\<lambda>e. plain_path (f_path e)) (am_files ?m)) (map snd ?xs) = ?xs" by (simp add: zip_map_fst_snd)
  obtain m' ds' where "archive_reads cv mv ar m' ds'"
      "out_files (fst (restore_directory_archive cv mv ar)) = pydict_of (zip (map (\<lambda>e. plain_path (f_path e)) (am_files m')) ds')"
    by (rule restore_files [OF r])
  then have "out_files (fst (restore_directory_archive cv mv ar)) = pydict_of ?xs"
    using sound files by (auto simp: archive_reads_def reads_entries_map)
  also have "\<dots> = ?xs" using dist by (rule pydict_of_distinct)
  finally show "map_of (out_files (fst (restore_directory_archive cv mv ar))) = map_of d"
    using dist assms(2) map_of_inject_set [of ?xs d] by (simp add: dir_ok_def)
qed

section \<open>What a restored directory holds\<close>

lemma set_pydict_of: "set (pydict_of kvs) \<subseteq> set kvs"
proof -
  have upd: "set (AList.update k v d) \<subseteq> insert (k, v) (set d)" for k :: 'a and v :: 'b and d
    by (induction d) auto
  have "set (foldl (\<lambda>d (k, v). AList.update k v d) d kvs) \<subseteq> set d \<union> set kvs" for d :: "('a \<times> 'b) list"
  proof (induction kvs arbitrary: d)
    case (Cons kv kvs)
    then show ?case using upd [of "fst kv" "snd kv" d] by (cases kv) fastforce
  qed simp
  from this [of "[]"] show ?thesis by (simp add: pydict_of_def)
qed

lemma keys_pydict_of: "fst ` set (pydict_of kvs) = fst ` set kvs"
proof -
  have "fst ` set (foldl (\<lambda>d (k, v). AList.update k v d) d kvs) = fst ` set d \<union> fst ` set kvs" for d :: "('a \<times> 'b) list"
    by (induction kvs arbitrary: d) (simp_all add: update_keys case_prod_beta)
  from this [of "[]"] show ?thesis by (simp add: pydict_of_def)
qed

lemma reads_entries_zip:
  assumes "reads_entries cv ar manifest es ds" and "(p, data) \<in> set (zip (map f_path es) ds)"
  shows "read_archive_file cv ar p manifest = Inr data"
  using assms unfolding reads_entries_def
  by (induction es ds rule: list_all2_induct) auto

lemma tree_hash_zip:
  assumes "distinct ps" and "length ps = length ds"
  shows "tree_hash_for_directory (zip ps ds) = tree_hash (map2 file_item ps ds)"
proof -
  let ?z = "zip ps ds"
  have "map f_path (map2 file_item ps ds) = ps" using assms(2) by (intro nth_equalityI) (auto simp: file_item_def)
  moreover have "mset (map (\<lambda>(p, d). file_item p d) ?z) = mset (map (\<lambda>(p, d). file_item p d) (sorted_files ?z))"
    by (simp add: sorted_files_def)
  ultimately have "tree_hash (map2 file_item ps ds) = tree_hash (map (\<lambda>(p, d). file_item p d) (sorted_files ?z))"
    using assms(1) by (intro tree_hash_perm) simp_all
  then show ?thesis by (simp add: tree_hash_for_directory_def)
qed

text \<open>A manifest that lists every path once, and in its plain spelling, as one that was built does.\<close>

definition lists_plainly :: "archive_manifest \<Rightarrow> bool" where
  "lists_plainly m \<longleftrightarrow> distinct (map f_path (am_files m)) \<and> (\<forall>e \<in> set (am_files m). plain_path (f_path e) = f_path e)"

lemma lists_plainly_built: "dir_ok d \<Longrightarrow> lists_plainly (new_manifest source (map built_entry (sorted_files d)))"
  using distinct_sorted_files [of d] by (auto simp: lists_plainly_def new_manifest_def comp_def dir_ok_def)

lemma restore_sound:
  assumes "snd (restore_directory_archive cv mv ar) = Inr r"
  obtains manifest where "read_archive_manifest mv ar = Inr manifest" and "rr_tree_sha256 r = am_tree_sha256 manifest"
    and "\<forall>(p, data) \<in> set (out_files (fst (restore_directory_archive cv mv ar))).
      \<exists>entry \<in> set (am_files manifest). p = plain_path (f_path entry) \<and> path_contained (f_path entry) \<and> entry_matches entry data"
    and "fst ` set (out_files (fst (restore_directory_archive cv mv ar))) = plain_path ` f_path ` set (am_files manifest)"
    and "lists_plainly manifest \<Longrightarrow>
      tree_hash_for_directory (out_files (fst (restore_directory_archive cv mv ar))) = am_tree_sha256 manifest"
proof -
  obtain manifest ds where m: "archive_reads cv mv ar manifest ds" "layout_ok (map f_path (am_files manifest))"
    and out: "out_files (fst (restore_directory_archive cv mv ar)) =
      pydict_of (zip (map (\<lambda>e. plain_path (f_path e)) (am_files manifest)) ds)"
    by (rule restore_files [OF assms])
  let ?ps = "map f_path (am_files manifest)" let ?plain = "map (\<lambda>e. plain_path (f_path e)) (am_files manifest)"
  have reads: "reads_entries cv ar manifest (am_files manifest) ds"
    and tree: "tree_hash (items_of (am_files manifest) ds) = am_tree_sha256 manifest"
    and man: "read_archive_manifest mv ar = Inr manifest" using m(1) by (simp_all add: archive_reads_def)
  have len: "length ?ps = length ds" using reads by (auto simp: reads_entries_def dest: list_all2_lengthD)
  have "rr_tree_sha256 r = am_tree_sha256 manifest"
    using assms m tree by (auto simp: restore_Inr_iff restore_receipt_of_def archive_reads_def)
  moreover have "\<exists>entry \<in> set (am_files manifest). p = plain_path (f_path entry) \<and> path_contained (f_path entry) \<and> entry_matches entry data"
    if given: "(p, data) \<in> set (pydict_of (zip ?plain ds))" for p data
  proof -
    obtain i where i: "i < length ds" "p = plain_path (?ps ! i)" "data = ds ! i"
      using subsetD [OF set_pydict_of given] len by (auto simp: set_zip)
    then have "(?ps ! i, data) \<in> set (zip ?ps ds)" using i(1,3) len nth_mem [of i "zip ?ps ds"] by simp
    then have "read_archive_file cv ar (?ps ! i) manifest = Inr data" by (rule reads_entries_zip [OF reads])
    from read_archive_file_sound [OF this] obtain entry where "path_contained (?ps ! i)" "entry \<in> set (am_files manifest)"
        "f_path entry = ?ps ! i" "entry_matches entry data" by blast
    then show ?thesis using i(2) by (intro bexI [of _ entry]) simp_all
  qed
  moreover have "fst ` set (pydict_of (zip ?plain ds)) = plain_path ` f_path ` set (am_files manifest)"
  proof -
    have "map fst (zip ?plain ds) = ?plain" using len by simp
    then have "fst ` set (zip ?plain ds) = set ?plain" by (metis list.set_map)
    then show ?thesis by (simp add: keys_pydict_of image_image)
  qed
  moreover have "tree_hash_for_directory (pydict_of (zip ?plain ds)) = am_tree_sha256 manifest"
    if "distinct ?ps" and "\<forall>e \<in> set (am_files manifest). plain_path (f_path e) = f_path e"
  proof -
    have "?plain = ?ps" using that(2) by simp
    then have "pydict_of (zip ?plain ds) = zip ?ps ds" using that(1) len by (simp only:) (rule pydict_of_distinct, simp)
    moreover have "items_of (am_files manifest) ds = map2 file_item ?ps ds" by (simp add: items_of_def zip_map1 comp_def case_prod_beta)
    ultimately show ?thesis using tree_hash_zip [OF that(1) len] tree by simp
  qed
  ultimately show thesis using man by (intro that) (auto simp: out lists_plainly_def)
qed

text \<open>The parent directory of an entry is made before its path is checked.\<close>

lemma restore_escape:
  assumes "read_archive_manifest mv ar = Inr manifest" and "am_files manifest = entry # rest"
    and "\<not> path_contained (f_path entry)"
  shows "restore_directory_archive cv mv ar =
    (\<lparr>out_made = [parent_of (f_path entry)], out_files = []\<rparr>,
     Inl (ArchiveError ''archive path must be relative and contained''))"
  using assms by (simp add: restore_directory_archive_def read_archive_file_def make_parent_def Let_def)

section \<open>A path that is not plainly spelt\<close>

text \<open>
  Restoring writes \<open>./x\<close> as \<open>x\<close>. The tree digest of the manifest names the path as the manifest spells it, so
  what was written has another tree digest, unless the two rows collide.
\<close>

lemma restore_respells:
  assumes "snd (restore_directory_archive cv mv ar) = Inr r" and "read_archive_manifest mv ar = Inr manifest"
    and "am_files manifest = [entry]" and "f_path entry = ''./x''"
    and "\<not> collision (tree_row entry) (tree_row (entry\<lparr>f_path := ''x''\<rparr>))"
  shows "fst ` set (out_files (fst (restore_directory_archive cv mv ar))) = {''x''}"
    and "tree_hash_for_directory (out_files (fst (restore_directory_archive cv mv ar))) \<noteq> am_tree_sha256 manifest"
proof -
  obtain m ds where m: "archive_reads cv mv ar m ds" and out: "out_files (fst (restore_directory_archive cv mv ar)) =
      pydict_of (zip (map (\<lambda>e. plain_path (f_path e)) (am_files m)) ds)"
    by (rule restore_files [OF assms(1)])
  have man: "m = manifest" and reads: "reads_entries cv ar manifest [entry] ds"
    and tree: "tree_hash (items_of [entry] ds) = am_tree_sha256 manifest"
    using m assms(2,3) by (auto simp: archive_reads_def)
  then obtain d where d: "ds = [d]" "read_archive_file cv ar ''./x'' manifest = Inr d"
    using assms(4) by (cases ds) (auto simp: reads_entries_def)
  have e: "entry_matches entry d" using read_archive_file_sound [OF d(2)] assms(3) by auto
  have "plain_path ''./x'' = ''x''" by (simp add: plain_path_def path_parts_def)
  then have files: "out_files (fst (restore_directory_archive cv mv ar)) = [(''x'', d)]"
    using out man assms(3,4) d(1) by (simp add: pydict_of_def)
  then show "fst ` set (out_files (fst (restore_directory_archive cv mv ar))) = {''x''}" by simp
  have rows: "tree_row (file_item ''./x'' d) = tree_row entry" "tree_row (file_item ''x'' d) = tree_row (entry\<lparr>f_path := ''x''\<rparr>)"
    using e assms(4) by (simp_all add: tree_row_def file_item_def entry_matches_def)
  have "am_tree_sha256 manifest = hexdigest (tree_row entry)"
    using tree rows(1) assms(4) d(1) by (simp add: items_of_def tree_hash_def)
  moreover have "tree_hash_for_directory [(''x'', d)] = hexdigest (tree_row (entry\<lparr>f_path := ''x''\<rparr>))"
    using rows(2) by (simp add: tree_hash_for_directory_def tree_hash_def sorted_files_def)
  moreover have "tree_row entry \<noteq> tree_row (entry\<lparr>f_path := ''x''\<rparr>)"
  proof
    assume "tree_row entry = tree_row (entry\<lparr>f_path := ''x''\<rparr>)"
    then have "length (tree_row entry) = length (tree_row (entry\<lparr>f_path := ''x''\<rparr>))" by (rule arg_cong)
    then show False using assms(4) by (simp add: tree_row_def utf8_def utf8_char_def)
  qed
  then have "hexdigest (tree_row entry) \<noteq> hexdigest (tree_row (entry\<lparr>f_path := ''x''\<rparr>))"
    using assms(5) unfolding collision_def hexdigest_eq_iff by blast
  ultimately show "tree_hash_for_directory (out_files (fst (restore_directory_archive cv mv ar))) \<noteq> am_tree_sha256 manifest"
    unfolding files by argo
qed

end
