(* ===== verification/Bogboot.thy ===== *)
theory Bogboot
  imports Json
begin

text \<open>
  The verified boot and device-event ledger, \<^verbatim>\<open>src/bogvm/bogboot.py\<close>: \<open>boot\<close> validates a device manifest and
  starts a hardware state, \<open>irq_claim\<close> admits or quarantines one device event, \<open>verify\<close> re-checks the
  whole ledger.

  The files under the \<open>bogboot\<close> directory are the record \<open>hw_store\<close>: the manifest and state files,
  absent before the first boot, and the two directories of claim receipts. JSON documents with a fixed
  set of keys are records, with a function that gives the JSON value that the source hashes. Every
  memory region has a name; \<open>None\<close> stands for a start or size that is not an integer. The receipt is the
  value that the source hands to \<open>Genesis.record\<close>.
\<close>

section \<open>Data\<close>

record hw_device =
  dv_capability :: "string option"
  dv_irq :: "int option"

record mem_region =
  mr_name :: string
  mr_start :: "int option"
  mr_size :: "int option"
  mr_kind :: string

record hw_manifest =
  hm_format :: string
  hm_platform :: "string option"
  hm_devices :: "(string, hw_device) pydict"
  hm_memory_map :: "mem_region list"

record device_state =
  ds_event_count :: int
  ds_last_payload_sha256 :: "string option"

record hw_state =
  hw_platform :: "string option"
  hw_manifest_sha256 :: string
  hw_tick :: int
  hw_claim_sequence :: int
  hw_accepted_claims :: "string list"
  hw_quarantined_claims :: "string list"
  hw_devices :: "(string, device_state) pydict"
  hw_state_root :: string

record claim_core =
  cc_source :: string
  cc_timestamp_tick :: int
  cc_raw_payload_sha256 :: string
  cc_decoded_event :: json
  cc_capability_required :: "string option"
  cc_capabilities_presented :: "string list"
  cc_state_root_before :: string

record irq_receipt =
  ir_claim_id :: string
  ir_core :: claim_core
  ir_accepted :: bool
  ir_state_root_after :: string
  ir_failures :: "(string \<times> string) list"

record hw_store =
  hs_manifest :: "hw_manifest option"
  hs_state :: "hw_state option"
  hs_claims :: "(string, irq_receipt) pydict"
  hs_quarantine :: "(string, irq_receipt) pydict"

definition BOOT_FORMAT :: string where
  "BOOT_FORMAT = ''BOGBOOT-receipt-13.0''"

definition HARDWARE_STATE_FORMAT :: string where
  "HARDWARE_STATE_FORMAT = ''BOGHW-state-14.0''"

definition DEFAULT_MANIFEST :: hw_manifest where
  "DEFAULT_MANIFEST =
    \<lparr>hm_format = ''BOGHW-device-manifest-14.0'', hm_platform = Some ''qemu-virt-reference'',
     hm_devices =
      [(''serial'', \<lparr>dv_capability = Some ''hardware.serial.input'', dv_irq = Some 4\<rparr>),
       (''timer'', \<lparr>dv_capability = Some ''hardware.timer.tick'', dv_irq = Some 0\<rparr>),
       (''keyboard'', \<lparr>dv_capability = Some ''hardware.keyboard.input'', dv_irq = Some 1\<rparr>),
       (''block_device'', \<lparr>dv_capability = Some ''hardware.block.read'', dv_irq = Some 14\<rparr>),
       (''framebuffer'', \<lparr>dv_capability = Some ''hardware.framebuffer.event'', dv_irq = None\<rparr>)],
     hm_memory_map =
      [\<lparr>mr_name = ''boot'', mr_start = Some 0x00100000, mr_size = Some 0x00010000, mr_kind = ''reserved''\<rparr>,
       \<lparr>mr_name = ''bogk'', mr_start = Some 0x00110000, mr_size = Some 0x00090000, mr_kind = ''reserved''\<rparr>,
       \<lparr>mr_name = ''available'', mr_start = Some 0x00200000, mr_size = Some 0x03E00000, mr_kind = ''available''\<rparr>]\<rparr>"

section \<open>Digests\<close>

definition opt_json :: "('a \<Rightarrow> json) \<Rightarrow> 'a option \<Rightarrow> json" where
  "opt_json f v = (case v of None \<Rightarrow> JNull | Some x \<Rightarrow> f x)"

definition stable_hash :: "json \<Rightarrow> string" where
  "stable_hash obj = hexdigest (utf8 (dumps obj))"

definition region_json :: "mem_region \<Rightarrow> json" where
  "region_json r = JObj [(''name'', JStr (mr_name r)), (''start'', opt_json JInt (mr_start r)),
     (''size'', opt_json JInt (mr_size r)), (''kind'', JStr (mr_kind r))]"

definition manifest_json :: "hw_manifest \<Rightarrow> json" where
  "manifest_json m = JObj
    [(''format'', JStr (hm_format m)), (''platform'', opt_json JStr (hm_platform m)),
     (''devices'', JObj (map (\<lambda>(name, d). (name, JObj [(''capability'', opt_json JStr (dv_capability d)),
        (''irq'', opt_json JInt (dv_irq d))])) (hm_devices m))),
     (''memory_map'', JList (map region_json (hm_memory_map m)))]"

text \<open>The state without its own root: the dictionary that \<open>_state_root\<close> hashes.\<close>

definition state_json :: "hw_state \<Rightarrow> json" where
  "state_json s = JObj
    [(''format'', JStr HARDWARE_STATE_FORMAT), (''platform'', opt_json JStr (hw_platform s)),
     (''manifest_sha256'', JStr (hw_manifest_sha256 s)), (''tick'', JInt (hw_tick s)),
     (''claim_sequence'', JInt (hw_claim_sequence s)),
     (''accepted_claims'', JList (map JStr (hw_accepted_claims s))),
     (''quarantined_claims'', JList (map JStr (hw_quarantined_claims s))),
     (''devices'', JObj (map (\<lambda>(name, d). (name, JObj [(''event_count'', JInt (ds_event_count d)),
        (''last_payload_sha256'', opt_json JStr (ds_last_payload_sha256 d))])) (hw_devices s)))]"

definition state_root :: "hw_state \<Rightarrow> string" where
  "state_root s = stable_hash (state_json s)"

definition core_json :: "claim_core \<Rightarrow> json" where
  "core_json c = JObj
    [(''source'', JStr (cc_source c)), (''timestamp_tick'', JInt (cc_timestamp_tick c)),
     (''raw_payload_sha256'', JStr (cc_raw_payload_sha256 c)), (''decoded_event'', cc_decoded_event c),
     (''capability_required'', opt_json JStr (cc_capability_required c)),
     (''capabilities_presented'', JList (map JStr (cc_capabilities_presented c))),
     (''state_root_before'', JStr (cc_state_root_before c))]"

section \<open>Validating a manifest\<close>

definition bad_region :: "mem_region \<Rightarrow> bool" where
  "bad_region r \<longleftrightarrow> (case (mr_start r, mr_size r) of
     (Some start, Some sz) \<Rightarrow> start < 0 \<or> sz \<le> 0 | _ \<Rightarrow> True)"

definition region_range :: "mem_region \<Rightarrow> int \<times> int \<times> string" where
  "region_range r = (case (mr_start r, mr_size r) of
     (Some start, Some sz) \<Rightarrow> (start, start + sz, mr_name r) | _ \<Rightarrow> (0, 0, mr_name r))"

definition overlap_failure :: "(int \<times> int \<times> string) \<times> (int \<times> int \<times> string) \<Rightarrow> (string \<times> string) list" where
  "overlap_failure = (\<lambda>((start1, end1, name1), (start2, end2, name2)).
     if start2 < end1
     then [(''memory_map'', ''overlapping memory ranges: '' @ name1 @ '' and '' @ name2)] else [])"

definition validate_manifest :: "hw_manifest \<Rightarrow> (string \<times> string) list" where
  "validate_manifest m =
    (let ranges = sort (map region_range (filter (\<lambda>r. \<not> bad_region r) (hm_memory_map m)))
     in (if hm_platform m \<noteq> Some ''qemu-virt-reference''
         then [(''platform'', ''BogBoot v0.1 supports only qemu-virt-reference'')] else []) @
        (if \<not> {''serial'', ''timer''} \<subseteq> fst ` set (hm_devices m)
         then [(''devices'', ''serial and timer devices are required'')] else []) @
        map (\<lambda>r. (''memory_map'', ''memory ranges require non-negative start and positive size''))
          (filter bad_region (hm_memory_map m)) @
        concat (map overlap_failure (zip ranges (drop 1 ranges))))"

section \<open>Boot\<close>

record boot_receipt =
  br_platform :: "string option"
  br_initialized_devices :: "string list"
  br_memory_map :: "mem_region list"
  br_device_manifest_sha256 :: string
  br_hardware_state_root_sha256 :: "string option"
  br_failures :: "(string \<times> string) list"
  br_execution_status :: string

definition initial_state :: "hw_manifest \<Rightarrow> hw_state" where
  "initial_state m =
    (let s = \<lparr>hw_platform = hm_platform m, hw_manifest_sha256 = stable_hash (manifest_json m), hw_tick = 0,
              hw_claim_sequence = 0, hw_accepted_claims = [], hw_quarantined_claims = [],
              hw_devices = map (\<lambda>name. (name, \<lparr>ds_event_count = 0, ds_last_payload_sha256 = None\<rparr>))
                (sort (map fst (hm_devices m))),
              hw_state_root = []\<rparr>
     in s\<lparr>hw_state_root := state_root s\<rparr>)"

definition boot :: "hw_store \<Rightarrow> hw_manifest option \<Rightarrow> hw_store \<times> boot_receipt" where
  "boot st given =
    (let m = (case given of None \<Rightarrow> DEFAULT_MANIFEST | Some x \<Rightarrow> x);
         failures = validate_manifest m;
         s = initial_state m;
         st' = (if failures = [] then st\<lparr>hs_manifest := Some m, hs_state := Some s\<rparr> else st)
     in (st', \<lparr>br_platform = hm_platform m, br_initialized_devices = sort (map fst (hm_devices m)),
               br_memory_map = hm_memory_map m, br_device_manifest_sha256 = stable_hash (manifest_json m),
               br_hardware_state_root_sha256 = (if failures = [] then Some (hw_state_root s) else None),
               br_failures = failures,
               br_execution_status = (if failures = [] then ''completed'' else ''blocked'')\<rparr>))"

section \<open>Device events\<close>

definition load_store :: "hw_store \<Rightarrow> (hw_state \<times> hw_manifest) res" where
  "load_store st = (case (hs_state st, hs_manifest st) of
     (Some s, Some m) \<Rightarrow> Inr (s, m)
   | _ \<Rightarrow> Inl (BogBootError ''BogBoot has not completed''))"

definition opt_text :: "string option \<Rightarrow> string" where
  "opt_text v = (case v of None \<Rightarrow> ''None'' | Some s \<Rightarrow> s)"

definition claim_failures ::
  "hw_state \<Rightarrow> string \<Rightarrow> hw_device option \<Rightarrow> string option \<Rightarrow> string list \<Rightarrow> int \<Rightarrow> (string \<times> string) list" where
  "claim_failures s source device required capabilities tick =
    (if device = None then [(source, ''device is not declared by hardware manifest'')] else []) @
    (if required \<notin> Some ` set capabilities
     then [(source, ''missing hardware capability: '' @ opt_text required)] else []) @
    (if tick \<le> hw_tick s then [(str_int tick, ''hardware tick must increase monotonically'')] else [])"

definition admit_event :: "hw_state \<Rightarrow> claim_core \<Rightarrow> string \<Rightarrow> hw_state res" where
  "admit_event s core claim_id =
    (case map_of (hw_devices s) (cc_source core) of
       None \<Rightarrow> Inl (KeyError (cc_source core))
     | Some d \<Rightarrow>
         Inr (s\<lparr>hw_tick := cc_timestamp_tick core, hw_accepted_claims := hw_accepted_claims s @ [claim_id],
                hw_devices := AList.update (cc_source core)
                  \<lparr>ds_event_count = ds_event_count d + 1,
                   ds_last_payload_sha256 = Some (cc_raw_payload_sha256 core)\<rparr> (hw_devices s)\<rparr>))"

text \<open>The file name \<open>{claim_sequence:06d}_{claim_id}.json\<close>.\<close>

definition pad6 :: "nat \<Rightarrow> string" where
  "pad6 n = replicate (6 - length (str_nat n)) (CHR ''0'') @ str_nat n"

definition claim_file :: "int \<Rightarrow> string \<Rightarrow> string" where
  "claim_file seq claim_id = pad6 (nat seq) @ ''_'' @ claim_id @ ''.json''"

definition irq_claim ::
  "hw_store \<Rightarrow> string \<Rightarrow> bytes \<Rightarrow> json \<Rightarrow> string list \<Rightarrow> int option \<Rightarrow> (hw_store \<times> irq_receipt) res" where
  "irq_claim st source payload decoded_event capabilities timestamp_tick =
    rbind (load_store st) (\<lambda>(s, m).
    let device = map_of (hm_devices m) source;
        tick = (case timestamp_tick of None \<Rightarrow> hw_tick s + 1 | Some t \<Rightarrow> t);
        required = (case device of None \<Rightarrow> None | Some d \<Rightarrow> dv_capability d);
        failures = claim_failures s source device required capabilities tick;
        core = \<lparr>cc_source = source, cc_timestamp_tick = tick, cc_raw_payload_sha256 = hexdigest payload,
                cc_decoded_event = decoded_event, cc_capability_required = required,
                cc_capabilities_presented = sort (remdups capabilities), cc_state_root_before = hw_state_root s\<rparr>;
        claim_id = stable_hash (core_json core);
        s1 = s\<lparr>hw_claim_sequence := hw_claim_sequence s + 1\<rparr>
    in rbind (if failures \<noteq> [] then Inr (s1\<lparr>hw_quarantined_claims := hw_quarantined_claims s1 @ [claim_id]\<rparr>)
              else admit_event s1 core claim_id) (\<lambda>s2.
       let s3 = s2\<lparr>hw_state_root := state_root s2\<rparr>;
           receipt = \<lparr>ir_claim_id = claim_id, ir_core = core, ir_accepted = (failures = []),
                      ir_state_root_after = hw_state_root s3, ir_failures = failures\<rparr>;
           file = claim_file (hw_claim_sequence s3) claim_id;
           st1 = st\<lparr>hs_state := Some s3\<rparr>
       in Inr (if failures = [] then st1\<lparr>hs_claims := AList.update file receipt (hs_claims st1)\<rparr>
               else st1\<lparr>hs_quarantine := AList.update file receipt (hs_quarantine st1)\<rparr>, receipt)))"

section \<open>Verifying the ledger\<close>

definition bad_claims :: "(string, irq_receipt) pydict \<Rightarrow> (string \<times> string) list" where
  "bad_claims claims = map (\<lambda>(path, c). (path, ''IRQ claim hash mismatch''))
     (filter (\<lambda>(path, c). ir_claim_id c \<noteq> stable_hash (core_json (ir_core c))) (sort_key fst claims))"

definition verify_ledger :: "hw_store \<Rightarrow> (string \<times> string) list" where
  "verify_ledger st = (case load_store st of
     Inl e \<Rightarrow> [(''bogboot'', ''BogBoot has not completed'')]
   | Inr (s, m) \<Rightarrow>
       validate_manifest m @
       (if hw_manifest_sha256 s \<noteq> stable_hash (manifest_json m)
        then [(''device_manifest.json'', ''hardware manifest hash mismatch'')] else []) @
       (if hw_state_root s \<noteq> state_root s
        then [(''hardware_state.json'', ''hardware state root mismatch'')] else []) @
       (if int (length (hs_claims st) + length (hs_quarantine st)) \<noteq> hw_claim_sequence s
        then [(''bogboot'', ''hardware claim sequence mismatch'')] else []) @
       bad_claims (hs_claims st) @ bad_claims (hs_quarantine st))"

end
