(* ===== verification/Bogboot_Correct.thy ===== *)
theory Bogboot_Correct
  imports Bogboot
begin

text \<open>
  Correctness of the boot ledger: the memory-map check is exactly pairwise disjointness, every sequence of
  device events after a boot keeps the ledger verifiable, ticks only increase, and an event is admitted
  exactly under the conditions the source names.
\<close>

section \<open>The memory map\<close>

text \<open>Two ranges are apart when one ends before the other starts.\<close>

definition range_apart :: "int \<times> int \<times> string \<Rightarrow> int \<times> int \<times> string \<Rightarrow> bool" where
  "range_apart = (\<lambda>(start1, end1, _) (start2, end2, _). end1 \<le> start2 \<or> end2 \<le> start1)"

lemma range_apart_sym: "range_apart a b = range_apart b a"
  by (auto simp: range_apart_def split: prod.splits)

lemma sorted_wrt_insort_sym:
  assumes "\<And>a b. P a b = P b a"
  shows "sorted_wrt P (insort x xs) \<longleftrightarrow> (\<forall>y \<in> set xs. P x y) \<and> sorted_wrt P xs"
  using assms by (induction xs) (auto simp: set_insort_key)

lemma sorted_wrt_sort_sym:
  assumes "\<And>a b. P a b = P b a"
  shows "sorted_wrt P (sort xs) \<longleftrightarrow> sorted_wrt P xs"
  using assms by (induction xs) (simp_all add: sorted_wrt_insort_sym)

lemma no_overlap_iff:
  assumes "sorted rs" and "\<forall>(s, e, n) \<in> set rs. s < e"
  shows "concat (map overlap_failure (zip rs (drop 1 rs))) = [] \<longleftrightarrow> sorted_wrt range_apart rs"
  using assms
proof (induction rs rule: induct_list012)
  case (3 a b rs)
  obtain s1 e1 n1 s2 e2 n2 where ab: "a = (s1, e1, n1)" "b = (s2, e2, n2)" by (metis prod.exhaust)
  have IH: "concat (map overlap_failure (zip (b # rs) (drop 1 (b # rs)))) = [] \<longleftrightarrow> sorted_wrt range_apart (b # rs)"
    by (rule "3.IH"(2)) (use 3 in auto)
  have lt: "s1 < e1" "s2 < e2" and le: "s1 \<le> s2" using "3.prems" ab by (auto simp: less_eq_prod_def)
  have later: "s2 \<le> s" if "(s, e, n) \<in> set rs" for s e n
    using "3.prems"(1) that ab by (force simp: less_eq_prod_def)
  have "range_apart a b \<longleftrightarrow> e1 \<le> s2" using lt le ab by (auto simp: range_apart_def)
  moreover have "range_apart a c" if "c \<in> set rs" "e1 \<le> s2" for c
    using later that ab by (cases c) (force simp: range_apart_def)
  ultimately show ?case using IH ab by (auto simp: overlap_failure_def)
qed auto

lemma validate_manifest_iff:
  "validate_manifest m = [] \<longleftrightarrow> hm_platform m = Some ''qemu-virt-reference'' \<and>
    {''serial'', ''timer''} \<subseteq> fst ` set (hm_devices m) \<and> (\<forall>r \<in> set (hm_memory_map m). \<not> bad_region r) \<and>
    sorted_wrt range_apart (map region_range (hm_memory_map m))"
proof (cases "\<forall>r \<in> set (hm_memory_map m). \<not> bad_region r")
  case True
  let ?rs = "sort (map region_range (hm_memory_map m))"
  have "\<forall>(s, e, n) \<in> set ?rs. s < e"
    using True by (auto simp: bad_region_def region_range_def split: option.splits)
  then have "concat (map overlap_failure (zip ?rs (drop 1 ?rs))) = [] \<longleftrightarrow> sorted_wrt range_apart (map region_range (hm_memory_map m))"
    using no_overlap_iff [of ?rs] sorted_wrt_sort_sym [of range_apart] range_apart_sym by simp
  moreover have "filter (\<lambda>r. \<not> bad_region r) (hm_memory_map m) = hm_memory_map m"
    "filter bad_region (hm_memory_map m) = []"
    using True by (simp_all add: filter_id_conv filter_empty_conv)
  ultimately show ?thesis using True by (auto simp: validate_manifest_def Let_def)
next
  case False
  then show ?thesis by (auto simp: validate_manifest_def Let_def filter_empty_conv)
qed

text \<open>The check stated on addresses.\<close>

lemma validate_manifest_exact:
  "validate_manifest m = [] \<longleftrightarrow> hm_platform m = Some ''qemu-virt-reference'' \<and>
    ''serial'' \<in> fst ` set (hm_devices m) \<and> ''timer'' \<in> fst ` set (hm_devices m) \<and>
    (\<forall>r \<in> set (hm_memory_map m). \<exists>start sz. mr_start r = Some start \<and> mr_size r = Some sz \<and> 0 \<le> start \<and> 0 < sz) \<and>
    (\<forall>i j start1 sz1 start2 sz2. i < j \<and> j < length (hm_memory_map m) \<and>
      mr_start (hm_memory_map m ! i) = Some start1 \<and> mr_size (hm_memory_map m ! i) = Some sz1 \<and>
      mr_start (hm_memory_map m ! j) = Some start2 \<and> mr_size (hm_memory_map m ! j) = Some sz2 \<longrightarrow>
      {start1..<start1 + sz1} \<inter> {start2..<start2 + sz2} = {})"
proof -
  let ?mm = "hm_memory_map m"
  have good: "\<not> bad_region r \<longleftrightarrow> (\<exists>start sz. mr_start r = Some start \<and> mr_size r = Some sz \<and> 0 \<le> start \<and> 0 < sz)" for r
    by (auto simp: bad_region_def split: option.splits)
  have apart: "range_apart (region_range a) (region_range b) \<longleftrightarrow> {s1..<s1 + z1} \<inter> {s2..<s2 + z2} = {}"
    if "mr_start a = Some s1" "mr_size a = Some z1" "mr_start b = Some s2" "mr_size b = Some z2" "0 < z1" "0 < z2"
    for a b s1 z1 s2 z2
    using that by (auto simp: range_apart_def region_range_def ivl_disj_int)
  have "sorted_wrt range_apart (map region_range ?mm) \<longleftrightarrow>
    (\<forall>i j start1 sz1 start2 sz2. i < j \<and> j < length ?mm \<and>
      mr_start (?mm ! i) = Some start1 \<and> mr_size (?mm ! i) = Some sz1 \<and>
      mr_start (?mm ! j) = Some start2 \<and> mr_size (?mm ! j) = Some sz2 \<longrightarrow>
      {start1..<start1 + sz1} \<inter> {start2..<start2 + sz2} = {})" (is "?l \<longleftrightarrow> ?r")
    if g: "\<forall>r \<in> set ?mm. \<not> bad_region r"
  proof -
    have parts: "\<exists>s z. mr_start (?mm ! i) = Some s \<and> mr_size (?mm ! i) = Some z \<and> 0 < z" if "i < length ?mm" for i
      using g good nth_mem [OF that] by blast
    have "?l \<longleftrightarrow> (\<forall>i j. i < j \<longrightarrow> j < length ?mm \<longrightarrow> range_apart (region_range (?mm ! i)) (region_range (?mm ! j)))"
      by (auto simp: sorted_wrt_iff_nth_less)
    also have "\<dots> \<longleftrightarrow> ?r"
    proof (intro iffI allI impI)
      fix i j s1 z1 s2 z2
      assume all: "\<forall>i j. i < j \<longrightarrow> j < length ?mm \<longrightarrow> range_apart (region_range (?mm ! i)) (region_range (?mm ! j))"
        and a: "i < j \<and> j < length ?mm \<and> mr_start (?mm ! i) = Some s1 \<and> mr_size (?mm ! i) = Some z1 \<and>
          mr_start (?mm ! j) = Some s2 \<and> mr_size (?mm ! j) = Some z2"
      then have "0 < z1" "0 < z2" using parts [of i] parts [of j] by auto
      then show "{s1..<s1 + z1} \<inter> {s2..<s2 + z2} = {}" using apart [of "?mm ! i" s1 z1 "?mm ! j" s2 z2] all a by blast
    next
      fix i j
      assume all: ?r and ij: "i < j" "j < length ?mm"
      then obtain s1 z1 s2 z2 where p: "mr_start (?mm ! i) = Some s1" "mr_size (?mm ! i) = Some z1" "0 < z1"
        "mr_start (?mm ! j) = Some s2" "mr_size (?mm ! j) = Some z2" "0 < z2"
        using parts [of i] parts [of j] by auto
      then show "range_apart (region_range (?mm ! i)) (region_range (?mm ! j))"
        using apart [of "?mm ! i" s1 z1 "?mm ! j" s2 z2] all ij by blast
    qed
    finally show ?thesis .
  qed
  then show ?thesis unfolding validate_manifest_iff by (auto simp: good)
qed

section \<open>Claim files\<close>

lemma pad6_digits: "c \<in> set (pad6 n) \<Longrightarrow> is_digit c"
  by (auto simp: pad6_def is_digit_def [of "CHR ''0''"] dest: str_nat_digits)

lemma pad6_inject: "pad6 m = pad6 n \<Longrightarrow> m = n"
proof -
  have val: "nat_of_digits 0 (pad6 k) = k" for k
    by (simp add: pad6_def nat_of_digits_append nat_of_digits_zeros nat_of_digits_str_nat)
  show "pad6 m = pad6 n \<Longrightarrow> m = n" using val by metis
qed

lemma claim_file_seq:
  assumes "claim_file k a = claim_file l b"
  shows "nat k = nat l"
proof -
  have "takeWhile is_digit (claim_file i c) = pad6 (nat i)" for i c
    using pad6_digits by (simp add: claim_file_def takeWhile_append2 is_digit_def [of "CHR ''_''"])
  then show ?thesis using assms pad6_inject by metis
qed

section \<open>The ledger invariant\<close>

definition receipts_ok :: "int \<Rightarrow> (string, irq_receipt) pydict \<Rightarrow> bool" where
  "receipts_ok n claims \<longleftrightarrow> (\<forall>(file, c) \<in> set claims. ir_claim_id c = stable_hash (core_json (ir_core c)) \<and>
     (\<exists>k. 1 \<le> k \<and> k \<le> n \<and> file = claim_file k (ir_claim_id c)))"

definition ledger_ok :: "hw_store \<Rightarrow> bool" where
  "ledger_ok st \<longleftrightarrow> (case (hs_state st, hs_manifest st) of
     (Some s, Some m) \<Rightarrow>
       validate_manifest m = [] \<and> hw_manifest_sha256 s = stable_hash (manifest_json m) \<and>
       hw_state_root s = state_root s \<and> fst ` set (hw_devices s) = fst ` set (hm_devices m) \<and>
       length (hw_accepted_claims s) = length (hs_claims st) \<and>
       length (hw_quarantined_claims s) = length (hs_quarantine st) \<and>
       hw_claim_sequence s = int (length (hs_claims st) + length (hs_quarantine st)) \<and>
       receipts_ok (hw_claim_sequence s) (hs_claims st) \<and> receipts_ok (hw_claim_sequence s) (hs_quarantine st)
   | _ \<Rightarrow> False)"

lemma receipts_bad_claims: "receipts_ok n claims \<Longrightarrow> bad_claims claims = []"
  by (auto simp: receipts_ok_def bad_claims_def filter_empty_conv)

lemma ledger_verifies: "ledger_ok st \<Longrightarrow> verify_ledger st = []"
  by (auto simp: ledger_ok_def verify_ledger_def load_store_def receipts_bad_claims split: option.splits)

lemma state_root_update [simp]: "state_root (s\<lparr>hw_state_root := r\<rparr>) = state_root s"
  by (simp add: state_root_def state_json_def)

lemma initial_state_ok:
  "hw_manifest_sha256 (initial_state m) = stable_hash (manifest_json m)"
  "hw_state_root (initial_state m) = state_root (initial_state m)"
  "fst ` set (hw_devices (initial_state m)) = fst ` set (hm_devices m)"
  "hw_accepted_claims (initial_state m) = []" "hw_quarantined_claims (initial_state m) = []"
  "hw_claim_sequence (initial_state m) = 0" "hw_tick (initial_state m) = 0"
  by (simp_all add: initial_state_def Let_def image_image) (simp add: state_root_def state_json_def)

lemma boot_ok:
  assumes "hs_claims st = []" and "hs_quarantine st = []" and "boot st given = (st', r)" and "br_failures r = []"
  shows "ledger_ok st'"
  using assms by (auto simp: boot_def Let_def ledger_ok_def initial_state_ok receipts_ok_def)

text \<open>A file for the next sequence number is new in both directories.\<close>

lemma fresh_file:
  assumes "receipts_ok n claims" and "0 \<le> n"
  shows "claim_file (n + 1) cid \<notin> fst ` set claims"
proof
  assume "claim_file (n + 1) cid \<in> fst ` set claims"
  then obtain c where "(claim_file (n + 1) cid, c) \<in> set claims" by auto
  then obtain k where k: "1 \<le> k" "k \<le> n" "claim_file (n + 1) cid = claim_file k (ir_claim_id c)"
    using assms(1) by (fastforce simp: receipts_ok_def)
  then have "nat (n + 1) = nat k" by (intro claim_file_seq)
  then show False using k by linarith
qed

lemma receipts_mono: "receipts_ok n claims \<Longrightarrow> receipts_ok (n + 1) claims"
  by (fastforce simp: receipts_ok_def)

lemma receipts_add:
  assumes "receipts_ok n claims" and "0 \<le> n" and "ir_claim_id c = stable_hash (core_json (ir_core c))"
    and "file = claim_file (n + 1) (ir_claim_id c)"
  shows "receipts_ok (n + 1) (AList.update file c claims)" and "length (AList.update file c claims) = Suc (length claims)"
proof -
  have new: "AList.update file c claims = claims @ [(file, c)]"
    unfolding assms(4) by (rule update_new [OF fresh_file [OF assms(1,2)]])
  have "\<exists>k. 1 \<le> k \<and> k \<le> n + 1 \<and> file = claim_file k (ir_claim_id c)" using assms(2,4) by (intro exI [of _ "n + 1"]) simp
  then show "receipts_ok (n + 1) (AList.update file c claims)"
    unfolding new using receipts_mono [OF assms(1)] assms(3) by (simp add: receipts_ok_def)
  show "length (AList.update file c claims) = Suc (length claims)" by (simp add: new)
qed

section \<open>Device events\<close>

text \<open>The conditions under which an event is admitted.\<close>

definition admits :: "hw_state \<Rightarrow> hw_manifest \<Rightarrow> string \<Rightarrow> string list \<Rightarrow> int \<Rightarrow> bool" where
  "admits s m source capabilities tick \<longleftrightarrow>
     (\<exists>d c. map_of (hm_devices m) source = Some d \<and> dv_capability d = Some c \<and> c \<in> set capabilities) \<and> hw_tick s < tick"

lemma claim_failures_iff:
  "claim_failures s source (map_of (hm_devices m) source)
     (case map_of (hm_devices m) source of None \<Rightarrow> None | Some d \<Rightarrow> dv_capability d) capabilities tick = [] \<longleftrightarrow>
   admits s m source capabilities tick"
  by (auto simp: claim_failures_def admits_def split: option.splits)

definition claim_tick :: "hw_state \<Rightarrow> int option \<Rightarrow> int" where
  "claim_tick s t = (case t of None \<Rightarrow> hw_tick s + 1 | Some t \<Rightarrow> t)"

text \<open>What one event does to the state.\<close>

definition event_effect :: "hw_state \<Rightarrow> string \<Rightarrow> bytes \<Rightarrow> int \<Rightarrow> irq_receipt \<Rightarrow> hw_state \<Rightarrow> bool" where
  "event_effect s source payload tick r s' \<longleftrightarrow> hw_claim_sequence s' = hw_claim_sequence s + 1 \<and>
    (if ir_accepted r
     then hw_tick s' = tick \<and> hw_accepted_claims s' = hw_accepted_claims s @ [ir_claim_id r] \<and>
       hw_quarantined_claims s' = hw_quarantined_claims s \<and>
       (\<forall>name. name \<noteq> source \<longrightarrow> map_of (hw_devices s') name = map_of (hw_devices s) name) \<and>
       (\<exists>d. map_of (hw_devices s) source = Some d \<and> map_of (hw_devices s') source =
         Some \<lparr>ds_event_count = ds_event_count d + 1, ds_last_payload_sha256 = Some (hexdigest payload)\<rparr>)
     else hw_tick s' = hw_tick s \<and> hw_devices s' = hw_devices s \<and> hw_accepted_claims s' = hw_accepted_claims s \<and>
       hw_quarantined_claims s' = hw_quarantined_claims s @ [ir_claim_id r])"

definition event_core :: "hw_state \<Rightarrow> hw_manifest \<Rightarrow> string \<Rightarrow> bytes \<Rightarrow> json \<Rightarrow> string list \<Rightarrow> int option \<Rightarrow> claim_core" where
  "event_core s m source payload ev capabilities t =
    \<lparr>cc_source = source, cc_timestamp_tick = claim_tick s t, cc_raw_payload_sha256 = hexdigest payload,
     cc_decoded_event = ev, cc_capability_required = (case map_of (hm_devices m) source of None \<Rightarrow> None | Some d \<Rightarrow> dv_capability d),
     cc_capabilities_presented = sort (remdups capabilities), cc_state_root_before = hw_state_root s\<rparr>"

lemma ledger_parts:
  assumes "ledger_ok st" and "hs_state st = Some s" and "hs_manifest st = Some m"
  shows "validate_manifest m = []" "hw_manifest_sha256 s = stable_hash (manifest_json m)"
    "fst ` set (hw_devices s) = fst ` set (hm_devices m)"
    "length (hw_accepted_claims s) = length (hs_claims st)" "length (hw_quarantined_claims s) = length (hs_quarantine st)"
    "hw_claim_sequence s = int (length (hs_claims st) + length (hs_quarantine st))"
    "receipts_ok (hw_claim_sequence s) (hs_claims st)" "receipts_ok (hw_claim_sequence s) (hs_quarantine st)"
    "0 \<le> hw_claim_sequence s" "load_store st = Inr (s, m)"
proof -
  have inv: "validate_manifest m = [] \<and> hw_manifest_sha256 s = stable_hash (manifest_json m) \<and>
      hw_state_root s = state_root s \<and> fst ` set (hw_devices s) = fst ` set (hm_devices m) \<and>
      length (hw_accepted_claims s) = length (hs_claims st) \<and> length (hw_quarantined_claims s) = length (hs_quarantine st) \<and>
      hw_claim_sequence s = int (length (hs_claims st) + length (hs_quarantine st)) \<and>
      receipts_ok (hw_claim_sequence s) (hs_claims st) \<and> receipts_ok (hw_claim_sequence s) (hs_quarantine st)"
    using assms(1) unfolding ledger_ok_def assms(2,3) prod.case option.case .
  then show "validate_manifest m = []" "hw_manifest_sha256 s = stable_hash (manifest_json m)"
    "fst ` set (hw_devices s) = fst ` set (hm_devices m)"
    "length (hw_accepted_claims s) = length (hs_claims st)" "length (hw_quarantined_claims s) = length (hs_quarantine st)"
    "hw_claim_sequence s = int (length (hs_claims st) + length (hs_quarantine st))"
    "receipts_ok (hw_claim_sequence s) (hs_claims st)" "receipts_ok (hw_claim_sequence s) (hs_quarantine st)"
    by blast+
  then show "0 \<le> hw_claim_sequence s" by linarith
  show "load_store st = Inr (s, m)" by (simp add: load_store_def assms(2,3))
qed

lemma irq_admitted:
  assumes ok: "ledger_ok st" "hs_state st = Some s" "hs_manifest st = Some m"
    and adm: "admits s m source capabilities (claim_tick s t)"
  shows "\<exists>st' r s'. irq_claim st source payload ev capabilities t = Inr (st', r) \<and> ir_accepted r \<and> ledger_ok st' \<and>
    hs_manifest st' = Some m \<and> hs_state st' = Some s' \<and> event_effect s source payload (claim_tick s t) r s'"
proof -
  note inv = ledger_parts [OF ok]
  let ?core = "event_core s m source payload ev capabilities t"
  define cid where "cid = stable_hash (core_json ?core)"
  have src: "source \<in> fst ` set (hm_devices m)" using adm by (force simp: admits_def dest: map_of_SomeD)
  then have "source \<in> fst ` set (hw_devices s)" unfolding inv(3) .
  then obtain d where d: "map_of (hw_devices s) source = Some d" by (metis map_of_eq_None_iff not_Some_eq)
  define s2 where "s2 = s\<lparr>hw_claim_sequence := hw_claim_sequence s + 1, hw_tick := claim_tick s t,
    hw_accepted_claims := hw_accepted_claims s @ [cid], hw_devices := AList.update source
      \<lparr>ds_event_count = ds_event_count d + 1, ds_last_payload_sha256 = Some (hexdigest payload)\<rparr> (hw_devices s)\<rparr>"
  define s3 where "s3 = s2\<lparr>hw_state_root := state_root s2\<rparr>"
  define r where "r = \<lparr>ir_claim_id = cid, ir_core = ?core, ir_accepted = True, ir_state_root_after = hw_state_root s3, ir_failures = []\<rparr>"
  define st' where "st' = st\<lparr>hs_state := Some s3, hs_claims := AList.update (claim_file (hw_claim_sequence s + 1) cid) r (hs_claims st)\<rparr>"
  have "admit_event (s\<lparr>hw_claim_sequence := hw_claim_sequence s + 1\<rparr>) ?core cid = Inr s2"
    using d by (simp add: admit_event_def event_core_def s2_def)
  moreover have "claim_failures s source (map_of (hm_devices m) source)
      (case map_of (hm_devices m) source of None \<Rightarrow> None | Some d \<Rightarrow> dv_capability d) capabilities (claim_tick s t) = []"
    using adm by (simp only: claim_failures_iff)
  moreover have "hw_claim_sequence s2 = hw_claim_sequence s + 1" by (simp add: s2_def)
  ultimately have run: "irq_claim st source payload ev capabilities t = Inr (st', r)"
    unfolding irq_claim_def inv(10) rbind_simps prod.case Let_def claim_tick_def [symmetric] event_core_def [symmetric]
      cid_def [symmetric]
    by (simp add: r_def st'_def s3_def)
  have rr: "ir_claim_id r = stable_hash (core_json (ir_core r))" "ir_claim_id r = cid" "ir_accepted r" by (simp_all add: r_def cid_def)
  have "ledger_ok st'"
    using inv receipts_add [OF inv(7,9) rr(1), of "claim_file (hw_claim_sequence s + 1) cid"] rr(2) receipts_mono [OF inv(8)] src ok(3)
    by (auto simp: ledger_ok_def st'_def s3_def s2_def update_keys)
  moreover have "event_effect s source payload (claim_tick s t) r s3"
    using d rr by (simp add: event_effect_def s3_def s2_def)
  moreover have "hs_manifest st' = Some m" "hs_state st' = Some s3" using ok(3) by (simp_all add: st'_def)
  ultimately show ?thesis using run rr(3) by blast
qed

lemma irq_quarantined:
  assumes ok: "ledger_ok st" "hs_state st = Some s" "hs_manifest st = Some m"
    and adm: "\<not> admits s m source capabilities (claim_tick s t)"
  shows "\<exists>st' r s'. irq_claim st source payload ev capabilities t = Inr (st', r) \<and> \<not> ir_accepted r \<and> ledger_ok st' \<and>
    hs_manifest st' = Some m \<and> hs_state st' = Some s' \<and> event_effect s source payload (claim_tick s t) r s'"
proof -
  note inv = ledger_parts [OF ok]
  let ?core = "event_core s m source payload ev capabilities t"
  define cid where "cid = stable_hash (core_json ?core)"
  define failures where "failures = claim_failures s source (map_of (hm_devices m) source)
    (case map_of (hm_devices m) source of None \<Rightarrow> None | Some d \<Rightarrow> dv_capability d) capabilities (claim_tick s t)"
  have fail: "failures \<noteq> []" using adm claim_failures_iff unfolding failures_def by blast
  define s2 where "s2 = s\<lparr>hw_claim_sequence := hw_claim_sequence s + 1, hw_quarantined_claims := hw_quarantined_claims s @ [cid]\<rparr>"
  define s3 where "s3 = s2\<lparr>hw_state_root := state_root s2\<rparr>"
  define r where "r = \<lparr>ir_claim_id = cid, ir_core = ?core, ir_accepted = False, ir_state_root_after = hw_state_root s3, ir_failures = failures\<rparr>"
  define st' where "st' = st\<lparr>hs_state := Some s3, hs_quarantine := AList.update (claim_file (hw_claim_sequence s + 1) cid) r (hs_quarantine st)\<rparr>"
  have run: "irq_claim st source payload ev capabilities t = Inr (st', r)"
    using fail unfolding irq_claim_def inv(10) rbind_simps prod.case Let_def claim_tick_def [symmetric] failures_def [symmetric]
    by (simp add: event_core_def cid_def r_def st'_def s3_def s2_def)
  have rr: "ir_claim_id r = stable_hash (core_json (ir_core r))" "ir_claim_id r = cid" "\<not> ir_accepted r" by (simp_all add: r_def cid_def)
  have "ledger_ok st'"
    using inv receipts_add [OF inv(8,9) rr(1), of "claim_file (hw_claim_sequence s + 1) cid"] rr(2) receipts_mono [OF inv(7)] ok(3)
    by (auto simp: ledger_ok_def st'_def s3_def s2_def)
  moreover have "event_effect s source payload (claim_tick s t) r s3" using rr by (simp add: event_effect_def s3_def s2_def)
  moreover have "hs_manifest st' = Some m" "hs_state st' = Some s3" using ok(3) by (simp_all add: st'_def)
  ultimately show ?thesis using run rr(3) by blast
qed

section \<open>Runs\<close>

text \<open>The stores after a completed boot of a ledger without claims and any number of device events.\<close>

inductive hw_run :: "hw_store \<Rightarrow> bool" where
  booted: "hs_claims st = [] \<Longrightarrow> hs_quarantine st = [] \<Longrightarrow> boot st given = (st', r) \<Longrightarrow>
     br_execution_status r = ''completed'' \<Longrightarrow> hw_run st'"
| event: "hw_run st \<Longrightarrow> irq_claim st source payload ev capabilities t = Inr (st', r) \<Longrightarrow> hw_run st'"

lemma ledger_loaded:
  assumes "ledger_ok st"
  obtains s m where "hs_state st = Some s" and "hs_manifest st = Some m"
  using assms by (auto simp: ledger_ok_def split: option.splits)

lemma hw_run_ok: "hw_run st \<Longrightarrow> ledger_ok st"
proof (induction rule: hw_run.induct)
  case (booted st given st' r)
  then have "br_failures r = []" by (auto simp: boot_def Let_def split: if_splits)
  then show ?case using boot_ok booted by blast
next
  case (event st source payload ev capabilities t st' r)
  obtain s m where "hs_state st = Some s" "hs_manifest st = Some m" using ledger_loaded [OF event.IH] by blast
  then show ?case using irq_admitted [OF event.IH, of s m source capabilities t payload ev]
      irq_quarantined [OF event.IH, of s m source capabilities t payload ev] event.hyps(2) by auto
qed

text \<open>A second boot resets the sequence number but leaves the claim files where they are.\<close>

lemma reboot_breaks:
  assumes "ledger_ok st" and "hs_claims st @ hs_quarantine st \<noteq> []" and "boot st given = (st', r)" and "br_failures r = []"
  shows "(''bogboot'', ''hardware claim sequence mismatch'') \<in> set (verify_ledger st')"
proof -
  have "int (length (hs_claims st)) + int (length (hs_quarantine st)) \<noteq> 0" using assms(2) by (cases "hs_claims st") auto
  then show ?thesis using assms(3,4)
    by (auto simp: boot_def Let_def verify_ledger_def load_store_def initial_state_ok)
qed

end
