(* ===== verification/Assembler.thy ===== *)
theory Assembler
  imports Json
begin

text \<open>
  The instruction set and the assembler: \<^verbatim>\<open>src/bogvm/instruction.py\<close>,
  \<^verbatim>\<open>src/bogvm/opcodes.py\<close> and \<^verbatim>\<open>src/bogvm/assembler.py\<close>.

  An \<open>Assembler\<close> object is the record \<open>assembler\<close>; its methods take the record and return it
  updated, or raise. Instruction fields are Python integers; the widths of the encoding are what
  \<open>struct\<close> checks when an instruction is packed.
\<close>

section \<open>Instructions\<close>

record instruction =
  i_opcode :: int
  i_flags :: int
  i_target :: int
  i_source :: int
  i_param :: int

text \<open>An unsigned field of \<open>k\<close> bytes in a big-endian \<open>struct\<close> format.\<close>

definition struct_field :: "nat \<Rightarrow> int \<Rightarrow> bytes res" where
  "struct_field k v = (if 0 \<le> v \<and> v < 256 ^ k then Inr (to_bytes_be k (nat v)) else Inl StructError)"

definition instruction_size :: nat where
  "instruction_size = 8"

definition pack_instruction :: "instruction \<Rightarrow> bytes res" where
  "pack_instruction i =
    rbind (struct_field 1 (i_opcode i)) (\<lambda>b1.
    rbind (struct_field 1 (i_flags i)) (\<lambda>b2.
    rbind (struct_field 2 (i_target i)) (\<lambda>b3.
    rbind (struct_field 2 (i_source i)) (\<lambda>b4.
    rbind (struct_field 2 (i_param i)) (\<lambda>b5.
    Inr (b1 @ b2 @ b3 @ b4 @ b5))))))"

definition unpack_field :: "bytes \<Rightarrow> int" where
  "unpack_field bs = int (from_bytes_be bs)"

definition unpack_instruction :: "bytes \<Rightarrow> instruction res" where
  "unpack_instruction data =
    (if length data \<noteq> instruction_size then Inl StructError
     else Inr \<lparr>i_opcode = unpack_field (take 1 data), i_flags = unpack_field (take 1 (drop 1 data)),
               i_target = unpack_field (take 2 (drop 2 data)), i_source = unpack_field (take 2 (drop 4 data)),
               i_param = unpack_field (take 2 (drop 6 data))\<rparr>)"

section \<open>Opcodes\<close>

definition SCALE :: int where
  "SCALE = 1000"

definition OPS :: "(string, int) pydict" where
  "OPS = [(''NOOP'', 0), (''HALT'', 1), (''CREATE_NODE'', 2), (''CREATE_EDGE'', 3), (''CREATE_CLAIM'', 4),
     (''ACTIVATE'', 5), (''PROPAGATE'', 6), (''DECAY'', 7), (''INTERFERE'', 8), (''COMPUTE_TENSION'', 9),
     (''VERIFY'', 10), (''ACCEPT'', 11), (''REJECT'', 12), (''QUARANTINE'', 13), (''LOG_RECEIPT'', 14),
     (''EMIT_RECEIPT'', 15), (''DECLARE_BASIS'', 16), (''LOAD_COEFFICIENTS'', 17), (''SYNTHESIZE'', 18),
     (''VERIFY_HASH'', 19), (''ACCEPT_DATA'', 20), (''STORE_RESIDUAL'', 21), (''APPLY_RESIDUAL'', 22),
     (''REJECT_DATA'', 23)]"

definition OP_NAMES :: "(int, string) pydict" where
  "OP_NAMES = map (\<lambda>(name, code). (code, name)) OPS"

definition EDGE_TYPES :: "(string, int) pydict" where
  "EDGE_TYPES = [(''support'', 1), (''conflict'', 2)]"

definition EDGE_TYPE_NAMES :: "(int, string) pydict" where
  "EDGE_TYPE_NAMES = map (\<lambda>(name, code). (code, name)) EDGE_TYPES"

section \<open>The assembler\<close>

definition BOGBIN_MAGIC :: bytes where
  "BOGBIN_MAGIC = utf8 ''BOGBIN01''"

text \<open>\<open>line.split("#", 1)[0].strip()\<close>\<close>

definition strip_line :: "string \<Rightarrow> string" where
  "strip_line line = strip (takeWhile (\<lambda>c. c \<noteq> CHR ''#'') line)"

record assembler =
  nodes :: "(string, int) pydict"
  claims :: "(string, int) pydict"
  claim_meta :: "(string, json) pydict"
  edge_count :: int
  data_names :: "(string, int) pydict"
  constants :: "(string, string) pydict"
  constant_ids :: "(string, int) pydict"
  instructions :: "instruction list"

definition new_assembler :: assembler where
  "new_assembler = \<lparr>nodes = [], claims = [], claim_meta = [], edge_count = 0, data_names = [],
     constants = [], constant_ids = [], instructions = []\<rparr>"

text \<open>Python's \<open>d[k]\<close> after a membership test that raises the given error.\<close>

definition require :: "('k, 'v) pydict \<Rightarrow> 'k \<Rightarrow> exn \<Rightarrow> 'v res" where
  "require d k e = (case map_of d k of None \<Rightarrow> Inl e | Some v \<Rightarrow> Inr v)"

definition require_node :: "assembler \<Rightarrow> string \<Rightarrow> int res" where
  "require_node asm name = require (nodes asm) name (AssemblerError (''Unknown node: '' @ name))"

definition require_claim :: "assembler \<Rightarrow> string \<Rightarrow> int res" where
  "require_claim asm name = require (claims asm) name (AssemblerError (''Unknown claim: '' @ name))"

definition require_data :: "assembler \<Rightarrow> string \<Rightarrow> int res" where
  "require_data asm name = require (data_names asm) name (AssemblerError (''Unknown data block: '' @ name))"

definition add_node :: "assembler \<Rightarrow> string \<Rightarrow> (int \<times> assembler) res" where
  "add_node asm name =
    (case map_of (nodes asm) name of
       Some node_id \<Rightarrow> Inr (node_id, asm)
     | None \<Rightarrow>
         let node_id = int (length (nodes asm)) in
         if node_id > 65535 then Inl (AssemblerError ''Too many nodes for BOGBIN-0.1'')
         else Inr (node_id, asm\<lparr>nodes := AList.update name node_id (nodes asm)\<rparr>))"

definition claim_entry :: "int \<Rightarrow> string \<Rightarrow> int \<Rightarrow> int \<Rightarrow> json" where
  "claim_entry claim_id name src dst =
    JObj [(''id'', JInt claim_id), (''name'', JStr name), (''source'', JInt src), (''target'', JInt dst)]"

definition add_claim :: "assembler \<Rightarrow> string \<Rightarrow> int \<Rightarrow> int \<Rightarrow> (int \<times> assembler) res" where
  "add_claim asm name src dst =
    (case map_of (claims asm) name of
       Some claim_id \<Rightarrow> Inr (claim_id, asm)
     | None \<Rightarrow>
         let claim_id = int (length (claims asm)) in
         if claim_id > 65535 then Inl (AssemblerError ''Too many claims for BOGBIN-0.1'')
         else Inr (claim_id, asm\<lparr>claims := AList.update name claim_id (claims asm),
                claim_meta := AList.update (str_int claim_id) (claim_entry claim_id name src dst) (claim_meta asm)\<rparr>))"

definition add_data :: "assembler \<Rightarrow> string \<Rightarrow> (int \<times> assembler) res" where
  "add_data asm name =
    (case map_of (data_names asm) name of
       Some data_id \<Rightarrow> Inr (data_id, asm)
     | None \<Rightarrow>
         let data_id = int (length (data_names asm)) in
         if data_id > 65535 then Inl (AssemblerError ''Too many data blocks for BOGBIN-0.2'')
         else Inr (data_id, asm\<lparr>data_names := AList.update name data_id (data_names asm)\<rparr>))"

definition add_constant :: "assembler \<Rightarrow> string \<Rightarrow> (int \<times> assembler) res" where
  "add_constant asm v =
    (case map_of (constant_ids asm) v of
       Some const_id \<Rightarrow> Inr (const_id, asm)
     | None \<Rightarrow>
         let const_id = int (length (constant_ids asm)) in
         if const_id > 65535 then Inl (AssemblerError ''Too many constants for BOGBIN-0.2'')
         else Inr (const_id, asm\<lparr>constant_ids := AList.update v const_id (constant_ids asm),
                constants := AList.update (str_int const_id) v (constants asm)\<rparr>))"

definition check_u16 :: "string \<Rightarrow> int \<Rightarrow> unit res" where
  "check_u16 value_name v =
    (if \<not> (0 \<le> v \<and> v \<le> 65535) then Inl (AssemblerError (value_name @ '' out of uint16 range: '' @ str_int v))
     else Inr ())"

definition emit :: "assembler \<Rightarrow> string \<Rightarrow> int \<Rightarrow> int \<Rightarrow> int \<Rightarrow> int \<Rightarrow> assembler res" where
  "emit asm oper flg trg src par =
    rbind (check_u16 ''flags'' flg) (\<lambda>_.
    rbind (check_u16 ''target'' trg) (\<lambda>_.
    rbind (check_u16 ''source'' src) (\<lambda>_.
    rbind (check_u16 ''param'' par) (\<lambda>_.
    rbind (require OPS oper (KeyError oper)) (\<lambda>code.
    Inr (asm\<lparr>instructions := instructions asm @
      [\<lparr>i_opcode = code, i_flags = flg, i_target = trg, i_source = src, i_param = par\<rparr>]\<rparr>))))))"

definition byte_check :: "int \<Rightarrow> string \<Rightarrow> unit res" where
  "byte_check v message = (if \<not> (0 \<le> v \<and> v \<le> 255) then Inl (AssemblerError message) else Inr ())"

definition check_parts :: "bool \<Rightarrow> string \<Rightarrow> unit res" where
  "check_parts ok message = (if ok then Inr () else Inl (AssemblerError message))"

definition parse_parts :: "assembler \<Rightarrow> string \<Rightarrow> string list \<Rightarrow> assembler res" where
  "parse_parts asm oper parts =
    (if oper = ''CREATE_NODE'' then
       rbind (check_parts (length parts = 2) ''CREATE_NODE needs: CREATE_NODE <name>'') (\<lambda>_.
       rbind (add_node asm (parts ! 1)) (\<lambda>(node_id, asm1).
       emit asm1 ''CREATE_NODE'' 0 node_id 0 0))
     else if oper = ''CREATE_EDGE'' then
       rbind (check_parts (length parts = 4)
         ''CREATE_EDGE needs: CREATE_EDGE <source> <target> <support|conflict>'') (\<lambda>_.
       rbind (require_node asm (parts ! 1)) (\<lambda>src.
       rbind (require_node asm (parts ! 2)) (\<lambda>dst.
       let edge_type = lower (parts ! 3) in
       rbind (require EDGE_TYPES edge_type (AssemblerError (''Unknown edge type: '' @ edge_type))) (\<lambda>flag.
       let edge_id = edge_count asm in
       emit (asm\<lparr>edge_count := edge_id + 1\<rparr>) ''CREATE_EDGE'' flag edge_id src dst))))
     else if oper = ''CREATE_CLAIM'' then
       rbind (check_parts (length parts = 4)
         ''CREATE_CLAIM needs: CREATE_CLAIM <claim_name> <source> <target>'') (\<lambda>_.
       rbind (require_node asm (parts ! 2)) (\<lambda>src.
       rbind (require_node asm (parts ! 3)) (\<lambda>dst.
       rbind (add_claim asm (parts ! 1) src dst) (\<lambda>(claim_id, asm1).
       emit asm1 ''CREATE_CLAIM'' 0 claim_id src dst))))
     else if oper = ''ACTIVATE'' then
       rbind (check_parts (length parts = 3) ''ACTIVATE needs: ACTIVATE <node> <strength_0_to_1000>'') (\<lambda>_.
       rbind (require_node asm (parts ! 1)) (\<lambda>node_id.
       rbind (py_int (parts ! 2)) (\<lambda>strength.
       emit asm ''ACTIVATE'' 0 node_id 0 strength)))
     else if oper = ''PROPAGATE'' then
       rbind (check_parts (length parts = 4)
         ''PROPAGATE needs: PROPAGATE <source> <support|conflict> <depth>'') (\<lambda>_.
       rbind (require_node asm (parts ! 1)) (\<lambda>src.
       let edge_type = lower (parts ! 2) in
       rbind (py_int (parts ! 3)) (\<lambda>depth.
       rbind (require EDGE_TYPES edge_type (KeyError edge_type)) (\<lambda>flag.
       emit asm ''PROPAGATE'' flag 0 src depth))))
     else if oper = ''DECAY'' then
       rbind (check_parts (length parts = 2) ''DECAY needs: DECAY <factor_0_to_1000>'') (\<lambda>_.
       rbind (py_int (parts ! 1)) (\<lambda>factor. emit asm ''DECAY'' 0 0 0 factor))
     else if oper \<in> {''INTERFERE'', ''COMPUTE_TENSION'', ''VERIFY'', ''ACCEPT'', ''REJECT'', ''QUARANTINE''} then
       rbind (check_parts (length parts = 2) (oper @ '' needs: '' @ oper @ '' <claim_name>'')) (\<lambda>_.
       rbind (require_claim asm (parts ! 1)) (\<lambda>claim_id. emit asm oper 0 claim_id 0 0))
     else if oper = ''LOG_RECEIPT'' then emit asm ''LOG_RECEIPT'' 0 0 0 0
     else if oper = ''EMIT_RECEIPT'' then emit asm ''EMIT_RECEIPT'' 0 0 0 0
     else if oper = ''HALT'' then emit asm ''HALT'' 0 0 0 0
     else if oper = ''DECLARE_BASIS'' then
       rbind (check_parts (length parts = 2) ''DECLARE_BASIS needs: DECLARE_BASIS <basis_name>'') (\<lambda>_.
       rbind (add_constant asm (parts ! 1)) (\<lambda>(basis_id, asm1).
       emit asm1 ''DECLARE_BASIS'' 0 basis_id 0 0))
     else if oper = ''DATA_BLOCK'' then
       rbind (check_parts (length parts = 2) ''DATA_BLOCK needs: DATA_BLOCK <name>'') (\<lambda>_.
       rbind (add_data asm (parts ! 1)) (\<lambda>(_, asm1). Inr asm1))
     else if oper = ''LOAD_COEFFICIENTS'' then
       rbind (check_parts (length parts \<in> {4, 5})
         ''LOAD_COEFFICIENTS needs: LOAD_COEFFICIENTS <data_name> <byte_0_to_255> <length> [delta_0_to_255]'') (\<lambda>_.
       rbind (require_data asm (parts ! 1)) (\<lambda>data_id.
       rbind (py_int (parts ! 2)) (\<lambda>byte_value.
       rbind (py_int (parts ! 3)) (\<lambda>len.
       rbind (if length parts = 5 then py_int (parts ! 4) else Inr 0) (\<lambda>delta.
       rbind (byte_check byte_value ''byte must be 0..255'') (\<lambda>_.
       rbind (byte_check delta ''delta must be 0..255'') (\<lambda>_.
       emit asm ''LOAD_COEFFICIENTS'' delta data_id byte_value len)))))))
     else if oper = ''SYNTHESIZE'' then
       rbind (check_parts (length parts = 2) ''SYNTHESIZE needs: SYNTHESIZE <data_name>'') (\<lambda>_.
       rbind (require_data asm (parts ! 1)) (\<lambda>data_id. emit asm ''SYNTHESIZE'' 0 data_id 0 0))
     else if oper = ''VERIFY_HASH'' then
       rbind (check_parts (length parts = 3) ''VERIFY_HASH needs: VERIFY_HASH <data_name> <sha256_hex>'') (\<lambda>_.
       rbind (require_data asm (parts ! 1)) (\<lambda>data_id.
       rbind (add_constant asm (parts ! 2)) (\<lambda>(hash_id, asm1).
       emit asm1 ''VERIFY_HASH'' 0 data_id hash_id 0)))
     else if oper = ''ACCEPT_DATA'' then
       rbind (check_parts (length parts = 2) ''ACCEPT_DATA needs: ACCEPT_DATA <data_name>'') (\<lambda>_.
       rbind (require_data asm (parts ! 1)) (\<lambda>data_id. emit asm ''ACCEPT_DATA'' 0 data_id 0 0))
     else if oper = ''REJECT_DATA'' then
       rbind (check_parts (length parts = 2) ''REJECT_DATA needs: REJECT_DATA <data_name>'') (\<lambda>_.
       rbind (require_data asm (parts ! 1)) (\<lambda>data_id. emit asm ''REJECT_DATA'' 0 data_id 0 0))
     else if oper = ''STORE_RESIDUAL'' then
       rbind (check_parts (length parts = 4)
         ''STORE_RESIDUAL needs: STORE_RESIDUAL <data_name> <offset> <byte_0_to_255>'') (\<lambda>_.
       rbind (require_data asm (parts ! 1)) (\<lambda>data_id.
       rbind (py_int (parts ! 2)) (\<lambda>offset.
       rbind (py_int (parts ! 3)) (\<lambda>byte_value.
       rbind (byte_check byte_value ''residual byte must be 0..255'') (\<lambda>_.
       emit asm ''STORE_RESIDUAL'' 0 data_id offset byte_value)))))
     else if oper = ''APPLY_RESIDUAL'' then
       rbind (check_parts (length parts = 2) ''APPLY_RESIDUAL needs: APPLY_RESIDUAL <data_name>'') (\<lambda>_.
       rbind (require_data asm (parts ! 1)) (\<lambda>data_id. emit asm ''APPLY_RESIDUAL'' 0 data_id 0 0))
     else if oper = ''NOOP'' then emit asm ''NOOP'' 0 0 0 0
     else Inl (AssemblerError (''Unknown op: '' @ oper)))"

definition parse_line :: "assembler \<Rightarrow> string \<Rightarrow> assembler res" where
  "parse_line asm line =
    (let stripped = strip_line line in
     if stripped = [] then Inr asm
     else let parts = words stripped in parse_parts asm (upper (hd parts)) parts)"

definition id_table :: "(string, int) pydict \<Rightarrow> json" where
  "id_table d = JObj (pydict_of (map (\<lambda>(k, v). (str_int v, JStr k)) (sort_key snd d)))"

definition asm_manifest :: "assembler \<Rightarrow> json" where
  "asm_manifest asm = JObj
    [(''version'', JStr ''0.1''),
     (''scale'', JInt 1000),
     (''nodes'', id_table (nodes asm)),
     (''claims'', JObj (claim_meta asm)),
     (''data_blocks'', id_table (data_names asm)),
     (''constants'', JObj (map (\<lambda>(k, v). (k, JStr v)) (constants asm))),
     (''instruction_count'', JInt (int (length (instructions asm))))]"

definition write_bogbin :: "assembler \<Rightarrow> bytes res" where
  "write_bogbin asm =
    (let manifest_bytes = utf8 (dumps (asm_manifest asm)) in
     rbind (map_res pack_instruction (instructions asm)) (\<lambda>packed.
     rbind (struct_field 4 (int (length manifest_bytes))) (\<lambda>size_field.
     Inr (BOGBIN_MAGIC @ size_field @ manifest_bytes @ concat packed))))"

definition assemble_text :: "assembler \<Rightarrow> string \<Rightarrow> bytes res" where
  "assemble_text asm source_text = rbind (fold_res parse_line asm (splitlines source_text)) write_bogbin"

end
