(* ===== verification/VM.thy ===== *)
theory VM
  imports Assembler Container
begin

text \<open>
  The virtual machine of \<^verbatim>\<open>src/bogvm/vm.py\<close>: the state, one definition per opcode of
  \<open>BOGVM.run\<close>, the program loop, receipts, the loader of binary programs, and the two ways of
  running a file.

  An instruction either returns the next state or raises. The arms of the source that raise
  \<open>VMError\<close> do so before they change the state, so a blocked run is left in the state before the
  instruction; any other exception leaves \<open>run\<close> and the machine is dropped, so its state is never
  seen. Names come from the manifest of the file, which may hold any JSON value.
\<close>

section \<open>State\<close>

record vm_node =
  n_id :: int
  n_name :: json

record edge =
  e_id :: int
  e_source :: int
  e_target :: int
  e_type :: string
  e_weight :: int

record claim =
  cl_id :: int
  cl_name :: json
  cl_source :: int
  cl_target :: int

record pressure =
  support_pressure :: int
  conflict_pressure :: int
  net_pressure :: int

record data_block =
  d_id :: int
  d_name :: json
  d_basis :: "string option"
  d_byte :: int
  d_delta :: int
  d_length :: int
  d_bytes :: bytes
  d_residuals :: "(int \<times> int) list"

record event =
  ev_pc :: int
  ev_opcode :: string
  ev_details :: "(string \<times> json) list"

record vm_state =
  manifest :: json
  program_hash :: string
  node_table :: "(int, vm_node) pydict"
  edge_table :: "(int, edge) pydict"
  claim_table :: "(int, claim) pydict"
  adjacency_out :: "(int, int list) pydict"
  adjacency_in :: "(int, int list) pydict"
  activation_current :: "(int, int) pydict"
  activation_scratch :: "(int, int) pydict"
  tension_current :: "(int, int) pydict"
  pressure_current :: "(int, pressure) pydict"
  verifier_results :: "(int, string) pydict"
  accepted_claims :: "int list"
  rejected_claims :: "int list"
  quarantined_claims :: "int list"
  data_blocks :: "(int, data_block) pydict"
  active_basis :: "string option"
  data_hash_results :: "(int, string) pydict"
  accepted_data_blocks :: "int list"
  rejected_data_blocks :: "int list"
  receipt_ledger :: "event list"
  receipt_emitted :: bool

definition new_vm :: "json \<Rightarrow> string \<Rightarrow> vm_state" where
  "new_vm man program = \<lparr>manifest = man, program_hash = program, node_table = [], edge_table = [],
     claim_table = [], adjacency_out = [], adjacency_in = [], activation_current = [],
     activation_scratch = [], tension_current = [], pressure_current = [], verifier_results = [],
     accepted_claims = [], rejected_claims = [], quarantined_claims = [], data_blocks = [],
     active_basis = None, data_hash_results = [], accepted_data_blocks = [], rejected_data_blocks = [],
     receipt_ledger = [], receipt_emitted = False\<rparr>"

definition node_name :: "vm_state \<Rightarrow> int \<Rightarrow> json res" where
  "node_name st node_id = rbind (require (node_table st) node_id (KeyError (str_int node_id))) (\<lambda>n. Inr (n_name n))"

definition claim_name :: "vm_state \<Rightarrow> int \<Rightarrow> json res" where
  "claim_name st claim_id =
     rbind (require (claim_table st) claim_id (KeyError (str_int claim_id))) (\<lambda>c. Inr (cl_name c))"

definition log_event :: "int \<Rightarrow> string \<Rightarrow> (string \<times> json) list \<Rightarrow> vm_state \<Rightarrow> vm_state" where
  "log_event pc oper details st =
     st\<lparr>receipt_ledger := receipt_ledger st @ [\<lparr>ev_pc = pc, ev_opcode = oper, ev_details = details\<rparr>]\<rparr>"

definition dict_get :: "('k, 'v) pydict \<Rightarrow> 'k \<Rightarrow> 'v \<Rightarrow> 'v" where
  "dict_get d k dflt = (case map_of d k of None \<Rightarrow> dflt | Some v \<Rightarrow> v)"

text \<open>\<open>obj[key]\<close> and \<open>obj.get(key)\<close> on a value read from JSON; \<open>get\<close> returns \<open>None\<close> for a missing key.\<close>

definition json_index :: "json \<Rightarrow> string \<Rightarrow> json res" where
  "json_index obj key = (case obj of JObj kvs \<Rightarrow> require kvs key (KeyError key) | _ \<Rightarrow> Inl TypeError)"

definition json_get :: "json \<Rightarrow> string \<Rightarrow> json \<Rightarrow> json res" where
  "json_get obj key dflt = (case obj of JObj kvs \<Rightarrow> Inr (dict_get kvs key dflt) | _ \<Rightarrow> Inl AttributeError)"

definition manifest_get :: "vm_state \<Rightarrow> string \<Rightarrow> int \<Rightarrow> json \<Rightarrow> json res" where
  "manifest_get st section_name key dflt =
     rbind (json_index (manifest st) section_name) (\<lambda>table. json_get table (str_int key) dflt)"

text \<open>\<open>str(v)\<close> of a JSON value, which an error message prints: \<open>repr\<close> except for strings.\<close>

definition repr_char :: "char \<Rightarrow> char \<Rightarrow> string" where
  "repr_char q c = (let n = (of_char c :: nat) in
     if c = q \<or> c = backslash then [backslash, c]
     else if n = 10 then [backslash, CHR ''n'']
     else if n = 13 then [backslash, CHR ''r'']
     else if n = 9 then [backslash, CHR ''t'']
     else if n < 32 \<or> (127 \<le> n \<and> n \<le> 160) \<or> n = 173 then [backslash, CHR ''x'', hex_digit (n div 16), hex_digit (n mod 16)]
     else [c])"

definition repr_string :: "string \<Rightarrow> string" where
  "repr_string s =
    (let single = CHR 0x27; q = (if single \<in> set s \<and> quote \<notin> set s then quote else single)
     in [q] @ concat (map (repr_char q) s) @ [q])"

fun py_repr :: "json \<Rightarrow> string" where
  "py_repr JNull = ''None''"
| "py_repr (JBool b) = (if b then ''True'' else ''False'')"
| "py_repr (JInt i) = str_int i"
| "py_repr (JFloat s) = s"
| "py_repr (JStr s) = repr_string s"
| "py_repr (JList js) = ''['' @ join_comma_space (map py_repr js) @ '']''"
| "py_repr (JObj kvs) = ''{'' @ join_comma_space (map (\<lambda>(k, v). repr_string k @ '': '' @ py_repr v) kvs) @ ''}''"
| "py_repr (JIntObj kvs) = ''{'' @ join_comma_space (map (\<lambda>(k, v). str_int k @ '': '' @ py_repr v) kvs) @ ''}''"

definition py_str :: "json \<Rightarrow> string" where
  "py_str v = (case v of JStr s \<Rightarrow> s | _ \<Rightarrow> py_repr v)"

section \<open>Receipts\<close>

definition node_json :: "vm_node \<Rightarrow> json" where
  "node_json n = JObj [(''id'', JInt (n_id n)), (''name'', n_name n)]"

definition edge_json :: "edge \<Rightarrow> json" where
  "edge_json e = JObj [(''id'', JInt (e_id e)), (''source'', JInt (e_source e)), (''target'', JInt (e_target e)),
     (''type'', JStr (e_type e)), (''weight'', JInt (e_weight e))]"

definition claim_json :: "claim \<Rightarrow> json" where
  "claim_json c = JObj [(''id'', JInt (cl_id c)), (''name'', cl_name c), (''source'', JInt (cl_source c)),
     (''target'', JInt (cl_target c))]"

definition pressure_json :: "pressure \<Rightarrow> json" where
  "pressure_json p = JObj [(''support_pressure'', JInt (support_pressure p)),
     (''conflict_pressure'', JInt (conflict_pressure p)), (''net_pressure'', JInt (net_pressure p))]"

definition block_json :: "data_block \<Rightarrow> json" where
  "block_json b = JObj
    [(''id'', JInt (d_id b)), (''name'', d_name b),
     (''basis'', case d_basis b of None \<Rightarrow> JNull | Some basis \<Rightarrow> JStr basis),
     (''byte'', JInt (d_byte b)), (''delta'', JInt (d_delta b)), (''length'', JInt (d_length b)),
     (''bytes'', JStr (bytes_hex (d_bytes b))),
     (''residuals'', JList (map (\<lambda>(offset, v). JObj [(''offset'', JInt offset), (''byte'', JInt v)]) (d_residuals b)))]"

definition event_json :: "event \<Rightarrow> json" where
  "event_json ev = JObj [(''pc'', JInt (ev_pc ev)), (''opcode'', JStr (ev_opcode ev)), (''details'', JObj (ev_details ev))]"

definition int_dict :: "('v \<Rightarrow> json) \<Rightarrow> (int, 'v) pydict \<Rightarrow> json" where
  "int_dict f d = JIntObj (map (\<lambda>(k, v). (k, f v)) d)"

definition final_state :: "vm_state \<Rightarrow> json" where
  "final_state st = JObj
    [(''nodes'', int_dict node_json (node_table st)),
     (''edges'', int_dict edge_json (edge_table st)),
     (''claims'', int_dict claim_json (claim_table st)),
     (''activation_current'', int_dict JInt (activation_current st)),
     (''tension_current'', int_dict JInt (tension_current st)),
     (''pressure_current'', int_dict pressure_json (pressure_current st)),
     (''verifier_results'', int_dict JStr (verifier_results st)),
     (''accepted_claims'', JList (map JInt (accepted_claims st))),
     (''rejected_claims'', JList (map JInt (rejected_claims st))),
     (''quarantined_claims'', JList (map JInt (quarantined_claims st))),
     (''data_blocks'', int_dict block_json (data_blocks st)),
     (''data_hash_results'', int_dict JStr (data_hash_results st)),
     (''accepted_data_blocks'', JList (map JInt (accepted_data_blocks st))),
     (''rejected_data_blocks'', JList (map JInt (rejected_data_blocks st)))]"

definition data_block_name :: "vm_state \<Rightarrow> int \<Rightarrow> json res" where
  "data_block_name st d = manifest_get st ''data_blocks'' d (JStr (str_int d))"

definition BOGVM_FORMAT :: string where
  "BOGVM_FORMAT = ''BOGVM-2.0''"

type_synonym receipt = "(string \<times> json) list"

definition receipt :: "vm_state \<Rightarrow> receipt res" where
  "receipt st =
    rbind (map_res (claim_name st) (accepted_claims st)) (\<lambda>accepted.
    rbind (map_res (claim_name st) (rejected_claims st)) (\<lambda>rejected.
    rbind (map_res (claim_name st) (quarantined_claims st)) (\<lambda>quarantined.
    rbind (map_res (data_block_name st) (accepted_data_blocks st)) (\<lambda>accepted_data.
    rbind (map_res (data_block_name st) (rejected_data_blocks st)) (\<lambda>rejected_data.
    let body =
      [(''vm'', JStr BOGVM_FORMAT),
       (''bogbin'', JStr BOGBIN_FORMAT),
       (''fixed_point_scale'', JInt SCALE),
       (''program_hash'', JStr (program_hash st)),
       (''events'', JList (map event_json (receipt_ledger st))),
       (''final_state_hash'', JStr (canonical_hash (final_state st))),
       (''accepted_claim_names'', JList accepted),
       (''rejected_claim_names'', JList rejected),
       (''quarantined_claim_names'', JList quarantined),
       (''accepted_data_block_names'', JList accepted_data),
       (''rejected_data_block_names'', JList rejected_data),
       (''accepted_without_verify'', JInt 0),
       (''candidate_graph_contamination'', JInt 0)]
    in Inr (body @ [(''receipt_hash'', JStr (canonical_hash (JObj body)))]))))))"

section \<open>Loading a program\<close>

definition load_bogbin :: "bytes \<Rightarrow> (json \<times> instruction list \<times> string) res" where
  "load_bogbin data =
    (if take (length BOGBIN_MAGIC) data \<noteq> BOGBIN_MAGIC then Inl (VMError ''Invalid BOGBIN magic header'')
     else
       let size_field = take 4 (drop (length BOGBIN_MAGIC) data) in
       if length size_field \<noteq> 4 then Inl StructError
       else
         let manifest_len = from_bytes_be size_field; rest = drop (length BOGBIN_MAGIC + 4) data in
         rbind (utf8_decode (take manifest_len rest)) (\<lambda>manifest_text.
         rbind (loads manifest_text) (\<lambda>man.
         let stream = drop manifest_len rest in
         if length stream mod instruction_size \<noteq> 0 then
           Inl (VMError ''Instruction stream length is not a multiple of 8 bytes'')
         else rbind (map_res unpack_instruction (slices instruction_size stream)) (\<lambda>is.
           Inr (man, is, hexdigest data)))))"

section \<open>Instructions\<close>

definition ENERGY_LIMIT :: int where
  "ENERGY_LIMIT = 1000000000"

subsection \<open>The graph\<close>

definition exec_create_node :: "int \<Rightarrow> instruction \<Rightarrow> vm_state \<Rightarrow> vm_state res" where
  "exec_create_node pc instr st =
    rbind (manifest_get st ''nodes'' (i_target instr) JNull) (\<lambda>name.
    if name = JNull then Inl (VMError (''Missing node symbol for id '' @ str_int (i_target instr)))
    else
      let st1 = st\<lparr>node_table := AList.update (i_target instr) \<lparr>n_id = i_target instr, n_name = name\<rparr> (node_table st)\<rparr>
      in Inr (log_event pc ''CREATE_NODE'' [(''node_id'', JInt (i_target instr)), (''name'', name)] st1))"

definition append_sorted :: "int \<Rightarrow> int \<Rightarrow> (int, int list) pydict \<Rightarrow> (int, int list) pydict" where
  "append_sorted k e adj = AList.update k (sort (dict_get adj k [] @ [e])) adj"

definition exec_create_edge :: "int \<Rightarrow> instruction \<Rightarrow> vm_state \<Rightarrow> vm_state res" where
  "exec_create_edge pc instr st =
    (if i_source instr \<notin> fst ` set (node_table st) \<or> i_param instr \<notin> fst ` set (node_table st) then
       Inl (VMError ''CREATE_EDGE references unknown node'')
     else
       rbind (require EDGE_TYPE_NAMES (i_flags instr) (VMError (''Unknown edge type flag: '' @ str_int (i_flags instr))))
         (\<lambda>edge_type.
       let edge = \<lparr>e_id = i_target instr, e_source = i_source instr, e_target = i_param instr,
                   e_type = edge_type, e_weight = SCALE\<rparr>;
           st1 = st\<lparr>edge_table := AList.update (i_target instr) edge (edge_table st),
                    adjacency_out := append_sorted (i_source instr) (i_target instr) (adjacency_out st),
                    adjacency_in := append_sorted (i_param instr) (i_target instr) (adjacency_in st)\<rparr>
       in rbind (node_name st1 (i_source instr)) (\<lambda>src.
          rbind (node_name st1 (i_param instr)) (\<lambda>dst.
          Inr (log_event pc ''CREATE_EDGE'' [(''edge_id'', JInt (i_target instr)), (''source'', src), (''target'', dst),
            (''edge_type'', JStr edge_type)] st1)))))"

definition exec_create_claim :: "int \<Rightarrow> instruction \<Rightarrow> vm_state \<Rightarrow> vm_state res" where
  "exec_create_claim pc instr st =
    rbind (manifest_get st ''claims'' (i_target instr) JNull) (\<lambda>meta.
    if meta = JNull then Inl (VMError (''Missing claim symbol for id '' @ str_int (i_target instr)))
    else
      rbind (json_index meta ''name'') (\<lambda>name.
      let st1 = st\<lparr>claim_table := AList.update (i_target instr)
            \<lparr>cl_id = i_target instr, cl_name = name, cl_source = i_source instr, cl_target = i_param instr\<rparr>
            (claim_table st)\<rparr>
      in rbind (node_name st1 (i_source instr)) (\<lambda>src.
         rbind (node_name st1 (i_param instr)) (\<lambda>dst.
         Inr (log_event pc ''CREATE_CLAIM'' [(''claim_id'', JInt (i_target instr)), (''name'', name), (''source'', src),
           (''target'', dst)] st1)))))"

definition exec_activate :: "int \<Rightarrow> instruction \<Rightarrow> vm_state \<Rightarrow> vm_state res" where
  "exec_activate pc instr st =
    (if i_target instr \<notin> fst ` set (node_table st) then Inl (VMError ''ACTIVATE references unknown node'')
     else if \<not> (0 \<le> i_param instr \<and> i_param instr \<le> SCALE) then
       Inl (VMError (''Activation must be 0..'' @ str_int SCALE))
     else
       let st1 = st\<lparr>activation_current := AList.update (i_target instr) (i_param instr) (activation_current st)\<rparr>
       in rbind (node_name st1 (i_target instr)) (\<lambda>name.
          Inr (log_event pc ''ACTIVATE'' [(''node'', name), (''strength'', JInt (i_param instr))] st1)))"

subsection \<open>Propagation\<close>

text \<open>One tick of a wave is a pass over the frontier: the values that arrive, the energy spent so far
  and the nodes reached so far.\<close>

type_synonym wave = "(int, int) pydict \<times> int \<times> int list"

definition spread_edge :: "vm_state \<Rightarrow> string \<Rightarrow> int \<Rightarrow> wave \<Rightarrow> int \<Rightarrow> wave res" where
  "spread_edge st edge_type activation w edge_id =
    (let (scratch, total_energy, reached) = w in
     rbind (require (edge_table st) edge_id (KeyError (str_int edge_id))) (\<lambda>edge.
     if e_type edge \<noteq> edge_type then Inr w
     else
       let next_value = (activation * e_weight edge) div SCALE in
       if next_value \<le> 0 then Inr w
       else if total_energy + next_value > ENERGY_LIMIT then Inl (VMError ''PROPAGATE energy limit exceeded'')
       else Inr (AList.update (e_target edge) (dict_get scratch (e_target edge) 0 + next_value) scratch,
                 total_energy + next_value, List.insert (e_target edge) reached)))"

definition spread_node :: "vm_state \<Rightarrow> string \<Rightarrow> wave \<Rightarrow> int \<times> int \<Rightarrow> wave res" where
  "spread_node st edge_type w node =
    (let (node_id, activation) = node in
     if activation \<le> 0 then Inr w
     else fold_res (spread_edge st edge_type activation) w (sort (dict_get (adjacency_out st) node_id [])))"

definition raise_to :: "(int, int) pydict \<Rightarrow> int \<times> int \<Rightarrow> (int, int) pydict" where
  "raise_to cumulative kv = (let (k, v) = kv in AList.update k (max (dict_get cumulative k 0) v) cumulative)"

fun propagate_ticks ::
  "vm_state \<Rightarrow> string \<Rightarrow> nat \<Rightarrow> (int, int) pydict \<Rightarrow> (int, int) pydict \<Rightarrow> int \<Rightarrow> int list \<Rightarrow>
     ((int, int) pydict \<times> int \<times> int list) res" where
  "propagate_ticks st edge_type 0 cumulative frontier total_energy reached = Inr (cumulative, total_energy, reached)"
| "propagate_ticks st edge_type (Suc n) cumulative frontier total_energy reached =
    rbind (fold_res (spread_node st edge_type) ([], total_energy, reached) (sort_key fst frontier))
      (\<lambda>(scratch, total_energy', reached').
    propagate_ticks st edge_type n (foldl raise_to cumulative (sort_key fst scratch)) (sort_key fst scratch)
      total_energy' reached')"

definition exec_propagate :: "int \<Rightarrow> instruction \<Rightarrow> vm_state \<Rightarrow> vm_state res" where
  "exec_propagate pc instr st =
    rbind (require EDGE_TYPE_NAMES (i_flags instr) (VMError (''Unknown propagation edge type: '' @ str_int (i_flags instr))))
      (\<lambda>edge_type.
    let frontier = [(i_source instr, dict_get (activation_current st) (i_source instr) 0)] in
    rbind (propagate_ticks st edge_type (nat (i_param instr)) (activation_current st) frontier 0 [])
      (\<lambda>(cumulative, total_energy, reached).
    let st1 = st\<lparr>activation_current := sort_key fst cumulative, activation_scratch := []\<rparr> in
    rbind (if i_source instr \<in> fst ` set (node_table st1) then node_name st1 (i_source instr)
           else Inr (JInt (i_source instr))) (\<lambda>src.
    rbind (map_res (node_name st1) (sort reached)) (\<lambda>names.
    Inr (log_event pc ''PROPAGATE'' [(''source'', src), (''edge_type'', JStr edge_type), (''depth'', JInt (i_param instr)),
      (''energy_spent'', JInt total_energy), (''nodes_reached'', JList names)] st1)))))"

definition exec_decay :: "int \<Rightarrow> instruction \<Rightarrow> vm_state \<Rightarrow> vm_state res" where
  "exec_decay pc instr st =
    (if \<not> (0 \<le> i_param instr \<and> i_param instr \<le> SCALE) then Inl (VMError (''DECAY factor must be 0..'' @ str_int SCALE))
     else
       let decayed = filter (\<lambda>(k, v). v > 0)
             (map (\<lambda>(k, v). (k, (v * i_param instr) div SCALE)) (sort_key fst (activation_current st)))
       in Inr (log_event pc ''DECAY'' [(''factor'', JInt (i_param instr))] (st\<lparr>activation_current := decayed\<rparr>)))"

subsection \<open>Claims\<close>

definition conflict_at :: "vm_state \<Rightarrow> int \<Rightarrow> int \<Rightarrow> int res" where
  "conflict_at st acc edge_id =
    rbind (require (edge_table st) edge_id (KeyError (str_int edge_id))) (\<lambda>edge.
    if e_type edge \<noteq> ''conflict'' then Inr acc
    else Inr (acc + (dict_get (activation_current st) (e_source edge) 0 * e_weight edge) div SCALE))"

definition exec_interfere :: "int \<Rightarrow> instruction \<Rightarrow> vm_state \<Rightarrow> vm_state res" where
  "exec_interfere pc instr st =
    rbind (require (claim_table st) (i_target instr) (KeyError (str_int (i_target instr)))) (\<lambda>claim.
    let target_node = cl_target claim; support = dict_get (activation_current st) target_node 0 in
    rbind (fold_res (conflict_at st) 0 (sort (dict_get (adjacency_in st) target_node []))) (\<lambda>conflict.
    let net = support - conflict; tension = min support conflict;
        st1 = st\<lparr>pressure_current := AList.update (i_target instr)
              \<lparr>support_pressure = support, conflict_pressure = conflict, net_pressure = net\<rparr> (pressure_current st),
            tension_current := AList.update (i_target instr) tension (tension_current st)\<rparr>
    in rbind (claim_name st1 (i_target instr)) (\<lambda>name.
       Inr (log_event pc ''INTERFERE'' [(''claim'', name), (''support_pressure'', JInt support),
         (''conflict_pressure'', JInt conflict), (''net_pressure'', JInt net), (''tension'', JInt tension)] st1))))"

definition exec_compute_tension :: "int \<Rightarrow> instruction \<Rightarrow> vm_state \<Rightarrow> vm_state res" where
  "exec_compute_tension pc instr st =
    (let tension = (case map_of (pressure_current st) (i_target instr) of
           None \<Rightarrow> 0 | Some p \<Rightarrow> min (support_pressure p) (conflict_pressure p));
         st1 = st\<lparr>tension_current := AList.update (i_target instr) tension (tension_current st)\<rparr>
     in rbind (claim_name st1 (i_target instr)) (\<lambda>name.
        Inr (log_event pc ''COMPUTE_TENSION'' [(''claim'', name), (''tension'', JInt tension)] st1)))"

text \<open>\<open>_support_path_exists\<close>: breadth-first search along support edges, with the queue and the set of
  visited nodes of the source. Every node that enters the queue is the target of an edge, so the loop
  ends.\<close>

definition support_next :: "vm_state \<Rightarrow> int set \<Rightarrow> int \<Rightarrow> int list res" where
  "support_next st visited node_id =
    rbind (map_res (\<lambda>edge_id. require (edge_table st) edge_id (KeyError (str_int edge_id)))
             (sort (dict_get (adjacency_out st) node_id []))) (\<lambda>edges.
    Inr (map e_target (filter (\<lambda>edge. e_type edge = ''support'' \<and> e_target edge \<notin> visited) edges)))"

definition edge_targets :: "vm_state \<Rightarrow> int set" where
  "edge_targets st = (\<lambda>kv. e_target (snd kv)) ` set (edge_table st)"

lemma require_Inr_iff: "require d k e = Inr v \<longleftrightarrow> map_of d k = Some v"
  by (auto simp: require_def split: option.split)

lemma map_res_set: "map_res f xs = Inr ys \<Longrightarrow> y \<in> set ys \<Longrightarrow> \<exists>x \<in> set xs. f x = Inr y"
  by (induction xs arbitrary: ys) (auto simp: rbind_Inr_iff)

lemma support_next_targets:
  assumes "support_next st visited n = Inr ns"
  shows "set ns \<subseteq> edge_targets st"
proof
  fix m assume "m \<in> set ns"
  then obtain edges edge where
      edges: "map_res (\<lambda>edge_id. require (edge_table st) edge_id (KeyError (str_int edge_id)))
        (sort (dict_get (adjacency_out st) n [])) = Inr edges" and edge: "edge \<in> set edges" "m = e_target edge"
    using assms by (auto simp: support_next_def rbind_Inr_iff)
  obtain edge_id where "map_of (edge_table st) edge_id = Some edge"
    using map_res_set [OF edges edge(1)] by (auto simp: require_Inr_iff)
  then have "(edge_id, edge) \<in> set (edge_table st)" by (rule map_of_SomeD)
  then show "m \<in> edge_targets st" unfolding edge_targets_def edge(2) by force
qed

function search :: "vm_state \<Rightarrow> int \<Rightarrow> int list \<Rightarrow> int set \<Rightarrow> bool res" where
  "search st goal [] visited = Inr False"
| "search st goal (node_id # queue) visited =
    (if node_id = goal then Inr True
     else if node_id \<in> visited then search st goal queue visited
     else rbind (support_next st (insert node_id visited) node_id) (\<lambda>next_nodes.
       search st goal (queue @ next_nodes) (insert node_id visited)))"
  by pat_completeness auto

termination
proof (relation "inv_image (finite_psubset <*lex*> measure length)
    (\<lambda>(st, goal, queue, visited). ((set queue \<union> edge_targets st) - visited, queue))")
  show "wf (inv_image (finite_psubset <*lex*> measure length)
    (\<lambda>(st :: vm_state, goal :: int, queue, visited). ((set queue \<union> edge_targets st) - visited, queue)))"
    by (intro wf_inv_image wf_lex_prod wf_finite_psubset wf_measure)
next
  fix st :: vm_state and goal node_id :: int and queue visited
  assume "node_id \<in> visited"
  then have "(set (node_id # queue) \<union> edge_targets st) - visited = (set queue \<union> edge_targets st) - visited" by auto
  then show "((st, goal, queue, visited), (st, goal, node_id # queue, visited)) \<in> inv_image (finite_psubset <*lex*> measure length)
    (\<lambda>(st, goal, queue, visited). ((set queue \<union> edge_targets st) - visited, queue))" by simp
next
  fix st :: vm_state and goal node_id :: int and queue visited next_nodes
  assume "node_id \<notin> visited" and "support_next st (insert node_id visited) node_id = Inr next_nodes"
  moreover have "finite (edge_targets st)" by (simp add: edge_targets_def)
  ultimately have "((set (queue @ next_nodes) \<union> edge_targets st) - insert node_id visited) \<subset>
      ((set (node_id # queue) \<union> edge_targets st) - visited)"
    using support_next_targets by fastforce
  then show "((st, goal, queue @ next_nodes, insert node_id visited), (st, goal, node_id # queue, visited)) \<in>
      inv_image (finite_psubset <*lex*> measure length)
    (\<lambda>(st, goal, queue, visited). ((set queue \<union> edge_targets st) - visited, queue))"
    by (simp add: finite_psubset_def edge_targets_def)
qed

definition support_path_exists :: "vm_state \<Rightarrow> int \<Rightarrow> int \<Rightarrow> bool res" where
  "support_path_exists st src dst = search st dst [src] {}"

definition verify_claim :: "vm_state \<Rightarrow> int \<Rightarrow> string res" where
  "verify_claim st claim_id =
    rbind (require (claim_table st) claim_id (KeyError (str_int claim_id))) (\<lambda>claim.
    let conflict = (case map_of (pressure_current st) claim_id of None \<Rightarrow> 0 | Some p \<Rightarrow> conflict_pressure p) in
    if conflict > 0 then Inr ''rejected''
    else rbind (support_path_exists st (cl_source claim) (cl_target claim)) (\<lambda>found.
      if found then Inr ''verified'' else Inr ''abstained''))"

definition exec_verify :: "int \<Rightarrow> instruction \<Rightarrow> vm_state \<Rightarrow> vm_state res" where
  "exec_verify pc instr st =
    rbind (verify_claim st (i_target instr)) (\<lambda>status.
    let st1 = st\<lparr>verifier_results := AList.update (i_target instr) status (verifier_results st)\<rparr>
    in rbind (claim_name st1 (i_target instr)) (\<lambda>name.
       Inr (log_event pc ''VERIFY'' [(''claim'', name), (''result'', JStr status)] st1)))"

text \<open>\<open>if x not in xs: xs.append(x); xs.sort()\<close>\<close>

definition add_sorted :: "int \<Rightarrow> int list \<Rightarrow> int list" where
  "add_sorted x xs = (if x \<in> set xs then xs else sort (xs @ [x]))"

definition repair_rejected_claim :: "int \<Rightarrow> int \<Rightarrow> vm_state \<Rightarrow> vm_state res" where
  "repair_rejected_claim pc claim_id st =
    (let st1 = st\<lparr>rejected_claims := add_sorted claim_id (rejected_claims st),
                  quarantined_claims := add_sorted claim_id (quarantined_claims st)\<rparr>;
         pr = map_of (pressure_current st1) claim_id
     in rbind (claim_name st1 claim_id) (\<lambda>name.
        Inr (log_event pc ''REPAIR_CONTRADICTION'' [(''claim'', name), (''verifier_result'', JStr ''rejected''),
          (''support_pressure'', JInt (case pr of None \<Rightarrow> 0 | Some p \<Rightarrow> support_pressure p)),
          (''conflict_pressure'', JInt (case pr of None \<Rightarrow> 0 | Some p \<Rightarrow> conflict_pressure p)),
          (''repair_actions'', JList [JStr ''reject_claim'', JStr ''quarantine_claim''])] st1)))"

definition exec_accept :: "int \<Rightarrow> instruction \<Rightarrow> vm_state \<Rightarrow> vm_state res" where
  "exec_accept pc instr st =
    (let verifier_result = map_of (verifier_results st) (i_target instr) in
     if verifier_result = Some ''rejected'' then repair_rejected_claim pc (i_target instr) st
     else if verifier_result \<noteq> Some ''verified'' then
       rbind (claim_name st (i_target instr)) (\<lambda>name.
       Inl (VMError (''ACCEPT without VERIFY is blocked for claim '' @ py_str name)))
     else
       let st1 = st\<lparr>accepted_claims := add_sorted (i_target instr) (accepted_claims st)\<rparr> in
       rbind (claim_name st1 (i_target instr)) (\<lambda>name.
       Inr (log_event pc ''ACCEPT'' [(''claim'', name), (''result'', JStr ''accepted'')] st1)))"

definition exec_reject :: "int \<Rightarrow> instruction \<Rightarrow> vm_state \<Rightarrow> vm_state res" where
  "exec_reject pc instr st =
    (let st1 = st\<lparr>rejected_claims := add_sorted (i_target instr) (rejected_claims st)\<rparr> in
     rbind (claim_name st1 (i_target instr)) (\<lambda>name.
     Inr (log_event pc ''REJECT'' [(''claim'', name), (''result'', JStr ''rejected'')] st1)))"

definition exec_quarantine :: "int \<Rightarrow> instruction \<Rightarrow> vm_state \<Rightarrow> vm_state res" where
  "exec_quarantine pc instr st =
    (let st1 = st\<lparr>quarantined_claims := add_sorted (i_target instr) (quarantined_claims st)\<rparr> in
     rbind (claim_name st1 (i_target instr)) (\<lambda>name.
     Inr (log_event pc ''QUARANTINE'' [(''claim'', name), (''result'', JStr ''quarantined'')] st1)))"

subsection \<open>Data blocks\<close>

definition exec_declare_basis :: "int \<Rightarrow> instruction \<Rightarrow> vm_state \<Rightarrow> vm_state res" where
  "exec_declare_basis pc instr st =
    rbind (manifest_get st ''constants'' (i_target instr) JNull) (\<lambda>basis.
    if basis = JNull then Inl (VMError (''Missing basis constant id '' @ str_int (i_target instr)))
    else case basis of
        JStr name \<Rightarrow>
          if name \<notin> set BASIS_ORDER then Inl (VMError (''Unsupported deterministic basis: '' @ name))
          else Inr (log_event pc ''DECLARE_BASIS'' [(''basis'', basis)] (st\<lparr>active_basis := Some name\<rparr>))
      | _ \<Rightarrow> Inl (VMError (''Unsupported deterministic basis: '' @ py_str basis)))"

definition exec_load_coefficients :: "int \<Rightarrow> instruction \<Rightarrow> vm_state \<Rightarrow> vm_state res" where
  "exec_load_coefficients pc instr st =
    rbind (manifest_get st ''data_blocks'' (i_target instr) JNull) (\<lambda>data_name.
    if data_name = JNull then Inl (VMError (''Missing data block id '' @ str_int (i_target instr)))
    else if \<not> (0 \<le> i_source instr \<and> i_source instr \<le> 255) then Inl (VMError ''byte coefficient must be 0..255'')
    else if \<not> (0 \<le> i_flags instr \<and> i_flags instr \<le> 255) then Inl (VMError ''delta coefficient must be 0..255'')
    else
      let block = \<lparr>d_id = i_target instr, d_name = data_name, d_basis = active_basis st, d_byte = i_source instr,
            d_delta = i_flags instr, d_length = i_param instr, d_bytes = [], d_residuals = []\<rparr>
      in Inr (log_event pc ''LOAD_COEFFICIENTS'' [(''data_block'', data_name), (''byte'', JInt (i_source instr)),
           (''delta'', JInt (i_flags instr)), (''length'', JInt (i_param instr))]
           (st\<lparr>data_blocks := AList.update (i_target instr) block (data_blocks st)\<rparr>)))"

definition get_block :: "string \<Rightarrow> vm_state \<Rightarrow> int \<Rightarrow> data_block res" where
  "get_block oper st data_id =
     require (data_blocks st) data_id (VMError (oper @ '' missing data block '' @ str_int data_id))"

definition set_block :: "int \<Rightarrow> data_block \<Rightarrow> vm_state \<Rightarrow> vm_state" where
  "set_block data_id block st = st\<lparr>data_blocks := AList.update data_id block (data_blocks st)\<rparr>"

definition synthesize_block :: "data_block \<Rightarrow> bytes res" where
  "synthesize_block block =
    (case d_basis block of
       None \<Rightarrow> Inl (VMError ''Unsupported synth basis: None'')
     | Some basis \<Rightarrow>
         (case synthesize_basis basis (d_byte block) (d_length block) (d_delta block) of
            Inl (ValueError _) \<Rightarrow> Inl (VMError (''Unsupported synth basis: '' @ basis))
          | r \<Rightarrow> r))"

definition exec_synthesize :: "int \<Rightarrow> instruction \<Rightarrow> vm_state \<Rightarrow> vm_state res" where
  "exec_synthesize pc instr st =
    rbind (get_block ''SYNTHESIZE'' st (i_target instr)) (\<lambda>block.
    rbind (synthesize_block block) (\<lambda>bs.
    Inr (log_event pc ''SYNTHESIZE'' [(''data_block'', d_name block), (''byte_length'', JInt (int (length bs)))]
      (set_block (i_target instr) (block\<lparr>d_bytes := bs\<rparr>) st))))"

definition exec_verify_hash :: "int \<Rightarrow> instruction \<Rightarrow> vm_state \<Rightarrow> vm_state res" where
  "exec_verify_hash pc instr st =
    rbind (get_block ''VERIFY_HASH'' st (i_target instr)) (\<lambda>block.
    rbind (manifest_get st ''constants'' (i_source instr) JNull) (\<lambda>expected_hash.
    if expected_hash = JNull then Inl (VMError (''Missing hash constant id '' @ str_int (i_source instr)))
    else
      let actual_hash = hexdigest (d_bytes block);
          result = (if JStr actual_hash = expected_hash then ''verified'' else ''rejected'')
      in Inr (log_event pc ''VERIFY_HASH'' [(''data_block'', d_name block), (''expected_hash'', expected_hash),
           (''actual_hash'', JStr actual_hash), (''result'', JStr result)]
           (st\<lparr>data_hash_results := AList.update (i_target instr) result (data_hash_results st)\<rparr>))))"

definition exec_accept_data :: "int \<Rightarrow> instruction \<Rightarrow> vm_state \<Rightarrow> vm_state res" where
  "exec_accept_data pc instr st =
    rbind (get_block ''ACCEPT_DATA'' st (i_target instr)) (\<lambda>block.
    if map_of (data_hash_results st) (i_target instr) \<noteq> Some ''verified'' then
      Inl (VMError (''ACCEPT_DATA without VERIFY_HASH is blocked for data block '' @ py_str (d_name block)))
    else Inr (log_event pc ''ACCEPT_DATA'' [(''data_block'', d_name block), (''result'', JStr ''accepted'')]
      (st\<lparr>accepted_data_blocks := add_sorted (i_target instr) (accepted_data_blocks st)\<rparr>)))"

definition exec_reject_data :: "int \<Rightarrow> instruction \<Rightarrow> vm_state \<Rightarrow> vm_state res" where
  "exec_reject_data pc instr st =
    rbind (get_block ''REJECT_DATA'' st (i_target instr)) (\<lambda>block.
    if map_of (data_hash_results st) (i_target instr) \<noteq> Some ''rejected'' then
      Inl (VMError (''REJECT_DATA without failed VERIFY_HASH is blocked for data block '' @ py_str (d_name block)))
    else Inr (log_event pc ''REJECT_DATA'' [(''data_block'', d_name block), (''result'', JStr ''rejected'')]
      (st\<lparr>rejected_data_blocks := add_sorted (i_target instr) (rejected_data_blocks st)\<rparr>)))"

definition exec_store_residual :: "int \<Rightarrow> instruction \<Rightarrow> vm_state \<Rightarrow> vm_state res" where
  "exec_store_residual pc instr st =
    rbind (get_block ''STORE_RESIDUAL'' st (i_target instr)) (\<lambda>block.
    if i_source instr \<ge> d_length block then
      Inl (VMError (''Residual offset '' @ str_int (i_source instr) @ '' out of range for data block '' @ py_str (d_name block)))
    else if \<not> (0 \<le> i_param instr \<and> i_param instr \<le> 255) then Inl (VMError ''Residual byte must be 0..255'')
    else Inr (log_event pc ''STORE_RESIDUAL'' [(''data_block'', d_name block), (''offset'', JInt (i_source instr)),
        (''byte'', JInt (i_param instr))]
      (set_block (i_target instr) (block\<lparr>d_residuals := sort (d_residuals block @ [(i_source instr, i_param instr)])\<rparr>) st)))"

definition apply_patch :: "json \<Rightarrow> bytes \<times> int \<Rightarrow> int \<times> int \<Rightarrow> (bytes \<times> int) res" where
  "apply_patch name acc patch =
    (let (data, applied) = acc; (offset, v) = patch in
     if offset \<ge> int (length data) then
       Inl (VMError (''Residual offset '' @ str_int offset @ '' out of synthesized byte range for data block '' @ py_str name))
     else rbind (bytearray_set data offset v) (\<lambda>data'. Inr (data', applied + 1)))"

definition exec_apply_residual :: "int \<Rightarrow> instruction \<Rightarrow> vm_state \<Rightarrow> vm_state res" where
  "exec_apply_residual pc instr st =
    rbind (get_block ''APPLY_RESIDUAL'' st (i_target instr)) (\<lambda>block.
    rbind (fold_res (apply_patch (d_name block)) (d_bytes block, 0) (d_residuals block)) (\<lambda>(data, applied).
    Inr (log_event pc ''APPLY_RESIDUAL'' [(''data_block'', d_name block), (''residual_count'', JInt applied),
        (''byte_length'', JInt (int (length data)))]
      (set_block (i_target instr) (block\<lparr>d_bytes := data\<rparr>) st))))"

subsection \<open>Dispatch and the program loop\<close>

definition step :: "int \<Rightarrow> string \<Rightarrow> instruction \<Rightarrow> vm_state \<Rightarrow> vm_state res" where
  "step pc oper instr st =
    (if oper = ''NOOP'' then Inr (log_event pc oper [] st)
     else if oper = ''CREATE_NODE'' then exec_create_node pc instr st
     else if oper = ''CREATE_EDGE'' then exec_create_edge pc instr st
     else if oper = ''CREATE_CLAIM'' then exec_create_claim pc instr st
     else if oper = ''ACTIVATE'' then exec_activate pc instr st
     else if oper = ''PROPAGATE'' then exec_propagate pc instr st
     else if oper = ''DECAY'' then exec_decay pc instr st
     else if oper = ''INTERFERE'' then exec_interfere pc instr st
     else if oper = ''COMPUTE_TENSION'' then exec_compute_tension pc instr st
     else if oper = ''VERIFY'' then exec_verify pc instr st
     else if oper = ''ACCEPT'' then exec_accept pc instr st
     else if oper = ''REJECT'' then exec_reject pc instr st
     else if oper = ''QUARANTINE'' then exec_quarantine pc instr st
     else if oper = ''DECLARE_BASIS'' then exec_declare_basis pc instr st
     else if oper = ''LOAD_COEFFICIENTS'' then exec_load_coefficients pc instr st
     else if oper = ''SYNTHESIZE'' then exec_synthesize pc instr st
     else if oper = ''VERIFY_HASH'' then exec_verify_hash pc instr st
     else if oper = ''ACCEPT_DATA'' then exec_accept_data pc instr st
     else if oper = ''REJECT_DATA'' then exec_reject_data pc instr st
     else if oper = ''STORE_RESIDUAL'' then exec_store_residual pc instr st
     else if oper = ''APPLY_RESIDUAL'' then exec_apply_residual pc instr st
     else if oper = ''LOG_RECEIPT'' then Inr (log_event pc oper [(''note'', JStr ''manual receipt checkpoint'')] st)
     else if oper = ''EMIT_RECEIPT'' then
       Inr (log_event pc oper [(''result'', JStr ''receipt_ready'')] (st\<lparr>receipt_emitted := True\<rparr>))
     else Inl (VMError (''Unhandled opcode: '' @ oper)))"

text \<open>The program counter only moves forward by one, so the loop is a recursion over the instructions
  that are left. The result is the halting point and state, or the exception and the state it left.\<close>

fun run_loop :: "nat \<Rightarrow> instruction list \<Rightarrow> vm_state \<Rightarrow> (exn \<times> vm_state) + (nat \<times> vm_state)" where
  "run_loop pc [] st = Inl (VMError ''Program ended without HALT'', st)"
| "run_loop pc (instr # rest) st =
    (case map_of OP_NAMES (i_opcode instr) of
       None \<Rightarrow> Inl (VMError (''Unknown opcode at pc='' @ str_nat pc @ '': '' @ str_int (i_opcode instr)), st)
     | Some oper \<Rightarrow>
         if oper = ''HALT'' then Inr (pc, log_event (int pc) oper [] st)
         else (case step (int pc) oper instr st of
                 Inl e \<Rightarrow> Inl (e, st)
               | Inr st' \<Rightarrow> run_loop (Suc pc) rest st'))"

definition finish_run :: "nat \<Rightarrow> vm_state \<Rightarrow> vm_state" where
  "finish_run pc st =
    (if receipt_emitted st then st
     else log_event (int pc) ''AUTO_RECEIPT'' [(''result'', JStr ''receipt_emitted_by_vm'')] st)"

definition run :: "instruction list \<Rightarrow> vm_state \<Rightarrow> (exn \<times> vm_state) + receipt" where
  "run is st =
    rbind (run_loop 0 is st) (\<lambda>(pc, st1).
    case receipt (finish_run pc st1) of Inl e \<Rightarrow> Inl (e, finish_run pc st1) | Inr r \<Rightarrow> Inr r)"

section \<open>Running a file\<close>

definition run_file :: "bytes \<Rightarrow> receipt res" where
  "run_file data =
    rbind (load_bogbin data) (\<lambda>(man, is, program).
    case run is (new_vm man program) of
      Inl (e, _) \<Rightarrow> Inl e
    | Inr r \<Rightarrow> Inr (r @ [(''execution_status'', JStr ''completed'')]))"

definition run_file_with_block_receipt :: "bytes \<Rightarrow> (receipt \<times> int) res" where
  "run_file_with_block_receipt data =
    rbind (load_bogbin data) (\<lambda>(man, is, program).
    case run is (new_vm man program) of
      Inr r \<Rightarrow> Inr (r @ [(''execution_status'', JStr ''completed'')], 0)
    | Inl (VMError reason, st) \<Rightarrow>
        rbind (receipt (log_event (-1) ''BLOCKED_EXECUTION'' [(''reason'', JStr reason)] st)) (\<lambda>r.
        Inr (r @ [(''execution_status'', JStr ''blocked''), (''block_reason'', JStr reason)], 1))
    | Inl (e, _) \<Rightarrow> Inl e)"

end
