(* ===== verification/Assembler_Correct.thy ===== *)
theory Assembler_Correct
  imports VM
begin

text \<open>
  What the assembler guarantees. \<open>asm_ok\<close> is the invariant of an \<open>Assembler\<close> object; every line keeps
  it. From it: assembled instructions always fit their binary fields, the manifest can be read back,
  and loading an assembled file returns the instructions that were emitted.
\<close>

section \<open>Instructions as bytes\<close>

definition fits :: "instruction \<Rightarrow> bool" where
  "fits i \<longleftrightarrow> i_opcode i \<in> {0..255} \<and> i_flags i \<in> {0..255} \<and> i_target i \<in> {0..65535} \<and>
     i_source i \<in> {0..65535} \<and> i_param i \<in> {0..65535}"

lemma to_from_bytes_le: "to_bytes_le (length bs) (from_bytes_le bs) = bs"
proof (induction bs)
  case (Cons b bs)
  have "unat b < 256" by simp
  then have "(unat b + 256 * from_bytes_le bs) mod 256 = unat b" "(unat b + 256 * from_bytes_le bs) div 256 = from_bytes_le bs"
    by simp_all
  then show ?case using Cons by (simp add: add.commute mult.commute)
qed simp

lemma to_from_bytes_be: "length bs = k \<Longrightarrow> to_bytes_be k (from_bytes_be bs) = bs"
  using to_from_bytes_le [of "rev bs"] by (simp add: to_bytes_be_def from_bytes_be_def)

lemma from_bytes_le_less: "from_bytes_le bs < 256 ^ length bs"
proof (induction bs)
  case (Cons b bs)
  have "unat b < 256" by simp
  then have "unat b + 256 * from_bytes_le bs < 256 * 256 ^ length bs" using Cons by linarith
  then show ?case by (simp add: mult.commute add.commute)
qed simp

lemma from_bytes_be_less: "length bs = k \<Longrightarrow> from_bytes_be bs < 256 ^ k"
  using from_bytes_le_less [of "rev bs"] by (simp add: from_bytes_be_def)

lemma struct_field_Inr:
  "struct_field k v = Inr bs \<Longrightarrow> length bs = k \<and> unpack_field bs = v \<and> 0 \<le> v \<and> v < 256 ^ k"
  by (auto simp: struct_field_def unpack_field_def nat_less_iff split: if_splits)

lemma struct_field_unpack: "length bs = k \<Longrightarrow> struct_field k (unpack_field bs) = Inr bs"
  using from_bytes_be_less [of bs k] to_from_bytes_be [of bs k]
  by (simp add: struct_field_def unpack_field_def of_nat_less_iff [symmetric] del: of_nat_less_iff)

lemma pack_fits: "fits i \<Longrightarrow> \<exists>bs. pack_instruction i = Inr bs"
  by (auto simp: fits_def pack_instruction_def struct_field_def)

lemma unpack_pack:
  assumes "pack_instruction i = Inr bs"
  shows "length bs = instruction_size \<and> unpack_instruction bs = Inr i"
proof -
  obtain b1 b2 b3 b4 b5 where b: "struct_field 1 (i_opcode i) = Inr b1" "struct_field 1 (i_flags i) = Inr b2"
      "struct_field 2 (i_target i) = Inr b3" "struct_field 2 (i_source i) = Inr b4" "struct_field 2 (i_param i) = Inr b5"
    and bs: "bs = b1 @ b2 @ b3 @ b4 @ b5"
    using assms by (auto simp: pack_instruction_def rbind_Inr_iff)
  note f = b [THEN struct_field_Inr]
  show ?thesis using f unfolding bs by (simp add: unpack_instruction_def instruction_size_def)
qed

lemma take_drop_split:
  "length bs = 8 \<Longrightarrow> take 1 bs @ take 1 (drop 1 bs) @ take 2 (drop 2 bs) @ take 2 (drop 4 bs) @ take 2 (drop 6 bs) = bs"
  by (auto simp: length_Suc_conv eval_nat_numeral)

lemma pack_unpack_instruction:
  assumes "unpack_instruction bs = Inr i"
  shows "pack_instruction i = Inr bs"
proof -
  have len: "length bs = 8" using assms by (auto simp: unpack_instruction_def instruction_size_def split: if_splits)
  then have i: "i = \<lparr>i_opcode = unpack_field (take 1 bs), i_flags = unpack_field (take 1 (drop 1 bs)),
      i_target = unpack_field (take 2 (drop 2 bs)), i_source = unpack_field (take 2 (drop 4 bs)),
      i_param = unpack_field (take 2 (drop 6 bs))\<rparr>"
    using assms by (simp add: unpack_instruction_def instruction_size_def)
  show ?thesis unfolding i using len take_drop_split [OF len] by (simp add: pack_instruction_def struct_field_unpack)
qed

lemma slices_concat:
  assumes "0 < n" and "\<forall>x \<in> set xs. length x = n"
  shows "slices n (concat xs) = xs"
  using assms(2)
proof (induction xs)
  case (Cons x xs)
  then have "concat (x # xs) \<noteq> []" using assms(1) by auto
  then show ?case using Cons assms(1) by (simp add: slices_step)
qed (simp add: assms(1))

lemma unpack_packed:
  assumes "map_res pack_instruction is = Inr packed"
  shows "map_res unpack_instruction (slices instruction_size (concat packed)) = Inr is"
    and "length (concat packed) mod instruction_size = 0"
proof -
  have all: "list_all2 (\<lambda>i bs. pack_instruction i = Inr bs) is packed" using assms by (simp add: map_res_Inr_iff)
  then have len: "\<forall>bs \<in> set packed. length bs = instruction_size"
    using unpack_pack by (fastforce simp: list_all2_conv_all_nth in_set_conv_nth)
  then have eq: "slices instruction_size (concat packed) = packed" by (intro slices_concat) (simp_all add: instruction_size_def)
  show "map_res unpack_instruction (slices instruction_size (concat packed)) = Inr is"
    unfolding eq map_res_Inr_iff using all by (auto simp: list_all2_conv_all_nth dest: unpack_pack)
  have "length (concat packed) = instruction_size * length packed"
    using len by (induction packed) auto
  then show "length (concat packed) mod instruction_size = 0" by simp
qed

section \<open>Weakest preconditions\<close>

text \<open>\<open>returns r P\<close>: if the computation returns, its result satisfies \<open>P\<close>. The rules in \<open>wp\<close> push a
  postcondition backwards through the code.\<close>

definition returns :: "'a res \<Rightarrow> ('a \<Rightarrow> bool) \<Rightarrow> bool" where
  "returns r P \<longleftrightarrow> (\<forall>x. r = Inr x \<longrightarrow> P x)"

named_theorems wp

lemma returns_simps [wp]:
  "returns (Inl e) P"
  "returns (Inr x) P \<longleftrightarrow> P x"
  "returns (rbind m f) P \<longleftrightarrow> returns m (\<lambda>x. returns (f x) P)"
  "returns (if c then r1 else r2) P \<longleftrightarrow> (c \<longrightarrow> returns r1 P) \<and> (\<not> c \<longrightarrow> returns r2 P)"
  by (auto simp: returns_def rbind_Inr_iff)

lemma returns_ifI: "(c \<Longrightarrow> returns r1 P) \<Longrightarrow> (\<not> c \<Longrightarrow> returns r2 P) \<Longrightarrow> returns (if c then r1 else r2) P"
  by simp

lemma returns_require [wp]: "returns (require d k e) P \<longleftrightarrow> (\<forall>v. map_of d k = Some v \<longrightarrow> P v)"
  by (auto simp: returns_def require_Inr_iff)

lemma returns_checks [wp]:
  "returns (check_parts c m) P \<longleftrightarrow> (c \<longrightarrow> P ())"
  "returns (byte_check v m) P \<longleftrightarrow> (0 \<le> v \<and> v \<le> 255 \<longrightarrow> P ())"
  "returns (check_u16 n v) P \<longleftrightarrow> (0 \<le> v \<and> v \<le> 65535 \<longrightarrow> P ())"
  by (auto simp: returns_def check_parts_def byte_check_def check_u16_def)

lemma returns_emit [wp]:
  "returns (emit asm oper flg trg src par) P \<longleftrightarrow>
    (0 \<le> flg \<and> flg \<le> 65535 \<longrightarrow> 0 \<le> trg \<and> trg \<le> 65535 \<longrightarrow> 0 \<le> src \<and> src \<le> 65535 \<longrightarrow> 0 \<le> par \<and> par \<le> 65535 \<longrightarrow>
      (\<forall>code. map_of OPS oper = Some code \<longrightarrow> P (asm\<lparr>instructions := instructions asm @
        [\<lparr>i_opcode = code, i_flags = flg, i_target = trg, i_source = src, i_param = par\<rparr>]\<rparr>)))"
  by (auto simp: emit_def wp)

lemma returns_fold:
  assumes "\<And>s x. I s \<Longrightarrow> returns (f s x) I" and "I s"
  shows "returns (fold_res f s xs) I"
  using assms(2)
proof (induction xs arbitrary: s)
  case (Cons x xs)
  have "returns (f s x) (\<lambda>s'. returns (fold_res f s' xs) I)"
    using assms(1) [OF Cons.prems, of x] Cons.IH unfolding returns_def by blast
  then show ?case by (simp add: wp)
qed (simp add: wp)

section \<open>The invariant of the assembler\<close>

text \<open>The ids of a table are the positions of its names.\<close>

definition id_dict :: "(string, int) pydict \<Rightarrow> bool" where
  "id_dict d \<longleftrightarrow> distinct (map fst d) \<and> map snd d = map int [0..<length d] \<and> length d \<le> 65536"

definition created :: "int \<Rightarrow> instruction list \<Rightarrow> int set" where
  "created code is = i_target ` {i \<in> set is. i_opcode i = code}"

text \<open>An instruction only refers to nodes and claims that earlier instructions created.\<close>

definition closed_instr :: "instruction list \<Rightarrow> instruction \<Rightarrow> bool" where
  "closed_instr earlier i \<longleftrightarrow>
     (i_opcode i = 4 \<longrightarrow> i_source i \<in> created 2 earlier \<and> i_param i \<in> created 2 earlier) \<and>
     (i_opcode i \<in> {8..13} \<longrightarrow> i_target i \<in> created 4 earlier)"

definition closed_program :: "instruction list \<Rightarrow> bool" where
  "closed_program is \<longleftrightarrow> (\<forall>n < length is. closed_instr (take n is) (is ! n))"

lemma closed_program_snoc: "closed_program (is @ [i]) \<longleftrightarrow> closed_program is \<and> closed_instr is i"
  by (auto simp: closed_program_def nth_append less_Suc_eq)

definition meta_ok :: "(string, int) pydict \<Rightarrow> (string, json) pydict \<Rightarrow> bool" where
  "meta_ok names meta \<longleftrightarrow>
     list_all2 (\<lambda>nv kj. fst kj = str_int (snd nv) \<and> (\<exists>src dst. snd kj = claim_entry (snd nv) (fst nv) src dst)) names meta"

definition tables_ok :: "assembler \<Rightarrow> bool" where
  "tables_ok asm \<longleftrightarrow> id_dict (nodes asm) \<and> id_dict (claims asm) \<and> id_dict (data_names asm) \<and>
     id_dict (constant_ids asm) \<and> constants asm = map (\<lambda>(v, i). (str_int i, v)) (constant_ids asm) \<and>
     meta_ok (claims asm) (claim_meta asm)"

definition code_ok :: "assembler \<Rightarrow> bool" where
  "code_ok asm \<longleftrightarrow> list_all fits (instructions asm) \<and> closed_program (instructions asm) \<and>
     snd ` set (nodes asm) \<subseteq> created 2 (instructions asm) \<and>
     snd ` set (claims asm) \<subseteq> created 4 (instructions asm)"

definition asm_ok :: "assembler \<Rightarrow> bool" where
  "asm_ok asm \<longleftrightarrow> tables_ok asm \<and> code_ok asm"

lemma new_assembler_ok: "asm_ok new_assembler"
  by (simp add: asm_ok_def tables_ok_def code_ok_def new_assembler_def id_dict_def meta_ok_def closed_program_def)

lemma id_dict_lookup:
  assumes "id_dict d" and "map_of d k = Some v"
  shows "0 \<le> v" and "v < int (length d)" and "v \<le> 65535" and "d ! nat v = (k, v)"
proof -
  obtain n where n: "n < length d" "d ! n = (k, v)" using map_of_SomeD [OF assms(2)] by (auto simp: in_set_conv_nth)
  have "map snd d ! n = int n" using assms(1) n(1) by (simp add: id_dict_def)
  then have v: "v = int n" using n by simp
  show "0 \<le> v" "v < int (length d)" "d ! nat v = (k, v)" using v n by simp_all
  show "v \<le> 65535" using v n assms(1) by (simp add: id_dict_def)
qed

lemma id_dict_add:
  assumes "id_dict d" and "map_of d k = None" and "\<not> 65535 < int (length d)"
  shows "AList.update k (int (length d)) d = d @ [(k, int (length d))]" and "id_dict (d @ [(k, int (length d))])"
  using assms by (auto simp: id_dict_def map_of_eq_None_iff update_new)

lemma created_append [simp]: "created code (is @ js) = created code is \<union> created code js"
  by (auto simp: created_def)

lemma created_single: "created code [i] = (if i_opcode i = code then {i_target i} else {})"
  by (auto simp: created_def)

lemma code_ok_emit:
  assumes "code_ok asm" and "fits i" and "closed_instr (instructions asm) i"
    and "nodes asm' = nodes asm" and "claims asm' = claims asm" and "instructions asm' = instructions asm @ [i]"
  shows "code_ok asm'"
  using assms by (auto simp: code_ok_def closed_program_snoc)

lemma tables_ok_emit: "tables_ok (asm\<lparr>instructions := is\<rparr>) = tables_ok asm"
    "tables_ok (asm\<lparr>edge_count := n\<rparr>) = tables_ok asm"
  by (simp_all add: tables_ok_def)

lemma code_ok_update: "code_ok (asm\<lparr>edge_count := n\<rparr>) = code_ok asm"
    "code_ok (asm\<lparr>data_names := ds\<rparr>) = code_ok asm" "code_ok (asm\<lparr>constant_ids := cs, constants := ks\<rparr>) = code_ok asm"
  by (simp_all add: code_ok_def)

lemma asm_node_id:
  assumes "asm_ok asm" and "map_of (nodes asm) name = Some v"
  shows "v \<in> created 2 (instructions asm)"
  using assms map_of_SomeD [OF assms(2)] by (force simp: asm_ok_def code_ok_def)

lemma asm_claim_id:
  assumes "asm_ok asm" and "map_of (claims asm) name = Some v"
  shows "v \<in> created 4 (instructions asm)"
  using assms map_of_SomeD [OF assms(2)] by (force simp: asm_ok_def code_ok_def)

text \<open>Every operation that adds to a table keeps the tables well-formed.\<close>

lemma returns_add_node [wp]:
  assumes "asm_ok asm"
  shows "returns (add_node asm name) (\<lambda>(node_id, asm1).
    0 \<le> node_id \<and> node_id \<le> 65535 \<and> tables_ok asm1 \<and> list_all fits (instructions asm1) \<and>
    closed_program (instructions asm1) \<and> snd ` set (nodes asm1) \<subseteq> insert node_id (created 2 (instructions asm1)) \<and>
    snd ` set (claims asm1) \<subseteq> created 4 (instructions asm1))"
proof (cases "map_of (nodes asm) name")
  case None
  then show ?thesis using assms id_dict_add [of "nodes asm" name]
    by (auto simp: add_node_def asm_ok_def tables_ok_def code_ok_def Let_def wp)
next
  case (Some v)
  then show ?thesis using assms id_dict_lookup [of "nodes asm" name v]
    by (auto simp: add_node_def asm_ok_def tables_ok_def code_ok_def wp)
qed

lemma meta_keys: "meta_ok names meta \<Longrightarrow> map fst meta = map str_int (map snd names)"
  unfolding meta_ok_def by (induction names meta rule: list_all2_induct) auto

lemma meta_entry:
  "meta_ok names meta \<Longrightarrow> (k, j) \<in> set meta \<Longrightarrow>
     \<exists>name i src dst. (name, i) \<in> set names \<and> k = str_int i \<and> j = claim_entry i name src dst"
  unfolding meta_ok_def by (induction names meta rule: list_all2_induct) (auto, blast+)

lemma returns_add_claim [wp]:
  assumes "asm_ok asm"
  shows "returns (add_claim asm name src dst) (\<lambda>(claim_id, asm1).
    0 \<le> claim_id \<and> claim_id \<le> 65535 \<and> tables_ok asm1 \<and> instructions asm1 = instructions asm \<and> nodes asm1 = nodes asm \<and>
    snd ` set (claims asm1) \<subseteq> insert claim_id (created 4 (instructions asm1)))"
proof (cases "map_of (claims asm) name")
  case None
  have ids: "id_dict (claims asm)" and meta: "meta_ok (claims asm) (claim_meta asm)"
    using assms by (auto simp: asm_ok_def tables_ok_def)
  have keys: "map fst (claim_meta asm) = map str_int (map int [0..<length (claims asm)])"
    using meta_keys [OF meta] ids by (simp only: id_dict_def)
  have "str_int (int (length (claims asm))) \<notin> fst ` set (claim_meta asm)"
    unfolding set_map [symmetric] keys by (auto dest!: str_int_inj)
  then have "meta_ok (claims asm @ [(name, int (length (claims asm)))])
      (AList.update (str_int (int (length (claims asm)))) (claim_entry (int (length (claims asm))) name src dst) (claim_meta asm))"
    using meta by (auto simp: meta_ok_def update_new claim_entry_def intro!: list_all2_appendI)
  then show ?thesis using assms None id_dict_add [OF ids None]
    by (auto simp: add_claim_def asm_ok_def tables_ok_def code_ok_def Let_def wp)
next
  case (Some v)
  then show ?thesis using assms id_dict_lookup [of "claims asm" name v]
    by (auto simp: add_claim_def asm_ok_def tables_ok_def code_ok_def wp)
qed

lemma returns_add_data [wp]:
  assumes "asm_ok asm"
  shows "returns (add_data asm name) (\<lambda>(data_id, asm1). asm_ok asm1)"
proof (cases "map_of (data_names asm) name")
  case None
  then show ?thesis using assms id_dict_add [of "data_names asm" name]
    by (auto simp: add_data_def asm_ok_def tables_ok_def code_ok_def Let_def wp)
next
  case (Some v)
  then show ?thesis using assms by (auto simp: add_data_def wp)
qed

lemma returns_add_constant [wp]:
  assumes "asm_ok asm"
  shows "returns (add_constant asm v) (\<lambda>(const_id, asm1).
    0 \<le> const_id \<and> const_id \<le> 65535 \<and> asm_ok asm1 \<and> instructions asm1 = instructions asm)"
proof (cases "map_of (constant_ids asm) v")
  case None
  have ids: "id_dict (constant_ids asm)" and cs: "constants asm = map (\<lambda>(v, i). (str_int i, v)) (constant_ids asm)"
    using assms by (auto simp: asm_ok_def tables_ok_def)
  have "snd ` set (constant_ids asm) = int ` {0..<length (constant_ids asm)}"
    using ids unfolding id_dict_def by (metis list.set_map set_upt)
  then have "str_int (int (length (constant_ids asm))) \<notin> fst ` set (constants asm)"
    unfolding cs by (force dest: str_int_inj)
  then show ?thesis using assms None id_dict_add [OF ids None] cs
    by (auto simp: add_constant_def asm_ok_def tables_ok_def code_ok_def Let_def wp update_new)
next
  case (Some i)
  then show ?thesis using assms id_dict_lookup [of "constant_ids asm" v i]
    by (auto simp: add_constant_def asm_ok_def tables_ok_def wp)
qed

lemma asm_ok_emit:
  assumes "asm_ok asm" and "fits i" and "closed_instr (instructions asm) i"
  shows "asm_ok (asm\<lparr>instructions := instructions asm @ [i]\<rparr>)"
    and "asm_ok (asm\<lparr>edge_count := n, instructions := instructions asm @ [i]\<rparr>)"
  using assms by (auto simp: asm_ok_def tables_ok_def code_ok_def closed_program_snoc)

lemma edge_type_flag: "map_of EDGE_TYPES t = Some flag \<Longrightarrow> flag = 1 \<or> flag = 2"
  by (auto simp: EDGE_TYPES_def split: if_splits)

lemma ops_code: "map_of OPS oper = Some code \<Longrightarrow> 0 \<le> code \<and> code \<le> 23"
  by (drule map_of_SomeD) (auto simp: OPS_def)

lemma returns_weaken: "returns r P \<Longrightarrow> (\<And>x. P x \<Longrightarrow> Q x) \<Longrightarrow> returns r Q"
  by (simp add: returns_def)

lemma returns_emit_ok:
  assumes "asm_ok asm" and "flg \<le> 255"
    and "\<And>code. map_of OPS oper = Some code \<Longrightarrow>
      closed_instr (instructions asm) \<lparr>i_opcode = code, i_flags = flg, i_target = trg, i_source = src, i_param = par\<rparr>"
  shows "returns (emit asm oper flg trg src par) asm_ok"
  using assms ops_code [of oper] by (force simp: wp fits_def intro!: asm_ok_emit)

lemma closed_other:
  "\<lbrakk>map_of OPS oper = Some code; oper \<notin> {''CREATE_CLAIM'', ''INTERFERE'', ''COMPUTE_TENSION'', ''VERIFY'', ''ACCEPT'', ''REJECT'', ''QUARANTINE''}\<rbrakk>
    \<Longrightarrow> code \<noteq> 4 \<and> code \<notin> {8..13}"
  by (drule map_of_SomeD, unfold OPS_def list.set, elim insertE emptyE; simp)

lemma returns_emit_other:
  assumes "asm_ok asm" and "flg \<le> 255"
    and "oper \<notin> {''CREATE_CLAIM'', ''INTERFERE'', ''COMPUTE_TENSION'', ''VERIFY'', ''ACCEPT'', ''REJECT'', ''QUARANTINE''}"
  shows "returns (emit asm oper flg trg src par) asm_ok"
  using assms closed_other [OF _ assms(3)] by (intro returns_emit_ok) (auto simp: closed_instr_def)

lemma returns_emit_claim:
  assumes "asm_ok asm" and "map_of (claims asm) name = Some v"
    and "oper \<in> {''INTERFERE'', ''COMPUTE_TENSION'', ''VERIFY'', ''ACCEPT'', ''REJECT'', ''QUARANTINE''}"
  shows "returns (emit asm oper 0 v 0 0) asm_ok"
proof (rule returns_emit_ok)
  fix code assume "map_of OPS oper = Some code"
  then have "code \<noteq> 4" using assms(3) by (auto simp: OPS_def)
  then show "closed_instr (instructions asm) \<lparr>i_opcode = code, i_flags = 0, i_target = v, i_source = 0, i_param = 0\<rparr>"
    using asm_claim_id [OF assms(1,2)] by (simp add: closed_instr_def)
qed (simp_all add: assms)

lemma returns_create_node:
  assumes "asm_ok asm"
  shows "returns (rbind (add_node asm name) (\<lambda>(node_id, asm1). emit asm1 ''CREATE_NODE'' 0 node_id 0 0)) asm_ok"
  unfolding returns_simps(3)
  by (rule returns_weaken [OF returns_add_node [OF assms]])
    (auto simp: wp OPS_def asm_ok_def tables_ok_emit code_ok_def fits_def closed_program_snoc closed_instr_def created_single)

lemma returns_create_claim:
  assumes "asm_ok asm" and "map_of (nodes asm) s = Some src" and "map_of (nodes asm) d = Some dst"
  shows "returns (rbind (add_claim asm name src dst) (\<lambda>(claim_id, asm1). emit asm1 ''CREATE_CLAIM'' 0 claim_id src dst)) asm_ok"
proof -
  have "src \<in> created 2 (instructions asm)" "dst \<in> created 2 (instructions asm)"
    using assms asm_node_id by blast+
  moreover have "0 \<le> src \<and> src \<le> 65535" "0 \<le> dst \<and> dst \<le> 65535"
    using assms id_dict_lookup by (auto simp: asm_ok_def tables_ok_def)
  moreover have "code_ok asm" using assms by (simp add: asm_ok_def)
  ultimately show ?thesis
    unfolding returns_simps(3)
    by (intro returns_weaken [OF returns_add_claim [OF assms(1)]])
      (auto simp: wp OPS_def asm_ok_def tables_ok_emit code_ok_def fits_def closed_program_snoc closed_instr_def created_single)
qed

lemma returns_constant_emit:
  assumes "asm_ok asm" and "oper \<in> {''DECLARE_BASIS'', ''VERIFY_HASH''}"
  shows "returns (rbind (add_constant asm v) (\<lambda>(c, asm1). emit asm1 oper 0 (f c) (g c) 0)) asm_ok"
  unfolding returns_simps(3)
  by (rule returns_weaken [OF returns_add_constant [OF assms(1)]])
    (use assms(2) in \<open>auto intro!: returns_emit_other\<close>)

lemma returns_py_int: "returns (py_int t) P \<longleftrightarrow> (\<forall>v. py_int t = Inr v \<longrightarrow> P v)"
  by (simp add: returns_def)

lemmas wps = returns_simps returns_require returns_checks returns_py_int

lemma parse_parts_ok:
  assumes "asm_ok asm"
  shows "returns (parse_parts asm oper parts) asm_ok"
proof -
  note other = returns_emit_other [OF assms]
  note simps = require_node_def require_claim_def require_data_def Let_def
  have edge: "asm_ok (asm\<lparr>edge_count := n\<rparr>)" for n using assms by (simp add: asm_ok_def tables_ok_emit code_ok_update)
  show ?thesis unfolding parse_parts_def
  proof (intro returns_ifI, goal_cases)
    case 1 show ?case using returns_create_node [OF assms] by (simp add: wp)
  next
    case 2 show ?case using edge_type_flag by (fastforce simp: wps simps intro!: returns_emit_other [OF edge])
  next
    case 3 show ?case using returns_create_claim [OF assms] by (auto simp: wps simps)
  next
    case 4 show ?case by (auto simp: wps simps intro!: other)
  next
    case 5 show ?case using edge_type_flag by (fastforce simp: wps simps intro!: other)
  next
    case 6 show ?case by (auto simp: wps simps intro!: other)
  next
    case 7 show ?case by (simp only: wps simps, intro impI allI, rule returns_emit_claim [OF assms _ 7(7)])
  next
    case 8 show ?case by (auto simp: wps simps intro!: other)
  next
    case 9 show ?case by (auto simp: wps simps intro!: other)
  next
    case 10 show ?case by (auto simp: wps simps intro!: other)
  next
    case 11 show ?case using returns_constant_emit [OF assms, of "''DECLARE_BASIS''" _ "\<lambda>c. c" "\<lambda>_. 0"] by (simp add: wps simps)
  next
    case 12 show ?case using returns_add_data [OF assms] by (simp add: wps case_prod_unfold)
  next
    case 13 show ?case by (auto simp: wps simps intro!: other)
  next
    case 14 show ?case by (auto simp: wps simps intro!: other)
  next
    case 15 show ?case using returns_constant_emit [OF assms, of "''VERIFY_HASH''" _ "\<lambda>_. d" "\<lambda>c. c" for d] by (auto simp: wps simps)
  next
    case 16 show ?case by (auto simp: wps simps intro!: other)
  next
    case 17 show ?case by (auto simp: wps simps intro!: other)
  next
    case 18 show ?case by (auto simp: wps simps intro!: other)
  next
    case 19 show ?case by (auto simp: wps simps intro!: other)
  next
    case 20 show ?case by (auto simp: wps simps intro!: other)
  next
    case 21 show ?case by (simp add: wps)
  qed
qed

lemma parse_line_ok: "asm_ok asm \<Longrightarrow> returns (parse_line asm line) asm_ok"
  by (simp add: parse_line_def Let_def wps parse_parts_ok)

theorem parse_lines_ok: "asm_ok asm \<Longrightarrow> fold_res parse_line asm lines = Inr asm' \<Longrightarrow> asm_ok asm'"
  using returns_fold [of asm_ok parse_line asm lines] parse_line_ok by (auto simp: returns_def)

section \<open>The manifest\<close>

lemma sort_key_id_dict:
  assumes "id_dict d"
  shows "sort_key snd d = d"
proof (rule sort_key_id_if_sorted)
  show "sorted (map snd d)" using assms unfolding id_dict_def by (auto simp: sorted_iff_nth_mono)
qed

lemma id_dict_keys:
  assumes "id_dict d"
  shows "distinct (map (\<lambda>kv. str_int (snd kv)) d)"
proof -
  have "map snd d = map int [0..<length d]" using assms by (simp add: id_dict_def)
  moreover have "distinct (map int [0..<length d])" by (simp add: distinct_map)
  ultimately have "distinct (map snd d)" by (simp only:)
  then have "distinct (map str_int (map snd d))" using distinct_map_inj [of str_int "map snd d"] str_int_inj by blast
  then show ?thesis by (simp add: comp_def)
qed

lemma id_table_id_dict: "id_dict d \<Longrightarrow> id_table d = JObj (map (\<lambda>(k, v). (str_int v, JStr k)) d)"
  using id_dict_keys [of d]
  by (simp add: id_table_def sort_key_id_dict pydict_of_distinct comp_def case_prod_unfold)

lemma asm_manifest_json_ok:
  assumes "tables_ok asm"
  shows "json_ok (asm_manifest asm)"
proof -
  have ids: "id_dict (nodes asm)" "id_dict (claims asm)" "id_dict (data_names asm)" "id_dict (constant_ids asm)"
    and cs: "constants asm = map (\<lambda>(v, i). (str_int i, v)) (constant_ids asm)"
    and meta: "meta_ok (claims asm) (claim_meta asm)"
    using assms by (auto simp: tables_ok_def)
  have table: "json_ok (id_table d)" if "id_dict d" for d
    using id_dict_keys [OF that] by (auto simp: id_table_id_dict [OF that] comp_def case_prod_unfold)
  have "distinct (map fst (claim_meta asm))"
    using meta_keys [OF meta] id_dict_keys [OF ids(2)] by (simp add: comp_def)
  moreover have "json_ok j" if kj: "(k, j) \<in> set (claim_meta asm)" for k j
    using meta_entry [OF meta kj] by (auto simp: claim_entry_def)
  moreover have "distinct (map fst (constants asm))"
    using id_dict_keys [OF ids(4)] by (simp add: cs comp_def case_prod_unfold)
  ultimately show ?thesis
    using table ids by (auto simp: asm_manifest_def comp_def case_prod_unfold)
qed

lemma json_index_canon:
  assumes "distinct (map fst kvs)"
  shows "json_index (canon (JObj kvs)) k = (case map_of kvs k of None \<Rightarrow> Inl (KeyError k) | Some v \<Rightarrow> Inr (canon v))"
  using map_of_canon [OF assms, of k] by (auto simp: canon_JObj json_index_def require_def split: option.split simp del: canon.simps)

lemma json_get_canon:
  assumes "distinct (map fst kvs)"
  shows "json_get (canon (JObj kvs)) k v = Inr (case map_of kvs k of None \<Rightarrow> v | Some w \<Rightarrow> canon w)"
  using map_of_canon [OF assms, of k] by (auto simp: canon_JObj json_get_def dict_get_def split: option.split simp del: canon.simps)

definition manifest_members :: "assembler \<Rightarrow> (string \<times> json) list" where
  "manifest_members asm =
    [(''version'', JStr ''0.1''), (''scale'', JInt 1000), (''nodes'', id_table (nodes asm)),
     (''claims'', JObj (claim_meta asm)), (''data_blocks'', id_table (data_names asm)),
     (''constants'', JObj (map (\<lambda>(k, v). (k, JStr v)) (constants asm))),
     (''instruction_count'', JInt (int (length (instructions asm))))]"

lemma asm_manifest_index:
  "json_index (canon (asm_manifest asm)) k =
     (case map_of (manifest_members asm) k of None \<Rightarrow> Inl (KeyError k) | Some v \<Rightarrow> Inr (canon v))"
proof -
  have "asm_manifest asm = JObj (manifest_members asm)" by (simp add: asm_manifest_def manifest_members_def)
  moreover have "distinct (map fst (manifest_members asm))" by (simp add: manifest_members_def)
  ultimately show ?thesis using json_index_canon [of "manifest_members asm" k] by simp
qed

section \<open>Loading what was assembled\<close>

lemma load_written:
  assumes "asm_ok asm" and "write_bogbin asm = Inr data"
  shows "load_bogbin data = Inr (canon (asm_manifest asm), instructions asm, hexdigest data)"
proof -
  let ?m = "utf8 (dumps (asm_manifest asm))"
  obtain packed sz where packed: "map_res pack_instruction (instructions asm) = Inr packed"
      and sz: "struct_field 4 (int (length ?m)) = Inr sz" and data: "data = BOGBIN_MAGIC @ sz @ ?m @ concat packed"
    using assms(2) by (auto simp: write_bogbin_def rbind_Inr_iff Let_def)
  have sz': "length sz = 4" "from_bytes_be sz = length ?m"
    using struct_field_Inr [OF sz] by (auto simp: unpack_field_def)
  have "loads (dumps (asm_manifest asm)) = Inr (canon (asm_manifest asm))"
    using asm_manifest_json_ok assms(1) by (intro loads_dumps) (simp add: asm_ok_def)
  then show ?thesis
    using unpack_packed [OF packed] sz' by (simp add: load_bogbin_def data Let_def)
qed

lemma load_assembled:
  assumes "asm_ok asm" and "assemble_text asm txt = Inr data"
  obtains asm' where "fold_res parse_line asm (splitlines txt) = Inr asm'" and "asm_ok asm'"
    and "load_bogbin data = Inr (canon (asm_manifest asm'), instructions asm', hexdigest data)"
proof -
  obtain asm' where a: "fold_res parse_line asm (splitlines txt) = Inr asm'" "write_bogbin asm' = Inr data"
    using assms(2) by (auto simp: assemble_text_def rbind_Inr_iff)
  then show thesis using that load_written parse_lines_ok [OF assms(1) a(1)] by blast
qed

text \<open>An assembled program is written unless its manifest does not fit a 32-bit length.\<close>

lemma write_bogbin_succeeds:
  assumes "asm_ok asm" and "length (utf8 (dumps (asm_manifest asm))) < 2 ^ 32"
  shows "\<exists>data. write_bogbin asm = Inr data"
proof -
  have "\<forall>i \<in> set (instructions asm). \<exists>bs. pack_instruction i = Inr bs"
    using assms(1) pack_fits by (auto simp: asm_ok_def code_ok_def list_all_iff)
  then obtain g where "\<And>i. i \<in> set (instructions asm) \<Longrightarrow> pack_instruction i = Inr (g i)" by metis
  then have "map_res pack_instruction (instructions asm) = Inr (map g (instructions asm))" by (rule map_res_total)
  then show ?thesis using assms(2) by (simp add: write_bogbin_def struct_field_def Let_def)
qed

end
