(* ===== verification/VM_Correct.thy ===== *)
theory VM_Correct
  imports Assembler_Correct
begin

text \<open>
  Correctness of the virtual machine: the support search decides reachability, every instruction
  keeps the state well-formed, acceptance is always preceded by a successful verification, and a
  program whose references are closed can only be stopped by a \<open>VMError\<close>.
\<close>

section \<open>The support search decides reachability\<close>

text \<open>One support edge of the graph, as the search sees it.\<close>

definition support_edge :: "vm_state \<Rightarrow> int \<Rightarrow> int \<Rightarrow> bool" where
  "support_edge st a b \<longleftrightarrow> (\<exists>edge_id \<in> set (dict_get (adjacency_out st) a []). \<exists>edge.
     map_of (edge_table st) edge_id = Some edge \<and> e_type edge = ''support'' \<and> e_target edge = b)"

lemma list_all2_image: "list_all2 (\<lambda>x y. f x = Some y) xs ys \<Longrightarrow> y \<in> set ys \<longleftrightarrow> (\<exists>x \<in> set xs. f x = Some y)"
  by (induction xs ys rule: list_all2_induct) auto

lemma support_next_Inr:
  assumes "support_next st visited n = Inr ns"
  shows "set ns = {m. support_edge st n m \<and> m \<notin> visited}"
proof -
  let ?ids = "sort (dict_get (adjacency_out st) n [])"
  obtain edges where edges: "map_res (\<lambda>edge_id. require (edge_table st) edge_id (KeyError (str_int edge_id))) ?ids = Inr edges"
      and ns: "ns = map e_target (filter (\<lambda>edge. e_type edge = ''support'' \<and> e_target edge \<notin> visited) edges)"
    using assms by (auto simp: support_next_def rbind_Inr_iff)
  have all: "list_all2 (\<lambda>i e. map_of (edge_table st) i = Some e) ?ids edges"
    using edges by (simp add: map_res_Inr_iff require_Inr_iff)
  have "e \<in> set edges \<longleftrightarrow> (\<exists>i \<in> set ?ids. map_of (edge_table st) i = Some e)" for e
    using all by (rule list_all2_image)
  then show ?thesis unfolding ns by (auto simp: support_edge_def)
qed

lemma search_sound:
  assumes "search st goal queue visited = Inr True" and "\<forall>q \<in> set queue. (support_edge st)\<^sup>*\<^sup>* src q"
  shows "(support_edge st)\<^sup>*\<^sup>* src goal"
  using assms
proof (induction st goal queue visited rule: search.induct)
  case (2 st goal node_id queue visited)
  show ?case
  proof (cases "node_id = goal \<or> node_id \<in> visited")
    case True
    then show ?thesis using 2 by (auto split: if_splits)
  next
    case False
    then obtain ns where ns: "support_next st (insert node_id visited) node_id = Inr ns"
        and rec: "search st goal (queue @ ns) (insert node_id visited) = Inr True"
      using 2(3) by (auto simp: rbind_Inr_iff)
    have "(support_edge st)\<^sup>*\<^sup>* src q" if q: "q \<in> set (queue @ ns)" for q
      using q 2(4) support_next_Inr [OF ns] by (auto intro: rtranclp.rtrancl_into_rtrancl)
    then show ?thesis using 2(2) [OF _ _ ns rec] False by simp
  qed
qed simp

lemma search_complete:
  assumes "search st goal queue visited = Inr False"
    and "goal \<notin> visited" and "\<forall>v \<in> visited. \<forall>w. support_edge st v w \<longrightarrow> w \<in> visited \<union> set queue"
  shows "\<exists>V. visited \<union> set queue \<subseteq> V \<and> goal \<notin> V \<and> (\<forall>v \<in> V. \<forall>w. support_edge st v w \<longrightarrow> w \<in> V)"
  using assms
proof (induction st goal queue visited rule: search.induct)
  case (1 st goal visited)
  then show ?case by auto
next
  case (2 st goal node_id queue visited)
  have ne: "node_id \<noteq> goal" using 2(3) by auto
  show ?case
  proof (cases "node_id \<in> visited")
    case True
    then have "\<exists>V. visited \<union> set queue \<subseteq> V \<and> goal \<notin> V \<and> (\<forall>v \<in> V. \<forall>w. support_edge st v w \<longrightarrow> w \<in> V)"
      using 2 ne by (intro 2(1)) auto
    then show ?thesis using True by (simp add: insert_absorb)
  next
    case False
    then obtain ns where ns: "support_next st (insert node_id visited) node_id = Inr ns"
        and rec: "search st goal (queue @ ns) (insert node_id visited) = Inr False"
      using 2(3) ne by (auto simp: rbind_Inr_iff)
    have "\<exists>V. insert node_id visited \<union> set (queue @ ns) \<subseteq> V \<and> goal \<notin> V \<and> (\<forall>v \<in> V. \<forall>w. support_edge st v w \<longrightarrow> w \<in> V)"
      using ne False 2(4,5) support_next_Inr [OF ns] by (intro 2(2) [OF _ _ ns rec]) auto
    then show ?thesis by auto
  qed
qed

lemma closed_set_reach: "R\<^sup>*\<^sup>* a b \<Longrightarrow> a \<in> V \<Longrightarrow> (\<forall>v \<in> V. \<forall>w. R v w \<longrightarrow> w \<in> V) \<Longrightarrow> b \<in> V"
  by (induction rule: rtranclp_induct) auto

lemma support_path_decides:
  assumes "support_path_exists st src dst = Inr found"
  shows "found \<longleftrightarrow> (support_edge st)\<^sup>*\<^sup>* src dst"
proof (cases found)
  case True
  then show ?thesis using assms search_sound [of st dst "[src]" "{}" src] by (simp add: support_path_exists_def)
next
  case False
  then obtain V where "src \<in> V" "dst \<notin> V" "\<forall>v \<in> V. \<forall>w. support_edge st v w \<longrightarrow> w \<in> V"
    using assms search_complete [of st dst "[src]" "{}"] by (auto simp: support_path_exists_def)
  then show ?thesis using False closed_set_reach by metis
qed

lemma verify_claim_verified:
  "verify_claim st c = Inr ''verified'' \<longleftrightarrow>
    (\<exists>claim. map_of (claim_table st) c = Some claim \<and>
      (\<forall>p. map_of (pressure_current st) c = Some p \<longrightarrow> conflict_pressure p \<le> 0) \<and>
      support_path_exists st (cl_source claim) (cl_target claim) = Inr True)"
  by (auto simp: verify_claim_def rbind_Inr_iff require_Inr_iff Let_def not_less split: option.splits if_splits)

section \<open>Outcomes\<close>

text \<open>\<open>outcome E r P\<close>: the computation returns a value with \<open>P\<close> or raises an exception with \<open>E\<close>. With
  \<open>E\<close> true everywhere this is partial correctness; with \<open>E = is_VMError\<close> it says that only the
  machine's own error can stop the computation. Both readings share the rules below.\<close>

definition outcome :: "(exn \<Rightarrow> bool) \<Rightarrow> 'a res \<Rightarrow> ('a \<Rightarrow> bool) \<Rightarrow> bool" where
  "outcome E r P = (case r of Inl e \<Rightarrow> E e | Inr x \<Rightarrow> P x)"

definition is_VMError :: "exn \<Rightarrow> bool" where
  "is_VMError e \<longleftrightarrow> (\<exists>m. e = VMError m)"

named_theorems outcome_simps

lemma outcome_basic [outcome_simps]:
  "outcome E (Inl e) P = E e"
  "outcome E (Inr x) P = P x"
  "outcome E (rbind m f) P = outcome E m (\<lambda>x. outcome E (f x) P)"
  "outcome E (if c then r1 else r2) P = ((c \<longrightarrow> outcome E r1 P) \<and> (\<not> c \<longrightarrow> outcome E r2 P))"
  by (auto simp: outcome_def rbind_def split: sum.splits)

lemma outcome_require [outcome_simps]:
  "outcome E (require d k e) P = ((map_of d k = None \<longrightarrow> E e) \<and> (\<forall>v. map_of d k = Some v \<longrightarrow> P v))"
  by (cases "map_of d k") (simp_all add: outcome_def require_def)

lemma outcome_names [outcome_simps]:
  "outcome E (node_name st n) P =
    ((map_of (node_table st) n = None \<longrightarrow> E (KeyError (str_int n))) \<and> (\<forall>v. map_of (node_table st) n = Some v \<longrightarrow> P (n_name v)))"
  "outcome E (claim_name st c) P =
    ((map_of (claim_table st) c = None \<longrightarrow> E (KeyError (str_int c))) \<and> (\<forall>v. map_of (claim_table st) c = Some v \<longrightarrow> P (cl_name v)))"
  "outcome E (get_block oper st d) Q =
    ((map_of (data_blocks st) d = None \<longrightarrow> E (VMError (oper @ '' missing data block '' @ str_int d))) \<and>
     (\<forall>v. map_of (data_blocks st) d = Some v \<longrightarrow> Q v))"
  by (simp_all add: node_name_def claim_name_def get_block_def outcome_simps)

lemma outcome_weaken: "outcome E r P \<Longrightarrow> (\<And>x. P x \<Longrightarrow> Q x) \<Longrightarrow> outcome E r Q"
  by (auto simp: outcome_def split: sum.splits)

lemma outcome_fold:
  assumes "\<And>s x. x \<in> set xs \<Longrightarrow> I s \<Longrightarrow> outcome E (f s x) I" and "I s"
  shows "outcome E (fold_res f s xs) I"
  using assms
proof (induction xs arbitrary: s)
  case (Cons x xs)
  have "outcome E (f s x) (\<lambda>s'. outcome E (fold_res f s' xs) I)"
  proof (rule outcome_weaken)
    show "outcome E (f s x) I" using Cons.prems by simp
  next
    fix s' assume "I s'"
    then show "outcome E (fold_res f s' xs) I" using Cons.prems(1) by (intro Cons.IH) simp_all
  qed
  then show ?case by (simp add: outcome_simps)
qed (simp add: outcome_simps)

lemma outcome_map_res:
  assumes "\<And>x. x \<in> set xs \<Longrightarrow> outcome E (f x) (\<lambda>_. True)"
  shows "outcome E (map_res f xs) (\<lambda>_. True)"
  using assms
proof (induction xs)
  case (Cons x xs)
  have "outcome E (map_res f xs) (\<lambda>_. True)" using Cons by simp
  moreover have "outcome E (f x) (\<lambda>_. True)" using Cons.prems by simp
  ultimately show ?case by (auto simp: outcome_def rbind_def split: sum.splits)
qed (simp add: outcome_simps)

lemma outcome_iff: "outcome E r P \<longleftrightarrow> (\<forall>e. r = Inl e \<longrightarrow> E e) \<and> (\<forall>x. r = Inr x \<longrightarrow> P x)"
  by (auto simp: outcome_def split: sum.splits)

section \<open>Well-formed states\<close>

definition edge_ok :: "int set \<Rightarrow> edge \<Rightarrow> bool" where
  "edge_ok node_ids e \<longleftrightarrow> e_source e \<in> node_ids \<and> e_target e \<in> node_ids \<and> e_weight e = SCALE \<and>
     (e_type e = ''support'' \<or> e_type e = ''conflict'')"

lemma edge_ok_mono: "edge_ok A e \<Longrightarrow> A \<subseteq> B \<Longrightarrow> edge_ok B e"
  by (auto simp: edge_ok_def)

definition graph_ok :: "vm_state \<Rightarrow> bool" where
  "graph_ok st \<longleftrightarrow>
     (\<forall>k ids. map_of (adjacency_out st) k = Some ids \<longrightarrow> set ids \<subseteq> dom (map_of (edge_table st))) \<and>
     (\<forall>k ids. map_of (adjacency_in st) k = Some ids \<longrightarrow> set ids \<subseteq> dom (map_of (edge_table st))) \<and>
     (\<forall>k e. map_of (edge_table st) k = Some e \<longrightarrow> edge_ok (dom (map_of (node_table st))) e)"

definition activation_ok :: "vm_state \<Rightarrow> bool" where
  "activation_ok st \<longleftrightarrow> (\<forall>(k, v) \<in> set (activation_current st). 0 \<le> v)"

definition claims_ok :: "vm_state \<Rightarrow> bool" where
  "claims_ok st \<longleftrightarrow>
     set (accepted_claims st) \<union> set (rejected_claims st) \<union> set (quarantined_claims st) \<subseteq> dom (map_of (claim_table st)) \<and>
     (\<forall>xs \<in> {accepted_claims st, rejected_claims st, quarantined_claims st}. sorted xs \<and> distinct xs)"

definition block_ok :: "data_block \<Rightarrow> bool" where
  "block_ok b \<longleftrightarrow> (\<forall>(offset, v) \<in> set (d_residuals b). 0 \<le> offset \<and> 0 \<le> v \<and> v \<le> 255)"

definition data_ok :: "vm_state \<Rightarrow> bool" where
  "data_ok st \<longleftrightarrow>
     (\<forall>k b. map_of (data_blocks st) k = Some b \<longrightarrow> block_ok b) \<and>
     set (accepted_data_blocks st) \<union> set (rejected_data_blocks st) \<subseteq> dom (map_of (data_blocks st)) \<and>
     (\<forall>xs \<in> {accepted_data_blocks st, rejected_data_blocks st}. sorted xs \<and> distinct xs)"

definition vm_ok :: "vm_state \<Rightarrow> bool" where
  "vm_ok st \<longleftrightarrow> graph_ok st \<and> activation_ok st \<and> claims_ok st \<and> data_ok st"

lemma new_vm_ok: "vm_ok (new_vm m h)"
  by (simp add: vm_ok_def graph_ok_def activation_ok_def claims_ok_def data_ok_def new_vm_def)

text \<open>What one step may do to what was verified and accepted.\<close>

definition hash_matches :: "vm_state \<Rightarrow> int \<Rightarrow> bool" where
  "hash_matches st d \<longleftrightarrow> (\<exists>block c. map_of (data_blocks st) d = Some block \<and>
     manifest_get st ''constants'' c JNull = Inr (JStr (hexdigest (d_bytes block))))"

definition claims_follow :: "vm_state \<Rightarrow> vm_state \<Rightarrow> bool" where
  "claims_follow st st' \<longleftrightarrow>
     (\<forall>c. map_of (verifier_results st') c = Some ''verified'' \<longrightarrow>
        map_of (verifier_results st) c = Some ''verified'' \<or> verify_claim st c = Inr ''verified'') \<and>
     (\<forall>c \<in> set (accepted_claims st'). c \<in> set (accepted_claims st) \<or> map_of (verifier_results st) c = Some ''verified'')"

definition data_follow :: "vm_state \<Rightarrow> vm_state \<Rightarrow> bool" where
  "data_follow st st' \<longleftrightarrow>
     (\<forall>d. map_of (data_hash_results st') d = Some ''verified'' \<longrightarrow>
        map_of (data_hash_results st) d = Some ''verified'' \<or> hash_matches st d) \<and>
     (\<forall>d \<in> set (accepted_data_blocks st'). d \<in> set (accepted_data_blocks st) \<or> map_of (data_hash_results st) d = Some ''verified'')"

definition keeps :: "vm_state \<Rightarrow> vm_state \<Rightarrow> bool" where
  "keeps st st' \<longleftrightarrow> manifest st' = manifest st \<and> program_hash st' = program_hash st \<and>
     dom (map_of (node_table st)) \<subseteq> dom (map_of (node_table st')) \<and>
     dom (map_of (claim_table st)) \<subseteq> dom (map_of (claim_table st'))"

definition good_step :: "vm_state \<Rightarrow> vm_state \<Rightarrow> bool" where
  "good_step st st' \<longleftrightarrow> vm_ok st' \<and> keeps st st' \<and> claims_follow st st' \<and> data_follow st st'"

lemma log_event_simps [simp]:
  "manifest (log_event pc oper details st) = manifest st"
  "node_table (log_event pc oper details st) = node_table st"
  "edge_table (log_event pc oper details st) = edge_table st"
  "claim_table (log_event pc oper details st) = claim_table st"
  "data_blocks (log_event pc oper details st) = data_blocks st"
  "accepted_claims (log_event pc oper details st) = accepted_claims st"
  "rejected_claims (log_event pc oper details st) = rejected_claims st"
  "quarantined_claims (log_event pc oper details st) = quarantined_claims st"
  "accepted_data_blocks (log_event pc oper details st) = accepted_data_blocks st"
  "rejected_data_blocks (log_event pc oper details st) = rejected_data_blocks st"
  by (simp_all add: log_event_def)

lemma good_step_log [simp]: "good_step st (log_event pc oper details st') = good_step st st'"
  by (simp add: good_step_def vm_ok_def graph_ok_def activation_ok_def claims_ok_def data_ok_def keeps_def
      claims_follow_def data_follow_def log_event_def)

lemma good_step_refl: "vm_ok st \<Longrightarrow> good_step st st"
  by (auto simp: good_step_def keeps_def claims_follow_def data_follow_def)

text \<open>A manifest that has the sections the machine looks into, with named claims.\<close>

definition manifest_ok :: "json \<Rightarrow> bool" where
  "manifest_ok m \<longleftrightarrow>
     (\<forall>sec \<in> {''nodes'', ''claims'', ''constants'', ''data_blocks''}. \<exists>kvs. json_index m sec = Inr (JObj kvs)) \<and>
     (\<forall>kvs k v. json_index m ''claims'' = Inr (JObj kvs) \<longrightarrow> map_of kvs k = Some v \<longrightarrow> v \<noteq> JNull \<longrightarrow>
        (\<exists>members name. v = JObj members \<and> map_of members ''name'' = Some name))"

lemma manifest_get_outcome:
  assumes "(\<forall>e. E e) \<or> manifest_ok (manifest st)" and "sec \<in> {''nodes'', ''claims'', ''constants'', ''data_blocks''}"
  shows "outcome E (manifest_get st sec k d) P \<longleftrightarrow> (\<forall>v. manifest_get st sec k d = Inr v \<longrightarrow> P v)"
proof -
  have "E e" if "manifest_get st sec k d = Inl e" for e
    using assms that by (auto simp: manifest_ok_def manifest_get_def json_get_def)
  then show ?thesis unfolding outcome_iff by blast
qed

lemma claim_meta_name:
  assumes "(\<forall>e. E e) \<or> manifest_ok (manifest st)" and "manifest_get st ''claims'' k JNull = Inr v" and "v \<noteq> JNull"
  shows "outcome E (json_index v ''name'') P \<longleftrightarrow> (\<forall>x. json_index v ''name'' = Inr x \<longrightarrow> P x)"
proof -
  have "E e" if "json_index v ''name'' = Inl e" for e
  proof (cases "\<forall>e. E e")
    case False
    then obtain kvs where "json_index (manifest st) ''claims'' = Inr (JObj kvs)" and m: "manifest_ok (manifest st)"
      using assms(1) by (auto simp: manifest_ok_def)
    moreover from this have "map_of kvs (str_int k) = Some v"
      using assms(2,3) by (auto simp: manifest_get_def json_get_def dict_get_def split: option.splits)
    ultimately obtain members name where "v = JObj members" "map_of members ''name'' = Some name"
      using assms(3) unfolding manifest_ok_def by blast
    then show ?thesis using that by (simp add: json_index_def require_def)
  qed simp
  then show ?thesis unfolding outcome_iff by blast
qed

section \<open>Every instruction is a good step\<close>

lemmas vm_ok_defs = vm_ok_def graph_ok_def activation_ok_def claims_ok_def data_ok_def
lemmas follow_defs = keeps_def claims_follow_def data_follow_def

lemma good_step_node:
  assumes "vm_ok st"
  shows "good_step st (st\<lparr>node_table := AList.update k n (node_table st)\<rparr>)" (is "good_step st ?st")
proof -
  have "dom (map_of (node_table st)) \<subseteq> dom (map_of (node_table ?st))" by auto
  then have "graph_ok ?st" using assms edge_ok_mono unfolding vm_ok_def graph_ok_def by simp blast
  then show ?thesis using assms
    by (auto simp: good_step_def vm_ok_def activation_ok_def claims_ok_def data_ok_def follow_defs)
qed

lemma exec_create_node_ok:
  assumes "vm_ok st" and "\<And>m. E (VMError m)" and "(\<forall>e. E e) \<or> manifest_ok (manifest st)"
  shows "outcome E (exec_create_node pc i st)
    (\<lambda>st'. good_step st st' \<and> i_target i \<in> dom (map_of (node_table st')))"
  unfolding exec_create_node_def outcome_simps Let_def manifest_get_outcome [OF assms(3), of "''nodes''", simplified]
  using assms(2) by (simp add: good_step_node [OF assms(1)] dom_def)

lemma in_dom_map_of: "k \<in> fst ` set d \<longleftrightarrow> map_of d k \<noteq> None"
  by (simp add: map_of_eq_None_iff)

lemma append_sorted_ids:
  "map_of (append_sorted k e adj) k' = Some ids \<Longrightarrow> set ids \<subseteq> insert e (\<Union> (set ` ran (map_of adj)))"
  by (auto simp: append_sorted_def dict_get_def ran_def split: if_splits option.splits)

lemma edge_type_name: "map_of EDGE_TYPE_NAMES f = Some t \<Longrightarrow> t = ''support'' \<or> t = ''conflict''"
  by (auto simp: EDGE_TYPE_NAMES_def EDGE_TYPES_def split: if_splits)

lemma good_step_edge:
  assumes ok: "vm_ok st" and nodes: "src \<in> dom (map_of (node_table st))" "dst \<in> dom (map_of (node_table st))"
    and t: "t = ''support'' \<or> t = ''conflict''"
  shows "good_step st (st\<lparr>edge_table := AList.update k \<lparr>e_id = k, e_source = src, e_target = dst, e_type = t, e_weight = SCALE\<rparr>
        (edge_table st), adjacency_out := append_sorted src k (adjacency_out st),
      adjacency_in := append_sorted dst k (adjacency_in st)\<rparr>)" (is "good_step st ?st")
proof -
  have ids: "set ids \<subseteq> dom (map_of (edge_table ?st))"
    if adj: "map_of (append_sorted a k adj) b = Some ids" "adj = adjacency_out st \<or> adj = adjacency_in st" for a b ids adj
  proof -
    have "\<Union> (set ` ran (map_of adj)) \<subseteq> dom (map_of (edge_table st))"
    proof -
      have "\<forall>b ids. map_of adj b = Some ids \<longrightarrow> set ids \<subseteq> dom (map_of (edge_table st))"
        using adj(2) ok unfolding vm_ok_def graph_ok_def by (elim disjE) simp_all
      then show ?thesis unfolding ran_def by blast
    qed
    moreover have "dom (map_of (edge_table ?st)) = insert k (dom (map_of (edge_table st)))" by auto
    ultimately show ?thesis
      using order_trans [OF append_sorted_ids [OF adj(1)] insert_mono] by (simp only:)
  qed
  have "graph_ok ?st"
    unfolding graph_ok_def
  proof (intro conjI allI impI)
    show "set ids \<subseteq> dom (map_of (edge_table ?st))" if "map_of (adjacency_out ?st) b = Some ids" for b ids
      using ids [where a = src and adj = "adjacency_out st"] that by simp
    show "set ids \<subseteq> dom (map_of (edge_table ?st))" if "map_of (adjacency_in ?st) b = Some ids" for b ids
      using ids [where a = dst and adj = "adjacency_in st"] that by simp
    show "edge_ok (dom (map_of (node_table ?st))) e" if "map_of (edge_table ?st) b = Some e" for b e
      using that ok nodes t by (cases "b = k") (auto simp: vm_ok_def graph_ok_def edge_ok_def)
  qed
  then show ?thesis using ok
    by (simp add: good_step_def vm_ok_def activation_ok_def claims_ok_def data_ok_def follow_defs)
qed

lemma exec_create_edge_ok:
  assumes ok: "vm_ok st" and E: "\<And>m. E (VMError m)"
  shows "outcome E (exec_create_edge pc i st) (good_step st)"
  unfolding exec_create_edge_def outcome_simps Let_def in_dom_map_of
  using E by (auto dest!: edge_type_name intro!: good_step_edge [OF ok])

lemma exec_create_claim_ok:
  assumes "vm_ok st" and "\<And>m. E (VMError m)" and "(\<forall>e. E e) \<or> manifest_ok (manifest st)"
    and "(\<forall>e. E e) \<or> {i_source i, i_param i} \<subseteq> dom (map_of (node_table st))"
  shows "outcome E (exec_create_claim pc i st)
    (\<lambda>st'. good_step st st' \<and> i_target i \<in> dom (map_of (claim_table st')))"
  unfolding exec_create_claim_def outcome_simps Let_def manifest_get_outcome [OF assms(3), of "''claims''", simplified]
  using assms by (auto simp: outcome_simps claim_meta_name good_step_def vm_ok_defs follow_defs log_event_def; blast)

lemma set_update_subset: "set (AList.update k v d) \<subseteq> insert (k, v) (set d)"
  by (induction d) auto

lemma good_step_activation:
  assumes "vm_ok st" and "\<forall>(k, v) \<in> set d. 0 \<le> v"
  shows "good_step st (st\<lparr>activation_current := d\<rparr>)"
    and "good_step st (st\<lparr>activation_current := d, activation_scratch := s\<rparr>)"
  using assms by (simp_all add: good_step_def vm_ok_defs follow_defs)

lemma exec_activate_ok:
  assumes ok: "vm_ok st" and E: "\<And>m. E (VMError m)"
  shows "outcome E (exec_activate pc i st) (good_step st)"
proof -
  have pos: "\<forall>(k, v) \<in> set (AList.update a b (activation_current st)). 0 \<le> v" if "0 \<le> b" for a b
    using ok that set_update_subset [of a b "activation_current st"]
    unfolding vm_ok_def activation_ok_def by auto
  show ?thesis
    unfolding exec_activate_def outcome_simps Let_def in_dom_map_of
    using E by (auto simp: good_step_activation [OF ok pos])
qed

text \<open>Propagation: the values of the wave stay non-negative, the energy stays within the limit, and
  only nodes of the graph are reached.\<close>

definition wave_ok :: "vm_state \<Rightarrow> wave \<Rightarrow> bool" where
  "wave_ok st w \<longleftrightarrow> (let (scratch, total_energy, reached) = w in
     (\<forall>(k, v) \<in> set scratch. 0 \<le> v) \<and> 0 \<le> total_energy \<and> total_energy \<le> ENERGY_LIMIT \<and>
     set reached \<subseteq> dom (map_of (node_table st)) \<and> distinct reached)"

lemma adjacency_edge:
  assumes "graph_ok st" and "e \<in> set (dict_get (adjacency_out st) n []) \<union> set (dict_get (adjacency_in st) n [])"
  obtains edge where "map_of (edge_table st) e = Some edge" and "e_source edge \<in> dom (map_of (node_table st))"
    and "e_target edge \<in> dom (map_of (node_table st))" and "e_weight edge = SCALE"
proof -
  have "e \<in> dom (map_of (edge_table st))"
    using assms unfolding graph_ok_def dict_get_def
    by (cases "map_of (adjacency_out st) n"; cases "map_of (adjacency_in st) n"; auto) blast+
  then show thesis using assms(1) that unfolding graph_ok_def edge_ok_def by blast
qed

lemma spread_edge_ok:
  assumes "graph_ok st" and "wave_ok st w" and "e \<in> set (dict_get (adjacency_out st) n [])" and "\<And>m. E (VMError m)"
  shows "outcome E (spread_edge st t a w e) (wave_ok st)"
proof -
  obtain edge where edge: "map_of (edge_table st) e = Some edge" "e_target edge \<in> dom (map_of (node_table st))"
    using adjacency_edge [OF assms(1), of e n] assms(3) by blast
  obtain scratch energy reached where w: "w = (scratch, energy, reached)" by (cases w)
  have "0 \<le> dict_get scratch k 0" for k
    using assms(2) map_of_SomeD [of scratch k] by (force simp: w wave_ok_def dict_get_def split: option.splits)
  then show ?thesis
    using assms(2,4) edge set_update_subset [of "e_target edge" _ scratch]
    by (fastforce simp: spread_edge_def outcome_simps wave_ok_def w Let_def)
qed

lemma spread_node_ok:
  assumes "graph_ok st" and "wave_ok st w" and "\<And>m. E (VMError m)"
  shows "outcome E (spread_node st t w node) (wave_ok st)"
proof -
  obtain n a where "node = (n, a)" by (cases node)
  then show ?thesis
    using assms spread_edge_ok [OF assms(1)]
    by (auto simp: spread_node_def outcome_simps intro!: outcome_fold)
qed

lemma foldl_raise_to:
  assumes "\<forall>(k, v) \<in> set d. 0 \<le> v"
  shows "\<forall>(k, v) \<in> set (foldl raise_to d kvs). (0 :: int) \<le> v"
  using assms
proof (induction kvs arbitrary: d)
  case (Cons kv kvs)
  obtain k v where kv: "kv = (k, v)" by (cases kv)
  have "0 \<le> dict_get d k 0" using Cons.prems map_of_SomeD [of d k] by (force simp: dict_get_def split: option.splits)
  then have "\<forall>(k', v') \<in> set (raise_to d kv). 0 \<le> v'"
    using Cons.prems set_update_subset [of k "max (dict_get d k 0) v" d] by (auto simp: raise_to_def kv)
  then show ?case using Cons.IH [of "raise_to d kv"] by simp
qed simp

lemma propagate_ticks_ok:
  assumes "graph_ok st" and "\<And>m. E (VMError m)" and "\<forall>(k, v) \<in> set cumulative. 0 \<le> v" and "wave_ok st ([], energy, reached)"
  shows "outcome E (propagate_ticks st t n cumulative frontier energy reached)
    (\<lambda>(c, energy', reached'). (\<forall>(k, v) \<in> set c. 0 \<le> v) \<and> wave_ok st ([], energy', reached'))"
  using assms(3,4)
proof (induction n arbitrary: cumulative frontier energy reached)
  case 0
  then show ?case by (simp add: outcome_simps)
next
  case (Suc n)
  have wave: "outcome E (fold_res (spread_node st t) ([], energy, reached) (sort_key fst frontier)) (wave_ok st)"
    using Suc.prems(2) spread_node_ok [where E = E, OF assms(1) _ assms(2)] by (intro outcome_fold) auto
  show ?case
    unfolding propagate_ticks.simps outcome_simps
  proof (rule outcome_weaken [OF wave], clarify)
    fix scratch energy' reached' assume "wave_ok st (scratch, energy', reached')"
    then have "wave_ok st ([], energy', reached')" by (simp add: wave_ok_def)
    then show "outcome E (propagate_ticks st t n (foldl raise_to cumulative (sort_key fst scratch)) (sort_key fst scratch) energy' reached')
      (\<lambda>(c, energy', reached'). (\<forall>(k, v) \<in> set c. 0 \<le> v) \<and> wave_ok st ([], energy', reached'))"
      by (intro Suc.IH foldl_raise_to Suc.prems(1))
  qed
qed

lemma exec_propagate_ok:
  assumes ok: "vm_ok st" and E: "\<And>m. E (VMError m)"
  shows "outcome E (exec_propagate pc i st) (good_step st)"
proof -
  let ?frontier = "[(i_source i, dict_get (activation_current st) (i_source i) 0)]"
  have ticks: "outcome E (propagate_ticks st t (nat (i_param i)) (activation_current st) ?frontier 0 [])
    (\<lambda>(c, energy', reached'). (\<forall>(k, v) \<in> set c. 0 \<le> v) \<and> wave_ok st ([], energy', reached'))" for t
    using ok E by (intro propagate_ticks_ok) (simp_all add: vm_ok_def activation_ok_def wave_ok_def ENERGY_LIMIT_def)
  have rest: "outcome E (rbind (if i_source i \<in> fst ` set (node_table st1) then node_name st1 (i_source i)
           else Inr (JInt (i_source i))) (\<lambda>src.
    rbind (map_res (node_name st1) (sort reached)) (\<lambda>names. Inr (f src names)))) (good_step st)"
    if st1: "st1 = st\<lparr>activation_current := sort_key fst c, activation_scratch := []\<rparr>"
      and c: "\<forall>(k, v) \<in> set c. 0 \<le> v" and w: "wave_ok st ([], energy, reached)"
      and f: "\<And>src names. f src names = log_event pc oper (d src names) st1" for c energy reached f oper d st1
  proof -
    have good: "good_step st st1" unfolding st1 by (rule good_step_activation [OF ok]) (use c in simp)
    have "outcome E (map_res (node_name st1) (sort reached)) (\<lambda>_. True)"
      using w by (intro outcome_map_res) (auto simp: outcome_simps wave_ok_def st1)
    then show ?thesis using good
      by (auto simp: outcome_simps in_dom_map_of f intro: outcome_weaken)
  qed
  show ?thesis
    unfolding exec_propagate_def Let_def
    by (subst outcome_basic(3), subst outcome_require, intro conjI impI allI E, subst outcome_basic(3),
        rule outcome_weaken [OF ticks], clarify, rule rest [OF refl]) auto
qed

lemma exec_decay_ok:
  assumes ok: "vm_ok st" and E: "\<And>m. E (VMError m)"
  shows "outcome E (exec_decay pc i st) (good_step st)"
proof -
  have pos: "\<forall>(k, v) \<in> set (filter (\<lambda>(k, v). v > 0) kvs). (0 :: int) \<le> v" for kvs :: "(int, int) pydict" by auto
  show ?thesis
    unfolding exec_decay_def outcome_simps Let_def using E by (simp add: good_step_activation(1) [OF ok pos])
qed

lemma exec_interfere_ok:
  assumes ok: "vm_ok st" and "(\<forall>e. E e) \<or> i_target i \<in> dom (map_of (claim_table st))"
  shows "outcome E (exec_interfere pc i st) (good_step st)"
proof -
  have edges: "outcome E (fold_res (conflict_at st) 0 (sort (dict_get (adjacency_in st) n []))) (\<lambda>_. True)" for n
  proof (rule outcome_fold)
    fix acc e assume "e \<in> set (sort (dict_get (adjacency_in st) n []))"
    then obtain edge where "map_of (edge_table st) e = Some edge"
      using adjacency_edge [of st e n] ok by (auto simp: vm_ok_def)
    then show "outcome E (conflict_at st acc e) (\<lambda>_. True)" by (simp add: conflict_at_def outcome_simps)
  qed simp
  have good: "good_step st (st\<lparr>pressure_current := p, tension_current := t\<rparr>)" for p t
    using ok by (simp add: good_step_def vm_ok_defs follow_defs)
  show ?thesis
    unfolding exec_interfere_def Let_def
    using assms(2) by (auto simp: outcome_simps good intro: outcome_weaken [OF edges])
qed

lemma exec_compute_tension_ok:
  assumes "vm_ok st" and "(\<forall>e. E e) \<or> i_target i \<in> dom (map_of (claim_table st))"
  shows "outcome E (exec_compute_tension pc i st) (good_step st)"
proof -
  have "good_step st (st\<lparr>tension_current := t\<rparr>)" for t
    using assms(1) by (simp add: good_step_def vm_ok_defs follow_defs)
  then show ?thesis using assms(2) by (auto simp: exec_compute_tension_def Let_def outcome_simps)
qed

text \<open>In a well-formed state the search never meets a dangling edge, so it always answers.\<close>

lemma support_next_total:
  assumes "graph_ok st"
  shows "\<exists>ns. support_next st visited n = Inr ns"
proof -
  have "\<forall>e \<in> set (sort (dict_get (adjacency_out st) n [])). \<exists>edge. map_of (edge_table st) e = Some edge"
    using adjacency_edge [OF assms] by (metis UnI1 set_sort)
  then obtain g where "\<And>e. e \<in> set (sort (dict_get (adjacency_out st) n [])) \<Longrightarrow>
      require (edge_table st) e (KeyError (str_int e)) = Inr (g e)"
    by (metis require_Inr_iff)
  then show ?thesis unfolding support_next_def by (subst map_res_total) auto
qed

lemma search_total: "graph_ok st \<Longrightarrow> \<exists>b. search st goal queue visited = Inr b"
proof (induction st goal queue visited rule: search.induct)
  case (2 st goal node_id queue visited)
  obtain ns where "support_next st (insert node_id visited) node_id = Inr ns"
    using support_next_total [OF 2(3)] by blast
  then show ?case using 2 by (cases "node_id = goal") auto
qed (metis search.simps(1))

lemma support_path_total: "graph_ok st \<Longrightarrow> \<exists>b. support_path_exists st src dst = Inr b"
  unfolding support_path_exists_def by (rule search_total)

lemma verify_claim_outcome:
  assumes "vm_ok st" and "(\<forall>e. E e) \<or> c \<in> dom (map_of (claim_table st))"
  shows "outcome E (verify_claim st c) P \<longleftrightarrow> (\<forall>s. verify_claim st c = Inr s \<longrightarrow> P s)"
proof -
  have "E e" if "verify_claim st c = Inl e" for e
  proof (cases "map_of (claim_table st) c")
    case None
    then show ?thesis using assms(2) by auto
  next
    case (Some claim)
    obtain b where "support_path_exists st (cl_source claim) (cl_target claim) = Inr b"
      using support_path_total [of st] assms(1) unfolding vm_ok_def by blast
    then have "\<exists>s. verify_claim st c = Inr s" using Some by (simp add: verify_claim_def Let_def require_def)
    then show ?thesis using that by auto
  qed
  then show ?thesis unfolding outcome_iff by blast
qed

lemma exec_verify_ok:
  assumes ok: "vm_ok st" and c: "(\<forall>e. E e) \<or> i_target i \<in> dom (map_of (claim_table st))"
  shows "outcome E (exec_verify pc i st) (good_step st)"
proof -
  have "good_step st (st\<lparr>verifier_results := AList.update (i_target i) s (verifier_results st)\<rparr>)"
    if "verify_claim st (i_target i) = Inr s" for s
    using ok that by (auto simp: good_step_def vm_ok_defs follow_defs)
  then show ?thesis using c by (auto simp: exec_verify_def Let_def outcome_simps verify_claim_outcome [OF ok c])
qed

lemma add_sorted_simps [simp]:
  "set (add_sorted x xs) = insert x (set xs)"
  "sorted xs \<Longrightarrow> sorted (add_sorted x xs)"
  "distinct xs \<Longrightarrow> distinct (add_sorted x xs)"
  by (auto simp: add_sorted_def)

lemma good_step_claim_lists:
  assumes ok: "vm_ok st" and c: "map_of (claim_table st) c = Some claim"
  shows "good_step st (st\<lparr>rejected_claims := add_sorted c (rejected_claims st)\<rparr>)"
    and "good_step st (st\<lparr>quarantined_claims := add_sorted c (quarantined_claims st)\<rparr>)"
    and "good_step st (st\<lparr>rejected_claims := add_sorted c (rejected_claims st), quarantined_claims := add_sorted c (quarantined_claims st)\<rparr>)"
    and "map_of (verifier_results st) c = Some ''verified'' \<Longrightarrow> good_step st (st\<lparr>accepted_claims := add_sorted c (accepted_claims st)\<rparr>)"
  using assms by (auto simp: good_step_def vm_ok_defs follow_defs)

lemma exec_claim_lists_ok:
  assumes ok: "vm_ok st" and E: "\<And>m. E (VMError m)" and c: "(\<forall>e. E e) \<or> i_target i \<in> dom (map_of (claim_table st))"
  shows "outcome E (exec_accept pc i st) (good_step st)"
    and "outcome E (exec_reject pc i st) (good_step st)"
    and "outcome E (exec_quarantine pc i st) (good_step st)"
  using good_step_claim_lists [OF ok] E c
  by (auto simp: exec_accept_def exec_reject_def exec_quarantine_def repair_rejected_claim_def Let_def outcome_simps)

lemma exec_declare_basis_ok:
  assumes ok: "vm_ok st" and E: "\<And>m. E (VMError m)" and m: "(\<forall>e. E e) \<or> manifest_ok (manifest st)"
  shows "outcome E (exec_declare_basis pc i st) (good_step st)"
proof -
  have "good_step st (st\<lparr>active_basis := b\<rparr>)" for b
    using ok by (simp add: good_step_def vm_ok_defs follow_defs)
  then show ?thesis
    unfolding exec_declare_basis_def outcome_simps manifest_get_outcome [OF m, of "''constants''", simplified]
    using E by (auto simp: outcome_simps split: json.split)
qed

lemma good_step_block:
  assumes ok: "vm_ok st" and b: "block_ok b"
  shows "good_step st (set_block d b st)"
proof -
  have "data_ok (set_block d b st)"
    using assms by (auto simp: vm_ok_def data_ok_def set_block_def split: if_splits)
  then show ?thesis using ok by (auto simp: good_step_def vm_ok_def graph_ok_def activation_ok_def claims_ok_def follow_defs set_block_def)
qed

lemma exec_load_coefficients_ok:
  assumes ok: "vm_ok st" and E: "\<And>m. E (VMError m)" and m: "(\<forall>e. E e) \<or> manifest_ok (manifest st)"
  shows "outcome E (exec_load_coefficients pc i st) (good_step st)"
  unfolding exec_load_coefficients_def outcome_simps manifest_get_outcome [OF m, of "''data_blocks''", simplified] Let_def
    set_block_def [symmetric]
  using E by (auto simp: block_ok_def intro!: good_step_block [OF ok])

lemma synthesize_block_outcome:
  assumes "\<And>m. E (VMError m)"
  shows "outcome E (synthesize_block b) P \<longleftrightarrow> (\<forall>bs. synthesize_block b = Inr bs \<longrightarrow> P bs)"
proof -
  have "\<exists>m. e = ValueError m" if "synthesize_basis basis s n d = Inl e" for basis s n d e
    using that by (auto simp: synthesize_basis_def Let_def split: if_splits)
  then have "\<exists>m. e = VMError m" if "synthesize_block b = Inl e" for e
    using that by (fastforce simp: synthesize_block_def split: option.splits sum.splits exn.splits)
  then show ?thesis using assms unfolding outcome_iff by blast
qed

lemma block_ok_get: "vm_ok st \<Longrightarrow> map_of (data_blocks st) d = Some b \<Longrightarrow> block_ok b"
  by (simp add: vm_ok_def data_ok_def)

lemma exec_synthesize_ok:
  assumes ok: "vm_ok st" and E: "\<And>m. E (VMError m)"
  shows "outcome E (exec_synthesize pc i st) (good_step st)"
  using block_ok_get [OF ok] E
  by (auto simp: exec_synthesize_def outcome_simps synthesize_block_outcome [where E = E, OF E] block_ok_def intro!: good_step_block [OF ok])

lemma exec_verify_hash_ok:
  assumes ok: "vm_ok st" and E: "\<And>m. E (VMError m)" and m: "(\<forall>e. E e) \<or> manifest_ok (manifest st)"
  shows "outcome E (exec_verify_hash pc i st) (good_step st)"
proof -
  have step: "good_step st (st\<lparr>data_hash_results := AList.update (i_target i) r (data_hash_results st)\<rparr>)"
    if "r = ''verified'' \<Longrightarrow> hash_matches st (i_target i)" for r
    using ok that by (auto simp: good_step_def vm_ok_defs follow_defs)
  have "good_step st (st\<lparr>data_hash_results := AList.update (i_target i) ''rejected'' (data_hash_results st)\<rparr>)"
    by (rule step) simp
  moreover have "good_step st (st\<lparr>data_hash_results := AList.update (i_target i) ''verified'' (data_hash_results st)\<rparr>)"
    if "hash_matches st (i_target i)" using that by (rule step)
  ultimately show ?thesis
    unfolding exec_verify_hash_def outcome_simps manifest_get_outcome [OF m, of "''constants''", simplified] Let_def
    using E by (auto simp: hash_matches_def)
qed

lemma good_step_data_lists:
  assumes ok: "vm_ok st" and d: "map_of (data_blocks st) d = Some b"
  shows "good_step st (st\<lparr>rejected_data_blocks := add_sorted d (rejected_data_blocks st)\<rparr>)"
    and "map_of (data_hash_results st) d = Some ''verified'' \<Longrightarrow>
      good_step st (st\<lparr>accepted_data_blocks := add_sorted d (accepted_data_blocks st)\<rparr>)"
  using assms by (auto simp: good_step_def vm_ok_defs follow_defs)

lemma exec_data_lists_ok:
  assumes ok: "vm_ok st" and E: "\<And>m. E (VMError m)"
  shows "outcome E (exec_accept_data pc i st) (good_step st)"
    and "outcome E (exec_reject_data pc i st) (good_step st)"
  using good_step_data_lists [OF ok] E
  by (auto simp: exec_accept_data_def exec_reject_data_def outcome_simps)

lemma exec_store_residual_ok:
  assumes ok: "vm_ok st" and E: "\<And>m. E (VMError m)" and "0 \<le> i_source i"
  shows "outcome E (exec_store_residual pc i st) (good_step st)"
  using block_ok_get [OF ok, of "i_target i"] E assms(3)
  by (auto simp: exec_store_residual_def outcome_simps block_ok_def intro!: good_step_block [OF ok])

lemma exec_apply_residual_ok:
  assumes ok: "vm_ok st" and E: "\<And>m. E (VMError m)"
  shows "outcome E (exec_apply_residual pc i st) (good_step st)"
proof -
  have patches: "outcome E (fold_res (apply_patch name) (data, n) rs) (\<lambda>_. True)"
    if "\<forall>(offset, v) \<in> set rs. 0 \<le> offset \<and> 0 \<le> v \<and> v \<le> 255" for name data n rs
    using that E by (intro outcome_fold) (auto simp: apply_patch_def outcome_simps bytearray_set_def Let_def)
  show ?thesis
    unfolding exec_apply_residual_def
    using block_ok_get [OF ok, of "i_target i"] E
    by (auto simp: outcome_simps block_ok_def intro!: outcome_weaken [OF patches] good_step_block [OF ok])
qed

text \<open>An instruction whose references exist in the state.\<close>

definition resolved :: "vm_state \<Rightarrow> instruction \<Rightarrow> bool" where
  "resolved st i \<longleftrightarrow>
     (i_opcode i = 4 \<longrightarrow> i_source i \<in> dom (map_of (node_table st)) \<and> i_param i \<in> dom (map_of (node_table st))) \<and>
     (i_opcode i \<in> {8..13} \<longrightarrow> i_target i \<in> dom (map_of (claim_table st)))"

definition creates :: "instruction \<Rightarrow> vm_state \<Rightarrow> bool" where
  "creates i st \<longleftrightarrow> (i_opcode i = 2 \<longrightarrow> i_target i \<in> dom (map_of (node_table st))) \<and>
     (i_opcode i = 4 \<longrightarrow> i_target i \<in> dom (map_of (claim_table st)))"

lemma op_names_code:
  assumes "map_of OP_NAMES code = Some oper"
  shows "map_of OPS oper = Some code"
proof -
  have "(code, oper) \<in> set OP_NAMES" using assms by (rule map_of_SomeD)
  then have "(oper, code) \<in> set OPS" by (auto simp: OP_NAMES_def)
  moreover have "distinct (map fst OPS)" by (simp add: OPS_def)
  ultimately show ?thesis by simp
qed

lemma step_ok:
  assumes ok: "vm_ok st" and E: "\<And>m. E (VMError m)" and op: "map_of OP_NAMES (i_opcode i) = Some oper"
    and i: "fits i" and closed: "(\<forall>e. E e) \<or> manifest_ok (manifest st) \<and> resolved st i"
  shows "outcome E (step pc oper i st) (\<lambda>st'. good_step st st' \<and> creates i st')"
proof -
  have m: "(\<forall>e. E e) \<or> manifest_ok (manifest st)" using closed by blast
  have code: "map_of OPS oper = Some (i_opcode i)" by (rule op_names_code [OF op])
  have other: "outcome E r (\<lambda>st'. good_step st st' \<and> creates i st')"
    if "outcome E r (good_step st)" and "i_opcode i \<noteq> 2" and "i_opcode i \<noteq> 4" for r
    using that by (auto simp: creates_def intro: outcome_weaken)
  have claim: "(\<forall>e. E e) \<or> i_target i \<in> dom (map_of (claim_table st))" if "i_opcode i \<in> {8..13}"
    using closed that by (auto simp: resolved_def)
  have node: "outcome E (exec_create_node pc i st) (\<lambda>st'. good_step st st' \<and> creates i st')" if "i_opcode i = 2"
    by (rule outcome_weaken [OF exec_create_node_ok [where E = E, OF ok E m]]) (use that in \<open>simp add: creates_def\<close>)
  have new_claim: "outcome E (exec_create_claim pc i st) (\<lambda>st'. good_step st st' \<and> creates i st')" if "i_opcode i = 4"
    by (rule outcome_weaken [OF exec_create_claim_ok [where E = E, OF ok E m]])
      (use that closed in \<open>auto simp: creates_def resolved_def\<close>)
  have log: "outcome E (Inr (log_event pc op ds st')) (good_step st)" if "good_step st st'" for op ds st'
    using that by (simp add: outcome_simps)
  have emitted: "good_step st (st\<lparr>receipt_emitted := True\<rparr>)"
    using ok by (simp add: good_step_def vm_ok_defs follow_defs)
  have blocked: "outcome E (Inl (VMError msg)) P" for msg and P :: "vm_state \<Rightarrow> bool"
    using E by (simp add: outcome_simps)
  note graph = other [OF exec_create_edge_ok [where E = E, OF ok E]] other [OF exec_activate_ok [where E = E, OF ok E]]
    other [OF exec_propagate_ok [where E = E, OF ok E]] other [OF exec_decay_ok [where E = E, OF ok E]]
  note claim_ops = other [OF exec_interfere_ok [OF ok claim]] other [OF exec_compute_tension_ok [OF ok claim]]
    other [OF exec_verify_ok [OF ok claim]] exec_claim_lists_ok [where E = E, OF ok E claim, THEN other]
  note data_ops = other [OF exec_declare_basis_ok [where E = E, OF ok E m]] other [OF exec_load_coefficients_ok [where E = E, OF ok E m]]
    other [OF exec_synthesize_ok [where E = E, OF ok E]] other [OF exec_verify_hash_ok [where E = E, OF ok E m]]
    exec_data_lists_ok [where E = E, OF ok E, THEN other] other [OF exec_store_residual_ok [where E = E, OF ok E]]
    other [OF exec_apply_residual_ok [where E = E, OF ok E]]
  have "0 \<le> i_source i" using i by (simp add: fits_def)
  then show ?thesis
    using map_of_SomeD [OF code] unfolding OPS_def list.set
    by (elim insertE emptyE)
      (simp_all add: step_def node new_claim graph claim_ops data_ops blocked other [OF log [OF good_step_refl [OF ok]]] other [OF log [OF emitted]])
qed

end
