(* ===== verification/VM_Runs.thy ===== *)
theory VM_Runs
  imports VM_Correct
begin

text \<open>
  Whole runs of the virtual machine: the states a program passes through as a step relation,
  invariants of the reachable states by rule induction, and the outcome of running a file.
\<close>

section \<open>The step relation\<close>

inductive vm_step :: "vm_state \<Rightarrow> vm_state \<Rightarrow> bool" where
  vm_stepI: "\<lbrakk>map_of OP_NAMES (i_opcode i) = Some oper; oper \<noteq> ''HALT''; fits i; step pc oper i st = Inr st'\<rbrakk>
     \<Longrightarrow> vm_step st st'"

inductive_cases vm_stepE: "vm_step st st'"

lemma vm_step_good:
  assumes "vm_step st st'" and "vm_ok st"
  shows "good_step st st'"
  using assms(1)
proof (rule vm_stepE)
  fix i oper pc assume "map_of OP_NAMES (i_opcode i) = Some oper" "fits i" "step pc oper i st = Inr st'"
  then show ?thesis
    using step_ok [where E = "\<lambda>_. True", OF assms(2), of i oper pc] by (simp add: outcome_def)
qed

abbreviation vm_steps :: "vm_state \<Rightarrow> vm_state \<Rightarrow> bool" where
  "vm_steps \<equiv> vm_step\<^sup>*\<^sup>*"

definition reachable :: "json \<Rightarrow> string \<Rightarrow> vm_state \<Rightarrow> bool" where
  "reachable m h st \<longleftrightarrow> vm_steps (new_vm m h) st"

lemma keeps_trans: "keeps a b \<Longrightarrow> keeps b c \<Longrightarrow> keeps a c"
  unfolding keeps_def by (simp, blast)

lemma steps_ok: "vm_steps st st' \<Longrightarrow> vm_ok st \<Longrightarrow> vm_ok st' \<and> keeps st st'"
proof (induction rule: rtranclp_induct)
  case (step y z)
  then have "vm_ok y" "keeps st y" and "good_step y z" using vm_step_good by auto
  then show ?case unfolding good_step_def using keeps_trans by blast
qed (simp add: keeps_def)

lemma reachable_ok: "reachable m h st \<Longrightarrow> vm_ok st"
  using steps_ok new_vm_ok by (simp add: reachable_def)

section \<open>Acceptance follows verification\<close>

text \<open>A property of states held at some earlier point of the run.\<close>

definition once :: "(vm_state \<Rightarrow> bool) \<Rightarrow> json \<Rightarrow> string \<Rightarrow> vm_state \<Rightarrow> bool" where
  "once P m h st \<longleftrightarrow> (\<exists>st0. reachable m h st0 \<and> P st0 \<and> vm_steps st0 st)"

lemma once_step: "once P m h st \<Longrightarrow> vm_step st st' \<Longrightarrow> once P m h st'"
  unfolding once_def by (meson rtranclp.rtrancl_into_rtrancl)

lemma once_now: "reachable m h st \<Longrightarrow> P st \<Longrightarrow> once P m h st"
  unfolding once_def by blast

text \<open>A status that only a check can set, and a list that only grows by entries with that status: the
  check succeeded earlier for every entry. The two kinds of acceptance are instances.\<close>

locale gated =
  fixes passed :: "vm_state \<Rightarrow> int \<Rightarrow> bool"
    and accepted :: "vm_state \<Rightarrow> int list"
    and check :: "vm_state \<Rightarrow> int \<Rightarrow> bool"
  assumes fresh: "\<not> passed (new_vm m h) x" "accepted (new_vm m h) = []"
    and passed_step: "good_step st st' \<Longrightarrow> passed st' x \<Longrightarrow> passed st x \<or> check st x"
    and accepted_step: "good_step st st' \<Longrightarrow> x \<in> set (accepted st') \<Longrightarrow> x \<in> set (accepted st) \<or> passed st x"
begin

lemma passed_once:
  assumes "reachable m h st"
  shows "passed st x \<longrightarrow> once (\<lambda>st0. check st0 x) m h st"
  using assms unfolding reachable_def
proof (induction rule: rtranclp_induct)
  case (step st st')
  then have "reachable m h st" by (simp add: reachable_def)
  then show ?case
    using step passed_step [OF vm_step_good [OF step(2) reachable_ok]] once_step once_now by metis
qed (simp add: fresh)

lemma accepted_once:
  assumes "reachable m h st"
  shows "x \<in> set (accepted st) \<longrightarrow> once (\<lambda>st0. check st0 x) m h st"
  using assms unfolding reachable_def
proof (induction rule: rtranclp_induct)
  case (step st st')
  then have "reachable m h st" by (simp add: reachable_def)
  then show ?case
    using step accepted_step [OF vm_step_good [OF step(2) reachable_ok]] passed_once once_step by metis
qed (simp add: fresh)

end

interpretation claims_gate: gated
  "\<lambda>st c. map_of (verifier_results st) c = Some ''verified''" accepted_claims "\<lambda>st c. verify_claim st c = Inr ''verified''"
  by unfold_locales (auto simp: new_vm_def good_step_def claims_follow_def)

interpretation data_gate: gated
  "\<lambda>st d. map_of (data_hash_results st) d = Some ''verified''" accepted_data_blocks hash_matches
  by unfold_locales (auto simp: new_vm_def good_step_def data_follow_def)

section \<open>The program loop\<close>

lemma run_loop_reaches:
  assumes "list_all fits is" and "run_loop pc is st = r"
  shows "case r of
      Inl (e, st') \<Rightarrow> vm_steps st st'
    | Inr (pc', st') \<Rightarrow> \<exists>st1. vm_steps st st1 \<and> st' = log_event (int pc') ''HALT'' [] st1"
  using assms
proof (induction pc "is" st arbitrary: r rule: run_loop.induct)
  case (1 pc st)
  then show ?case by auto
next
  case (2 pc i rest st)
  show ?case
  proof (cases "map_of OP_NAMES (i_opcode i)")
    case None
    then show ?thesis using 2(3) by auto
  next
    case (Some oper)
    show ?thesis
    proof (cases "oper = ''HALT'' \<or> (\<exists>e. step (int pc) oper i st = Inl e)")
      case True
      then show ?thesis using 2(3) Some by auto
    next
      case False
      then obtain st1 where st1: "step (int pc) oper i st = Inr st1" by (cases "step (int pc) oper i st") auto
      have "vm_step st st1" using Some False st1 2(2) by (auto intro: vm_stepI)
      moreover have "run_loop (Suc pc) rest st1 = r" using 2(3) Some False st1 by simp
      ultimately show ?thesis
        using 2(1) [OF Some _ st1, of r] False 2(2)
        by (auto split: sum.splits intro: converse_rtranclp_into_rtranclp)
    qed
  qed
qed

text \<open>A program whose references are closed can only be stopped by the machine itself.\<close>

lemma run_loop_closed:
  assumes "list_all fits is" and "\<forall>n < length is. closed_instr (pre @ take n is) (is ! n)"
    and "vm_ok st" and "manifest_ok (manifest st)"
    and "created 2 pre \<subseteq> dom (map_of (node_table st))" and "created 4 pre \<subseteq> dom (map_of (claim_table st))"
    and "run_loop pc is st = Inl (e, st')"
  shows "is_VMError e"
  using assms
proof (induction "is" arbitrary: pre pc st)
  case Nil
  then show ?case by (auto simp: is_VMError_def)
next
  case (Cons i rest)
  show ?case
  proof (cases "map_of OP_NAMES (i_opcode i)")
    case None
    then show ?thesis using Cons.prems(7) by (auto simp: is_VMError_def)
  next
    case (Some oper)
    have "closed_instr pre i" using Cons.prems(2) by fastforce
    then have "resolved st i" using Cons.prems(5,6) by (auto simp: resolved_def closed_instr_def)
    then have out: "outcome is_VMError (step (int pc) oper i st) (\<lambda>st1. good_step st st1 \<and> creates i st1)"
      using Cons.prems(1,3,4) Some by (intro step_ok) (auto simp: is_VMError_def)
    show ?thesis
    proof (cases "step (int pc) oper i st")
      case (Inl e')
      then show ?thesis using out Cons.prems(7) Some by (auto simp: outcome_def split: if_splits)
    next
      case (Inr st1)
      then have good: "good_step st st1" "creates i st1" using out by (simp_all add: outcome_def)
      have "run_loop (Suc pc) rest st1 = Inl (e, st')" using Cons.prems(7) Some Inr by (auto split: if_splits)
      moreover have "\<forall>n < length rest. closed_instr ((pre @ [i]) @ take n rest) (rest ! n)"
        using Cons.prems(2) by fastforce
      moreover have "created 2 (pre @ [i]) \<subseteq> dom (map_of (node_table st1))" "created 4 (pre @ [i]) \<subseteq> dom (map_of (claim_table st1))"
        using Cons.prems(5,6) good unfolding created_append created_single good_step_def keeps_def creates_def
        by (simp_all split: if_split) blast+
      ultimately show ?thesis
        using Cons.IH [of "pre @ [i]" st1 "Suc pc"] Cons.prems(1,4) good
        by (simp add: good_step_def keeps_def)
    qed
  qed
qed

section \<open>Receipts\<close>

lemma receipt_total:
  assumes "vm_ok st" and "manifest_ok (manifest st)"
  shows "\<exists>r. receipt st = Inr r"
proof -
  have names: "\<exists>ns. map_res (claim_name st) cs = Inr ns" if "set cs \<subseteq> dom (map_of (claim_table st))" for cs
  proof -
    have "\<exists>n. claim_name st c = Inr n" if c: "c \<in> set cs" for c
    proof -
      obtain claim where "map_of (claim_table st) c = Some claim" using that c \<open>set cs \<subseteq> _\<close> by blast
      then show ?thesis by (simp add: claim_name_def require_def)
    qed
    then obtain g where "\<And>c. c \<in> set cs \<Longrightarrow> claim_name st c = Inr (g c)" by metis
    then show ?thesis using map_res_total by blast
  qed
  have "\<exists>ns. map_res (data_block_name st) ds = Inr ns" for ds
  proof -
    have "\<exists>n. data_block_name st d = Inr n" for d
      using assms(2) by (force simp: data_block_name_def manifest_get_def manifest_ok_def json_get_def)
    then obtain g where "\<And>d. data_block_name st d = Inr (g d)" by metis
    then show ?thesis using map_res_total [of ds "data_block_name st" g] by blast
  qed
  then obtain d1 d2 where "map_res (data_block_name st) (accepted_data_blocks st) = Inr d1"
      "map_res (data_block_name st) (rejected_data_blocks st) = Inr d2" by blast
  moreover have "set (accepted_claims st) \<subseteq> dom (map_of (claim_table st))"
      "set (rejected_claims st) \<subseteq> dom (map_of (claim_table st))"
      "set (quarantined_claims st) \<subseteq> dom (map_of (claim_table st))"
    using assms(1) by (simp_all add: vm_ok_def claims_ok_def)
  then obtain c1 c2 c3 where "map_res (claim_name st) (accepted_claims st) = Inr c1"
      "map_res (claim_name st) (rejected_claims st) = Inr c2" "map_res (claim_name st) (quarantined_claims st) = Inr c3"
    using names by meson
  ultimately show ?thesis by (simp add: receipt_def Let_def)
qed

lemma vm_ok_log [simp]: "vm_ok (log_event pc oper details st) = vm_ok st"
  by (simp add: vm_ok_defs log_event_def)

section \<open>Running a file\<close>

text \<open>A closed program over a complete manifest always ends with a receipt.\<close>

lemma run_closed_receipt:
  assumes "load_bogbin data = Inr (m, is, h)" and "list_all fits is" and "closed_program is" and "manifest_ok m"
  shows "\<exists>r code. run_file_with_block_receipt data = Inr (r, code) \<and> code \<in> {0, 1}"
proof (cases "run_loop 0 is (new_vm m h)")
  case (Inl es)
  obtain e st where es: "es = (e, st)" by (cases es)
  have "is_VMError e"
    using assms(2-4) Inl es new_vm_ok
    by (intro run_loop_closed [of "is" "[]" "new_vm m h" 0 e st]) (auto simp: closed_program_def created_def new_vm_def)
  then obtain msg where e: "e = VMError msg" by (auto simp: is_VMError_def)
  have "vm_steps (new_vm m h) st" using run_loop_reaches [OF assms(2) Inl] es by simp
  then have "vm_ok st" "manifest st = m" using steps_ok [OF _ new_vm_ok] by (auto simp: keeps_def new_vm_def)
  then obtain r where "receipt (log_event (- 1) ''BLOCKED_EXECUTION'' [(''reason'', JStr msg)] st) = Inr r"
    using receipt_total assms(4) by fastforce
  then show ?thesis using assms(1) Inl es e by (simp add: run_file_with_block_receipt_def run_def)
next
  case (Inr ps)
  obtain pc st where ps: "ps = (pc, st)" by (cases ps)
  obtain st1 where "vm_steps (new_vm m h) st1" "st = log_event (int pc) ''HALT'' [] st1"
    using run_loop_reaches [OF assms(2) Inr] ps by auto
  then have "vm_ok st" "manifest st = m" using steps_ok [OF _ new_vm_ok] by (auto simp: keeps_def new_vm_def)
  then have "vm_ok (finish_run pc st)" "manifest (finish_run pc st) = m" by (simp_all add: finish_run_def)
  then obtain r where "receipt (finish_run pc st) = Inr r" using receipt_total assms(4) by blast
  then show ?thesis using assms(1) Inr ps by (simp add: run_file_with_block_receipt_def run_def)
qed

lemma asm_manifest_ok:
  assumes "tables_ok asm"
  shows "manifest_ok (canon (asm_manifest asm))"
proof -
  have meta: "meta_ok (claims asm) (claim_meta asm)" using assms by (simp add: tables_ok_def)
  have "\<exists>members name. v = JObj members \<and> map_of members ''name'' = Some name"
    if kvs: "canon (JObj (claim_meta asm)) = JObj kvs" and v: "map_of kvs k = Some v" for kvs k v
  proof -
    obtain j where j: "(k, j) \<in> set (claim_meta asm)" "v = canon j"
      using kvs map_of_SomeD [OF v] by (auto simp: canon_JObj simp del: canon.simps)
    then show ?thesis using meta_entry [OF meta j(1)] by (force simp: claim_entry_def canon_JObj simp del: canon.simps)
  qed
  then show ?thesis
    unfolding manifest_ok_def asm_manifest_index by (simp add: manifest_members_def id_table_def canon_JObj del: canon.simps)
qed

lemma assembled_runs:
  assumes "assemble_text new_assembler txt = Inr data"
  shows "\<exists>r code. run_file_with_block_receipt data = Inr (r, code) \<and> code \<in> {0, 1}"
proof -
  obtain asm where asm: "asm_ok asm" "load_bogbin data = Inr (canon (asm_manifest asm), instructions asm, hexdigest data)"
    using load_assembled [OF new_assembler_ok assms] by blast
  then show ?thesis
    using run_closed_receipt [OF asm(2)] asm_manifest_ok by (simp add: asm_ok_def code_ok_def)
qed

section \<open>Propagation never lowers an activation\<close>

lemma map_of_filter_key: "map_of kvs k = (case filter (\<lambda>kv. fst kv = k) kvs of [] \<Rightarrow> None | kv # _ \<Rightarrow> Some (snd kv))"
  by (induction kvs) auto

lemma map_of_stable_sort: "map_of (sort_key fst kvs) k = map_of kvs k"
  unfolding map_of_filter_key [of _ k] by (simp add: sort_key_stable)

lemma dict_get_raise_to: "dict_get d k 0 \<le> dict_get (raise_to d kv) k 0"
  by (cases kv) (auto simp: raise_to_def dict_get_def split: option.splits)

lemma dict_get_foldl_raise_to: "dict_get d k 0 \<le> dict_get (foldl raise_to d kvs) k 0"
proof (induction kvs arbitrary: d)
  case (Cons kv kvs)
  show ?case using order_trans [OF dict_get_raise_to [of d k kv] Cons.IH] by simp
qed simp

lemma propagate_ticks_mono:
  "propagate_ticks st t n cumulative frontier energy reached = Inr (c, energy', reached') \<Longrightarrow>
     dict_get cumulative k 0 \<le> dict_get c k 0"
proof (induction n arbitrary: cumulative frontier energy reached)
  case (Suc n)
  then obtain scratch e r where
    "propagate_ticks st t n (foldl raise_to cumulative (sort_key fst scratch)) (sort_key fst scratch) e r = Inr (c, energy', reached')"
    by (auto simp: rbind_Inr_iff)
  then have "dict_get (foldl raise_to cumulative (sort_key fst scratch)) k 0 \<le> dict_get c k 0" by (rule Suc.IH)
  then show ?case using dict_get_foldl_raise_to order_trans by blast
qed simp

lemma exec_propagate_Inr:
  assumes "exec_propagate pc i st = Inr st'" and "vm_ok st"
  obtains energy details where "\<And>k. dict_get (activation_current st) k 0 \<le> dict_get (activation_current st') k 0"
    and "receipt_ledger st' = receipt_ledger st @ [\<lparr>ev_pc = pc, ev_opcode = ''PROPAGATE'', ev_details = details\<rparr>]"
    and "map_of details ''energy_spent'' = Some (JInt energy)" and "0 \<le> energy" and "energy \<le> ENERGY_LIMIT"
proof -
  let ?frontier = "[(i_source i, dict_get (activation_current st) (i_source i) 0)]"
  obtain t c energy reached src names where ticks: "propagate_ticks st t (nat (i_param i)) (activation_current st) ?frontier 0 [] = Inr (c, energy, reached)"
      and st': "st' = log_event pc ''PROPAGATE'' [(''source'', src), (''edge_type'', JStr t), (''depth'', JInt (i_param i)),
        (''energy_spent'', JInt energy), (''nodes_reached'', JList names)] (st\<lparr>activation_current := sort_key fst c, activation_scratch := []\<rparr>)"
    using assms(1) by (auto simp: exec_propagate_def rbind_Inr_iff Let_def)
  have "wave_ok st ([], energy, reached)"
    using propagate_ticks_ok [of st "\<lambda>_. True" "activation_current st" 0 "[]" t "nat (i_param i)" ?frontier] assms(2) ticks
    by (simp add: outcome_def vm_ok_def activation_ok_def wave_ok_def ENERGY_LIMIT_def)
  moreover have "dict_get (activation_current st) k 0 \<le> dict_get (activation_current st') k 0" for k
    using propagate_ticks_mono [OF ticks, of k] by (simp add: st' log_event_def dict_get_def map_of_stable_sort)
  ultimately show thesis by (intro that) (auto simp: st' log_event_def wave_ok_def)
qed

section \<open>The gap between verifying and accepting data\<close>

text \<open>Residuals stored and applied after a successful hash check change the bytes, and the block is still
  accepted.\<close>

lemma late_patch_accepted:
  assumes blk: "map_of (data_blocks st) d = Some blk" "d_residuals blk = []" and verified: "map_of (data_hash_results st) d = Some ''verified''"
    and range: "0 \<le> offset" "offset < int (length (d_bytes blk))" "int (length (d_bytes blk)) = d_length blk" "0 \<le> v" "v \<le> 255"
  shows "\<exists>st1 st2 st3 blk'. step pc ''STORE_RESIDUAL'' \<lparr>i_opcode = 21, i_flags = 0, i_target = d, i_source = offset, i_param = v\<rparr> st = Inr st1 \<and>
     step (pc + 1) ''APPLY_RESIDUAL'' \<lparr>i_opcode = 22, i_flags = 0, i_target = d, i_source = 0, i_param = 0\<rparr> st1 = Inr st2 \<and>
     step (pc + 2) ''ACCEPT_DATA'' \<lparr>i_opcode = 20, i_flags = 0, i_target = d, i_source = 0, i_param = 0\<rparr> st2 = Inr st3 \<and>
     d \<in> set (accepted_data_blocks st3) \<and> map_of (data_blocks st3) d = Some blk' \<and>
     d_bytes blk' = (d_bytes blk)[nat offset := word_of_int v]"
proof -
  define st1 where "st1 = log_event pc ''STORE_RESIDUAL'' [(''data_block'', d_name blk), (''offset'', JInt offset), (''byte'', JInt v)]
      (set_block d (blk\<lparr>d_residuals := [(offset, v)]\<rparr>) st)"
  have s1: "step pc ''STORE_RESIDUAL'' \<lparr>i_opcode = 21, i_flags = 0, i_target = d, i_source = offset, i_param = v\<rparr> st = Inr st1"
    using blk range by (simp add: step_def exec_store_residual_def get_block_def require_def st1_def)
  let ?bs = "(d_bytes blk)[nat offset := word_of_int v]"
  define st2 where "st2 = log_event (pc + 1) ''APPLY_RESIDUAL'' [(''data_block'', d_name blk), (''residual_count'', JInt 1),
        (''byte_length'', JInt (int (length ?bs)))] (set_block d (blk\<lparr>d_residuals := [(offset, v)], d_bytes := ?bs\<rparr>) st1)"
  have b1: "map_of (data_blocks st1) d = Some (blk\<lparr>d_residuals := [(offset, v)]\<rparr>)" by (simp add: st1_def set_block_def)
  have s2: "step (pc + 1) ''APPLY_RESIDUAL'' \<lparr>i_opcode = 22, i_flags = 0, i_target = d, i_source = 0, i_param = 0\<rparr> st1 = Inr st2"
    using b1 range by (simp add: step_def exec_apply_residual_def get_block_def require_def apply_patch_def bytearray_set_def Let_def st2_def)
  have b2: "map_of (data_blocks st2) d = Some (blk\<lparr>d_residuals := [(offset, v)], d_bytes := ?bs\<rparr>)"
      "map_of (data_hash_results st2) d = Some ''verified''"
    using verified by (simp_all add: st1_def st2_def set_block_def log_event_def)
  then have "step (pc + 2) ''ACCEPT_DATA'' \<lparr>i_opcode = 20, i_flags = 0, i_target = d, i_source = 0, i_param = 0\<rparr> st2 =
      Inr (log_event (pc + 2) ''ACCEPT_DATA'' [(''data_block'', d_name blk), (''result'', JStr ''accepted'')]
        (st2\<lparr>accepted_data_blocks := add_sorted d (accepted_data_blocks st2)\<rparr>))"
    by (simp add: step_def exec_accept_data_def get_block_def require_def)
  then show ?thesis using s1 s2 b2(1) by auto
qed

end
