(* ===== verification/Packer.thy ===== *)
theory Packer
  imports VM_Runs Container_Correct
begin

text \<open>
  The packers of \<^verbatim>\<open>src/bogvm/packer.py\<close>, which write a residual plan as assembly text, and the
  path of such a text through the assembler and the virtual machine.
\<close>

section \<open>Definitions\<close>

definition MAX_U16 :: int where
  "MAX_U16 = 65535"

definition validate_data_name :: "string \<Rightarrow> unit res" where
  "validate_data_name data_name =
    (if data_name = [] \<or> list_ex is_space data_name then Inl (PackerError ''data_name must be a non-empty single token'')
     else Inr ())"

text \<open>The lines that rebuild one block; \<open>plan.get('delta', 0)\<close> is the field of the plan, which is always set.\<close>

definition block_lines :: "string \<Rightarrow> 'a plan_scheme \<Rightarrow> string list" where
  "block_lines name plan =
     [''DATA_BLOCK '' @ name,
      ''DECLARE_BASIS '' @ p_basis plan,
      ''LOAD_COEFFICIENTS '' @ name @ '' '' @ str_int (p_start_byte plan) @ '' '' @ str_int (p_length plan) @
        '' '' @ str_int (p_delta plan),
      ''SYNTHESIZE '' @ name] @
     map (\<lambda>patch. ''STORE_RESIDUAL '' @ name @ '' '' @ str_int (r_offset patch) @ '' '' @ str_int (r_byte patch))
       (p_residuals plan) @
     [''APPLY_RESIDUAL '' @ name,
      ''VERIFY_HASH '' @ name @ '' '' @ p_sha256 plan,
      ''ACCEPT_DATA '' @ name]"

definition pack_bytes_to_bogasm :: "bytes \<Rightarrow> string \<Rightarrow> string res" where
  "pack_bytes_to_bogasm data data_name =
    rbind (validate_data_name data_name) (\<lambda>_.
    if int (length data) > MAX_U16 then
      Inl (PackerError ''BOGBIN v1.2 single-block pack input length must be <= 65535 bytes'')
    else
      rbind (optimize_residual_plan data) (\<lambda>plan.
      Inr (unlines (block_lines data_name plan @ [''EMIT_RECEIPT'', ''HALT'']))))"

definition pack_chunk_name :: "string \<Rightarrow> int \<Rightarrow> string" where
  "pack_chunk_name data_name index = data_name @ ''_chunk_'' @ pad4 (nat index)"

definition pack_chunked_bytes_to_bogasm :: "bytes \<Rightarrow> string \<Rightarrow> int \<Rightarrow> string res" where
  "pack_chunked_bytes_to_bogasm data data_name chunk_size =
    rbind (validate_data_name data_name) (\<lambda>_.
    rbind (optimize_chunked_residual_plan data chunk_size) (\<lambda>plan.
    Inr (unlines (
      [''# BOGBIN v1.2 chunked pack receipt whole_sha256 '' @ ck_whole_sha256 plan,
       ''# chunk_size '' @ str_int (ck_chunk_size plan),
       ''# chunk_count '' @ str_int (ck_chunk_count plan),
       ''# total_residual_count '' @ str_int (ck_total_residual_count plan)] @
      concat (map (\<lambda>chunk. block_lines (pack_chunk_name data_name (cp_index chunk)) chunk) (ck_chunks plan)) @
      [''EMIT_RECEIPT'', ''HALT'']))))"

record pack_metadata =
  pm_pack_mode :: string
  pm_chunk_size :: int
  pm_chunk_count :: int
  pm_total_residual_count :: int
  pm_whole_sha256 :: string

definition build_pack_receipt_metadata :: "bytes \<Rightarrow> int \<Rightarrow> bool \<Rightarrow> pack_metadata res" where
  "build_pack_receipt_metadata data chunk_size single_block =
    (if single_block then
       rbind (optimize_residual_plan data) (\<lambda>plan.
       Inr \<lparr>pm_pack_mode = ''single_block'', pm_chunk_size = int (length data), pm_chunk_count = 1,
            pm_total_residual_count = p_residual_count plan, pm_whole_sha256 = hexdigest data\<rparr>)
     else
       rbind (optimize_chunked_residual_plan data chunk_size) (\<lambda>plan.
       Inr \<lparr>pm_pack_mode = ''chunked'', pm_chunk_size = ck_chunk_size plan, pm_chunk_count = ck_chunk_count plan,
            pm_total_residual_count = ck_total_residual_count plan, pm_whole_sha256 = ck_whole_sha256 plan\<rparr>))"

section \<open>Assembling the lines of a block\<close>

text \<open>A word that survives the assembler: no blanks and no comment sign.\<close>

definition clean :: "string \<Rightarrow> bool" where
  "clean w \<longleftrightarrow> is_word w \<and> CHR ''#'' \<notin> set w"

lemma parse_words:
  assumes "list_all clean (oper # args)"
  shows "parse_line asm (unwords (oper # args)) = parse_parts asm (upper oper) (oper # args)"
proof -
  let ?ws = "oper # args"
  have ws: "list_all is_word ?ws" using assms by (auto simp: clean_def list_all_iff)
  have "CHR ''#'' \<notin> set (unwords ?ws)"
    using assms set_unwords [of ?ws] by (auto simp: clean_def list_all_iff)
  then have "takeWhile (\<lambda>c. c \<noteq> CHR ''#'') (unwords ?ws) = unwords ?ws" by (auto simp: takeWhile_eq_all_conv)
  then have "strip_line (unwords ?ws) = unwords ?ws" using strip_unwords [OF ws list.distinct(2)] unfolding strip_line_def by (simp only:)
  moreover have "unwords ?ws \<noteq> []" using unwords_ends(1) [OF ws] by simp
  ultimately show ?thesis using words_unwords [OF ws] by (simp add: parse_line_def Let_def del: unwords.simps)
qed

lemma clean_str_int: "clean (str_int i)"
proof -
  have "CHR ''#'' \<notin> set (str_nat n)" for n using str_nat_digits [of "CHR ''#''" n] by (auto simp: is_digit_def)
  then show ?thesis using str_int_word [of i] by (auto simp: clean_def str_int_def)
qed

lemma hex_char_clean: "c \<in> set ''0123456789abcdef'' \<Longrightarrow> \<not> is_space c \<and> c \<noteq> CHR ''#''"
  by (simp, elim disjE) (simp_all add: is_space_def)

lemma clean_sha256:
  assumes "is_sha256 s"
  shows "clean s"
proof -
  have "s \<noteq> []" using assms unfolding is_sha256_def by force
  moreover have "\<And>c. c \<in> set s \<Longrightarrow> c \<in> set ''0123456789abcdef''"
    using assms unfolding is_sha256_def by blast
  ultimately show ?thesis using hex_char_clean unfolding clean_def is_word_def list_all_iff by blast
qed

lemma clean_basis: "b \<in> set BASIS_ORDER \<Longrightarrow> clean b"
  by (drule basis_cases) (elim disjE; simp add: clean_def is_word_def is_space_def)

lemma clean_ops:
  "clean ''DATA_BLOCK''" "clean ''DECLARE_BASIS''" "clean ''LOAD_COEFFICIENTS''" "clean ''SYNTHESIZE''"
  "clean ''STORE_RESIDUAL''" "clean ''APPLY_RESIDUAL''" "clean ''VERIFY_HASH''" "clean ''ACCEPT_DATA''"
  "clean ''EMIT_RECEIPT''" "clean ''HALT''"
  by (simp_all add: clean_def is_word_def is_space_def)

lemma upper_ops:
  "upper ''DATA_BLOCK'' = ''DATA_BLOCK''" "upper ''DECLARE_BASIS'' = ''DECLARE_BASIS''"
  "upper ''LOAD_COEFFICIENTS'' = ''LOAD_COEFFICIENTS''" "upper ''SYNTHESIZE'' = ''SYNTHESIZE''"
  "upper ''STORE_RESIDUAL'' = ''STORE_RESIDUAL''" "upper ''APPLY_RESIDUAL'' = ''APPLY_RESIDUAL''"
  "upper ''VERIFY_HASH'' = ''VERIFY_HASH''" "upper ''ACCEPT_DATA'' = ''ACCEPT_DATA''"
  "upper ''EMIT_RECEIPT'' = ''EMIT_RECEIPT''" "upper ''HALT'' = ''HALT''"
  by (simp_all add: upper_def upper_char_def)

lemma ops_codes:
  "map_of OPS ''DECLARE_BASIS'' = Some 16" "map_of OPS ''LOAD_COEFFICIENTS'' = Some 17" "map_of OPS ''SYNTHESIZE'' = Some 18"
  "map_of OPS ''VERIFY_HASH'' = Some 19" "map_of OPS ''ACCEPT_DATA'' = Some 20" "map_of OPS ''STORE_RESIDUAL'' = Some 21"
  "map_of OPS ''APPLY_RESIDUAL'' = Some 22" "map_of OPS ''EMIT_RECEIPT'' = Some 15" "map_of OPS ''HALT'' = Some 1"
  by (simp_all add: OPS_def)

text \<open>What the packers put into a block: all fields within their ranges.\<close>

definition plan_packable :: "string \<Rightarrow> 'a plan_scheme \<Rightarrow> bool" where
  "plan_packable name plan \<longleftrightarrow> clean name \<and> p_basis plan \<in> set BASIS_ORDER \<and> is_sha256 (p_sha256 plan) \<and>
     0 \<le> p_start_byte plan \<and> p_start_byte plan \<le> 255 \<and> 0 \<le> p_delta plan \<and> p_delta plan \<le> 255 \<and>
     0 \<le> p_length plan \<and> p_length plan \<le> 65535 \<and> residuals_ok (p_length plan) (- 1) (p_residuals plan)"

text \<open>The instructions of a block with data id \<open>d\<close>, basis constant \<open>b\<close> and hash constant \<open>h\<close>.\<close>

definition instr :: "int \<Rightarrow> int \<Rightarrow> int \<Rightarrow> int \<Rightarrow> int \<Rightarrow> instruction" where
  "instr code flg trg src par = \<lparr>i_opcode = code, i_flags = flg, i_target = trg, i_source = src, i_param = par\<rparr>"

definition store_code :: "int \<Rightarrow> residual list \<Rightarrow> instruction list" where
  "store_code d rs = map (\<lambda>patch. instr 21 0 d (r_offset patch) (r_byte patch)) rs"

definition block_code :: "int \<Rightarrow> int \<Rightarrow> int \<Rightarrow> 'a plan_scheme \<Rightarrow> instruction list" where
  "block_code d b h plan =
     [instr 16 0 b 0 0, instr 17 (p_delta plan) d (p_start_byte plan) (p_length plan), instr 18 0 d 0 0] @
     store_code d (p_residuals plan) @ [instr 22 0 d 0 0, instr 19 0 d h 0, instr 20 0 d 0 0]"

lemma emit_Inr:
  assumes "map_of OPS oper = Some code" "0 \<le> flg \<and> flg \<le> 65535" "0 \<le> trg \<and> trg \<le> 65535" "0 \<le> src \<and> src \<le> 65535" "0 \<le> par \<and> par \<le> 65535"
  shows "emit asm oper flg trg src par = Inr (asm\<lparr>instructions := instructions asm @ [instr code flg trg src par]\<rparr>)"
  using assms by (simp add: emit_def check_u16_def require_def instr_def)

lemma add_constant_ext:
  assumes "asm_ok asm" and "length (constant_ids asm) < 65536"
  obtains c asm' cs where "add_constant asm v = Inr (c, asm')" and "map_of (constant_ids asm') v = Some c"
    and "asm_ok asm'" and "constant_ids asm' = constant_ids asm @ cs" and "length cs \<le> 1"
    and "data_names asm' = data_names asm" and "instructions asm' = instructions asm" and "0 \<le> c \<and> c \<le> 65535"
proof (cases "map_of (constant_ids asm) v")
  case None
  have ids: "id_dict (constant_ids asm)" using assms(1) by (simp add: asm_ok_def tables_ok_def)
  let ?c = "int (length (constant_ids asm))"
  let ?asm = "asm\<lparr>constant_ids := constant_ids asm @ [(v, ?c)], constants := AList.update (str_int ?c) v (constants asm)\<rparr>"
  have add: "add_constant asm v = Inr (?c, ?asm)"
    using assms None id_dict_add(1) [OF ids None] by (simp add: add_constant_def Let_def)
  moreover have "asm_ok ?asm" using returns_add_constant [OF assms(1), of v] add by (simp add: returns_def)
  ultimately show thesis
    using assms(2) None by (intro that [of ?c ?asm "[(v, ?c)]"]) (simp_all add: map_add_Some_iff map_of_eq_None_iff)
next
  case (Some c)
  then show thesis
    using assms id_dict_lookup [OF _ Some] by (intro that [of c asm "[]"]) (simp_all add: add_constant_def asm_ok_def tables_ok_def)
qed

lemma parse_data_line:
  assumes "clean name" and "map_of (data_names asm) name = Some d" and "id_dict (data_names asm)" and "map_of OPS oper = Some code"
    and "oper \<in> {''SYNTHESIZE'', ''APPLY_RESIDUAL'', ''ACCEPT_DATA''}"
  shows "parse_line asm (oper @ '' '' @ name) = Inr (asm\<lparr>instructions := instructions asm @ [instr code 0 d 0 0]\<rparr>)"
proof -
  have "parse_line asm (unwords [oper, name]) = parse_parts asm oper [oper, name]"
    using assms(1,5) clean_ops upper_ops parse_words [of oper "[name]"] by auto
  then show ?thesis
    using assms id_dict_lookup [OF assms(3,2)]
    by (elim insertE emptyE) (simp_all add: parse_parts_def check_parts_def require_data_def require_def emit_Inr)
qed

lemma parse_load_line:
  assumes "plan_packable name plan" and "map_of (data_names asm) name = Some d" and "id_dict (data_names asm)"
  shows "parse_line asm (''LOAD_COEFFICIENTS '' @ name @ '' '' @ str_int (p_start_byte plan) @ '' '' @ str_int (p_length plan) @
        '' '' @ str_int (p_delta plan)) =
      Inr (asm\<lparr>instructions := instructions asm @ [instr 17 (p_delta plan) d (p_start_byte plan) (p_length plan)]\<rparr>)"
proof -
  let ?args = "[name, str_int (p_start_byte plan), str_int (p_length plan), str_int (p_delta plan)]"
  have "parse_line asm (unwords (''LOAD_COEFFICIENTS'' # ?args)) = parse_parts asm ''LOAD_COEFFICIENTS'' (''LOAD_COEFFICIENTS'' # ?args)"
    using assms(1) clean_ops upper_ops clean_str_int parse_words [of "''LOAD_COEFFICIENTS''" ?args] by (simp add: plan_packable_def)
  then show ?thesis
    using assms id_dict_lookup [OF assms(3,2)]
    by (simp add: parse_parts_def check_parts_def require_data_def require_def byte_check_def emit_Inr ops_codes plan_packable_def)
qed

lemma parse_store_lines:
  assumes "clean name" and "map_of (data_names asm) name = Some d" and "id_dict (data_names asm)" and "residuals_ok len prev rs"
    and "len \<le> 65535"
  shows "fold_res parse_line asm
      (map (\<lambda>patch. ''STORE_RESIDUAL '' @ name @ '' '' @ str_int (r_offset patch) @ '' '' @ str_int (r_byte patch)) rs) =
    Inr (asm\<lparr>instructions := instructions asm @ store_code d rs\<rparr>)"
  using assms
proof (induction rs arbitrary: asm prev)
  case (Cons patch rs)
  let ?args = "[name, str_int (r_offset patch), str_int (r_byte patch)]"
  have "parse_line asm (unwords (''STORE_RESIDUAL'' # ?args)) = parse_parts asm ''STORE_RESIDUAL'' (''STORE_RESIDUAL'' # ?args)"
    using Cons.prems(1) clean_ops upper_ops clean_str_int parse_words [of "''STORE_RESIDUAL''" ?args] by simp
  then have "parse_line asm (''STORE_RESIDUAL '' @ name @ '' '' @ str_int (r_offset patch) @ '' '' @ str_int (r_byte patch)) =
      Inr (asm\<lparr>instructions := instructions asm @ [instr 21 0 d (r_offset patch) (r_byte patch)]\<rparr>)"
    using Cons.prems id_dict_lookup [OF Cons.prems(3,2)]
    by (simp add: parse_parts_def check_parts_def require_data_def require_def byte_check_def emit_Inr ops_codes)
  then show ?case
    using Cons.prems Cons.IH [of "asm\<lparr>instructions := instructions asm @ [instr 21 0 d (r_offset patch) (r_byte patch)]\<rparr>" "r_offset patch"]
    by (simp add: store_code_def)
qed (simp add: store_code_def)

lemma parse_ok: "asm_ok asm \<Longrightarrow> parse_line asm line = Inr asm' \<Longrightarrow> asm_ok asm'"
  using parse_line_ok [of asm line] by (simp add: returns_def)

lemma parse_data_block_line:
  assumes "clean name" and "asm_ok asm" and "name \<notin> fst ` set (data_names asm)" and "length (data_names asm) < 65536"
  shows "parse_line asm (''DATA_BLOCK '' @ name) =
    Inr (asm\<lparr>data_names := data_names asm @ [(name, int (length (data_names asm)))]\<rparr>)"
proof -
  have "parse_line asm (unwords [''DATA_BLOCK'', name]) = parse_parts asm ''DATA_BLOCK'' [''DATA_BLOCK'', name]"
    using assms(1) clean_ops upper_ops parse_words [of "''DATA_BLOCK''" "[name]"] by simp
  moreover have "map_of (data_names asm) name = None" using assms(3) by (simp add: map_of_eq_None_iff)
  ultimately show ?thesis
    using assms(3,4) by (simp add: parse_parts_def check_parts_def add_data_def Let_def update_new)
qed

lemma parse_constant_line:
  assumes "clean v" and "asm_ok asm" and "length (constant_ids asm) < 65536"
    and "line = ''DECLARE_BASIS '' @ v \<and> i = (\<lambda>c. instr 16 0 c 0 0) \<or>
      (\<exists>name d. line = ''VERIFY_HASH '' @ name @ '' '' @ v \<and> i = (\<lambda>c. instr 19 0 d c 0) \<and> clean name \<and> map_of (data_names asm) name = Some d)"
  obtains c asm' cs where "parse_line asm line = Inr asm'" and "asm_ok asm'" and "map_of (constant_ids asm') v = Some c"
    and "constant_ids asm' = constant_ids asm @ cs" and "length cs \<le> 1" and "data_names asm' = data_names asm"
    and "instructions asm' = instructions asm @ [i c]"
proof -
  obtain c asm1 cs where add: "add_constant asm v = Inr (c, asm1)" "map_of (constant_ids asm1) v = Some c"
      "constant_ids asm1 = constant_ids asm @ cs" "length cs \<le> 1"
      "data_names asm1 = data_names asm" "instructions asm1 = instructions asm" "0 \<le> c \<and> c \<le> 65535"
    using add_constant_ext [OF assms(2,3)] by blast
  let ?asm = "asm1\<lparr>instructions := instructions asm1 @ [i c]\<rparr>"
  have "parse_line asm line = Inr ?asm"
    using assms(4)
  proof (elim disjE exE conjE)
    assume *: "line = ''DECLARE_BASIS '' @ v" "i = (\<lambda>c. instr 16 0 c 0 0)"
    have "parse_line asm (unwords [''DECLARE_BASIS'', v]) = parse_parts asm ''DECLARE_BASIS'' [''DECLARE_BASIS'', v]"
      using assms(1) clean_ops upper_ops parse_words [of "''DECLARE_BASIS''" "[v]"] by simp
    then show ?thesis using * add by (simp add: parse_parts_def check_parts_def emit_Inr ops_codes)
  next
    fix name d assume *: "line = ''VERIFY_HASH '' @ name @ '' '' @ v" "i = (\<lambda>c. instr 19 0 d c 0)" "clean name"
      and d: "map_of (data_names asm) name = Some d"
    have "parse_line asm (unwords [''VERIFY_HASH'', name, v]) = parse_parts asm ''VERIFY_HASH'' [''VERIFY_HASH'', name, v]"
      using assms(1) * clean_ops upper_ops parse_words [of "''VERIFY_HASH''" "[name, v]"] by simp
    moreover have "id_dict (data_names asm)" using assms(2) by (simp add: asm_ok_def tables_ok_def)
    ultimately show ?thesis
      using * add d id_dict_lookup [OF _ d] by (simp add: parse_parts_def check_parts_def require_data_def require_def emit_Inr ops_codes)
  qed
  then show thesis using add parse_ok [OF assms(2)] by (intro that [of ?asm c cs]) simp_all
qed

lemma assemble_block:
  assumes p: "plan_packable name plan" and ok: "asm_ok asm" and new: "name \<notin> fst ` set (data_names asm)"
    and dlen: "length (data_names asm) < 65536" and clen: "length (constant_ids asm) + 2 \<le> 65536"
  obtains asm' b h cs where "fold_res parse_line asm (block_lines name plan) = Inr asm'"
    and "data_names asm' = data_names asm @ [(name, int (length (data_names asm)))]"
    and "constant_ids asm' = constant_ids asm @ cs" and "length cs \<le> 2"
    and "map_of (constant_ids asm') (p_basis plan) = Some b" and "map_of (constant_ids asm') (p_sha256 plan) = Some h"
    and "instructions asm' = instructions asm @ block_code (int (length (data_names asm))) b h plan"
proof -
  let ?d = "int (length (data_names asm))"
  let ?asm1 = "asm\<lparr>data_names := data_names asm @ [(name, ?d)]\<rparr>"
  have name: "clean name" using p by (simp add: plan_packable_def)
  have l1: "parse_line asm (''DATA_BLOCK '' @ name) = Inr ?asm1" by (rule parse_data_block_line [OF name ok new dlen])
  have ok1: "asm_ok ?asm1" by (rule parse_ok [OF ok l1])
  have look: "map_of (data_names asm) name = None" using new by (simp add: map_of_eq_None_iff)
  obtain b asm2 cs2 where l2: "parse_line ?asm1 (''DECLARE_BASIS '' @ p_basis plan) = Inr asm2" "asm_ok asm2"
      "map_of (constant_ids asm2) (p_basis plan) = Some b" "constant_ids asm2 = constant_ids asm @ cs2" "length cs2 \<le> 1"
      "data_names asm2 = data_names asm @ [(name, ?d)]" "instructions asm2 = instructions asm @ [instr 16 0 b 0 0]"
  proof (rule parse_constant_line [of "p_basis plan" ?asm1 "''DECLARE_BASIS '' @ p_basis plan" "\<lambda>c. instr 16 0 c 0 0"])
    show "clean (p_basis plan)" using p clean_basis by (simp add: plan_packable_def)
    show "length (constant_ids ?asm1) < 65536" using clen by simp
  qed (use ok1 in simp_all)
  have d2: "map_of (data_names asm2) name = Some ?d" "id_dict (data_names asm2)"
    using l2(2,6) look by (simp_all add: map_add_Some_iff asm_ok_def tables_ok_def)
  define asm3 where "asm3 = asm2\<lparr>instructions := instructions asm2 @
      [instr 17 (p_delta plan) ?d (p_start_byte plan) (p_length plan), instr 18 0 ?d 0 0] @ store_code ?d (p_residuals plan) @ [instr 22 0 ?d 0 0]\<rparr>"
  define mid where "mid = [''LOAD_COEFFICIENTS '' @ name @ '' '' @ str_int (p_start_byte plan) @ '' '' @ str_int (p_length plan) @
        '' '' @ str_int (p_delta plan), ''SYNTHESIZE '' @ name] @
     map (\<lambda>patch. ''STORE_RESIDUAL '' @ name @ '' '' @ str_int (r_offset patch) @ '' '' @ str_int (r_byte patch)) (p_residuals plan) @
     [''APPLY_RESIDUAL '' @ name]"
  have lines: "block_lines name plan = [''DATA_BLOCK '' @ name, ''DECLARE_BASIS '' @ p_basis plan] @ mid @
      [''VERIFY_HASH '' @ name @ '' '' @ p_sha256 plan, ''ACCEPT_DATA '' @ name]"
    by (simp add: block_lines_def mid_def)
  have l3: "fold_res parse_line asm2 mid = Inr asm3"
    using parse_load_line [OF p, of _ ?d] parse_data_line [OF name, of _ ?d "''SYNTHESIZE''" 18]
      parse_data_line [OF name, of _ ?d "''APPLY_RESIDUAL''" 22] parse_store_lines [OF name, of _ ?d "p_length plan" "-1" "p_residuals plan"]
      d2 p by (simp add: fold_res_append ops_codes plan_packable_def asm3_def mid_def)
  have ok3: "asm_ok asm3" by (rule parse_lines_ok [OF l2(2) l3])
  have d3: "map_of (data_names asm3) name = Some ?d" using d2 by (simp add: asm3_def)
  obtain h asm4 cs4 where l4: "parse_line asm3 (''VERIFY_HASH '' @ name @ '' '' @ p_sha256 plan) = Inr asm4" "asm_ok asm4"
      "map_of (constant_ids asm4) (p_sha256 plan) = Some h" "constant_ids asm4 = constant_ids asm3 @ cs4" "length cs4 \<le> 1"
      "data_names asm4 = data_names asm3" "instructions asm4 = instructions asm3 @ [instr 19 0 ?d h 0]"
  proof (rule parse_constant_line [of "p_sha256 plan" asm3 "''VERIFY_HASH '' @ name @ '' '' @ p_sha256 plan" "\<lambda>c. instr 19 0 ?d c 0"])
    show "clean (p_sha256 plan)" using p clean_sha256 by (simp add: plan_packable_def)
    show "length (constant_ids asm3) < 65536" using clen l2(4,5) by (simp add: asm3_def)
  qed (use ok3 d3 name in auto)
  have d4: "map_of (data_names asm4) name = Some ?d" "id_dict (data_names asm4)"
    using l4 d3 by (simp_all add: asm_ok_def tables_ok_def)
  let ?asm5 = "asm4\<lparr>instructions := instructions asm4 @ [instr 20 0 ?d 0 0]\<rparr>"
  have l5: "parse_line asm4 (''ACCEPT_DATA '' @ name) = Inr ?asm5"
    using parse_data_line [OF name d4, of "''ACCEPT_DATA''" 20] by (simp add: ops_codes)
  have "fold_res parse_line asm (block_lines name plan) = Inr ?asm5"
    unfolding lines fold_res_append by (simp only: fold_res.simps rbind_simps l1 l2(1) l3 l4(1) l5)
  moreover have "map_of (constant_ids ?asm5) (p_basis plan) = Some b"
    using l2(3) l4(4) by (simp add: asm3_def map_add_Some_iff)
  ultimately show thesis
    using l2 l4 by (intro that [of ?asm5 "cs2 @ cs4" b h]) (simp_all add: asm3_def block_code_def)
qed

fun code_of :: "(string, int) pydict \<Rightarrow> nat \<Rightarrow> (string \<times> 'a plan_scheme) list \<Rightarrow> instruction list" where
  "code_of consts d [] = []"
| "code_of consts d ((name, plan) # ps) =
     block_code (int d) (the (map_of consts (p_basis plan))) (the (map_of consts (p_sha256 plan))) plan @ code_of consts (Suc d) ps"

definition constants_known :: "(string, int) pydict \<Rightarrow> (string \<times> 'a plan_scheme) list \<Rightarrow> bool" where
  "constants_known consts ps \<longleftrightarrow> (\<forall>(name, plan) \<in> set ps. {p_basis plan, p_sha256 plan} \<subseteq> dom (map_of consts))"

lemma assemble_blocks:
  assumes "\<forall>(name, plan) \<in> set ps. plan_packable name plan" and "asm_ok asm"
    and "distinct (map fst ps)" and "fst ` set ps \<inter> fst ` set (data_names asm) = {}"
    and "length (data_names asm) + length ps \<le> 65536" and "length (constant_ids asm) + 2 * length ps \<le> 65536"
  obtains asm' cs where "fold_res parse_line asm (concat (map (\<lambda>(name, plan). block_lines name plan) ps)) = Inr asm'"
    and "data_names asm' = data_names asm @ zip (map fst ps) (map int [length (data_names asm)..<length (data_names asm) + length ps])"
    and "constant_ids asm' = constant_ids asm @ cs" and "constants_known (constant_ids asm') ps"
    and "instructions asm' = instructions asm @ code_of (constant_ids asm') (length (data_names asm)) ps"
proof -
  have "\<exists>asm' cs. fold_res parse_line asm (concat (map (\<lambda>(name, plan). block_lines name plan) ps)) = Inr asm' \<and>
    data_names asm' = data_names asm @ zip (map fst ps) (map int [length (data_names asm)..<length (data_names asm) + length ps]) \<and>
    constant_ids asm' = constant_ids asm @ cs \<and> constants_known (constant_ids asm') ps \<and>
    instructions asm' = instructions asm @ code_of (constant_ids asm') (length (data_names asm)) ps"
    using assms
  proof (induction ps arbitrary: asm)
    case Nil
    then show ?case by (simp add: constants_known_def)
  next
    case (Cons np ps)
    obtain name plan where np: "np = (name, plan)" by (cases np)
    obtain asm1 b h cs1 where one: "fold_res parse_line asm (block_lines name plan) = Inr asm1"
        "data_names asm1 = data_names asm @ [(name, int (length (data_names asm)))]"
        "constant_ids asm1 = constant_ids asm @ cs1" "length cs1 \<le> 2"
        "map_of (constant_ids asm1) (p_basis plan) = Some b" "map_of (constant_ids asm1) (p_sha256 plan) = Some h"
        "instructions asm1 = instructions asm @ block_code (int (length (data_names asm))) b h plan"
    proof (rule assemble_block [of name plan asm])
    qed (use Cons.prems np in auto)
    have ok1: "asm_ok asm1" by (rule parse_lines_ok [OF Cons.prems(2) one(1)])
    have "\<exists>asm' cs. fold_res parse_line asm1 (concat (map (\<lambda>(name, plan). block_lines name plan) ps)) = Inr asm' \<and>
      data_names asm' = data_names asm1 @ zip (map fst ps) (map int [length (data_names asm1)..<length (data_names asm1) + length ps]) \<and>
      constant_ids asm' = constant_ids asm1 @ cs \<and> constants_known (constant_ids asm') ps \<and>
      instructions asm' = instructions asm1 @ code_of (constant_ids asm') (length (data_names asm1)) ps"
      using Cons.prems np one by (intro Cons.IH ok1) auto
    then obtain asm' cs where rest: "fold_res parse_line asm1 (concat (map (\<lambda>(name, plan). block_lines name plan) ps)) = Inr asm'"
        "data_names asm' = data_names asm1 @ zip (map fst ps) (map int [length (data_names asm1)..<length (data_names asm1) + length ps])"
        "constant_ids asm' = constant_ids asm1 @ cs" "constants_known (constant_ids asm') ps"
        "instructions asm' = instructions asm1 @ code_of (constant_ids asm') (length (data_names asm1)) ps"
      by blast
    have known: "map_of (constant_ids asm') (p_basis plan) = Some b" "map_of (constant_ids asm') (p_sha256 plan) = Some h"
      using rest(3) one(5,6) by (simp_all add: map_add_Some_iff)
    show ?case
    proof (intro exI conjI)
      show "fold_res parse_line asm (concat (map (\<lambda>(name, plan). block_lines name plan) (np # ps))) = Inr asm'"
        using one(1) rest(1) by (simp add: np fold_res_append)
      show "data_names asm' = data_names asm @ zip (map fst (np # ps)) (map int [length (data_names asm)..<length (data_names asm) + length (np # ps)])"
        using rest(2) one(2) by (simp add: np upt_conv_Cons del: upt_Suc)
      show "constant_ids asm' = constant_ids asm @ (cs1 @ cs)" using rest(3) one(3) by simp
      show "constants_known (constant_ids asm') (np # ps)"
        using rest(4) known unfolding constants_known_def np by (auto simp del: map_of_append)
      show "instructions asm' = instructions asm @ code_of (constant_ids asm') (length (data_names asm)) (np # ps)"
        using rest(5) one(2,7) known by (simp add: np)
    qed
  qed
  then show thesis using that by blast
qed

section \<open>Running the instructions of a block\<close>

lemma op_names:
  "map_of OP_NAMES 15 = Some ''EMIT_RECEIPT''" "map_of OP_NAMES 1 = Some ''HALT''"
  "map_of OP_NAMES 16 = Some ''DECLARE_BASIS''" "map_of OP_NAMES 17 = Some ''LOAD_COEFFICIENTS''"
  "map_of OP_NAMES 18 = Some ''SYNTHESIZE''" "map_of OP_NAMES 19 = Some ''VERIFY_HASH''"
  "map_of OP_NAMES 20 = Some ''ACCEPT_DATA''" "map_of OP_NAMES 21 = Some ''STORE_RESIDUAL''"
  "map_of OP_NAMES 22 = Some ''APPLY_RESIDUAL''"
  by (simp_all add: OP_NAMES_def OPS_def)

lemma instr_fields [simp]:
  "i_opcode (instr code flg trg src par) = code" "i_flags (instr code flg trg src par) = flg"
  "i_target (instr code flg trg src par) = trg" "i_source (instr code flg trg src par) = src"
  "i_param (instr code flg trg src par) = par"
  by (simp_all add: instr_def)

lemma manifest_get_log [simp]: "manifest_get (log_event pc op ds st) sec k v = manifest_get st sec k v"
  by (simp add: manifest_get_def)

text \<open>What the instructions of block \<open>d\<close> leave alone.\<close>

definition touches :: "int \<Rightarrow> vm_state \<Rightarrow> vm_state \<Rightarrow> bool" where
  "touches d st st' \<longleftrightarrow> manifest st' = manifest st \<and> program_hash st' = program_hash st \<and>
     (\<forall>k. k \<noteq> d \<longrightarrow> map_of (data_blocks st') k = map_of (data_blocks st) k) \<and>
     accepted_data_blocks st' = accepted_data_blocks st \<and> rejected_data_blocks st' = rejected_data_blocks st \<and>
     accepted_claims st' = accepted_claims st \<and> rejected_claims st' = rejected_claims st \<and>
     quarantined_claims st' = quarantined_claims st \<and> receipt_emitted st' = receipt_emitted st"

lemma touches_trans: "touches d a b \<Longrightarrow> touches d b c \<Longrightarrow> touches d a c"
  by (simp add: touches_def)

lemma touches_log [simp]: "touches d st (log_event pc op ds st') = touches d st st'"
  by (simp add: touches_def log_event_def)

lemma touches_block: "touches d st (set_block d b st)" "map_of (data_blocks (set_block d b st)) d = Some b"
  by (simp_all add: touches_def set_block_def)

lemma run_step:
  assumes "map_of OP_NAMES (i_opcode i) = Some oper" and "oper \<noteq> ''HALT''" and "step (int pc) oper i st = Inr st'"
  shows "run_loop pc (i # rest) st = run_loop (Suc pc) rest st'"
  using assms by simp

lemma run_load:
  assumes b: "manifest_get st ''constants'' b JNull = Inr (JStr (p_basis plan))"
    and d: "manifest_get st ''data_blocks'' d JNull = Inr (JStr name)" and p: "plan_packable name plan"
    and g: "synthesize_basis (p_basis plan) (p_start_byte plan) (p_length plan) (p_delta plan) = Inr g"
  obtains st' where "run_loop pc ([instr 16 0 b 0 0, instr 17 (p_delta plan) d (p_start_byte plan) (p_length plan), instr 18 0 d 0 0] @ rest) st =
      run_loop (pc + 3) rest st'" and "touches d st st'"
    and "map_of (data_blocks st') d = Some \<lparr>d_id = d, d_name = JStr name, d_basis = Some (p_basis plan), d_byte = p_start_byte plan,
      d_delta = p_delta plan, d_length = p_length plan, d_bytes = g, d_residuals = []\<rparr>"
proof -
  let ?b = "\<lparr>d_id = d, d_name = JStr name, d_basis = Some (p_basis plan), d_byte = p_start_byte plan,
      d_delta = p_delta plan, d_length = p_length plan, d_bytes = [], d_residuals = []\<rparr>"
  define st1 where "st1 = log_event (int pc) ''DECLARE_BASIS'' [(''basis'', JStr (p_basis plan))] (st\<lparr>active_basis := Some (p_basis plan)\<rparr>)"
  have s1: "step (int pc) ''DECLARE_BASIS'' (instr 16 0 b 0 0) st = Inr st1"
    using p b by (simp add: step_def exec_declare_basis_def st1_def plan_packable_def)
  have d1: "manifest_get st1 ''data_blocks'' d JNull = Inr (JStr name)" using d by (simp add: st1_def manifest_get_def)
  define st2 where "st2 = log_event (int (Suc pc)) ''LOAD_COEFFICIENTS'' [(''data_block'', JStr name), (''byte'', JInt (p_start_byte plan)),
           (''delta'', JInt (p_delta plan)), (''length'', JInt (p_length plan))] (set_block d ?b st1)"
  have a1: "active_basis st1 = Some (p_basis plan)" by (simp add: st1_def log_event_def)
  have s2: "step (int (Suc pc)) ''LOAD_COEFFICIENTS'' (instr 17 (p_delta plan) d (p_start_byte plan) (p_length plan)) st1 = Inr st2"
    using p d1 a1 by (simp add: step_def exec_load_coefficients_def st2_def plan_packable_def set_block_def Let_def)
  have b2: "map_of (data_blocks st2) d = Some ?b" by (simp add: st2_def touches_block)
  define st3 where "st3 = log_event (int (Suc (Suc pc))) ''SYNTHESIZE'' [(''data_block'', JStr name), (''byte_length'', JInt (int (length g)))]
      (set_block d (?b\<lparr>d_bytes := g\<rparr>) st2)"
  have s3: "step (int (Suc (Suc pc))) ''SYNTHESIZE'' (instr 18 0 d 0 0) st2 = Inr st3"
    using b2 g by (simp add: step_def exec_synthesize_def get_block_def require_def synthesize_block_def st3_def)
  have "run_loop pc ([instr 16 0 b 0 0, instr 17 (p_delta plan) d (p_start_byte plan) (p_length plan), instr 18 0 d 0 0] @ rest) st =
      run_loop (pc + 3) rest st3"
    using s1 s2 s3 by (simp add: op_names numeral_3_eq_3)
  moreover have "touches d st st3"
  proof -
    have "touches d st st1" by (simp add: st1_def) (simp add: touches_def)
    moreover have "touches d st1 st2" "touches d st2 st3" by (simp_all add: st2_def st3_def touches_block)
    ultimately show ?thesis using touches_trans by blast
  qed
  moreover have "map_of (data_blocks st3) d = Some (?b\<lparr>d_bytes := g\<rparr>)" by (simp add: st3_def touches_block)
  ultimately show thesis using that by simp
qed

definition pairs :: "residual list \<Rightarrow> (int \<times> int) list" where
  "pairs rs = map (\<lambda>r. (r_offset r, r_byte r)) rs"

lemma run_store:
  assumes "map_of (data_blocks st) d = Some blk" and "sorted (d_residuals blk)" and "\<forall>(offset, v) \<in> set (d_residuals blk). offset \<le> prev"
    and "residuals_ok (d_length blk) prev rs"
  shows "\<exists>st'. run_loop pc (store_code d rs @ rest) st = run_loop (pc + length rs) rest st' \<and> touches d st st' \<and>
    map_of (data_blocks st') d = Some (blk\<lparr>d_residuals := d_residuals blk @ pairs rs\<rparr>)"
  using assms
proof (induction rs arbitrary: st blk pc prev)
  case Nil
  then show ?case by (intro exI [of _ st]) (simp add: store_code_def pairs_def touches_def)
next
  case (Cons r rs)
  let ?blk = "blk\<lparr>d_residuals := d_residuals blk @ [(r_offset r, r_byte r)]\<rparr>"
  have r: "prev < r_offset r" "0 \<le> r_offset r" "r_offset r < d_length blk" "0 \<le> r_byte r" "r_byte r \<le> 255"
      "residuals_ok (d_length blk) (r_offset r) rs"
    using Cons.prems(4) by auto
  have sorted: "sorted (d_residuals blk @ [(r_offset r, r_byte r)])"
  proof -
    have "x \<le> (r_offset r, r_byte r)" if "x \<in> set (d_residuals blk)" for x
    proof -
      have "fst x \<le> prev" using bspec [OF Cons.prems(3) that] by (simp add: case_prod_unfold)
      then show ?thesis using r(1) by (simp add: less_eq_prod_def)
    qed
    then show ?thesis using Cons.prems(2) by (simp add: sorted_append)
  qed
  define st1 where "st1 = log_event (int pc) ''STORE_RESIDUAL'' [(''data_block'', d_name blk), (''offset'', JInt (r_offset r)),
        (''byte'', JInt (r_byte r))] (set_block d ?blk st)"
  have "step (int pc) ''STORE_RESIDUAL'' (instr 21 0 d (r_offset r) (r_byte r)) st = Inr st1"
    using Cons.prems(1) r sorted_sort_id [OF sorted]
    by (simp add: step_def exec_store_residual_def get_block_def require_def st1_def)
  then have "run_loop pc (store_code d (r # rs) @ rest) st = run_loop (Suc pc) (store_code d rs @ rest) st1"
    by (simp add: store_code_def op_names)
  moreover have st1: "touches d st st1" "map_of (data_blocks st1) d = Some ?blk" by (simp_all add: st1_def touches_block)
  moreover obtain st' where "run_loop (Suc pc) (store_code d rs @ rest) st1 = run_loop (Suc pc + length rs) rest st'"
      "touches d st1 st'" "map_of (data_blocks st') d = Some (?blk\<lparr>d_residuals := d_residuals ?blk @ pairs rs\<rparr>)"
    using Cons.IH [OF st1(2), of "r_offset r" "Suc pc"] sorted Cons.prems(3) r by fastforce
  ultimately show ?case using touches_trans by (intro exI [of _ st']) (auto simp: pairs_def)
qed

lemma apply_patches:
  assumes "residuals_ok (int (length data)) prev rs"
  shows "fold_res (apply_patch name) (data, n) (pairs rs) = Inr (patch_bytes data rs, n + int (length rs))"
  using assms
  by (induction rs arbitrary: data prev n)
    (auto simp: pairs_def apply_patch_def patch_bytes_def bytearray_set_def Let_def)

lemma run_finish:
  assumes blk: "map_of (data_blocks st) d = Some blk" "d_residuals blk = pairs rs" "residuals_ok (int (length (d_bytes blk))) (- 1) rs"
    and h: "manifest_get st ''constants'' h JNull = Inr (JStr (hexdigest (patch_bytes (d_bytes blk) rs)))"
  obtains st' where "run_loop pc ([instr 22 0 d 0 0, instr 19 0 d h 0, instr 20 0 d 0 0] @ rest) st = run_loop (pc + 3) rest st'"
    and "touches d st (st'\<lparr>accepted_data_blocks := accepted_data_blocks st\<rparr>)" and "accepted_data_blocks st' = add_sorted d (accepted_data_blocks st)"
    and "map_of (data_blocks st') d = Some (blk\<lparr>d_bytes := patch_bytes (d_bytes blk) rs\<rparr>)"
proof -
  let ?data = "patch_bytes (d_bytes blk) rs"
  let ?blk = "blk\<lparr>d_bytes := ?data\<rparr>"
  define st1 where "st1 = log_event (int pc) ''APPLY_RESIDUAL'' [(''data_block'', d_name blk), (''residual_count'', JInt (0 + int (length rs))),
        (''byte_length'', JInt (int (length ?data)))] (set_block d ?blk st)"
  have s1: "step (int pc) ''APPLY_RESIDUAL'' (instr 22 0 d 0 0) st = Inr st1"
    using blk apply_patches [OF blk(3), of "d_name blk" 0]
    by (simp add: step_def exec_apply_residual_def get_block_def require_def st1_def)
  have b1: "map_of (data_blocks st1) d = Some ?blk" "touches d st st1" by (simp_all add: st1_def touches_block)
  have h1: "manifest_get st1 ''constants'' h JNull = Inr (JStr (hexdigest ?data))"
    using h by (simp add: st1_def set_block_def manifest_get_def)
  define st2 where "st2 = log_event (int (Suc pc)) ''VERIFY_HASH'' [(''data_block'', d_name blk), (''expected_hash'', JStr (hexdigest ?data)),
           (''actual_hash'', JStr (hexdigest ?data)), (''result'', JStr ''verified'')]
           (st1\<lparr>data_hash_results := AList.update d ''verified'' (data_hash_results st1)\<rparr>)"
  have s2: "step (int (Suc pc)) ''VERIFY_HASH'' (instr 19 0 d h 0) st1 = Inr st2"
    using b1(1) h1 by (simp add: step_def exec_verify_hash_def get_block_def require_def st2_def Let_def)
  have b2: "map_of (data_blocks st2) d = Some ?blk" "touches d st1 st2" "map_of (data_hash_results st2) d = Some ''verified''"
    using b1(1) by (simp_all add: st2_def log_event_def touches_def)
  define st3 where "st3 = log_event (int (Suc (Suc pc))) ''ACCEPT_DATA'' [(''data_block'', d_name blk), (''result'', JStr ''accepted'')]
      (st2\<lparr>accepted_data_blocks := add_sorted d (accepted_data_blocks st2)\<rparr>)"
  have s3: "step (int (Suc (Suc pc))) ''ACCEPT_DATA'' (instr 20 0 d 0 0) st2 = Inr st3"
    using b2 by (simp add: step_def exec_accept_data_def get_block_def require_def st3_def)
  have acc: "accepted_data_blocks st2 = accepted_data_blocks st" using b1(2) b2(2) by (simp add: touches_def)
  have "run_loop pc ([instr 22 0 d 0 0, instr 19 0 d h 0, instr 20 0 d 0 0] @ rest) st = run_loop (pc + 3) rest st3"
    using s1 s2 s3 by (simp add: op_names numeral_3_eq_3)
  moreover have "touches d st (st3\<lparr>accepted_data_blocks := accepted_data_blocks st\<rparr>)"
    using b1(2) b2(2) by (simp add: touches_def st3_def log_event_def)
  moreover have "accepted_data_blocks st3 = add_sorted d (accepted_data_blocks st)" "map_of (data_blocks st3) d = Some ?blk"
    using acc b2(1) by (simp_all add: st3_def)
  ultimately show thesis using that by blast
qed

text \<open>The bytes that a plan describes.\<close>

definition yields :: "'a plan_scheme \<Rightarrow> bytes \<Rightarrow> bool" where
  "yields plan part \<longleftrightarrow> (\<exists>g. synthesize_basis (p_basis plan) (p_start_byte plan) (p_length plan) (p_delta plan) = Inr g \<and>
     part = patch_bytes g (p_residuals plan) \<and> hexdigest part = p_sha256 plan)"

lemma run_block:
  assumes p: "plan_packable name plan" and y: "yields plan part"
    and b: "manifest_get st ''constants'' b JNull = Inr (JStr (p_basis plan))"
    and h: "manifest_get st ''constants'' h JNull = Inr (JStr (p_sha256 plan))"
    and d: "manifest_get st ''data_blocks'' d JNull = Inr (JStr name)"
  obtains st' blk where "run_loop pc (block_code d b h plan @ rest) st = run_loop (pc + length (block_code d b h plan)) rest st'"
    and "touches d st (st'\<lparr>accepted_data_blocks := accepted_data_blocks st\<rparr>)" and "accepted_data_blocks st' = add_sorted d (accepted_data_blocks st)"
    and "map_of (data_blocks st') d = Some blk" and "d_name blk = JStr name" and "d_bytes blk = part"
proof -
  obtain g where g: "synthesize_basis (p_basis plan) (p_start_byte plan) (p_length plan) (p_delta plan) = Inr g"
      "part = patch_bytes g (p_residuals plan)" "hexdigest part = p_sha256 plan"
    using y by (auto simp: yields_def)
  have len: "int (length g) = p_length plan" using bogbasis.synth_Inr_length [OF g(1)] p by (simp add: plan_packable_def)
  let ?tail = "[instr 22 0 d 0 0, instr 19 0 d h 0, instr 20 0 d 0 0] @ rest"
  let ?blk = "\<lparr>d_id = d, d_name = JStr name, d_basis = Some (p_basis plan), d_byte = p_start_byte plan,
      d_delta = p_delta plan, d_length = p_length plan, d_bytes = g, d_residuals = []\<rparr>"
  obtain st1 where st1: "run_loop pc ([instr 16 0 b 0 0, instr 17 (p_delta plan) d (p_start_byte plan) (p_length plan), instr 18 0 d 0 0] @
        store_code d (p_residuals plan) @ ?tail) st = run_loop (pc + 3) (store_code d (p_residuals plan) @ ?tail) st1"
      "touches d st st1" "map_of (data_blocks st1) d = Some ?blk"
    by (rule run_load [OF b d p g(1)])
  have rs: "residuals_ok (p_length plan) (- 1) (p_residuals plan)" using p by (simp add: plan_packable_def)
  obtain st2 where st2: "run_loop (pc + 3) (store_code d (p_residuals plan) @ ?tail) st1 = run_loop (pc + 3 + length (p_residuals plan)) ?tail st2"
      "touches d st1 st2" "map_of (data_blocks st2) d = Some (?blk\<lparr>d_residuals := pairs (p_residuals plan)\<rparr>)"
    using run_store [OF st1(3), of "- 1" "p_residuals plan" "pc + 3" ?tail] rs by auto
  have h2: "manifest_get st2 ''constants'' h JNull = Inr (JStr (hexdigest (patch_bytes g (p_residuals plan))))"
    using h g st1(2) st2(2) by (simp add: manifest_get_def touches_def)
  obtain st3 where st3: "run_loop (pc + 3 + length (p_residuals plan)) ?tail st2 = run_loop (pc + 3 + length (p_residuals plan) + 3) rest st3"
      "touches d st2 (st3\<lparr>accepted_data_blocks := accepted_data_blocks st2\<rparr>)" "accepted_data_blocks st3 = add_sorted d (accepted_data_blocks st2)"
      "map_of (data_blocks st3) d = Some (?blk\<lparr>d_residuals := pairs (p_residuals plan), d_bytes := patch_bytes g (p_residuals plan)\<rparr>)"
    using run_finish [OF st2(3), of "p_residuals plan" h "pc + 3 + length (p_residuals plan)" rest] rs len h2 by auto
  have "run_loop pc (block_code d b h plan @ rest) st = run_loop (pc + length (block_code d b h plan)) rest st3"
  proof -
    have code: "block_code d b h plan @ rest = [instr 16 0 b 0 0, instr 17 (p_delta plan) d (p_start_byte plan) (p_length plan), instr 18 0 d 0 0] @
        store_code d (p_residuals plan) @ ?tail" by (simp add: block_code_def)
    have len: "pc + length (block_code d b h plan) = pc + 3 + length (p_residuals plan) + 3"
      by (simp add: block_code_def store_code_def)
    show ?thesis unfolding code len using st1(1) st2(1) st3(1) by (simp only:)
  qed
  moreover have "touches d st (st3\<lparr>accepted_data_blocks := accepted_data_blocks st\<rparr>)" "accepted_data_blocks st3 = add_sorted d (accepted_data_blocks st)"
    using st1(2) st2(2) st3(2,3) by (simp_all add: touches_def)
  ultimately show thesis using that st3(4) g(2) by simp
qed

definition manifest_lists :: "vm_state \<Rightarrow> (string, int) pydict \<Rightarrow> nat \<Rightarrow> (string \<times> 'a plan_scheme) list \<Rightarrow> bool" where
  "manifest_lists st consts d ps \<longleftrightarrow>
     (\<forall>(name, plan) \<in> set ps. \<forall>v \<in> {p_basis plan, p_sha256 plan}.
        manifest_get st ''constants'' (the (map_of consts v)) JNull = Inr (JStr v)) \<and>
     (\<forall>n < length ps. manifest_get st ''data_blocks'' (int (d + n)) JNull = Inr (JStr (fst (ps ! n))))"

lemma manifest_lists_cong: "manifest st' = manifest st \<Longrightarrow> manifest_lists st' consts d ps = manifest_lists st consts d ps"
  by (simp add: manifest_lists_def manifest_get_def)

lemma manifest_lists_Cons:
  "manifest_lists st consts d ((name, plan) # ps) \<longleftrightarrow>
     manifest_get st ''constants'' (the (map_of consts (p_basis plan))) JNull = Inr (JStr (p_basis plan)) \<and>
     manifest_get st ''constants'' (the (map_of consts (p_sha256 plan))) JNull = Inr (JStr (p_sha256 plan)) \<and>
     manifest_get st ''data_blocks'' (int d) JNull = Inr (JStr name) \<and> manifest_lists st consts (Suc d) ps"
  by (simp add: manifest_lists_def All_less_Suc2 conj_ac add_ac)

lemma add_sorted_last: "sorted xs \<Longrightarrow> \<forall>x \<in> set xs. x < y \<Longrightarrow> add_sorted y xs = xs @ [y]"
  unfolding add_sorted_def by (subst sorted_sort_id) (auto simp: sorted_append less_imp_le)

definition same_claims :: "vm_state \<Rightarrow> vm_state \<Rightarrow> bool" where
  "same_claims st st' \<longleftrightarrow> accepted_claims st' = accepted_claims st \<and> rejected_claims st' = rejected_claims st \<and>
     quarantined_claims st' = quarantined_claims st"

lemma run_blocks:
  assumes "\<forall>(name, plan) \<in> set ps. plan_packable name plan" and "list_all2 (\<lambda>np part. yields (snd np) part) ps parts"
    and "manifest_lists st consts d ps" and "sorted (accepted_data_blocks st)" and "\<forall>x \<in> set (accepted_data_blocks st). x < int d"
  shows "\<exists>st'. run_loop pc (code_of consts d ps @ rest) st = run_loop (pc + length (code_of consts d ps)) rest st' \<and>
    manifest st' = manifest st \<and> program_hash st' = program_hash st \<and>
    accepted_data_blocks st' = accepted_data_blocks st @ map int [d..<d + length ps] \<and>
    rejected_data_blocks st' = rejected_data_blocks st \<and> same_claims st st' \<and>
    (\<forall>k. k < int d \<longrightarrow> map_of (data_blocks st') k = map_of (data_blocks st) k) \<and>
    (\<forall>n < length ps. \<exists>blk. map_of (data_blocks st') (int (d + n)) = Some blk \<and> d_name blk = JStr (fst (ps ! n)) \<and> d_bytes blk = parts ! n)"
  using assms
proof (induction ps arbitrary: parts st d pc)
  case Nil
  then show ?case by (intro exI [of _ st]) (simp add: same_claims_def)
next
  case (Cons np ps)
  obtain name plan where np: "np = (name, plan)" by (cases np)
  obtain part parts' where parts: "parts = part # parts'" "yields plan part" "list_all2 (\<lambda>np part. yields (snd np) part) ps parts'"
    using Cons.prems(2) np by (auto simp: list_all2_Cons1)
  let ?b = "the (map_of consts (p_basis plan))" let ?h = "the (map_of consts (p_sha256 plan))"
  let ?code = "block_code (int d) ?b ?h plan"
  have man: "manifest_get st ''constants'' ?b JNull = Inr (JStr (p_basis plan))" "manifest_get st ''constants'' ?h JNull = Inr (JStr (p_sha256 plan))"
      "manifest_get st ''data_blocks'' (int d) JNull = Inr (JStr name)" "manifest_lists st consts (Suc d) ps"
    using Cons.prems(3) by (simp_all add: np manifest_lists_Cons)
  obtain st1 blk where st1: "run_loop pc (?code @ code_of consts (Suc d) ps @ rest) st = run_loop (pc + length ?code) (code_of consts (Suc d) ps @ rest) st1"
      "touches (int d) st (st1\<lparr>accepted_data_blocks := accepted_data_blocks st\<rparr>)" "accepted_data_blocks st1 = add_sorted (int d) (accepted_data_blocks st)"
      "map_of (data_blocks st1) (int d) = Some blk" "d_name blk = JStr name" "d_bytes blk = part"
    by (rule run_block [OF _ parts(2) man(1-3), of pc "code_of consts (Suc d) ps @ rest"]) (use Cons.prems(1) np in simp)
  have acc: "accepted_data_blocks st1 = accepted_data_blocks st @ [int d]"
    using st1(3) add_sorted_last Cons.prems(4,5) by simp
  have same: "manifest st1 = manifest st" "program_hash st1 = program_hash st" "rejected_data_blocks st1 = rejected_data_blocks st"
      "same_claims st st1" "k \<noteq> int d \<Longrightarrow> map_of (data_blocks st1) k = map_of (data_blocks st) k" for k
    using st1(2) by (auto simp: touches_def same_claims_def)
  have inv: "sorted (accepted_data_blocks st1)" "\<forall>x \<in> set (accepted_data_blocks st1). x < int (Suc d)"
    using acc Cons.prems(4,5) by (auto simp: sorted_append)
  have packs: "\<forall>(name, plan) \<in> set ps. plan_packable name plan" using Cons.prems(1) by simp
  have lists: "manifest_lists st1 consts (Suc d) ps" using man(4) manifest_lists_cong [OF same(1)] by blast
  obtain st' where st': "run_loop (pc + length ?code) (code_of consts (Suc d) ps @ rest) st1 =
        run_loop (pc + length ?code + length (code_of consts (Suc d) ps)) rest st'"
      "manifest st' = manifest st1" "program_hash st' = program_hash st1"
      "accepted_data_blocks st' = accepted_data_blocks st1 @ map int [Suc d..<Suc d + length ps]"
      "rejected_data_blocks st' = rejected_data_blocks st1" "same_claims st1 st'"
      "\<And>k. k < int (Suc d) \<Longrightarrow> map_of (data_blocks st') k = map_of (data_blocks st1) k"
      "\<And>n. n < length ps \<Longrightarrow> \<exists>blk. map_of (data_blocks st') (int (Suc d + n)) = Some blk \<and> d_name blk = JStr (fst (ps ! n)) \<and> d_bytes blk = parts' ! n"
    using Cons.IH [OF packs parts(3) lists inv, of "pc + length ?code"] by blast
  have "\<exists>blk. map_of (data_blocks st') (int (d + n)) = Some blk \<and> d_name blk = JStr (fst ((np # ps) ! n)) \<and> d_bytes blk = parts ! n"
    if "n < length (np # ps)" for n
    using that st'(7) [of "int d"] st'(8) [of "n - 1"] st1(4-6) by (cases n) (simp_all add: parts(1) np)
  then show ?case
    using st1(1) st' same acc
    by (intro exI [of _ st']) (simp add: np add.assoc upt_conv_Cons same_claims_def del: upt_Suc run_loop.simps)
qed

section \<open>From text to accepted bytes\<close>

lemma id_dict_inverse:
  assumes "id_dict d" and "(k, v) \<in> set d"
  shows "map_of (map (\<lambda>(k, v). (str_int v, f k)) d) (str_int v) = Some (f k)"
  using id_dict_keys [OF assms(1)] assms(2)
  by (intro map_of_is_SomeI) (force simp: comp_def case_prod_unfold)+

lemma loaded_constant:
  assumes "tables_ok asm" and "manifest st = canon (asm_manifest asm)" and "map_of (constant_ids asm) v = Some c"
  shows "manifest_get st ''constants'' c JNull = Inr (JStr v)"
proof -
  have ids: "id_dict (constant_ids asm)" and cs: "constants asm = map (\<lambda>(v, i). (str_int i, v)) (constant_ids asm)"
    using assms(1) by (auto simp: tables_ok_def)
  let ?kvs = "map (\<lambda>(k, v). (str_int v, JStr k)) (constant_ids asm)"
  have "map (\<lambda>(k, v). (k, JStr v)) (constants asm) = ?kvs" by (simp add: cs case_prod_unfold)
  moreover have "distinct (map fst ?kvs)" using id_dict_keys [OF ids] by (simp add: comp_def case_prod_unfold)
  moreover have "map_of ?kvs (str_int c) = Some (JStr v)" by (rule id_dict_inverse [OF ids map_of_SomeD [OF assms(3)]])
  ultimately show ?thesis
    using json_get_canon [of ?kvs "str_int c" JNull]
    by (simp add: manifest_get_def assms(2) asm_manifest_index manifest_members_def del: canon.simps(2)) 
qed

lemma loaded_data_block:
  assumes "tables_ok asm" and "manifest st = canon (asm_manifest asm)" and "(name, d) \<in> set (data_names asm)"
  shows "manifest_get st ''data_blocks'' d v = Inr (JStr name)"
proof -
  have ids: "id_dict (data_names asm)" using assms(1) by (auto simp: tables_ok_def)
  let ?kvs = "map (\<lambda>(k, v). (str_int v, JStr k)) (data_names asm)"
  have "distinct (map fst ?kvs)" using id_dict_keys [OF ids] by (simp add: comp_def case_prod_unfold)
  moreover have "map_of ?kvs (str_int d) = Some (JStr name)" by (rule id_dict_inverse [OF ids assms(3)])
  ultimately show ?thesis
    using json_get_canon [of ?kvs "str_int d" v]
    by (simp add: manifest_get_def assms(2) asm_manifest_index manifest_members_def id_table_id_dict [OF ids] del: canon.simps(2))
qed

text \<open>A binary program rebuilds \<open>parts\<close> under \<open>names\<close>: running it completes, the accepted blocks are
  exactly the named ones, in order, and block \<open>n\<close> holds \<open>parts ! n\<close>.\<close>

definition rebuilds :: "bytes \<Rightarrow> string list \<Rightarrow> bytes list \<Rightarrow> bool" where
  "rebuilds bin names parts \<longleftrightarrow> (\<exists>m is pc st r.
     load_bogbin bin = Inr (m, is, hexdigest bin) \<and> run_loop 0 is (new_vm m (hexdigest bin)) = Inr (pc, st) \<and>
     run_file bin = Inr r \<and> map_of r ''execution_status'' = Some (JStr ''completed'') \<and>
     map_of r ''accepted_data_block_names'' = Some (JList (map JStr names)) \<and>
     map_of r ''rejected_data_block_names'' = Some (JList []) \<and>
     accepted_data_blocks st = map int [0..<length parts] \<and> length names = length parts \<and>
     (\<forall>n < length parts. \<exists>blk. map_of (data_blocks st) (int n) = Some blk \<and> d_bytes blk = parts ! n))"

lemma comment_line: "parse_line asm (CHR ''#'' # cs) = Inr asm"
  by (simp add: parse_line_def strip_line_def strip_def)

lemma fold_comments: "list_all (\<lambda>line. \<exists>cs. line = CHR ''#'' # cs) ls \<Longrightarrow> fold_res parse_line asm ls = Inr asm"
  by (induction ls) (auto simp: comment_line)

lemma parse_end_lines:
  "fold_res parse_line asm [''EMIT_RECEIPT'', ''HALT''] = Inr (asm\<lparr>instructions := instructions asm @ [instr 15 0 0 0 0, instr 1 0 0 0 0]\<rparr>)"
proof -
  have "parse_line a ''EMIT_RECEIPT'' = parse_parts a ''EMIT_RECEIPT'' [''EMIT_RECEIPT'']"
      "parse_line a ''HALT'' = parse_parts a ''HALT'' [''HALT'']" for a
    using parse_words [of "''EMIT_RECEIPT''" "[]" a] parse_words [of "''HALT''" "[]" a] clean_ops upper_ops by simp_all
  then show ?thesis by (simp add: parse_parts_def emit_Inr ops_codes)
qed

lemma run_end:
  assumes "rejected_data_blocks st = []" "accepted_claims st = []" "rejected_claims st = []" "quarantined_claims st = []"
    and "\<forall>n < k. data_block_name st (int n) = Inr (JStr (names ! n))" and "accepted_data_blocks st = map int [0..<k]" and "length names = k"
  obtains st' r where "run_loop pc [instr 15 0 0 0 0, instr 1 0 0 0 0] st = Inr (Suc pc, st')" and "receipt_emitted st'"
    and "receipt st' = Inr r" and "map_of r ''execution_status'' = None"
    and "map_of r ''accepted_data_block_names'' = Some (JList (map JStr names))" and "map_of r ''rejected_data_block_names'' = Some (JList [])"
    and "accepted_data_blocks st' = accepted_data_blocks st" and "data_blocks st' = data_blocks st"
proof -
  define st1 where "st1 = log_event (int pc) ''EMIT_RECEIPT'' [(''result'', JStr ''receipt_ready'')] (st\<lparr>receipt_emitted := True\<rparr>)"
  define st2 where "st2 = log_event (int (Suc pc)) ''HALT'' [] st1"
  have "run_loop pc [instr 15 0 0 0 0, instr 1 0 0 0 0] st = Inr (Suc pc, st2)"
    by (simp add: op_names step_def st1_def st2_def)
  moreover have lists: "accepted_data_blocks st2 = map int [0..<k]" "rejected_data_blocks st2 = []"
      "accepted_claims st2 = []" "rejected_claims st2 = []" "quarantined_claims st2 = []" "data_blocks st2 = data_blocks st" "receipt_emitted st2"
    using assms by (simp_all add: st1_def st2_def log_event_def)
  moreover have "map_res (data_block_name st2) (map int [0..<k]) = Inr (map JStr names)"
  proof -
    have "data_block_name st2 d = data_block_name st d" for d
      by (simp add: data_block_name_def manifest_get_def st1_def st2_def)
    then have "map_res (data_block_name st2) (map int [0..<k]) = Inr (map (\<lambda>d. JStr (names ! nat d)) (map int [0..<k]))"
      using assms(5) by (intro map_res_total) auto
    moreover have "map (\<lambda>d. JStr (names ! nat d)) (map int [0..<k]) = map JStr names"
      using assms(7) by (auto simp: list_eq_iff_nth_eq)
    ultimately show ?thesis by simp
  qed
  ultimately show thesis
    using assms(6) by (intro that [of st2]) (auto simp: receipt_def Let_def)
qed

lemma assembled_blocks_run:
  assumes p: "\<forall>(name, plan) \<in> set ps. plan_packable name plan" and y: "list_all2 (\<lambda>np part. yields (snd np) part) ps parts"
    and names: "distinct (map fst ps)" and len: "2 * length ps \<le> 65536"
    and comments: "list_all (\<lambda>line. \<exists>cs. line = CHR ''#'' # cs) cm"
    and lines: "splitlines txt = cm @ concat (map (\<lambda>(name, plan). block_lines name plan) ps) @ [''EMIT_RECEIPT'', ''HALT'']"
  obtains asm where "fold_res parse_line new_assembler (splitlines txt) = Inr asm"
    and "\<And>bin. assemble_text new_assembler txt = Inr bin \<Longrightarrow> rebuilds bin (map fst ps) parts"
proof -
  obtain asm1 cs where asm1: "fold_res parse_line new_assembler (concat (map (\<lambda>(name, plan). block_lines name plan) ps)) = Inr asm1"
      "data_names asm1 = zip (map fst ps) (map int [0..<length ps])" "constants_known (constant_ids asm1) ps"
      "instructions asm1 = code_of (constant_ids asm1) 0 ps"
    using assemble_blocks [OF p new_assembler_ok names] len by (auto simp: new_assembler_def)
  define asm where "asm = asm1\<lparr>instructions := instructions asm1 @ [instr 15 0 0 0 0, instr 1 0 0 0 0]\<rparr>"
  have fold: "fold_res parse_line new_assembler (splitlines txt) = Inr asm"
    unfolding lines fold_res_append using fold_comments [OF comments] asm1(1) parse_end_lines by (simp add: asm_def)
  moreover have "rebuilds bin (map fst ps) parts" if bin: "assemble_text new_assembler txt = Inr bin" for bin
  proof -
    have load: "load_bogbin bin = Inr (canon (asm_manifest asm), instructions asm, hexdigest bin)" and ok: "asm_ok asm"
      using load_assembled [OF new_assembler_ok bin] fold by auto
    let ?st = "new_vm (canon (asm_manifest asm)) (hexdigest bin)"
    have tab: "tables_ok asm" using ok by (simp add: asm_ok_def)
    have block: "manifest_get st ''data_blocks'' (int n) v = Inr (JStr (map fst ps ! n))"
      if "n < length ps" "manifest st = canon (asm_manifest asm)" for n v st
      by (rule loaded_data_block [OF tab that(2)]) (use that asm1(2) in \<open>force simp: asm_def set_zip\<close>)
    have const: "manifest_get ?st ''constants'' (the (map_of (constant_ids asm1) w)) JNull = Inr (JStr w)"
      if "w \<in> dom (map_of (constant_ids asm1))" for w
      using that by (intro loaded_constant [OF tab]) (auto simp: new_vm_def asm_def)
    have ml: "manifest_lists ?st (constant_ids asm1) 0 ps"
      unfolding manifest_lists_def
    proof (intro conjI ballI allI impI, clarify)
      fix name plan v assume "(name, plan) \<in> set ps" "v \<in> {p_basis plan, p_sha256 plan}"
      then show "manifest_get ?st ''constants'' (the (map_of (constant_ids asm1) v)) JNull = Inr (JStr v)"
        using asm1(3) const unfolding constants_known_def by blast
    next
      fix n assume "n < length ps"
      then show "manifest_get ?st ''data_blocks'' (int (0 + n)) JNull = Inr (JStr (fst (ps ! n)))"
        using block [of n ?st] by (simp add: new_vm_def)
    qed
    have init: "accepted_data_blocks ?st = []" "rejected_data_blocks ?st = []" "manifest ?st = canon (asm_manifest asm)"
        "accepted_claims ?st = []" "rejected_claims ?st = []" "quarantined_claims ?st = []"
      by (simp_all add: new_vm_def)
    have code: "instructions asm = code_of (constant_ids asm1) 0 ps @ [instr 15 0 0 0 0, instr 1 0 0 0 0]"
      by (simp add: asm_def asm1(4))
    have "sorted (accepted_data_blocks ?st)" "\<forall>x \<in> set (accepted_data_blocks ?st). x < int 0" by (simp_all add: init)
    note run_blocks [OF p y ml this, of 0 "[instr 15 0 0 0 0, instr 1 0 0 0 0]"]
    then obtain st1 where raw: "run_loop 0 (instructions asm) ?st = run_loop (0 + length (code_of (constant_ids asm1) 0 ps)) [instr 15 0 0 0 0, instr 1 0 0 0 0] st1"
        "manifest st1 = manifest ?st" "accepted_data_blocks st1 = accepted_data_blocks ?st @ map int [0..<0 + length ps]"
        "rejected_data_blocks st1 = rejected_data_blocks ?st" "same_claims ?st st1"
        "\<And>n. n < length ps \<Longrightarrow> \<exists>blk. map_of (data_blocks st1) (int (0 + n)) = Some blk \<and> d_name blk = JStr (fst (ps ! n)) \<and> d_bytes blk = parts ! n"
      unfolding code by blast
    have st1: "run_loop 0 (instructions asm) ?st = run_loop (length (code_of (constant_ids asm1) 0 ps)) [instr 15 0 0 0 0, instr 1 0 0 0 0] st1"
        "manifest st1 = canon (asm_manifest asm)" "accepted_data_blocks st1 = map int [0..<length ps]" "rejected_data_blocks st1 = []"
        "accepted_claims st1 = []" "rejected_claims st1 = []" "quarantined_claims st1 = []"
        "\<And>n. n < length ps \<Longrightarrow> \<exists>blk. map_of (data_blocks st1) (int n) = Some blk \<and> d_bytes blk = parts ! n"
      using raw init by (simp_all add: same_claims_def del: run_loop.simps) blast
    obtain st2 r where st2: "run_loop (length (code_of (constant_ids asm1) 0 ps)) [instr 15 0 0 0 0, instr 1 0 0 0 0] st1 =
          Inr (Suc (length (code_of (constant_ids asm1) 0 ps)), st2)" "receipt_emitted st2" "receipt st2 = Inr r" "map_of r ''execution_status'' = None"
        "map_of r ''accepted_data_block_names'' = Some (JList (map JStr (map fst ps)))" "map_of r ''rejected_data_block_names'' = Some (JList [])"
        "accepted_data_blocks st2 = accepted_data_blocks st1" "data_blocks st2 = data_blocks st1"
    proof (rule run_end [of st1 "length ps" "map fst ps"])
      show "\<forall>n < length ps. data_block_name st1 (int n) = Inr (JStr (map fst ps ! n))"
        using block [OF _ st1(2)] by (simp add: data_block_name_def)
    qed (use st1 in auto)
    have lens: "length parts = length ps" using y by (simp add: list_all2_lengthD)
    have "run_file bin = Inr (r @ [(''execution_status'', JStr ''completed'')])"
      using load st1(1) st2(1-3) by (simp add: run_file_def run_def finish_run_def del: run_loop.simps)
    then show ?thesis
      unfolding rebuilds_def using load st1 st2 lens
      by (intro exI [of _ "canon (asm_manifest asm)"] exI [of _ "instructions asm"] exI [of _ st2] exI
          [of _ "Suc (length (code_of (constant_ids asm1) 0 ps))"] exI [of _ "r @ [(''execution_status'', JStr ''completed'')]"])
        (simp add: map_add_Some_iff del: run_loop.simps)
  qed
  ultimately show thesis using that by blast
qed

section \<open>The packers\<close>

lemma plan_exact_yields:
  assumes "plan_exact plan data"
  shows "yields plan data"
proof -
  obtain g where "synthesize_basis (p_basis plan) (p_start_byte plan) (p_length plan) (p_delta plan) = Inr g"
      "apply_residuals g (p_residuals plan) = Inr data" "p_sha256 plan = hexdigest data"
    using assms unfolding plan_exact_def by blast
  then show ?thesis by (auto simp: yields_def apply_residuals_eq)
qed

lemma plan_exact_packable:
  assumes "plan_exact plan data" and "length data \<le> 65535" and "clean name"
  shows "plan_packable name plan"
  using assms plan_exact_residuals_ok [OF assms(1)] unfolding plan_exact_def plan_packable_def by auto

lemma truncate_plan:
  "yields (plan.truncate cp) = yields cp" "plan_packable name (plan.truncate cp) = plan_packable name cp"
  by (simp_all add: yields_def plan_packable_def plan.defs fun_eq_iff)

text \<open>A line of a block has no line break.\<close>

lemma space_line_break: "is_line_break c \<Longrightarrow> is_space c"
  by (auto simp: is_line_break_def is_space_def Let_def)

lemma clean_no_break: "clean w \<Longrightarrow> c \<in> set w \<Longrightarrow> \<not> is_line_break c"
  using space_line_break by (auto simp: clean_def is_word_def list_all_iff)

lemma clean_line: "clean w \<Longrightarrow> list_all (\<lambda>c. \<not> is_line_break c) w"
  using clean_no_break by (auto simp: list_all_iff)

lemma block_lines_no_break:
  assumes "plan_packable name plan"
  shows "list_all (list_all (\<lambda>c. \<not> is_line_break c)) (block_lines name plan)"
proof -
  have "clean name" "clean (p_basis plan)" "clean (p_sha256 plan)"
    using assms clean_basis clean_sha256 by (simp_all add: plan_packable_def)
  note parts = this [THEN clean_line] clean_line [OF clean_str_int]
  show ?thesis unfolding block_lines_def list_all_append list.pred_map
    using parts by (simp add: is_line_break_def comp_def list.pred_True)
qed

lemma packed_lines:
  assumes "\<forall>(name, plan) \<in> set ps. plan_packable name plan" and "list_all (list_all (\<lambda>c. \<not> is_line_break c)) cm"
    and lines: "lines = cm @ concat (map (\<lambda>(name, plan). block_lines name plan) ps) @ [''EMIT_RECEIPT'', ''HALT'']"
  shows "splitlines (unlines lines) = lines"
proof (rule splitlines_unlines)
  have "list_all (list_all (\<lambda>c. \<not> is_line_break c)) (concat (map (\<lambda>(name, plan). block_lines name plan) ps))"
    using assms(1) block_lines_no_break by (induction ps) auto
  then show "list_all (list_all (\<lambda>c. \<not> is_line_break c)) lines"
    using assms(2) by (simp add: lines is_line_break_def)
qed

definition assembles_to :: "string \<Rightarrow> string list \<Rightarrow> bytes list \<Rightarrow> bool" where
  "assembles_to txt names parts \<longleftrightarrow> (\<exists>asm. fold_res parse_line new_assembler (splitlines txt) = Inr asm \<and>
     (length (utf8 (dumps (asm_manifest asm))) < 2 ^ 32 \<longrightarrow>
        (\<exists>bin. assemble_text new_assembler txt = Inr bin \<and> rebuilds bin names parts)))"

lemma packed_assembles:
  assumes p: "\<forall>(name, plan) \<in> set ps. plan_packable name plan" and y: "list_all2 (\<lambda>np part. yields (snd np) part) ps parts"
    and names: "distinct (map fst ps)" and len: "2 * length ps \<le> 65536"
    and comments: "list_all (\<lambda>line. \<exists>cs. line = CHR ''#'' # cs) cm" "list_all (list_all (\<lambda>c. \<not> is_line_break c)) cm"
    and prog: "txt = unlines (cm @ concat (map (\<lambda>(name, plan). block_lines name plan) ps) @ [''EMIT_RECEIPT'', ''HALT''])"
  shows "assembles_to txt (map fst ps) parts"
proof -
  have lines: "splitlines txt = cm @ concat (map (\<lambda>(name, plan). block_lines name plan) ps) @ [''EMIT_RECEIPT'', ''HALT'']"
    unfolding prog by (rule packed_lines [OF p comments(2) refl])
  obtain asm where asm: "fold_res parse_line new_assembler (splitlines txt) = Inr asm"
      "\<And>bin. assemble_text new_assembler txt = Inr bin \<Longrightarrow> rebuilds bin (map fst ps) parts"
    by (rule assembled_blocks_run [OF p y names len comments(1) lines]) (rule that)
  have "asm_ok asm" by (rule parse_lines_ok [OF new_assembler_ok asm(1)])
  then have "\<exists>bin. assemble_text new_assembler txt = Inr bin" if "length (utf8 (dumps (asm_manifest asm))) < 2 ^ 32"
    using write_bogbin_succeeds [OF _ that] asm(1) by (simp add: assemble_text_def)
  then show ?thesis unfolding assembles_to_def using asm by blast
qed

lemma pack_bytes_assembles:
  assumes "clean data_name" and "length data \<le> 65535"
  shows "\<exists>txt. pack_bytes_to_bogasm data data_name = Inr txt \<and> assembles_to txt [data_name] [data]"
proof -
  obtain plan where plan: "optimize_residual_plan data = Inr plan" "plan_exact plan data"
    using optimize_residual_plan_exact by blast
  have "validate_data_name data_name = Inr ()"
    using assms(1) by (auto simp: validate_data_name_def clean_def is_word_def list_ex_iff list_all_iff)
  moreover have "assembles_to (unlines (block_lines data_name plan @ [''EMIT_RECEIPT'', ''HALT''])) [data_name] [data]"
    using packed_assembles [of "[(data_name, plan)]" "[data]" "[]"] plan_exact_yields [OF plan(2)]
      plan_exact_packable [OF plan(2) assms(2,1)] by simp
  ultimately show ?thesis
    using plan(1) assms(2) by (simp add: pack_bytes_to_bogasm_def MAX_U16_def)
qed

lemma plain_chunk_plan:
  assumes "plain_chunk n (i, chunk) = Inr cp"
  shows "plan_exact (plan.truncate cp) chunk \<and> cp_index cp = int i"
proof -
  obtain pl where pl: "optimize_residual_plan chunk = Inr pl" "plan_exact pl chunk"
    using optimize_residual_plan_exact by blast
  have sha: "pl\<lparr>p_sha256 := hexdigest chunk\<rparr> = pl" using pl(2) by (simp add: plan_exact_def)
  have "cp = plan.extend pl (chunk_plan.fields (int i) (int (i * n)) None None None None None)"
    using assms pl(1) sha by (auto simp: plain_chunk_def rbind_Inr_iff)
  then have "plan.truncate cp = pl" "cp_index cp = int i" by (simp_all add: plan.defs chunk_plan.defs)
  then show ?thesis using pl(2) by simp
qed

lemma clean_append: "clean a \<Longrightarrow> clean b \<Longrightarrow> clean (a @ b)"
  by (auto simp: clean_def is_word_def)

lemma clean_pad4: "clean (pad4 n)"
proof -
  have "is_digit c" if "c \<in> set (pad4 n)" for c
    using that str_nat_digits [of c n] by (auto simp: pad4_def is_digit_def)
  moreover have "\<not> is_digit (CHR ''#'')" by (simp add: is_digit_def)
  moreover have "pad4 n \<noteq> []" by (simp add: pad4_def)
  ultimately show ?thesis using is_digit_not_space unfolding clean_def is_word_def list_all_iff by blast
qed

lemma clean_chunk_names: "clean data_name \<Longrightarrow> clean (pack_chunk_name data_name i)" "clean (chunk_name i)"
  unfolding pack_chunk_name_def chunk_name_def
  by (intro clean_append clean_pad4; simp add: clean_def is_word_def is_space_def)+

lemma length_slice: "0 < n \<Longrightarrow> x \<in> set (slices n xs) \<Longrightarrow> length x \<le> n"
  by (auto simp: slices_def)

lemma pack_chunked_assembles:
  assumes name: "clean data_name" and n: "0 < n" "n \<le> 65535" and len: "2 * slice_count n (length data) \<le> 65536"
  shows "\<exists>txt. pack_chunked_bytes_to_bogasm data data_name (int n) = Inr txt \<and>
    assembles_to txt (map (\<lambda>i. pack_chunk_name data_name (int i)) [0..<slice_count n (length data)]) (slices n data)"
proof -
  obtain ck where ck: "optimize_chunked_residual_plan data (int n) = Inr ck" "chunked_exact ck data n"
    using optimize_chunked_exact [OF n] by blast
  let ?sl = "slices n data"
  let ?ps = "map (\<lambda>cp. (pack_chunk_name data_name (cp_index cp), cp)) (ck_chunks ck)"
  have chunks: "list_all2 (\<lambda>ic cp. plain_chunk n ic = Inr cp) (enumerate 0 ?sl) (ck_chunks ck)"
    using ck(1) n by (auto simp: optimize_chunked_residual_plan_def rbind_Inr_iff map_res_Inr_iff)
  have len_ck: "length (ck_chunks ck) = length ?sl" using list_all2_lengthD [OF chunks] by simp
  have nth: "plan_exact (plan.truncate (ck_chunks ck ! i)) (?sl ! i) \<and> cp_index (ck_chunks ck ! i) = int i" if "i < length ?sl" for i
    using list_all2_nthD [OF chunks, of i] that plain_chunk_plan by (simp add: nth_enumerate_eq del: enumerate_eq_zip)
  have small: "length (?sl ! i) \<le> 65535" if "i < length ?sl" for i
    using length_slice [OF n(1), of "?sl ! i" data] that n(2) by simp
  have packs: "\<forall>(name, plan) \<in> set ?ps. plan_packable name plan"
  proof -
    have "plan_packable (pack_chunk_name data_name (cp_index (ck_chunks ck ! i))) (ck_chunks ck ! i)" if "i < length ?sl" for i
      using plan_exact_packable [of "plan.truncate (ck_chunks ck ! i)"] nth [OF that] small [OF that] clean_chunk_names(1) [OF name]
      by (metis truncate_plan(2))
    then show ?thesis using len_ck by (auto simp: in_set_conv_nth)
  qed
  have yields: "list_all2 (\<lambda>np part. yields (snd np) part) ?ps ?sl"
    using nth plan_exact_yields len_ck by (auto simp: list_all2_conv_all_nth) (metis truncate_plan(1))
  have names: "map fst ?ps = map (\<lambda>i. pack_chunk_name data_name (int i)) [0..<length ?sl]"
    using nth len_ck by (auto simp: list_eq_iff_nth_eq)
  have "distinct (map fst ?ps)" unfolding names by (simp add: distinct_map inj_on_def pack_chunk_name_def)
  moreover have hex: "list_all (\<lambda>c. \<not> is_line_break c) (ck_whole_sha256 ck)"
    using ck(2) clean_line [OF clean_sha256] by (simp add: chunked_exact_def)
  ultimately show ?thesis
    using packed_assembles [OF packs yields _ _ _ _ refl, of "[''# BOGBIN v1.2 chunked pack receipt whole_sha256 '' @ ck_whole_sha256 ck,
       ''# chunk_size '' @ str_int (ck_chunk_size ck), ''# chunk_count '' @ str_int (ck_chunk_count ck),
       ''# total_residual_count '' @ str_int (ck_total_residual_count ck)]"] ck(1) len len_ck names clean_line [OF clean_str_int] name
    by (simp add: pack_chunked_bytes_to_bogasm_def validate_data_name_def clean_def is_word_def list_ex_iff list_all_iff
        is_line_break_def comp_def)
qed

section \<open>Compiled containers\<close>

definition plan_of :: "bog_chunk \<Rightarrow> plan" where
  "plan_of chunk = \<lparr>p_basis = b_basis chunk, p_start_byte = b_start_byte chunk, p_delta = chunk_delta chunk,
     p_length = b_length chunk, p_sha256 = b_chunk_sha256 chunk, p_residual_count = b_residual_count chunk,
     p_residuals = b_residuals chunk, p_reconstructed_hash = b_chunk_sha256 chunk\<rparr>"

lemma compile_chunk_lines: "compile_chunk chunk = block_lines (b_name chunk) (plan_of chunk)"
  by (simp add: compile_chunk_def block_lines_def plan_of_def Let_def)

lemma compile_assembles:
  assumes ok: "container_ok c" and size: "bc_chunk_size c \<le> 65535" and len: "2 * length (bc_chunks c) \<le> 65536"
    and hashes: "\<forall>chunk \<in> set (bc_chunks c). hexdigest (chunk_transformed chunk) = b_chunk_sha256 chunk"
  shows "\<exists>txt. compile_bog_container_to_bogasm c = Inr txt \<and>
    assembles_to txt (map b_name (bc_chunks c)) (map chunk_transformed (bc_chunks c))"
proof -
  let ?cs = "bc_chunks c"
  let ?ps = "map (\<lambda>chunk. (b_name chunk, plan_of chunk)) ?cs"
  have nth: "chunk_ok (?cs ! k) (int k) (sum_list (map b_length (take k ?cs))) (bc_chunk_size c)" if "k < length ?cs" for k
    by (rule container_ok_chunk [OF ok that])
  have packs: "\<forall>(name, plan) \<in> set ?ps. plan_packable name plan"
  proof -
    have "plan_packable (b_name (?cs ! k)) (plan_of (?cs ! k))" if "k < length ?cs" for k
      using nth [OF that] size clean_chunk_names(2) by (simp add: plan_packable_def plan_of_def chunk_ok_def)
    then show ?thesis by (auto simp: in_set_conv_nth)
  qed
  have "yields (plan_of (?cs ! k)) (chunk_transformed (?cs ! k))" if k: "k < length ?cs" for k
  proof -
    obtain data where "synthesize_basis (b_basis (?cs ! k)) (b_start_byte (?cs ! k)) (b_length (?cs ! k)) (chunk_delta (?cs ! k)) = Inr data"
        "chunk_transformed (?cs ! k) = patch_bytes data (b_residuals (?cs ! k))"
      using chunk_ok_synth [OF nth [OF k]] by blast
    moreover have "hexdigest (chunk_transformed (?cs ! k)) = b_chunk_sha256 (?cs ! k)" using hashes k by simp
    ultimately show ?thesis by (auto simp: yields_def plan_of_def)
  qed
  then have yields: "list_all2 (\<lambda>np part. yields (snd np) part) ?ps (map chunk_transformed ?cs)"
    by (simp add: list_all2_conv_all_nth)
  have names: "map fst ?ps = map (\<lambda>k. chunk_name (int k)) [0..<length ?cs]"
  proof (rule nth_equalityI)
    fix k assume "k < length (map fst ?ps)"
    then show "map fst ?ps ! k = map (\<lambda>k. chunk_name (int k)) [0..<length ?cs] ! k"
      using nth [of k] by (simp add: chunk_ok_def)
  qed simp
  have distinct: "distinct (map fst ?ps)" unfolding names by (simp add: distinct_map inj_on_def chunk_name_def)
  let ?cm = "[''# BOG container '' @ bc_format c, ''# vm_format '' @ bc_vm_format c, ''# whole_sha256 '' @ bc_whole_sha256 c,
      ''# chunk_size '' @ str_int (bc_chunk_size c), ''# chunk_count '' @ str_int (bc_chunk_count c),
      ''# total_residual_count '' @ str_int (bc_total_residual_count c)]"
  have "list_all (list_all (\<lambda>c. \<not> is_line_break c)) ?cm"
    using ok clean_line [OF clean_str_int] clean_line [OF clean_sha256]
    by (simp add: container_ok_def BOG_FORMAT_def BOGBIN_FORMAT_def is_line_break_def)
  then have "assembles_to (unlines (?cm @ concat (map (\<lambda>(name, plan). block_lines name plan) ?ps) @ [''EMIT_RECEIPT'', ''HALT'']))
      (map fst ?ps) (map chunk_transformed ?cs)"
    using len by (intro packed_assembles [OF packs yields distinct _ _ _ refl]) simp_all
  moreover have "bogasm_lines c = ?cm @ concat (map (\<lambda>(name, plan). block_lines name plan) ?ps) @ [''EMIT_RECEIPT'', ''HALT'']"
    by (simp add: bogasm_lines_def compile_chunk_lines [abs_def] comp_def)
  moreover have "compile_bog_container_to_bogasm c = Inr (unlines (bogasm_lines c))"
    using ok unfolding compile_bog_container_to_bogasm_def validate_bog_container_iff [symmetric] by simp
  moreover have "map fst ?ps = map b_name ?cs" by (simp add: comp_def)
  ultimately show ?thesis by metis
qed

end
