(* ===== verification/Workspace.thy ===== *)
theory Workspace
  imports Json
begin

text \<open>
  The workspace oracle, \<^verbatim>\<open>src/kernel/tools/gen_v40_workspace_vectors.py\<close>: canonical byte forms and
  digests of a workspace root, its object table and path index, the operation \<open>apply\<close> with every
  rejection it can return, the journal of receipts, and the golden vectors the tool writes for the
  kernel's test suite.

  A dictionary of the source with a fixed set of keys is a record here. An operation's kind stays a
  string, since the source looks it up in a dictionary and raises \<open>KeyError\<close> for any other one. The
  assertion inside \<open>h\<close> (\<open>h32\<close> here) and the overflow of \<open>to_bytes\<close> are branches of the model.
\<close>

section \<open>Data\<close>

record ws_root =
  ws_version :: int
  object_table_hash :: bytes
  path_index_hash :: bytes
  previous_workspace_root :: "bytes option"
  last_operation_receipt :: "bytes option"

record ws_object =
  object_id :: bytes
  object_kind :: string
  content_hash :: bytes
  size_bytes :: int
  created_by_operation :: bytes

record path_entry =
  path_hash :: bytes
  path_len :: nat
  path_bytes :: bytes
  entry_object_id :: bytes

record ws_state =
  st_root :: ws_root
  st_objects :: "ws_object list"
  st_paths :: "path_entry list"
  st_object_count :: nat
  st_path_count :: nat

record ws_op =
  op_version :: int
  op_kind :: string
  old_workspace_root :: bytes
  target_path_hash :: bytes
  input_content_hash :: bytes
  input_size_bytes :: int
  capability_hash :: bytes
  tool_receipt_hash :: bytes

definition ZERO :: bytes where
  "ZERO = replicate 32 0"

definition MAX_OBJECTS :: nat where
  "MAX_OBJECTS = 128"

definition MAX_PATHS :: nat where
  "MAX_PATHS = 128"

definition MAX_PATH_B :: nat where
  "MAX_PATH_B = 256"

definition MAX_CONTENT :: int where
  "MAX_CONTENT = 65536"

definition h32 :: "bytes \<Rightarrow> bytes res" where
  "h32 b = (if length b = 32 then Inr b else Inl AssertionError)"

definition cap_sentinel :: "bytes res" where
  "cap_sentinel = h32 (sha256 (utf8 ''CAPv1write:/workspace''))"

section \<open>Canonical bytes and digests\<close>

text \<open>An optional digest: \<open>1 if v else 0\<close> followed by \<open>v or ZERO\<close>, where the empty string counts as absent.\<close>

definition opt_hash_bytes :: "bytes option \<Rightarrow> bytes" where
  "opt_hash_bytes v = (case v of
     None \<Rightarrow> [0] @ ZERO
   | Some x \<Rightarrow> if x = [] then [0] @ ZERO else [1] @ x)"

definition ws_root_bytes :: "ws_root \<Rightarrow> bytes res" where
  "ws_root_bytes r =
    rbind (int_le 4 (ws_version r)) (\<lambda>v.
    Inr (utf8 ''WSROOTv1'' @ v @ object_table_hash r @ path_index_hash r @
      opt_hash_bytes (previous_workspace_root r) @ opt_hash_bytes (last_operation_receipt r)))"

definition ws_root_h :: "ws_root \<Rightarrow> bytes res" where
  "ws_root_h r = rbind (ws_root_bytes r) (\<lambda>b. h32 (sha256 b))"

definition object_row :: "ws_object \<Rightarrow> bytes res" where
  "object_row ob =
    rbind (int_le 8 (size_bytes ob)) (\<lambda>sz.
    Inr ([if object_kind ob = ''File'' then 1 else 2] @ content_hash ob @ sz @ created_by_operation ob))"

definition obj_table_h :: "ws_object list \<Rightarrow> nat \<Rightarrow> bytes res" where
  "obj_table_h objs cnt =
    (if cnt = 0 then h32 (sha256 (utf8 ''WSOBJTABv1''))
     else rbind (map_res object_row (sort_key object_id (take cnt objs))) (\<lambda>rows.
       h32 (sha256 (utf8 ''WSOBJTABv1'' @ concat rows))))"

definition entry_path :: "path_entry \<Rightarrow> bytes" where
  "entry_path e = take (path_len e) (path_bytes e)"

definition path_row :: "path_entry \<Rightarrow> bytes res" where
  "path_row e =
    rbind (int_le 2 (int (path_len e))) (\<lambda>l. Inr (l @ entry_path e @ entry_object_id e))"

definition path_idx_h :: "path_entry list \<Rightarrow> nat \<Rightarrow> bytes res" where
  "path_idx_h ps cnt =
    (if cnt = 0 then h32 (sha256 (utf8 ''WSPATHIDXv1''))
     else rbind (map_res path_row (sort_key (\<lambda>e. (entry_path e, path_len e)) (take cnt ps))) (\<lambda>rows.
       h32 (sha256 (utf8 ''WSPATHIDXv1'' @ concat rows))))"

definition op_kind_byte :: "string \<Rightarrow> byte res" where
  "op_kind_byte k =
    (if k = ''CreateFile'' then Inr 1
     else if k = ''EditFile'' then Inr 2
     else if k = ''CreateDirectory'' then Inr 3
     else Inl (KeyError k))"

definition op_payload :: "ws_op \<Rightarrow> bytes \<Rightarrow> bytes res" where
  "op_payload oper tp =
    (if length tp > MAX_PATH_B then Inl (ValueError [])
     else rbind (int_le 4 (op_version oper)) (\<lambda>v.
       rbind (op_kind_byte (op_kind oper)) (\<lambda>kb.
       rbind (int_le 8 (input_size_bytes oper)) (\<lambda>sz.
       Inr (utf8 ''WSOPv1'' @ v @ [kb] @ old_workspace_root oper @ (tp @ replicate (256 - length tp) 0) @
         input_content_hash oper @ sz @ capability_hash oper @ tool_receipt_hash oper)))))"

definition op_h :: "ws_op \<Rightarrow> bytes \<Rightarrow> bytes res" where
  "op_h oper tp = rbind (op_payload oper tp) (\<lambda>b. h32 (sha256 b))"

definition mk_obj :: "string \<Rightarrow> bytes \<Rightarrow> int \<Rightarrow> bytes \<Rightarrow> ws_object res" where
  "mk_obj kind ch sz cby =
    rbind (int_le 8 sz) (\<lambda>s.
    rbind (h32 (sha256 ([if kind = ''File'' then 1 else 2] @ ch @ s @ cby))) (\<lambda>oid.
    Inr \<lparr>object_id = oid, object_kind = kind, content_hash = ch, size_bytes = sz, created_by_operation = cby\<rparr>))"

definition mk_pe :: "bytes \<Rightarrow> bytes \<Rightarrow> path_entry res" where
  "mk_pe p oid =
    rbind (h32 (sha256 p)) (\<lambda>ph.
    Inr \<lparr>path_hash = ph, path_len = length p, path_bytes = p @ replicate (256 - length p) 0, entry_object_id = oid\<rparr>)"

definition mk_init :: "ws_state res" where
  "mk_init =
    rbind (obj_table_h [] 0) (\<lambda>eot.
    rbind (path_idx_h [] 0) (\<lambda>epi.
    Inr \<lparr>st_root = \<lparr>ws_version = 1, object_table_hash = eot, path_index_hash = epi,
            previous_workspace_root = None, last_operation_receipt = None\<rparr>,
         st_objects = [], st_paths = [], st_object_count = 0, st_path_count = 0\<rparr>))"

section \<open>The genesis root\<close>

definition GENESIS_MAGIC :: bytes where
  "GENESIS_MAGIC = utf8 ''BOGGEN40''"

definition EMPTY_PACKAGE_REGISTRY_ROOT :: bytes where
  "EMPTY_PACKAGE_REGISTRY_ROOT = replicate 32 1"

definition EMPTY_CAPABILITY_POLICY_ROOT :: bytes where
  "EMPTY_CAPABILITY_POLICY_ROOT = replicate 32 2"

definition EMPTY_LEDGER_ROOT :: bytes where
  "EMPTY_LEDGER_ROOT = replicate 32 3"

definition EMPTY_APP_REGISTRY_ROOT :: bytes where
  "EMPTY_APP_REGISTRY_ROOT = replicate 32 4"

definition EMPTY_VERIFIER_REGISTRY_ROOT :: bytes where
  "EMPTY_VERIFIER_REGISTRY_ROOT = replicate 32 5"

definition genesis_root_bytes :: "bytes \<Rightarrow> bytes option \<Rightarrow> bytes" where
  "genesis_root_bytes ws_root_hash boot_claim =
    utf8 ''GENROOTv1'' @ GENESIS_MAGIC @ to_bytes_le 4 1 @ EMPTY_LEDGER_ROOT @ ws_root_hash @
    EMPTY_PACKAGE_REGISTRY_ROOT @ EMPTY_CAPABILITY_POLICY_ROOT @ EMPTY_LEDGER_ROOT @
    EMPTY_APP_REGISTRY_ROOT @ EMPTY_VERIFIER_REGISTRY_ROOT @
    (case boot_claim of None \<Rightarrow> replicate 32 0 | Some b \<Rightarrow> b)"

definition genesis_root_hash :: "bytes \<Rightarrow> bytes option \<Rightarrow> bytes" where
  "genesis_root_hash ws_root_hash boot_claim = sha256 (genesis_root_bytes ws_root_hash boot_claim)"

section \<open>The journal\<close>

record journal_entry =
  j_seq :: int
  j_prev :: bytes
  j_op_hash :: bytes
  j_old :: bytes
  j_new :: bytes
  j_verifier :: bytes
  j_accepted :: bool

definition journal_entry_bytes :: "journal_entry \<Rightarrow> bytes res" where
  "journal_entry_bytes e =
    rbind (int_le 8 (j_seq e)) (\<lambda>s.
    Inr (utf8 ''JRNLv41'' @ s @ j_prev e @ to_bytes_le 4 1 @ j_op_hash e @ j_old e @ j_new e @
      j_verifier e @ [if j_accepted e then 1 else 0] @ j_new e))"

definition journal_entry_hash :: "journal_entry \<Rightarrow> bytes res" where
  "journal_entry_hash e = rbind (journal_entry_bytes e) (\<lambda>b. Inr (sha256 b))"

definition append_journal ::
  "bytes \<Rightarrow> int \<Rightarrow> bytes \<Rightarrow> bytes \<Rightarrow> bytes \<Rightarrow> bytes \<Rightarrow> bool \<Rightarrow> bytes res" where
  "append_journal prev_head seq op_hash old_root new_root verifier accepted =
    journal_entry_hash \<lparr>j_seq = seq, j_prev = prev_head, j_op_hash = op_hash, j_old = old_root,
      j_new = new_root, j_verifier = verifier, j_accepted = accepted\<rparr>"

text \<open>The loop over the reversed entries carries the digest the next older entry must have.\<close>

fun verify_journal_loop :: "bytes \<Rightarrow> journal_entry list \<Rightarrow> bool res" where
  "verify_journal_loop current [] = Inr True"
| "verify_journal_loop current (e # es) =
    rbind (journal_entry_hash e) (\<lambda>eh.
    if eh \<noteq> current then Inr False else verify_journal_loop (j_prev e) es)"

definition verify_journal_chain :: "bytes \<Rightarrow> journal_entry list \<Rightarrow> bool res" where
  "verify_journal_chain head entries = verify_journal_loop head (rev entries)"

definition create_rollback_journal_entry :: "bytes \<Rightarrow> int \<Rightarrow> bytes \<Rightarrow> bytes \<Rightarrow> bytes \<Rightarrow> bytes res" where
  "create_rollback_journal_entry prev_head seq current_root target_root verifier =
    append_journal prev_head seq (sha256 (utf8 ''v41-rollback-op'')) current_root target_root verifier True"

section \<open>Operations on the workspace\<close>

text \<open>The loop of \<open>find_p\<close> runs \<open>i\<close> over \<open>range(path_count)\<close> and indexes the list of paths.\<close>

function find_from :: "path_entry list \<Rightarrow> nat \<Rightarrow> nat \<Rightarrow> bytes \<Rightarrow> nat option res" where
  "find_from ps cnt i tp =
    (if i < cnt then
       (if i < length ps then
          (let e = ps ! i in
           if path_len e = length tp \<and> entry_path e = tp then Inr (Some i) else find_from ps cnt (Suc i) tp)
        else Inl IndexError)
     else Inr None)"
  by pat_completeness auto

termination find_from
  by (relation "measure (\<lambda>(ps, cnt, i, tp). cnt - i)") auto

declare find_from.simps [simp del]

definition find_p :: "ws_state \<Rightarrow> bytes \<Rightarrow> nat option res" where
  "find_p st tp = find_from (st_paths st) (st_path_count st) 0 tp"

definition create_entry :: "ws_state \<Rightarrow> ws_op \<Rightarrow> bytes \<Rightarrow> bytes \<Rightarrow> ws_state res" where
  "create_entry ns oper tp oph =
    rbind (mk_obj (if op_kind oper = ''CreateFile'' then ''File'' else ''Directory'')
            (input_content_hash oper) (input_size_bytes oper) oph) (\<lambda>no.
    rbind (mk_pe tp (object_id no)) (\<lambda>pe.
    Inr (ns\<lparr>st_objects := st_objects ns @ [no], st_object_count := st_object_count ns + 1,
            st_paths := st_paths ns @ [pe], st_path_count := st_path_count ns + 1\<rparr>)))"

definition edit_entry :: "ws_state \<Rightarrow> ws_op \<Rightarrow> nat \<Rightarrow> bytes \<Rightarrow> ws_state res" where
  "edit_entry ns oper ex oph =
    rbind (mk_obj ''File'' (input_content_hash oper) (input_size_bytes oper) oph) (\<lambda>no.
    Inr (ns\<lparr>st_objects := st_objects ns @ [no], st_object_count := st_object_count ns + 1,
            st_paths := (st_paths ns)[ex := (st_paths ns ! ex)\<lparr>entry_object_id := object_id no\<rparr>]\<rparr>))"

definition seal_root :: "ws_state \<Rightarrow> bytes \<Rightarrow> bytes \<Rightarrow> ws_state res" where
  "seal_root ns oldh oph =
    rbind (obj_table_h (st_objects ns) (st_object_count ns)) (\<lambda>ot.
    rbind (path_idx_h (st_paths ns) (st_path_count ns)) (\<lambda>pih.
    Inr (ns\<lparr>st_root := (st_root ns)\<lparr>previous_workspace_root := Some oldh, last_operation_receipt := Some oph,
            object_table_hash := ot, path_index_hash := pih\<rparr>\<rparr>)))"

type_synonym apply_result = "ws_state \<times> bool \<times> string option"

definition ws_accept :: "bytes \<Rightarrow> bytes \<Rightarrow> ws_state res \<Rightarrow> apply_result res" where
  "ws_accept oldh oph m = rbind m (\<lambda>ns. rbind (seal_root ns oldh oph) (\<lambda>ns'. Inr (ns', True, None)))"

definition ws_apply :: "ws_state \<Rightarrow> ws_op \<Rightarrow> bytes \<Rightarrow> apply_result res" where
  "ws_apply st oper tp =
    rbind (ws_root_h (st_root st)) (\<lambda>oldh.
    if oldh \<noteq> old_workspace_root oper then Inr (st, False, Some ''InvalidOldRoot'')
    else if length tp > MAX_PATH_B then Inr (st, False, Some ''PathTooLong'')
    else if length tp = 0 then Inr (st, False, Some ''PathEmpty'')
    else if input_size_bytes oper > MAX_CONTENT then Inr (st, False, Some ''ContentTooLarge'')
    else rbind cap_sentinel (\<lambda>cap.
    if capability_hash oper \<noteq> cap then Inr (st, False, Some ''InvalidCapability'')
    else rbind (h32 (sha256 tp)) (\<lambda>cph.
    if cph \<noteq> target_path_hash oper then Inr (st, False, Some ''PathNotFound'')
    else rbind (op_h oper tp) (\<lambda>oph.
    rbind (find_p st tp) (\<lambda>ex.
    if op_kind oper \<in> {''CreateFile'', ''CreateDirectory''} then
      (if ex \<noteq> None then Inr (st, False, Some ''PathAlreadyExists'')
       else if st_path_count st \<ge> MAX_PATHS \<or> st_object_count st \<ge> MAX_OBJECTS
       then Inr (st, False, Some ''NoSlotsAvailable'')
       else ws_accept oldh oph (create_entry st oper tp oph))
    else if op_kind oper = ''EditFile'' then
      (case ex of
         None \<Rightarrow> Inr (st, False, Some ''PathNotFound'')
       | Some i \<Rightarrow>
           if st_object_count st \<ge> MAX_OBJECTS then Inr (st, False, Some ''NoSlotsAvailable'')
           else ws_accept oldh oph (edit_entry st oper i oph))
    else ws_accept oldh oph (Inr st))))))"

end
