(* ===== verification/Workspace_Correct.thy ===== *)
theory Workspace_Correct
  imports Workspace
begin

text \<open>
  Correctness of the workspace oracle. A well-formed state (\<open>ws_ok\<close>) keeps its counters equal to the
  lengths of its tables, its paths distinct, every entry bound to an object whose identifier is the
  digest of its fields, and the two table digests of its root up to date. \<open>ws_spec\<close> is the abstract
  machine: a map from paths to object identifiers and a list of objects. The operation of the source
  refines it on every branch. The last section shows what a root digest and a journal head commit to.
\<close>

section \<open>Digests and encodings\<close>

lemma h32_sha256 [simp, res_simps]: "h32 (sha256 m) = Inr (sha256 m)"
  by (simp add: h32_def)

lemma cap_sentinel_eq [simp, res_simps]: "cap_sentinel = Inr (sha256 (utf8 ''CAPv1write:/workspace''))"
  by (simp add: cap_sentinel_def)

definition kind_byte :: "string \<Rightarrow> byte" where
  "kind_byte k = (if k = ''File'' then 1 else 2)"

text \<open>The bytes a table hashes for one object, when its size fits eight bytes.\<close>

definition object_image :: "ws_object \<Rightarrow> bytes" where
  "object_image ob = kind_byte (object_kind ob) # content_hash ob @ to_bytes_le 8 (nat (size_bytes ob)) @
     created_by_operation ob"

definition entry_image :: "path_entry \<Rightarrow> bytes" where
  "entry_image e = to_bytes_le 2 (path_len e) @ entry_path e @ entry_object_id e"

definition object_ok :: "ws_object \<Rightarrow> bool" where
  "object_ok ob \<longleftrightarrow> object_kind ob \<in> {''File'', ''Directory''} \<and> length (content_hash ob) = 32 \<and>
     0 \<le> size_bytes ob \<and> size_bytes ob \<le> MAX_CONTENT \<and> length (created_by_operation ob) = 32 \<and>
     object_id ob = sha256 (object_image ob)"

definition entry_ok :: "ws_object list \<Rightarrow> path_entry \<Rightarrow> bool" where
  "entry_ok objs e \<longleftrightarrow> 1 \<le> path_len e \<and> path_len e \<le> MAX_PATH_B \<and>
     path_bytes e = entry_path e @ replicate (256 - path_len e) 0 \<and> length (path_bytes e) = 256 \<and>
     path_hash e = sha256 (entry_path e) \<and> entry_object_id e \<in> object_id ` set objs"

lemma object_row_ok: "object_ok ob \<Longrightarrow> object_row ob = Inr (object_image ob)"
  by (simp add: object_ok_def object_row_def object_image_def kind_byte_def int_le_def MAX_CONTENT_def)

lemma entry_path_length: "entry_ok objs e \<Longrightarrow> length (entry_path e) = path_len e"
  by (simp add: entry_ok_def entry_path_def MAX_PATH_B_def)

lemma path_row_ok: "entry_ok objs e \<Longrightarrow> path_row e = Inr (entry_image e)"
  by (simp add: entry_ok_def path_row_def entry_image_def int_le_def MAX_PATH_B_def)

definition object_table_message :: "ws_object list \<Rightarrow> bytes" where
  "object_table_message objs = utf8 ''WSOBJTABv1'' @ concat (map object_image (sort_key object_id objs))"

definition path_index_message :: "path_entry list \<Rightarrow> bytes" where
  "path_index_message ps =
     utf8 ''WSPATHIDXv1'' @ concat (map entry_image (sort_key (\<lambda>e. (entry_path e, path_len e)) ps))"

lemma obj_table_h_ok:
  assumes "\<forall>ob \<in> set objs. object_ok ob"
  shows "obj_table_h objs (length objs) = Inr (sha256 (object_table_message objs))"
proof -
  have "map_res object_row (sort_key object_id objs) = Inr (map object_image (sort_key object_id objs))"
    using assms by (intro map_res_total object_row_ok) simp
  then show ?thesis by (simp add: obj_table_h_def object_table_message_def)
qed

lemma path_idx_h_ok:
  assumes "\<forall>e \<in> set ps. entry_ok objs e"
  shows "path_idx_h ps (length ps) = Inr (sha256 (path_index_message ps))"
proof -
  let ?s = "sort_key (\<lambda>e. (entry_path e, path_len e)) ps"
  have "map_res path_row ?s = Inr (map entry_image ?s)"
    using assms by (intro map_res_total path_row_ok [of objs]) simp
  then show ?thesis by (simp add: path_idx_h_def path_index_message_def)
qed

section \<open>The invariant\<close>

definition opt_hash_ok :: "bytes option \<Rightarrow> bool" where
  "opt_hash_ok v \<longleftrightarrow> (case v of None \<Rightarrow> True | Some x \<Rightarrow> length x = 32)"

definition root_ok :: "ws_root \<Rightarrow> bool" where
  "root_ok r \<longleftrightarrow> ws_version r = 1 \<and> length (object_table_hash r) = 32 \<and> length (path_index_hash r) = 32 \<and>
     opt_hash_ok (previous_workspace_root r) \<and> opt_hash_ok (last_operation_receipt r)"

definition tables_ok :: "ws_state \<Rightarrow> bool" where
  "tables_ok st \<longleftrightarrow> st_object_count st = length (st_objects st) \<and> st_path_count st = length (st_paths st) \<and>
     length (st_objects st) \<le> MAX_OBJECTS \<and> length (st_paths st) \<le> length (st_objects st) \<and>
     (\<forall>ob \<in> set (st_objects st). object_ok ob) \<and>
     (\<forall>e \<in> set (st_paths st). entry_ok (st_objects st) e) \<and> distinct (map entry_path (st_paths st))"

definition sealed :: "ws_state \<Rightarrow> bool" where
  "sealed st \<longleftrightarrow> object_table_hash (st_root st) = sha256 (object_table_message (st_objects st)) \<and>
     path_index_hash (st_root st) = sha256 (path_index_message (st_paths st))"

definition ws_ok :: "ws_state \<Rightarrow> bool" where
  "ws_ok st \<longleftrightarrow> root_ok (st_root st) \<and> tables_ok st \<and> sealed st"

lemma mk_init_ok: "\<exists>st. mk_init = Inr st \<and> ws_ok st \<and> st_paths st = [] \<and> st_objects st = []"
  by (simp add: mk_init_def ws_ok_def root_ok_def tables_ok_def sealed_def obj_table_h_def path_idx_h_def
      opt_hash_ok_def MAX_OBJECTS_def MAX_PATHS_def object_table_message_def path_index_message_def)

lemma mk_init_ok_state: "mk_init = Inr st \<Longrightarrow> ws_ok st \<and> st_paths st = [] \<and> st_objects st = []"
  using mk_init_ok by (metis sum.inject(2))

definition root_image :: "ws_root \<Rightarrow> bytes" where
  "root_image r = utf8 ''WSROOTv1'' @ to_bytes_le 4 1 @ object_table_hash r @ path_index_hash r @
     opt_hash_bytes (previous_workspace_root r) @ opt_hash_bytes (last_operation_receipt r)"

lemma ws_root_h_ok: "root_ok r \<Longrightarrow> ws_root_h r = Inr (sha256 (root_image r))"
  by (simp add: ws_root_h_def ws_root_bytes_def root_ok_def root_image_def int_le_def)

section \<open>Looking up a path\<close>

lemma find_from_total:
  "\<exists>r. find_from ps (length ps) i tp = Inr r \<and>
     (case r of
        None \<Rightarrow> \<forall>j. i \<le> j \<and> j < length ps \<longrightarrow> \<not> (path_len (ps ! j) = length tp \<and> entry_path (ps ! j) = tp)
      | Some j \<Rightarrow> j < length ps \<and> entry_path (ps ! j) = tp)"
proof (induction "length ps - i" arbitrary: i)
  case 0
  then show ?case by (subst find_from.simps) auto
next
  case (Suc k)
  then have "i < length ps" by simp
  show ?case
  proof (cases "path_len (ps ! i) = length tp \<and> entry_path (ps ! i) = tp")
    case True
    then show ?thesis using \<open>i < length ps\<close> by (subst find_from.simps) auto
  next
    case False
    have "k = length ps - Suc i" using Suc by simp
    then obtain r where r: "find_from ps (length ps) (Suc i) tp = Inr r"
      "case r of None \<Rightarrow> \<forall>j. Suc i \<le> j \<and> j < length ps \<longrightarrow> \<not> (path_len (ps ! j) = length tp \<and> entry_path (ps ! j) = tp)
        | Some j \<Rightarrow> j < length ps \<and> entry_path (ps ! j) = tp"
      using Suc.hyps(1) [of "Suc i"] by auto
    have "find_from ps (length ps) i tp = Inr r"
      using False \<open>i < length ps\<close> r(1) by (subst find_from.simps) (auto simp: Let_def)
    moreover have "j = i \<or> Suc i \<le> j" if "i \<le> j" for j using that by linarith
    ultimately show ?thesis using r(2) False by (intro exI [of _ r]) (auto split: option.splits)
  qed
qed

text \<open>What a state says of a path: the identifier of the object bound to it.\<close>

definition ws_lookup :: "ws_state \<Rightarrow> bytes \<Rightarrow> bytes option" where
  "ws_lookup st = map_of (map (\<lambda>e. (entry_path e, entry_object_id e)) (st_paths st))"

lemma ws_lookup_None: "ws_lookup st tp = None \<longleftrightarrow> tp \<notin> entry_path ` set (st_paths st)"
  by (auto simp: ws_lookup_def map_of_eq_None_iff image_image)

lemma find_p_ok:
  assumes "tables_ok st"
  shows "\<exists>r. find_p st tp = Inr r \<and>
    (case r of None \<Rightarrow> ws_lookup st tp = None
     | Some i \<Rightarrow> i < length (st_paths st) \<and> entry_path (st_paths st ! i) = tp \<and> ws_lookup st tp \<noteq> None)"
proof -
  let ?ps = "st_paths st"
  have cnt: "st_path_count st = length ?ps" and ok: "\<forall>e \<in> set ?ps. entry_ok (st_objects st) e"
    using assms by (simp_all add: tables_ok_def)
  obtain r where r: "find_from ?ps (length ?ps) 0 tp = Inr r"
    "case r of None \<Rightarrow> \<forall>j. 0 \<le> j \<and> j < length ?ps \<longrightarrow> \<not> (path_len (?ps ! j) = length tp \<and> entry_path (?ps ! j) = tp)
      | Some j \<Rightarrow> j < length ?ps \<and> entry_path (?ps ! j) = tp"
    using find_from_total [of ?ps 0 tp] by auto
  have "find_p st tp = Inr r" by (simp add: find_p_def cnt r(1))
  moreover have "case r of None \<Rightarrow> ws_lookup st tp = None
     | Some i \<Rightarrow> i < length ?ps \<and> entry_path (?ps ! i) = tp \<and> ws_lookup st tp \<noteq> None"
  proof (cases r)
    case None
    have "entry_path e \<noteq> tp" if "e \<in> set ?ps" for e
      using that ok r(2) None entry_path_length by (fastforce simp: in_set_conv_nth)
    then show ?thesis using None by (auto simp: ws_lookup_None)
  next
    case (Some i)
    then show ?thesis using r(2) by (auto simp: ws_lookup_None dest: nth_mem)
  qed
  ultimately show ?thesis by blast
qed

section \<open>The abstract machine\<close>

text \<open>
  The abstract state is the digest of the root, a map from paths to object identifiers and the
  objects created so far. Creating and editing both create one object and bind the path to it.
\<close>

record ws_view =
  v_root :: bytes
  v_map :: "bytes \<rightharpoonup> bytes"
  v_objects :: "ws_object list"

definition ws_abs :: "ws_state \<Rightarrow> ws_view" where
  "ws_abs st = \<lparr>v_root = sha256 (root_image (st_root st)), v_map = ws_lookup st, v_objects = st_objects st\<rparr>"

definition spec_guard :: "ws_view \<Rightarrow> ws_op \<Rightarrow> bytes \<Rightarrow> string option" where
  "spec_guard v oper tp =
    (if v_root v \<noteq> old_workspace_root oper then Some ''InvalidOldRoot''
     else if length tp > 256 then Some ''PathTooLong''
     else if tp = [] then Some ''PathEmpty''
     else if input_size_bytes oper > 65536 then Some ''ContentTooLarge''
     else if capability_hash oper \<noteq> sha256 (utf8 ''CAPv1write:/workspace'') then Some ''InvalidCapability''
     else if target_path_hash oper \<noteq> sha256 tp then Some ''PathNotFound''
     else None)"

definition spec_reject :: "ws_view \<Rightarrow> ws_op \<Rightarrow> bytes \<Rightarrow> string option" where
  "spec_reject v oper tp = (case spec_guard v oper tp of
     Some e \<Rightarrow> Some e
   | None \<Rightarrow>
       if op_kind oper = ''EditFile'' \<and> v_map v tp = None then Some ''PathNotFound''
       else if op_kind oper \<noteq> ''EditFile'' \<and> v_map v tp \<noteq> None then Some ''PathAlreadyExists''
       else if length (v_objects v) \<ge> 128 then Some ''NoSlotsAvailable''
       else None)"

text \<open>The digest of the canonical operation, for an operation whose integers fit their fields.\<close>

definition op_image :: "ws_op \<Rightarrow> bytes \<Rightarrow> bytes" where
  "op_image oper tp = utf8 ''WSOPv1'' @ to_bytes_le 4 (nat (op_version oper)) @
     [if op_kind oper = ''CreateFile'' then 1 else if op_kind oper = ''EditFile'' then 2 else 3] @
     old_workspace_root oper @ (tp @ replicate (256 - length tp) 0) @ input_content_hash oper @
     to_bytes_le 8 (nat (input_size_bytes oper)) @ capability_hash oper @ tool_receipt_hash oper"

definition new_object :: "ws_op \<Rightarrow> bytes \<Rightarrow> ws_object" where
  "new_object oper tp =
    (let kind = (if op_kind oper = ''CreateDirectory'' then ''Directory'' else ''File'');
         by_op = sha256 (op_image oper tp)
     in \<lparr>object_id = sha256 (kind_byte kind # input_content_hash oper @
             to_bytes_le 8 (nat (input_size_bytes oper)) @ by_op),
         object_kind = kind, content_hash = input_content_hash oper,
         size_bytes = input_size_bytes oper, created_by_operation = by_op\<rparr>)"

definition op_ok :: "ws_op \<Rightarrow> bool" where
  "op_ok oper \<longleftrightarrow> 0 \<le> op_version oper \<and> op_version oper < 2 ^ 32 \<and>
     op_kind oper \<in> {''CreateFile'', ''EditFile'', ''CreateDirectory''} \<and>
     0 \<le> input_size_bytes oper \<and> length (input_content_hash oper) = 32"

definition sealed_root :: "ws_state \<Rightarrow> bytes \<Rightarrow> bytes \<Rightarrow> ws_root" where
  "sealed_root ns oldh oph = (st_root ns)\<lparr>previous_workspace_root := Some oldh, last_operation_receipt := Some oph,
     object_table_hash := sha256 (object_table_message (st_objects ns)),
     path_index_hash := sha256 (path_index_message (st_paths ns))\<rparr>"

lemma op_h_ok:
  assumes "op_ok oper" and "length tp \<le> 256" and "input_size_bytes oper \<le> 65536"
  shows "op_h oper tp = Inr (sha256 (op_image oper tp))"
  using assms
  by (auto simp: op_h_def op_payload_def op_ok_def int_le_def op_kind_byte_def op_image_def MAX_PATH_B_def)

lemma seal_root_ok:
  assumes "tables_ok ns"
  shows "seal_root ns oldh oph = Inr (ns\<lparr>st_root := sealed_root ns oldh oph\<rparr>)"
proof -
  have "obj_table_h (st_objects ns) (st_object_count ns) = Inr (sha256 (object_table_message (st_objects ns)))"
    using assms obj_table_h_ok by (simp add: tables_ok_def)
  moreover have "path_idx_h (st_paths ns) (st_path_count ns) = Inr (sha256 (path_index_message (st_paths ns)))"
    using assms path_idx_h_ok [of "st_paths ns" "st_objects ns"] by (simp add: tables_ok_def)
  ultimately show ?thesis by (simp add: seal_root_def sealed_root_def)
qed

lemma sealed_ok:
  assumes "root_ok (st_root ns)" and "tables_ok ns" and "length oldh = 32" and "length oph = 32"
  shows "ws_ok (ns\<lparr>st_root := sealed_root ns oldh oph\<rparr>)"
  using assms by (simp add: ws_ok_def root_ok_def sealed_root_def sealed_def opt_hash_ok_def tables_ok_def)

text \<open>The two ways the tables grow: a new object with a new path, or a new object under an old path.\<close>

lemma new_object_ok:
  assumes "op_ok oper" and "input_size_bytes oper \<le> 65536"
  shows "object_ok (new_object oper tp)"
  using assms by (simp add: object_ok_def new_object_def Let_def op_ok_def MAX_CONTENT_def object_image_def)

lemma mk_obj_new:
  assumes "op_ok oper" and "input_size_bytes oper \<le> 65536"
    and "kind = (if op_kind oper = ''CreateDirectory'' then ''Directory'' else ''File'')"
  shows "mk_obj kind (input_content_hash oper) (input_size_bytes oper) (sha256 (op_image oper tp)) = Inr (new_object oper tp)"
  using assms by (simp add: mk_obj_def new_object_def Let_def op_ok_def int_le_def kind_byte_def)

lemma tables_entry: "tables_ok st \<Longrightarrow> e \<in> set (st_paths st) \<Longrightarrow> entry_ok (st_objects st @ [ob]) e"
  unfolding tables_ok_def entry_ok_def by force

definition created :: "ws_state \<Rightarrow> ws_op \<Rightarrow> bytes \<Rightarrow> ws_state" where
  "created st oper tp = st\<lparr>st_objects := st_objects st @ [new_object oper tp],
     st_object_count := st_object_count st + 1,
     st_paths := st_paths st @ [\<lparr>path_hash = sha256 tp, path_len = length tp,
       path_bytes = tp @ replicate (256 - length tp) 0, entry_object_id = object_id (new_object oper tp)\<rparr>],
     st_path_count := st_path_count st + 1\<rparr>"

definition edited :: "ws_state \<Rightarrow> ws_op \<Rightarrow> bytes \<Rightarrow> nat \<Rightarrow> ws_state" where
  "edited st oper tp i = st\<lparr>st_objects := st_objects st @ [new_object oper tp],
     st_object_count := st_object_count st + 1,
     st_paths := (st_paths st)[i := (st_paths st ! i)\<lparr>entry_object_id := object_id (new_object oper tp)\<rparr>]\<rparr>"

lemma created_tables:
  assumes "tables_ok st" and "op_ok oper" and "input_size_bytes oper \<le> 65536" and "tp \<noteq> []" and "length tp \<le> 256"
    and "ws_lookup st tp = None" and "length (st_objects st) < 128"
  shows "tables_ok (created st oper tp)"
proof -
  have new: "object_ok (new_object oper tp)" using assms(2,3) by (rule new_object_ok)
  have ent: "entry_ok (st_objects st @ [new_object oper tp]) e" if "e \<in> set (st_paths st)" for e
    using assms(1) that by (rule tables_entry)
  have fresh: "tp \<notin> entry_path ` set (st_paths st)" using assms(6) by (simp add: ws_lookup_None)
  show ?thesis using assms(1,4,5,7) new ent fresh
    by (cases tp) (auto simp: tables_ok_def created_def entry_ok_def entry_path_def MAX_PATH_B_def MAX_OBJECTS_def)
qed

lemma ws_lookup_created: "ws_lookup st tp = None \<Longrightarrow>
   ws_lookup (created st oper tp) = (ws_lookup st)(tp \<mapsto> object_id (new_object oper tp))"
  by (auto simp: ws_lookup_def created_def entry_path_def map_add_def fun_eq_iff split: option.splits)

lemma edited_paths:
  assumes "i < length (st_paths st)"
  shows "map entry_path (st_paths (edited st oper tp i)) = map entry_path (st_paths st)"
proof -
  have upd: "entry_path (e\<lparr>entry_object_id := oid\<rparr>) = entry_path e" for e :: path_entry and oid
    by (simp add: entry_path_def)
  show ?thesis using assms by (simp add: edited_def map_update upd) (metis length_map list_update_id nth_map)
qed

lemma edited_tables:
  assumes "tables_ok st" and "op_ok oper" and "input_size_bytes oper \<le> 65536"
    and "i < length (st_paths st)" and "length (st_objects st) < 128"
  shows "tables_ok (edited st oper tp i)"
proof -
  let ?no = "new_object oper tp"
  have new: "object_ok ?no" using assms(2,3) by (rule new_object_ok)
  have old: "entry_ok (st_objects st @ [?no]) e" if "e \<in> set (st_paths st)" for e
    using assms(1) that by (rule tables_entry)
  have "entry_ok (st_objects st @ [?no]) ((st_paths st ! i)\<lparr>entry_object_id := object_id ?no\<rparr>)"
    using old [OF nth_mem [OF assms(4)]] by (simp add: entry_ok_def entry_path_def)
  then have ent: "\<forall>e \<in> set (st_paths (edited st oper tp i)). entry_ok (st_objects st @ [?no]) e"
    using old set_update_subset_insert [of "st_paths st" i] by (auto simp: edited_def)
  show ?thesis using assms(1,5) new ent edited_paths [OF assms(4), of oper tp]
    by (simp add: tables_ok_def MAX_OBJECTS_def) (auto simp: edited_def)
qed

lemma map_of_list_update:
  assumes "distinct (map f xs)" and "i < length xs" and "f y = f (xs ! i)"
  shows "map_of (map (\<lambda>e. (f e, g e)) (xs[i := y])) = (map_of (map (\<lambda>e. (f e, g e)) xs))(f y \<mapsto> g y)"
  using assms
proof (induction xs arbitrary: i)
  case (Cons x xs)
  show ?case
  proof (cases i)
    case 0
    then show ?thesis using Cons.prems by (auto simp: fun_eq_iff)
  next
    case (Suc j)
    then have "f x \<noteq> f y" using Cons.prems by (metis distinct.simps(2) image_eqI length_Cons list.set_map list.simps(9) not_less_eq nth_Cons_Suc nth_mem)
    then show ?thesis using Cons Suc by (auto simp: fun_eq_iff)
  qed
qed simp

lemma ws_lookup_edited:
  assumes "tables_ok st" and "i < length (st_paths st)" and "entry_path (st_paths st ! i) = tp"
  shows "ws_lookup (edited st oper tp i) = (ws_lookup st)(tp \<mapsto> object_id (new_object oper tp))"
proof -
  let ?y = "(st_paths st ! i)\<lparr>entry_object_id := object_id (new_object oper tp)\<rparr>"
  have "entry_path ?y = tp" using assms(3) by (simp add: entry_path_def)
  then show ?thesis
    using map_of_list_update [of entry_path "st_paths st" i ?y entry_object_id] assms
    by (simp add: ws_lookup_def edited_def tables_ok_def)
qed

section \<open>The operation refines the abstract machine\<close>

text \<open>The guards before the operation is hashed are the abstract ones.\<close>

lemma guard_rejects:
  assumes "ws_ok st" and "spec_guard (ws_abs st) oper tp = Some e"
  shows "ws_apply st oper tp = Inr (st, False, Some e)"
  using assms by (auto simp: ws_apply_def ws_ok_def ws_root_h_ok spec_guard_def ws_abs_def MAX_PATH_B_def MAX_CONTENT_def
      split: if_splits)

lemma guard_passes:
  assumes "ws_ok st" and "spec_guard (ws_abs st) oper tp = None"
  shows "tp \<noteq> []" and "length tp \<le> 256" and "input_size_bytes oper \<le> 65536"
    and "old_workspace_root oper = sha256 (root_image (st_root st))"
    and "ws_apply st oper tp = rbind (op_h oper tp) (\<lambda>oph. rbind (find_p st tp) (\<lambda>ex.
      if op_kind oper \<in> {''CreateFile'', ''CreateDirectory''} then
        (if ex \<noteq> None then Inr (st, False, Some ''PathAlreadyExists'')
         else if st_path_count st \<ge> MAX_PATHS \<or> st_object_count st \<ge> MAX_OBJECTS
         then Inr (st, False, Some ''NoSlotsAvailable'')
         else ws_accept (sha256 (root_image (st_root st))) oph (create_entry st oper tp oph))
      else if op_kind oper = ''EditFile'' then
        (case ex of
           None \<Rightarrow> Inr (st, False, Some ''PathNotFound'')
         | Some i \<Rightarrow>
             if st_object_count st \<ge> MAX_OBJECTS then Inr (st, False, Some ''NoSlotsAvailable'')
             else ws_accept (sha256 (root_image (st_root st))) oph (edit_entry st oper i oph))
      else ws_accept (sha256 (root_image (st_root st))) oph (Inr st)))"
  using assms by (auto simp: ws_apply_def ws_ok_def ws_root_h_ok spec_guard_def ws_abs_def MAX_PATH_B_def MAX_CONTENT_def
      split: if_splits)

definition accepted_state :: "ws_state \<Rightarrow> ws_op \<Rightarrow> bytes \<Rightarrow> ws_state \<Rightarrow> ws_state" where
  "accepted_state st oper tp ns =
     ns\<lparr>st_root := sealed_root ns (sha256 (root_image (st_root st))) (sha256 (op_image oper tp))\<rparr>"

lemma accept_tables:
  assumes "ws_ok st" and "tables_ok ns" and "st_root ns = st_root st"
  shows "ws_accept (sha256 (root_image (st_root st))) (sha256 (op_image oper tp)) (Inr ns) =
      Inr (accepted_state st oper tp ns, True, None)"
    and "ws_ok (accepted_state st oper tp ns)"
  using assms sealed_ok [of ns] by (simp_all add: ws_accept_def seal_root_ok accepted_state_def ws_ok_def)

lemma create_entry_ok:
  assumes "op_ok oper" and "input_size_bytes oper \<le> 65536" and "op_kind oper \<noteq> ''EditFile''"
  shows "create_entry st oper tp (sha256 (op_image oper tp)) = Inr (created st oper tp)"
proof -
  have "(if op_kind oper = ''CreateFile'' then ''File'' else ''Directory'') =
      (if op_kind oper = ''CreateDirectory'' then ''Directory'' else ''File'')"
    using assms(1,3) by (auto simp: op_ok_def)
  then show ?thesis using mk_obj_new [OF assms(1,2)]
    by (simp add: create_entry_def mk_pe_def created_def)
qed

lemma edit_entry_ok:
  assumes "op_ok oper" and "input_size_bytes oper \<le> 65536" and "op_kind oper = ''EditFile''"
  shows "edit_entry st oper i (sha256 (op_image oper tp)) = Inr (edited st oper tp i)"
  using mk_obj_new [OF assms(1,2), of "''File''" tp] assms(3) by (simp add: edit_entry_def edited_def)

text \<open>The result of an accepted operation: sealed tables that bind the path to the new object.\<close>

definition accepts :: "ws_state \<Rightarrow> ws_op \<Rightarrow> bytes \<Rightarrow> ws_state \<Rightarrow> bool" where
  "accepts st oper tp st' \<longleftrightarrow> ws_ok st' \<and>
     ws_lookup st' = (ws_lookup st)(tp \<mapsto> object_id (new_object oper tp)) \<and>
     st_objects st' = st_objects st @ [new_object oper tp] \<and>
     previous_workspace_root (st_root st') = Some (sha256 (root_image (st_root st))) \<and>
     last_operation_receipt (st_root st') = Some (sha256 (op_image oper tp))"

lemma accepted_state_fields [simp]:
  "st_objects (accepted_state st oper tp ns) = st_objects ns"
  "ws_lookup (accepted_state st oper tp ns) = ws_lookup ns"
  "previous_workspace_root (st_root (accepted_state st oper tp ns)) = Some (sha256 (root_image (st_root st)))"
  "last_operation_receipt (st_root (accepted_state st oper tp ns)) = Some (sha256 (op_image oper tp))"
  by (simp_all add: accepted_state_def ws_lookup_def sealed_root_def)

lemma create_refines:
  assumes ok: "ws_ok st" and oper: "op_ok oper" and guard: "spec_guard (ws_abs st) oper tp = None"
    and kind: "op_kind oper \<noteq> ''EditFile''"
    and free: "ws_lookup st tp = None" and room: "length (st_objects st) < 128"
  shows "\<exists>st'. ws_apply st oper tp = Inr (st', True, None) \<and> accepts st oper tp st'"
proof -
  note g = guard_passes [OF ok guard]
  have t: "tables_ok st" using ok by (simp add: ws_ok_def)
  have k: "op_kind oper \<in> {''CreateFile'', ''CreateDirectory''}" using oper kind by (auto simp: op_ok_def)
  have find: "find_p st tp = Inr None" using find_p_ok [OF t, of tp] free by (auto split: option.splits)
  have cnt: "\<not> st_path_count st \<ge> MAX_PATHS" "\<not> st_object_count st \<ge> MAX_OBJECTS"
    using t room by (auto simp: tables_ok_def MAX_PATHS_def MAX_OBJECTS_def)
  have nt: "tables_ok (created st oper tp)" by (rule created_tables [OF t oper g(3,1,2) free room])
  have root: "st_root (created st oper tp) = st_root st" by (simp add: created_def)
  have "ws_apply st oper tp = Inr (accepted_state st oper tp (created st oper tp), True, None)"
    using k cnt by (simp add: g(5) op_h_ok [OF oper g(2,3)] find create_entry_ok [OF oper g(3) kind]
        accept_tables(1) [OF ok nt root])
  moreover have "accepts st oper tp (accepted_state st oper tp (created st oper tp))"
    using accept_tables(2) [OF ok nt root] ws_lookup_created [OF free] by (simp add: accepts_def created_def)
  ultimately show ?thesis by blast
qed

lemma edit_refines:
  assumes ok: "ws_ok st" and oper: "op_ok oper" and guard: "spec_guard (ws_abs st) oper tp = None"
    and kind: "op_kind oper = ''EditFile''"
    and bound: "ws_lookup st tp \<noteq> None" and room: "length (st_objects st) < 128"
  shows "\<exists>st'. ws_apply st oper tp = Inr (st', True, None) \<and> accepts st oper tp st'"
proof -
  note g = guard_passes [OF ok guard]
  have t: "tables_ok st" using ok by (simp add: ws_ok_def)
  obtain i where find: "find_p st tp = Inr (Some i)" and i: "i < length (st_paths st)" "entry_path (st_paths st ! i) = tp"
    using find_p_ok [OF t, of tp] bound by (auto split: option.splits)
  have cnt: "\<not> st_object_count st \<ge> MAX_OBJECTS" using t room by (auto simp: tables_ok_def MAX_OBJECTS_def)
  have nt: "tables_ok (edited st oper tp i)" by (rule edited_tables [OF t oper g(3) i(1) room])
  have root: "st_root (edited st oper tp i) = st_root st" by (simp add: edited_def)
  have "ws_apply st oper tp = Inr (accepted_state st oper tp (edited st oper tp i), True, None)"
    using kind cnt by (simp add: g(5) op_h_ok [OF oper g(2,3)] find edit_entry_ok [OF oper g(3) kind]
        accept_tables(1) [OF ok nt root])
  moreover have "accepts st oper tp (accepted_state st oper tp (edited st oper tp i))"
    using accept_tables(2) [OF ok nt root] ws_lookup_edited [OF t i] by (simp add: accepts_def) (simp add: edited_def)
  ultimately show ?thesis by blast
qed

lemma late_rejects:
  assumes ok: "ws_ok st" and oper: "op_ok oper" and guard: "spec_guard (ws_abs st) oper tp = None"
    and rej: "spec_reject (ws_abs st) oper tp = Some e"
  shows "ws_apply st oper tp = Inr (st, False, Some e)"
proof -
  note g = guard_passes [OF ok guard]
  have t: "tables_ok st" using ok by (simp add: ws_ok_def)
  obtain r where find: "find_p st tp = Inr r" and r: "(r = None) = (ws_lookup st tp = None)"
    using find_p_ok [OF t, of tp] by (auto split: option.splits)
  have cnt: "(st_object_count st \<ge> MAX_OBJECTS) = (length (st_objects st) \<ge> 128)"
    "st_path_count st \<ge> MAX_PATHS \<Longrightarrow> length (st_objects st) \<ge> 128"
    using t by (auto simp: tables_ok_def MAX_OBJECTS_def MAX_PATHS_def)
  have kind: "op_kind oper = ''CreateFile'' \<or> op_kind oper = ''EditFile'' \<or> op_kind oper = ''CreateDirectory''"
    using oper by (simp add: op_ok_def)
  have full: "length (st_objects st) \<ge> 128" if "op_kind oper = ''EditFile'' \<longrightarrow> ws_lookup st tp \<noteq> None"
    "op_kind oper \<noteq> ''EditFile'' \<longrightarrow> ws_lookup st tp = None"
    using rej guard that by (auto simp: spec_reject_def ws_abs_def split: if_splits)
  have e: "e = (if op_kind oper = ''EditFile'' \<and> r = None then ''PathNotFound''
      else if op_kind oper \<noteq> ''EditFile'' \<and> r \<noteq> None then ''PathAlreadyExists'' else ''NoSlotsAvailable'')"
    using rej guard r by (auto simp: spec_reject_def ws_abs_def split: if_splits)
  from kind show ?thesis
  proof (elim disjE)
    assume k: "op_kind oper = ''EditFile''"
    show ?thesis using full r e cnt(1)
      by (cases r) (auto simp: g(5) op_h_ok [OF oper g(2,3)] find k)
  qed (use full r e cnt(1) in \<open>auto simp: g(5) op_h_ok [OF oper g(2,3)] find\<close>)
qed

lemma ws_apply_refines:
  assumes "ws_ok st" and "op_ok oper"
  shows "case spec_reject (ws_abs st) oper tp of
      Some e \<Rightarrow> ws_apply st oper tp = Inr (st, False, Some e)
    | None \<Rightarrow> \<exists>st'. ws_apply st oper tp = Inr (st', True, None) \<and> accepts st oper tp st'"
proof (cases "spec_guard (ws_abs st) oper tp")
  case (Some e)
  then show ?thesis using guard_rejects [OF assms(1) Some] by (simp add: spec_reject_def)
next
  case None
  show ?thesis
  proof (cases "spec_reject (ws_abs st) oper tp")
    case (Some e)
    then show ?thesis using late_rejects [OF assms None Some] by simp
  next
    case free: None
    then have "length (st_objects st) < 128"
      "op_kind oper = ''EditFile'' \<Longrightarrow> ws_lookup st tp \<noteq> None" "op_kind oper \<noteq> ''EditFile'' \<Longrightarrow> ws_lookup st tp = None"
      using None by (auto simp: spec_reject_def ws_abs_def split: if_splits)
    then have "\<exists>st'. ws_apply st oper tp = Inr (st', True, None) \<and> accepts st oper tp st'"
      using create_refines [OF assms None] edit_refines [OF assms None] by blast
    then show ?thesis using free by simp
  qed
qed

text \<open>Only an operation whose integers do not fit, or whose kind is unknown, raises.\<close>

lemma ws_apply_error:
  assumes "ws_ok st" and "spec_guard (ws_abs st) oper tp = None" and "\<not> op_ok oper"
    and "length (input_content_hash oper) = 32"
  shows "ws_apply st oper tp = Inl
    (if 0 \<le> op_version oper \<and> op_version oper < 2 ^ 32 \<and>
        op_kind oper \<notin> {''CreateFile'', ''EditFile'', ''CreateDirectory''}
     then KeyError (op_kind oper) else OverflowError)"
proof -
  note g = guard_passes [OF assms(1,2)]
  show ?thesis
  proof (cases "0 \<le> op_version oper \<and> op_version oper < 2 ^ 32")
    case True
    then show ?thesis using assms(3,4) g(2)
      by (auto simp: g(5) op_h_def op_payload_def int_le_def op_kind_byte_def op_ok_def MAX_PATH_B_def)
  next
    case False
    then have "int_le 4 (op_version oper) = Inl OverflowError" by (auto simp: int_le_def)
    then show ?thesis using False g(2) by (auto simp: g(5) op_h_def op_payload_def MAX_PATH_B_def)
  qed
qed

section \<open>Histories\<close>

text \<open>
  A history is the list of accepted operations, the last one first, together with the canonical
  bytes of the roots the workspace went through. A rejected operation leaves the state as it was.
\<close>

inductive ws_history :: "(ws_op \<times> bytes) list \<Rightarrow> bytes list \<Rightarrow> ws_state \<Rightarrow> bool" where
  start: "mk_init = Inr st \<Longrightarrow> ws_history [] [root_image (st_root st)] st"
| accept: "ws_history hs ms st \<Longrightarrow> op_ok oper \<Longrightarrow> ws_apply st oper tp = Inr (st', True, err) \<Longrightarrow>
     ws_history ((oper, tp) # hs) (root_image (st_root st') # ms) st'"

lemma ws_apply_accepts:
  assumes "ws_ok st" and "op_ok oper" and "ws_apply st oper tp = Inr (st', True, err)"
  shows "accepts st oper tp st' \<and> length (st_objects st) < 128 \<and> err = None"
  using ws_apply_refines [OF assms(1,2), of tp] assms(3)
  by (cases "spec_reject (ws_abs st) oper tp") (auto simp: spec_reject_def ws_abs_def split: option.splits if_splits)

lemma ws_history_ok: "ws_history hs ms st \<Longrightarrow> ws_ok st \<and> length (st_objects st) = length hs \<and> length hs \<le> 128"
proof (induction rule: ws_history.induct)
  case (start st)
  then show ?case using mk_init_ok_state by simp
next
  case (accept hs ms st oper tp st' err)
  then show ?case using ws_apply_accepts [of st oper tp st' err] by (auto simp: accepts_def)
qed

section \<open>What a root digest commits to\<close>

lemma opt_hash_length: "opt_hash_ok v \<Longrightarrow> length (opt_hash_bytes v) = 33"
  by (auto simp: opt_hash_ok_def opt_hash_bytes_def ZERO_def split: option.splits)

lemma opt_hash_inject:
  "opt_hash_bytes v = opt_hash_bytes w \<Longrightarrow> opt_hash_ok v \<Longrightarrow> opt_hash_ok w \<Longrightarrow> v = w"
  by (auto simp: opt_hash_ok_def opt_hash_bytes_def split: option.splits if_splits)

lemma root_image_inject:
  assumes "root_image r = root_image r'" and "root_ok r" and "root_ok r'"
  shows "object_table_hash r = object_table_hash r' \<and> path_index_hash r = path_index_hash r' \<and>
    previous_workspace_root r = previous_workspace_root r' \<and> last_operation_receipt r = last_operation_receipt r'"
  using assms opt_hash_length opt_hash_inject by (auto simp: root_image_def root_ok_def)

text \<open>
  Equal root digests mean equal operations all the way back to the empty workspace, unless two byte
  strings that were hashed at the same step of the two histories collide.
\<close>

definition op_images :: "(ws_op \<times> bytes) list \<Rightarrow> bytes list" where
  "op_images hs = map (\<lambda>(oper, tp). op_image oper tp) hs"

definition pairs_clear :: "bytes list \<Rightarrow> bytes list \<Rightarrow> bool" where
  "pairs_clear ms ms' \<longleftrightarrow> (\<forall>(m, m') \<in> set (zip ms ms'). \<not> collision m m')"

lemma op_images_simps [simp]:
  "op_images [] = []"
  "op_images ((oper, tp) # hs) = op_image oper tp # op_images hs"
  by (simp_all add: op_images_def)

lemma pairs_clear_Cons [simp]: "pairs_clear (m # ms) (m' # ms') \<longleftrightarrow> \<not> collision m m' \<and> pairs_clear ms ms'"
  by (simp add: pairs_clear_def)

lemma pairs_clear_same: "pairs_clear ms ms"
  by (induction ms) (auto simp: pairs_clear_def collision_def)

lemma ws_history_root: "ws_history hs ms st \<Longrightarrow> \<exists>ns. ms = root_image (st_root st) # ns"
  by (induction rule: ws_history.induct) auto

lemma ws_history_last:
  assumes "ws_history hs ms st"
  shows "(hs = [] \<and> previous_workspace_root (st_root st) = None) \<or>
    (\<exists>oper tp hs2 ms2 s2. hs = (oper, tp) # hs2 \<and> ms = root_image (st_root st) # ms2 \<and>
      ws_history hs2 ms2 s2 \<and> accepts s2 oper tp st)"
  using assms
proof cases
  case start
  then show ?thesis by (auto simp: mk_init_def rbind_Inr_iff)
next
  case (accept hs2 ms2 s2 oper tp err)
  then show ?thesis using ws_history_ok [OF accept(3)] ws_apply_accepts [of s2 oper tp st err] by auto
qed

lemma history_committed:
  assumes "ws_history hs ms st" and "ws_history hs' ms' st'"
    and "sha256 (root_image (st_root st)) = sha256 (root_image (st_root st'))"
    and "pairs_clear ms ms'" and "pairs_clear (op_images hs) (op_images hs')"
  shows "op_images hs = op_images hs'"
  using assms
proof (induction hs arbitrary: ms st hs' ms' st')
  case Nil
  obtain ns ns' where ms: "ms = root_image (st_root st) # ns" "ms' = root_image (st_root st') # ns'"
    using ws_history_root Nil.prems(1,2) by blast
  have eq: "root_image (st_root st) = root_image (st_root st')" using Nil.prems(3,4) ms no_collision by simp
  have "previous_workspace_root (st_root st) = None" using ws_history_last [OF Nil.prems(1)] by simp
  then have "previous_workspace_root (st_root st') = None"
    using root_image_inject [OF eq] ws_history_ok [OF Nil.prems(1)] ws_history_ok [OF Nil.prems(2)] by (simp add: ws_ok_def)
  then have "hs' = []" using ws_history_last [OF Nil.prems(2)] by (auto simp: accepts_def)
  then show ?case by simp
next
  case (Cons x hs)
  obtain oper tp ms2 s2 where x: "x = (oper, tp)" "ms = root_image (st_root st) # ms2" "ws_history hs ms2 s2"
      and acc: "accepts s2 oper tp st"
    using ws_history_last [OF Cons.prems(1)] by auto
  obtain ns' where ms': "ms' = root_image (st_root st') # ns'" using ws_history_root Cons.prems(2) by blast
  have eq: "root_image (st_root st) = root_image (st_root st')" using Cons.prems(3,4) x ms' no_collision by simp
  have ok: "root_ok (st_root st)" "root_ok (st_root st')"
    using acc ws_history_ok [OF Cons.prems(2)] by (simp_all add: accepts_def ws_ok_def)
  note same = root_image_inject [OF eq ok]
  then have "previous_workspace_root (st_root st') \<noteq> None" using acc by (simp add: accepts_def)
  then obtain oper' tp' hs2' ms2' s2' where y: "hs' = (oper', tp') # hs2'" "ms' = root_image (st_root st') # ms2'"
      "ws_history hs2' ms2' s2'" and acc': "accepts s2' oper' tp' st'"
    using ws_history_last [OF Cons.prems(2)] by auto
  have "op_image oper tp = op_image oper' tp'"
    by (rule no_collision) (use same acc acc' Cons.prems(5) x y in \<open>simp_all add: accepts_def\<close>)
  moreover have "op_images hs = op_images hs2'"
    by (rule Cons.IH [OF x(3) y(3)]) (use same acc acc' Cons.prems(4,5) x y in \<open>simp_all add: accepts_def\<close>)
  ultimately show ?case using x y by simp
qed

section \<open>What a root digest says of the tables\<close>

lemma entry_image_inject:
  assumes "entry_image e @ us = entry_image f @ vs"
    and "length (entry_path e) = path_len e" and "length (entry_path f) = path_len f"
    and "path_len e \<le> 256" and "path_len f \<le> 256"
    and "length (entry_object_id e) = 32" and "length (entry_object_id f) = 32"
  shows "entry_path e = entry_path f \<and> entry_object_id e = entry_object_id f \<and> us = vs"
proof -
  have "to_bytes_le 2 (path_len e) @ (entry_path e @ entry_object_id e @ us) =
      to_bytes_le 2 (path_len f) @ (entry_path f @ entry_object_id f @ vs)"
    using assms(1) by (simp add: entry_image_def)
  then have l: "to_bytes_le 2 (path_len e) = to_bytes_le 2 (path_len f)"
    and rest: "entry_path e @ entry_object_id e @ us = entry_path f @ entry_object_id f @ vs"
    by (simp_all add: append_eq_append_conv)
  have "path_len e = path_len f" by (rule to_bytes_le_inject [OF l]) (use assms in auto)
  then show ?thesis using rest assms by (simp add: append_eq_append_conv)
qed

lemma entry_images_inject:
  assumes "concat (map entry_image es) = concat (map entry_image fs)"
    and "\<forall>e \<in> set es \<union> set fs. length (entry_path e) = path_len e \<and> path_len e \<le> 256 \<and> length (entry_object_id e) = 32"
  shows "map (\<lambda>e. (entry_path e, entry_object_id e)) es = map (\<lambda>e. (entry_path e, entry_object_id e)) fs"
  using assms
proof (induction es arbitrary: fs)
  case Nil
  then show ?case by (cases fs) (auto simp: entry_image_def)
next
  case (Cons e es)
  obtain f gs where fs: "fs = f # gs" using Cons.prems by (cases fs) (auto simp: entry_image_def)
  have same: "entry_path e = entry_path f \<and> entry_object_id e = entry_object_id f \<and>
      concat (map entry_image es) = concat (map entry_image gs)"
    using Cons.prems fs by (intro entry_image_inject) auto
  then show ?case using Cons.IH [of gs] Cons.prems(2) fs by auto
qed

lemma tables_entry_lengths:
  assumes "tables_ok st" and "e \<in> set (st_paths st)"
  shows "length (entry_path e) = path_len e \<and> path_len e \<le> 256 \<and> length (entry_object_id e) = 32"
proof -
  have ok: "entry_ok (st_objects st) e" using assms by (simp add: tables_ok_def)
  then obtain ob where "ob \<in> set (st_objects st)" "entry_object_id e = object_id ob" by (auto simp: entry_ok_def)
  then have "length (entry_object_id e) = 32" using assms(1) by (auto simp: tables_ok_def object_ok_def)
  then show ?thesis using ok entry_path_length [OF ok] by (simp add: entry_ok_def MAX_PATH_B_def)
qed

lemma object_images_inject:
  assumes "concat (map object_image xs) = concat (map object_image ys)"
    and "\<forall>ob \<in> set xs \<union> set ys. object_ok ob"
  shows "map object_image xs = map object_image ys"
  using assms
proof (induction xs arbitrary: ys)
  case Nil
  then show ?case by (cases ys) (auto simp: object_image_def)
next
  case (Cons x xs)
  obtain y zs where ys: "ys = y # zs" using Cons.prems by (cases ys) (auto simp: object_image_def)
  have "length (object_image x) = length (object_image y)"
    using Cons.prems(2) ys by (simp add: object_image_def object_ok_def)
  then show ?case using Cons ys by (auto simp: append_eq_append_conv)
qed

lemma state_committed:
  assumes "ws_ok s" and "ws_ok t"
    and "sha256 (root_image (st_root s)) = sha256 (root_image (st_root t))"
    and clear: "\<not> collision (root_image (st_root s)) (root_image (st_root t))"
    "\<not> collision (object_table_message (st_objects s)) (object_table_message (st_objects t))"
    "\<not> collision (path_index_message (st_paths s)) (path_index_message (st_paths t))"
  shows "ws_lookup s = ws_lookup t"
    and "mset (map object_image (st_objects s)) = mset (map object_image (st_objects t))"
proof -
  let ?k = "\<lambda>e. (entry_path e, path_len e)" and ?v = "\<lambda>e. (entry_path e, entry_object_id e)"
  have ts: "tables_ok s" "tables_ok t" using assms(1,2) by (simp_all add: ws_ok_def)
  have ro: "root_ok (st_root s)" "root_ok (st_root t)" using assms(1,2) by (simp_all add: ws_ok_def)
  have roots: "object_table_hash (st_root s) = object_table_hash (st_root t)"
    "path_index_hash (st_root s) = path_index_hash (st_root t)"
    using root_image_inject [OF no_collision [OF assms(3) clear(1)] ro] by simp_all
  have "path_index_message (st_paths s) = path_index_message (st_paths t)"
    by (rule no_collision [OF _ clear(3)]) (use assms(1,2) roots in \<open>simp add: ws_ok_def sealed_def\<close>)
  then have images: "concat (map entry_image (sort_key ?k (st_paths s))) = concat (map entry_image (sort_key ?k (st_paths t)))"
    by (simp only: path_index_message_def same_append_eq)
  have "map ?v (sort_key ?k (st_paths s)) = map ?v (sort_key ?k (st_paths t))"
    by (rule entry_images_inject [OF images])
      (use tables_entry_lengths [OF ts(1)] tables_entry_lengths [OF ts(2)] in \<open>simp only: set_sort, blast\<close>)
  from arg_cong [OF this, of set] have "set (map ?v (st_paths s)) = set (map ?v (st_paths t))"
    by (simp only: set_map set_sort)
  moreover have "distinct (map fst (map ?v (st_paths u)))" if "tables_ok u" for u
    using that by (simp add: tables_ok_def comp_def)
  ultimately show "ws_lookup s = ws_lookup t" using ts by (simp only: ws_lookup_def map_of_inject_set)
  have "object_table_message (st_objects s) = object_table_message (st_objects t)"
    by (rule no_collision [OF _ clear(2)]) (use assms(1,2) roots in \<open>simp add: ws_ok_def sealed_def\<close>)
  then have images: "concat (map object_image (sort_key object_id (st_objects s))) =
      concat (map object_image (sort_key object_id (st_objects t)))"
    by (simp only: object_table_message_def same_append_eq)
  have "map object_image (sort_key object_id (st_objects s)) = map object_image (sort_key object_id (st_objects t))"
    by (rule object_images_inject [OF images]) (use ts in \<open>auto simp: tables_ok_def\<close>)
  from arg_cong [OF this, of mset]
  show "mset (map object_image (st_objects s)) = mset (map object_image (st_objects t))"
    by (simp only: mset_map mset_sort)
qed

section \<open>The journal\<close>

definition entry_sized :: "journal_entry \<Rightarrow> bool" where
  "entry_sized e \<longleftrightarrow> length (j_prev e) = 32 \<and> length (j_op_hash e) = 32 \<and> length (j_old e) = 32 \<and>
     length (j_new e) = 32 \<and> length (j_verifier e) = 32"

lemma journal_entry_bytes_inject:
  assumes "journal_entry_bytes e = Inr b" and "journal_entry_bytes f = Inr b" and "entry_sized e" and "entry_sized f"
  shows "e = f"
proof -
  obtain s where s: "int_le 8 (j_seq e) = Inr s" using assms(1) by (auto simp: journal_entry_bytes_def rbind_Inr_iff)
  obtain t where t: "int_le 8 (j_seq f) = Inr t" using assms(2) by (auto simp: journal_entry_bytes_def rbind_Inr_iff)
  have len: "length s = length t" using length_int_le [OF s] length_int_le [OF t] by simp
  have "s @ j_prev e @ to_bytes_le 4 1 @ j_op_hash e @ j_old e @ j_new e @ j_verifier e @
      (if j_accepted e then 1 else 0) # j_new e =
    t @ j_prev f @ to_bytes_le 4 1 @ j_op_hash f @ j_old f @ j_new f @ j_verifier f @
      (if j_accepted f then 1 else 0) # j_new f"
  proof -
    have "b = utf8 ''JRNLv41'' @ s @ j_prev e @ to_bytes_le 4 1 @ j_op_hash e @ j_old e @ j_new e @ j_verifier e @
        (if j_accepted e then 1 else 0) # j_new e"
      using assms(1) by (simp only: journal_entry_bytes_def s rbind_simps sum.inject append_Cons append_Nil)
    moreover have "b = utf8 ''JRNLv41'' @ t @ j_prev f @ to_bytes_le 4 1 @ j_op_hash f @ j_old f @ j_new f @ j_verifier f @
        (if j_accepted f then 1 else 0) # j_new f"
      using assms(2) by (simp only: journal_entry_bytes_def t rbind_simps sum.inject append_Cons append_Nil)
    ultimately show ?thesis by (simp only: same_append_eq)
  qed
  then have st: "s = t" and "j_prev e = j_prev f" and "j_op_hash e = j_op_hash f" and "j_old e = j_old f"
    and "j_new e = j_new f" and "j_verifier e = j_verifier f"
    and "(if j_accepted e then 1 else 0 :: byte) = (if j_accepted f then 1 else 0)"
    using assms(3,4) len unfolding entry_sized_def by simp_all
  moreover from this(7) have "j_accepted e = j_accepted f" by (cases "j_accepted e"; cases "j_accepted f") simp_all
  moreover have "j_seq e = j_seq f" using int_le_inject s t st by blast
  ultimately show ?thesis by (cases e, cases f) simp
qed

text \<open>
  Two journals that verify against the same head agree as far as the shorter one goes back from the head, unless
  an entry of one and an entry of the other are two byte strings with the same digest.
\<close>

definition entries_collide :: "journal_entry \<Rightarrow> journal_entry \<Rightarrow> bool" where
  "entries_collide e f \<longleftrightarrow> (\<exists>m m'. journal_entry_bytes e = Inr m \<and> journal_entry_bytes f = Inr m' \<and> collision m m')"

lemma verify_loops_agree:
  assumes "verify_journal_loop head es = Inr True" and "verify_journal_loop head fs = Inr True"
    and "\<forall>e \<in> set es \<union> set fs. entry_sized e" and "\<forall>e \<in> set es. \<forall>f \<in> set fs. \<not> entries_collide e f"
  shows "take (length fs) es = take (length es) fs"
  using assms
proof (induction es arbitrary: head fs)
  case (Cons e es)
  show ?case
  proof (cases fs)
    case fs: (Cons f gs)
    obtain m m' where m: "journal_entry_bytes e = Inr m" "journal_entry_bytes f = Inr m'"
      and eq: "sha256 m = head" "sha256 m' = head"
      and rest: "verify_journal_loop (j_prev e) es = Inr True" "verify_journal_loop (j_prev f) gs = Inr True"
      using Cons.prems(1,2) fs by (auto simp: journal_entry_hash_def rbind_Inr_iff split: if_splits)
    have "m = m'" using Cons.prems(4) fs m eq by (auto simp: entries_collide_def collision_def)
    then have "e = f" using journal_entry_bytes_inject m Cons.prems(3) fs by auto
    then show ?thesis using Cons.IH [of "j_prev e" gs] rest Cons.prems fs by auto
  qed simp
qed simp

text \<open>Verification walks back from the head, so it is as content with fewer entries.\<close>

lemma verify_loop_prefix: "verify_journal_loop head (xs @ ys) = Inr True \<Longrightarrow> verify_journal_loop head xs = Inr True"
  by (induction xs arbitrary: head) (auto simp: rbind_Inr_iff split: if_splits)

lemma verify_append:
  assumes "verify_journal_chain head es = Inr True" and "journal_entry_hash e = Inr head'" and "j_prev e = head"
  shows "verify_journal_chain head' (es @ [e]) = Inr True"
  using assms by (simp add: verify_journal_chain_def)

end
