(* ===== verification/Workspace_Vectors.thy ===== *)
theory Workspace_Vectors
  imports Workspace_Correct
begin

text \<open>
  The golden vectors of \<^verbatim>\<open>src/kernel/tools/gen_v40_workspace_vectors.py\<close>: \<open>compute_all_vectors\<close>
  runs the oracle on nine cases and records, for each, the digests and the verdict that the kernel's
  tests compare with. One definition per case, in the order of the source. The lemmas after them show
  which verdict the oracle itself gives in each case.
\<close>

section \<open>The cases\<close>

definition hex_json :: "bytes \<Rightarrow> json" where
  "hex_json b = JStr (bytes_hex b)"

definition error_json :: "string option \<Rightarrow> json" where
  "error_json err = (case err of None \<Rightarrow> JNull | Some e \<Rightarrow> JStr e)"

text \<open>The operation dictionaries of the source differ in six of their values.\<close>

definition vector_op :: "string \<Rightarrow> bytes \<Rightarrow> bytes \<Rightarrow> bytes \<Rightarrow> int \<Rightarrow> bytes \<Rightarrow> ws_op res" where
  "vector_op kind old_root path content size_of cap =
    rbind (h32 (sha256 path)) (\<lambda>ph.
    rbind (h32 (sha256 content)) (\<lambda>ch.
    rbind (h32 (sha256 (utf8 ''tool-demo''))) (\<lambda>tool.
    Inr \<lparr>op_version = 1, op_kind = kind, old_workspace_root = old_root, target_path_hash = ph,
         input_content_hash = ch, input_size_bytes = size_of, capability_hash = cap,
         tool_receipt_hash = tool\<rparr>)))"

text \<open>The dictionary that is appended for a case: tables and new root are those of the state \<open>r\<close>.\<close>

definition op_vector ::
  "string \<Rightarrow> ws_op \<Rightarrow> string \<Rightarrow> string \<Rightarrow> ws_state \<Rightarrow> bool \<Rightarrow> string option \<Rightarrow> json res" where
  "op_vector name oper path old_root_hash r accepted err =
    rbind (ws_root_h (st_root r)) (\<lambda>rh.
    rbind (op_h oper (utf8 path)) (\<lambda>oh.
    Inr (JObj [(''name'', JStr name), (''op_kind'', JStr (op_kind oper)), (''target_path'', JStr path),
      (''input_content_hash'', hex_json (input_content_hash oper)), (''input_size_bytes'', JInt (input_size_bytes oper)),
      (''capability_hash'', hex_json (capability_hash oper)), (''old_root_hash'', JStr old_root_hash),
      (''expected_new_root_hash'', hex_json rh), (''operation_hash'', hex_json oh),
      (''object_table_hash'', hex_json (object_table_hash (st_root r))),
      (''path_index_hash'', hex_json (path_index_hash (st_root r))),
      (''accepted'', JBool accepted), (''error'', error_json err)])))"

definition vector_blank :: "json res" where
  "vector_blank =
    rbind mk_init (\<lambda>s.
    rbind (ws_root_h (st_root s)) (\<lambda>r0h.
    Inr (JObj [(''name'', JStr ''blank_initial''), (''op_kind'', JNull), (''target_path'', JNull),
      (''input_content_hash'', JNull), (''input_size_bytes'', JNull), (''capability_hash'', JNull),
      (''old_root_hash'', hex_json r0h), (''expected_new_root_hash'', hex_json r0h), (''operation_hash'', JNull),
      (''object_table_hash'', hex_json (object_table_hash (st_root s))),
      (''path_index_hash'', hex_json (path_index_hash (st_root s))),
      (''accepted'', JBool True), (''error'', JNull)])))"

definition vector_create_directory :: "json res" where
  "vector_create_directory =
    rbind cap_sentinel (\<lambda>cap. rbind mk_init (\<lambda>s. rbind (ws_root_h (st_root s)) (\<lambda>r0h.
    rbind (vector_op ''CreateDirectory'' r0h (utf8 ''/workspace'') [] 0 cap) (\<lambda>oper.
    rbind (ws_apply s oper (utf8 ''/workspace'')) (\<lambda>(s2, accepted, err).
    op_vector ''create_directory_workspace'' oper ''/workspace'' (bytes_hex r0h) s2 accepted err)))))"

definition vector_create_file :: "(ws_state \<times> json) res" where
  "vector_create_file =
    rbind cap_sentinel (\<lambda>cap. rbind mk_init (\<lambda>s. rbind (ws_root_h (st_root s)) (\<lambda>r0h.
    rbind (vector_op ''CreateFile'' r0h (utf8 ''/workspace/hello.txt'') (utf8 ''hello world'')
            (int (length (utf8 ''hello world''))) cap) (\<lambda>oper.
    rbind (ws_apply s oper (utf8 ''/workspace/hello.txt'')) (\<lambda>(s3, accepted, err).
    rbind (op_vector ''create_file_hello'' oper ''/workspace/hello.txt'' (bytes_hex r0h) s3 accepted err) (\<lambda>v.
    Inr (s3, v)))))))"

definition vector_edit_file :: "ws_state \<Rightarrow> json res" where
  "vector_edit_file s3 =
    rbind cap_sentinel (\<lambda>cap. rbind (ws_root_h (st_root s3)) (\<lambda>r3h.
    rbind (vector_op ''EditFile'' r3h (utf8 ''/workspace/hello.txt'') (utf8 ''hello v40'')
            (int (length (utf8 ''hello v40''))) cap) (\<lambda>oper.
    rbind (ws_apply s3 oper (utf8 ''/workspace/hello.txt'')) (\<lambda>(s4, accepted, err).
    op_vector ''edit_file_hello_v40'' oper ''/workspace/hello.txt'' (bytes_hex r3h) s4 accepted err))))"

definition chain_step :: "bytes \<Rightarrow> ws_state \<Rightarrow> string \<times> string \<times> string \<Rightarrow> ws_state res" where
  "chain_step cap s = (\<lambda>(k, p, c).
    rbind (ws_root_h (st_root s)) (\<lambda>rh.
    rbind (vector_op k rh (utf8 p) (utf8 c) (int (length (utf8 c))) cap) (\<lambda>oper.
    rbind (ws_apply s oper (utf8 p)) (\<lambda>(s', _, _). Inr s'))))"

definition vector_replay :: "json res" where
  "vector_replay =
    rbind cap_sentinel (\<lambda>cap. rbind mk_init (\<lambda>s0.
    rbind (fold_res (chain_step cap) s0
      [(''CreateDirectory'', ''/workspace'', []),
       (''CreateFile'', ''/workspace/hello.txt'', ''hello world''),
       (''EditFile'', ''/workspace/hello.txt'', ''hello v40'')]) (\<lambda>s.
    rbind (ws_root_h (st_root s)) (\<lambda>fr.
    rbind (vector_op ''EditFile'' fr (utf8 ''/workspace/hello.txt'') (utf8 ''hello v40'') 10 cap) (\<lambda>last_op.
    op_vector ''replay_full_chain_final'' last_op ''/workspace/hello.txt'' ''chain'' s True None)))))"

definition vector_bad_capability :: "json res" where
  "vector_bad_capability =
    rbind mk_init (\<lambda>s. rbind (h32 ZERO) (\<lambda>bad_cap. rbind (ws_root_h (st_root s)) (\<lambda>rh.
    rbind (vector_op ''CreateFile'' rh (utf8 ''/workspace/bad.txt'') (utf8 ''x'') 1 bad_cap) (\<lambda>oper.
    rbind (ws_apply s oper (utf8 ''/workspace/bad.txt'')) (\<lambda>(_, accepted, err).
    op_vector ''bad_capability_rejection'' oper ''/workspace/bad.txt'' (bytes_hex rh) s False err)))))"

definition vector_path_tamper :: "json res" where
  "vector_path_tamper =
    rbind cap_sentinel (\<lambda>cap. rbind mk_init (\<lambda>s. rbind (ws_root_h (st_root s)) (\<lambda>rh.
    rbind (vector_op ''CreateFile'' rh (utf8 ''/workspace/good.txt'') (utf8 ''d'') 1 cap) (\<lambda>oper.
    rbind (ws_apply s oper (utf8 ''/workspace/tampered.txt'')) (\<lambda>(_, accepted, err).
    op_vector ''path_tamper_rejection'' oper ''/workspace/tampered.txt'' (bytes_hex rh) s False err)))))"

definition vector_content_good :: "json res" where
  "vector_content_good =
    rbind cap_sentinel (\<lambda>cap. rbind mk_init (\<lambda>s. rbind (ws_root_h (st_root s)) (\<lambda>rh.
    rbind (vector_op ''CreateFile'' rh (utf8 ''/workspace/t.txt'') (utf8 ''original'') 8 cap) (\<lambda>oper.
    rbind (ws_apply s oper (utf8 ''/workspace/t.txt'')) (\<lambda>(s_good, accepted, err).
    op_vector ''content_tamper_good'' oper ''/workspace/t.txt'' (bytes_hex rh) s_good True err)))))"

definition vector_content_mismatch :: "json res" where
  "vector_content_mismatch =
    rbind cap_sentinel (\<lambda>cap. rbind mk_init (\<lambda>s. rbind (ws_root_h (st_root s)) (\<lambda>rh.
    rbind (vector_op ''CreateFile'' rh (utf8 ''/workspace/t.txt'') (utf8 ''TAMPERED'') 8 cap) (\<lambda>op_bad.
    rbind (ws_apply s op_bad (utf8 ''/workspace/t.txt'')) (\<lambda>(_, accepted_bad, err_bad).
    op_vector ''content_tamper_root_mismatch'' op_bad ''/workspace/t.txt'' (bytes_hex rh) s False
      (case err_bad of Some e \<Rightarrow> Some (if e = [] then ''root_mismatch'' else e) | None \<Rightarrow> Some ''root_mismatch''))))))"

definition compute_all_vectors :: "json list res" where
  "compute_all_vectors =
    rbind vector_blank (\<lambda>v1. rbind vector_create_directory (\<lambda>v2.
    rbind vector_create_file (\<lambda>(s3, v3). rbind (vector_edit_file s3) (\<lambda>v4.
    rbind vector_replay (\<lambda>v5. rbind vector_bad_capability (\<lambda>v6. rbind vector_path_tamper (\<lambda>v7.
    rbind vector_content_good (\<lambda>v8. rbind vector_content_mismatch (\<lambda>v9.
    Inr [v1, v2, v3, v4, v5, v6, v7, v8, v9])))))))))"

section \<open>The oracle's own verdicts\<close>

text \<open>What a vector says: its name, verdict and error.\<close>

fun json_get :: "string \<Rightarrow> json \<Rightarrow> json option" where
  "json_get k (JObj kvs) = map_of kvs k"
| "json_get k j = None"

definition verdict :: "json \<Rightarrow> (json \<times> json \<times> json) option" where
  "verdict v = (case (json_get ''name'' v, json_get ''accepted'' v, json_get ''error'' v) of
     (Some n, Some a, Some e) \<Rightarrow> Some (n, a, e) | _ \<Rightarrow> None)"

abbreviation cap_digest :: bytes where
  "cap_digest \<equiv> sha256 (utf8 ''CAPv1write:/workspace'')"

definition vop :: "string \<Rightarrow> ws_state \<Rightarrow> bytes \<Rightarrow> bytes \<Rightarrow> int \<Rightarrow> bytes \<Rightarrow> ws_op" where
  "vop kind s path content sz cap =
     \<lparr>op_version = 1, op_kind = kind, old_workspace_root = sha256 (root_image (st_root s)),
      target_path_hash = sha256 path, input_content_hash = sha256 content, input_size_bytes = sz,
      capability_hash = cap, tool_receipt_hash = sha256 (utf8 ''tool-demo'')\<rparr>"

lemma vector_op_eq [simp]:
  "vector_op kind (sha256 (root_image (st_root s))) path content sz cap = Inr (vop kind s path content sz cap)"
  by (simp add: vector_op_def vop_def)

lemma vop_ok:
  "kind \<in> {''CreateFile'', ''EditFile'', ''CreateDirectory''} \<Longrightarrow> 0 \<le> sz \<Longrightarrow> op_ok (vop kind s path content sz cap)"
  by (simp add: op_ok_def vop_def)

lemma vop_size [simp]: "input_size_bytes (vop kind s path content sz cap) = sz"
  by (simp add: vop_def)

lemma vop_guard:
  assumes "path \<noteq> []" and "length path \<le> 256" and "sz \<le> 65536"
  shows "spec_guard (ws_abs s) (vop kind s path content sz cap_digest) path = None"
  using assms by (simp add: spec_guard_def ws_abs_def vop_def)

lemma vop_accepted:
  assumes "ws_ok s" and "kind \<in> {''CreateFile'', ''EditFile'', ''CreateDirectory''}"
    and "(kind = ''EditFile'') = (ws_lookup s path \<noteq> None)" and "path \<noteq> []" and "length path \<le> 256"
    and "0 \<le> sz" and "sz \<le> 65536" and "length (st_objects s) < 128"
  shows "\<exists>s'. ws_apply s (vop kind s path content sz cap_digest) path = Inr (s', True, None) \<and>
    accepts s (vop kind s path content sz cap_digest) path s'"
proof -
  let ?o = "vop kind s path content sz cap_digest"
  have "spec_reject (ws_abs s) ?o path = None"
    using vop_guard [OF assms(4,5,7)] assms(3,8) by (auto simp: spec_reject_def vop_def ws_abs_def)
  then show ?thesis using ws_apply_refines [where oper = ?o and tp = path, OF assms(1) vop_ok [OF assms(2,6)]] by simp
qed

lemma op_vector_verdict:
  assumes "ws_ok r" and "op_ok oper" and "length (utf8 path) \<le> 256" and "input_size_bytes oper \<le> 65536"
  shows "\<exists>v. op_vector name oper path old r a e = Inr v \<and> verdict v = Some (JStr name, JBool a, error_json e)"
  using assms by (simp add: op_vector_def ws_root_h_ok ws_ok_def op_h_ok verdict_def)

text \<open>The five paths of the cases are short enough, and the empty workspace binds none of them.\<close>

lemma utf8_not_Nil [simp]: "utf8 (c # cs) \<noteq> []"
  by (simp add: utf8_def utf8_char_def Let_def)

lemma utf8_Nil [simp]: "utf8 [] = []"
  by (simp add: utf8_def)

lemma utf8_length_le: "length (utf8 s) \<le> 2 * length s"
  by (induction s) (auto simp: utf8_def utf8_char_def Let_def)

lemma init_state:
  obtains s where "mk_init = Inr s" and "ws_ok s" and "ws_lookup s = Map.empty" and "st_objects s = []"
  using mk_init_ok by (auto simp: ws_lookup_def)

lemma vector_case:
  assumes "ws_ok s" and "kind \<in> {''CreateFile'', ''EditFile'', ''CreateDirectory''}"
    and "(kind = ''EditFile'') = (ws_lookup s (utf8 (c # path)) \<noteq> None)" and "length path \<le> 127"
    and "0 \<le> sz" and "sz \<le> 65536" and "length (st_objects s) < 128"
  obtains s' v where "ws_apply s (vop kind s (utf8 (c # path)) content sz cap_digest) (utf8 (c # path)) = Inr (s', True, None)"
    and "op_vector name (vop kind s (utf8 (c # path)) content sz cap_digest) (c # path) old s' True None = Inr v"
    and "verdict v = Some (JStr name, JBool True, JNull)"
    and "ws_ok s'" and "ws_lookup s' (utf8 (c # path)) \<noteq> None"
    and "ws_lookup s' = (ws_lookup s)(utf8 (c # path) := ws_lookup s' (utf8 (c # path)))"
    and "length (st_objects s') = Suc (length (st_objects s))"
proof -
  let ?p = "utf8 (c # path)" let ?o = "vop kind s ?p content sz cap_digest"
  have len: "length ?p \<le> 256" using utf8_length_le [of "c # path"] assms(4) by simp
  obtain s' where s': "ws_apply s ?o ?p = Inr (s', True, None)" "accepts s ?o ?p s'"
    using vop_accepted [OF assms(1-3) utf8_not_Nil len assms(5-7)] by blast
  then have ok: "ws_ok s'" by (simp add: accepts_def)
  obtain v where v: "op_vector name ?o (c # path) old s' True None = Inr v"
    "verdict v = Some (JStr name, JBool True, JNull)"
    using op_vector_verdict [where name = name and oper = ?o and path = "c # path" and old = old and a = True
      and e = None, OF ok vop_ok [OF assms(2,5)] len] assms(6)
    by (auto simp: error_json_def)
  show ?thesis using that [OF s'(1) v ok] s'(2) by (simp add: accepts_def)
qed

lemma vector_blank_verdict: "\<exists>v. vector_blank = Inr v \<and> verdict v = Some (JStr ''blank_initial'', JBool True, JNull)"
proof -
  obtain s where s: "mk_init = Inr s" "ws_ok s" by (rule init_state)
  then show ?thesis by (simp add: vector_blank_def s(1) ws_root_h_ok ws_ok_def verdict_def)
qed

lemma vector_create_directory_verdict:
  "\<exists>v. vector_create_directory = Inr v \<and> verdict v = Some (JStr ''create_directory_workspace'', JBool True, JNull)"
proof -
  obtain s where s: "mk_init = Inr s" "ws_ok s" "ws_lookup s = Map.empty" "st_objects s = []" by (rule init_state)
  show ?thesis
    by (rule vector_case [OF s(2), of "''CreateDirectory''" "CHR ''/''" "''workspace''" 0 "[]" "''create_directory_workspace''"])
      (use s(2-4) in \<open>auto simp: vector_create_directory_def s(1) ws_root_h_ok ws_ok_def\<close>)
qed

lemma vector_file_verdicts:
  "\<exists>s v w. vector_create_file = Inr (s, v) \<and> verdict v = Some (JStr ''create_file_hello'', JBool True, JNull) \<and>
     vector_edit_file s = Inr w \<and> verdict w = Some (JStr ''edit_file_hello_v40'', JBool True, JNull)"
proof -
  let ?p = "''workspace/hello.txt''"
  obtain s where s: "mk_init = Inr s" "ws_ok s" "ws_lookup s = Map.empty" "st_objects s = []" by (rule init_state)
  obtain s3 v where s3: "ws_apply s (vop ''CreateFile'' s (utf8 (CHR ''/'' # ?p)) (utf8 ''hello world'') 11 cap_digest)
        (utf8 (CHR ''/'' # ?p)) = Inr (s3, True, None)"
      "op_vector ''create_file_hello'' (vop ''CreateFile'' s (utf8 (CHR ''/'' # ?p)) (utf8 ''hello world'') 11 cap_digest)
        (CHR ''/'' # ?p) (bytes_hex (sha256 (root_image (st_root s)))) s3 True None = Inr v"
      "verdict v = Some (JStr ''create_file_hello'', JBool True, JNull)"
      "ws_ok s3" "ws_lookup s3 (utf8 (CHR ''/'' # ?p)) \<noteq> None" "length (st_objects s3) = 1"
    by (rule vector_case [OF s(2), of "''CreateFile''" "CHR ''/''" ?p 11 "utf8 ''hello world''" "''create_file_hello''"])
      (use s(2-4) in auto)
  obtain s4 w where s4: "ws_apply s3 (vop ''EditFile'' s3 (utf8 (CHR ''/'' # ?p)) (utf8 ''hello v40'') 9 cap_digest)
        (utf8 (CHR ''/'' # ?p)) = Inr (s4, True, None)"
      "op_vector ''edit_file_hello_v40'' (vop ''EditFile'' s3 (utf8 (CHR ''/'' # ?p)) (utf8 ''hello v40'') 9 cap_digest)
        (CHR ''/'' # ?p) (bytes_hex (sha256 (root_image (st_root s3)))) s4 True None = Inr w"
      "verdict w = Some (JStr ''edit_file_hello_v40'', JBool True, JNull)"
    by (rule vector_case [OF s3(4), of "''EditFile''" "CHR ''/''" ?p 9 "utf8 ''hello v40''" "''edit_file_hello_v40''"])
      (use s3 in auto)
  have len: "length (utf8 ''hello world'') = 11" "length (utf8 ''hello v40'') = 9"
    by (simp_all add: utf8_def utf8_char_def)
  have "vector_create_file = Inr (s3, v)"
    using s(2-4) s3 len by (simp add: vector_create_file_def s(1) ws_root_h_ok ws_ok_def)
  moreover have "vector_edit_file s3 = Inr w"
    using s3 s4 len by (simp add: vector_edit_file_def ws_root_h_ok ws_ok_def)
  ultimately show ?thesis using s3(3) s4(3) by blast
qed

lemma chain_step_case:
  assumes "ws_ok s" and "kind \<in> {''CreateFile'', ''EditFile'', ''CreateDirectory''}"
    and "(kind = ''EditFile'') = (ws_lookup s (utf8 (c # path)) \<noteq> None)" and "length path \<le> 127"
    and "length (utf8 content) \<le> 65536" and "length (st_objects s) < 128"
  obtains s' where "chain_step cap_digest s (kind, c # path, content) = Inr s'"
    and "ws_ok s'" and "ws_lookup s' (utf8 (c # path)) \<noteq> None"
    and "\<forall>q. q \<noteq> utf8 (c # path) \<longrightarrow> ws_lookup s' q = ws_lookup s q"
    and "length (st_objects s') = Suc (length (st_objects s))"
proof (rule vector_case [OF assms(1-4), of "int (length (utf8 content))" "utf8 content" "[]" "[]"])
  fix s' v
  assume "ws_apply s (vop kind s (utf8 (c # path)) (utf8 content) (int (length (utf8 content))) cap_digest)
      (utf8 (c # path)) = Inr (s', True, None)" and ok: "ws_ok s'" "ws_lookup s' (utf8 (c # path)) \<noteq> None"
    "ws_lookup s' = (ws_lookup s)(utf8 (c # path) := ws_lookup s' (utf8 (c # path)))"
    "length (st_objects s') = Suc (length (st_objects s))"
  then have "chain_step cap_digest s (kind, c # path, content) = Inr s'"
    using assms(1) by (simp add: chain_step_def ws_root_h_ok ws_ok_def)
  moreover have "\<forall>q. q \<noteq> utf8 (c # path) \<longrightarrow> ws_lookup s' q = ws_lookup s q" using ok(3) by (metis fun_upd_apply)
  ultimately show thesis using ok that by blast
qed (use assms(5,6) in auto)

lemma vector_replay_verdict:
  "\<exists>v. vector_replay = Inr v \<and> verdict v = Some (JStr ''replay_full_chain_final'', JBool True, JNull)"
proof -
  let ?w = "''workspace''" and ?p = "''workspace/hello.txt''"
  have paths: "utf8 (CHR ''/'' # ?p) \<noteq> utf8 (CHR ''/'' # ?w)" and len: "length (utf8 ''hello world'') = 11"
      "length (utf8 ''hello v40'') = 9" "length (utf8 (CHR ''/'' # ?p)) \<le> 256"
    by (simp_all add: utf8_def utf8_char_def)
  obtain s where s: "mk_init = Inr s" "ws_ok s" "ws_lookup s = Map.empty" "st_objects s = []" by (rule init_state)
  obtain s1 where s1: "chain_step cap_digest s (''CreateDirectory'', CHR ''/'' # ?w, []) = Inr s1" "ws_ok s1"
      "ws_lookup s1 (utf8 (CHR ''/'' # ?p)) = None" "length (st_objects s1) = 1"
    by (rule chain_step_case [OF s(2), of "''CreateDirectory''" "CHR ''/''" ?w "[]"])
      (use s(2-4) paths in auto)
  obtain s2 where s2: "chain_step cap_digest s1 (''CreateFile'', CHR ''/'' # ?p, ''hello world'') = Inr s2" "ws_ok s2"
      "ws_lookup s2 (utf8 (CHR ''/'' # ?p)) \<noteq> None" "length (st_objects s2) = 2"
    by (rule chain_step_case [OF s1(2), of "''CreateFile''" "CHR ''/''" ?p "''hello world''"]) (use s1 len in auto)
  obtain s3 where s3: "chain_step cap_digest s2 (''EditFile'', CHR ''/'' # ?p, ''hello v40'') = Inr s3" "ws_ok s3"
    by (rule chain_step_case [OF s2(2), of "''EditFile''" "CHR ''/''" ?p "''hello v40''"]) (use s2 len in auto)
  show ?thesis
    using op_vector_verdict [where r = s3 and oper = "vop ''EditFile'' s3 (utf8 (CHR ''/'' # ?p)) (utf8 ''hello v40'') 10 cap_digest"
        and path = "CHR ''/'' # ?p" and name = "''replay_full_chain_final''" and old = "''chain''" and a = True and e = None]
      s3(2) vop_ok len(3) s1(1) s2(1) s3(1)
    by (simp add: vector_replay_def s(1) ws_root_h_ok ws_ok_def error_json_def)
qed

text \<open>The rejected cases record the unchanged root.\<close>

lemma vop_apply_total:
  assumes "ws_ok s" and "0 \<le> sz"
  shows "\<exists>s' a e. ws_apply s (vop ''CreateFile'' s path content sz cap) tp = Inr (s', a, e)"
  using ws_apply_refines [where oper = "vop ''CreateFile'' s path content sz cap" and tp = tp, OF assms(1) vop_ok] assms(2)
  by (auto split: option.splits)

lemma vector_bad_capability_verdict:
  "\<exists>v e. vector_bad_capability = Inr v \<and> verdict v = Some (JStr ''bad_capability_rejection'', JBool False, error_json e) \<and>
    (ZERO \<noteq> cap_digest \<longrightarrow> e = Some ''InvalidCapability'')"
proof -
  let ?p = "CHR ''/'' # ''workspace/bad.txt''"
  obtain s where s: "mk_init = Inr s" "ws_ok s" by (rule init_state)
  let ?o = "vop ''CreateFile'' s (utf8 ?p) (utf8 ''x'') 1 ZERO"
  have len: "length (utf8 ?p) \<le> 256" and zero: "length ZERO = 32" by (simp_all add: utf8_def utf8_char_def ZERO_def)
  obtain s' a e where r: "ws_apply s ?o (utf8 ?p) = Inr (s', a, e)" using vop_apply_total [OF s(2)] by fastforce
  have "e = Some ''InvalidCapability''" if "ZERO \<noteq> cap_digest"
    using guard_rejects [OF s(2), of ?o "utf8 ?p" "''InvalidCapability''"] r that len
    by (simp add: spec_guard_def ws_abs_def vop_def)
  then show ?thesis
    using op_vector_verdict [where r = s and oper = ?o and path = ?p and name = "''bad_capability_rejection''"
        and old = "bytes_hex (sha256 (root_image (st_root s)))" and a = False and e = e] s(2) vop_ok len r zero
    by (auto simp: vector_bad_capability_def s(1) ws_root_h_ok ws_ok_def h32_def)
qed

lemma vector_path_tamper_verdict:
  "\<exists>v e. vector_path_tamper = Inr v \<and> verdict v = Some (JStr ''path_tamper_rejection'', JBool False, error_json e) \<and>
    (sha256 (utf8 ''/workspace/good.txt'') \<noteq> sha256 (utf8 ''/workspace/tampered.txt'') \<longrightarrow> e = Some ''PathNotFound'')"
proof -
  let ?g = "CHR ''/'' # ''workspace/good.txt''" let ?p = "CHR ''/'' # ''workspace/tampered.txt''"
  obtain s where s: "mk_init = Inr s" "ws_ok s" by (rule init_state)
  let ?o = "vop ''CreateFile'' s (utf8 ?g) (utf8 ''d'') 1 cap_digest"
  have len: "length (utf8 ?p) \<le> 256" by (simp add: utf8_def utf8_char_def)
  obtain s' a e where r: "ws_apply s ?o (utf8 ?p) = Inr (s', a, e)" using vop_apply_total [OF s(2)] by fastforce
  have "e = Some ''PathNotFound''" if "sha256 (utf8 ?g) \<noteq> sha256 (utf8 ?p)"
    using guard_rejects [OF s(2), of ?o "utf8 ?p" "''PathNotFound''"] r that len
    by (simp add: spec_guard_def ws_abs_def vop_def)
  then show ?thesis
    using op_vector_verdict [where r = s and oper = ?o and path = ?p and name = "''path_tamper_rejection''"
        and old = "bytes_hex (sha256 (root_image (st_root s)))" and a = False and e = e] s(2) vop_ok len r
    by (auto simp: vector_path_tamper_def s(1) ws_root_h_ok ws_ok_def)
qed

lemma vector_content_good_verdict:
  "\<exists>v. vector_content_good = Inr v \<and> verdict v = Some (JStr ''content_tamper_good'', JBool True, JNull)"
proof -
  obtain s where s: "mk_init = Inr s" "ws_ok s" "ws_lookup s = Map.empty" "st_objects s = []" by (rule init_state)
  show ?thesis
    by (rule vector_case [OF s(2), of "''CreateFile''" "CHR ''/''" "''workspace/t.txt''" 8 "utf8 ''original''" "''content_tamper_good''"])
      (use s(2-4) in \<open>auto simp: vector_content_good_def s(1) ws_root_h_ok ws_ok_def\<close>)
qed

text \<open>The oracle accepts the operation of the last case, which the vector records as rejected.\<close>

lemma vector_content_mismatch_verdict:
  "\<exists>s s' v. mk_init = Inr s \<and>
     ws_apply s (vop ''CreateFile'' s (utf8 ''/workspace/t.txt'') (utf8 ''TAMPERED'') 8 cap_digest)
       (utf8 ''/workspace/t.txt'') = Inr (s', True, None) \<and>
     vector_content_mismatch = Inr v \<and>
     verdict v = Some (JStr ''content_tamper_root_mismatch'', JBool False, JStr ''root_mismatch'')"
proof -
  let ?p = "CHR ''/'' # ''workspace/t.txt''"
  obtain s where s: "mk_init = Inr s" "ws_ok s" "ws_lookup s = Map.empty" "st_objects s = []" by (rule init_state)
  let ?o = "vop ''CreateFile'' s (utf8 ?p) (utf8 ''TAMPERED'') 8 cap_digest"
  obtain s' where s': "ws_apply s ?o (utf8 ?p) = Inr (s', True, None)"
    by (rule vector_case [OF s(2), of "''CreateFile''" "CHR ''/''" "''workspace/t.txt''" 8 "utf8 ''TAMPERED''" "[]"])
      (use s(2-4) in auto)
  have len: "length (utf8 ?p) \<le> 256" by (simp add: utf8_def utf8_char_def)
  show ?thesis
    using op_vector_verdict [where r = s and oper = ?o and path = ?p and name = "''content_tamper_root_mismatch''"
        and old = "bytes_hex (sha256 (root_image (st_root s)))" and a = False and e = "Some ''root_mismatch''"]
      s(2) vop_ok len s'
    by (simp add: vector_content_mismatch_def s(1) ws_root_h_ok ws_ok_def error_json_def)
qed

end
