(* ===== verification/Bogfs.thy ===== *)
theory Bogfs
  imports Archive_Correct
begin

text \<open>
  The two read-only file views. \<^verbatim>\<open>src/bogvm/bogfs.py\<close> presents a directory archive through \<open>listdir\<close>, \<open>stat\<close> and
  \<open>read_bytes\<close>; \<^verbatim>\<open>src/scripts/make_bogfs.py\<close> packs a directory into one flat image with a table of
  fixed-size entries, which the kernel reads at boot. The lemmas relate both to the directory they
  were made from.
\<close>

section \<open>The archive view\<close>

text \<open>\<open>path.strip("/")\<close>.\<close>

definition strip_slash :: "string \<Rightarrow> string" where
  "strip_slash s = rev (dropWhile (\<lambda>c. c = CHR ''/'') (rev (dropWhile (\<lambda>c. c = CHR ''/'') s)))"

record bogfs =
  fs_archive :: archive
  fs_manifest :: archive_manifest
  fs_entries :: "(string, file_entry) pydict"

definition open_bogfs :: "archive_manifest schema_validator \<Rightarrow> archive \<Rightarrow> bogfs res" where
  "open_bogfs mv ar =
    rbind (read_archive_manifest mv ar) (\<lambda>manifest.
    Inr \<lparr>fs_archive = ar, fs_manifest = manifest,
         fs_entries = pydict_of (map (\<lambda>entry. (f_path entry, entry)) (am_files manifest))\<rparr>)"

definition fs_prefix :: "string \<Rightarrow> string" where
  "fs_prefix dir = (let p = strip_slash dir in if p = [] then [] else p @ ''/'')"

definition listdir :: "bogfs \<Rightarrow> string \<Rightarrow> string list" where
  "listdir fs dir =
    (let p = fs_prefix dir
     in sorted_list_of_set (set (map (\<lambda>path. takeWhile (\<lambda>c. c \<noteq> CHR ''/'') (drop (length p) path))
          (filter (\<lambda>path. take (length p) path = p) (map fst (fs_entries fs))))))"

definition fs_stat :: "bogfs \<Rightarrow> string \<Rightarrow> tree_item res" where
  "fs_stat fs path =
    (case map_of (fs_entries fs) (strip_slash path) of
       None \<Rightarrow> Inl (ArchiveError (''file not found in archive: '' @ strip_slash path))
     | Some entry \<Rightarrow> Inr \<lparr>f_path = f_path entry, f_size = f_size entry, f_sha256 = f_sha256 entry\<rparr>)"

definition fs_read_bytes :: "container schema_validator \<Rightarrow> bogfs \<Rightarrow> string \<Rightarrow> bytes res" where
  "fs_read_bytes cv fs path = read_archive_file cv (fs_archive fs) (strip_slash path) (fs_manifest fs)"

definition fs_read_text :: "container schema_validator \<Rightarrow> bogfs \<Rightarrow> string \<Rightarrow> string res" where
  "fs_read_text cv fs path = rbind (fs_read_bytes cv fs path) utf8_decode"

text \<open>A path with neither a leading nor a trailing slash is looked up as it is.\<close>

lemma strip_slash_id:
  assumes "p \<noteq> []" and "hd p \<noteq> CHR ''/''" and "last p \<noteq> CHR ''/''"
  shows "strip_slash p = p"
proof -
  have "dropWhile (\<lambda>c. c = CHR ''/'') p = p" using assms by (cases p) auto
  moreover have "dropWhile (\<lambda>c. c = CHR ''/'') (rev p) = rev p"
    using assms by (cases "rev p") (auto simp: last_rev [symmetric] hd_rev)
  ultimately show ?thesis by (simp add: strip_slash_def)
qed

lemma view_built:
  assumes "schema_complete cv" and "archive_schema_complete mv" and "dir_ok d" and "contents_clear d"
    and "auto_chunk \<or> int n \<in> set CANDIDATE_CHUNK_SIZES"
    and given: "(p, data) \<in> set d" and p: "hd p \<noteq> CHR ''/''" "last p \<noteq> CHR ''/''"
  shows "\<exists>ar mf fs. build_directory_archive cv mv source (Some d) (int n) auto_chunk tt = Inr (ar, mf) \<and>
    open_bogfs mv ar = Inr fs \<and> fs_read_bytes cv fs p = Inr data \<and> fs_stat fs p = Inr (file_item p data)"
proof (rule build_succeeds [OF assms(1-5)])
  fix objs
  let ?xs = "sorted_files d" let ?m = "new_manifest source (map built_entry ?xs)"
  let ?ar = "\<lparr>ar_objects = objs, ar_manifest = Some ?m\<rparr>"
  assume build: "build_directory_archive cv mv source (Some d) (int n) auto_chunk tt = Inr (?ar, ?m)"
    and objs: "\<forall>x \<in> snd ` set d. object_holds cv objs x"
  have dist: "distinct (map fst ?xs)" using assms(3) distinct_sorted_files by (simp add: dir_ok_def)
  have in_xs: "(p, data) \<in> set ?xs" using given by simp
  have pc: "p \<noteq> []" "path_contained p" using assms(3) given dir_ok_nonempty [OF assms(3) given] by (auto simp: dir_ok_def)
  have strip: "strip_slash p = p" by (rule strip_slash_id [OF pc(1) p])
  have man: "read_archive_manifest mv ?ar = Inr ?m" by (rule built_manifest [OF assms(2,3)])
  define fs where "fs = \<lparr>fs_archive = ?ar, fs_manifest = ?m, fs_entries = map (\<lambda>px. (fst px, built_entry px)) ?xs\<rparr>"
  have keys: "distinct (map fst (map (\<lambda>px. (fst px, built_entry px)) ?xs))" using dist by (simp add: comp_def)
  then have "pydict_of (map (\<lambda>px. (fst px, built_entry px)) ?xs) = map (\<lambda>px. (fst px, built_entry px)) ?xs"
    by (rule pydict_of_distinct)
  then have opened: "open_bogfs mv ?ar = Inr fs" by (simp add: open_bogfs_def man fs_def comp_def) (simp add: new_manifest_def comp_def)
  have "read_archive_file cv ?ar p ?m = Inr data"
    by (rule read_built [OF in_xs dist pc(2)]) (use objs given in \<open>auto simp: new_manifest_def\<close>)
  then have "fs_read_bytes cv fs p = Inr data" by (simp add: fs_read_bytes_def fs_def strip)
  moreover have "map_of (fs_entries fs) p = Some (built_entry (p, data))"
    using in_xs keys by (intro map_of_is_SomeI) (auto simp: fs_def comp_def intro!: image_eqI [of _ _ "(p, data)"])
  then have "fs_stat fs p = Inr (file_item p data)" by (simp add: fs_stat_def strip file_item_def)
  ultimately show ?thesis using build opened by blast
qed

lemma listdir_iff:
  "name \<in> set (listdir fs dir) \<longleftrightarrow> (\<exists>rest. fs_prefix dir @ rest \<in> fst ` set (fs_entries fs) \<and>
     name = takeWhile (\<lambda>c. c \<noteq> CHR ''/'') rest)"
proof -
  let ?p = "fs_prefix dir"
  have "name \<in> set (listdir fs dir) \<longleftrightarrow> (\<exists>path \<in> fst ` set (fs_entries fs). take (length ?p) path = ?p \<and>
      name = takeWhile (\<lambda>c. c \<noteq> CHR ''/'') (drop (length ?p) path))"
    by (auto simp: listdir_def Let_def)
  also have "\<dots> \<longleftrightarrow> (\<exists>rest. ?p @ rest \<in> fst ` set (fs_entries fs) \<and> name = takeWhile (\<lambda>c. c \<noteq> CHR ''/'') rest)"
    by (metis append_eq_conv_conj append_take_drop_id)
  finally show ?thesis .
qed

section \<open>The flat image\<close>

text \<open>\<open>v.to_bytes(k, byteorder="big")\<close> of a non-negative integer.\<close>

definition nat_be :: "nat \<Rightarrow> nat \<Rightarrow> bytes res" where
  "nat_be k v = (if v < 256 ^ k then Inr (to_bytes_be k v) else Inl OverflowError)"

record image_entry =
  ie_path :: bytes
  ie_offset :: nat
  ie_length :: nat
  ie_hash :: bytes

definition path_padded :: "string \<Rightarrow> bytes" where
  "path_padded rel = (let path_bytes = take 63 (utf8 (''/'' @ rel)) in path_bytes @ replicate (64 - length path_bytes) 0)"

fun image_entries :: "nat \<Rightarrow> (string \<times> bytes) list \<Rightarrow> image_entry list" where
  "image_entries offset [] = []"
| "image_entries offset ((rel, content) # files) =
    \<lparr>ie_path = path_padded rel, ie_offset = offset, ie_length = length content, ie_hash = sha256 content\<rparr> #
    image_entries (offset + length content) files"

definition entry_row :: "image_entry \<Rightarrow> bytes res" where
  "entry_row e = rbind (nat_be 4 (ie_offset e)) (\<lambda>off. rbind (nat_be 4 (ie_length e)) (\<lambda>len.
    Inr (ie_path e @ off @ len @ ie_hash e)))"

definition make_bogfs :: "directory \<Rightarrow> bytes res" where
  "make_bogfs d =
    (let files = sorted_files d; header_size = 10; entry_size = 104;
         entries = image_entries (header_size + length files * entry_size) files
     in rbind (nat_be 4 (length files)) (\<lambda>count_field.
        rbind (map_res entry_row entries) (\<lambda>rows.
        Inr (utf8 ''BOGFS'' @ [0] @ count_field @ concat rows @ concat (map snd files)))))"

text \<open>Reading the image back: the fields of the entry with index \<open>i\<close>, and the bytes they point to.\<close>

definition image_row :: "bytes \<Rightarrow> nat \<Rightarrow> bytes" where
  "image_row img i = take 104 (drop (10 + 104 * i) img)"

definition image_path :: "bytes \<Rightarrow> nat \<Rightarrow> bytes" where
  "image_path img i = take 64 (image_row img i)"

definition image_content :: "bytes \<Rightarrow> nat \<Rightarrow> bytes" where
  "image_content img i =
    (let row = image_row img i; off = from_bytes_be (take 4 (drop 64 row)); len = from_bytes_be (take 4 (drop 68 row))
     in take len (drop off img))"

definition image_hash :: "bytes \<Rightarrow> nat \<Rightarrow> bytes" where
  "image_hash img i = drop 72 (image_row img i)"

lemma length_path_padded [simp]: "length (path_padded rel) = 64"
  by (simp add: path_padded_def Let_def)

lemma length_image_entries [simp]: "length (image_entries off files) = length files"
  by (induction off files rule: image_entries.induct) auto

lemma image_entries_nth:
  assumes "i < length files"
  shows "image_entries off files ! i =
    \<lparr>ie_path = path_padded (fst (files ! i)), ie_offset = off + length (concat (map snd (take i files))),
     ie_length = length (snd (files ! i)), ie_hash = sha256 (snd (files ! i))\<rparr>"
  using assms
proof (induction files arbitrary: off i)
  case (Cons f files)
  then show ?case by (cases f; cases i) (auto simp: add.assoc)
qed simp

lemma entry_row_length: "entry_row e = Inr row \<Longrightarrow> length (ie_path e) = 64 \<Longrightarrow> length (ie_hash e) = 32 \<Longrightarrow> length row = 104"
  by (auto simp: entry_row_def nat_be_def rbind_Inr_iff split: if_splits)

lemma drop_concat_rows:
  assumes "\<forall>x \<in> set xs. length x = n" and "i < length xs"
  shows "take n (drop (n * i) (concat xs @ ys)) = xs ! i"
  using assms
proof (induction xs arbitrary: i)
  case (Cons x xs)
  then show ?case by (cases i) auto
qed simp

lemma concat_split_nth: "i < length xs \<Longrightarrow> concat xs = concat (take i xs) @ xs ! i @ concat (drop (Suc i) xs)"
  by (metis concat.simps(2) concat_append id_take_nth_drop)

lemma drop_after: "length xs = n \<Longrightarrow> drop (n + k) (xs @ ys) = drop k ys"
  by simp

lemma image_reads:
  assumes made: "make_bogfs d = Inr img" and i: "i < length d"
  shows "image_path img i = path_padded (fst (sorted_files d ! i))"
    and "image_content img i = snd (sorted_files d ! i)"
    and "image_hash img i = sha256 (snd (sorted_files d ! i))"
proof -
  let ?fs = "sorted_files d"
  have len: "length ?fs = length d" by (simp add: sorted_files_def)
  let ?base = "10 + length ?fs * 104"
  let ?es = "image_entries ?base ?fs"
  obtain cf rows where cf: "nat_be 4 (length ?fs) = Inr cf" and rows: "map_res entry_row ?es = Inr rows"
    and img: "img = utf8 ''BOGFS'' @ [0] @ cf @ concat rows @ concat (map snd ?fs)"
    using made by (auto simp: make_bogfs_def Let_def rbind_Inr_iff)
  have cf4: "length cf = 4" using cf by (auto simp: nat_be_def split: if_splits)
  have magic: "length (utf8 ''BOGFS'' @ [0] @ cf) = 10" using cf4 by (simp add: utf8_def utf8_char_def)
  have each: "entry_row (?es ! k) = Inr (rows ! k)" and nrows: "length rows = length d" if "k < length d" for k
    using rows that len by (auto simp: map_res_Inr_iff list_all2_conv_all_nth)
  have rlen: "length (rows ! k) = 104" if "k < length d" for k
    using entry_row_length [OF each [OF that]] that len by (simp add: image_entries_nth)
  then have all: "\<forall>x \<in> set rows. length x = 104" using nrows i by (metis in_set_conv_nth)
  let ?c = "snd (?fs ! i)" let ?off = "?base + length (concat (map snd (take i ?fs)))"
  have ent: "?es ! i = \<lparr>ie_path = path_padded (fst (?fs ! i)), ie_offset = ?off, ie_length = length ?c, ie_hash = sha256 ?c\<rparr>"
    using i len by (intro image_entries_nth) simp
  have split: "img = (utf8 ''BOGFS'' @ [0] @ cf) @ (concat rows @ concat (map snd ?fs))" by (simp add: img)
  have skip: "drop (10 + k) img = drop k (concat rows @ concat (map snd ?fs))" for k
    using drop_after [OF magic] by (simp only: split)
  have row: "image_row img i = rows ! i"
    unfolding image_row_def skip by (rule drop_concat_rows [OF all]) (use i nrows in simp)
  have fits: "?off < 256 ^ 4" "length ?c < 256 ^ 4"
    and r: "rows ! i = path_padded (fst (?fs ! i)) @ to_bytes_be 4 ?off @ to_bytes_be 4 (length ?c) @ sha256 ?c"
    using each [OF i] unfolding ent by (auto simp: entry_row_def nat_be_def split: if_splits)
  show "image_path img i = path_padded (fst (?fs ! i))" by (simp add: image_path_def row r)
  show "image_hash img i = sha256 ?c" by (simp add: image_hash_def row r)
  have table: "length (utf8 ''BOGFS'' @ [0] @ cf @ concat rows) = ?base"
    using magic nrows [OF i] len all by (simp add: length_concat sum_list_triv map_idI cong: map_cong)
  have pay: "concat (map snd ?fs) = concat (map snd (take i ?fs)) @ ?c @ concat (map snd (drop (Suc i) ?fs))"
    using concat_split_nth [of i "map snd ?fs"] i len by (simp add: take_map drop_map)
  have "img = (utf8 ''BOGFS'' @ [0] @ cf @ concat rows) @ concat (map snd ?fs)" by (simp add: img)
  then have "drop ?off img = drop (length (concat (map snd (take i ?fs)))) (concat (map snd ?fs))"
    using drop_after [OF table] by (simp only:)
  then have "drop ?off img = ?c @ concat (map snd (drop (Suc i) ?fs))" unfolding pay by simp
  then show "image_content img i = ?c" using fits by (simp add: image_content_def Let_def row r)
qed

end
