(* ===== verification/Signing.thy ===== *)
theory Signing
  imports Json Py_Text Hashlib
begin

text \<open>
  Signed JSON objects, \<^verbatim>\<open>src/bogvm/signing.py\<close>: the canonical bytes of an object, key identifiers, and signing
  and verification against a list of trusted key files.

  The Ed25519 primitives belong to a third-party package; they are the three functions of the record
  \<open>ed25519\<close>, and what the code relies on is \<open>ed25519_correct\<close>. The package's length checks on raw keys are
  written out. Base64 is the language's own library and is modelled here; a decoder called with
  \<open>validate=True\<close> accepts whole quadruples of the alphabet with correct padding at the end and nothing else.
  A key file is its text, where \<open>None\<close> stands for a file that cannot be read.
\<close>

section \<open>Base64\<close>

definition b64_alphabet :: string where
  "b64_alphabet = ''ABCDEFGHIJKLMNOPQRSTUVWXYZabcdefghijklmnopqrstuvwxyz0123456789+/''"

definition b64_char :: "nat \<Rightarrow> char" where
  "b64_char n = b64_alphabet ! n"

definition b64_value :: "char \<Rightarrow> nat option" where
  "b64_value c = list_index c b64_alphabet"

fun b64encode :: "bytes \<Rightarrow> string" where
  "b64encode [] = []"
| "b64encode [a] =
    [b64_char (unat a div 4), b64_char (unat a mod 4 * 16), CHR ''='', CHR ''='']"
| "b64encode [a, b] =
    [b64_char (unat a div 4), b64_char (unat a mod 4 * 16 + unat b div 16), b64_char (unat b mod 16 * 4), CHR ''='']"
| "b64encode (a # b # c # rest) =
    [b64_char (unat a div 4), b64_char (unat a mod 4 * 16 + unat b div 16),
     b64_char (unat b mod 16 * 4 + unat c div 64), b64_char (unat c mod 64)] @ b64encode rest"

definition b64_error :: "'a res" where
  "b64_error = Inl (ValueError ''invalid base64'')"

definition b64_quad :: "nat \<Rightarrow> nat \<Rightarrow> nat \<Rightarrow> nat \<Rightarrow> bytes" where
  "b64_quad p q r s = [word_of_nat (p * 4 + q div 16), word_of_nat (q mod 16 * 16 + r div 4), word_of_nat (r mod 4 * 64 + s)]"

fun b64decode :: "string \<Rightarrow> bytes res" where
  "b64decode [] = Inr []"
| "b64decode (w # x # y # z # rest) =
    (case (b64_value w, b64_value x) of
       (Some p, Some q) \<Rightarrow>
         (if y = CHR ''='' \<and> z = CHR ''='' \<and> rest = [] then Inr (take 1 (b64_quad p q 0 0))
          else case b64_value y of
            None \<Rightarrow> b64_error
          | Some r \<Rightarrow>
              (if z = CHR ''='' \<and> rest = [] then Inr (take 2 (b64_quad p q r 0))
               else case b64_value z of
                 None \<Rightarrow> b64_error
               | Some s \<Rightarrow> rbind (b64decode rest) (\<lambda>bs. Inr (b64_quad p q r s @ bs))))
     | _ \<Rightarrow> b64_error)"
| "b64decode _ = b64_error"

lemma b64_value_char:
  assumes "n < 64"
  shows "b64_value (b64_char n) = Some n"
proof -
  have "list_all (\<lambda>n. b64_value (b64_char n) = Some n) [0..<64]" by code_simp
  then show ?thesis using assms by (simp add: list_all_iff)
qed

lemma length_b64_alphabet: "length b64_alphabet = 64"
  by (simp add: b64_alphabet_def)

lemma b64_char_in: "n < 64 \<Longrightarrow> b64_char n \<in> set b64_alphabet"
  by (simp add: b64_char_def length_b64_alphabet)

lemma b64_char_not_pad: "n < 64 \<Longrightarrow> b64_char n \<noteq> CHR ''=''"
  using b64_char_in [of n] by (auto simp: b64_alphabet_def)

lemma b64_char_not_space: "n < 64 \<Longrightarrow> \<not> is_space (b64_char n)"
proof -
  have "\<forall>c \<in> set b64_alphabet. \<not> is_space c" by (simp add: b64_alphabet_def is_space_def)
  then show "n < 64 \<Longrightarrow> \<not> is_space (b64_char n)" using b64_char_in by blast
qed

lemma byte_sixths:
  fixes a b c :: byte
  shows "unat a div 4 < 64" "unat a mod 4 * 16 + unat b div 16 < 64" "unat a mod 4 * 16 < 64"
    "unat b mod 16 * 4 + unat c div 64 < 64" "unat b mod 16 * 4 < 64" "unat c mod 64 < 64"
  using unat_byte_less [of a] unat_byte_less [of b] unat_byte_less [of c] by arith+

lemma b64_quad_bytes:
  fixes a b c :: byte
  shows "b64_quad (unat a div 4) (unat a mod 4 * 16 + unat b div 16) (unat b mod 16 * 4 + unat c div 64) (unat c mod 64) = [a, b, c]"
proof -
  have b: "unat b div 16 < 16" and c: "unat c div 64 < 4" using unat_byte_less [of b] unat_byte_less [of c] by arith+
  have "unat a div 4 * 4 + (unat a mod 4 * 16 + unat b div 16) div 16 = unat a" using b by simp
  moreover have "(unat a mod 4 * 16 + unat b div 16) mod 16 * 16 + (unat b mod 16 * 4 + unat c div 64) div 4 = unat b"
    using b c by simp
  moreover have "(unat b mod 16 * 4 + unat c div 64) mod 4 * 64 + unat c mod 64 = unat c" using c by simp
  ultimately show ?thesis by (simp add: b64_quad_def)
qed

lemma b64_roundtrip [simp, roundtrip]: "b64decode (b64encode bs) = Inr bs"
proof (induction bs rule: b64encode.induct)
  case (2 a)
  have "b64_quad (unat a div 4) (unat a mod 4 * 16) 0 0 = [a, 0, 0]" using b64_quad_bytes [of a 0 0] by simp
  then show ?case by (simp add: b64_value_char byte_sixths)
next
  case (3 a b)
  have "b64_quad (unat a div 4) (unat a mod 4 * 16 + unat b div 16) (unat b mod 16 * 4) 0 = [a, b, 0]"
    using b64_quad_bytes [of a b 0] by simp
  then show ?case by (simp add: b64_value_char b64_char_not_pad byte_sixths)
next
  case (4 a b c rest)
  then show ?case by (simp add: b64_value_char b64_char_not_pad byte_sixths b64_quad_bytes)
qed simp_all

lemma pad_not_space [simp]: "\<not> is_space (CHR ''='')"
  by (simp add: is_space_def)

lemma b64_no_space: "x \<in> set (b64encode bs) \<Longrightarrow> \<not> is_space x"
  by (induction bs rule: b64encode.induct) (auto simp: b64_char_not_space byte_sixths)

text \<open>A line of base64 text, as the key files hold it, is read back through \<open>strip\<close>.\<close>

lemma strip_b64_line [simp]: "strip (b64encode bs @ newline) = b64encode bs"
proof -
  let ?s = "b64encode bs"
  have nl: "is_space (char_of (10 :: nat))" by (simp add: is_space_def)
  show ?thesis
  proof (cases "?s = []")
    case False
    then have "\<not> is_space (hd ?s)" "\<not> is_space (last ?s)"
      using b64_no_space [OF hd_in_set] b64_no_space [OF last_in_set] by blast+
    then have "dropWhile is_space (?s @ newline) = ?s @ newline" "dropWhile is_space (rev ?s) = rev ?s"
      using False by (auto simp: dropWhile_eq_self_iff hd_rev)
    then show ?thesis using nl by (simp add: strip_def newline_def)
  qed (simp add: strip_def newline_def nl)
qed

section \<open>Objects and keys\<close>

text \<open>\<open>d.get(key)\<close> on a dictionary of JSON values, where a missing member is \<open>None\<close>.\<close>

type_synonym jdict = "(string, json) pydict"

definition jget :: "jdict \<Rightarrow> string \<Rightarrow> json" where
  "jget d k = (case map_of d k of None \<Rightarrow> JNull | Some v \<Rightarrow> v)"

text \<open>\<open>d[key]\<close>, which raises on a missing member.\<close>

definition jmember :: "jdict \<Rightarrow> string \<Rightarrow> json res" where
  "jmember d k = (case map_of d k of None \<Rightarrow> Inl (KeyError k) | Some v \<Rightarrow> Inr v)"

definition SIGNATURE_FORMAT :: string where
  "SIGNATURE_FORMAT = ''BOGSIG-ed25519-1.0''"

record ed25519 =
  ed_public :: "bytes \<Rightarrow> bytes"
  ed_sign :: "bytes \<Rightarrow> bytes \<Rightarrow> bytes"
  ed_verify :: "bytes \<Rightarrow> bytes \<Rightarrow> bytes \<Rightarrow> bool"

definition canonical_bytes :: "json \<Rightarrow> bytes" where
  "canonical_bytes obj = utf8 (dumps obj)"

definition key_id :: "bytes \<Rightarrow> string" where
  "key_id public_bytes = take 16 (hexdigest public_bytes)"

definition key_bytes :: "string option \<Rightarrow> bytes res" where
  "key_bytes content = (case content of
     None \<Rightarrow> Inl (FileNotFoundError ''key'')
   | Some t \<Rightarrow> rbind (b64decode (strip t)) (\<lambda>raw.
       if length raw = 32 then Inr raw else Inl (ValueError ''An Ed25519 key is 32 bytes long'')))"

text \<open>The new private key is drawn by the third-party package; it is the argument \<open>private_bytes\<close>.\<close>

definition generate_keypair :: "ed25519 \<Rightarrow> bytes \<Rightarrow> string \<times> string \<times> jdict" where
  "generate_keypair ed private_bytes =
    (let public_bytes = ed_public ed private_bytes
     in (b64encode private_bytes @ newline, b64encode public_bytes @ newline,
         [(''algorithm'', JStr ''ed25519''), (''key_id'', JStr (key_id public_bytes))]))"

definition public_key_info :: "string option \<Rightarrow> jdict res" where
  "public_key_info key =
    rbind (key_bytes key) (\<lambda>public_bytes.
    Inr [(''algorithm'', JStr ''ed25519''), (''key_id'', JStr (key_id public_bytes))])"

definition sign_object :: "ed25519 \<Rightarrow> json \<Rightarrow> string option \<Rightarrow> json res" where
  "sign_object ed obj private_key =
    rbind (key_bytes private_key) (\<lambda>private_bytes.
    Inr (JObj [(''format'', JStr SIGNATURE_FORMAT), (''algorithm'', JStr ''ed25519''),
      (''key_id'', JStr (key_id (ed_public ed private_bytes))),
      (''signature'', JStr (b64encode (ed_sign ed private_bytes (canonical_bytes obj))))]))"

record sig_check =
  sc_verified :: bool
  sc_key_id :: json
  sc_reason :: json

text \<open>
  One round of the loop over the trusted keys: whether the key verifies the signature. Unreadable files,
  malformed keys, a missing or malformed signature and a wrong signature are the exceptions that the
  loop skips; a signature that is not text raises \<open>TypeError\<close>, which it does not catch.
\<close>

definition try_key :: "ed25519 \<Rightarrow> json \<Rightarrow> jdict \<Rightarrow> string option \<Rightarrow> bool res" where
  "try_key ed obj sg content = (case content of
     None \<Rightarrow> Inr False
   | Some t \<Rightarrow> (case b64decode (strip t) of
       Inl _ \<Rightarrow> Inr False
     | Inr public_bytes \<Rightarrow>
         if JStr (key_id public_bytes) \<noteq> jget sg ''key_id'' then Inr False
         else if length public_bytes \<noteq> 32 then Inr False
         else (case map_of sg ''signature'' of
             None \<Rightarrow> Inr False
           | Some (JStr s) \<Rightarrow> (case b64decode s of
               Inl _ \<Rightarrow> Inr False
             | Inr raw \<Rightarrow> Inr (ed_verify ed public_bytes raw (canonical_bytes obj)))
           | Some _ \<Rightarrow> Inl TypeError)))"

fun any_key :: "ed25519 \<Rightarrow> json \<Rightarrow> jdict \<Rightarrow> string option list \<Rightarrow> bool res" where
  "any_key ed obj sg [] = Inr False"
| "any_key ed obj sg (key # keys) = rbind (try_key ed obj sg key) (\<lambda>ok. if ok then Inr True else any_key ed obj sg keys)"

definition verify_object_signature :: "ed25519 \<Rightarrow> json \<Rightarrow> json \<Rightarrow> string option list \<Rightarrow> sig_check res" where
  "verify_object_signature ed obj signature trusted = (case signature of
     JObj sg \<Rightarrow>
       if jget sg ''format'' \<noteq> JStr SIGNATURE_FORMAT \<or> jget sg ''algorithm'' \<noteq> JStr ''ed25519''
       then Inr \<lparr>sc_verified = False, sc_key_id = jget sg ''key_id'', sc_reason = JStr ''unsupported signature format''\<rparr>
       else rbind (any_key ed obj sg trusted) (\<lambda>ok.
         Inr (if ok then \<lparr>sc_verified = True, sc_key_id = jget sg ''key_id'', sc_reason = JNull\<rparr>
              else \<lparr>sc_verified = False, sc_key_id = jget sg ''key_id'',
                   sc_reason = JStr ''signature is not valid for a trusted key''\<rparr>))
   | _ \<Rightarrow> Inl AttributeError)"

section \<open>A signed object verifies\<close>

definition ed25519_correct :: "ed25519 \<Rightarrow> bool" where
  "ed25519_correct ed \<longleftrightarrow> (\<forall>sk m. length sk = 32 \<longrightarrow> length (ed_public ed sk) = 32 \<and> ed_verify ed (ed_public ed sk) (ed_sign ed sk m) m)"

text \<open>The private key's own public key is one of the trusted key files.\<close>

definition trusts_own :: "ed25519 \<Rightarrow> string option \<Rightarrow> string option list \<Rightarrow> bool" where
  "trusts_own ed private trusted \<longleftrightarrow> (\<exists>sk. key_bytes private = Inr sk \<and> (\<exists>key \<in> set trusted. key_bytes key = Inr (ed_public ed sk)))"

lemma key_bytes_generated:
  assumes "length raw = 32"
  shows "key_bytes (Some (b64encode raw @ newline)) = Inr raw"
  by (simp add: key_bytes_def assms)

lemma any_key_found:
  assumes "map_of sg ''signature'' = Some (JStr s)" and "key \<in> set keys" and "try_key ed obj sg key = Inr True"
  shows "any_key ed obj sg keys = Inr True"
  using assms(2)
proof (induction keys)
  case (Cons k keys)
  have "\<exists>ok. try_key ed obj sg k = Inr ok"
    by (auto simp: try_key_def assms(1) split: option.splits sum.splits)
  then show ?case using Cons assms(3) by (auto split: if_splits)
qed simp

lemma sign_then_verify:
  assumes "ed25519_correct ed" and "trusts_own ed private trusted"
  obtains sg where "sign_object ed obj private = Inr sg" and
    "\<exists>k. verify_object_signature ed obj sg trusted = Inr \<lparr>sc_verified = True, sc_key_id = k, sc_reason = JNull\<rparr>"
proof -
  obtain sk key where sk: "key_bytes private = Inr sk" and key: "key \<in> set trusted" "key_bytes key = Inr (ed_public ed sk)"
    using assms(2) by (auto simp: trusts_own_def)
  have len: "length sk = 32" using sk by (auto simp: key_bytes_def rbind_Inr_iff split: option.splits if_splits)
  let ?sg = "[(''format'', JStr SIGNATURE_FORMAT), (''algorithm'', JStr ''ed25519''),
      (''key_id'', JStr (key_id (ed_public ed sk))),
      (''signature'', JStr (b64encode (ed_sign ed sk (canonical_bytes obj))))]"
  have "try_key ed obj ?sg key = Inr True"
    using key(2) assms(1) len
    by (auto simp: try_key_def key_bytes_def ed25519_correct_def jget_def rbind_Inr_iff split: option.splits if_splits)
  then have "any_key ed obj ?sg trusted = Inr True" by (intro any_key_found [OF _ key(1)]) simp_all
  then show ?thesis by (intro that [of "JObj ?sg"]) (simp_all add: sign_object_def sk verify_object_signature_def jget_def)
qed

end
