(* ===== verification/Genesis.thy ===== *)
theory Genesis
  imports Archive Bogboot Signing
begin

text \<open>
  The signed, hash-chained ledger and the copy-on-write file state of \<^verbatim>\<open>src/bogvm/genesis.py\<close>: \<open>record\<close> and
  \<open>verify_ledger\<close>, \<open>fs_write\<close>, \<open>fs_read\<close>, \<open>rollback\<close> and \<open>replay_session\<close>.

  The files under the \<open>genesis\<close> directory are the record \<open>genesis\<close>: the ledger directory, the object
  store, the saved manifests and the pointer to the current one. A ledger file is its parsed object,
  where \<open>None\<close> stands for a file that is not JSON; the text layer of the JSON files (written with an
  indent and sorted keys, then read back as the same dictionary) is not repeated. An operation is a
  function of the directory that returns its result and the directory afterwards, so that what a call
  wrote before it raised stays written.

  Numbers in a tampered entry are compared as integers or Booleans; a number with a fraction never equals
  a sequence number, and a float member is kept as its text. The registry, the lock file and the package
  store are other components: the failures that their checks report are arguments of \<open>replay_session\<close>.
\<close>

section \<open>JSON values as Python values\<close>

text \<open>Truth of a value, \<open>str\<close> of a value, and the disjunction \<open>a or b\<close>. Lists and objects print as JSON here.\<close>

fun truthy :: "json \<Rightarrow> bool" where
  "truthy JNull = False"
| "truthy (JBool b) = b"
| "truthy (JInt i) = (i \<noteq> 0)"
| "truthy (JFloat s) = list_ex (\<lambda>c. c \<in> set ''123456789'') (takeWhile (\<lambda>c. c \<noteq> CHR ''e'' \<and> c \<noteq> CHR ''E'') s)"
| "truthy (JStr s) = (s \<noteq> [])"
| "truthy (JList js) = (js \<noteq> [])"
| "truthy (JObj kvs) = (kvs \<noteq> [])"
| "truthy (JIntObj kvs) = (kvs \<noteq> [])"

fun value_str :: "json \<Rightarrow> string" where
  "value_str JNull = ''None''"
| "value_str (JBool b) = (if b then ''True'' else ''False'')"
| "value_str (JInt i) = str_int i"
| "value_str (JStr s) = s"
| "value_str j = dumps j"

definition py_or :: "json \<Rightarrow> json \<Rightarrow> json" where
  "py_or a b = (if truthy a then a else b)"

definition is_number :: "json \<Rightarrow> int \<Rightarrow> bool" where
  "is_number j n \<longleftrightarrow> j = JInt n \<or> j = JBool True \<and> n = 1 \<or> j = JBool False \<and> n = 0"

definition jget_or :: "jdict \<Rightarrow> string \<Rightarrow> json \<Rightarrow> json" where
  "jget_or d k v = (case map_of d k of None \<Rightarrow> v | Some w \<Rightarrow> w)"

text \<open>\<open>{**d, k: v, ...}\<close>, and a failure item.\<close>

definition jmerge :: "jdict \<Rightarrow> jdict \<Rightarrow> jdict" where
  "jmerge d kvs = foldl (\<lambda>d (k, v). AList.update k v d) d kvs"

definition jfailure :: "string \<Rightarrow> string \<Rightarrow> json" where
  "jfailure path reason = JObj [(''path'', JStr path), (''reason'', JStr reason)]"

definition status_json :: "json list \<Rightarrow> json" where
  "status_json failures = JStr (if failures = [] then ''completed'' else ''blocked'')"

section \<open>The directory\<close>

record file_ref =
  fr_object_sha256 :: string
  fr_size :: int

type_synonym files = "(string, file_ref) pydict"

record genesis =
  gn_ledger :: "(string, jdict option) pydict"
  gn_objects :: "(string, bytes) pydict"
  gn_states :: "(string, files) pydict"
  gn_current_root :: "string option"

record genesis_env =
  ge_ed :: ed25519
  ge_private_key :: "string option"
  ge_trusted_keys :: "string option list"
  ge_receipt_schema :: "json schema_validator"

definition LEDGER_FORMAT :: string where
  "LEDGER_FORMAT = ''BOGOS-Genesis-ledger-entry-9.0''"

definition ZERO_HASH :: string where
  "ZERO_HASH = replicate 64 (CHR ''0'')"

section \<open>The ledger\<close>

definition broken_entry :: jdict where
  "broken_entry = [(''sequence'', JInt (- 1)), (''receipt_hash'', JStr []), (''previous_hash'', JStr []), (''signature'', JObj [])]"

definition entries :: "genesis \<Rightarrow> jdict list" where
  "entries g = map (\<lambda>(_, content). case content of None \<Rightarrow> broken_entry | Some entry \<Rightarrow> entry) (sort_key fst (gn_ledger g))"

definition last_hash :: "genesis \<Rightarrow> json" where
  "last_hash g = (if entries g = [] then JStr ZERO_HASH else jget_or (last (entries g)) ''receipt_hash'' (JStr ZERO_HASH))"

definition ledger_file :: "nat \<Rightarrow> string \<Rightarrow> string" where
  "ledger_file sequence event = pad6 sequence @ ''_'' @ event @ ''.json''"

definition ledger_payload :: "genesis \<Rightarrow> string \<Rightarrow> jdict \<Rightarrow> jdict" where
  "ledger_payload g event receipt = jmerge receipt
    [(''ledger_format'', JStr LEDGER_FORMAT), (''sequence'', JInt (int (length (entries g) + 1))),
     (''event'', JStr event), (''previous_hash'', last_hash g)]"

definition record_entry :: "genesis_env \<Rightarrow> string \<Rightarrow> jdict \<Rightarrow> (genesis, jdict) action" where
  "record_entry env event receipt = (\<lambda>g.
    let sequence = length (entries g) + 1;
        payload = ledger_payload g event receipt;
        receipt_hash = stable_hash (JObj payload);
        unsigned = AList.update ''receipt_hash'' (JStr receipt_hash) payload
    in case sign_object (ge_ed env) (JObj unsigned) (ge_private_key env) of
         Inl e \<Rightarrow> (Inl e, g)
       | Inr signature \<Rightarrow>
           let signed = AList.update ''signature'' signature unsigned
           in case validate_schema (ge_receipt_schema env) (JObj signed) ''genesis-receipt.schema.json'' of
                Inl (SchemaError e) \<Rightarrow> (Inl (GenesisError e), g)
              | Inl e \<Rightarrow> (Inl e, g)
              | Inr _ \<Rightarrow> (Inr signed, g\<lparr>gn_ledger := AList.update (ledger_file sequence event) (Some signed) (gn_ledger g)\<rparr>))"

text \<open>One round of the loop of \<open>verify_ledger\<close>: the failures of an entry and the next \<open>previous\<close>.\<close>

definition entry_payload :: "jdict \<Rightarrow> jdict" where
  "entry_payload entry = AList.delete ''receipt_hash'' (AList.delete ''signature'' entry)"

definition check_entry :: "genesis_env \<Rightarrow> nat \<Rightarrow> json \<Rightarrow> jdict \<Rightarrow> (json list \<times> json) res" where
  "check_entry env expected previous entry =
    (let signature = jget_or entry ''signature'' (JObj []);
         unsigned = AList.delete ''signature'' entry;
         payload = entry_payload entry;
         receipt_hash = jget unsigned ''receipt_hash'';
         at = str_nat expected
     in rbind (verify_object_signature (ge_ed env) (JObj unsigned) signature (ge_trusted_keys env)) (\<lambda>check.
        Inr ((if \<not> is_number (jget entry ''sequence'') (int expected) then [jfailure at ''ledger sequence mismatch''] else []) @
             (if jget entry ''previous_hash'' \<noteq> previous then [jfailure at ''ledger previous hash mismatch''] else []) @
             (if JStr (stable_hash (JObj payload)) \<noteq> receipt_hash then [jfailure at ''ledger receipt hash mismatch''] else []) @
             (if \<not> sc_verified check then [jfailure at ''ledger signature verification failed''] else []),
             py_or receipt_hash previous)))"

fun check_entries :: "genesis_env \<Rightarrow> nat \<Rightarrow> json \<Rightarrow> jdict list \<Rightarrow> (json list \<times> json) res" where
  "check_entries env expected previous [] = Inr ([], previous)"
| "check_entries env expected previous (entry # rest) =
    rbind (check_entry env expected previous entry) (\<lambda>(failures, previous').
    rbind (check_entries env (expected + 1) previous' rest) (\<lambda>(more, root).
    Inr (failures @ more, root)))"

record ledger_report =
  lr_ledger_verified :: bool
  lr_entry_count :: nat
  lr_ledger_root_sha256 :: json
  lr_failures :: "json list"

definition verify_genesis :: "genesis_env \<Rightarrow> genesis \<Rightarrow> ledger_report res" where
  "verify_genesis env g =
    rbind (check_entries env 1 (JStr ZERO_HASH) (entries g)) (\<lambda>(failures, root).
    Inr \<lparr>lr_ledger_verified = (failures = []), lr_entry_count = length (entries g),
         lr_ledger_root_sha256 = root, lr_failures = failures\<rparr>)"

text \<open>
  A selector is a receipt number or a receipt digest. \<open>str.isdigit\<close> also holds of the superscript digits,
  which \<open>int\<close> refuses; the index is a Python index, so that the number 0 stands for the last entry.
\<close>

definition is_digit_char :: "char \<Rightarrow> bool" where
  "is_digit_char c \<longleftrightarrow> is_digit c \<or> (of_char c :: nat) \<in> {178, 179, 185}"

definition read_entry :: "genesis \<Rightarrow> string \<Rightarrow> jdict res" where
  "read_entry g selector =
    (let unknown = Inl (GenesisError (''unknown ledger receipt: '' @ selector)); es = entries g
     in if selector \<noteq> [] \<and> list_all is_digit_char selector
        then (if \<not> list_all is_digit selector then Inl (ValueError ''invalid literal for int()'')
              else let n = nat_of_digits 0 selector
                   in if n = 0 then (if es = [] then unknown else Inr (last es))
                      else if n \<le> length es then Inr (es ! (n - 1)) else unknown)
        else (case filter (\<lambda>entry. jget entry ''receipt_hash'' = JStr selector) es of
                [] \<Rightarrow> unknown | entry # _ \<Rightarrow> Inr entry))"

section \<open>The file state\<close>

definition files_json :: "files \<Rightarrow> json" where
  "files_json files = JObj (map (\<lambda>(p, r). (p, JObj [(''object_sha256'', JStr (fr_object_sha256 r)), (''size'', JInt (fr_size r))])) files)"

definition manifest_root :: "files \<Rightarrow> string" where
  "manifest_root files = stable_hash (JObj [(''files'', files_json files)])"

definition save_manifest :: "files \<Rightarrow> (genesis, string) action" where
  "save_manifest files = (\<lambda>g. let root = manifest_root files
     in (Inr root, g\<lparr>gn_states := AList.update root files (gn_states g), gn_current_root := Some root\<rparr>))"

definition current_manifest :: "(genesis, files) action" where
  "current_manifest = (\<lambda>g.
    let g' = (case gn_current_root g of None \<Rightarrow> snd (save_manifest [] g) | Some _ \<Rightarrow> g);
        root = (case gn_current_root g' of None \<Rightarrow> [] | Some r \<Rightarrow> r)
    in ((case map_of (gn_states g') root of None \<Rightarrow> Inl (FileNotFoundError (root @ ''.json'')) | Some files \<Rightarrow> Inr files), g'))"

definition current_root :: "(genesis, string) action" where
  "current_root = abind current_manifest (\<lambda>_. aread (\<lambda>g. case gn_current_root g of
     None \<Rightarrow> Inl (FileNotFoundError ''current_root'') | Some r \<Rightarrow> Inr r))"

definition safe_path :: "string \<Rightarrow> string res" where
  "safe_path path =
    (if is_absolute path \<or> ''..'' \<in> set (path_parts path) \<or> path = []
     then Inl (GenesisError (''unsafe Genesis path: '' @ path))
     else Inr (if path_parts path = [] then ''.'' else join_slash (path_parts path)))"

definition store_object :: "bytes \<Rightarrow> (genesis, string) action" where
  "store_object data = (\<lambda>g. let object_hash = hexdigest data
     in (Inr object_hash,
         if object_hash \<in> fst ` set (gn_objects g) then g
         else g\<lparr>gn_objects := AList.update object_hash data (gn_objects g)\<rparr>))"

definition fs_write :: "genesis_env \<Rightarrow> string \<Rightarrow> bytes \<Rightarrow> string \<Rightarrow> (genesis, jdict) action" where
  "fs_write env path data capability =
    abind (alift (safe_path path)) (\<lambda>rel.
    abind current_manifest (\<lambda>before.
    abind (store_object data) (\<lambda>object_hash.
    abind (save_manifest (AList.update rel \<lparr>fr_object_sha256 = object_hash, fr_size = int (length data)\<rparr> before)) (\<lambda>after_root.
    record_entry env ''fs-write''
      [(''format'', JStr ''BOGOS-Genesis-fs-write-receipt-9.0''), (''path'', JStr rel), (''capability'', JStr capability),
       (''object_sha256'', JStr object_hash), (''before_root_sha256'', JStr (manifest_root before)),
       (''after_root_sha256'', JStr after_root), (''execution_status'', JStr ''completed'')]))))"

text \<open>
  The data of a write is text or bytes; any other value goes through \<open>bytes(data)\<close>, where a number is that many
  zero bytes and a list or a dictionary gives one byte for each item or key. The path is checked before the
  data is converted.
\<close>

definition one_byte :: "json \<Rightarrow> byte res" where
  "one_byte j = (case j of
     JInt n \<Rightarrow> if 0 \<le> n \<and> n < 256 then Inr (word_of_int n) else Inl (ValueError ''bytes must be in range(0, 256)'')
   | JBool b \<Rightarrow> Inr (of_bool b) | _ \<Rightarrow> Inl TypeError)"

definition encoded_data :: "json \<Rightarrow> bytes res" where
  "encoded_data j = (case j of
     JStr s \<Rightarrow> Inr (utf8 s)
   | JBool b \<Rightarrow> Inr (replicate (of_bool b) 0)
   | JInt n \<Rightarrow> if n < 0 then Inl (ValueError ''negative count'') else Inr (replicate (nat n) 0)
   | JList js \<Rightarrow> map_res one_byte js
   | JObj kvs \<Rightarrow> map_res (\<lambda>(k, _). one_byte (JStr k)) kvs
   | JIntObj kvs \<Rightarrow> map_res (\<lambda>(k, _). one_byte (JInt k)) kvs
   | _ \<Rightarrow> Inl TypeError)"

definition fs_write_value :: "genesis_env \<Rightarrow> string \<Rightarrow> bytes res \<Rightarrow> string \<Rightarrow> (genesis, jdict) action" where
  "fs_write_value env path encoded capability =
    abind (alift (safe_path path)) (\<lambda>_. abind (alift encoded) (\<lambda>data. fs_write env path data capability))"

definition read_object :: "file_ref option \<Rightarrow> (genesis, bytes) action" where
  "read_object entry = (case entry of
     None \<Rightarrow> alift (Inr [])
   | Some r \<Rightarrow> aread (\<lambda>g. case map_of (gn_objects g) (fr_object_sha256 r) of
       None \<Rightarrow> Inl (FileNotFoundError (fr_object_sha256 r)) | Some data \<Rightarrow> Inr data))"

definition fs_read :: "genesis_env \<Rightarrow> string \<Rightarrow> string \<Rightarrow> (genesis, bytes \<times> jdict) action" where
  "fs_read env path capability =
    abind (alift (safe_path path)) (\<lambda>rel.
    abind current_manifest (\<lambda>files.
    let entry = map_of files rel;
        failures = (if entry = None then [jfailure rel ''file does not exist in Genesis state''] else [])
    in abind (read_object entry) (\<lambda>data.
       abind current_root (\<lambda>root.
       abind (record_entry env ''fs-read''
         [(''format'', JStr ''BOGOS-Genesis-fs-read-receipt-9.0''), (''path'', JStr rel), (''capability'', JStr capability),
          (''object_sha256'', if entry = None then JNull else JStr (hexdigest data)),
          (''state_root_sha256'', JStr root), (''failures'', JList failures), (''execution_status'', status_json failures)])
       (\<lambda>receipt. alift (Inr (data, receipt)))))))"

section \<open>Rollback\<close>

definition target_root :: "jdict \<Rightarrow> json" where
  "target_root entry =
    py_or (py_or (jget entry ''after_root_sha256'') (jget entry ''state_root_sha256'')) (jget entry ''initial_state_root'')"

definition set_current_root :: "json \<Rightarrow> (genesis, unit) action" where
  "set_current_root root = (case root of
     JStr r \<Rightarrow> (\<lambda>g. (Inr (), g\<lparr>gn_current_root := Some r\<rparr>))
   | _ \<Rightarrow> alift (Inl TypeError))"

definition rollback :: "genesis_env \<Rightarrow> string \<Rightarrow> (genesis, jdict) action" where
  "rollback env selector =
    abind (aread (\<lambda>g. read_entry g selector)) (\<lambda>entry.
    let target = target_root entry
    in abind (aread (\<lambda>g. Inr (if \<not> truthy target \<or> value_str target \<notin> fst ` set (gn_states g)
         then [jfailure selector ''receipt does not identify a recoverable state root''] else []))) (\<lambda>failures.
       abind current_root (\<lambda>before.
       abind (if failures = [] then set_current_root target else alift (Inr ())) (\<lambda>_.
       abind (alift (jmember entry ''receipt_hash'')) (\<lambda>source_receipt.
       abind (if failures = [] then abind current_root (\<lambda>now. alift (Inr (JStr now = target))) else alift (Inr False)) (\<lambda>verified.
       record_entry env ''rollback''
         [(''format'', JStr ''BOGOS-Genesis-rollback-receipt-9.0''), (''source_receipt'', source_receipt),
          (''before_root_sha256'', JStr before), (''after_root_sha256'', target),
          (''rollback_verified'', JBool verified), (''failures'', JList failures), (''execution_status'', status_json failures)]))))))"

section \<open>Replay\<close>

definition as_dict :: "json \<Rightarrow> jdict res" where
  "as_dict j = (case j of JObj kvs \<Rightarrow> Inr kvs | _ \<Rightarrow> Inl AttributeError)"

definition as_list :: "json \<Rightarrow> json list res" where
  "as_list j = (case j of JList js \<Rightarrow> Inr js | _ \<Rightarrow> Inl TypeError)"

definition call_failures :: "string \<Rightarrow> json \<Rightarrow> json list res" where
  "call_failures app call =
    rbind (as_dict call) (\<lambda>members.
    let evidence = filter (\<lambda>(k, _). k \<notin> set [''format'', ''sequence'', ''app'', ''evidence_sha256'', ''failures'']) members
    in Inr (if JStr (stable_hash (JObj evidence)) \<noteq> jget members ''evidence_sha256''
            then [jfailure app ''capability syscall evidence hash mismatch''] else []))"

definition replay_process :: "jdict \<Rightarrow> json list res" where
  "replay_process entry =
    (let app = value_str (jget_or entry ''app'' (JStr ''app''))
     in rbind (as_dict (jget_or entry ''process_receipt'' (JObj []))) (\<lambda>process.
        rbind (as_list (jget_or process ''syscall_receipts'' (JList []))) (\<lambda>calls.
        rbind (map_res (call_failures app) calls) (\<lambda>failures.
        Inr ((if JStr (stable_hash (jget_or process ''proof_material'' (JObj []))) \<noteq> jget process ''proof_sha256''
              then [jfailure app ''brokered process proof hash mismatch''] else []) @ concat failures)))))"

definition replay_write :: "genesis \<Rightarrow> json \<Rightarrow> jdict \<Rightarrow> (json \<times> json list) res" where
  "replay_write g virtual_root entry =
    rbind (jmember entry ''before_root_sha256'') (\<lambda>before.
    rbind (if before \<noteq> virtual_root
           then rbind (jmember entry ''sequence'') (\<lambda>s. Inr [jfailure (value_str s) ''write replay root mismatch'']) else Inr []) (\<lambda>failures.
    rbind (jmember entry ''after_root_sha256'') (\<lambda>after.
    rbind (jmember entry ''object_sha256'') (\<lambda>obj. case obj of
      JStr name \<Rightarrow> Inr (after, failures @ (if name \<in> fst ` set (gn_objects g) then [] else [jfailure name ''replay object missing'']))
    | _ \<Rightarrow> Inl TypeError))))"

definition replay_entry :: "(string \<Rightarrow> bool) \<Rightarrow> genesis \<Rightarrow> json \<times> json list \<Rightarrow> jdict \<Rightarrow> (json \<times> json list) res" where
  "replay_entry installed_ok g = (\<lambda>(virtual_root, failures) entry.
    rbind (jmember entry ''event'') (\<lambda>event.
    if event = JStr ''trusted-boot'' then Inr (jget_or entry ''state_root_sha256'' virtual_root, failures)
    else if event = JStr ''fs-write'' then
      rbind (replay_write g virtual_root entry) (\<lambda>(root, more). Inr (root, failures @ more))
    else if event = JStr ''rollback'' then
      rbind (jmember entry ''after_root_sha256'') (\<lambda>after. Inr (after, failures))
    else if event = JStr ''install'' \<and> jget entry ''execution_status'' = JStr ''completed'' then
      rbind (jmember entry ''package'') (\<lambda>package.
      Inr (virtual_root, failures @ (if installed_ok (value_str package) then []
        else [jfailure (value_str package) ''installed package failed session replay verification''])))
    else if event = JStr ''app-run'' then
      rbind (replay_process entry) (\<lambda>more. Inr (virtual_root, failures @ more))
    else Inr (virtual_root, failures)))"

text \<open>
  The optional source receipt: its path and its parsed object, where \<open>None\<close> stands for a file that cannot
  be read or parsed.
\<close>

definition source_failures :: "genesis_env \<Rightarrow> genesis \<Rightarrow> string \<Rightarrow> jdict option \<Rightarrow> json list res" where
  "source_failures env g path content = (case content of
     None \<Rightarrow> Inr [jfailure path ''invalid source Genesis receipt: '']
   | Some source \<Rightarrow> (case map_of source ''signature'' of
       None \<Rightarrow> Inr [jfailure path (''invalid source Genesis receipt: '' @ [CHR 0x27] @ ''signature'' @ [CHR 0x27])]
     | Some signature \<Rightarrow>
         rbind (verify_object_signature (ge_ed env) (JObj (AList.delete ''signature'' source)) signature (ge_trusted_keys env)) (\<lambda>check.
         Inr ((if \<not> sc_verified check then [jfailure path ''source Genesis receipt signature is invalid''] else []) @
              (if jget source ''format'' \<noteq> JStr ''BOGOS-Genesis-final-receipt-9.0''
               then [jfailure path ''source is not a Genesis final receipt''] else []) @
              (if jget source ''genesis_session_root'' \<notin> set (map (\<lambda>entry. jget entry ''receipt_hash'') (entries g))
               then [jfailure path ''source Genesis session root is not in the ledger''] else [])))))"

definition replay_failures ::
  "genesis_env \<Rightarrow> json list \<Rightarrow> json list \<Rightarrow> (string \<times> jdict option) option \<Rightarrow> genesis \<Rightarrow> (ledger_report \<times> json list) res" where
  "replay_failures env registry_failures lock_failures source g =
    rbind (verify_genesis env g) (\<lambda>chain.
    let uses_registry = (\<exists>entry \<in> set (entries g).
          jget entry ''event'' \<in> set (map JStr [''registry-sync'', ''lock'', ''install'', ''app-run'']))
    in rbind (case source of None \<Rightarrow> Inr [] | Some (path, content) \<Rightarrow> source_failures env g path content) (\<lambda>more.
       Inr (chain, lr_failures chain @ (if uses_registry then registry_failures @ lock_failures else []) @ more)))"

definition replay_session ::
  "genesis_env \<Rightarrow> json list \<Rightarrow> json list \<Rightarrow> (string \<Rightarrow> bool) \<Rightarrow> (string \<times> jdict option) option \<Rightarrow> (genesis, jdict) action" where
  "replay_session env registry_failures lock_failures installed_ok source =
    abind (aread (replay_failures env registry_failures lock_failures source)) (\<lambda>(chain, failures0).
    abind (aread (\<lambda>g. fold_res (replay_entry installed_ok g) (JStr ZERO_HASH, failures0) (entries g))) (\<lambda>(virtual_root, failures1).
    abind (aread (\<lambda>g. Inr (length (entries g)))) (\<lambda>count.
    abind current_root (\<lambda>root.
    let failures = failures1 @ (if virtual_root \<noteq> JStr root then [jfailure ''state'' ''replayed final workspace root mismatch''] else [])
    in record_entry env ''replay-session''
      [(''format'', JStr ''BOGOS-Genesis-session-replay-receipt-9.0''),
       (''source_receipt'', case source of None \<Rightarrow> JNull | Some (path, _) \<Rightarrow> if path = [] then JNull else JStr path),
       (''source_genesis_session_root'', case source of Some (_, Some s) \<Rightarrow> (if s = [] then JNull else jget s ''genesis_session_root'') | _ \<Rightarrow> JNull),
       (''ledger_root_sha256'', lr_ledger_root_sha256 chain), (''replayed_event_count'', JInt (int count)),
       (''replayed_final_state_root_sha256'', virtual_root), (''full_session_replay_verified'', JBool (failures = [])),
       (''failures'', JList failures), (''execution_status'', status_json failures)]))))"

end
