(* ===== verification/Json_Indent.thy ===== *)
theory Json_Indent
  imports Json
begin

text \<open>
  \<open>json.dumps(obj, indent=2, sort_keys=True)\<close>, the form in which the sources write JSON files, and that
  \<open>json.loads\<close> reads it back. The items of a list or object stand on lines of their own, indented by two
  spaces per level; empty lists and objects stay on one line.
\<close>

section \<open>Writing\<close>

definition indent_line :: "nat \<Rightarrow> string" where
  "indent_line d = newline @ replicate (2 * d) (CHR '' '')"

fun join_lines :: "nat \<Rightarrow> string list \<Rightarrow> string" where
  "join_lines d [] = ''''"
| "join_lines d [s] = s"
| "join_lines d (s # t # ss) = s @ '','' @ indent_line d @ join_lines d (t # ss)"

definition indent_block :: "nat \<Rightarrow> char \<Rightarrow> string list \<Rightarrow> char \<Rightarrow> string" where
  "indent_block d opening items closing =
    (if items = [] then [opening, closing]
     else opening # indent_line (d + 1) @ join_lines (d + 1) items @ indent_line d @ [closing])"

definition indent_members :: "nat \<Rightarrow> (string \<times> string) list \<Rightarrow> string" where
  "indent_members d members =
    indent_block d (CHR ''{'') (map (\<lambda>(k, s). json_string k @ '': '' @ s) members) (CHR ''}'')"

fun dumps_indent :: "nat \<Rightarrow> json \<Rightarrow> string" where
  "dumps_indent d (JList js) = indent_block d (CHR ''['') (map (dumps_indent (d + 1)) js) (CHR '']'')"
| "dumps_indent d (JObj kvs) = indent_members d (sort_key fst (map (\<lambda>(k, v). (k, dumps_indent (d + 1) v)) kvs))"
| "dumps_indent d (JIntObj kvs) =
     indent_members d (map (\<lambda>(k, s). (str_int k, s)) (sort_key fst (map (\<lambda>(k, v). (k, dumps_indent (d + 1) v)) kvs)))"
| "dumps_indent d j = dumps j"

section \<open>Reading it back\<close>

lemma skip_indent [simp]: "skip_space (indent_line d @ s) = skip_space s"
proof -
  have "\<forall>c \<in> set (indent_line d). is_json_space c"
    by (auto simp: indent_line_def newline_def is_json_space_def)
  then show ?thesis by (simp add: skip_space_def dropWhile_append2)
qed

lemma delimited_indent [simp]: "delimited (indent_line d @ s)"
proof -
  have "\<not> is_digit (char_of (10 :: nat)) \<and> char_of (10 :: nat) \<notin> {CHR ''.'', CHR ''e'', CHR ''E''}" by code_simp
  then show ?thesis by (auto simp: delimited_def indent_line_def newline_def)
qed

lemma skip_blank [simp]: "skip_space (CHR '' '' # s) = skip_space s"
  by (simp add: skip_space_def is_json_space_def)

lemma dumps_indent_JObj:
  "dumps_indent d (JObj kvs) = indent_members d (map (\<lambda>(k, v). (k, dumps_indent (d + 1) v)) (sort_key fst kvs))"
  by (simp add: sort_key_map [where f' = fst] case_prod_unfold)

lemma dumps_indent_JIntObj:
  "dumps_indent d (JIntObj kvs) = indent_members d (map (\<lambda>(k, v). (str_int k, dumps_indent (d + 1) v)) (sort_key fst kvs))"
  by (simp add: sort_key_map [where f' = fst] case_prod_unfold comp_def)

lemma indent_block_head: "\<exists>cs. indent_block d opening items closing = opening # cs"
  by (simp add: indent_block_def)

lemma dumps_indent_head:
  assumes "json_ok j"
  obtains c cs where "dumps_indent d j = c # cs" and "\<not> is_json_space c" and "c \<noteq> CHR '']''"
proof -
  have "\<exists>c cs. dumps_indent d j = c # cs \<and> \<not> is_json_space c \<and> c \<noteq> CHR '']''"
  proof (cases j)
    case (JList js)
    then show ?thesis using indent_block_head by (fastforce simp: is_json_space_def)
  next
    case (JObj kvs)
    then show ?thesis using indent_block_head by (fastforce simp: indent_members_def is_json_space_def)
  next
    case (JIntObj kvs)
    then show ?thesis using indent_block_head by (fastforce simp: indent_members_def is_json_space_def)
  qed (use dumps_head [OF assms] in \<open>simp del: dumps.simps; metis\<close>)+
  then show thesis using that by blast
qed

lemma skip_space_dumps_indent: "json_ok j \<Longrightarrow> skip_space (dumps_indent d j @ rest) = dumps_indent d j @ rest"
  using dumps_indent_head skip_space_id by metis

definition reads_indent :: "json \<Rightarrow> bool" where
  "reads_indent j \<longleftrightarrow> (\<forall>d n rest. length (dumps_indent d j) < n \<longrightarrow> delimited rest \<longrightarrow>
     parse_value n (dumps_indent d j @ rest) = Inr (canon j, rest))"

lemma reads_indentD:
  "reads_indent j \<Longrightarrow> length (dumps_indent d j) < n \<Longrightarrow> delimited rest \<Longrightarrow>
   parse_value n (dumps_indent d j @ rest) = Inr (canon j, rest)"
  by (simp add: reads_indent_def)

lemma parse_elements_indent:
  assumes "js \<noteq> []" and "\<forall>j \<in> set js. json_ok j \<and> reads_indent j"
    and "length (join_lines d (map (dumps_indent d) js)) + 1 < n"
  shows "parse_elements n (indent_line d @ join_lines d (map (dumps_indent d) js) @ indent_line e @ CHR '']'' # rest) =
    Inr (map canon js, rest)"
  using assms
proof (induction js arbitrary: n)
  case (Cons j js)
  obtain m where n: "n = Suc m" using Cons.prems(3) by (cases n) auto
  have j: "json_ok j" "reads_indent j" using Cons.prems(2) by auto
  show ?case
  proof (cases js)
    case Nil
    have "parse_value m (dumps_indent d j @ indent_line e @ CHR '']'' # rest) = Inr (canon j, indent_line e @ CHR '']'' # rest)"
      using Cons.prems(3) n Nil by (intro reads_indentD [OF j(2)]) simp_all
    then show ?thesis using Nil n by (simp add: skip_space_dumps_indent [OF j(1)])
  next
    case more: (Cons k ks)
    let ?tail = "indent_line d @ join_lines d (map (dumps_indent d) js) @ indent_line e @ CHR '']'' # rest"
    have eq: "join_lines d (map (dumps_indent d) (j # js)) @ indent_line e @ CHR '']'' # rest = dumps_indent d j @ CHR '','' # ?tail"
      using more by simp
    have lens: "length (dumps_indent d j) < m" "length (join_lines d (map (dumps_indent d) js)) + 1 < m"
      using Cons.prems(3) more n by simp_all
    have "parse_value m (dumps_indent d j @ CHR '','' # ?tail) = Inr (canon j, CHR '','' # ?tail)"
      by (rule reads_indentD [OF j(2) lens(1)]) simp
    moreover have "parse_elements m ?tail = Inr (map canon js, rest)"
      using Cons.IH [of m] Cons.prems(2) more lens(2) by simp
    ultimately show ?thesis unfolding eq n by (simp add: skip_space_dumps_indent [OF j(1)])
  qed
qed simp

lemma parse_members_indent:
  assumes "kvs \<noteq> []" and "\<forall>(k, v) \<in> set kvs. json_ok v \<and> reads_indent v"
    and "length (join_lines d (map (\<lambda>(k, v). json_string k @ '': '' @ dumps_indent d v) kvs)) + 1 < n"
  shows "parse_members n (indent_line d @ join_lines d (map (\<lambda>(k, v). json_string k @ '': '' @ dumps_indent d v) kvs) @
      indent_line e @ CHR ''}'' # rest) = Inr (map (\<lambda>(k, v). (k, canon v)) kvs, rest)"
  using assms
proof (induction kvs arbitrary: n)
  case (Cons kv kvs)
  obtain m where n: "n = Suc m" using Cons.prems(3) by (cases n) auto
  obtain k v where kv: "kv = (k, v)" by (cases kv)
  have v: "json_ok v" "reads_indent v" using Cons.prems(2) kv by auto
  let ?item = "\<lambda>(k, v). json_string k @ '': '' @ dumps_indent d v"
  let ?key = "quote # concat (map escape_char k) @ quote # CHR '':'' # CHR '' '' # dumps_indent d v"
  show ?case
  proof (cases kvs)
    case Nil
    have "parse_value m (dumps_indent d v @ indent_line e @ CHR ''}'' # rest) = Inr (canon v, indent_line e @ CHR ''}'' # rest)"
      using Cons.prems(3) n Nil kv by (intro reads_indentD [OF v(2)]) (simp_all add: json_string_head)
    then show ?thesis
      using Nil n kv parse_string_written [of "[]" k]
      by (simp add: json_string_head skip_space_dumps_indent [OF v(1)])
  next
    case more: (Cons x xs)
    let ?tail = "indent_line d @ join_lines d (map ?item kvs) @ indent_line e @ CHR ''}'' # rest"
    have eq: "join_lines d (map ?item (kv # kvs)) @ indent_line e @ CHR ''}'' # rest = ?key @ CHR '','' # ?tail"
      using more kv by (simp add: json_string_head)
    have lens: "length (dumps_indent d v) < m" "length (join_lines d (map ?item kvs)) + 1 < m"
      using Cons.prems(3) more n kv by (simp_all add: json_string_head)
    have "parse_value m (dumps_indent d v @ CHR '','' # ?tail) = Inr (canon v, CHR '','' # ?tail)"
      by (rule reads_indentD [OF v(2) lens(1)]) simp
    moreover have "parse_members m ?tail = Inr (map (\<lambda>(k, v). (k, canon v)) kvs, rest)"
      using Cons.IH [of m] Cons.prems(2) more lens(2) by simp
    ultimately show ?thesis
      unfolding eq n using parse_string_written [of "[]" k] kv
      by (simp add: skip_space_dumps_indent [OF v(1)])
  qed
qed simp

lemma parse_object_indent:
  assumes "\<forall>(k, v) \<in> set kvs. json_ok v \<and> reads_indent v" and "distinct (map fst kvs)"
    and "length (indent_members d (map (\<lambda>(k, v). (k, dumps_indent (d + 1) v)) kvs)) < n"
  shows "parse_value n (indent_members d (map (\<lambda>(k, v). (k, dumps_indent (d + 1) v)) kvs) @ rest) =
           Inr (JObj (map (\<lambda>(k, v). (k, canon v)) kvs), rest)"
proof -
  obtain m where n: "n = Suc m" using assms(3) by (cases n) auto
  show ?thesis
  proof (cases kvs)
    case Nil
    then show ?thesis by (simp add: n indent_members_def indent_block_def quote_def)
  next
    case more: (Cons kv rest')
    let ?body = "join_lines (d + 1) (map (\<lambda>(k, v). json_string k @ '': '' @ dumps_indent (d + 1) v) kvs)"
    have shown: "indent_members d (map (\<lambda>(k, v). (k, dumps_indent (d + 1) v)) kvs) =
        CHR ''{'' # indent_line (d + 1) @ ?body @ indent_line d @ ''}''"
      using more by (simp add: indent_members_def indent_block_def comp_def case_prod_unfold)
    obtain q where q: "?body = quote # q"
    proof -
      obtain k v where "kv = (k, v)" by (cases kv)
      then show thesis using that more by (cases rest') (simp_all add: json_string_head)
    qed
    have "parse_members m (indent_line (d + 1) @ ?body @ indent_line d @ CHR ''}'' # rest) = Inr (map (\<lambda>(k, v). (k, canon v)) kvs, rest)"
      using more assms(1,3) n shown by (intro parse_members_indent) auto
    then have members: "parse_members m (quote # q @ indent_line d @ CHR ''}'' # rest) = Inr (map (\<lambda>(k, v). (k, canon v)) kvs, rest)"
      using q by (cases m) simp_all
    have "distinct (map fst (map (\<lambda>(k, v). (k, canon v)) kvs))"
      using assms(2) by (simp add: comp_def case_prod_unfold)
    then have "foldl (\<lambda>d (k, v). AList.update k v d) [] (map (\<lambda>(k, v). (k, canon v)) kvs) =
        map (\<lambda>(k, v). (k, canon v)) kvs"
      using foldl_update_distinct [of "[]" "map (\<lambda>(k, v). (k, canon v)) kvs"] by simp
    then show ?thesis
      unfolding shown n using q members by (simp add: skip_space_quote [unfolded quote_def] quote_def)
  qed
qed

lemma parse_list_indent:
  assumes "\<forall>j \<in> set js. json_ok j \<and> reads_indent j" and "length (dumps_indent d (JList js)) < n"
  shows "parse_value n (dumps_indent d (JList js) @ rest) = Inr (canon (JList js), rest)"
proof -
  obtain m where n: "n = Suc m" using assms(2) by (cases n) auto
  show ?thesis
  proof (cases js)
    case Nil
    then show ?thesis by (simp add: n indent_block_def quote_def skip_space_def is_json_space_def)
  next
    case more: (Cons j js')
    let ?body = "join_lines (d + 1) (map (dumps_indent (d + 1)) js)"
    have shown: "dumps_indent d (JList js) = CHR ''['' # indent_line (d + 1) @ ?body @ indent_line d @ '']''"
      using more by (simp add: indent_block_def)
    have "json_ok j" using assms(1) more by simp
    then obtain c cs where c: "dumps_indent (d + 1) j = c # cs" "\<not> is_json_space c" "c \<noteq> CHR '']''" by (rule dumps_indent_head)
    obtain q where q: "?body = c # q" using c(1) more by (cases js') simp_all
    have skip: "skip_space (c # s) = c # s" for s using c(2) by (simp add: skip_space_def)
    have "parse_elements m (indent_line (d + 1) @ ?body @ indent_line d @ CHR '']'' # rest) = Inr (map canon js, rest)"
      using more assms n shown by (intro parse_elements_indent) auto
    then have "parse_elements m (c # q @ indent_line d @ CHR '']'' # rest) = Inr (map canon js, rest)"
      using q by (cases m) simp_all
    then show ?thesis using c(3) skip unfolding shown n q by (simp add: quote_def)
  qed
qed

lemma reads_indent_scalar:
  assumes "json_ok j" and "\<And>d. dumps_indent d j = dumps j"
  shows "reads_indent j"
  using parse_value_written [OF assms(1)] by (simp add: reads_indent_def reads_back_def assms(2))

lemma parse_value_indent: "json_ok j \<Longrightarrow> reads_indent j"
proof (induction j)
  case (JList js)
  have "reads_indent j" "json_ok j" if j: "j \<in> set js" for j
    using JList.IH [OF j] JList.prems j by (simp_all only: json_ok.simps)
  then show ?case unfolding reads_indent_def by (intro allI impI parse_list_indent) (simp_all add: reads_indent_def)
next
  case (JObj kvs)
  have val: "json_ok v \<and> reads_indent v" if kv: "(k, v) \<in> set kvs" for k v
    using JObj.IH [of "(k, v)" v] JObj.prems kv by auto
  have "\<forall>(k, v) \<in> set (sort_key fst kvs). json_ok v \<and> reads_indent v"
    using val by (simp only: set_sort) blast
  moreover have "distinct (map fst (sort_key fst kvs))"
    using JObj.prems by (simp add: distinct_map_sort_key)
  ultimately show ?case
    unfolding reads_indent_def dumps_indent_JObj canon_JObj by (intro allI impI parse_object_indent) (simp_all add: reads_indent_def)
next
  case (JIntObj kvs)
  let ?kvs = "map (\<lambda>(k, v). (str_int k, v)) (sort_key fst kvs)"
  have val: "json_ok v \<and> reads_indent v" if kv: "(k, v) \<in> set kvs" for k v
    using JIntObj.IH [of "(k, v)" v] JIntObj.prems kv by auto
  have "\<forall>(k, v) \<in> set ?kvs. json_ok v \<and> reads_indent v"
    using val by (clarsimp simp only: set_map set_sort image_iff) auto
  moreover have "distinct (map fst ?kvs)"
    using JIntObj.prems distinct_map_sort_key [of kvs]
      distinct_map_inj [of str_int "map fst (sort_key fst kvs)"] str_int_inj
    by (simp add: comp_def case_prod_unfold)
  moreover have "dumps_indent d (JIntObj kvs) = indent_members d (map (\<lambda>(k, v). (k, dumps_indent (d + 1) v)) ?kvs)"
      "canon (JIntObj kvs) = JObj (map (\<lambda>(k, v). (k, canon v)) ?kvs)" for d
    unfolding dumps_indent_JIntObj canon_JIntObj by (simp_all add: comp_def case_prod_unfold)
  ultimately show ?case
    unfolding reads_indent_def by (simp only:) (intro allI impI parse_object_indent; simp add: reads_indent_def)
qed (auto intro: reads_indent_scalar)

lemma loads_dumps_indent [roundtrip]:
  assumes "json_ok j"
  shows "loads (dumps_indent 0 j @ newline) = Inr (canon j)"
proof -
  have nl: "delimited newline" "skip_space newline = []"
    using delimited_indent [of 0 "[]"] skip_indent [of 0 "[]"] by (simp_all add: indent_line_def skip_space_def)
  have "parse_value (2 * length (dumps_indent 0 j @ newline) + 1) (dumps_indent 0 j @ newline) = Inr (canon j, newline)"
    by (intro reads_indentD [OF parse_value_indent [OF assms]] nl) simp
  then show ?thesis using skip_space_dumps_indent [OF assms, of 0 newline] nl(2) by (simp only: loads_def rbind_simps) simp
qed

end
