(* ===== verification/Store.thy ===== *)
theory Store
  imports Archive Json_Indent Signing
begin

text \<open>
  The package store, \<^verbatim>\<open>src/bogvm/store.py\<close>: bundling a directory as a signed package, installing a bundle, and
  verifying an installed package with everything it depends on.

  A bundle is the dictionary of its files, with the bytes that are on disk: the archive below \<^verbatim>\<open>archive/\<close>, with
  its manifest as JSON text, and the receipt \<^verbatim>\<open>receipt.json\<close>. The directories of a store are kept under the
  paths that the index records for them. The index file is kept as its parsed value, because it is never
  hashed: \<open>No_Index\<close> is a missing file, \<open>Bad_Index\<close> one that the reader refuses. A bundle to be installed
  is not a directory of the store itself. What a raising \<open>package_directory\<close> leaves in the bundle
  directory is not modelled.
\<close>

section \<open>JSON files\<close>

definition json_file :: "json \<Rightarrow> bytes" where
  "json_file j = utf8 (dumps_indent 0 j @ newline)"

definition file_entry_json :: "file_entry \<Rightarrow> json" where
  "file_entry_json e = JObj [(''path'', JStr (f_path e)), (''size'', JInt (f_size e)),
     (''sha256'', JStr (f_sha256 e)), (''object'', JStr (f_object e))]"

definition archive_manifest_json :: "archive_manifest \<Rightarrow> json" where
  "archive_manifest_json m = JObj
    [(''format'', JStr (am_format m)), (''container_format'', JStr (am_container_format m)),
     (''bogpk_version'', JInt (am_bogpk_version m)), (''source'', JStr (am_source m)),
     (''file_count'', JInt (am_file_count m)), (''files'', JList (map file_entry_json (am_files m))),
     (''tree_sha256'', JStr (am_tree_sha256 m))]"

text \<open>
  A parsed manifest as the record of its members. \<open>None\<close> is a value without the members and types that
  the manifest schema requires; reading it is an archive error, as for text that is not JSON.
\<close>

fun file_entry_of :: "json \<Rightarrow> file_entry option" where
  "file_entry_of (JObj kvs) = (case (jget kvs ''path'', jget kvs ''size'', jget kvs ''sha256'', jget kvs ''object'') of
     (JStr p, JInt n, JStr h, JStr obj) \<Rightarrow> Some \<lparr>f_path = p, f_size = n, f_sha256 = h, f_object = obj\<rparr>
   | _ \<Rightarrow> None)"
| "file_entry_of _ = None"

fun archive_manifest_of :: "json \<Rightarrow> archive_manifest option" where
  "archive_manifest_of (JObj kvs) =
    (case (jget kvs ''format'', jget kvs ''container_format'', jget kvs ''bogpk_version'', jget kvs ''source'',
           jget kvs ''file_count'', jget kvs ''files'', jget kvs ''tree_sha256'') of
       (JStr fmt, JStr cf, JInt v, JStr src, JInt n, JList js, JStr h) \<Rightarrow>
         map_option (\<lambda>es. \<lparr>am_format = fmt, am_container_format = cf, am_bogpk_version = v, am_source = src,
           am_file_count = n, am_files = es, am_tree_sha256 = h\<rparr>) (those (map file_entry_of js))
     | _ \<Rightarrow> None)"
| "archive_manifest_of _ = None"

section \<open>Bundles\<close>

definition in_archive :: "string \<Rightarrow> bool" where
  "in_archive p \<longleftrightarrow> take 8 p = ''archive/''"

text \<open>The files that \<open>build_directory_archive\<close> wrote, and the archive that the files of a bundle hold.\<close>

definition archive_files_of :: "archive \<Rightarrow> directory" where
  "archive_files_of ar = map (\<lambda>(p, data). (''archive/'' @ p, data)) (ar_objects ar) @
     (case ar_manifest ar of None \<Rightarrow> [] | Some m \<Rightarrow> [(''archive/manifest.json'', json_file (archive_manifest_json m))])"

definition archive_in :: "directory \<Rightarrow> archive res" where
  "archive_in d =
    (let objs = map (\<lambda>(p, data). (drop 8 p, data)) (filter (\<lambda>(p, _). in_archive p) d)
     in case map_of d ''archive/manifest.json'' of
          None \<Rightarrow> Inr \<lparr>ar_objects = objs, ar_manifest = None\<rparr>
        | Some data \<Rightarrow> rbind (utf8_decode data) (\<lambda>s.
            Inr \<lparr>ar_objects = objs, ar_manifest = (case loads s of Inl _ \<Rightarrow> None | Inr j \<Rightarrow> archive_manifest_of j)\<rparr>))"

text \<open>
  \<open>_directory_hash\<close>: the files in the order of their paths. A file called \<^verbatim>\<open>receipt.json\<close> counts without its
  signature and with an empty bundle digest, if it holds an object with that member.
\<close>

definition hashed_content :: "string \<Rightarrow> bytes \<Rightarrow> bytes res" where
  "hashed_content p data =
    (if path_parts p \<noteq> [] \<and> last (path_parts p) = ''receipt.json''
     then rbind (utf8_decode data) (\<lambda>s. case loads s of
         Inr (JObj receipt) \<Rightarrow>
           if ''bundle_sha256'' \<in> fst ` set receipt
           then Inr (utf8 (dumps (JObj (AList.delete ''signature'' (AList.update ''bundle_sha256'' (JStr []) receipt)))))
           else Inr data
       | _ \<Rightarrow> Inr data)
     else Inr data)"

definition directory_row :: "string \<times> bytes \<Rightarrow> bytes res" where
  "directory_row = (\<lambda>(p, data). rbind (hashed_content p data) (\<lambda>content. Inr (utf8 p @ [0] @ content @ [10])))"

definition directory_hash :: "directory \<Rightarrow> string res" where
  "directory_hash d = rbind (map_res directory_row (sorted_files d)) (\<lambda>rows. Inr (hexdigest (concat rows)))"

section \<open>Packaging\<close>

definition PACKAGE_RECEIPT_FORMAT :: string where
  "PACKAGE_RECEIPT_FORMAT = ''BOGPKG-receipt-7.0''"

record store_env =
  se_ed :: ed25519
  se_trusted_keys :: "string option list"
  se_require_signature :: bool
  se_container_schema :: "container schema_validator"
  se_manifest_schema :: "archive_manifest schema_validator"
  se_receipt_schema :: "json schema_validator"

definition new_receipt :: "string \<Rightarrow> string \<Rightarrow> archive_manifest \<Rightarrow> string list \<Rightarrow> string \<Rightarrow> jdict" where
  "new_receipt name version manifest dependencies bundle_hash =
    [(''format'', JStr PACKAGE_RECEIPT_FORMAT), (''name'', JStr name), (''version'', JStr version),
     (''archive_tree_sha256'', JStr (am_tree_sha256 manifest)), (''file_count'', JInt (am_file_count manifest)),
     (''dependencies'', JList (map JStr (sort (remdups dependencies)))), (''bundle_sha256'', JStr bundle_hash)]"

definition package_directory ::
  "store_env \<Rightarrow> string \<Rightarrow> directory option \<Rightarrow> directory \<Rightarrow> string \<Rightarrow> string \<Rightarrow> int \<Rightarrow> bool \<Rightarrow> bool \<Rightarrow> string list \<Rightarrow>
   string option option \<Rightarrow> (directory \<times> jdict) res" where
  "package_directory env source contents bundle name version chunk_size auto_chunk transform_tournament dependencies signing_key =
    rbind (build_directory_archive (se_container_schema env) (se_manifest_schema env) source contents
             chunk_size auto_chunk transform_tournament) (\<lambda>(ar, manifest).
    let bundle1 = filter (\<lambda>(p, _). \<not> in_archive p) bundle @ archive_files_of ar
    in rbind (directory_hash bundle1) (\<lambda>h1.
    let receipt1 = new_receipt name version manifest dependencies h1;
        bundle2 = AList.update ''receipt.json'' (json_file (JObj receipt1)) bundle1
    in rbind (directory_hash bundle2) (\<lambda>h2.
    let receipt2 = AList.update ''bundle_sha256'' (JStr h2) receipt1
    in rbind (case signing_key of
                None \<Rightarrow> Inr receipt2
              | Some key \<Rightarrow> rbind (sign_object (se_ed env) (JObj receipt2) key) (\<lambda>signature.
                  Inr (AList.update ''signature'' signature receipt2))) (\<lambda>receipt.
       rbind (validate_schema (se_receipt_schema env) (JObj receipt) ''package-receipt.schema.json'') (\<lambda>_.
       Inr (AList.update ''receipt.json'' (json_file (JObj receipt)) bundle2, receipt))))))"

section \<open>Receipts and signatures\<close>

definition as_store_error :: "'a res \<Rightarrow> 'a res" where
  "as_store_error m = (case m of Inl (SchemaError e) \<Rightarrow> Inl (StoreError e) | _ \<Rightarrow> m)"

definition read_receipt_file :: "store_env \<Rightarrow> directory \<Rightarrow> jdict res" where
  "read_receipt_file env bundle = (case map_of bundle ''receipt.json'' of
     None \<Rightarrow> Inl (StoreError ''invalid package receipt'')
   | Some data \<Rightarrow> rbind (utf8_decode data) (\<lambda>s. case loads s of
       Inl _ \<Rightarrow> Inl (StoreError ''invalid package receipt'')
     | Inr (JObj receipt) \<Rightarrow>
         if jget receipt ''format'' \<noteq> JStr PACKAGE_RECEIPT_FORMAT
         then Inl (StoreError ''unsupported package receipt format'')
         else rbind (as_store_error (validate_schema (se_receipt_schema env) (JObj receipt) ''package-receipt.schema.json''))
           (\<lambda>_. Inr receipt)
     | Inr _ \<Rightarrow> Inl AttributeError))"

text \<open>The members of a receipt that the code uses, with the types that its schema guarantees.\<close>

record package_receipt =
  pr_name :: string
  pr_version :: string
  pr_archive_tree_sha256 :: string
  pr_bundle_sha256 :: string
  pr_dependencies :: "string list"
  pr_members :: jdict

fun str_of :: "json \<Rightarrow> string option" where
  "str_of (JStr s) = Some s"
| "str_of _ = None"

definition receipt_of :: "jdict \<Rightarrow> package_receipt res" where
  "receipt_of members =
    (case (jget members ''name'', jget members ''version'', jget members ''archive_tree_sha256'',
           jget members ''bundle_sha256'', jget members ''dependencies'') of
       (JStr name, JStr version, JStr tree, JStr bundle, JList deps) \<Rightarrow>
         (case those (map str_of deps) of
            Some ds \<Rightarrow> Inr \<lparr>pr_name = name, pr_version = version, pr_archive_tree_sha256 = tree, pr_bundle_sha256 = bundle,
              pr_dependencies = ds, pr_members = members\<rparr>
          | None \<Rightarrow> Inl TypeError)
     | _ \<Rightarrow> Inl TypeError)"

definition read_package_receipt :: "store_env \<Rightarrow> directory \<Rightarrow> package_receipt res" where
  "read_package_receipt env bundle = rbind (read_receipt_file env bundle) receipt_of"

text \<open>A failure names a path; its reason is a text, or the exception whose text an archive failure shows.\<close>

datatype reason = Reason string | Archive_Reason exn

type_synonym failure = "string \<times> reason"

record package_signature =
  ps_signed :: bool
  ps_trusted :: bool
  ps_key_id :: json
  ps_failures :: "failure list"

definition signature_reason :: "json \<Rightarrow> reason" where
  "signature_reason j = Reason (case j of JStr s \<Rightarrow> s | _ \<Rightarrow> ''None'')"

definition verify_signature :: "store_env \<Rightarrow> jdict \<Rightarrow> package_signature res" where
  "verify_signature env receipt =
    (if jget receipt ''signature'' = JNull
     then Inr \<lparr>ps_signed = False, ps_trusted = False, ps_key_id = JNull,
            ps_failures = (if se_require_signature env then [(''receipt.json'', Reason ''package signature is required'')] else [])\<rparr>
     else rbind (verify_object_signature (se_ed env) (JObj (AList.delete ''signature'' receipt)) (jget receipt ''signature'')
                   (se_trusted_keys env)) (\<lambda>check.
       Inr \<lparr>ps_signed = True, ps_trusted = sc_verified check, ps_key_id = sc_key_id check,
         ps_failures = (if sc_verified check then [] else [(''receipt.json'', signature_reason (sc_reason check))])\<rparr>))"

section \<open>The store\<close>

record index_entry =
  ie_name :: string
  ie_version :: string
  ie_package_dir :: string
  ie_install_dir :: string
  ie_archive_tree_sha256 :: string
  ie_bundle_sha256 :: string
  ie_dependencies :: "string list"
  ie_signature :: json
  ie_signature_verification :: package_signature

type_synonym store_index = "(string, index_entry) pydict"

datatype index_file = No_Index | Bad_Index string | Index store_index

record store =
  st_path :: string
  st_index :: index_file
  st_dirs :: "(string, directory) pydict"

definition read_store_index :: "store \<Rightarrow> store_index res" where
  "read_store_index st = (case st_index st of
     No_Index \<Rightarrow> Inl (StoreError ''invalid store index'')
   | Bad_Index reason \<Rightarrow> Inl (StoreError reason)
   | Index packages \<Rightarrow> Inr packages)"

definition init_store :: "(store, store_index) action" where
  "init_store = (\<lambda>st. case st_index st of
     No_Index \<Rightarrow> (Inr [], st\<lparr>st_index := Index []\<rparr>)
   | _ \<Rightarrow> (read_store_index st, st))"

text \<open>The files below a path of the store; a directory that does not exist has none.\<close>

definition dir_files :: "store \<Rightarrow> string \<Rightarrow> directory" where
  "dir_files st path = (case map_of (st_dirs st) path of None \<Rightarrow> [] | Some d \<Rightarrow> d)"

definition package_key :: "string \<Rightarrow> string \<Rightarrow> string res" where
  "package_key name version =
    (let safe = map (\<lambda>c. if c = CHR ''/'' \<or> c = backslash then CHR ''_'' else c) (name @ ''-'' @ version)
     in if strip safe = [] then Inl (StoreError ''package name/version must not be empty'') else Inr safe)"

section \<open>Verifying an installed package\<close>

datatype store_receipt =
    Blocked_Receipt string "failure list"
  | Verify_Receipt (vs_package: string) (vs_archive_tree_sha256: string) (vs_bundle_sha256: string)
      (vs_actual_bundle_sha256: string) (vs_installed_tree_sha256: "string option") (vs_archive_status: string)
      (vs_dependencies: "string list") (vs_dependency_verifications: "(string \<times> store_receipt) list")
      (vs_signature: package_signature) (vs_failures: "failure list")

fun receipt_failures :: "store_receipt \<Rightarrow> failure list" where
  "receipt_failures (Blocked_Receipt _ fs) = fs"
| "receipt_failures (Verify_Receipt _ _ _ _ _ _ _ _ _ fs) = fs"

fun receipt_status :: "store_receipt \<Rightarrow> string" where
  "receipt_status (Blocked_Receipt _ _) = ''blocked''"
| "receipt_status (Verify_Receipt _ _ _ _ _ _ _ _ _ fs) = (if fs = [] then ''completed'' else ''blocked'')"

definition blocked_verify_receipt :: "string \<Rightarrow> string \<Rightarrow> store_receipt" where
  "blocked_verify_receipt package why = Blocked_Receipt package [(package, Reason why)]"

definition dependency_failed :: "string \<Rightarrow> failure" where
  "dependency_failed dependency = (dependency, Reason (''dependency verification failed: '' @ dependency))"

definition package_failures ::
  "string \<Rightarrow> index_entry \<Rightarrow> package_receipt \<Rightarrow> package_signature \<Rightarrow> string \<Rightarrow> string list \<Rightarrow> (string \<times> store_receipt) list \<Rightarrow>
   verify_receipt \<Rightarrow> string option \<Rightarrow> failure list" where
  "package_failures package entry receipt signature actual missing checks archive installed =
     ps_failures signature @
     (if actual \<noteq> pr_bundle_sha256 receipt
      then [(ie_package_dir entry, Reason ''installed package bundle hash mismatch'')] else []) @
     (if ie_dependencies entry \<noteq> pr_dependencies receipt
      then [(package, Reason ''store index dependency metadata mismatch'')] else []) @
     map (\<lambda>d. (d, Reason (''missing package dependency: '' @ d))) missing @
     map (\<lambda>(d, _). dependency_failed d) (filter (\<lambda>(_, r). receipt_status r \<noteq> ''completed'') checks) @
     (if vr_execution_status archive \<noteq> ''completed''
      then map (\<lambda>(path, e). (path, Archive_Reason e)) (vr_failures archive) else []) @
     (case installed of
        None \<Rightarrow> [(ie_install_dir entry, Reason ''installed directory is missing'')]
      | Some h \<Rightarrow> if h \<noteq> pr_archive_tree_sha256 receipt
          then [(ie_install_dir entry, Reason ''installed tree hash mismatch'')] else [])"

text \<open>
  The checks of one package, given how its dependencies are verified, for an entry of the index that is
  not yet on the path of dependencies.
\<close>

definition check_package ::
  "store_env \<Rightarrow> store \<Rightarrow> store_index \<Rightarrow> string \<Rightarrow> index_entry \<Rightarrow> (string \<Rightarrow> store_receipt res) \<Rightarrow> store_receipt res" where
  "check_package env st index package entry verify_dependency =
    (let files = dir_files st (ie_package_dir entry)
     in case read_package_receipt env files of
          Inl (StoreError e) \<Rightarrow> Inr (blocked_verify_receipt package e)
        | Inl e \<Rightarrow> Inl e
        | Inr receipt \<Rightarrow>
            rbind (verify_signature env (pr_members receipt)) (\<lambda>signature.
            rbind (directory_hash files) (\<lambda>actual.
            let missing = filter (\<lambda>d. d \<notin> fst ` set index) (pr_dependencies receipt);
                present = filter (\<lambda>d. d \<in> fst ` set index) (pr_dependencies receipt)
            in rbind (map_res (\<lambda>d. rbind (verify_dependency d) (\<lambda>r. Inr (d, r))) present) (\<lambda>checks.
            rbind (archive_in files) (\<lambda>ar.
            rbind (verify_directory_archive (se_container_schema env) (se_manifest_schema env) ar) (\<lambda>archive.
            let installed = map_option tree_hash_for_directory (map_of (st_dirs st) (ie_install_dir entry))
            in Inr (Verify_Receipt package (pr_archive_tree_sha256 receipt) (pr_bundle_sha256 receipt) actual installed
                 (vr_execution_status archive) (pr_dependencies receipt) (pydict_of checks) signature
                 (package_failures package entry receipt signature actual missing checks archive installed))))))))"

lemma check_package_cong [fundef_cong]:
  assumes "env = env'" "st = st'" "index = index'" "package = package'" "entry = entry'"
    and "\<And>d. verify d = verify' d"
  shows "check_package env st index package entry verify = check_package env' st' index' package' entry' verify'"
  using assms by (simp add: HOL.ext [of verify verify'])

function verify_package :: "store_env \<Rightarrow> store \<Rightarrow> string set \<Rightarrow> string \<Rightarrow> store_receipt res" where
  "verify_package env st seen package =
    (case read_store_index st of
       Inl (StoreError e) \<Rightarrow> Inr (blocked_verify_receipt package e)
     | Inl e \<Rightarrow> Inl e
     | Inr index \<Rightarrow> (case map_of index package of
         None \<Rightarrow> Inr (blocked_verify_receipt package (''package not installed: '' @ package))
       | Some entry \<Rightarrow>
           if package \<in> seen
           then Inr (blocked_verify_receipt package (''dependency cycle detected: '' @ package))
           else check_package env st index package entry (\<lambda>d. verify_package env st (insert package seen) d)))"
  by pat_completeness auto

text \<open>Every call for a dependency has one more installed package on its path.\<close>

definition unseen :: "store \<Rightarrow> string set \<Rightarrow> nat" where
  "unseen st seen = (case st_index st of Index packages \<Rightarrow> card (fst ` set packages - seen) | _ \<Rightarrow> 0)"

lemma unseen_less:
  assumes "read_store_index st = Inr index" and "map_of index package = Some entry" and "package \<notin> seen"
  shows "unseen st (insert package seen) < unseen st seen"
proof -
  have index: "st_index st = Index index" using assms(1) by (auto simp: read_store_index_def split: index_file.splits)
  have "package \<in> fst ` set index - seen" using map_of_SomeD [OF assms(2)] assms(3) by force
  then have "fst ` set index - insert package seen \<subset> fst ` set index - seen" by blast
  then show ?thesis using index by (simp add: unseen_def psubset_card_mono)
qed

termination verify_package
  by (relation "measure (\<lambda>(env, st, seen, package). unseen st seen)") (auto simp: unseen_less)

declare verify_package.simps [simp del]

definition verify_installed_package :: "store_env \<Rightarrow> store \<Rightarrow> string \<Rightarrow> store_receipt res" where
  "verify_installed_package env st package = verify_package env st {} package"

section \<open>Installing\<close>

record install_receipt =
  ir_package :: string
  ir_package_dir :: string
  ir_install_dir :: string
  ir_archive_tree_sha256 :: string
  ir_bundle_sha256 :: string
  ir_restore_tree_sha256 :: string
  ir_dependencies :: "string list"
  ir_signature :: package_signature

definition first_reason :: "failure list \<Rightarrow> string" where
  "first_reason fs = (case fs of (_, Reason why) # _ \<Rightarrow> why | _ \<Rightarrow> [])"

fun verify_dependencies :: "store_env \<Rightarrow> store \<Rightarrow> string list \<Rightarrow> unit res" where
  "verify_dependencies env st [] = Inr ()"
| "verify_dependencies env st (dependency # rest) =
    rbind (verify_installed_package env st dependency) (\<lambda>r.
    if receipt_status r \<noteq> ''completed''
    then Inl (StoreError (''dependency verification failed: '' @ dependency))
    else verify_dependencies env st rest)"

text \<open>The checks of \<open>install_bundle\<close>, which leave the store alone.\<close>

definition admit_bundle ::
  "store_env \<Rightarrow> store \<Rightarrow> directory \<Rightarrow> (package_receipt \<times> archive \<times> package_signature \<times> store_index) res" where
  "admit_bundle env st bundle =
    rbind (read_package_receipt env bundle) (\<lambda>receipt.
    rbind (archive_in bundle) (\<lambda>ar.
    rbind (read_archive_manifest (se_manifest_schema env) ar) (\<lambda>manifest.
    if am_tree_sha256 manifest \<noteq> pr_archive_tree_sha256 receipt
    then Inl (StoreError ''bundle archive tree hash does not match receipt'')
    else rbind (directory_hash bundle) (\<lambda>actual.
    if actual \<noteq> pr_bundle_sha256 receipt then Inl (StoreError ''bundle hash mismatch'')
    else rbind (verify_signature env (pr_members receipt)) (\<lambda>signature.
    if ps_failures signature \<noteq> [] then Inl (StoreError (first_reason (ps_failures signature)))
    else rbind (read_store_index st) (\<lambda>index.
    let missing = filter (\<lambda>d. d \<notin> fst ` set index) (pr_dependencies receipt)
    in if missing \<noteq> [] then Inl (StoreError (''missing package dependencies: '' @ join_comma_space missing))
    else rbind (verify_dependencies env st (pr_dependencies receipt)) (\<lambda>_.
    Inr (receipt, ar, signature, index))))))))"

text \<open>
  Copying the bundle, restoring its archive and writing the index. The manifest of the copied archive has
  just been read, so that restoring replaces the install directory by what it writes.
\<close>

definition place_bundle ::
  "store_env \<Rightarrow> directory \<Rightarrow> package_receipt \<times> archive \<times> package_signature \<times> store_index \<Rightarrow> (store, install_receipt) action" where
  "place_bundle env bundle = (\<lambda>(receipt, ar, signature, index) st.
    case package_key (pr_name receipt) (pr_version receipt) of
      Inl e \<Rightarrow> (Inl e, st)
    | Inr key \<Rightarrow>
        let package_dir = st_path st @ ''/packages/'' @ key;
            install_dir = st_path st @ ''/installed/'' @ key;
            (out, restored) = restore_directory_archive (se_container_schema env) (se_manifest_schema env) ar;
            st1 = st\<lparr>st_dirs := AList.update install_dir (out_files out) (AList.update package_dir bundle (st_dirs st))\<rparr>
        in (case restored of
              Inl e \<Rightarrow> (Inl e, st1)
            | Inr restore_receipt \<Rightarrow>
                (Inr \<lparr>ir_package = key, ir_package_dir = package_dir, ir_install_dir = install_dir,
                   ir_archive_tree_sha256 = pr_archive_tree_sha256 receipt, ir_bundle_sha256 = pr_bundle_sha256 receipt,
                   ir_restore_tree_sha256 = rr_tree_sha256 restore_receipt, ir_dependencies = pr_dependencies receipt,
                   ir_signature = signature\<rparr>,
                 st1\<lparr>st_index := Index (AList.update key
                   \<lparr>ie_name = pr_name receipt, ie_version = pr_version receipt, ie_package_dir = package_dir,
                    ie_install_dir = install_dir, ie_archive_tree_sha256 = pr_archive_tree_sha256 receipt,
                    ie_bundle_sha256 = pr_bundle_sha256 receipt, ie_dependencies = pr_dependencies receipt,
                    ie_signature = jget (pr_members receipt) ''signature'', ie_signature_verification = signature\<rparr> index)\<rparr>)))"

definition install_bundle :: "store_env \<Rightarrow> directory \<Rightarrow> (store, install_receipt) action" where
  "install_bundle env bundle =
    abind init_store (\<lambda>_.
    abind (aread (\<lambda>st. admit_bundle env st bundle)) (place_bundle env bundle))"

end
