(* ===== verification/BogCell.thy ===== *)
theory BogCell
  imports Genesis Store
begin

text \<open>
  The capability-only cells of \<^verbatim>\<open>src/bogvm/bogcell.py\<close>: the compiler from source lines to a program file with a
  signed build receipt, and the machine that runs a program of an installed package against the Genesis
  files.

  Program and receipt are JSON files whose paths start at the install directory of the package, but nothing
  keeps them inside it; only \<open>READ\<close> does. What lies outside is the argument \<open>host\<close>: the working directory, and the
  files and directories there, without symbolic links. A register name is a
  JSON value, of which a number with a fraction is kept as its text. The interpreter's own file, whose digest goes into
  the build receipt, is an argument of the compiler, and the workspace's record of an app is an argument of
  the machine.
\<close>

section \<open>Compiling\<close>

definition PROGRAM_FORMAT :: string where
  "PROGRAM_FORMAT = ''BOGCELL-program-10.0''"

definition BUILD_FORMAT :: string where
  "BUILD_FORMAT = ''BOGBUILD-receipt-10.0''"

record capabilities =
  cp_read :: "string list"
  cp_write :: "string list"
  cp_env :: "string list"
  cp_dependencies :: "string list"

definition no_capabilities :: capabilities where
  "no_capabilities = \<lparr>cp_read = [], cp_write = [], cp_env = [], cp_dependencies = []\<rparr>"

definition instr_json :: "string \<Rightarrow> json list \<Rightarrow> json" where
  "instr_json operation operands = JList (JStr operation # operands)"

text \<open>\<open>parts[1].lstrip("-").isdigit()\<close>, which lets more than one sign and superscript digits pass.\<close>

definition looks_numeric :: "string \<Rightarrow> bool" where
  "looks_numeric s = (let t = dropWhile (\<lambda>c. c = CHR ''-'') s in t \<noteq> [] \<and> list_all is_digit_char t)"

definition written_value :: "string list \<Rightarrow> json" where
  "written_value parts =
    (let value = unwords parts in
     if take 1 value = ''$'' then JObj [(''register'', JStr (drop 1 value))] else JStr value)"

definition compile_parts ::
  "nat \<Rightarrow> string \<Rightarrow> string list \<Rightarrow> json list \<times> capabilities \<Rightarrow> (json list \<times> capabilities) res" where
  "compile_parts number raw parts = (\<lambda>(instructions, caps).
    let invalid = Inl (BogCellError (''invalid Bog source line '' @ str_nat number @ '': '' @ raw));
        kind = (case parts of [] \<Rightarrow> [] | p # _ \<Rightarrow> p); names = (length parts = 4 \<and> parts ! 2 = ''as'')
    in if names \<and> kind = ''read'' then
         Inr (instructions @ [instr_json ''READ'' [JStr (parts ! 1), JStr (parts ! 3)]], caps\<lparr>cp_read := cp_read caps @ [parts ! 1]\<rparr>)
       else if names \<and> kind = ''env'' then
         Inr (instructions @ [instr_json ''ENV'' [JStr (parts ! 1), JStr (parts ! 3)]], caps\<lparr>cp_env := cp_env caps @ [parts ! 1]\<rparr>)
       else if names \<and> kind = ''dependency'' then
         Inr (instructions @ [instr_json ''DEPENDENCY'' [JStr (parts ! 1), JStr (parts ! 3)]],
              caps\<lparr>cp_dependencies := cp_dependencies caps @ [parts ! 1]\<rparr>)
       else if 3 \<le> length parts \<and> kind = ''write'' then
         Inr (instructions @ [instr_json ''WRITE'' [JStr (parts ! 1), written_value (drop 2 parts)]],
              caps\<lparr>cp_write := cp_write caps @ [parts ! 1]\<rparr>)
       else if length parts = 2 \<and> kind = ''exit'' \<and> looks_numeric (parts ! 1) then
         rbind (py_int (parts ! 1)) (\<lambda>n. Inr (instructions @ [instr_json ''EXIT'' [JInt n]], caps))
       else invalid)"

definition compile_line :: "nat \<Rightarrow> string \<Rightarrow> json list \<times> capabilities \<Rightarrow> (json list \<times> capabilities) res" where
  "compile_line number raw st =
    (let line = strip raw in
     if line = [] \<or> take 1 line = ''#'' then Inr st else compile_parts number raw (words line) st)"

fun compile_lines :: "nat \<Rightarrow> string list \<Rightarrow> json list \<times> capabilities \<Rightarrow> (json list \<times> capabilities) res" where
  "compile_lines number [] st = Inr st"
| "compile_lines number (raw # rest) st = rbind (compile_line number raw st) (compile_lines (number + 1) rest)"

text \<open>\<open>instruction[0]\<close> of a list, and a program without a final \<open>EXIT\<close> gets one.\<close>

definition operation_of :: "json \<Rightarrow> string" where
  "operation_of instruction = (case instruction of JList (JStr operation # _) \<Rightarrow> operation | JList [] \<Rightarrow> ''INVALID'' | _ \<Rightarrow> [])"

definition closed_off :: "json list \<Rightarrow> json list" where
  "closed_off instructions =
    (if instructions = [] \<or> operation_of (last instructions) \<noteq> ''EXIT'' then instructions @ [instr_json ''EXIT'' [JInt 0]]
     else instructions)"

definition program_json :: "json list \<Rightarrow> json" where
  "program_json instructions = JObj [(''format'', JStr PROGRAM_FORMAT), (''instructions'', JList instructions)]"

definition names_json :: "string list \<Rightarrow> json" where
  "names_json names = JList (map JStr (sort (remdups names)))"

definition capabilities_json :: "capabilities \<Rightarrow> json" where
  "capabilities_json caps = JObj [(''read'', names_json (cp_read caps)), (''write'', names_json (cp_write caps)),
     (''env'', names_json (cp_env caps)), (''dependencies'', names_json (cp_dependencies caps))]"

definition build_members :: "bytes \<Rightarrow> bytes \<Rightarrow> bytes \<Rightarrow> capabilities \<Rightarrow> jdict" where
  "build_members implementation source program_file caps =
    [(''format'', JStr BUILD_FORMAT), (''source_sha256'', JStr (hexdigest source)),
     (''compiler'', JObj [(''name'', JStr ''BogBuild reference compiler''), (''format'', JStr BUILD_FORMAT),
        (''implementation_sha256'', JStr (hexdigest implementation)),
        (''compiler_package_sha256'', JStr (hexdigest implementation))]),
     (''bytecode_sha256'', JStr (hexdigest program_file)), (''capabilities'', capabilities_json caps)]"

text \<open>The file system outside the install directory, by the parts of absolute paths.\<close>

record host =
  ho_cwd :: "string list"
  ho_files :: "string list \<Rightarrow> bytes option"
  ho_dirs :: "string list \<Rightarrow> bool"

record cell_env =
  ce_genesis :: genesis_env
  ce_store :: store_env
  ce_program_schema :: "json schema_validator"
  ce_build_schema :: "json schema_validator"
  ce_implementation :: bytes
  ce_host :: host

text \<open>The record of an installed app in the workspace.\<close>

record app_info =
  ap_name :: string
  ap_package :: string
  ap_install_dir :: string
  ap_cell_program :: "string option"
  ap_capabilities :: capabilities
  ap_environment :: "(string, string) pydict"
  ap_build_receipt :: "string option"

text \<open>The program file, the build receipt file, and the receipt.\<close>

definition compile_source :: "cell_env \<Rightarrow> bytes \<Rightarrow> string option \<Rightarrow> (bytes \<times> bytes \<times> jdict) res" where
  "compile_source env source signing_key =
    rbind (utf8_decode source) (\<lambda>text.
    rbind (compile_lines 1 (splitlines text) ([], no_capabilities)) (\<lambda>(instructions, caps).
    let program = program_json (closed_off instructions); program_file = json_file program;
        unsigned = build_members (ce_implementation env) source program_file caps
    in rbind (validate_schema (ce_program_schema env) program ''bogcell-program.schema.json'') (\<lambda>_.
       rbind (sign_object (se_ed (ce_store env)) (JObj unsigned) signing_key) (\<lambda>signature.
       let receipt = unsigned @ [(''compiler_signature'', signature)]
       in rbind (validate_schema (ce_build_schema env) (JObj receipt) ''bogbuild-receipt.schema.json'') (\<lambda>_.
          Inr (program_file, json_file (JObj receipt), receipt))))))"

section \<open>Files below and beside the install directory\<close>

text \<open>
  The operating system walks a path part by part, where \<open>..\<close> leads to the parent, and every part but the last has
  to be a directory. The install directory, if there is one, shows the files of the package, and every
  directory above it exists.
\<close>

definition step_to :: "string list \<Rightarrow> string \<Rightarrow> string list" where
  "step_to stack p = (if p = ''..'' then butlast stack else stack @ [p])"

fun walk :: "(string list \<Rightarrow> bool) \<Rightarrow> string list \<Rightarrow> string list \<Rightarrow> string list option" where
  "walk exists stack [] = Some stack"
| "walk exists stack (p # ps) =
    (let next_stack = step_to stack p in if ps = [] \<or> exists next_stack then walk exists next_stack ps else None)"

definition install_parts :: "host \<Rightarrow> string \<Rightarrow> string list" where
  "install_parts host dir = foldl step_to (if is_absolute dir then [] else ho_cwd host) (path_parts dir)"

definition has_dir :: "directory \<Rightarrow> string list \<Rightarrow> bool" where
  "has_dir d parts \<longleftrightarrow> (\<exists>(f, _) \<in> set d. strict_prefix parts (path_parts f))"

definition dir_exists :: "host \<Rightarrow> string list \<Rightarrow> directory option \<Rightarrow> string list \<Rightarrow> bool" where
  "dir_exists host base installed parts \<longleftrightarrow>
    (if prefix base parts
     then (case installed of None \<Rightarrow> False | Some d \<Rightarrow> parts = base \<or> has_dir d (drop (length base) parts))
     else parts = [] \<or> installed \<noteq> None \<and> strict_prefix parts base \<or> ho_dirs host parts)"

definition file_content :: "host \<Rightarrow> string list \<Rightarrow> directory option \<Rightarrow> string list \<Rightarrow> bytes option" where
  "file_content host base installed parts =
    (if prefix base parts
     then (case installed of None \<Rightarrow> None
       | Some d \<Rightarrow> map_option snd (find (\<lambda>(f, _). path_parts f = drop (length base) parts) d))
     else ho_files host parts)"

text \<open>Where \<open>install_dir / path\<close> leads; an absolute path starts at the root.\<close>

definition locate :: "host \<Rightarrow> string list \<Rightarrow> directory option \<Rightarrow> string \<Rightarrow> string list option" where
  "locate host base installed path =
    (let start = (if is_absolute path then [] else base); exists = dir_exists host base installed
     in if is_absolute path \<or> exists start then walk exists start (path_parts path) else None)"

definition open_file :: "cell_env \<Rightarrow> store \<Rightarrow> app_info \<Rightarrow> string \<Rightarrow> bytes option" where
  "open_file env st info path =
    (let base = install_parts (ce_host env) (ap_install_dir info); installed = map_of (st_dirs st) (ap_install_dir info)
     in case locate (ce_host env) base installed path of
          None \<Rightarrow> None | Some parts \<Rightarrow> file_content (ce_host env) base installed parts)"

text \<open>\<open>target.is_file()\<close> and \<open>target.resolve().is_relative_to(install_dir.resolve())\<close>.\<close>

definition file_inside :: "cell_env \<Rightarrow> store \<Rightarrow> app_info \<Rightarrow> string \<Rightarrow> bytes option" where
  "file_inside env st info path =
    (let base = install_parts (ce_host env) (ap_install_dir info); installed = map_of (st_dirs st) (ap_install_dir info)
     in case locate (ce_host env) base installed path of
          None \<Rightarrow> None
        | Some parts \<Rightarrow> if prefix base parts then file_content (ce_host env) base installed parts else None)"

section \<open>The receipt of a verification as JSON\<close>

text \<open>
  A verification receipt becomes a register of a cell, and its text can be written to a file. Only completed
  receipts get there, which list no failure; the text of an exception is what it carries.
\<close>

fun dumps_spaced :: "json \<Rightarrow> string" where
  "dumps_spaced (JList js) = ''['' @ join_comma_space (map dumps_spaced js) @ '']''"
| "dumps_spaced (JObj kvs) = ''{'' @ join_comma_space (map (\<lambda>(k, s). json_string k @ '': '' @ s)
     (sort_key fst (map (\<lambda>(k, v). (k, dumps_spaced v)) kvs))) @ ''}''"
| "dumps_spaced (JIntObj kvs) = ''{'' @ join_comma_space (map (\<lambda>(k, s). json_string (str_int k) @ '': '' @ s)
     (sort_key fst (map (\<lambda>(k, v). (k, dumps_spaced v)) kvs))) @ ''}''"
| "dumps_spaced j = dumps j"

fun carried_text :: "exn \<Rightarrow> string" where
  "carried_text (ArchiveError s) = s"
| "carried_text (ContainerError s) = s"
| "carried_text (SchemaError s) = s"
| "carried_text _ = []"

fun reason_text :: "reason \<Rightarrow> string" where
  "reason_text (Reason s) = s"
| "reason_text (Archive_Reason e) = ''archive: '' @ carried_text e"

definition failure_list_json :: "failure list \<Rightarrow> json" where
  "failure_list_json fs = JList (map (\<lambda>(path, why). jfailure path (reason_text why)) fs)"

definition completed_json :: "failure list \<Rightarrow> json" where
  "completed_json fs = JStr (if fs = [] then ''completed'' else ''blocked'')"

definition signature_json :: "package_signature \<Rightarrow> json" where
  "signature_json s = JObj ([(''format'', JStr ''BOGPKG-signature-verification-receipt-7.0''), (''signed'', JBool (ps_signed s)),
     (''trusted'', JBool (ps_trusted s))] @ (if ps_signed s then [(''key_id'', ps_key_id s)] else []) @
     [(''failures'', failure_list_json (ps_failures s)), (''execution_status'', completed_json (ps_failures s))])"

fun store_receipt_json :: "string \<Rightarrow> store_receipt \<Rightarrow> json" where
  "store_receipt_json path (Blocked_Receipt package fs) = JObj [(''format'', JStr ''BOGSTORE-verify-receipt-3.0''),
     (''package'', JStr package), (''failures'', failure_list_json fs), (''execution_status'', JStr ''blocked'')]"
| "store_receipt_json path (Verify_Receipt package tree bundle actual installed status deps checks signature fs) =
     JObj [(''format'', JStr ''BOGSTORE-verify-receipt-3.0''), (''package'', JStr package), (''store'', JStr path),
       (''archive_tree_sha256'', JStr tree), (''bundle_sha256'', JStr bundle), (''actual_bundle_sha256'', JStr actual),
       (''installed_tree_sha256'', case installed of None \<Rightarrow> JNull | Some h \<Rightarrow> JStr h), (''archive_execution_status'', JStr status),
       (''dependencies'', JList (map JStr deps)),
       (''dependency_verifications'', JObj (map (\<lambda>(d, r). (d, store_receipt_json path r)) checks)),
       (''signature_verification'', signature_json signature), (''failures'', failure_list_json fs),
       (''execution_status'', completed_json fs)]"

fun receipt_bundle :: "store_receipt \<Rightarrow> json" where
  "receipt_bundle (Blocked_Receipt _ _) = JNull"
| "receipt_bundle (Verify_Receipt _ _ bundle _ _ _ _ _ _ _) = JStr bundle"

section \<open>The machine\<close>

datatype cell_value = Cell_Bytes bytes | Cell_Text string | Cell_Receipt store_receipt

text \<open>A failure names a path, or an instruction instead of its printed form; a reason may end with the text of an exception.\<close>

datatype cell_reason = Said string | Said_Of string exn

type_synonym cell_failure = "json \<times> cell_reason"

type_synonym registers = "(json, cell_value) pydict"

definition permitted :: "string list \<Rightarrow> json \<Rightarrow> bool" where
  "permitted names j = (case j of JStr s \<Rightarrow> s \<in> set names | _ \<Rightarrow> False)"

text \<open>A register name as a dictionary key: lists and objects are unhashable, and \<open>True\<close> is the key 1.\<close>

definition register_key :: "json \<Rightarrow> json res" where
  "register_key j = (case j of
     JList _ \<Rightarrow> Inl TypeError | JObj _ \<Rightarrow> Inl TypeError | JIntObj _ \<Rightarrow> Inl TypeError
   | JBool b \<Rightarrow> Inr (JInt (of_bool b)) | _ \<Rightarrow> Inr j)"

definition value_content :: "string \<Rightarrow> cell_value option \<Rightarrow> bytes" where
  "value_content path v = (case v of
     None \<Rightarrow> [] | Some (Cell_Bytes data) \<Rightarrow> data | Some (Cell_Text s) \<Rightarrow> utf8 s
   | Some (Cell_Receipt r) \<Rightarrow> utf8 (dumps_spaced (store_receipt_json path r)))"

text \<open>
  The content that a \<open>WRITE\<close> writes: a register, which is empty if it was never set, or the operand itself, where
  an object is written as its text. Looking up the register comes first; the conversion to bytes that
  \<open>fs_write\<close> performs is the inner result.
\<close>

definition write_content :: "string \<Rightarrow> registers \<Rightarrow> json \<Rightarrow> bytes res res" where
  "write_content path registers raw =
    (case raw of
       JObj kvs \<Rightarrow> (case map_of kvs ''register'' of
          None \<Rightarrow> Inr (Inr (utf8 (dumps_spaced raw)))
        | Some name \<Rightarrow> rbind (register_key name) (\<lambda>key. Inr (Inr (value_content path (map_of registers key)))))
     | JIntObj kvs \<Rightarrow> Inr (Inr (utf8 (dumps_spaced raw)))
     | JNull \<Rightarrow> Inr (Inr [])
     | _ \<Rightarrow> Inr (encoded_data raw))"

record cell_call =
  cc_sequence :: nat
  cc_evidence :: jdict
  cc_evidence_sha256 :: string
  cc_failures :: "cell_failure list"
  cc_execution_status :: string

text \<open>What one instruction adds to the evidence, its failures, and its value.\<close>

type_synonym outcome = "jdict \<times> cell_failure list \<times> cell_value option"

definition allowed_item :: "bool \<Rightarrow> jdict" where
  "allowed_item b = [(''allowed'', JBool b)]"

definition cell_read :: "cell_env \<Rightarrow> store \<Rightarrow> app_info \<Rightarrow> json \<Rightarrow> outcome res" where
  "cell_read env st app path =
    (let allowed = permitted (cp_read (ap_capabilities app)) path in
     case path of
       JStr p \<Rightarrow> (case file_inside env st app p of
         Some data \<Rightarrow> Inr (if allowed then (allowed_item allowed @ [(''sha256'', JStr (hexdigest data))], [], Some (Cell_Bytes data))
           else (allowed_item allowed, [(path, Said ''BogCell read blocked by capability manifest'')], None))
       | None \<Rightarrow> Inr (allowed_item allowed, [(path, Said ''BogCell read blocked by capability manifest'')], None))
     | _ \<Rightarrow> Inl TypeError)"

definition cell_write ::
  "cell_env \<Rightarrow> store \<Rightarrow> app_info \<Rightarrow> registers \<Rightarrow> json \<Rightarrow> json \<Rightarrow> (genesis, outcome) action" where
  "cell_write env st app registers path raw =
    (case (path, permitted (cp_write (ap_capabilities app)) path) of
       (JStr p, True) \<Rightarrow>
         abind (alift (write_content (st_path st) registers raw)) (\<lambda>encoded.
         abind (fs_write_value (ce_genesis env) p encoded (ap_name app)) (\<lambda>entry.
         abind (alift (jmember entry ''object_sha256'')) (\<lambda>obj.
         abind (alift (jmember entry ''after_root_sha256'')) (\<lambda>root.
         alift (Inr (allowed_item True @ [(''object_sha256'', obj), (''state_root_sha256'', root)], [], None))))))
     | _ \<Rightarrow> alift (Inr (allowed_item False, [(path, Said ''BogCell write blocked by capability manifest'')], None)))"

definition cell_getenv :: "app_info \<Rightarrow> json \<Rightarrow> outcome" where
  "cell_getenv app name =
    (case (name, permitted (cp_env (ap_capabilities app)) name) of
       (JStr n, True) \<Rightarrow>
         let v = map_of (ap_environment app) n
         in (allowed_item True @ [(''value_sha256'', JStr (hexdigest (utf8 (case v of None \<Rightarrow> ''None'' | Some s \<Rightarrow> s))))], [],
             map_option Cell_Text v)
     | _ \<Rightarrow> (allowed_item False, [(name, Said ''BogCell environment access blocked by capability manifest'')], None))"

definition cell_dependency :: "cell_env \<Rightarrow> store \<Rightarrow> app_info \<Rightarrow> json \<Rightarrow> outcome res" where
  "cell_dependency env st app package =
    (let blocked = (package, Said ''BogCell dependency access blocked or unverified'') in
     case (package, permitted (cp_dependencies (ap_capabilities app)) package) of
       (JStr p, True) \<Rightarrow>
         rbind (verify_installed_package (ce_store env) st p) (\<lambda>r.
         Inr (if receipt_status r \<noteq> ''completed'' then (allowed_item True, [blocked], Some (Cell_Receipt r))
              else (allowed_item True @ [(''bundle_sha256'', receipt_bundle r)], [], Some (Cell_Receipt r))))
     | _ \<Rightarrow> Inr (allowed_item False, [blocked], None))"

definition is_int :: "json \<Rightarrow> bool" where
  "is_int j = (case j of JInt _ \<Rightarrow> True | JBool _ \<Rightarrow> True | _ \<Rightarrow> False)"

definition first_operation :: "json list \<Rightarrow> json" where
  "first_operation items = (case items of [] \<Rightarrow> JStr ''INVALID'' | operation # _ \<Rightarrow> operation)"

definition perform ::
  "cell_env \<Rightarrow> store \<Rightarrow> app_info \<Rightarrow> json list \<Rightarrow> registers \<Rightarrow> (genesis, outcome) action" where
  "perform env st app items registers =
    (let operation = first_operation items; three = (length items = 3)
     in if operation = JStr ''READ'' \<and> three then alift (cell_read env st app (items ! 1))
        else if operation = JStr ''WRITE'' \<and> three then cell_write env st app registers (items ! 1) (items ! 2)
        else if operation = JStr ''ENV'' \<and> three then alift (Inr (cell_getenv app (items ! 1)))
        else if operation = JStr ''DEPENDENCY'' \<and> three then alift (cell_dependency env st app (items ! 1))
        else if operation = JStr ''EXIT'' \<and> length items = 2 \<and> is_int (items ! 1)
        then alift (Inr ([(''exit_code'', items ! 1)], [], None))
        else alift (Inr ([], [(JList items, Said ''unknown or malformed BogCell instruction'')], None)))"

definition call_receipt :: "nat \<Rightarrow> json list \<Rightarrow> jdict \<Rightarrow> cell_failure list \<Rightarrow> cell_call" where
  "call_receipt sequence items extra failures =
    (let status = (if failures = [] then ''completed'' else ''blocked'');
         evidence = [(''operation'', first_operation items), (''instruction'', JList items)] @ extra @ [(''execution_status'', JStr status)]
     in \<lparr>cc_sequence = sequence, cc_evidence = evidence, cc_evidence_sha256 = stable_hash (JObj evidence),
         cc_failures = failures, cc_execution_status = status\<rparr>)"

definition execute ::
  "cell_env \<Rightarrow> store \<Rightarrow> app_info \<Rightarrow> json list \<Rightarrow> nat \<Rightarrow> registers \<Rightarrow> (genesis, cell_call \<times> cell_value option) action" where
  "execute env st app items sequence registers =
    abind (perform env st app items registers) (\<lambda>(extra, failures, v).
    alift (Inr (call_receipt sequence items extra failures, v)))"

section \<open>Running a program\<close>

definition keep_value :: "json list \<Rightarrow> cell_value option \<Rightarrow> registers \<Rightarrow> registers res" where
  "keep_value items v registers = (case v of
     None \<Rightarrow> Inr registers
   | Some w \<Rightarrow> if 3 \<le> length items then rbind (register_key (last items)) (\<lambda>key. Inr (AList.update key w registers))
       else Inr registers)"

definition exit_failures :: "string \<Rightarrow> json \<Rightarrow> cell_failure list" where
  "exit_failures app code =
    (if is_number code 0 then [] else [(JStr app, Said (''BogCell exited with code '' @ value_str code))])"

text \<open>
  The loop over the instructions: the calls, the registers, the failures, and the exit code, which is
  \<open>None\<close> when no \<open>EXIT\<close> was reached. An instruction that is not a list, which the program schema refuses,
  raises here.
\<close>

type_synonym progress = "cell_call list \<times> registers \<times> cell_failure list \<times> json option"

fun run_instructions ::
  "cell_env \<Rightarrow> store \<Rightarrow> string \<Rightarrow> app_info \<Rightarrow> nat \<Rightarrow> registers \<Rightarrow> json list \<Rightarrow> (genesis, progress) action" where
  "run_instructions env st app info sequence registers [] = alift (Inr ([], registers, [], None))"
| "run_instructions env st app info sequence registers (instruction # rest) =
    abind (alift (as_list instruction)) (\<lambda>items.
    abind (execute env st info items sequence registers) (\<lambda>(call, v).
    if cc_failures call \<noteq> [] then alift (Inr ([call], registers, cc_failures call, None))
    else abind (alift (keep_value items v registers)) (\<lambda>registers'.
      if first_operation items = JStr ''EXIT''
      then alift (Inr ([call], registers', exit_failures app (items ! 1), Some (items ! 1)))
      else abind (run_instructions env st app info (sequence + 1) registers' rest) (\<lambda>(calls, regs, failures, code).
        alift (Inr (call # calls, regs, failures, code))))))"

record build_check =
  bk_signature_verified :: bool
  bk_source_sha256 :: json
  bk_bytecode_sha256 :: json
  bk_failures :: "cell_failure list"

definition verify_build_receipt :: "ed25519 \<Rightarrow> jdict \<Rightarrow> string option list \<Rightarrow> build_check res" where
  "verify_build_receipt ed receipt trusted_keys =
    rbind (verify_object_signature ed (JObj (AList.delete ''compiler_signature'' receipt))
             (jget_or receipt ''compiler_signature'' (JObj [])) trusted_keys) (\<lambda>result.
    Inr \<lparr>bk_signature_verified = sc_verified result, bk_source_sha256 = jget receipt ''source_sha256'',
         bk_bytecode_sha256 = jget receipt ''bytecode_sha256'',
         bk_failures = (if sc_verified result then []
           else [(JStr ''build_receipt.json'', Said (case sc_reason result of JStr s \<Rightarrow> s | _ \<Rightarrow> ''None''))])\<rparr>)"

text \<open>\<open>json.loads(path.read_text())\<close>: a missing file and text that is not JSON are failures, the rest raises.\<close>

definition load_json :: "cell_env \<Rightarrow> store \<Rightarrow> app_info \<Rightarrow> string \<Rightarrow> (exn + json) res" where
  "load_json env st info path = (case open_file env st info path of
     None \<Rightarrow> Inr (Inl (FileNotFoundError path))
   | Some data \<Rightarrow> rbind (utf8_decode data) (\<lambda>s. case loads s of
       Inl (JSONDecodeError e) \<Rightarrow> Inr (Inl (JSONDecodeError e)) | Inl e \<Rightarrow> Inl e | Inr j \<Rightarrow> Inr (Inr j)))"

text \<open>\<open>str(install_dir / name)\<close>.\<close>

definition install_file :: "app_info \<Rightarrow> string \<Rightarrow> json" where
  "install_file info name =
    (let dir = ap_install_dir info
     in JStr (if is_absolute name then ''/'' @ join_slash (path_parts name)
              else (if is_absolute dir then ''/'' else []) @ join_slash (path_parts dir @ path_parts name)))"

definition build_receipt_name :: "app_info \<Rightarrow> string" where
  "build_receipt_name info = (case ap_build_receipt info of None \<Rightarrow> ''build_receipt.json'' | Some name \<Rightarrow> name)"

text \<open>The checks of the build receipt. A receipt that is not an object raises, whatever its shape.\<close>

definition check_build :: "cell_env \<Rightarrow> store \<Rightarrow> app_info \<Rightarrow> string \<Rightarrow> (build_check option \<times> cell_failure list) res" where
  "check_build env st info program_name =
    (let invalid = (\<lambda>e. (install_file info (build_receipt_name info), Said_Of ''invalid BogBuild receipt: '' e))
     in rbind (load_json env st info (build_receipt_name info)) (\<lambda>loaded. case loaded of
          Inl e \<Rightarrow> Inr (None, [invalid e])
        | Inr j \<Rightarrow>
            rbind (as_dict j) (\<lambda>receipt.
            rbind (verify_build_receipt (se_ed (ce_store env)) receipt (se_trusted_keys (ce_store env))) (\<lambda>check.
            Inr (Some check, bk_failures check @ (case open_file env st info program_name of
               None \<Rightarrow> [invalid (FileNotFoundError program_name)]
             | Some data \<Rightarrow> if jget receipt ''bytecode_sha256'' \<noteq> JStr (hexdigest data)
                 then [(install_file info program_name, Said ''BogCell bytecode does not match signed build receipt'')] else [])))))) "

definition check_program :: "cell_env \<Rightarrow> app_info \<Rightarrow> string \<Rightarrow> jdict \<Rightarrow> cell_failure list" where
  "check_program env info program_name program =
    (if jget program ''format'' \<noteq> JStr PROGRAM_FORMAT
     then [(install_file info program_name, Said ''unsupported BogCell program format'')]
     else case validate_schema (ce_program_schema env) (JObj program) ''bogcell-program.schema.json'' of
       Inl e \<Rightarrow> [(install_file info program_name, Said_Of [] e)] | Inr _ \<Rightarrow> [])"

section \<open>The process receipt\<close>

definition value_bytes :: "string \<Rightarrow> cell_value \<Rightarrow> bytes" where
  "value_bytes path v = (case v of
     Cell_Bytes data \<Rightarrow> data | Cell_Text s \<Rightarrow> utf8 s | Cell_Receipt r \<Rightarrow> canonical_bytes (store_receipt_json path r))"

text \<open>
  \<open>sorted(registers.items())\<close> with names that are all text or all integers; other mixtures cannot be
  compared, unless there is only one register.
\<close>

definition sorted_registers :: "registers \<Rightarrow> registers res" where
  "sorted_registers registers =
    (if length registers \<le> 1 then Inr registers
     else if list_all (\<lambda>(k, _). case k of JStr _ \<Rightarrow> True | _ \<Rightarrow> False) registers
     then Inr (sort_key (\<lambda>(k, _). case k of JStr s \<Rightarrow> s | _ \<Rightarrow> []) registers)
     else if list_all (\<lambda>(k, _). case k of JInt _ \<Rightarrow> True | _ \<Rightarrow> False) registers
     then Inr (sort_key (\<lambda>(k, _). case k of JInt n \<Rightarrow> n | _ \<Rightarrow> 0) registers)
     else Inl TypeError)"

record process_receipt =
  pp_app :: string
  pp_package_verification :: "store_receipt option"
  pp_build_verification :: "build_check option"
  pp_calls :: "cell_call list"
  pp_register_hashes :: "(json \<times> string) list"
  pp_final_root :: string
  pp_exit_code :: "json option"
  pp_proof :: jdict
  pp_proof_sha256 :: string
  pp_failures :: "cell_failure list"

definition or_null :: "json option \<Rightarrow> json" where
  "or_null v = (case v of None \<Rightarrow> JNull | Some j \<Rightarrow> j)"

definition process_proof :: "string \<Rightarrow> store_receipt option \<Rightarrow> jdict option \<Rightarrow> cell_call list \<Rightarrow> string \<Rightarrow> json option \<Rightarrow> jdict" where
  "process_proof app verification program calls root exit_code =
    [(''app'', JStr app), (''package_bundle_sha256'', case verification of None \<Rightarrow> JNull | Some r \<Rightarrow> receipt_bundle r),
     (''program_sha256'', case program of None \<Rightarrow> JNull | Some p \<Rightarrow> if p = [] then JNull else JStr (stable_hash (JObj p))),
     (''call_evidence'', JList (map (\<lambda>c. JStr (cc_evidence_sha256 c)) calls)),
     (''final_state_root_sha256'', JStr root), (''exit_code'', or_null exit_code)]"

definition process_receipt_for ::
  "string \<Rightarrow> string \<Rightarrow> store_receipt option \<Rightarrow> build_check option \<Rightarrow> cell_call list \<Rightarrow> registers \<Rightarrow> cell_failure list \<Rightarrow>
   json option \<Rightarrow> jdict option \<Rightarrow> (genesis, process_receipt) action" where
  "process_receipt_for path app verification build calls registers failures exit_code program =
    abind current_root (\<lambda>proof_root.
    abind (alift (sorted_registers registers)) (\<lambda>ordered.
    abind current_root (\<lambda>root.
    let material = process_proof app verification program calls proof_root exit_code
    in alift (Inr \<lparr>pp_app = app, pp_package_verification = verification, pp_build_verification = build, pp_calls = calls,
         pp_register_hashes = map (\<lambda>(k, v). (k, hexdigest (value_bytes path v))) ordered, pp_final_root = root,
         pp_exit_code = exit_code, pp_proof = material, pp_proof_sha256 = stable_hash (JObj material),
         pp_failures = failures\<rparr>))))"

definition process_status :: "process_receipt \<Rightarrow> string" where
  "process_status r = (if pp_failures r = [] then ''completed'' else ''blocked'')"

definition store_failures :: "store_receipt \<Rightarrow> cell_failure list" where
  "store_failures r = map (\<lambda>(path, why). (JStr path, case why of Reason s \<Rightarrow> Said s | Archive_Reason e \<Rightarrow> Said_Of ''archive: '' e))
     (receipt_failures r)"

text \<open>The run of an installed app, once its record names a program.\<close>

definition run_program :: "cell_env \<Rightarrow> store \<Rightarrow> string \<Rightarrow> app_info \<Rightarrow> string \<Rightarrow> (genesis, process_receipt) action" where
  "run_program env st app info program_name =
    (let path = st_path st in
     abind (alift (verify_installed_package (ce_store env) st (ap_package info))) (\<lambda>verification.
     abind (alift (check_build env st info program_name)) (\<lambda>(build, build_failures).
     abind (alift (load_json env st info program_name)) (\<lambda>loaded. case loaded of
       Inl e \<Rightarrow> process_receipt_for path app (Some verification) build [] []
         (store_failures verification @ build_failures @ [(install_file info program_name, Said_Of ''invalid BogCell program: '' e)]) None None
     | Inr j \<Rightarrow>
         abind (alift (as_dict j)) (\<lambda>program.
         let failures = store_failures verification @ build_failures @ check_program env info program_name program
         in if failures \<noteq> [] then process_receipt_for path app (Some verification) build [] [] failures None (Some program)
            else abind (alift (as_list (jget_or program ''instructions'' (JList [])))) (\<lambda>instructions.
              abind (run_instructions env st app info 1 [] instructions) (\<lambda>(calls, registers, run_failures, exit_code).
              process_receipt_for path app (Some verification) build calls registers run_failures exit_code (Some program))))))))"

definition run_cell ::
  "cell_env \<Rightarrow> store \<Rightarrow> (string, app_info) pydict \<Rightarrow> string \<Rightarrow> (genesis, process_receipt) action" where
  "run_cell env st apps app =
    (let missing = process_receipt_for (st_path st) app None None [] []
           [(JStr app, Said ''installed app is not a BogCell app'')] None None
     in case map_of apps app of
          None \<Rightarrow> missing
        | Some info \<Rightarrow> (case ap_cell_program info of
            None \<Rightarrow> missing
          | Some program_name \<Rightarrow> if program_name = [] then missing else run_program env st app info program_name))"

end
