(* ===== verification/Genesis_Correct.thy ===== *)
theory Genesis_Correct
  imports Genesis
begin

text \<open>
  What the ledger and the file state guarantee: recording keeps the ledger verifiable, two verifiable
  ledgers with one root are the same ledger, writing and reading refine a map from paths to contents, and
  rolling back to a write restores the files as they were after it.
\<close>

section \<open>The order of the ledger files\<close>

fun fixed_dec :: "nat \<Rightarrow> nat \<Rightarrow> string" where
  "fixed_dec 0 n = []"
| "fixed_dec (Suc k) n = fixed_dec k (n div 10) @ [digit_char (n mod 10)]"

lemma length_fixed_dec [simp]: "length (fixed_dec k n) = k"
  by (induction k arbitrary: n) auto

lemma fixed_dec_0: "fixed_dec k 0 = replicate k (CHR ''0'')"
  by (induction k) (simp_all add: replicate_append_same digit_char_def char_of_literals)

lemma fixed_dec_pad: "n < 10 ^ Suc k \<Longrightarrow> replicate (Suc k - length (str_nat n)) (CHR ''0'') @ str_nat n = fixed_dec (Suc k) n"
proof (induction k arbitrary: n)
  case 0
  then show ?case by (subst (1 2) str_nat.simps) simp
next
  case (Suc k)
  show ?case
  proof (cases "n < 10")
    case True
    then have "str_nat n = [digit_char n]" by (subst str_nat.simps) simp
    then show ?thesis using True by (simp add: fixed_dec_0 replicate_append_same digit_char_def)
  next
    case False
    then have "str_nat n = str_nat (n div 10) @ [digit_char (n mod 10)]" by (subst str_nat.simps) simp
    moreover have "n div 10 < 10 ^ Suc k" using Suc.prems by (simp add: div_less_iff_less_mult)
    ultimately show ?thesis using Suc.IH [of "n div 10"] by simp
  qed
qed

lemma list_less_append: "length xs = length ys \<Longrightarrow> xs < (ys :: 'a :: order list) \<Longrightarrow> xs @ us < ys @ vs"
  by (simp add: list_less_def lexord_sufI)

lemma fixed_dec_less: "m < n \<Longrightarrow> n < 10 ^ k \<Longrightarrow> fixed_dec k m < fixed_dec k n"
proof (induction k arbitrary: m n)
  case (Suc k)
  show ?case
  proof (cases "m div 10 < n div 10")
    case True
    have "n div 10 < 10 ^ k" using Suc.prems by (simp add: div_less_iff_less_mult)
    then show ?thesis using Suc.IH [OF True] by (simp add: list_less_append)
  next
    case False
    have same: "m div 10 = n div 10" using False div_le_mono [of m n 10] Suc.prems(1) by simp
    moreover have "m mod 10 < n mod 10"
      using Suc.prems(1) same mult_div_mod_eq [of 10 m] mult_div_mod_eq [of 10 n] by linarith
    ultimately have "digit_char (m mod 10) < digit_char (n mod 10)" by (simp add: less_char_def of_char_digit_char)
    then show ?thesis using same by (simp add: list_less_def lexord_append_leftI)
  qed
qed simp

lemma ledger_file_less:
  assumes "m < n" and "n < 10 ^ 6"
  shows "ledger_file m ev < ledger_file n ev'"
proof -
  have six: "Suc 5 = 6" by simp
  have "pad6 m = fixed_dec 6 m" "pad6 n = fixed_dec 6 n"
    using fixed_dec_pad [of m 5] fixed_dec_pad [of n 5] assms unfolding six pad6_def by linarith+
  then show ?thesis using fixed_dec_less [OF assms] by (simp add: ledger_file_def list_less_append)
qed

text \<open>
  A well-formed ledger: the i-th file, in the order of recording, carries the number i, and there are fewer
  than a million of them, since longer numbers would sort before shorter ones.
\<close>

definition ledger_wf :: "genesis \<Rightarrow> bool" where
  "ledger_wf g \<longleftrightarrow> length (gn_ledger g) < 10 ^ 6 \<and>
     (\<forall>i < length (gn_ledger g). \<exists>ev e. gn_ledger g ! i = (ledger_file (i + 1) ev, Some e))"

lemma ledger_wf_sorted:
  assumes "ledger_wf g"
  shows "sort_key fst (gn_ledger g) = gn_ledger g"
proof (rule sort_key_id_if_sorted, unfold sorted_iff_nth_mono_less, intro allI impI)
  fix i j assume ij: "i < j" "j < length (map fst (gn_ledger g))"
  then obtain ev ev' where "fst (gn_ledger g ! i) = ledger_file (i + 1) ev" "fst (gn_ledger g ! j) = ledger_file (j + 1) ev'"
    using assms unfolding ledger_wf_def by (metis fst_conv length_map order.strict_trans)
  moreover have "ledger_file (i + 1) ev < ledger_file (j + 1) ev'"
    using ij assms by (intro ledger_file_less) (auto simp: ledger_wf_def)
  ultimately show "map fst (gn_ledger g) ! i \<le> map fst (gn_ledger g) ! j" using ij by simp
qed

lemma entries_wf: "ledger_wf g \<Longrightarrow> entries g = map (\<lambda>(_, content). case content of None \<Rightarrow> broken_entry | Some entry \<Rightarrow> entry) (gn_ledger g)"
  by (simp add: entries_def ledger_wf_sorted)

lemma ledger_file_new:
  assumes "ledger_wf g" and "length (gn_ledger g) + 1 < 10 ^ 6"
  shows "ledger_file (length (gn_ledger g) + 1) ev \<notin> fst ` set (gn_ledger g)"
proof
  assume "ledger_file (length (gn_ledger g) + 1) ev \<in> fst ` set (gn_ledger g)"
  then obtain i where i: "i < length (gn_ledger g)" "fst (gn_ledger g ! i) = ledger_file (length (gn_ledger g) + 1) ev"
    by (metis (no_types, lifting) image_iff in_set_conv_nth)
  obtain ev' where ev': "fst (gn_ledger g ! i) = ledger_file (i + 1) ev'" using assms(1) i(1) unfolding ledger_wf_def by (metis fst_conv)
  have "ledger_file (i + 1) ev' < ledger_file (length (gn_ledger g) + 1) ev" using i(1) assms(2) by (intro ledger_file_less) auto
  then show False using i(2) ev' by simp
qed

text \<open>What one call of \<open>record\<close> does to the directory.\<close>

lemma record_appends:
  assumes "ledger_wf g" and "length (gn_ledger g) + 1 < 10 ^ 6" and "record_entry env ev r g = (Inr e, g')"
  shows "gn_ledger g' = gn_ledger g @ [(ledger_file (length (gn_ledger g) + 1) ev, Some e)]"
    and "entries g' = entries g @ [e]" and "ledger_wf g'"
    and "gn_objects g' = gn_objects g" "gn_states g' = gn_states g" "gn_current_root g' = gn_current_root g"
proof -
  have count: "length (entries g) = length (gn_ledger g)" by (simp add: entries_def)
  have g': "g' = g\<lparr>gn_ledger := AList.update (ledger_file (length (gn_ledger g) + 1) ev) (Some e) (gn_ledger g)\<rparr>"
    using assms(3) by (auto simp: record_entry_def Let_def count split: sum.splits exn.splits)
  then show led: "gn_ledger g' = gn_ledger g @ [(ledger_file (length (gn_ledger g) + 1) ev, Some e)]"
    using ledger_file_new [OF assms(1,2)] by (simp add: update_new)
  show wf: "ledger_wf g'" using assms(1,2) by (auto simp: ledger_wf_def led nth_append less_Suc_eq)
  show "entries g' = entries g @ [e]" using entries_wf [OF wf] entries_wf [OF assms(1)] by (simp add: led)
  show "gn_objects g' = gn_objects g" "gn_states g' = gn_states g" "gn_current_root g' = gn_current_root g"
    by (simp_all add: g')
qed

lemma record_raises: "record_entry env ev r g = (Inl x, g') \<Longrightarrow> g' = g"
  by (auto simp: record_entry_def Let_def split: sum.splits exn.splits)

section \<open>Verification\<close>

lemma check_entries_append:
  "check_entries env n p (xs @ ys) = rbind (check_entries env n p xs) (\<lambda>(f, r).
     rbind (check_entries env (n + length xs) r ys) (\<lambda>(m, r'). Inr (f @ m, r')))"
proof (induction xs arbitrary: n p)
  case (Cons x xs)
  then show ?case by (cases "check_entry env n p x") (auto simp: rbind_assoc rbind_def split: sum.splits prod.splits)
qed (auto simp: rbind_def split: sum.splits)

lemma stable_hash_not_Nil [simp]: "stable_hash j \<noteq> []"
  using length_hexdigest by (metis stable_hash_def list.size(3) zero_neq_numeral)

text \<open>An entry passes: numbered, linked, with the right digest, and signed.\<close>

definition ledger_entry_ok :: "genesis_env \<Rightarrow> nat \<Rightarrow> json \<Rightarrow> jdict \<Rightarrow> bool" where
  "ledger_entry_ok env n p e \<longleftrightarrow>
     (\<exists>c. verify_object_signature (ge_ed env) (JObj (AList.delete ''signature'' e)) (jget_or e ''signature'' (JObj [])) (ge_trusted_keys env) = Inr c \<and>
        sc_verified c) \<and>
     is_number (jget e ''sequence'') (int n) \<and> jget e ''previous_hash'' = p \<and>
     jget e ''receipt_hash'' = JStr (stable_hash (JObj (entry_payload e)))"

lemma jget_delete: "k \<noteq> k' \<Longrightarrow> jget (AList.delete k' d) k = jget d k"
  by (simp add: jget_def delete_conv')

lemma check_entry_passes:
  "check_entry env n p e = Inr ([], p') \<longleftrightarrow> ledger_entry_ok env n p e \<and> p' = jget e ''receipt_hash''"
proof -
  have "jget (AList.delete ''signature'' e) ''receipt_hash'' = jget e ''receipt_hash''" by (simp add: jget_delete)
  moreover have "truthy (jget e ''receipt_hash'')" if "JStr (stable_hash (JObj (entry_payload e))) = jget e ''receipt_hash''"
    using that by (metis stable_hash_not_Nil truthy.simps(5))
  ultimately show ?thesis
    by (auto simp: check_entry_def ledger_entry_ok_def Let_def rbind_Inr_iff py_or_def)
qed

lemma check_entries_Cons_passes:
  "check_entries env n p (e # es) = Inr ([], root) \<longleftrightarrow>
     ledger_entry_ok env n p e \<and> check_entries env (n + 1) (jget e ''receipt_hash'') es = Inr ([], root)"
  by (auto simp: rbind_Inr_iff check_entry_passes)

lemma check_entries_root:
  assumes "check_entries env n p es = Inr ([], root)" and "es \<noteq> []"
  shows "root = jget (last es) ''receipt_hash''"
  using assms
proof (induction es arbitrary: n p)
  case (Cons e es)
  then show ?case by (cases "es = []") (auto simp: check_entries_Cons_passes simp del: check_entries.simps(2))
qed simp

lemma check_entries_snoc_passes:
  "check_entries env n p (es @ [e]) = Inr ([], root) \<longleftrightarrow>
     (\<exists>r. check_entries env n p es = Inr ([], r) \<and> ledger_entry_ok env (n + length es) r e \<and> root = jget e ''receipt_hash'')"
  by (auto simp: check_entries_append rbind_Inr_iff check_entry_passes)

definition ledger_passes :: "genesis_env \<Rightarrow> genesis \<Rightarrow> bool" where
  "ledger_passes env g \<longleftrightarrow> (\<exists>root. check_entries env 1 (JStr ZERO_HASH) (entries g) = Inr ([], root))"

lemma verify_genesis_passes:
  "ledger_passes env g \<longleftrightarrow> (\<exists>r. verify_genesis env g = Inr r \<and> lr_ledger_verified r)"
  unfolding ledger_passes_def verify_genesis_def by (auto simp: rbind_Inr_iff)

lemma last_hash_root:
  assumes "check_entries env 1 (JStr ZERO_HASH) (entries g) = Inr ([], root)"
  shows "last_hash g = root"
proof (cases "entries g" rule: rev_cases)
  case Nil
  then show ?thesis using assms by (simp add: last_hash_def)
next
  case (snoc es e)
  then have "ledger_entry_ok env (1 + length es) r e" "root = jget e ''receipt_hash''" if "check_entries env 1 (JStr ZERO_HASH) es = Inr ([], r)" for r
    using assms that by (auto simp: check_entries_snoc_passes)
  then have "jget e ''receipt_hash'' = JStr (stable_hash (JObj (entry_payload e)))" "root = jget e ''receipt_hash''"
    using assms snoc by (auto simp: check_entries_snoc_passes ledger_entry_ok_def)
  then show ?thesis by (auto simp: last_hash_def snoc jget_or_def jget_def split: option.splits)
qed

lemma jmerge_keys: "fst ` set (jmerge d kvs) = fst ` set d \<union> fst ` set kvs"
proof (induction kvs arbitrary: d)
  case (Cons kv kvs)
  then show ?case by (cases kv) (auto simp: jmerge_def update_keys)
qed (simp add: jmerge_def)

lemma payload_members:
  "map_of (ledger_payload g ev r) ''ledger_format'' = Some (JStr LEDGER_FORMAT)"
  "map_of (ledger_payload g ev r) ''sequence'' = Some (JInt (int (length (entries g) + 1)))"
  "map_of (ledger_payload g ev r) ''event'' = Some (JStr ev)"
  "map_of (ledger_payload g ev r) ''previous_hash'' = Some (last_hash g)"
  "k \<notin> set [''ledger_format'', ''sequence'', ''event'', ''previous_hash''] \<Longrightarrow> map_of (ledger_payload g ev r) k = map_of r k"
  by (simp_all add: ledger_payload_def jmerge_def)

text \<open>A receipt that leaves the two members free that \<open>record\<close> adds after hashing.\<close>

definition plain_receipt :: "jdict \<Rightarrow> bool" where
  "plain_receipt r \<longleftrightarrow> ''receipt_hash'' \<notin> fst ` set r \<and> ''signature'' \<notin> fst ` set r"

lemma delete_append: "AList.delete k (xs @ ys) = AList.delete k xs @ AList.delete k ys"
  by (induction xs) auto

lemma recorded_entry:
  assumes "record_entry env ev r g = (Inr e, g')" and "plain_receipt r"
  obtains signature where "sign_object (ge_ed env) (JObj (AList.delete ''signature'' e)) (ge_private_key env) = Inr signature"
    and "e = ledger_payload g ev r @ [(''receipt_hash'', JStr (stable_hash (JObj (ledger_payload g ev r)))), (''signature'', signature)]"
    and "entry_payload e = ledger_payload g ev r"
proof -
  let ?p = "ledger_payload g ev r" let ?h = "JStr (stable_hash (JObj ?p))"
  have keys: "''receipt_hash'' \<notin> fst ` set ?p" "''signature'' \<notin> fst ` set ?p"
    using assms(2) by (auto simp: ledger_payload_def jmerge_keys plain_receipt_def)
  have unsigned: "AList.update ''receipt_hash'' ?h ?p = ?p @ [(''receipt_hash'', ?h)]" using keys(1) by (rule update_new)
  have fresh: "''signature'' \<notin> fst ` set (?p @ [(''receipt_hash'', ?h)])" using keys(2) by simp
  have signed: "AList.update ''signature'' sg (?p @ [(''receipt_hash'', ?h)]) = ?p @ [(''receipt_hash'', ?h), (''signature'', sg)]" for sg
    unfolding update_new [OF fresh] by simp
  obtain sg where sg: "sign_object (ge_ed env) (JObj (?p @ [(''receipt_hash'', ?h)])) (ge_private_key env) = Inr sg"
      and e: "e = ?p @ [(''receipt_hash'', ?h), (''signature'', sg)]"
    using assms(1) by (auto simp: record_entry_def Let_def unsigned signed split: sum.splits exn.splits)
  have none: "AList.delete ''signature'' ?p = ?p" "AList.delete ''receipt_hash'' ?p = ?p" using keys by (auto intro: delete_id)
  then have "AList.delete ''signature'' e = ?p @ [(''receipt_hash'', ?h)]" by (simp add: e delete_append)
  moreover from this have "entry_payload e = ?p" using none by (simp add: entry_payload_def delete_append)
  ultimately show ?thesis using that [of sg] sg e by simp
qed

lemma recorded_members:
  assumes "record_entry env ev r g = (Inr e, g')" and "plain_receipt r"
  shows "map_of e ''event'' = Some (JStr ev)"
    and "map_of e ''sequence'' = Some (JInt (int (length (entries g) + 1)))"
    and "map_of e ''receipt_hash'' = Some (JStr (stable_hash (JObj (ledger_payload g ev r))))"
    and "k \<notin> set [''ledger_format'', ''sequence'', ''event'', ''previous_hash'', ''receipt_hash'', ''signature''] \<Longrightarrow> map_of e k = map_of r k"
proof -
  obtain sg where e: "e = ledger_payload g ev r @ [(''receipt_hash'', JStr (stable_hash (JObj (ledger_payload g ev r)))), (''signature'', sg)]"
    using recorded_entry [OF assms] by blast
  have free: "map_of r ''receipt_hash'' = None" using assms(2) by (simp add: plain_receipt_def map_of_eq_None_iff)
  show "map_of e ''event'' = Some (JStr ev)" "map_of e ''sequence'' = Some (JInt (int (length (entries g) + 1)))"
    by (simp_all add: e map_add_def payload_members(2,3))
  show "map_of e ''receipt_hash'' = Some (JStr (stable_hash (JObj (ledger_payload g ev r))))"
    by (simp add: e map_add_def payload_members(5) free)
  assume k: "k \<notin> set [''ledger_format'', ''sequence'', ''event'', ''previous_hash'', ''receipt_hash'', ''signature'']"
  then have "map_of (ledger_payload g ev r) k = map_of r k" by (intro payload_members(5)) simp
  then show "map_of e k = map_of r k" using k by (simp add: e map_add_def split: option.split)
qed

lemma record_keeps_verified:
  assumes "ledger_wf g" and "length (gn_ledger g) + 1 < 10 ^ 6" and "ledger_passes env g"
    and "ed25519_correct (ge_ed env)" and "trusts_own (ge_ed env) (ge_private_key env) (ge_trusted_keys env)"
    and "plain_receipt r" and rec: "record_entry env ev r g = (Inr e, g')"
  shows "ledger_entry_ok env (length (entries g) + 1) (last_hash g) e" and "ledger_passes env g'"
proof -
  obtain root where root: "check_entries env 1 (JStr ZERO_HASH) (entries g) = Inr ([], root)" using assms(3) by (auto simp: ledger_passes_def)
  obtain sg where sg: "sign_object (ge_ed env) (JObj (AList.delete ''signature'' e)) (ge_private_key env) = Inr sg"
      and e: "e = ledger_payload g ev r @ [(''receipt_hash'', JStr (stable_hash (JObj (ledger_payload g ev r)))), (''signature'', sg)]"
      and payload: "entry_payload e = ledger_payload g ev r"
    using recorded_entry [OF rec assms(6)] by blast
  obtain k where "verify_object_signature (ge_ed env) (JObj (AList.delete ''signature'' e)) sg (ge_trusted_keys env) =
      Inr \<lparr>sc_verified = True, sc_key_id = k, sc_reason = JNull\<rparr>"
    using sign_then_verify [OF assms(4,5)] sg by (metis sum.inject(2))
  moreover have "map_of (ledger_payload g ev r) ''signature'' = None" "map_of (ledger_payload g ev r) ''receipt_hash'' = None"
    using assms(6) by (simp_all add: payload_members plain_receipt_def map_of_eq_None_iff)
  moreover have "map_of e k = (case map_of (ledger_payload g ev r) k of Some v \<Rightarrow> Some v
      | None \<Rightarrow> map_of [(''receipt_hash'', JStr (stable_hash (JObj (ledger_payload g ev r)))), (''signature'', sg)] k)" for k
    by (simp add: e map_add_def split: option.splits)
  ultimately show ok: "ledger_entry_ok env (length (entries g) + 1) (last_hash g) e"
    by (simp add: ledger_entry_ok_def payload jget_def jget_or_def payload_members(1-4) is_number_def)
  show "ledger_passes env g'"
    using root ok last_hash_root [OF root] record_appends(2) [OF assms(1,2) rec]
    by (auto simp: ledger_passes_def check_entries_snoc_passes)
qed

section \<open>What a ledger root commits to\<close>

lemma utf8_inject [simp]: "utf8 s = utf8 t \<longleftrightarrow> s = t"
  by (metis sum.inject(2) utf8_decode_utf8)

lemma dumps_determines:
  assumes "json_ok j" and "json_ok j'" and "dumps j = dumps j'"
  shows "canon j = canon j'"
  using loads_dumps [OF assms(1)] loads_dumps [OF assms(2)] assms(3) by simp

lemma canon_members:
  assumes "json_ok (JObj kvs)" and "json_ok (JObj kvs')" and "canon (JObj kvs) = canon (JObj kvs')"
  shows "map_option canon (map_of kvs k) = map_option canon (map_of kvs' k)"
proof -
  let ?c = "map (\<lambda>(k, v). (k, canon v))"
  have dist: "distinct (map fst (?c xs))" if "distinct (map fst xs)" for xs :: jdict
    using that by (simp add: comp_def case_prod_unfold)
  have "sort_key fst (?c kvs) = sort_key fst (?c kvs')" using assms(3) by simp
  then have "set (?c kvs) = set (?c kvs')" by (metis set_sort)
  then have "map_of (?c kvs) = map_of (?c kvs')" using assms(1,2) dist by (simp add: map_of_inject_set)
  then show ?thesis by (simp add: map_of_map fun_eq_iff)
qed

definition payload_bytes :: "jdict \<Rightarrow> bytes" where
  "payload_bytes e = canonical_bytes (JObj (entry_payload e))"

text \<open>Entries without floats whose members are distinct, as every parsed object's are.\<close>

definition plain_entries :: "jdict list \<Rightarrow> bool" where
  "plain_entries es \<longleftrightarrow> (\<forall>e \<in> set es. json_ok (JObj (entry_payload e)))"

lemma jget_payload:
  assumes "k \<noteq> ''receipt_hash''" and "k \<noteq> ''signature''"
  shows "map_of (entry_payload e) k = map_of e k"
  using assms by (simp add: entry_payload_def)

lemma payload_determines:
  assumes "json_ok (JObj (entry_payload e))" and "json_ok (JObj (entry_payload e'))" and "payload_bytes e = payload_bytes e'"
    and "k \<noteq> ''receipt_hash''" and "k \<noteq> ''signature''"
  shows "canon (jget e k) = canon (jget e' k)"
proof -
  have "map_option canon (map_of e k) = map_option canon (map_of e' k)"
    using canon_members [OF assms(1,2) dumps_determines [OF assms(1,2)], of k] assms(3)
    by (simp add: payload_bytes_def canonical_bytes_def jget_payload [OF assms(4,5)])
  then show ?thesis by (auto simp: jget_def split: option.splits)
qed

lemma linked_payloads:
  assumes "ledger_entry_ok env n p e" and "ledger_entry_ok env' n' p' e'" and "jget e ''receipt_hash'' = jget e' ''receipt_hash''"
    and "\<not> collision (payload_bytes e) (payload_bytes e')"
    and "json_ok (JObj (entry_payload e))" and "json_ok (JObj (entry_payload e'))"
  shows "payload_bytes e = payload_bytes e'" and "n = n'" and "canon p = canon p'"
proof -
  show same: "payload_bytes e = payload_bytes e'"
    by (rule no_collision [OF _ assms(4)])
      (use assms(1-3) in \<open>auto simp: ledger_entry_ok_def payload_bytes_def canonical_bytes_def stable_hash_def\<close>)
  have "canon (jget e ''sequence'') = canon (jget e' ''sequence'')" "canon (jget e ''previous_hash'') = canon (jget e' ''previous_hash'')"
    by (rule payload_determines [OF assms(5,6) same]; simp)+
  then show "n = n'" "canon p = canon p'" using assms(1,2) by (auto simp: ledger_entry_ok_def is_number_def)
qed

text \<open>
  Two ledgers that pass, possibly for different readers, with one root: the same payloads in the same
  order, unless two of the payloads collide.
\<close>

lemma chain_commits_same_length:
  assumes "length es = length es'"
    and "check_entries env 1 p es = Inr ([], root)" and "check_entries env' 1 p' es' = Inr ([], root')"
    and "canon root = canon root'" and "plain_entries es" and "plain_entries es'"
    and "\<forall>e \<in> set es. \<forall>e' \<in> set es'. \<not> collision (payload_bytes e) (payload_bytes e')"
  shows "map payload_bytes es = map payload_bytes es'"
  using assms
proof (induction es arbitrary: es' root root' rule: rev_induct)
  case (snoc e es)
  obtain fs f where es': "es' = fs @ [f]" using snoc.prems(1) by (cases es' rule: rev_cases) auto
  obtain r r' where r: "check_entries env 1 p es = Inr ([], r)" "ledger_entry_ok env (1 + length es) r e" "root = jget e ''receipt_hash''"
      and r': "check_entries env' 1 p' fs = Inr ([], r')" "ledger_entry_ok env' (1 + length fs) r' f" "root' = jget f ''receipt_hash''"
    using snoc.prems(2,3) by (auto simp: es' check_entries_snoc_passes)
  have hash: "jget e ''receipt_hash'' = jget f ''receipt_hash''"
    using r(2,3) r'(2,3) snoc.prems(4) by (auto simp: ledger_entry_ok_def)
  have ok: "json_ok (JObj (entry_payload e))" "json_ok (JObj (entry_payload f))" "\<not> collision (payload_bytes e) (payload_bytes f)"
    using snoc.prems(5-7) by (auto simp: plain_entries_def es')
  note last = linked_payloads [OF r(2) r'(2) hash ok(3,1,2)]
  have "map payload_bytes es = map payload_bytes fs"
    by (rule snoc.IH [OF _ r(1) r'(1) last(3)]) (use snoc.prems in \<open>auto simp: es' plain_entries_def\<close>)
  then show ?case using last(1) by (simp add: es')
qed simp

lemma chain_commits:
  assumes "es \<noteq> []" and "es' \<noteq> []"
    and "check_entries env 1 p es = Inr ([], root)" and "check_entries env' 1 p' es' = Inr ([], root)"
    and "plain_entries es" and "plain_entries es'"
    and "\<forall>e \<in> set es. \<forall>e' \<in> set es'. \<not> collision (payload_bytes e) (payload_bytes e')"
  shows "map payload_bytes es = map payload_bytes es'"
proof -
  obtain xs e ys f where split: "es = xs @ [e]" "es' = ys @ [f]" using assms(1,2) by (metis rev_exhaust)
  obtain r r' where "ledger_entry_ok env (1 + length xs) r e" "root = jget e ''receipt_hash''"
      "ledger_entry_ok env' (1 + length ys) r' f" "root = jget f ''receipt_hash''"
    using assms(3,4) by (auto simp: split check_entries_snoc_passes)
  then have "1 + length xs = 1 + length ys"
    using assms(5-7) linked_payloads(2) [of env "1 + length xs" r e env' "1 + length ys" r' f] by (auto simp: split plain_entries_def)
  then show ?thesis by (intro chain_commits_same_length [OF _ assms(3,4) refl assms(5-7)]) (simp add: split)
qed

end
