(* ===== verification/Genesis_State.thy ===== *)
theory Genesis_State
  imports Genesis_Correct
begin

text \<open>
  The copy-on-write file state as a map from paths to contents: writing refines map update, reading refines
  lookup, earlier states stay intact, and rolling back to a write restores the map as it was after it.
  Statements about digests are up to explicit collisions.
\<close>

section \<open>The state of the files\<close>

definition ref_ok :: "genesis \<Rightarrow> file_ref \<Rightarrow> bool" where
  "ref_ok g r \<longleftrightarrow> (\<exists>data. map_of (gn_objects g) (fr_object_sha256 r) = Some data \<and>
     fr_object_sha256 r = hexdigest data \<and> fr_size r = int (length data))"

definition files_ok :: "genesis \<Rightarrow> files \<Rightarrow> bool" where
  "files_ok g files \<longleftrightarrow> distinct (map fst files) \<and> (\<forall>(p, r) \<in> set files. ref_ok g r)"

definition gfs_ok :: "genesis \<Rightarrow> bool" where
  "gfs_ok g \<longleftrightarrow> (\<exists>root files. gn_current_root g = Some root \<and> map_of (gn_states g) root = Some files) \<and>
     (\<forall>(k, data) \<in> set (gn_objects g). k = hexdigest data) \<and>
     (\<forall>root files. map_of (gn_states g) root = Some files \<longrightarrow> root = manifest_root files \<and> files_ok g files)"

definition contents :: "genesis \<Rightarrow> files \<Rightarrow> string \<rightharpoonup> bytes" where
  "contents g files p = (case map_of files p of None \<Rightarrow> None | Some r \<Rightarrow> map_of (gn_objects g) (fr_object_sha256 r))"

definition current_files :: "genesis \<Rightarrow> files" where
  "current_files g = (case gn_current_root g of None \<Rightarrow> [] | Some root \<Rightarrow>
     (case map_of (gn_states g) root of None \<Rightarrow> [] | Some files \<Rightarrow> files))"

definition view :: "genesis \<Rightarrow> string \<rightharpoonup> bytes" where
  "view g = contents g (current_files g)"

text \<open>A later directory keeps every object, and every saved manifest up to the order of its members.\<close>

definition extends :: "genesis \<Rightarrow> genesis \<Rightarrow> bool" where
  "extends g g' \<longleftrightarrow> map_of (gn_objects g) \<subseteq>\<^sub>m map_of (gn_objects g') \<and>
     (\<forall>root files. map_of (gn_states g) root = Some files \<longrightarrow>
        (\<exists>files'. map_of (gn_states g') root = Some files' \<and> map_of files' = map_of files))"

lemma extends_refl [simp]: "extends g g"
  by (simp add: extends_def)

lemma extends_trans: "extends g g' \<Longrightarrow> extends g' g'' \<Longrightarrow> extends g g''"
  unfolding extends_def by (meson map_le_trans) metis

lemma extends_same: "gn_objects g' = gn_objects g \<Longrightarrow> gn_states g' = gn_states g \<Longrightarrow> extends g g'"
  by (simp add: extends_def)

lemma ref_ok_extends: "extends g g' \<Longrightarrow> ref_ok g r \<Longrightarrow> ref_ok g' r"
  by (auto simp: ref_ok_def extends_def map_le_def dom_def)

lemma contents_extends:
  assumes "extends g g'" and "files_ok g files" and "map_of files' = map_of files"
  shows "contents g' files' = contents g files"
proof
  fix p
  show "contents g' files' p = contents g files p"
  proof (cases "map_of files p")
    case None
    then show ?thesis using assms(3) by (simp add: contents_def)
  next
    case (Some r)
    then have "ref_ok g r" using assms(2) by (auto simp: files_ok_def dest: map_of_SomeD)
    then obtain data where "map_of (gn_objects g) (fr_object_sha256 r) = Some data" by (auto simp: ref_ok_def)
    moreover from this have "map_of (gn_objects g') (fr_object_sha256 r) = Some data"
      using assms(1) by (auto simp: extends_def map_le_def dom_def)
    ultimately show ?thesis using Some assms(3) by (simp add: contents_def)
  qed
qed

lemma gfs_current:
  assumes "gfs_ok g"
  obtains root where "gn_current_root g = Some root" and "map_of (gn_states g) root = Some (current_files g)"
    and "root = manifest_root (current_files g)" and "files_ok g (current_files g)"
proof -
  obtain root files where r: "gn_current_root g = Some root" "map_of (gn_states g) root = Some files"
    using assms unfolding gfs_ok_def by blast
  have "current_files g = files" by (simp add: current_files_def r)
  moreover have "root = manifest_root files \<and> files_ok g files" using assms r(2) unfolding gfs_ok_def by blast
  ultimately show thesis using that r by simp
qed

lemma current_manifest_ok: "gfs_ok g \<Longrightarrow> current_manifest g = (Inr (current_files g), g)"
  by (erule gfs_current) (auto simp: current_manifest_def Let_def)

lemma current_root_ok: "gfs_ok g \<Longrightarrow> current_root g = (Inr (manifest_root (current_files g)), g)"
  using current_manifest_ok [of g] by (auto elim!: gfs_current simp: current_root_def abind_def aread_def)

section \<open>Manifests and their roots\<close>

definition manifest_bytes :: "files \<Rightarrow> bytes" where
  "manifest_bytes files = canonical_bytes (JObj [(''files'', files_json files)])"

lemma manifest_root_digest: "manifest_root files = hexdigest (manifest_bytes files)"
  by (simp add: manifest_root_def manifest_bytes_def stable_hash_def canonical_bytes_def)

lemma files_json_ok: "distinct (map fst files) \<Longrightarrow> json_ok (files_json files)"
  by (auto simp: files_json_def comp_def case_prod_unfold)

lemma map_of_files_json:
  "map_of (map (\<lambda>(p, r). (p, f r)) files) p = map_option f (map_of files p)"
  by (induction files) auto

lemma manifest_bytes_determine:
  assumes "distinct (map fst files)" and "distinct (map fst files')" and "manifest_bytes files = manifest_bytes files'"
  shows "map_of files = map_of files'"
proof
  fix p
  let ?ref = "\<lambda>r. JObj [(''object_sha256'', JStr (fr_object_sha256 r)), (''size'', JInt (fr_size r))]"
  have ok: "json_ok (JObj [(''files'', files_json files)])" "json_ok (JObj [(''files'', files_json files')])"
    using files_json_ok assms(1,2) by auto
  have "canon (files_json files) = canon (files_json files')"
    using canon_members [OF ok dumps_determines [OF ok], of "''files''"] assms(3) by (simp add: manifest_bytes_def canonical_bytes_def)
  then have "map_option canon (map_option ?ref (map_of files p)) = map_option canon (map_option ?ref (map_of files' p))"
    using canon_members [of "map (\<lambda>(p, r). (p, ?ref r)) files" "map (\<lambda>(p, r). (p, ?ref r)) files'" p]
      files_json_ok [OF assms(1)] files_json_ok [OF assms(2)]
    unfolding files_json_def map_of_files_json by blast
  then show "map_of files p = map_of files' p"
    by (cases "map_of files p"; cases "map_of files' p") (auto intro: file_ref.equality)
qed

section \<open>Writing\<close>

definition after_write :: "genesis \<Rightarrow> string \<Rightarrow> bytes \<Rightarrow> files" where
  "after_write g rel data = AList.update rel \<lparr>fr_object_sha256 = hexdigest data, fr_size = int (length data)\<rparr> (current_files g)"

text \<open>Neither the new content nor the new manifest collides with a stored one.\<close>

definition write_clear :: "genesis \<Rightarrow> string \<Rightarrow> bytes \<Rightarrow> bool" where
  "write_clear g rel data \<longleftrightarrow> (\<forall>(k, d) \<in> set (gn_objects g). \<not> collision data d) \<and>
     (\<forall>(root, files) \<in> set (gn_states g). \<not> collision (manifest_bytes (after_write g rel data)) (manifest_bytes files))"

definition written :: "genesis \<Rightarrow> string \<Rightarrow> bytes \<Rightarrow> genesis" where
  "written g rel data = snd (save_manifest (after_write g rel data) (snd (store_object data g)))"

definition write_receipt :: "genesis \<Rightarrow> string \<Rightarrow> bytes \<Rightarrow> string \<Rightarrow> jdict" where
  "write_receipt g rel data capability =
    [(''format'', JStr ''BOGOS-Genesis-fs-write-receipt-9.0''), (''path'', JStr rel), (''capability'', JStr capability),
     (''object_sha256'', JStr (hexdigest data)), (''before_root_sha256'', JStr (manifest_root (current_files g))),
     (''after_root_sha256'', JStr (manifest_root (after_write g rel data))), (''execution_status'', JStr ''completed'')]"

lemma fs_write_eq:
  assumes "gfs_ok g" and "safe_path path = Inr rel"
  shows "fs_write env path data capability g = record_entry env ''fs-write'' (write_receipt g rel data capability) (written g rel data)"
  by (simp add: fs_write_def assms(2) abind_def alift_def current_manifest_ok [OF assms(1)] store_object_def save_manifest_def
      Let_def written_def after_write_def write_receipt_def)

lemma stored_content:
  assumes "gfs_ok g" and "\<forall>(k, d) \<in> set (gn_objects g). \<not> collision data d"
  shows "map_of (gn_objects (snd (store_object data g))) (hexdigest data) = Some data"
    and "map_of (gn_objects g) \<subseteq>\<^sub>m map_of (gn_objects (snd (store_object data g)))"
proof -
  show "map_of (gn_objects (snd (store_object data g))) (hexdigest data) = Some data"
  proof (cases "hexdigest data \<in> fst ` set (gn_objects g)")
    case True
    then obtain d where d: "map_of (gn_objects g) (hexdigest data) = Some d" by (metis map_of_eq_None_iff not_None_eq)
    then have "(hexdigest data, d) \<in> set (gn_objects g)" by (rule map_of_SomeD)
    then have "hexdigest data = hexdigest d" "\<not> collision data d" using assms by (auto simp: gfs_ok_def)
    then have "data = d" by (simp add: collision_def)
    then show ?thesis using True d by (simp add: store_object_def Let_def)
  qed (simp add: store_object_def Let_def)
  show "map_of (gn_objects g) \<subseteq>\<^sub>m map_of (gn_objects (snd (store_object data g)))"
    by (auto simp: store_object_def Let_def map_le_def domIff map_of_eq_None_iff)
qed

lemma written_ok:
  assumes "gfs_ok g" and "write_clear g rel data"
  shows "gfs_ok (written g rel data)" and "extends g (written g rel data)"
    and "view (written g rel data) = (view g)(rel \<mapsto> data)" and "current_files (written g rel data) = after_write g rel data"
    and "gn_ledger (written g rel data) = gn_ledger g"
proof -
  let ?g1 = "snd (store_object data g)" let ?g' = "written g rel data" let ?fs = "after_write g rel data"
  have clear: "\<forall>(k, d) \<in> set (gn_objects g). \<not> collision data d" using assms(2) by (simp add: write_clear_def)
  have objs: "gn_objects ?g' = gn_objects ?g1" and states: "gn_states ?g' = AList.update (manifest_root ?fs) ?fs (gn_states g)"
      and cur: "gn_current_root ?g' = Some (manifest_root ?fs)"
    by (simp_all add: written_def save_manifest_def Let_def store_object_def)
  show "gn_ledger ?g' = gn_ledger g" by (simp add: written_def save_manifest_def Let_def store_object_def)
  note stored = stored_content [OF assms(1) clear, folded objs]
  have old: "root = manifest_root files \<and> files_ok g files" if "map_of (gn_states g) root = Some files" for root files
    using assms(1) that unfolding gfs_ok_def by blast
  have dist: "distinct (map fst ?fs)"
    using assms(1) by (auto elim!: gfs_current simp: after_write_def files_ok_def distinct_update)
  have same: "map_of ?fs = map_of files" if "map_of (gn_states g) (manifest_root ?fs) = Some files" for files
  proof -
    have "\<not> collision (manifest_bytes ?fs) (manifest_bytes files)"
      using assms(2) map_of_SomeD [OF that] by (auto simp: write_clear_def)
    moreover have "sha256 (manifest_bytes ?fs) = sha256 (manifest_bytes files)" using old [OF that] by (simp add: manifest_root_digest)
    ultimately have "manifest_bytes ?fs = manifest_bytes files" by (simp add: collision_def)
    then show ?thesis using dist old [OF that] by (intro manifest_bytes_determine) (simp_all add: files_ok_def)
  qed
  show ext: "extends g ?g'" unfolding extends_def states using stored(2) same by auto
  have refs: "files_ok ?g' files" if "files_ok g files" for files
    using that ref_ok_extends [OF ext] by (auto simp: files_ok_def)
  have fs: "files_ok ?g' ?fs"
  proof -
    have "ref_ok ?g' r" if "map_of ?fs p = Some r" for p r
    proof (cases "p = rel")
      case True
      then show ?thesis using that stored(1) by (auto simp: after_write_def ref_ok_def)
    next
      case False
      then have "(p, r) \<in> set (current_files g)" using that by (auto simp: after_write_def dest: map_of_SomeD)
      moreover have "files_ok g (current_files g)" using assms(1) by (rule gfs_current)
      ultimately show ?thesis using ref_ok_extends [OF ext] by (auto simp: files_ok_def)
    qed
    then show ?thesis using dist by (auto simp: files_ok_def)
  qed
  show cf: "current_files ?g' = ?fs" by (simp add: current_files_def cur states)
  have "\<forall>(k, d) \<in> set (gn_objects ?g'). k = hexdigest d"
    using assms(1) unfolding objs by (auto simp: gfs_ok_def store_object_def Let_def update_new)
  then show "gfs_ok ?g'" unfolding gfs_ok_def using cur states fs refs old by auto
  show "view ?g' = (view g)(rel \<mapsto> data)"
  proof
    fix p
    have "contents ?g' (current_files g) p = contents g (current_files g) p"
      using assms(1) contents_extends [OF ext] by (auto elim!: gfs_current)
    then show "view ?g' p = ((view g)(rel \<mapsto> data)) p"
      using stored(1) by (simp add: view_def cf) (simp add: contents_def after_write_def)
  qed
qed

section \<open>Reading and rolling back\<close>

definition same_files :: "genesis \<Rightarrow> genesis \<Rightarrow> bool" where
  "same_files g g' \<longleftrightarrow> gn_objects g' = gn_objects g \<and> gn_states g' = gn_states g \<and> gn_current_root g' = gn_current_root g"

lemma same_files_keep:
  assumes "same_files g g'"
  shows "gfs_ok g' \<longleftrightarrow> gfs_ok g" and "view g' = view g" and "current_files g' = current_files g" and "extends g g'"
proof -
  have eq: "gn_objects g' = gn_objects g" "gn_states g' = gn_states g" "gn_current_root g' = gn_current_root g"
    using assms by (simp_all add: same_files_def)
  show "gfs_ok g' \<longleftrightarrow> gfs_ok g" by (simp add: gfs_ok_def files_ok_def ref_ok_def eq)
  show cf: "current_files g' = current_files g" unfolding current_files_def eq ..
  show "view g' = view g" unfolding view_def cf contents_def [abs_def] eq ..
  show "extends g g'" by (rule extends_same) (simp_all add: eq)
qed

text \<open>A call that ends with \<open>record\<close>: one more entry, or none when recording raises.\<close>

definition recorded :: "genesis_env \<Rightarrow> genesis \<Rightarrow> genesis \<Rightarrow> bool" where
  "recorded env g g' \<longleftrightarrow> g' = g \<or> (\<exists>ev r e. plain_receipt r \<and> record_entry env ev r g = (Inr e, g'))"

lemma recorded_refl [simp]: "recorded env g g"
  by (simp add: recorded_def)

lemma record_recorded: "plain_receipt r \<Longrightarrow> record_entry env ev r g = (res, g') \<Longrightarrow> recorded env g g'"
  unfolding recorded_def by (cases res) (auto dest: record_raises)

lemma recorded_keeps:
  assumes "ledger_wf g" and "length (gn_ledger g) + 1 < 10 ^ 6" and "recorded env g g'"
  shows "ledger_wf g'" and "same_files g g'" and "\<exists>es. entries g' = entries g @ es" and "length (gn_ledger g') \<le> length (gn_ledger g) + 1"
  using assms(3) assms(1) record_appends [OF assms(1,2)] unfolding recorded_def same_files_def by (auto simp: record_appends(1) [OF assms(1,2)])

lemma read_object_ok:
  assumes "gfs_ok g"
  shows "read_object (map_of (current_files g) rel) g = (Inr (case view g rel of None \<Rightarrow> [] | Some data \<Rightarrow> data), g)"
    and "(map_of (current_files g) rel = None) = (view g rel = None)"
proof -
  have ok: "files_ok g (current_files g)" using assms by (rule gfs_current)
  have "ref_ok g r" if "map_of (current_files g) rel = Some r" for r
    using ok map_of_SomeD [OF that] by (auto simp: files_ok_def)
  then show "read_object (map_of (current_files g) rel) g = (Inr (case view g rel of None \<Rightarrow> [] | Some data \<Rightarrow> data), g)"
      "(map_of (current_files g) rel = None) = (view g rel = None)"
    by (cases "map_of (current_files g) rel"; force simp: read_object_def alift_def aread_def view_def contents_def ref_ok_def)+
qed

definition read_receipt :: "genesis \<Rightarrow> string \<Rightarrow> string \<Rightarrow> jdict" where
  "read_receipt g rel capability =
    (let failures = (if view g rel = None then [jfailure rel ''file does not exist in Genesis state''] else [])
     in [(''format'', JStr ''BOGOS-Genesis-fs-read-receipt-9.0''), (''path'', JStr rel), (''capability'', JStr capability),
         (''object_sha256'', case view g rel of None \<Rightarrow> JNull | Some data \<Rightarrow> JStr (hexdigest data)),
         (''state_root_sha256'', JStr (manifest_root (current_files g))), (''failures'', JList failures),
         (''execution_status'', status_json failures)])"

lemma fs_read_eq:
  assumes "gfs_ok g" and "safe_path path = Inr rel"
  shows "fs_read env path capability g = (case record_entry env ''fs-read'' (read_receipt g rel capability) g of
     (Inl e, g') \<Rightarrow> (Inl e, g')
   | (Inr receipt, g') \<Rightarrow> (Inr (case view g rel of None \<Rightarrow> [] | Some data \<Rightarrow> data, receipt), g'))"
proof -
  note facts = current_manifest_ok [OF assms(1)] read_object_ok [OF assms(1), of rel] current_root_ok [OF assms(1)]
  show ?thesis
  proof (cases "view g rel")
    case None
    then show ?thesis using facts
      by (simp add: fs_read_def assms(2) abind_def alift_def Let_def read_receipt_def split: prod.split sum.split)
  next
    case (Some data)
    then obtain r where "map_of (current_files g) rel = Some r" using facts(3) by auto
    then show ?thesis using facts Some
      by (simp add: fs_read_def assms(2) abind_def alift_def Let_def read_receipt_def split: prod.split sum.split)
  qed
qed

text \<open>
  A rollback either leaves the pointer alone or sets it to a saved root, and then records; the effect does
  not depend on whether the receipt is written.
\<close>

lemma rollback_effect:
  assumes "gfs_ok g" and "rollback env selector g = (res, g')"
  shows "\<exists>g1. (g1 = g \<or> (\<exists>root \<in> fst ` set (gn_states g). g1 = g\<lparr>gn_current_root := Some root\<rparr>)) \<and> recorded env g1 g'"
proof (cases "read_entry g selector")
  case (Inl e)
  then show ?thesis using assms(2) by (auto simp: rollback_def abind_def aread_def recorded_def)
next
  case (Inr entry)
  let ?t = "target_root entry"
  have plain: "plain_receipt [(''format'', JStr ''BOGOS-Genesis-rollback-receipt-9.0''), (''source_receipt'', sr),
          (''before_root_sha256'', b), (''after_root_sha256'', t), (''rollback_verified'', v), (''failures'', f), (''execution_status'', st)]"
    for sr b t v f st by (simp add: plain_receipt_def)
  show ?thesis
  proof (cases "truthy ?t \<and> value_str ?t \<in> fst ` set (gn_states g)")
    case False
    then show ?thesis using assms(2) Inr
      by (intro exI [of _ g]) (auto simp: rollback_def abind_def aread_def alift_def Let_def current_root_ok [OF assms(1)]
          jmember_def intro: record_recorded [OF plain] split: option.splits)
  next
    case True
    show ?thesis
    proof (cases "\<exists>r. ?t = JStr r")
      case False
      then have "set_current_root ?t = alift (Inl TypeError)" by (auto simp: set_current_root_def split: json.splits)
      then show ?thesis using assms(2) Inr True
        by (intro exI [of _ g]) (auto simp: rollback_def abind_def aread_def alift_def Let_def current_root_ok [OF assms(1)] recorded_def)
    next
      case True': True
      then obtain r where r: "?t = JStr r" by blast
      let ?g1 = "g\<lparr>gn_current_root := Some r\<rparr>"
      have in_states: "r \<in> fst ` set (gn_states g)" using True r by simp
      then obtain files where "map_of (gn_states g) r = Some files" by (metis map_of_eq_None_iff not_None_eq)
      then have "current_root ?g1 = (Inr r, ?g1)" by (simp add: current_root_def current_manifest_def abind_def aread_def Let_def)
      then have "recorded env ?g1 g'" using assms(2) Inr True r
        by (auto simp: rollback_def abind_def aread_def alift_def Let_def current_root_ok [OF assms(1)] set_current_root_def
          jmember_def intro: record_recorded [OF plain] split: option.splits)
      then show ?thesis using in_states by blast
    qed
  qed
qed

section \<open>Sessions\<close>

definition session_ok :: "genesis \<Rightarrow> bool" where
  "session_ok g \<longleftrightarrow> gfs_ok g \<and> ledger_wf g"

text \<open>There is room for one more ledger file with a six-digit number.\<close>

definition room :: "genesis \<Rightarrow> bool" where
  "room g \<longleftrightarrow> length (gn_ledger g) + 1 < 10 ^ 6"

inductive genesis_step :: "genesis_env \<Rightarrow> genesis \<Rightarrow> genesis \<Rightarrow> bool" for env where
  wrote: "room g \<Longrightarrow> safe_path path = Inr rel \<Longrightarrow> write_clear g rel data \<Longrightarrow> fs_write env path data capability g = (res, g') \<Longrightarrow>
    genesis_step env g g'"
| looked: "room g \<Longrightarrow> fs_read env path capability g = (res', g') \<Longrightarrow> genesis_step env g g'"
| rolled: "room g \<Longrightarrow> rollback env selector g = (res, g') \<Longrightarrow> genesis_step env g g'"
| noted: "room g \<Longrightarrow> plain_receipt r \<Longrightarrow> record_entry env ev r g = (res, g') \<Longrightarrow> genesis_step env g g'"

lemma write_receipt_plain [simp]: "plain_receipt (write_receipt g rel data capability)"
  by (simp add: plain_receipt_def write_receipt_def)

lemma read_receipt_plain [simp]: "plain_receipt (read_receipt g rel capability)"
  by (simp add: plain_receipt_def read_receipt_def Let_def)

definition continues :: "genesis \<Rightarrow> genesis \<Rightarrow> bool" where
  "continues g g' \<longleftrightarrow> session_ok g' \<and> extends g g' \<and> (\<exists>es. entries g' = entries g @ es)"

lemma continues_trans: "continues g g' \<Longrightarrow> continues g' g'' \<Longrightarrow> continues g g''"
  unfolding continues_def by (auto intro: extends_trans)

lemma recorded_continues:
  assumes "session_ok g1" and "room g1" and "recorded env g1 g'"
  shows "continues g1 g'"
proof -
  have wf: "ledger_wf g1" and len: "length (gn_ledger g1) + 1 < 10 ^ 6" using assms(1,2) by (auto simp: session_ok_def room_def)
  note k = recorded_keeps [OF wf len assms(3)]
  show ?thesis using k(1,3) same_files_keep [OF k(2)] assms(1) by (simp add: continues_def session_ok_def)
qed

lemma moved_pointer:
  assumes "session_ok g" and "root \<in> fst ` set (gn_states g)"
  shows "continues g (g\<lparr>gn_current_root := Some root\<rparr>)" and "gfs_ok (g\<lparr>gn_current_root := Some root\<rparr>)"
proof -
  obtain files where "map_of (gn_states g) root = Some files" using assms(2) by (metis map_of_eq_None_iff not_None_eq)
  then show "gfs_ok (g\<lparr>gn_current_root := Some root\<rparr>)"
    using assms(1) by (simp add: session_ok_def gfs_ok_def files_ok_def ref_ok_def)
  moreover have "ledger_wf (g\<lparr>gn_current_root := Some root\<rparr>)" using assms(1) by (simp add: session_ok_def ledger_wf_def)
  moreover have "extends g (g\<lparr>gn_current_root := Some root\<rparr>)" by (rule extends_same) simp_all
  ultimately show "continues g (g\<lparr>gn_current_root := Some root\<rparr>)"
    by (simp add: continues_def session_ok_def entries_def)
qed

lemma written_continues:
  assumes "session_ok g" and "write_clear g rel data"
  shows "continues g (written g rel data)"
proof -
  have gfs: "gfs_ok g" using assms(1) by (simp add: session_ok_def)
  note w = written_ok [OF gfs assms(2)]
  have "ledger_wf (written g rel data)" "entries (written g rel data) = entries g"
    using assms(1) w(5) by (simp_all add: session_ok_def ledger_wf_def entries_def)
  then show ?thesis using w(1,2) by (simp add: continues_def session_ok_def)
qed

text \<open>Every step is a change of the files that leaves the ledger alone, and then at most one new entry.\<close>

lemma step_decompose:
  assumes "genesis_step env g g'" and "session_ok g"
  shows "\<exists>g1. continues g g1 \<and> gn_ledger g1 = gn_ledger g \<and> room g1 \<and> recorded env g1 g'"
  using assms
proof (induction rule: genesis_step.induct)
  case (wrote g path rel data capability res g')
  have gfs: "gfs_ok g" using wrote.prems by (simp add: session_ok_def)
  have "continues g (written g rel data)" by (rule written_continues) (fact wrote)+
  moreover have "recorded env (written g rel data) g'"
    using wrote(4) unfolding fs_write_eq [OF gfs wrote(2)] by (intro record_recorded) simp_all
  ultimately show ?case using wrote(1) written_ok(5) [OF gfs wrote(3)] by (auto simp: room_def)
next
  case (looked g path capability res' g')
  have gfs: "gfs_ok g" using looked.prems by (simp add: session_ok_def)
  have "recorded env g g'"
  proof (cases "safe_path path")
    case (Inl e)
    then show ?thesis using looked(2) by (simp add: fs_read_def) (simp add: alift_def)
  next
    case (Inr rel)
    then show ?thesis using looked(2) by (auto simp: fs_read_eq [OF gfs] intro: record_recorded [OF read_receipt_plain] split: prod.splits sum.splits)
  qed
  then show ?case using looked by (auto simp: continues_def)
next
  case (rolled g selector res g')
  have gfs: "gfs_ok g" using rolled.prems by (simp add: session_ok_def)
  obtain g1 where g1: "g1 = g \<or> (\<exists>root \<in> fst ` set (gn_states g). g1 = g\<lparr>gn_current_root := Some root\<rparr>)" "recorded env g1 g'"
    using rollback_effect [OF gfs rolled(2)] by blast
  have "continues g g1" using g1(1) moved_pointer(1) [OF rolled.prems] rolled.prems by (auto simp: continues_def)
  moreover have "gn_ledger g1 = gn_ledger g" using g1(1) by auto
  ultimately show ?case using rolled(1) g1(2) by (auto simp: room_def)
next
  case (noted g r ev res g')
  then show ?case using record_recorded by (auto simp: continues_def)
qed

lemma step_continues:
  assumes "genesis_step env g g'" and "session_ok g"
  shows "continues g g'"
proof -
  obtain g1 where "continues g g1" "room g1" "recorded env g1 g'" using step_decompose [OF assms] by blast
  then show ?thesis using recorded_continues continues_trans by (meson continues_def)
qed

text \<open>With a working key the ledger also stays verifiable.\<close>

definition keys_work :: "genesis_env \<Rightarrow> bool" where
  "keys_work env \<longleftrightarrow> ed25519_correct (ge_ed env) \<and> trusts_own (ge_ed env) (ge_private_key env) (ge_trusted_keys env)"

lemma step_verified:
  assumes "genesis_step env g g'" and "session_ok g" and "keys_work env" and "ledger_passes env g"
  shows "ledger_passes env g'"
proof -
  obtain g1 where g1: "continues g g1" "gn_ledger g1 = gn_ledger g" "room g1" "recorded env g1 g'"
    using step_decompose [OF assms(1,2)] by blast
  have "ledger_passes env g1" using assms(4) g1(2) by (simp add: ledger_passes_def entries_def)
  then show ?thesis using g1 assms(3) record_keeps_verified(2) [of g1 env]
    unfolding recorded_def keys_work_def continues_def session_ok_def room_def by blast
qed

lemma run_continues:
  assumes "(genesis_step env)\<^sup>*\<^sup>* g g'" and "session_ok g"
  shows "continues g g'"
  using assms
proof (induction rule: rtranclp_induct)
  case base
  then show ?case by (simp add: continues_def)
next
  case (step g1 g2)
  then show ?case using step_continues continues_trans by (meson continues_def)
qed

lemma run_verified:
  assumes "(genesis_step env)\<^sup>*\<^sup>* g g'" and "session_ok g" and "keys_work env" and "ledger_passes env g"
  shows "ledger_passes env g'"
  using assms(1)
proof (induction rule: rtranclp_induct)
  case (step g1 g2)
  have "session_ok g1" using run_continues [OF step(1) assms(2)] by (simp add: continues_def)
  then show ?case using step_verified [OF step(2)] step.IH assms(3) by blast
qed (fact assms)

section \<open>Rolling back to a write\<close>

definition rollback_receipt :: "genesis \<Rightarrow> json \<Rightarrow> string \<Rightarrow> jdict" where
  "rollback_receipt g source_receipt root =
    [(''format'', JStr ''BOGOS-Genesis-rollback-receipt-9.0''), (''source_receipt'', source_receipt),
     (''before_root_sha256'', JStr (manifest_root (current_files g))), (''after_root_sha256'', JStr root),
     (''rollback_verified'', JBool True), (''failures'', JList []), (''execution_status'', JStr ''completed'')]"

lemma rollback_receipt_plain [simp]: "plain_receipt (rollback_receipt g h root)"
  by (simp add: plain_receipt_def rollback_receipt_def)

lemma pointed_root:
  assumes "map_of (gn_states g) root = Some files"
  shows "current_root (g\<lparr>gn_current_root := Some root\<rparr>) = (Inr root, g\<lparr>gn_current_root := Some root\<rparr>)"
  using assms by (simp add: current_root_def current_manifest_def abind_def aread_def Let_def)

lemma rollback_eq:
  assumes "gfs_ok g" and "read_entry g selector = Inr entry" and "target_root entry = JStr root" and "root \<noteq> []"
    and "map_of (gn_states g) root = Some files" and "map_of entry ''receipt_hash'' = Some h"
  shows "rollback env selector g = record_entry env ''rollback'' (rollback_receipt g h root) (g\<lparr>gn_current_root := Some root\<rparr>)"
proof -
  have "root \<in> fst ` set (gn_states g)" using assms(5) by (metis map_of_eq_None_iff option.distinct(1))
  then show ?thesis
    by (simp add: rollback_def abind_def aread_def alift_def Let_def assms(2-4,6) current_root_ok [OF assms(1)] set_current_root_def
        jmember_def pointed_root [OF assms(5)] rollback_receipt_def status_json_def)
qed

text \<open>A numbered receipt stays readable, whatever is recorded after it.\<close>

lemma read_numbered:
  assumes "entries g = es @ [e] @ rest"
  shows "read_entry g (str_nat (length es + 1)) = Inr e"
proof -
  have "list_all is_digit (str_nat n)" for n using str_nat_digits by (auto simp: list_all_iff)
  moreover from this have "list_all is_digit_char (str_nat n)" for n by (auto simp: list_all_iff is_digit_char_def)
  ultimately show ?thesis by (simp add: read_entry_def Let_def nat_of_digits_str_nat assms nth_append)
qed

text \<open>The number 0 is an index from the end: it selects the last entry.\<close>

lemma read_zero: "entries g \<noteq> [] \<Longrightarrow> read_entry g ''0'' = Inr (last (entries g))"
  by (simp add: read_entry_def Let_def is_digit_char_def is_digit_def)

text \<open>What the receipt of a write leaves behind.\<close>

lemma write_leaves:
  assumes ok: "session_ok g0" "room g0" and w: "safe_path path = Inr rel" "write_clear g0 rel data"
    and wr: "fs_write env path data capability g0 = (Inr e, g1)"
  shows "continues g0 g1" and "entries g1 = entries g0 @ [e]" and "view g1 = (view g0)(rel \<mapsto> data)"
    and "target_root e = JStr (manifest_root (current_files g1))"
    and "\<exists>h. map_of e ''receipt_hash'' = Some h"
    and "current_files g1 = after_write g0 rel data" and "hexdigest data \<in> fst ` set (gn_objects g1)"
    and "record_entry env ''fs-write'' (write_receipt g0 rel data capability) (written g0 rel data) = (Inr e, g1)"
proof -
  have gfs: "gfs_ok g0" using ok by (simp add: session_ok_def)
  let ?w = "written g0 rel data" let ?r = "write_receipt g0 rel data capability"
  note wo = written_ok [OF gfs w(2)]
  have rec: "record_entry env ''fs-write'' ?r ?w = (Inr e, g1)" using wr by (simp add: fs_write_eq [OF gfs w(1)])
  have wc: "continues g0 ?w" using ok(1) w(2) by (rule written_continues)
  have wf: "ledger_wf ?w" "length (gn_ledger ?w) + 1 < 10 ^ 6" using wc ok(2) wo(5) by (auto simp: continues_def session_ok_def room_def)
  note app = record_appends [OF wf rec]
  have same: "same_files ?w g1" using app(4-6) by (simp add: same_files_def)
  have "continues ?w g1"
    using recorded_continues [OF _ _ record_recorded [OF write_receipt_plain rec]] wc wf(2) by (simp add: continues_def room_def)
  then show "continues g0 g1" using wc continues_trans by blast
  show "entries g1 = entries g0 @ [e]" using app(2) wo(5) by (simp add: entries_def)
  show "view g1 = (view g0)(rel \<mapsto> data)" using same_files_keep(2) [OF same] wo(3) by simp
  have "map_of e ''after_root_sha256'' = Some (JStr (manifest_root (after_write g0 rel data)))"
    using recorded_members(4) [OF rec write_receipt_plain, of "''after_root_sha256''"] by (simp add: write_receipt_def)
  moreover show "current_files g1 = after_write g0 rel data" using same_files_keep(3) [OF same] wo(4) by simp
  ultimately show "target_root e = JStr (manifest_root (current_files g1))"
    by (simp add: target_root_def jget_def py_or_def manifest_root_def)
  have "map_of (gn_objects g1) (hexdigest data) = Some data"
    using stored_content(1) [OF gfs, of data] w(2) app(4) by (auto simp: write_clear_def written_def save_manifest_def Let_def)
  then show "hexdigest data \<in> fst ` set (gn_objects g1)" by (metis map_of_eq_None_iff option.distinct(1))
  show "record_entry env ''fs-write'' ?r ?w = (Inr e, g1)" by (fact rec)
  show "\<exists>h. map_of e ''receipt_hash'' = Some h" using recorded_members(3) [OF rec write_receipt_plain] by blast
qed

text \<open>
  Rolling back to the receipt of a write, after any further session, makes the files what they were right
  after that write.
\<close>

lemma rollback_restores:
  assumes ok: "session_ok g0" "room g0" and w: "safe_path path = Inr rel" "write_clear g0 rel data"
      "fs_write env path data capability g0 = (Inr e, g1)"
    and run: "(genesis_step env)\<^sup>*\<^sup>* g1 g2" and room2: "room g2"
    and roll: "rollback env (str_nat (length (entries g1))) g2 = (res, g3)"
  shows "view g3 = view g1" and "\<And>r. res = Inr r \<Longrightarrow> jget r ''rollback_verified'' = JBool True"
proof -
  note left = write_leaves [OF ok w]
  let ?root = "manifest_root (current_files g1)"
  have ok1: "session_ok g1" using left(1) by (simp add: continues_def)
  have c2: "continues g1 g2" by (rule run_continues [OF run ok1])
  then obtain es where es: "entries g2 = entries g0 @ [e] @ es" using left(2) by (auto simp: continues_def)
  have ok2: "session_ok g2" and gfs: "gfs_ok g1" "gfs_ok g2" and ext: "extends g1 g2" using c2 ok1 by (simp_all add: continues_def session_ok_def)
  obtain files where files: "map_of (gn_states g2) ?root = Some files" "map_of files = map_of (current_files g1)"
    using gfs_current [OF gfs(1)] ext unfolding extends_def by metis
  obtain h where h: "map_of e ''receipt_hash'' = Some h" using left(5) by blast
  have nonempty: "?root \<noteq> []" by (simp add: manifest_root_def)
  let ?g = "g2\<lparr>gn_current_root := Some ?root\<rparr>"
  have "read_entry g2 (str_nat (length (entries g1))) = Inr e" using read_numbered [OF es] left(2) by simp
  then have rec: "record_entry env ''rollback'' (rollback_receipt g2 h ?root) ?g = (res, g3)"
    using roll rollback_eq [OF gfs(2) _ left(4) nonempty files(1) h] by simp
  have wf: "ledger_wf ?g" "length (gn_ledger ?g) + 1 < 10 ^ 6" using ok2 room2 by (simp_all add: session_ok_def ledger_wf_def room_def)
  have "same_files ?g g3" by (rule recorded_keeps(2) [OF wf record_recorded [OF rollback_receipt_plain rec]])
  then have "view g3 = view ?g" by (rule same_files_keep)
  also have "\<dots> = contents g2 files"
  proof -
    have "current_files ?g = files" by (simp add: current_files_def [of ?g] files(1))
    moreover have "contents ?g files = contents g2 files" by (rule HOL.ext) (simp add: contents_def split: option.split)
    ultimately show ?thesis by (simp add: view_def)
  qed
  also have "\<dots> = view g1" unfolding view_def using gfs_current [OF gfs(1)] contents_extends [OF ext _ files(2)] by metis
  finally show "view g3 = view g1" .
  show "jget r ''rollback_verified'' = JBool True" if "res = Inr r" for r
    using recorded_members(4) [OF rec [unfolded that] rollback_receipt_plain, of "''rollback_verified''"]
    by (simp add: jget_def rollback_receipt_def)
qed

end
