(* ===== verification/Store_Correct.thy ===== *)
theory Store_Correct
  imports Store Archive_Correct
begin

text \<open>
  Correctness of the package store. Verification of an installed package is exactly what it promises: the
  package and everything it depends on are sound, and no dependency leads back to its package. Bundles that
  \<open>package_directory\<close> wrote are admitted and verified, and a new package leaves the verified ones verified.
\<close>

section \<open>What verification establishes\<close>

text \<open>The files, the archive and the installed directory of one package match its receipt and its index entry.\<close>

definition package_sound :: "store_env \<Rightarrow> store \<Rightarrow> string \<Rightarrow> bool" where
  "package_sound env st p \<longleftrightarrow> (\<exists>index entry receipt signature ar installed.
     st_index st = Index index \<and> map_of index p = Some entry \<and>
     read_package_receipt env (dir_files st (ie_package_dir entry)) = Inr receipt \<and>
     verify_signature env (pr_members receipt) = Inr signature \<and> ps_failures signature = [] \<and>
     directory_hash (dir_files st (ie_package_dir entry)) = Inr (pr_bundle_sha256 receipt) \<and>
     ie_dependencies entry = pr_dependencies receipt \<and>
     archive_in (dir_files st (ie_package_dir entry)) = Inr ar \<and>
     archive_sound (se_container_schema env) (se_manifest_schema env) ar \<and>
     map_of (st_dirs st) (ie_install_dir entry) = Some installed \<and>
     tree_hash_for_directory installed = pr_archive_tree_sha256 receipt)"

text \<open>The dependencies that the receipt of an installed package names.\<close>

definition depends :: "store_env \<Rightarrow> store \<Rightarrow> string \<Rightarrow> string \<Rightarrow> bool" where
  "depends env st p q \<longleftrightarrow> (\<exists>index entry receipt. st_index st = Index index \<and> map_of index p = Some entry \<and>
     read_package_receipt env (dir_files st (ie_package_dir entry)) = Inr receipt \<and> q \<in> set (pr_dependencies receipt))"

text \<open>Verification of a package on a path of dependencies completes.\<close>

definition verifies :: "store_env \<Rightarrow> store \<Rightarrow> string set \<Rightarrow> string \<Rightarrow> bool" where
  "verifies env st seen p \<longleftrightarrow> (\<exists>r. verify_package env st seen p = Inr r \<and> receipt_status r = ''completed'')"

lemma blocked_status [simp]: "receipt_status (blocked_verify_receipt p e) = ''blocked''"
  by (simp add: blocked_verify_receipt_def)

text \<open>A blocked archive receipt names at least one failure.\<close>

lemma verify_archive_failures:
  assumes "verify_directory_archive cv mv ar = Inr a"
  shows "vr_failures a = [] \<longleftrightarrow> vr_execution_status a = ''completed''"
  using assms by (auto simp: verify_directory_archive_def Let_def split: sum.splits exn.splits prod.splits if_splits)

lemma package_failures_empty:
  "package_failures p entry receipt signature actual missing checks archive installed = [] \<longleftrightarrow>
     ps_failures signature = [] \<and> actual = pr_bundle_sha256 receipt \<and> ie_dependencies entry = pr_dependencies receipt \<and>
     missing = [] \<and> (\<forall>(d, r) \<in> set checks. receipt_status r = ''completed'') \<and>
     (vr_execution_status archive \<noteq> ''completed'' \<longrightarrow> vr_failures archive = []) \<and>
     installed = Some (pr_archive_tree_sha256 receipt)"
  unfolding package_failures_def by (auto simp: filter_empty_conv split: option.splits)

lemma map_res_pairs:
  "map_res (\<lambda>d. rbind (f d) (\<lambda>r. Inr (d, r))) xs = Inr checks \<longleftrightarrow>
     map fst checks = xs \<and> (\<forall>(d, r) \<in> set checks. f d = Inr r)"
proof -
  have "list_all2 (\<lambda>d x. rbind (f d) (\<lambda>r. Inr (d, r)) = Inr x) xs checks \<longleftrightarrow>
      map fst checks = xs \<and> (\<forall>(d, r) \<in> set checks. f d = Inr r)"
    by (induction xs arbitrary: checks) (auto simp: list_all2_Cons1 rbind_Inr_iff Cons_eq_map_conv)
  then show ?thesis by (simp add: map_res_Inr_iff)
qed

lemma check_package_Inr:
  assumes "read_package_receipt env (dir_files st (ie_package_dir entry)) = Inr receipt"
  shows "(\<exists>r. check_package env st index p entry verify = Inr r \<and> receipt_status r = ''completed'') \<longleftrightarrow>
    (\<exists>signature actual checks ar a.
       verify_signature env (pr_members receipt) = Inr signature \<and>
       directory_hash (dir_files st (ie_package_dir entry)) = Inr actual \<and>
       map fst checks = filter (\<lambda>d. d \<in> fst ` set index) (pr_dependencies receipt) \<and> (\<forall>(d, r) \<in> set checks. verify d = Inr r) \<and>
       archive_in (dir_files st (ie_package_dir entry)) = Inr ar \<and>
       verify_directory_archive (se_container_schema env) (se_manifest_schema env) ar = Inr a \<and>
       package_failures p entry receipt signature actual (filter (\<lambda>d. d \<notin> fst ` set index) (pr_dependencies receipt)) checks a
         (map_option tree_hash_for_directory (map_of (st_dirs st) (ie_install_dir entry))) = [])"
  unfolding check_package_def Let_def assms sum.case rbind_Inr_iff map_res_pairs
  by (auto split: if_splits) (intro exI conjI, assumption, assumption, rule refl, simp)

lemma check_package_completed:
  assumes "st_index st = Index index" and "map_of index p = Some entry"
  shows "(\<exists>r. check_package env st index p entry verify = Inr r \<and> receipt_status r = ''completed'') \<longleftrightarrow>
    package_sound env st p \<and>
    (\<forall>q. depends env st p q \<longrightarrow> q \<in> fst ` set index \<and> (\<exists>r. verify q = Inr r \<and> receipt_status r = ''completed''))"
  (is "?lhs \<longleftrightarrow> ?rhs")
proof (cases "read_package_receipt env (dir_files st (ie_package_dir entry))")
  case (Inl e)
  then show ?thesis using assms by (cases e) (auto simp: check_package_def package_sound_def)
next
  case (Inr receipt)
  let ?files = "dir_files st (ie_package_dir entry)" let ?deps = "pr_dependencies receipt"
  let ?present = "filter (\<lambda>d. d \<in> fst ` set index) ?deps"
  let ?cv = "se_container_schema env" let ?mv = "se_manifest_schema env"
  have deps: "depends env st p q \<longleftrightarrow> q \<in> set ?deps" for q using assms Inr by (simp add: depends_def)
  show ?thesis
  proof
    assume ?lhs
    then obtain signature checks ar a where parts: "verify_signature env (pr_members receipt) = Inr signature"
        "directory_hash ?files = Inr (pr_bundle_sha256 receipt)" "map fst checks = ?present" "\<forall>(d, r) \<in> set checks. verify d = Inr r"
        "archive_in ?files = Inr ar" "verify_directory_archive ?cv ?mv ar = Inr a"
      and ok: "ps_failures signature = []" "ie_dependencies entry = ?deps" "filter (\<lambda>d. d \<notin> fst ` set index) ?deps = []"
        "\<forall>(d, r) \<in> set checks. receipt_status r = ''completed''" "vr_execution_status a \<noteq> ''completed'' \<longrightarrow> vr_failures a = []"
        "map_option tree_hash_for_directory (map_of (st_dirs st) (ie_install_dir entry)) = Some (pr_archive_tree_sha256 receipt)"
      unfolding check_package_Inr [OF Inr] package_failures_empty by blast
    have "archive_sound ?cv ?mv ar"
      using parts(6) ok(5) verify_archive_failures [OF parts(6)] verify_completed_iff by blast
    moreover obtain installed where "map_of (st_dirs st) (ie_install_dir entry) = Some installed"
        "tree_hash_for_directory installed = pr_archive_tree_sha256 receipt" using ok(6) by auto
    ultimately have "package_sound env st p" unfolding package_sound_def using assms Inr parts(1,2,5) ok(1,2) by blast
    moreover have "q \<in> fst ` set index \<and> (\<exists>r. verify q = Inr r \<and> receipt_status r = ''completed'')" if "q \<in> set ?deps" for q
    proof -
      have q: "q \<in> fst ` set index" using ok(3) that by (auto simp: filter_empty_conv)
      then have "q \<in> set (map fst checks)" unfolding parts(3) using that by simp
      then show ?thesis using q parts(4) ok(4) by fastforce
    qed
    ultimately show ?rhs using deps by blast
  next
    assume rhs: ?rhs
    then obtain signature ar installed where
        s: "verify_signature env (pr_members receipt) = Inr signature" "ps_failures signature = []"
        "directory_hash ?files = Inr (pr_bundle_sha256 receipt)" "ie_dependencies entry = ?deps" "archive_in ?files = Inr ar"
        "archive_sound ?cv ?mv ar"
        "map_of (st_dirs st) (ie_install_dir entry) = Some installed" "tree_hash_for_directory installed = pr_archive_tree_sha256 receipt"
      using assms Inr by (auto simp: package_sound_def)
    obtain a where a: "verify_directory_archive ?cv ?mv ar = Inr a" "vr_execution_status a = ''completed''"
      using s(6) verify_completed_iff by blast
    have good: "q \<in> fst ` set index \<and> (\<exists>r. verify q = Inr r \<and> receipt_status r = ''completed'')" if "q \<in> set ?deps" for q
      using rhs deps that by blast
    then obtain res where res: "\<And>d. d \<in> set ?deps \<Longrightarrow> verify d = Inr (res d) \<and> receipt_status (res d) = ''completed''" by metis
    let ?checks = "map (\<lambda>d. (d, res d)) ?present"
    have "map fst ?checks = ?present" "\<forall>(d, r) \<in> set ?checks. verify d = Inr r" using res by (simp_all add: comp_def)
    moreover have "package_failures p entry receipt signature (pr_bundle_sha256 receipt) (filter (\<lambda>d. d \<notin> fst ` set index) ?deps) ?checks a
        (map_option tree_hash_for_directory (map_of (st_dirs st) (ie_install_dir entry))) = []"
      using s a good res by (simp add: package_failures_empty filter_empty_conv)
    ultimately show ?lhs unfolding check_package_Inr [OF Inr] using s(1,3,5) a(1) by blast
  qed
qed

text \<open>One step of verification.\<close>

lemma verifies_iff:
  "verifies env st seen p \<longleftrightarrow> p \<notin> seen \<and> package_sound env st p \<and> (\<forall>q. depends env st p q \<longrightarrow> verifies env st (insert p seen) q)"
proof (cases "st_index st")
  case (Index index)
  show ?thesis
  proof (cases "map_of index p")
    case None
    then show ?thesis using Index
      by (simp add: verifies_def verify_package.simps [of env st seen p] read_store_index_def package_sound_def)
  next
    case (Some entry)
    have step: "verify_package env st seen p = (if p \<in> seen then Inr (blocked_verify_receipt p (''dependency cycle detected: '' @ p))
        else check_package env st index p entry (verify_package env st (insert p seen)))"
      using Index Some by (simp add: verify_package.simps [of env st seen p] read_store_index_def)
    have known: "q \<in> fst ` set index" if "verifies env st (insert p seen) q" for q
    proof (rule ccontr)
      assume "q \<notin> fst ` set index"
      then have "map_of index q = None" by (simp add: map_of_eq_None_iff)
      then show False using that Index
        by (simp add: verifies_def verify_package.simps [of env st "insert p seen" q] read_store_index_def)
    qed
    show ?thesis
    proof (cases "p \<in> seen")
      case False
      have "verifies env st seen p \<longleftrightarrow> (\<exists>r. check_package env st index p entry (verify_package env st (insert p seen)) = Inr r \<and>
          receipt_status r = ''completed'')" using step False by (simp add: verifies_def)
      also have "\<dots> \<longleftrightarrow> package_sound env st p \<and> (\<forall>q. depends env st p q \<longrightarrow> verifies env st (insert p seen) q)"
        unfolding check_package_completed [OF Index Some] using known by (auto simp: verifies_def)
      finally show ?thesis using False by simp
    qed (simp add: verifies_def step)
  qed
qed (simp_all add: verifies_def verify_package.simps [of env st seen p] read_store_index_def package_sound_def)

section \<open>Verification covers every dependency\<close>

lemma verifies_along:
  assumes "(depends env st)\<^sup>*\<^sup>* p q" and "verifies env st seen p"
  shows "\<exists>seen'. seen \<subseteq> seen' \<and> verifies env st seen' q"
  using assms
proof (induction rule: rtranclp_induct)
  case (step q r)
  then obtain seen' where "seen \<subseteq> seen'" "verifies env st seen' q" by blast
  then show ?case using step.hyps(2) by (meson subset_insertI2 verifies_iff)
qed blast

lemma verifies_acyclic:
  assumes "verifies env st seen p"
  shows "\<not> (depends env st)\<^sup>+\<^sup>+ p p"
proof
  assume "(depends env st)\<^sup>+\<^sup>+ p p"
  then obtain q where q: "depends env st p q" "(depends env st)\<^sup>*\<^sup>* q p" using tranclpD by metis
  then have "verifies env st (insert p seen) q" using assms verifies_iff by blast
  then obtain seen' where "insert p seen \<subseteq> seen'" "verifies env st seen' p" using verifies_along [OF q(2)] by blast
  then show False using verifies_iff by blast
qed

lemma sound_verifies:
  assumes "\<And>q. (depends env st)\<^sup>*\<^sup>* p q \<Longrightarrow> package_sound env st q \<and> \<not> (depends env st)\<^sup>+\<^sup>+ q q \<and> q \<notin> seen"
  shows "verifies env st seen p"
  using assms
proof (induction "unseen st seen" arbitrary: p seen rule: less_induct)
  case less
  have p: "package_sound env st p" "p \<notin> seen" using less.prems by blast+
  then obtain index entry where "st_index st = Index index" "map_of index p = Some entry" by (auto simp: package_sound_def)
  then have smaller: "unseen st (insert p seen) < unseen st seen"
    using p(2) by (intro unseen_less) (simp_all add: read_store_index_def)
  have "verifies env st (insert p seen) q" if q: "depends env st p q" for q
  proof (rule less.hyps [OF smaller])
    fix r assume r: "(depends env st)\<^sup>*\<^sup>* q r"
    then have pr: "(depends env st)\<^sup>+\<^sup>+ p r" using q by (metis rtranclp_into_tranclp2)
    then have "r \<noteq> p" using less.prems [of p] by blast
    moreover have "package_sound env st r \<and> \<not> (depends env st)\<^sup>+\<^sup>+ r r \<and> r \<notin> seen"
      using less.prems [of r] pr by (metis tranclp_into_rtranclp)
    ultimately show "package_sound env st r \<and> \<not> (depends env st)\<^sup>+\<^sup>+ r r \<and> r \<notin> insert p seen" by simp
  qed
  then show ?case using p verifies_iff by blast
qed

lemma verifies_closure:
  "verifies env st {} p \<longleftrightarrow>
     (\<forall>q. (depends env st)\<^sup>*\<^sup>* p q \<longrightarrow> package_sound env st q \<and> \<not> (depends env st)\<^sup>+\<^sup>+ q q)"
proof
  assume v: "verifies env st {} p"
  show "\<forall>q. (depends env st)\<^sup>*\<^sup>* p q \<longrightarrow> package_sound env st q \<and> \<not> (depends env st)\<^sup>+\<^sup>+ q q"
  proof (intro allI impI)
    fix q assume "(depends env st)\<^sup>*\<^sup>* p q"
    then obtain seen' where "verifies env st seen' q" using verifies_along [OF _ v] by blast
    then show "package_sound env st q \<and> \<not> (depends env st)\<^sup>+\<^sup>+ q q" using verifies_acyclic verifies_iff by blast
  qed
qed (rule sound_verifies, simp)

lemma verify_status_iff:
  "(\<exists>r. verify_installed_package env st p = Inr r \<and> receipt_status r = ''completed'') \<longleftrightarrow> verifies env st {} p"
  by (simp add: verify_installed_package_def verifies_def)

lemma verify_dependencies_ok: "verify_dependencies env st ds = Inr () \<longleftrightarrow> (\<forall>d \<in> set ds. verifies env st {} d)"
  by (induction ds) (auto simp: verifies_def verify_installed_package_def rbind_Inr_iff)

section \<open>The layout of a store\<close>

text \<open>Every entry of the index points into the store, at the directories named after its key.\<close>

definition package_path :: "store \<Rightarrow> string \<Rightarrow> string" where
  "package_path st key = st_path st @ ''/packages/'' @ key"

definition install_path :: "store \<Rightarrow> string \<Rightarrow> string" where
  "install_path st key = st_path st @ ''/installed/'' @ key"

definition store_ok :: "store \<Rightarrow> bool" where
  "store_ok st \<longleftrightarrow> (\<forall>index. st_index st = Index index \<longrightarrow> distinct (map fst index) \<and>
     (\<forall>(key, entry) \<in> set index. ie_package_dir entry = package_path st key \<and> ie_install_dir entry = install_path st key))"

lemma paths_apart [simp]:
  "package_path st k = package_path st k' \<longleftrightarrow> k = k'" "install_path st k = install_path st k' \<longleftrightarrow> k = k'"
  "package_path st k \<noteq> install_path st k'" "install_path st k \<noteq> package_path st k'"
  by (simp_all add: package_path_def install_path_def)

text \<open>The key of a package contains a hyphen, so that the guard against a blank key never fires.\<close>

lemma strip_hyphen:
  assumes "CHR ''-'' \<in> set s"
  shows "strip s \<noteq> []"
proof -
  have h: "\<not> is_space (CHR ''-'')" by (simp add: is_space_def)
  have keep: "CHR ''-'' \<in> set t \<Longrightarrow> CHR ''-'' \<in> set (dropWhile is_space t)" for t
    using h by (induction t) auto
  have "CHR ''-'' \<in> set (strip s)" using keep [OF assms] keep [of "rev (dropWhile is_space s)"] by (simp add: strip_def)
  then show ?thesis by force
qed

lemma package_key_total:
  obtains key where "package_key name version = Inr key"
proof -
  have "CHR ''-'' \<in> set (map (\<lambda>c. if c = CHR ''/'' \<or> c = backslash then CHR ''_'' else c) (name @ ''-'' @ version))"
    by (simp add: backslash_def)
  then show thesis using that by (simp only: package_key_def Let_def strip_hyphen if_False)
qed

section \<open>What installing does\<close>

definition opened :: "store \<Rightarrow> store" where
  "opened st = (case st_index st of No_Index \<Rightarrow> st\<lparr>st_index := Index []\<rparr> | _ \<Rightarrow> st)"

lemma opened_fields [simp]: "st_dirs (opened st) = st_dirs st" "st_path (opened st) = st_path st"
  by (simp_all add: opened_def split: index_file.splits)

lemma opened_ok: "store_ok st \<Longrightarrow> store_ok (opened st)"
  by (auto simp: opened_def store_ok_def package_path_def install_path_def split: index_file.splits)

definition placed_entry :: "store \<Rightarrow> string \<Rightarrow> package_receipt \<Rightarrow> package_signature \<Rightarrow> index_entry" where
  "placed_entry st key receipt signature =
     \<lparr>ie_name = pr_name receipt, ie_version = pr_version receipt, ie_package_dir = package_path st key,
      ie_install_dir = install_path st key, ie_archive_tree_sha256 = pr_archive_tree_sha256 receipt,
      ie_bundle_sha256 = pr_bundle_sha256 receipt, ie_dependencies = pr_dependencies receipt,
      ie_signature = jget (pr_members receipt) ''signature'', ie_signature_verification = signature\<rparr>"

text \<open>The store after placing a bundle, and a bundle that is admitted.\<close>

definition placed ::
  "store \<Rightarrow> string \<Rightarrow> directory \<Rightarrow> package_receipt \<Rightarrow> package_signature \<Rightarrow> directory \<Rightarrow> store_index \<Rightarrow> store" where
  "placed st key bundle receipt signature out index =
     st\<lparr>st_dirs := AList.update (install_path st key) out (AList.update (package_path st key) bundle (st_dirs st)),
        st_index := Index (AList.update key (placed_entry st key receipt signature) index)\<rparr>"

definition admitted ::
  "store_env \<Rightarrow> store \<Rightarrow> directory \<Rightarrow> package_receipt \<Rightarrow> archive \<Rightarrow> archive_manifest \<Rightarrow> package_signature \<Rightarrow> store_index \<Rightarrow> bool" where
  "admitted env st bundle receipt ar manifest signature index \<longleftrightarrow>
     read_package_receipt env bundle = Inr receipt \<and> archive_in bundle = Inr ar \<and>
     read_archive_manifest (se_manifest_schema env) ar = Inr manifest \<and>
     am_tree_sha256 manifest = pr_archive_tree_sha256 receipt \<and> directory_hash bundle = Inr (pr_bundle_sha256 receipt) \<and>
     verify_signature env (pr_members receipt) = Inr signature \<and> ps_failures signature = [] \<and>
     st_index st = Index index \<and> (\<forall>d \<in> set (pr_dependencies receipt). verifies env st {} d)"

lemma verifies_installed:
  assumes "verifies env st seen p" and "st_index st = Index index"
  shows "p \<in> fst ` set index"
  using assms verifies_iff [of env st seen p] map_of_SomeD [of index p] by (force simp: package_sound_def)

lemma guard_Inr_iff: "(if P then Inl e else m) = Inr x \<longleftrightarrow> \<not> P \<and> m = Inr x"
  by simp

lemma admit_bundle_iff:
  "admit_bundle env st bundle = Inr (receipt, ar, signature, index) \<longleftrightarrow>
     (\<exists>manifest. admitted env st bundle receipt ar manifest signature index)"
proof -
  have "filter (\<lambda>d. d \<notin> fst ` set index) ds = [] \<and> verify_dependencies env st ds = Inr () \<longleftrightarrow> (\<forall>d \<in> set ds. verifies env st {} d)"
    if "st_index st = Index index" for ds
    using that verifies_installed by (auto simp: filter_empty_conv verify_dependencies_ok)
  moreover have "read_store_index st = Inr index \<longleftrightarrow> st_index st = Index index"
    by (auto simp: read_store_index_def split: index_file.splits)
  ultimately show ?thesis
    unfolding admit_bundle_def admitted_def Let_def rbind_Inr_iff guard_Inr_iff not_not by auto
qed

lemma install_bundle_Inr:
  "install_bundle env bundle st = (Inr ir, st') \<longleftrightarrow>
    (\<exists>receipt ar manifest signature index key restored.
       admitted env (opened st) bundle receipt ar manifest signature index \<and>
       package_key (pr_name receipt) (pr_version receipt) = Inr key \<and>
       snd (restore_directory_archive (se_container_schema env) (se_manifest_schema env) ar) = Inr restored \<and>
       st' = placed (opened st) key bundle receipt signature
         (out_files (fst (restore_directory_archive (se_container_schema env) (se_manifest_schema env) ar))) index \<and>
       ir = \<lparr>ir_package = key, ir_package_dir = package_path st key, ir_install_dir = install_path st key,
         ir_archive_tree_sha256 = pr_archive_tree_sha256 receipt, ir_bundle_sha256 = pr_bundle_sha256 receipt,
         ir_restore_tree_sha256 = rr_tree_sha256 restored, ir_dependencies = pr_dependencies receipt, ir_signature = signature\<rparr>)"
proof -
  let ?r = "\<lambda>ar. restore_directory_archive (se_container_schema env) (se_manifest_schema env) ar"
  have place: "place_bundle env bundle (receipt, ar, signature, index) st0 = (Inr ir, st') \<longleftrightarrow>
      (\<exists>key restored. package_key (pr_name receipt) (pr_version receipt) = Inr key \<and> snd (?r ar) = Inr restored \<and>
        st' = placed st0 key bundle receipt signature (out_files (fst (?r ar))) index \<and>
        ir = \<lparr>ir_package = key, ir_package_dir = package_path st0 key, ir_install_dir = install_path st0 key,
          ir_archive_tree_sha256 = pr_archive_tree_sha256 receipt, ir_bundle_sha256 = pr_bundle_sha256 receipt,
          ir_restore_tree_sha256 = rr_tree_sha256 restored, ir_dependencies = pr_dependencies receipt, ir_signature = signature\<rparr>)"
    for receipt ar signature index st0
    by (cases "package_key (pr_name receipt) (pr_version receipt)"; cases "?r ar"; cases "snd (?r ar)")
      (auto simp: place_bundle_def Let_def placed_def placed_entry_def package_path_def install_path_def)
  have paths: "package_path (opened st) = package_path st" "install_path (opened st) = install_path st"
    by (simp_all add: fun_eq_iff package_path_def install_path_def)
  have parts: "install_bundle env bundle st = (Inr ir, st') \<longleftrightarrow>
      (\<exists>a. admit_bundle env (opened st) bundle = Inr a \<and> place_bundle env bundle a (opened st) = (Inr ir, st'))"
  proof (cases "st_index st")
    case (Bad_Index e)
    have "\<not> admitted env (opened st) bundle r ar m sg i" for r ar m sg i
      using Bad_Index by (simp add: admitted_def opened_def)
    then have "admit_bundle env (opened st) bundle \<noteq> Inr a" for a using admit_bundle_iff by (cases a) blast
    then show ?thesis using Bad_Index by (simp add: install_bundle_def init_store_def abind_def read_store_index_def)
  qed (auto simp: install_bundle_def init_store_def abind_def aread_def read_store_index_def opened_def split: sum.splits)
  show ?thesis unfolding parts split_paired_Ex admit_bundle_iff place paths by blast
qed

lemma install_bundleI:
  assumes "admitted env (opened st) bd receipt ar manifest signature index"
    and "package_key (pr_name receipt) (pr_version receipt) = Inr key"
    and "snd (restore_directory_archive (se_container_schema env) (se_manifest_schema env) ar) = Inr restored"
  shows "install_bundle env bd st =
    (Inr \<lparr>ir_package = key, ir_package_dir = package_path st key, ir_install_dir = install_path st key,
       ir_archive_tree_sha256 = pr_archive_tree_sha256 receipt, ir_bundle_sha256 = pr_bundle_sha256 receipt,
       ir_restore_tree_sha256 = rr_tree_sha256 restored, ir_dependencies = pr_dependencies receipt, ir_signature = signature\<rparr>,
     placed (opened st) key bd receipt signature
       (out_files (fst (restore_directory_archive (se_container_schema env) (se_manifest_schema env) ar))) index)"
  unfolding install_bundle_Inr using assms by blast

section \<open>A new package leaves the others verified\<close>

lemma placed_lookup:
  assumes "store_ok st" and "st_index st = Index index"
    and "map_of index q = Some entry" and "q \<noteq> key"
  shows "map_of (AList.update key e index) q = Some entry"
    and "dir_files (placed st key bundle receipt signature out index) (ie_package_dir entry) = dir_files st (ie_package_dir entry)"
    and "map_of (st_dirs (placed st key bundle receipt signature out index)) (ie_install_dir entry) = map_of (st_dirs st) (ie_install_dir entry)"
proof -
  have "ie_package_dir entry = package_path st q \<and> ie_install_dir entry = install_path st q"
    using assms(1,2) map_of_SomeD [OF assms(3)] by (auto simp: store_ok_def)
  then show "map_of (AList.update key e index) q = Some entry"
    "dir_files (placed st key bundle receipt signature out index) (ie_package_dir entry) = dir_files st (ie_package_dir entry)"
    "map_of (st_dirs (placed st key bundle receipt signature out index)) (ie_install_dir entry) = map_of (st_dirs st) (ie_install_dir entry)"
    using assms(3,4) by (simp_all add: placed_def dir_files_def)
qed

lemma placed_others:
  assumes "store_ok st" and "st_index st = Index index" and "q \<noteq> key"
  shows "depends env (placed st key bundle receipt signature out index) q = depends env st q"
    and "package_sound env (placed st key bundle receipt signature out index) q = package_sound env st q"
proof -
  let ?st = "placed st key bundle receipt signature out index"
  have index': "st_index ?st = Index (AList.update key (placed_entry st key receipt signature) index)" by (simp add: placed_def)
  have "depends env ?st q = depends env st q \<and> package_sound env ?st q = package_sound env st q"
  proof (cases "map_of index q")
    case None
    then show ?thesis using assms(2,3) index' by (simp add: fun_eq_iff depends_def package_sound_def)
  next
    case (Some entry)
    show ?thesis
      using assms(2) Some index' placed_lookup [OF assms(1,2) Some assms(3)]
      by (simp add: fun_eq_iff depends_def package_sound_def)
  qed
  then show "depends env ?st q = depends env st q" "package_sound env ?st q = package_sound env st q" by blast+
qed

text \<open>Packages that do not reach the placed key are as verified as before.\<close>

lemma placed_reach:
  assumes "store_ok st" and "st_index st = Index index" and "verifies env st {} p" and "key \<notin> fst ` set index"
    and "(depends env (placed st key bundle receipt signature out index))\<^sup>*\<^sup>* p q"
  shows "(depends env st)\<^sup>*\<^sup>* p q \<and> q \<noteq> key"
  using assms(5)
proof (induction rule: rtranclp_induct)
  case base
  then show ?case using verifies_installed [OF assms(3,2)] assms(4) by blast
next
  case (step q r)
  then have r: "(depends env st)\<^sup>*\<^sup>* p r" using placed_others(1) [OF assms(1,2)] by (metis rtranclp.rtrancl_into_rtrancl)
  then have "package_sound env st r" using assms(3) verifies_closure by blast
  then have "r \<in> fst ` set index" using assms(2) map_of_SomeD by (force simp: package_sound_def)
  then show ?case using r assms(4) by blast
qed

lemma placed_keeps_verified:
  assumes "store_ok st" and "st_index st = Index index" and "verifies env st {} p" and "key \<notin> fst ` set index"
  shows "verifies env (placed st key bundle receipt signature out index) {} p"
proof -
  let ?st = "placed st key bundle receipt signature out index"
  have "package_sound env ?st q \<and> \<not> (depends env ?st)\<^sup>+\<^sup>+ q q" if q: "(depends env ?st)\<^sup>*\<^sup>* p q" for q
  proof -
    note old = placed_reach [OF assms q]
    have sound: "package_sound env st q" "\<not> (depends env st)\<^sup>+\<^sup>+ q q" using old assms(3) verifies_closure by blast+
    have "(depends env st)\<^sup>+\<^sup>+ q r" if "(depends env ?st)\<^sup>+\<^sup>+ q r" for r
      using that
    proof (induction rule: tranclp_induct)
      case (base r)
      then show ?case using placed_others(1) [OF assms(1,2)] old by (metis tranclp.r_into_trancl)
    next
      case (step r t)
      have "(depends env ?st)\<^sup>*\<^sup>* p r" using q step.hyps(1) by (meson rtranclp_trans tranclp_into_rtranclp)
      then have "r \<noteq> key" using placed_reach [OF assms] by blast
      then show ?case using placed_others(1) [OF assms(1,2)] step by (metis tranclp.trancl_into_trancl)
    qed
    then show ?thesis using sound placed_others(2) [OF assms(1,2)] old by blast
  qed
  then show ?thesis unfolding verifies_closure by blast
qed

section \<open>The installed package itself\<close>

lemma placed_new:
  assumes "store_ok st" and "admitted env st bundle receipt ar manifest signature index"
    and "snd (restore_directory_archive (se_container_schema env) (se_manifest_schema env) ar) = Inr restored"
  shows "depends env (placed st key bundle receipt signature out index) key q \<longleftrightarrow> q \<in> set (pr_dependencies receipt)"
    and "tree_hash_for_directory out = pr_archive_tree_sha256 receipt \<Longrightarrow>
      package_sound env (placed st key bundle receipt signature out index) key"
    and "store_ok (placed st key bundle receipt signature out index)"
proof -
  let ?st = "placed st key bundle receipt signature out index" let ?e = "placed_entry st key receipt signature"
  have index: "st_index st = Index index" using assms(2) by (simp add: admitted_def)
  have index': "st_index ?st = Index (AList.update key ?e index)" by (simp add: placed_def)
  have at: "map_of (AList.update key ?e index) key = Some ?e" by simp
  have files: "dir_files ?st (ie_package_dir ?e) = bundle" "map_of (st_dirs ?st) (ie_install_dir ?e) = Some out"
    by (simp_all add: placed_def placed_entry_def dir_files_def)
  have deps: "ie_dependencies ?e = pr_dependencies receipt" by (simp add: placed_entry_def)
  have sound: "archive_sound (se_container_schema env) (se_manifest_schema env) ar"
    using assms(3) by (auto simp: restore_Inr_iff archive_sound_def)
  show "depends env ?st key q \<longleftrightarrow> q \<in> set (pr_dependencies receipt)"
    using assms(2) index' files(1) by (simp add: depends_def admitted_def)
  show "package_sound env ?st key" if "tree_hash_for_directory out = pr_archive_tree_sha256 receipt"
    unfolding package_sound_def
    by (rule exI [of _ "AList.update key ?e index"], rule exI [of _ ?e], rule exI [of _ receipt], rule exI [of _ signature],
        rule exI [of _ ar], rule exI [of _ out])
      (use assms(2) index' files deps that sound in \<open>simp add: admitted_def\<close>)
  have paths: "package_path ?st = package_path st" "install_path ?st = install_path st"
    by (simp_all add: fun_eq_iff package_path_def install_path_def placed_def)
  have upd: "set (AList.update key ?e index) \<subseteq> insert (key, ?e) (set index)" for index :: store_index
    by (induction index) auto
  have "distinct (map fst (AList.update key ?e index))" using assms(1) index by (simp add: store_ok_def distinct_update)
  then show "store_ok ?st"
    using assms(1) index index' upd [of index] unfolding store_ok_def paths by (fastforce simp: placed_entry_def)
qed

lemma placed_verified:
  assumes "store_ok st" and adm: "admitted env st bundle receipt ar manifest signature index"
    and "snd (restore_directory_archive (se_container_schema env) (se_manifest_schema env) ar) = Inr restored"
    and "tree_hash_for_directory out = pr_archive_tree_sha256 receipt" and "key \<notin> fst ` set index"
  shows "verifies env (placed st key bundle receipt signature out index) {} key"
proof -
  let ?st = "placed st key bundle receipt signature out index"
  have index: "st_index st = Index index" using adm by (simp add: admitted_def)
  have "verifies env ?st {key} d" if "d \<in> set (pr_dependencies receipt)" for d
  proof -
    have d: "verifies env st {} d" using adm that by (simp add: admitted_def)
    have "verifies env ?st {} d" by (rule placed_keeps_verified [OF assms(1) index d assms(5)])
    then show ?thesis
      using placed_reach [OF assms(1) index d assms(5)] unfolding verifies_closure by (intro sound_verifies) blast
  qed
  then show ?thesis
    using placed_new(1,2) [OF assms(1-3)] assms(4) verifies_iff [of env ?st "{}" key] by blast
qed

lemma verifies_opened: "verifies env st seen p \<Longrightarrow> opened st = st"
  using verifies_iff [of env st seen p] by (auto simp: package_sound_def opened_def)

lemma install_verified:
  assumes "store_ok st" and install: "install_bundle env bundle st = (Inr ir, st')"
    and fresh: "\<And>index. st_index st = Index index \<Longrightarrow> ir_package ir \<notin> fst ` set index"
    and paths: "\<And>ar manifest. archive_in bundle = Inr ar \<Longrightarrow> read_archive_manifest (se_manifest_schema env) ar = Inr manifest \<Longrightarrow>
      lists_plainly manifest"
  shows "verifies env st' {} (ir_package ir)" and "verifies env st {} p \<Longrightarrow> verifies env st' {} p" and "store_ok st'"
proof -
  let ?r = "\<lambda>ar. restore_directory_archive (se_container_schema env) (se_manifest_schema env) ar"
  obtain receipt ar manifest signature index key restored where
      adm: "admitted env (opened st) bundle receipt ar manifest signature index" and r: "snd (?r ar) = Inr restored"
      and st': "st' = placed (opened st) key bundle receipt signature (out_files (fst (?r ar))) index" and key: "ir_package ir = key"
    using install unfolding install_bundle_Inr by auto
  have index: "st_index (opened st) = Index index" using adm by (simp add: admitted_def)
  have new: "key \<notin> fst ` set index"
    using fresh index key by (cases "st_index st") (auto simp: opened_def)
  have man: "read_archive_manifest (se_manifest_schema env) ar = Inr manifest" "archive_in bundle = Inr ar"
      "am_tree_sha256 manifest = pr_archive_tree_sha256 receipt"
    using adm by (simp_all add: admitted_def)
  have tree: "tree_hash_for_directory (out_files (fst (?r ar))) = pr_archive_tree_sha256 receipt"
    using restore_sound [OF r] man paths [OF man(2,1)] by (metis sum.inject(2))
  show "verifies env st' {} (ir_package ir)"
    unfolding st' key by (rule placed_verified [OF opened_ok [OF assms(1)] adm r tree new])
  show "verifies env st' {} p" if "verifies env st {} p"
    unfolding st' using placed_keeps_verified [OF opened_ok [OF assms(1)] index _ new] that verifies_opened [OF that] by simp
  show "store_ok st'" unfolding st' by (rule placed_new(3) [OF opened_ok [OF assms(1)] adm r])
qed

lemma placed_tree:
  assumes "verifies env (placed st key bundle receipt signature out index) seen key"
    and "read_package_receipt env bundle = Inr receipt"
  shows "tree_hash_for_directory out = pr_archive_tree_sha256 receipt"
proof -
  have "package_sound env (placed st key bundle receipt signature out index) key"
    using assms(1) verifies_iff by metis
  then show ?thesis
    using assms(2) by (auto simp: package_sound_def placed_def placed_entry_def dir_files_def)
qed

text \<open>Such a bundle installs, and then fails its own verification.\<close>

lemma install_respelt:
  assumes "install_bundle env bundle st = (Inr ir, st')" and "archive_in bundle = Inr ar"
    and "read_archive_manifest (se_manifest_schema env) ar = Inr manifest" and "am_files manifest = [entry]"
    and "f_path entry = ''./x''" and "\<not> collision (tree_row entry) (tree_row (entry\<lparr>f_path := ''x''\<rparr>))"
  shows "\<not> verifies env st' seen (ir_package ir)"
proof
  assume v: "verifies env st' seen (ir_package ir)"
  let ?r = "\<lambda>ar. restore_directory_archive (se_container_schema env) (se_manifest_schema env) ar"
  obtain receipt ar' manifest' signature index key restored where
      adm: "admitted env (opened st) bundle receipt ar' manifest' signature index" and r: "snd (?r ar') = Inr restored"
      and st': "st' = placed (opened st) key bundle receipt signature (out_files (fst (?r ar'))) index" and key: "ir_package ir = key"
    using assms(1) unfolding install_bundle_Inr by auto
  have same: "ar' = ar" "manifest' = manifest" using adm assms(2,3) by (auto simp: admitted_def)
  have "tree_hash_for_directory (out_files (fst (?r ar))) = am_tree_sha256 manifest"
    using placed_tree [OF v [unfolded st' key]] adm same by (simp add: admitted_def)
  then show False using restore_respells(2) [OF r [unfolded same] assms(3-6)] by simp
qed
text \<open>Installing a new version of a package that its dependencies reach closes a cycle.\<close>

lemma install_cycle:
  assumes "store_ok st" and "st_index st = Index index" and install: "install_bundle env bundle st = (Inr ir, st')"
    and d: "d \<in> set (ir_dependencies ir)" and cycle: "(depends env st)\<^sup>*\<^sup>* d (ir_package ir)"
  shows "\<not> verifies env st' seen (ir_package ir)"
proof -
  let ?r = "\<lambda>ar. restore_directory_archive (se_container_schema env) (se_manifest_schema env) ar"
  have opened: "opened st = st" using assms(2) by (simp add: opened_def)
  obtain receipt ar manifest signature index' key restored where
      adm: "admitted env st bundle receipt ar manifest signature index'" and r: "snd (?r ar) = Inr restored"
      and st': "st' = placed st key bundle receipt signature (out_files (fst (?r ar))) index'"
      and key: "ir_package ir = key" "ir_dependencies ir = pr_dependencies receipt"
    using install unfolding install_bundle_Inr opened by auto
  have index: "st_index st = Index index'" using adm by (simp add: admitted_def)
  have "(depends env st')\<^sup>*\<^sup>* d key"
    using cycle unfolding key
  proof (induction rule: converse_rtranclp_induct)
    case (step x y)
    show ?case
    proof (cases "x = key")
      case False
      then have "depends env st' x y" using step.hyps(1) placed_others(1) [OF assms(1) index False] by (simp add: st')
      then show ?thesis using step.IH by (rule converse_rtranclp_into_rtranclp)
    qed simp
  qed simp
  moreover have "depends env st' key d" using placed_new(1) [OF assms(1) adm r] d key(2) by (simp add: st')
  ultimately have "(depends env st')\<^sup>+\<^sup>+ key key" by (rule rtranclp_into_tranclp2 [rotated])
  then show ?thesis using verifies_acyclic key(1) by blast
qed

text \<open>The index and the dependencies after an installation.\<close>

lemma install_index:
  assumes "store_ok st" and install: "install_bundle env bd st = (Inr ir, st')"
  shows "depends env st' (ir_package ir) q \<longleftrightarrow> q \<in> set (ir_dependencies ir)"
    and "\<exists>index index'. st_index (opened st) = Index index \<and> st_index st' = Index index' \<and>
      fst ` set index' = insert (ir_package ir) (fst ` set index)"
    and "store_ok st'"
proof -
  let ?r = "\<lambda>ar. restore_directory_archive (se_container_schema env) (se_manifest_schema env) ar"
  obtain receipt ar manifest signature index key restored where
      adm: "admitted env (opened st) bd receipt ar manifest signature index" and r: "snd (?r ar) = Inr restored"
      and st': "st' = placed (opened st) key bd receipt signature (out_files (fst (?r ar))) index"
      and ir: "ir_package ir = key" "ir_dependencies ir = pr_dependencies receipt"
    using install unfolding install_bundle_Inr by auto
  show "depends env st' (ir_package ir) q \<longleftrightarrow> q \<in> set (ir_dependencies ir)"
    unfolding st' ir by (rule placed_new(1) [OF opened_ok [OF assms(1)] adm r])
  have "st_index (opened st) = Index index" using adm by (simp add: admitted_def)
  then show "\<exists>index index'. st_index (opened st) = Index index \<and> st_index st' = Index index' \<and>
      fst ` set index' = insert (ir_package ir) (fst ` set index)"
    unfolding st' ir by (simp add: placed_def update_keys)
  show "store_ok st'" unfolding st' by (rule placed_new(3) [OF opened_ok [OF assms(1)] adm r])
qed

section \<open>What the digests and keys do not tell apart\<close>

text \<open>
  The rows of a directory digest have no lengths, so that a file can hold the row of another one; and two
  packages can have one key.
\<close>

lemma directory_hash_ambiguous:
  "directory_hash [(''a'', [120, 10, 98, 0, 121])] = directory_hash [(''a'', [120]), (''b'', [121])]"
proof -
  have parts: "path_parts ''a'' = [''a'']" "path_parts ''b'' = [''b'']" by (simp_all add: path_parts_def)
  have plain: "hashed_content ''a'' data = Inr data" "hashed_content ''b'' data = Inr data" for data
    by (simp_all add: hashed_content_def parts)
  have "sorted_files [(''a'', [120]), (''b'', [121])] = [(''a'', [120]), (''b'', [121])]"
    by (simp add: sorted_files_def parts sort_key_def insort_key.simps)
  moreover have "sorted_files [(''a'', [120, 10, 98, 0, 121])] = [(''a'', [120, 10, 98, 0, 121])]"
    by (simp add: sorted_files_def)
  moreover have "utf8 ''b'' = [98]" by (simp add: utf8_def utf8_char_def)
  ultimately show ?thesis by (simp add: directory_hash_def directory_row_def plain)
qed

lemma packages_share_key: "package_key ''a-b'' ''c'' = package_key ''a'' ''b-c''"
  by (simp add: package_key_def)

end
