(* ===== verification/Store_Bundle.thy ===== *)
theory Store_Bundle
  imports Store_Correct
begin

text \<open>
  What \<open>package_directory\<close> writes is what the readers of \<^verbatim>\<open>src/bogvm/store.py\<close> accept: the JSON files of a bundle
  are read back, the digest of the bundle does not depend on the receipt's signature and own digest, and the
  bundle of a directory is admitted and installs that directory.
\<close>

section \<open>JSON files are read back\<close>

lemma json_file_reads:
  assumes "json_ok j"
  shows "rbind (utf8_decode (json_file j)) loads = Inr (canon j)"
  using loads_dumps_indent [OF assms] by (simp add: json_file_def)

lemma json_file_text:
  assumes "json_ok j"
  obtains s where "utf8_decode (json_file j) = Inr s" and "loads s = Inr (canon j)"
  using loads_dumps_indent [OF assms] that by (simp add: json_file_def)

lemma canon_object:
  assumes "distinct (map fst kvs)"
  obtains kvs' where "canon (JObj kvs) = JObj kvs'" and "distinct (map fst kvs')" and "fst ` set kvs' = fst ` set kvs"
    and "\<And>k. map_of kvs' k = map_option canon (map_of kvs k)"
proof -
  let ?kvs' = "map (\<lambda>(k, v). (k, canon v)) (sort_key fst kvs)"
  have keys: "map fst ?kvs' = map fst (sort_key fst kvs)" by (simp add: comp_def case_prod_unfold)
  have "distinct (map fst ?kvs')" unfolding keys using assms by (simp only: distinct_map_sort_key)
  moreover have "fst ` set ?kvs' = fst ` set kvs" by (simp add: image_image case_prod_unfold)
  moreover have "map_of ?kvs' k = map_option canon (map_of kvs k)" for k
    using assms by (simp add: map_of_map map_of_sort_key)
  ultimately show thesis using that canon_JObj by blast
qed

lemma jget_canon:
  assumes "\<And>k. map_of kvs' k = map_option canon (map_of kvs k)"
  shows "jget kvs' k = canon (jget kvs k)"
  using assms by (simp add: jget_def split: option.split)

lemma file_entry_canon: "file_entry_of (canon (file_entry_json e)) = Some e"
proof -
  let ?kvs = "[(''path'', JStr (f_path e)), (''size'', JInt (f_size e)), (''sha256'', JStr (f_sha256 e)), (''object'', JStr (f_object e))]"
  obtain kvs' where c: "canon (JObj ?kvs) = JObj kvs'" "\<And>k. map_of kvs' k = map_option canon (map_of ?kvs k)"
    using canon_object [of ?kvs] by auto
  have "file_entry_of (JObj kvs') = Some e" by (simp add: jget_canon [OF c(2)]) (simp add: jget_def)
  then show ?thesis unfolding file_entry_json_def c(1) .
qed

lemma archive_manifest_canon: "archive_manifest_of (canon (archive_manifest_json m)) = Some m"
proof -
  let ?kvs = "[(''format'', JStr (am_format m)), (''container_format'', JStr (am_container_format m)),
     (''bogpk_version'', JInt (am_bogpk_version m)), (''source'', JStr (am_source m)),
     (''file_count'', JInt (am_file_count m)), (''files'', JList (map file_entry_json (am_files m))),
     (''tree_sha256'', JStr (am_tree_sha256 m))]"
  obtain kvs' where c: "canon (JObj ?kvs) = JObj kvs'" "\<And>k. map_of kvs' k = map_option canon (map_of ?kvs k)"
    using canon_object [of ?kvs] by auto
  have "those (map file_entry_of (map canon (map file_entry_json es))) = Some es" for es
    by (induction es) (simp_all add: file_entry_canon)
  then have "archive_manifest_of (JObj kvs') = Some m" by (simp add: jget_canon [OF c(2)]) (simp add: jget_def)
  then show ?thesis unfolding archive_manifest_json_def c(1) .
qed

lemma archive_manifest_json_ok: "json_ok (archive_manifest_json m)"
  by (auto simp: archive_manifest_json_def file_entry_json_def)

section \<open>The digest of a bundle\<close>

text \<open>The last part of a path ends with the last character of the path.\<close>

lemma split_slash_ne [simp]: "split_slash acc s \<noteq> []"
  by (induction s arbitrary: acc) auto

lemma split_slash_last:
  assumes "c \<noteq> CHR ''/''"
  shows "\<exists>t. last (split_slash acc (s @ [c])) = t @ [c]"
proof (induction s arbitrary: acc)
  case (Cons d s)
  then show ?case by simp
qed (use assms in simp)

lemma last_part:
  assumes "c \<noteq> CHR ''/''" and "c \<noteq> CHR ''.''"
  obtains t where "path_parts (s @ [c]) \<noteq> []" and "last (path_parts (s @ [c])) = t @ [c]"
proof -
  obtain t where t: "last (split_slash [] (s @ [c])) = t @ [c]" using split_slash_last [OF assms(1)] by blast
  have keep: "filter P xs \<noteq> [] \<and> last (filter P xs) = last xs" if "xs \<noteq> []" "P (last xs)" for P :: "string \<Rightarrow> bool" and xs
    using that by (cases xs rule: rev_cases) auto
  have "t @ [c] \<noteq> ''.''" using assms(2) by (cases t) auto
  then have "path_parts (s @ [c]) \<noteq> [] \<and> last (path_parts (s @ [c])) = t @ [c]"
    unfolding path_parts_def using keep [OF split_slash_ne, of "\<lambda>s. s \<noteq> [] \<and> s \<noteq> ''.''"] t by simp
  then show thesis using that by blast
qed

lemma hashed_plain:
  assumes "c \<noteq> CHR ''/''" and "c \<noteq> CHR ''.''" and "c \<noteq> CHR ''n''"
  shows "hashed_content (s @ [c]) data = Inr data"
proof -
  obtain t where "last (path_parts (s @ [c])) = t @ [c]" by (rule last_part [OF assms(1,2)])
  moreover have "last (t @ [c]) \<noteq> last ''receipt.json''" using assms(3) by simp
  ultimately have "last (path_parts (s @ [c])) \<noteq> ''receipt.json''" by metis
  then show ?thesis by (simp only: hashed_content_def simp_thms if_False)
qed

lemma hashed_manifest: "hashed_content ''archive/manifest.json'' data = Inr data"
proof -
  have "path_parts ''archive/manifest.json'' = [''archive'', ''manifest.json'']" by (simp add: path_parts_def)
  then show ?thesis by (simp add: hashed_content_def)
qed

text \<open>Without its signature and bundle digest, a receipt reads as it was written.\<close>

definition bare_receipt :: "jdict \<Rightarrow> jdict" where
  "bare_receipt receipt = AList.delete ''signature'' (AList.update ''bundle_sha256'' (JStr []) receipt)"

lemma hashed_receipt:
  assumes "json_ok (JObj receipt)" and "''bundle_sha256'' \<in> fst ` set receipt"
    and "\<And>k v. map_of receipt k = Some v \<Longrightarrow> k \<noteq> ''signature'' \<Longrightarrow> canon v = v"
  shows "hashed_content ''receipt.json'' (json_file (JObj receipt)) = Inr (utf8 (dumps (JObj (bare_receipt receipt))))"
proof -
  have dist: "distinct (map fst receipt)" using assms(1) by simp
  obtain r' where r': "canon (JObj receipt) = JObj r'" "distinct (map fst r')" "fst ` set r' = fst ` set receipt"
      "\<And>k. map_of r' k = map_option canon (map_of receipt k)"
    using canon_object [OF dist] by metis
  obtain s where s: "utf8_decode (json_file (JObj receipt)) = Inr s" "loads s = Inr (JObj r')"
    by (rule json_file_text [OF assms(1)]) (simp only: r'(1))
  have "path_parts ''receipt.json'' = [''receipt.json'']" by (simp add: path_parts_def)
  then have "hashed_content ''receipt.json'' (json_file (JObj receipt)) = Inr (utf8 (dumps (JObj (bare_receipt r'))))"
    using s r'(3) assms(2) by (simp add: hashed_content_def bare_receipt_def)
  moreover have "dumps (JObj (bare_receipt r')) = dumps (JObj (bare_receipt receipt))"
  proof (rule dumps_members_determined)
    show "distinct (map fst (bare_receipt r'))" "distinct (map fst (bare_receipt receipt))"
      using dist r'(2) by (simp_all add: bare_receipt_def distinct_update distinct_delete)
    fix k
    have "map_option canon (map_of receipt k) = map_of receipt k" if "k \<noteq> ''signature''"
      using assms(3) [of k] that by (cases "map_of receipt k") auto
    then show "map_option dumps (map_of (bare_receipt r') k) = map_option dumps (map_of (bare_receipt receipt) k)"
      by (simp add: bare_receipt_def delete_conv' r'(4))
  qed
  ultimately show ?thesis by simp
qed

text \<open>The digest of a directory depends on the paths and the hashed contents.\<close>

definition hashed_files :: "directory \<Rightarrow> (string \<times> bytes res) list" where
  "hashed_files d = map (\<lambda>(p, data). (p, hashed_content p data)) d"

lemma directory_hash_determined:
  assumes "hashed_files d = hashed_files d'"
  shows "directory_hash d = directory_hash d'"
proof -
  let ?g = "\<lambda>(p, data). (p, hashed_content p data)"
  let ?row = "\<lambda>(p, h). rbind h (\<lambda>content. Inr (utf8 p @ [0] @ content @ [10]))"
  have rows: "map_res directory_row xs = map_res ?row (hashed_files xs)" for xs
    by (induction xs) (auto simp: directory_row_def hashed_files_def)
  have sorted: "hashed_files (sorted_files d) = sort_key (\<lambda>(p, _). path_parts p) (hashed_files d)" for d
    unfolding hashed_files_def sorted_files_def by (rule sort_key_map [symmetric]) auto
  show ?thesis unfolding directory_hash_def rows sorted assms ..
qed

lemma hashed_files_update: "hashed_files (AList.update k v d) = AList.update k (hashed_content k v) (hashed_files d)"
  by (induction d) (auto simp: hashed_files_def)

lemma directory_hash_total:
  assumes "\<And>p data. (p, data) \<in> set d \<Longrightarrow> \<exists>content. hashed_content p data = Inr content"
  obtains h where "directory_hash d = Inr h"
proof -
  have "\<exists>row. directory_row pd = Inr row" if mem: "pd \<in> set (sorted_files d)" for pd
  proof -
    obtain p data where pd: "pd = (p, data)" by fastforce
    then obtain content where "hashed_content p data = Inr content" using mem assms by auto
    then show ?thesis by (simp add: pd directory_row_def)
  qed
  then obtain f where "\<And>pd. pd \<in> set (sorted_files d) \<Longrightarrow> directory_row pd = Inr (f pd)" by metis
  then have "map_res directory_row (sorted_files d) = Inr (map f (sorted_files d))" by (rule map_res_total)
  then show thesis using that by (simp add: directory_hash_def)
qed

section \<open>The archive in a bundle\<close>

text \<open>A bundle as it is written into an empty directory.\<close>

definition bundle_of :: "archive \<Rightarrow> jdict \<Rightarrow> directory" where
  "bundle_of ar receipt = archive_files_of ar @ [(''receipt.json'', json_file (JObj receipt))]"

definition objects_named :: "directory \<Rightarrow> bool" where
  "objects_named objs \<longleftrightarrow> fst ` set objs \<subseteq> range object_key"

lemma archive_file_key:
  assumes "archive_file cv n auto_chunk tt (objs, files) (p, data) = Inr (objs', files')" and "objects_named objs"
  shows "objects_named objs'"
proof -
  have key: "''objects/'' @ object_name (hexdigest data) = object_key data" by (simp add: object_key_def)
  have "objs' = objs \<or> (\<exists>bs. objs' = AList.update (object_key data) bs objs)"
    using assms(1) unfolding archive_file_def Let_def prod.case key by (auto simp: rbind_Inr_iff split: if_splits)
  then show ?thesis using assms(2) by (elim disjE exE) (simp_all add: objects_named_def update_keys)
qed

lemma archive_file_keys:
  assumes "fold_res (archive_file cv n auto_chunk tt) (objs, files) xs = Inr (objs', files')" and "objects_named objs"
  shows "objects_named objs'"
  using assms
proof (induction xs arbitrary: objs files)
  case (Cons px xs)
  obtain p data where px: "px = (p, data)" by fastforce
  obtain o1 f1 where step: "archive_file cv n auto_chunk tt (objs, files) (p, data) = Inr (o1, f1)"
      "fold_res (archive_file cv n auto_chunk tt) (o1, f1) xs = Inr (objs', files')"
    using Cons.prems(1) unfolding px by (auto simp: rbind_Inr_iff simp del: split_paired_Ex)
  show ?case by (rule Cons.IH [OF step(2) archive_file_key [OF step(1) Cons.prems(2)]])
qed simp

lemma build_objects_named:
  assumes "build_directory_archive cv mv source contents n auto_chunk tt = Inr (ar, m)"
  shows "objects_named (ar_objects ar)"
proof -
  obtain d objs files where "fold_res (archive_file cv n auto_chunk tt) ([], []) (sorted_files d) = Inr (objs, files)" "ar_objects ar = objs"
    using assms by (auto simp: build_directory_archive_def Let_def rbind_Inr_iff split: option.splits)
  then show ?thesis using archive_file_keys [of cv n auto_chunk tt "[]" "[]"] by (simp add: objects_named_def)
qed

lemma object_key_ends: "\<exists>s. ''archive/'' @ object_key x = s @ ''k''"
  by (rule exI [of _ "''archive/objects/'' @ hexdigest x @ ''.bogp''"]) (simp add: object_key_def object_name_def)

lemma in_archive_prefix [simp]: "in_archive (''archive/'' @ p)" "\<not> in_archive ''receipt.json''"
  by (simp_all add: in_archive_def)

lemma object_key_not_manifest: "object_key x \<noteq> ''manifest.json''"
  by (simp add: object_key_def)

lemma archive_files_in: "\<forall>(p, data) \<in> set (archive_files_of ar). in_archive p"
  by (auto simp: archive_files_of_def in_archive_def split: option.splits)

lemma receipt_not_in_archive: "''receipt.json'' \<notin> fst ` set (archive_files_of ar)"
  using archive_files_in [of ar] by force

lemma hashed_total:
  assumes "objects_named (ar_objects ar)" and "(p, data) \<in> set (archive_files_of ar)"
  shows "hashed_content p data = Inr data"
proof (cases "p = ''archive/manifest.json''")
  case False
  then obtain q where "(q, data) \<in> set (ar_objects ar)" "p = ''archive/'' @ q"
    using assms(2) by (auto simp: archive_files_of_def split: option.splits)
  then obtain x where "p = ''archive/'' @ object_key x" using assms(1) by (force simp: objects_named_def)
  then obtain s where "p = s @ ''k''" using object_key_ends by blast
  then show ?thesis using hashed_plain [of "CHR ''k''" s data] by simp
qed (simp add: hashed_manifest)

lemma archive_in_bundle:
  assumes "objects_named objs"
  shows "archive_in (bundle_of \<lparr>ar_objects = objs, ar_manifest = Some m\<rparr> receipt) =
    Inr \<lparr>ar_objects = objs @ [(''manifest.json'', json_file (archive_manifest_json m))], ar_manifest = Some m\<rparr>"
proof -
  let ?ar = "\<lparr>ar_objects = objs, ar_manifest = Some m\<rparr>" let ?mf = "json_file (archive_manifest_json m)"
  have files: "bundle_of ?ar receipt = map (\<lambda>(p, data). (''archive/'' @ p, data)) objs @
      [(''archive/manifest.json'', ?mf), (''receipt.json'', json_file (JObj receipt))]"
    by (simp add: bundle_of_def archive_files_of_def)
  have "''archive/manifest.json'' \<notin> fst ` set (map (\<lambda>(p, data). (''archive/'' @ p, data)) objs)"
  proof
    assume "''archive/manifest.json'' \<in> fst ` set (map (\<lambda>(p, data). (''archive/'' @ p, data)) objs)"
    then obtain q data where q: "(q, data) \<in> set objs" "''archive/'' @ q = ''archive/manifest.json''" by auto
    then have "q = ''manifest.json''" by simp
    moreover obtain x where "q = object_key x" using q(1) assms by (force simp: objects_named_def)
    ultimately show False using object_key_not_manifest by simp
  qed
  then have mf: "map_of (bundle_of ?ar receipt) ''archive/manifest.json'' = Some ?mf"
    unfolding files by (simp only: map_of_append map_add_def map_of_eq_None_iff [symmetric]) (simp add: map_of_eq_None_iff)
  have objs: "map (\<lambda>(p, data). (drop 8 p, data)) (filter (\<lambda>(p, _). in_archive p) (bundle_of ?ar receipt)) = objs @ [(''manifest.json'', ?mf)]"
  proof -
    have "filter (\<lambda>(p, _). in_archive p) (map (\<lambda>(p, data). (''archive/'' @ p, data)) xs) = map (\<lambda>(p, data). (''archive/'' @ p, data)) xs"
      for xs :: directory by (induction xs) (auto simp: in_archive_def)
    moreover have "map (\<lambda>(p, data). (drop 8 p, data)) (map (\<lambda>(p, data). (''archive/'' @ p, data)) xs) = xs"
      for xs :: directory by (induction xs) auto
    ultimately show ?thesis unfolding files by (simp add: in_archive_def)
  qed
  obtain s where s: "utf8_decode ?mf = Inr s" "loads s = Inr (canon (archive_manifest_json m))"
    by (rule json_file_text [OF archive_manifest_json_ok])
  show ?thesis unfolding archive_in_def Let_def mf objs by (simp add: s archive_manifest_canon)
qed

lemma object_holds_extended:
  assumes "object_holds cv objs x"
  shows "object_holds cv (objs @ extra) x"
  using assms by (auto simp: object_holds_def read_bogpk_container_def split: option.splits)

section \<open>The receipt of a bundle\<close>

text \<open>
  The part of \<^verbatim>\<open>src/schemas/package-receipt.schema.json\<close> that a receipt satisfies, and what is relied on of the
  validator: it reports no error for a receipt that satisfies the schema.
\<close>

definition SIGNATURE_KEYS :: "string set" where
  "SIGNATURE_KEYS = {''format'', ''algorithm'', ''key_id'', ''signature''}"

definition is_key_id :: "string \<Rightarrow> bool" where
  "is_key_id s \<longleftrightarrow> length s = 16 \<and> (\<forall>ch \<in> set s. ch \<in> set ''0123456789abcdef'')"

definition signature_dict :: "jdict \<Rightarrow> bool" where
  "signature_dict sg \<longleftrightarrow> distinct (map fst sg) \<and> fst ` set sg = SIGNATURE_KEYS \<and>
     jget sg ''format'' = JStr ''BOGSIG-ed25519-1.0'' \<and> jget sg ''algorithm'' = JStr ''ed25519'' \<and>
     (\<exists>s. jget sg ''key_id'' = JStr s \<and> is_key_id s) \<and> (\<exists>s. jget sg ''signature'' = JStr s \<and> s \<noteq> [])"

definition signature_schema :: "json \<Rightarrow> bool" where
  "signature_schema j \<longleftrightarrow> (case j of JObj sg \<Rightarrow> signature_dict sg | _ \<Rightarrow> False)"

definition receipt_schema :: "jdict \<Rightarrow> bool" where
  "receipt_schema kvs \<longleftrightarrow> distinct (map fst kvs) \<and>
     fst ` set kvs \<subseteq> {''format'', ''name'', ''version'', ''archive_tree_sha256'', ''file_count'', ''dependencies'',
       ''bundle_sha256'', ''signature''} \<and>
     jget kvs ''format'' = JStr ''BOGPKG-receipt-7.0'' \<and>
     (\<exists>s. jget kvs ''name'' = JStr s \<and> s \<noteq> []) \<and> (\<exists>s. jget kvs ''version'' = JStr s \<and> s \<noteq> []) \<and>
     (\<exists>s. jget kvs ''archive_tree_sha256'' = JStr s \<and> is_sha256 s) \<and> (\<exists>n. jget kvs ''file_count'' = JInt n \<and> 0 \<le> n) \<and>
     (\<exists>ds. jget kvs ''dependencies'' = JList (map JStr ds) \<and> distinct ds \<and> [] \<notin> set ds) \<and>
     (\<exists>s. jget kvs ''bundle_sha256'' = JStr s \<and> is_sha256 s) \<and>
     (''signature'' \<in> fst ` set kvs \<longrightarrow> signature_schema (jget kvs ''signature''))"

definition receipt_schema_complete :: "json schema_validator \<Rightarrow> bool" where
  "receipt_schema_complete rv \<longleftrightarrow> (\<forall>kvs. receipt_schema kvs \<longrightarrow> rv (JObj kvs) = [])"

lemma signature_schema_canon:
  assumes "signature_schema j"
  shows "signature_schema (canon j)"
proof -
  obtain sg where j: "j = JObj sg" and sg: "signature_dict sg" using assms by (auto simp: signature_schema_def split: json.splits)
  then have "distinct (map fst sg)" by (simp add: signature_dict_def)
  then obtain sg' where c: "canon (JObj sg) = JObj sg'" "distinct (map fst sg')" "fst ` set sg' = fst ` set sg"
      "\<And>k. map_of sg' k = map_option canon (map_of sg k)"
    using canon_object by metis
  have "signature_dict sg'" using sg unfolding signature_dict_def jget_canon [OF c(4)] c(3) by (auto simp: c(2))
  then show ?thesis unfolding j c(1) by (simp add: signature_schema_def)
qed

lemma canon_JStr [simp]: "canon \<circ> JStr = JStr"
  by (simp add: fun_eq_iff)

lemma map_JStr_eq [simp]: "map JStr xs = map JStr ys \<longleftrightarrow> xs = ys"
  by (simp add: inj_map_eq_map inj_def)

lemma receipt_schema_canon:
  assumes "receipt_schema kvs" and "distinct (map fst kvs')" and "fst ` set kvs' = fst ` set kvs"
    and "\<And>k. map_of kvs' k = map_option canon (map_of kvs k)"
  shows "receipt_schema kvs'"
  using assms(1) signature_schema_canon
  by (auto simp: receipt_schema_def assms(2,3) jget_canon [OF assms(4)])

text \<open>What a bundle may be signed with: nothing, if signatures are not required, or a key whose public key is trusted.\<close>

definition signer_ok :: "store_env \<Rightarrow> string option option \<Rightarrow> bool" where
  "signer_ok env signing_key \<longleftrightarrow> (case signing_key of
     None \<Rightarrow> \<not> se_require_signature env
   | Some key \<Rightarrow> ed25519_correct (se_ed env) \<and> trusts_own (se_ed env) key (se_trusted_keys env) \<and>
       (\<forall>sk m. ed_sign (se_ed env) sk m \<noteq> []))"

definition signed_receipt :: "store_env \<Rightarrow> string option option \<Rightarrow> jdict \<Rightarrow> jdict res" where
  "signed_receipt env signing_key receipt = (case signing_key of
     None \<Rightarrow> Inr receipt
   | Some key \<Rightarrow> rbind (sign_object (se_ed env) (JObj receipt) key) (\<lambda>signature.
       Inr (AList.update ''signature'' signature receipt)))"

lemma b64encode_nonempty: "bs \<noteq> [] \<Longrightarrow> b64encode bs \<noteq> []"
  by (cases bs rule: b64encode.cases) auto

lemma signature_members:
  assumes "sign_object ed obj key = Inr signature" and "\<forall>sk m. ed_sign ed sk m \<noteq> []"
  obtains sg where "signature = JObj sg" and "signature_schema signature" and "json_ok signature"
    and "\<And>k. map_option canon (map_of sg k) = map_of sg k"
proof -
  obtain sk where sk: "key_bytes key = Inr sk" and sg: "signature = JObj [(''format'', JStr SIGNATURE_FORMAT), (''algorithm'', JStr ''ed25519''),
      (''key_id'', JStr (key_id (ed_public ed sk))), (''signature'', JStr (b64encode (ed_sign ed sk (canonical_bytes obj))))]"
    using assms(1) by (auto simp: sign_object_def rbind_Inr_iff)
  have "is_sha256 (hexdigest (ed_public ed sk))" by simp
  then have "is_key_id (key_id (ed_public ed sk))"
    unfolding key_id_def is_sha256_def is_key_id_def by (simp, meson in_set_takeD)
  moreover have "b64encode (ed_sign ed sk (canonical_bytes obj)) \<noteq> []" using assms(2) b64encode_nonempty by blast
  ultimately have "signature_schema signature"
    by (simp add: sg signature_schema_def signature_dict_def SIGNATURE_KEYS_def jget_def SIGNATURE_FORMAT_def)
  then show thesis by (intro that [OF sg]) (simp_all add: sg)
qed

lemma verify_object_signature_same:
  assumes "canonical_bytes obj = canonical_bytes obj'" and "\<And>k. map_of sg k = map_of sg' k"
  shows "verify_object_signature ed obj (JObj sg) keys = verify_object_signature ed obj' (JObj sg') keys"
proof -
  have m: "map_of sg = map_of sg'" by (rule HOL.ext) (rule assms(2))
  have "try_key ed obj sg = try_key ed obj' sg'" unfolding fun_eq_iff try_key_def jget_def m assms(1) by simp
  then have any: "any_key ed obj sg keys = any_key ed obj' sg' keys" by (induction keys) (simp_all only: any_key.simps)
  have same: "jget sg = jget sg'" unfolding fun_eq_iff jget_def m by simp
  show ?thesis unfolding verify_object_signature_def json.case any same ..
qed

section \<open>What package_directory returns\<close>

lemma directory_hash_sha256: "directory_hash d = Inr h \<Longrightarrow> is_sha256 h"
  by (auto simp: directory_hash_def rbind_Inr_iff)

lemma new_receipt_sign:
  "AList.update ''signature'' sg (new_receipt name version m deps h) = new_receipt name version m deps h @ [(''signature'', sg)]"
  by (simp add: new_receipt_def)

text \<open>The members of a receipt before and after signing.\<close>

definition receipt_members :: "string \<Rightarrow> string \<Rightarrow> archive_manifest \<Rightarrow> string list \<Rightarrow> string \<Rightarrow> (string \<times> json) list \<Rightarrow> jdict" where
  "receipt_members name version m deps h sg = new_receipt name version m deps h @ sg"

lemma signed_receipt_total:
  assumes "signer_ok env signing_key"
  obtains sg where "signed_receipt env signing_key (new_receipt name version m deps h) = Inr (receipt_members name version m deps h sg)"
    and "sg = [] \<and> signing_key = None \<or> (\<exists>key signature. sg = [(''signature'', signature)] \<and> signing_key = Some key \<and>
      sign_object (se_ed env) (JObj (new_receipt name version m deps h)) key = Inr signature \<and>
      signature_schema signature \<and> json_ok signature)"
proof (cases signing_key)
  case None
  then show thesis using that [of "[]"] by (simp add: signed_receipt_def receipt_members_def)
next
  case (Some key)
  then have ok: "ed25519_correct (se_ed env)" "trusts_own (se_ed env) key (se_trusted_keys env)" "\<forall>sk m. ed_sign (se_ed env) sk m \<noteq> []"
    using assms by (simp_all add: signer_ok_def)
  obtain signature where sg: "sign_object (se_ed env) (JObj (new_receipt name version m deps h)) key = Inr signature"
    using sign_then_verify [OF ok(1,2)] by metis
  then have "signature_schema signature" "json_ok signature" using signature_members [OF sg ok(3)] by metis+
  then show thesis using that [of "[(''signature'', signature)]"] Some sg
    by (simp add: signed_receipt_def new_receipt_sign receipt_members_def)
qed

lemma receipt_members_ok:
  assumes "sg = [] \<or> (\<exists>signature. sg = [(''signature'', signature)] \<and> json_ok signature)"
  shows "json_ok (JObj (receipt_members name version m deps h sg))"
    and "''bundle_sha256'' \<in> fst ` set (receipt_members name version m deps h sg)"
    and "map_of (receipt_members name version m deps h sg) k = Some v \<Longrightarrow> k \<noteq> ''signature'' \<Longrightarrow> canon v = v"
    and "bare_receipt (receipt_members name version m deps h sg) = new_receipt name version m deps []"
  using assms by (auto simp: receipt_members_def new_receipt_def bare_receipt_def split: if_splits)

lemma receipt_members_schema:
  assumes "sg = [] \<or> (\<exists>signature. sg = [(''signature'', signature)] \<and> signature_schema signature)"
    and "name \<noteq> []" and "version \<noteq> []" and "[] \<notin> set deps" and "is_sha256 (am_tree_sha256 m)" and "0 \<le> am_file_count m" and "is_sha256 h"
  shows "receipt_schema (receipt_members name version m deps h sg)"
  using assms by (auto simp: receipt_schema_def receipt_members_def new_receipt_def jget_def PACKAGE_RECEIPT_FORMAT_def)

lemma hashed_members:
  assumes "sg = [] \<or> (\<exists>signature. sg = [(''signature'', signature)] \<and> json_ok signature)"
  shows "hashed_content ''receipt.json'' (json_file (JObj (receipt_members name version m deps h sg))) =
    Inr (utf8 (dumps (JObj (new_receipt name version m deps []))))"
  using hashed_receipt [OF receipt_members_ok(1-3) [OF assms]] receipt_members_ok(4) [OF assms] by simp

lemma bundle_hash:
  assumes "objects_named (ar_objects ar)" and "sg = [] \<or> (\<exists>signature. sg = [(''signature'', signature)] \<and> json_ok signature)"
  shows "\<exists>h'. directory_hash (bundle_of ar (receipt_members name version m deps h sg)) = Inr h'"
proof -
  have "\<exists>content. hashed_content p data = Inr content"
    if "(p, data) \<in> set (bundle_of ar (receipt_members name version m deps h sg))" for p data
    using that hashed_total [OF assms(1), of p data] hashed_members [OF assms(2)] by (auto simp: bundle_of_def)
  then show ?thesis using directory_hash_total by metis
qed

text \<open>The digest of a bundle does not depend on the digest and the signature in its receipt.\<close>

lemma bundle_hash_same:
  assumes "sg = [] \<or> (\<exists>signature. sg = [(''signature'', signature)] \<and> json_ok signature)"
  shows "directory_hash (bundle_of ar (receipt_members name version m deps h sg)) =
    directory_hash (bundle_of ar (receipt_members name version m deps h' []))"
  by (rule directory_hash_determined)
    (simp add: hashed_files_def bundle_of_def hashed_members [OF assms] hashed_members [of "[]", simplified])

lemma package_result:
  assumes build: "build_directory_archive (se_container_schema env) (se_manifest_schema env) source contents n auto_chunk tt = Inr (ar, m)"
    and schema: "archive_schema m" "receipt_schema_complete (se_receipt_schema env)" and "signer_ok env signing_key"
    and "name \<noteq> []" "version \<noteq> []" "[] \<notin> set deps"
  obtains h sg where "package_directory env source contents [] name version n auto_chunk tt deps signing_key =
      Inr (bundle_of ar (receipt_members name version m deps h sg), receipt_members name version m deps h sg)"
    and "directory_hash (bundle_of ar (receipt_members name version m deps h sg)) = Inr h"
    and "sg = [] \<and> signing_key = None \<or> (\<exists>key signature. sg = [(''signature'', signature)] \<and> signing_key = Some key \<and>
      sign_object (se_ed env) (JObj (new_receipt name version m deps h)) key = Inr signature \<and>
      signature_schema signature \<and> json_ok signature)"
    and "receipt_schema (receipt_members name version m deps h sg)"
proof -
  let ?new = "new_receipt name version m deps" let ?rm = "receipt_members name version m deps"
  have named: "objects_named (ar_objects ar)" by (rule build_objects_named [OF build])
  obtain h1 where h1: "directory_hash (archive_files_of ar) = Inr h1"
    using directory_hash_total [of "archive_files_of ar"] hashed_total [OF named] by metis
  obtain h where h: "directory_hash (bundle_of ar (?rm h1 [])) = Inr h" using bundle_hash [OF named, of "[]" name version m deps h1] by auto
  obtain sg where sg: "signed_receipt env signing_key (?new h) = Inr (?rm h sg)"
      "sg = [] \<and> signing_key = None \<or> (\<exists>key signature. sg = [(''signature'', signature)] \<and> signing_key = Some key \<and>
        sign_object (se_ed env) (JObj (?new h)) key = Inr signature \<and> signature_schema signature \<and> json_ok signature)"
    by (rule signed_receipt_total [OF assms(4)])
  have shape: "sg = [] \<or> (\<exists>signature. sg = [(''signature'', signature)] \<and> json_ok signature)"
      "sg = [] \<or> (\<exists>signature. sg = [(''signature'', signature)] \<and> signature_schema signature)" using sg(2) by auto
  have valid: "receipt_schema (?rm h sg)"
    using schema(1) assms(5-) directory_hash_sha256 [OF h] by (intro receipt_members_schema [OF shape(2)]) (simp_all add: archive_schema_def)
  then have vs: "validate_schema (se_receipt_schema env) (JObj (?rm h sg)) nm = Inr ()" for nm
    using schema(2) by (simp add: receipt_schema_complete_def validate_schema_def)
  have first: "AList.update ''receipt.json'' (json_file (JObj (?new h1))) (archive_files_of ar) = bundle_of ar (?rm h1 [])"
    using update_new [OF receipt_not_in_archive] by (simp add: bundle_of_def receipt_members_def)
  have last: "AList.update ''receipt.json'' x (bundle_of ar r) = archive_files_of ar @ [(''receipt.json'', x)]" for x r
  proof -
    have "AList.update k x (d @ [(k, y)]) = d @ [(k, x)]" if "k \<notin> fst ` set d" for k :: string and d and y :: bytes
      using that by (induction d) auto
    then show ?thesis using receipt_not_in_archive by (simp add: bundle_of_def)
  qed
  have again: "AList.update ''bundle_sha256'' (JStr h) (?new h1) = ?new h" by (simp add: new_receipt_def)
  have "package_directory env source contents [] name version n auto_chunk tt deps signing_key =
      Inr (bundle_of ar (?rm h sg), ?rm h sg)"
    unfolding package_directory_def build rbind_simps prod.case Let_def filter.simps append_Nil h1 first h again
      signed_receipt_def [symmetric] sg(1) vs last by (simp add: bundle_of_def)
  moreover have "directory_hash (bundle_of ar (?rm h sg)) = Inr h" using bundle_hash_same [OF shape(1)] h by metis
  ultimately show thesis using that sg(2) valid by blast
qed

section \<open>Reading the bundle\<close>

definition receipt_record :: "string \<Rightarrow> string \<Rightarrow> archive_manifest \<Rightarrow> string list \<Rightarrow> string \<Rightarrow> jdict \<Rightarrow> package_receipt" where
  "receipt_record name version m deps h members =
     \<lparr>pr_name = name, pr_version = version, pr_archive_tree_sha256 = am_tree_sha256 m, pr_bundle_sha256 = h,
      pr_dependencies = sort (remdups deps), pr_members = members\<rparr>"

lemma read_package_bundle:
  assumes "sg = [] \<or> (\<exists>signature. sg = [(''signature'', signature)] \<and> json_ok signature)"
    and schema: "receipt_schema (receipt_members name version m deps h sg)" "receipt_schema_complete (se_receipt_schema env)"
  obtains members where "read_package_receipt env (bundle_of ar (receipt_members name version m deps h sg)) =
      Inr (receipt_record name version m deps h members)"
    and "distinct (map fst members)"
    and "\<And>k. map_of members k = map_option canon (map_of (receipt_members name version m deps h sg) k)"
proof -
  let ?r = "receipt_members name version m deps h sg"
  have ok: "json_ok (JObj ?r)" by (rule receipt_members_ok [OF assms(1)])
  then have dist: "distinct (map fst ?r)" by simp
  obtain members where c: "canon (JObj ?r) = JObj members" "distinct (map fst members)" "fst ` set members = fst ` set ?r"
      "\<And>k. map_of members k = map_option canon (map_of ?r k)"
    using canon_object [OF dist] by metis
  obtain s where s: "utf8_decode (json_file (JObj ?r)) = Inr s" "loads s = Inr (JObj members)"
    by (rule json_file_text [OF ok]) (simp only: c(1))
  have lookup: "map_of (bundle_of ar ?r) ''receipt.json'' = Some (json_file (JObj ?r))"
  proof -
    have "map_of (archive_files_of ar) ''receipt.json'' = None"
      using receipt_not_in_archive [of ar] by (simp only: map_of_eq_None_iff not_False_eq_True)
    then show ?thesis by (simp add: bundle_of_def map_add_def)
  qed
  have "receipt_schema members" by (rule receipt_schema_canon [OF schema(1) c(2-4)])
  then have "se_receipt_schema env (JObj members) = []" using schema(2) by (simp add: receipt_schema_complete_def)
  moreover have get: "jget members k = canon (jget ?r k)" for k by (rule jget_canon [OF c(4)])
  ultimately have "read_receipt_file env (bundle_of ar ?r) = Inr members"
    using s by (simp add: read_receipt_file_def lookup validate_schema_def as_store_error_def)
      (simp add: receipt_members_def new_receipt_def jget_def)
  moreover have "those (map str_of (map JStr ds)) = Some ds" for ds by (induction ds) simp_all
  then have "receipt_of members = Inr (receipt_record name version m deps h members)"
    unfolding receipt_of_def get by (simp add: receipt_members_def new_receipt_def jget_def receipt_record_def)
  ultimately have "read_package_receipt env (bundle_of ar ?r) = Inr (receipt_record name version m deps h members)"
    by (simp add: read_package_receipt_def)
  then show thesis using that c(2,4) by blast
qed

lemma verify_members:
  assumes "signer_ok env signing_key" and "distinct (map fst members)"
    and members: "\<And>k. map_of members k = map_option canon (map_of (receipt_members name version m deps h sg) k)"
    and sg: "sg = [] \<and> signing_key = None \<or> (\<exists>key signature. sg = [(''signature'', signature)] \<and> signing_key = Some key \<and>
      sign_object (se_ed env) (JObj (new_receipt name version m deps h)) key = Inr signature)"
  shows "\<exists>check. verify_signature env members = Inr check \<and> ps_failures check = []"
  using sg
proof
  assume none: "sg = [] \<and> signing_key = None"
  then have "jget members ''signature'' = JNull" using members [of "''signature''"] by (simp add: jget_def receipt_members_def new_receipt_def)
  then show ?thesis using assms(1) none by (simp add: verify_signature_def signer_ok_def)
next
  let ?new = "new_receipt name version m deps h"
  assume "\<exists>key signature. sg = [(''signature'', signature)] \<and> signing_key = Some key \<and>
      sign_object (se_ed env) (JObj ?new) key = Inr signature"
  then obtain key signature where s: "sg = [(''signature'', signature)]" "signing_key = Some key"
      "sign_object (se_ed env) (JObj ?new) key = Inr signature" by blast
  have ok: "ed25519_correct (se_ed env)" "trusts_own (se_ed env) key (se_trusted_keys env)" "\<forall>sk m. ed_sign (se_ed env) sk m \<noteq> []"
    using assms(1) s(2) by (simp_all add: signer_ok_def)
  obtain d where d: "signature = JObj d" "json_ok signature" "\<And>k. map_option canon (map_of d k) = map_of d k"
    using signature_members [OF s(3) ok(3)] by metis
  then obtain d' where d': "canon (JObj d) = JObj d'" "\<And>k. map_of d' k = map_option canon (map_of d k)"
    using canon_object [of d] by auto
  obtain kid where v: "verify_object_signature (se_ed env) (JObj ?new) (JObj d) (se_trusted_keys env) =
      Inr \<lparr>sc_verified = True, sc_key_id = kid, sc_reason = JNull\<rparr>"
    using sign_then_verify [OF ok(1,2), of "JObj ?new"] s(3) d(1) by (metis sum.inject(2))
  have got: "jget members ''signature'' = JObj d'"
    using members [of "''signature''"] d'(1) by (simp add: jget_def receipt_members_def new_receipt_def s(1) d(1) del: canon.simps)
  have "dumps (JObj (AList.delete ''signature'' members)) = dumps (JObj ?new)"
  proof (rule dumps_members_determined)
    show "distinct (map fst (AList.delete ''signature'' members))" using assms(2) by (rule distinct_delete)
    show "distinct (map fst ?new)" by (simp add: new_receipt_def)
    have same: "map_option canon (map_of ?new k) = map_of ?new k" for k by (simp add: new_receipt_def)
    have "map_of (receipt_members name version m deps h sg) k = map_of ?new k" if "k \<noteq> ''signature''" for k
      using that by (simp add: receipt_members_def s(1) map_add_def split: option.split)
    moreover have "map_of ?new ''signature'' = None" by (simp add: new_receipt_def)
    ultimately have "map_of (AList.delete ''signature'' members) k = map_of ?new k" for k
      by (cases "k = ''signature''") (simp_all add: delete_conv' members same)
    then show "map_option dumps (map_of (AList.delete ''signature'' members) k) = map_option dumps (map_of ?new k)" for k by simp
  qed
  then have bytes: "canonical_bytes (JObj (AList.delete ''signature'' members)) = canonical_bytes (JObj ?new)" by (simp only: canonical_bytes_def)
  have same: "map_of d' k = map_of d k" for k using d'(2) d(3) by simp
  have "verify_object_signature (se_ed env) (JObj (AList.delete ''signature'' members)) (JObj d') (se_trusted_keys env) =
      Inr \<lparr>sc_verified = True, sc_key_id = kid, sc_reason = JNull\<rparr>"
    using v unfolding verify_object_signature_same [OF bytes same] .
  then show ?thesis by (simp add: verify_signature_def got)
qed

section \<open>Packaging, then installing\<close>

text \<open>The directory and the settings that a package is made of.\<close>

definition packageable :: "store_env \<Rightarrow> directory \<Rightarrow> string \<Rightarrow> string \<Rightarrow> nat \<Rightarrow> bool \<Rightarrow> string list \<Rightarrow> string option option \<Rightarrow> bool" where
  "packageable env d name version n auto_chunk deps signing_key \<longleftrightarrow>
     schema_complete (se_container_schema env) \<and> archive_schema_complete (se_manifest_schema env) \<and>
     receipt_schema_complete (se_receipt_schema env) \<and> dir_ok d \<and> contents_clear d \<and>
     (auto_chunk \<or> int n \<in> set CANDIDATE_CHUNK_SIZES) \<and> signer_ok env signing_key \<and>
     name \<noteq> [] \<and> version \<noteq> [] \<and> [] \<notin> set deps"

lemma package_admitted:
  assumes pk: "packageable env d name version n auto_chunk deps signing_key"
  obtains bd rcpt where "package_directory env source (Some d) [] name version (int n) auto_chunk tt deps signing_key = Inr (bd, rcpt)"
    and "\<And>st index. st_index (opened st) = Index index \<Longrightarrow> \<forall>x \<in> set deps. verifies env (opened st) {} x \<Longrightarrow>
      \<exists>ir st'. install_bundle env bd st = (Inr ir, st') \<and> package_key name version = Inr (ir_package ir) \<and>
        set (ir_dependencies ir) = set deps \<and> map_of (dir_files st' (ir_install_dir ir)) = map_of d"
    and "\<And>ar manifest. archive_in bd = Inr ar \<Longrightarrow> read_archive_manifest (se_manifest_schema env) ar = Inr manifest \<Longrightarrow>
      lists_plainly manifest"
proof -
  let ?cv = "se_container_schema env" let ?mv = "se_manifest_schema env"
  let ?m = "new_manifest source (map built_entry (sorted_files d))"
  have p: "schema_complete ?cv" "archive_schema_complete ?mv" "receipt_schema_complete (se_receipt_schema env)" "dir_ok d"
      "contents_clear d" "auto_chunk \<or> int n \<in> set CANDIDATE_CHUNK_SIZES" "signer_ok env signing_key"
      "name \<noteq> []" "version \<noteq> []" "[] \<notin> set deps"
    using pk by (simp_all add: packageable_def)
  obtain objs where build: "build_directory_archive ?cv ?mv source (Some d) (int n) auto_chunk tt =
      Inr (\<lparr>ar_objects = objs, ar_manifest = Some ?m\<rparr>, ?m)" and objs: "\<forall>x \<in> snd ` set d. object_holds ?cv objs x"
    by (rule build_succeeds [OF p(1,2,4,5,6)])
  let ?ar = "\<lparr>ar_objects = objs, ar_manifest = Some ?m\<rparr>"
  have schema: "archive_schema ?m" using dir_ok_nonempty [OF p(4)] by (intro new_manifest_schema) auto
  obtain h sg where pd: "package_directory env source (Some d) [] name version (int n) auto_chunk tt deps signing_key =
      Inr (bundle_of ?ar (receipt_members name version ?m deps h sg), receipt_members name version ?m deps h sg)"
    and hash: "directory_hash (bundle_of ?ar (receipt_members name version ?m deps h sg)) = Inr h"
    and sg: "sg = [] \<and> signing_key = None \<or> (\<exists>key signature. sg = [(''signature'', signature)] \<and> signing_key = Some key \<and>
      sign_object (se_ed env) (JObj (new_receipt name version ?m deps h)) key = Inr signature \<and>
      signature_schema signature \<and> json_ok signature)"
    and valid: "receipt_schema (receipt_members name version ?m deps h sg)"
    by (rule package_result [OF build schema p(3,7-10)])
  let ?bd = "bundle_of ?ar (receipt_members name version ?m deps h sg)"
  have shape: "sg = [] \<or> (\<exists>signature. sg = [(''signature'', signature)] \<and> json_ok signature)"
      "sg = [] \<and> signing_key = None \<or> (\<exists>key signature. sg = [(''signature'', signature)] \<and> signing_key = Some key \<and>
        sign_object (se_ed env) (JObj (new_receipt name version ?m deps h)) key = Inr signature)" using sg by blast+
  obtain members where rr: "read_package_receipt env ?bd = Inr (receipt_record name version ?m deps h members)"
      "distinct (map fst members)" "\<And>k. map_of members k = map_option canon (map_of (receipt_members name version ?m deps h sg) k)"
    using read_package_bundle [OF shape(1) valid p(3)] by metis
  obtain check where check: "verify_signature env members = Inr check" "ps_failures check = []"
    using verify_members [OF p(7) rr(2,3) shape(2)] by blast
  let ?ar' = "\<lparr>ar_objects = objs @ [(''manifest.json'', json_file (archive_manifest_json ?m))], ar_manifest = Some ?m\<rparr>"
  have named: "objects_named objs" using build_objects_named [OF build] by simp
  have ar': "archive_in ?bd = Inr ?ar'" by (rule archive_in_bundle [OF named])
  have man: "read_archive_manifest ?mv ?ar' = Inr ?m" by (rule built_manifest [OF p(2,4)])
  have held: "\<forall>x \<in> snd ` set d. object_holds ?cv (objs @ [(''manifest.json'', json_file (archive_manifest_json ?m))]) x"
    using objs object_holds_extended by blast
  obtain restored where restored: "snd (restore_directory_archive ?cv ?mv ?ar') = Inr restored"
    using restore_built(2) [OF p(2,4) held refl] by blast
  have out: "map_of (out_files (fst (restore_directory_archive ?cv ?mv ?ar'))) = map_of d"
    by (rule restore_built(3) [OF p(2,4) held refl])
  obtain key where key: "package_key name version = Inr key" by (rule package_key_total)
  have install: "\<exists>ir st'. install_bundle env ?bd st = (Inr ir, st') \<and> package_key name version = Inr (ir_package ir) \<and>
      set (ir_dependencies ir) = set deps \<and> map_of (dir_files st' (ir_install_dir ir)) = map_of d"
    if "st_index (opened st) = Index index" and "\<forall>x \<in> set deps. verifies env (opened st) {} x" for st index
  proof -
    have adm: "admitted env (opened st) ?bd (receipt_record name version ?m deps h members) ?ar' ?m check index"
      using rr(1) ar' man hash check that by (simp add: admitted_def receipt_record_def)
    let ?ir = "\<lparr>ir_package = key, ir_package_dir = package_path st key, ir_install_dir = install_path st key,
      ir_archive_tree_sha256 = am_tree_sha256 ?m, ir_bundle_sha256 = h, ir_restore_tree_sha256 = rr_tree_sha256 restored,
      ir_dependencies = sort (remdups deps), ir_signature = check\<rparr>"
    let ?st' = "placed (opened st) key ?bd (receipt_record name version ?m deps h members) check
        (out_files (fst (restore_directory_archive ?cv ?mv ?ar'))) index"
    have inst: "install_bundle env ?bd st = (Inr ?ir, ?st')"
      using install_bundleI [OF adm _ restored, of key] key by (simp add: receipt_record_def)
    have "install_path (opened st) key = install_path st key" by (simp add: install_path_def)
    then have "dir_files ?st' (ir_install_dir ?ir) = out_files (fst (restore_directory_archive ?cv ?mv ?ar'))"
      by (simp add: placed_def dir_files_def)
    then show ?thesis using key out by (intro exI [of _ ?ir] exI [of _ ?st'] conjI inst) simp_all
  qed
  have "lists_plainly ?m" by (rule lists_plainly_built [OF p(4)])
  then have paths: "lists_plainly manifest"
    if "archive_in ?bd = Inr ar" "read_archive_manifest ?mv ar = Inr manifest" for ar manifest
    using that ar' man by simp
  show thesis by (rule that [OF pd]) (use install paths in blast)+
qed

text \<open>A directory packaged, installed under a new key, and verified.\<close>

lemma package_installed:
  assumes "packageable env d name version n auto_chunk deps signing_key" and "store_ok st"
    and "st_index (opened st) = Index index" and "\<forall>x \<in> set deps. verifies env (opened st) {} x"
    and "package_key name version = Inr key" and "key \<notin> fst ` set index"
  obtains bd rcpt ir st' where
    "package_directory env source (Some d) [] name version (int n) auto_chunk tt deps signing_key = Inr (bd, rcpt)"
    and "install_bundle env bd st = (Inr ir, st')" and "ir_package ir = key" and "set (ir_dependencies ir) = set deps"
    and "map_of (dir_files st' (ir_install_dir ir)) = map_of d" and "verifies env st' {} key" and "store_ok st'"
    and "\<And>p. verifies env st {} p \<Longrightarrow> verifies env st' {} p"
proof (rule package_admitted [OF assms(1), of source tt])
  fix bd rcpt
  assume pd: "package_directory env source (Some d) [] name version (int n) auto_chunk tt deps signing_key = Inr (bd, rcpt)"
    and inst: "\<And>st index. st_index (opened st) = Index index \<Longrightarrow> \<forall>x \<in> set deps. verifies env (opened st) {} x \<Longrightarrow>
      \<exists>ir st'. install_bundle env bd st = (Inr ir, st') \<and> package_key name version = Inr (ir_package ir) \<and>
        set (ir_dependencies ir) = set deps \<and> map_of (dir_files st' (ir_install_dir ir)) = map_of d"
    and paths: "\<And>ar manifest. archive_in bd = Inr ar \<Longrightarrow> read_archive_manifest (se_manifest_schema env) ar = Inr manifest \<Longrightarrow>
      lists_plainly manifest"
  obtain ir st' where i: "install_bundle env bd st = (Inr ir, st')" "ir_package ir = key" "set (ir_dependencies ir) = set deps"
      "map_of (dir_files st' (ir_install_dir ir)) = map_of d"
    using inst [OF assms(3,4)] assms(5) by auto
  have fresh: "ir_package ir \<notin> fst ` set index'" if "st_index st = Index index'" for index'
    using that assms(3,6) i(2) by (simp add: opened_def)
  have one: "verifies env st' {} (ir_package ir)" "store_ok st'"
    by (rule install_verified [OF assms(2) i(1) fresh]; use paths in blast)+
  have "verifies env st' {} p" if "verifies env st {} p" for p
    by (rule install_verified(2) [OF assms(2) i(1) fresh _ that]; use paths in blast)
  then show thesis by (rule that [OF pd i one(1) [unfolded i(2)] one(2)])
qed

end
