(* ===== verification/BogCell_Correct.thy ===== *)
theory BogCell_Correct
  imports BogCell Genesis_State Store_Correct Store_Bundle
begin

text \<open>
  What a cell can do: a run changes the Genesis files only by writes to paths of its write capability, and
  its receipt accounts for each of them; no instruction is executed unless the package and the build
  receipt verify and the bytecode matches it; and a compiled program comes with a receipt that verifies and
  names exactly what the program uses.
\<close>

section \<open>Writes of a run\<close>

type_synonym writes = "(string \<times> bytes) list"

definition one_write :: "cell_env \<Rightarrow> app_info \<Rightarrow> string \<times> bytes \<Rightarrow> genesis \<Rightarrow> genesis" where
  "one_write env info = (\<lambda>(p, data) g. snd (fs_write (ce_genesis env) p data (ap_name info) g))"

definition apply_writes :: "cell_env \<Rightarrow> app_info \<Rightarrow> writes \<Rightarrow> genesis \<Rightarrow> genesis" where
  "apply_writes env info ws g = foldl (\<lambda>g w. one_write env info w g) g ws"

lemma apply_writes_simps [simp]:
  "apply_writes env info [] g = g"
  "apply_writes env info (w # ws) g = apply_writes env info ws (one_write env info w g)"
  "apply_writes env info (ws @ vs) g = apply_writes env info vs (apply_writes env info ws g)"
  by (simp_all add: apply_writes_def)

definition written_objects :: "cell_call list \<Rightarrow> json list" where
  "written_objects calls = List.map_filter (\<lambda>c. map_of (cc_evidence c) ''object_sha256'') calls"

definition write_objects :: "writes \<Rightarrow> json list" where
  "write_objects ws = map (\<lambda>(_, data). JStr (hexdigest data)) ws"

lemma objects_simps [simp]:
  "written_objects [] = []"
  "written_objects (c # cs) = (case map_of (cc_evidence c) ''object_sha256'' of None \<Rightarrow> [] | Some j \<Rightarrow> [j]) @ written_objects cs"
  "write_objects [] = []" "write_objects ((p, data) # ws) = JStr (hexdigest data) # write_objects ws"
  by (simp_all add: written_objects_def write_objects_def List.map_filter_def split: option.split)

definition within_writes :: "app_info \<Rightarrow> writes \<Rightarrow> bool" where
  "within_writes info ws \<longleftrightarrow> fst ` set ws \<subseteq> set (cp_write (ap_capabilities info))"

lemma abind_Inr:
  assumes "abind m f s = (Inr y, s'')"
  obtains x s' where "m s = (Inr x, s')" and "f x s' = (Inr y, s'')"
  using assms by (auto simp: abind_def split: prod.splits sum.splits)

lemma abind_run:
  "m s = (Inl e, s') \<Longrightarrow> abind m f s = (Inl e, s')"
  "m s = (Inr x, s') \<Longrightarrow> abind m f s = f x s'"
  by (simp_all add: abind_def)

lemma alift_eq [simp]: "alift r s = (r', s') \<longleftrightarrow> r' = r \<and> s' = s"
  by (auto simp: alift_def)

lemma record_members:
  assumes "record_entry genv ev r g = (Inr e, g')" and "k \<notin> set [''ledger_format'', ''sequence'', ''event'', ''previous_hash'', ''receipt_hash'', ''signature'']"
  shows "map_of e k = map_of r k"
  using assms by (auto simp: record_entry_def Let_def ledger_payload_def jmerge_def update_conv split: sum.splits exn.splits)

lemma fs_write_members:
  assumes "fs_write genv p data capability g = (Inr e, g')"
  shows "jmember e ''object_sha256'' = Inr (JStr (hexdigest data))"
  using assms unfolding fs_write_def
  by (elim abind_Inr) (auto simp: jmember_def store_object_def Let_def dest!: record_members [of _ _ _ _ _ _ "''object_sha256''"])

definition listed_object :: "jdict \<Rightarrow> json list" where
  "listed_object extra = (case map_of extra ''object_sha256'' of None \<Rightarrow> [] | Some j \<Rightarrow> [j])"

text \<open>The writes of an operation: permitted, the whole change of the state, and, unless it raises, listed.\<close>

definition writes_of :: "cell_env \<Rightarrow> app_info \<Rightarrow> genesis \<Rightarrow> genesis \<Rightarrow> json list option \<Rightarrow> bool" where
  "writes_of env info g g' listed \<longleftrightarrow> (\<exists>ws. within_writes info ws \<and> g' = apply_writes env info ws g \<and>
     (\<forall>objs. listed = Some objs \<longrightarrow> objs = write_objects ws))"

lemma writes_of_none [simp]: "writes_of env info g g (Some [])" "writes_of env info g g None"
  by (auto simp: writes_of_def within_writes_def intro: exI [of _ "[]"])

lemma writes_of_trans:
  assumes "writes_of env info g g1 (Some objs)" and "writes_of env info g1 g2 listed"
  shows "writes_of env info g g2 (map_option ((@) objs) listed)"
proof -
  obtain ws vs where "within_writes info ws" "g1 = apply_writes env info ws g" "objs = write_objects ws"
      "within_writes info vs" "g2 = apply_writes env info vs g1" "\<forall>o2. listed = Some o2 \<longrightarrow> o2 = write_objects vs"
    using assms unfolding writes_of_def by blast
  then show ?thesis unfolding writes_of_def
    by (intro exI [of _ "ws @ vs"]) (auto simp: within_writes_def write_objects_def)
qed

lemma fs_write_writes_of:
  assumes "fs_write (ce_genesis env) p data (ap_name info) g = (res, g')" and "p \<in> set (cp_write (ap_capabilities info))"
  shows "writes_of env info g g' None" and "writes_of env info g g' (Some [JStr (hexdigest data)])"
  using assms by (auto simp: writes_of_def within_writes_def one_write_def intro!: exI [of _ "[(p, data)]"])

definition outcome_objects :: "(jdict \<times> 'a) res \<Rightarrow> json list option" where
  "outcome_objects res = (case res of Inl _ \<Rightarrow> None | Inr (extra, _) \<Rightarrow> Some (listed_object extra))"

lemma cell_write_writes:
  assumes "cell_write env st info registers path raw g = (res, g')"
  shows "writes_of env info g g' (outcome_objects res)"
proof (cases "\<exists>p. path = JStr p \<and> p \<in> set (cp_write (ap_capabilities info))")
  case False
  then have "cell_write env st info registers path raw g =
      (Inr (allowed_item False, [(path, Said ''BogCell write blocked by capability manifest'')], None), g)"
    by (auto simp: cell_write_def permitted_def split: json.splits)
  then show ?thesis using assms by (auto simp: outcome_objects_def listed_object_def allowed_item_def)
next
  case True
  then obtain p where p: "path = JStr p" "p \<in> set (cp_write (ap_capabilities info))" by blast
  have run: "abind (alift (write_content (st_path st) registers raw)) (\<lambda>encoded.
      abind (fs_write_value (ce_genesis env) p encoded (ap_name info)) (\<lambda>entry.
      abind (alift (jmember entry ''object_sha256'')) (\<lambda>obj.
      abind (alift (jmember entry ''after_root_sha256'')) (\<lambda>root.
      alift (Inr (allowed_item True @ [(''object_sha256'', obj), (''state_root_sha256'', root)], [], None)))))) g = (res, g')"
    using assms by (simp add: cell_write_def permitted_def p)
  show ?thesis
  proof (cases "\<exists>rel data. safe_path p = Inr rel \<and> write_content (st_path st) registers raw = Inr (Inr data)")
    case False
    then have "\<exists>e. (res, g') = (Inl e, g)" using run
      by (cases "write_content (st_path st) registers raw"; cases "safe_path p"; cases "projr (write_content (st_path st) registers raw)")
        (auto simp: fs_write_value_def abind_run)
    then show ?thesis by (auto simp: outcome_objects_def)
  next
    case True
    then obtain rel data where given: "safe_path p = Inr rel" "write_content (st_path st) registers raw = Inr (Inr data)" by blast
    obtain r1 g1 where w: "fs_write (ce_genesis env) p data (ap_name info) g = (r1, g1)" by fastforce
    then have w': "fs_write_value (ce_genesis env) p (Inr data) (ap_name info) g = (r1, g1)"
      by (simp add: fs_write_value_def given(1))
    note step = fs_write_writes_of [OF w p(2)]
    show ?thesis
    proof (cases r1)
      case (Inl e)
      then show ?thesis using run given w' step(1) by (auto simp: abind_run outcome_objects_def)
    next
      case entry: (Inr e)
      have obj: "jmember e ''object_sha256'' = Inr (JStr (hexdigest data))"
        using fs_write_members w entry by blast
      show ?thesis
      proof (cases "jmember e ''after_root_sha256''")
        case (Inl x)
        then show ?thesis using run given w' entry obj step(1) by (auto simp: abind_run outcome_objects_def)
      next
        case root: (Inr root)
        then show ?thesis using run given w' entry obj step(2)
          by (auto simp: abind_run outcome_objects_def listed_object_def allowed_item_def)
      qed
    qed
  qed
qed

lemma no_objects:
  "cell_read env st info path = Inr (extra, rest) \<Longrightarrow> listed_object extra = []"
  "cell_getenv info name = (extra, rest) \<Longrightarrow> listed_object extra = []"
  "cell_dependency env st info package = Inr (extra, rest) \<Longrightarrow> listed_object extra = []"
  "listed_object [] = []" "listed_object [(''exit_code'', x)] = []"
  by (auto simp: cell_read_def cell_getenv_def cell_dependency_def listed_object_def allowed_item_def Let_def rbind_Inr_iff
      split: json.splits option.splits if_splits prod.splits bool.splits)

lemma perform_writes:
  assumes "perform env st info items registers g = (res, g')"
  shows "writes_of env info g g' (outcome_objects res)"
proof (cases "first_operation items = JStr ''WRITE'' \<and> length items = 3")
  case True
  then show ?thesis using assms cell_write_writes by (simp add: perform_def)
next
  case False
  then have "g' = g" "\<forall>extra rest. res = Inr (extra, rest) \<longrightarrow> listed_object extra = []"
    using assms by (auto simp: perform_def Let_def no_objects split: if_splits prod.splits sum.splits)
  then show ?thesis by (cases res) (auto simp: outcome_objects_def)
qed

definition call_objects :: "(cell_call \<times> 'a) res \<Rightarrow> json list option" where
  "call_objects res = (case res of Inl _ \<Rightarrow> None | Inr (call, _) \<Rightarrow> Some (written_objects [call]))"

definition progress_objects :: "progress res \<Rightarrow> json list option" where
  "progress_objects res = (case res of Inl _ \<Rightarrow> None | Inr (calls, _) \<Rightarrow> Some (written_objects calls))"

lemma receipt_objects: "written_objects [call_receipt n items extra fs] = listed_object extra"
  by (simp add: call_receipt_def Let_def listed_object_def map_add_def split: option.split)

lemma execute_writes:
  assumes "execute env st info items n registers g = (res, g')"
  shows "writes_of env info g g' (call_objects res)"
proof -
  obtain r1 g1 where p: "perform env st info items registers g = (r1, g1)" by fastforce
  show ?thesis
  proof (cases r1)
    case (Inl e)
    then show ?thesis using assms p perform_writes [OF p] by (auto simp: execute_def abind_run call_objects_def outcome_objects_def)
  next
    case (Inr out)
    obtain extra fs v where out: "out = (extra, fs, v)" by (cases out)
    have "res = Inr (call_receipt n items extra fs, v)" "g' = g1"
      using assms p Inr out by (auto simp: execute_def abind_run)
    then show ?thesis using perform_writes [OF p] Inr out by (simp add: call_objects_def outcome_objects_def receipt_objects del: objects_simps)
  qed
qed

lemma written_objects_Cons: "written_objects (c # cs) = written_objects [c] @ written_objects cs"
  by simp

lemma run_instructions_writes:
  assumes "run_instructions env st app info n registers instructions g = (res, g')"
  shows "writes_of env info g g' (progress_objects res)"
  using assms
proof (induction instructions arbitrary: n registers g res g')
  case (Cons instruction rest)
  show ?case
  proof (cases "as_list instruction")
    case (Inl e)
    then show ?thesis using Cons.prems by (auto simp: progress_objects_def)
  next
    case items: (Inr items)
    obtain r1 g1 where ex: "execute env st info items n registers g = (r1, g1)" by fastforce
    note step = execute_writes [OF ex]
    show ?thesis
    proof (cases r1)
      case (Inl e)
      then show ?thesis using Cons.prems items ex step by (auto simp: abind_run call_objects_def progress_objects_def)
    next
      case (Inr cv)
      obtain call v where cv: "cv = (call, v)" by (cases cv)
      have first: "writes_of env info g g1 (Some (written_objects [call]))" using step Inr cv by (simp add: call_objects_def)
      have first': "writes_of env info g g1 None" using first by (auto simp: writes_of_def)
      note run = Cons.prems [simplified run_instructions.simps items abind_simps] 
      show ?thesis
      proof (cases "cc_failures call = [] \<and> (\<exists>regs. keep_value items v registers = Inr regs) \<and> first_operation items \<noteq> JStr ''EXIT''")
        case False
        then show ?thesis using run ex Inr cv first first'
          by (cases "keep_value items v registers") (auto simp: abind_run progress_objects_def split: if_splits)
      next
        case True
        then obtain regs where regs: "keep_value items v registers = Inr regs" by blast
        obtain r2 g2 where follow: "run_instructions env st app info (n + 1) regs rest g1 = (r2, g2)" by fastforce
        have second: "writes_of env info g1 g2 (progress_objects r2)" by (rule Cons.IH [OF follow])
        have "progress_objects res = map_option ((@) (written_objects [call])) (progress_objects r2)" "g' = g2"
          using run ex Inr cv True regs follow by (cases r2; auto simp: abind_run progress_objects_def split: option.split)+
        then show ?thesis using writes_of_trans [OF first second] by simp
      qed
    qed
  qed
qed (auto simp: progress_objects_def)

section \<open>The root of the state\<close>

lemma current_root_run:
  assumes "gn_current_root g \<noteq> None" and "current_root g = (res, g')"
  shows "g' = g"
  using assms by (auto simp: current_root_def current_manifest_def aread_def abind_def Let_def split: prod.splits sum.splits option.splits)

lemma fs_write_rooted:
  assumes "fs_write genv p data capability g = (res, g')" and "gn_current_root g \<noteq> None"
  shows "gn_current_root g' \<noteq> None"
proof -
  have rec: "gn_current_root (snd (record_entry genv ev r h)) = gn_current_root h" for ev r h
    by (auto simp: record_entry_def Let_def split: sum.splits exn.splits)
  have cur: "snd (current_manifest g) = g" using assms(2) by (auto simp: current_manifest_def Let_def)
  obtain r1 where cm: "current_manifest g = (r1, g)" using cur by (metis prod.collapse)
  show ?thesis
  proof (cases "safe_path p")
    case (Inl e)
    then show ?thesis using assms by (simp add: fs_write_def)
  next
    case safe: (Inr rel)
    show ?thesis
    proof (cases r1)
      case (Inl e)
      then show ?thesis using assms cm safe by (auto simp: fs_write_def abind_run)
    next
      case (Inr files)
      then show ?thesis using assms(1) cm safe rec
        by (auto simp: fs_write_def abind_run store_object_def save_manifest_def Let_def dest!: arg_cong [of _ _ snd])
    qed
  qed
qed

lemma writes_rooted:
  assumes "writes_of env info g g' listed" and "gn_current_root g \<noteq> None"
  shows "gn_current_root g' \<noteq> None"
proof -
  have "gn_current_root (apply_writes env info ws h) \<noteq> None" if "gn_current_root h \<noteq> None" for ws h
    using that
  proof (induction ws arbitrary: h)
    case (Cons w ws)
    obtain p data where w: "w = (p, data)" by fastforce
    have "gn_current_root (one_write env info w h) \<noteq> None"
      using fs_write_rooted [OF prod.collapse [symmetric] Cons.prems] by (simp add: one_write_def w)
    then show ?case using Cons.IH by simp
  qed simp
  then show ?thesis using assms unfolding writes_of_def by blast
qed

section \<open>What is executed\<close>

text \<open>The operands of an instruction that a capability has to name.\<close>

definition within :: "capabilities \<Rightarrow> json list \<Rightarrow> bool" where
  "within caps items \<longleftrightarrow>
     (first_operation items = JStr ''READ'' \<longrightarrow> permitted (cp_read caps) (items ! 1)) \<and>
     (first_operation items = JStr ''WRITE'' \<longrightarrow> permitted (cp_write caps) (items ! 1)) \<and>
     (first_operation items = JStr ''ENV'' \<longrightarrow> permitted (cp_env caps) (items ! 1)) \<and>
     (first_operation items = JStr ''DEPENDENCY'' \<longrightarrow> permitted (cp_dependencies caps) (items ! 1)) \<and>
     first_operation items \<in> set (map JStr [''READ'', ''WRITE'', ''ENV'', ''DEPENDENCY'', ''EXIT''])"

definition call_within :: "capabilities \<Rightarrow> cell_call \<Rightarrow> bool" where
  "call_within caps c \<longleftrightarrow> (\<exists>items. map_of (cc_evidence c) ''instruction'' = Some (JList items) \<and> within caps items)"

lemma cell_write_refuses:
  assumes "cell_write env st info registers path raw g = (Inr (extra, [], v), g')"
  shows "permitted (cp_write (ap_capabilities info)) path"
  using assms by (auto simp: cell_write_def split: json.splits bool.splits)

lemma perform_within:
  assumes "perform env st info items registers g = (Inr (extra, [], v), g')"
  shows "within (ap_capabilities info) items"
  using assms
  by (auto simp: perform_def within_def Let_def cell_read_def cell_getenv_def cell_dependency_def rbind_Inr_iff dest: cell_write_refuses
      split: if_splits json.splits bool.splits option.splits)

lemma call_receipt_fields [simp]:
  "cc_failures (call_receipt n items extra fs) = fs" "cc_sequence (call_receipt n items extra fs) = n"
  "map_of (cc_evidence (call_receipt n items extra fs)) ''instruction'' = Some (JList items)"
  "cc_execution_status (call_receipt n items extra fs) = (if fs = [] then ''completed'' else ''blocked'')"
  "cc_evidence_sha256 (call_receipt n items extra fs) = stable_hash (JObj (cc_evidence (call_receipt n items extra fs)))"
  by (simp_all add: call_receipt_def Let_def)

text \<open>All calls before the last one completed, a completed call was permitted, and only the last one can fail the run.\<close>

definition calls_ok :: "capabilities \<Rightarrow> nat \<Rightarrow> cell_call list \<Rightarrow> bool" where
  "calls_ok caps n calls \<longleftrightarrow> (\<forall>c \<in> set (butlast calls). cc_failures c = []) \<and>
     (\<forall>c \<in> set calls. (cc_failures c = [] \<longrightarrow> call_within caps c) \<and> cc_evidence_sha256 c = stable_hash (JObj (cc_evidence c))) \<and>
     map cc_sequence calls = [n..<n + length calls]"

lemma calls_ok_Cons:
  assumes "calls_ok caps (Suc n) calls" and "cc_sequence c = n" and "cc_failures c = []" and "call_within caps c"
    and "cc_evidence_sha256 c = stable_hash (JObj (cc_evidence c))"
  shows "calls_ok caps n (c # calls)"
  using assms by (auto simp: calls_ok_def upt_conv_Cons Suc_le_eq)

lemma execute_Inr:
  assumes "execute env st info items n registers g = (Inr (call, v), g')"
  obtains extra fs where "perform env st info items registers g = (Inr (extra, fs, v), g')" and "call = call_receipt n items extra fs"
  using assms unfolding execute_def by (auto elim!: abind_Inr)

lemma run_instructions_ok:
  assumes "run_instructions env st app info n registers instructions g = (Inr (calls, regs, failures, code), g')"
  shows "calls_ok (ap_capabilities info) n calls \<and> (failures = [] \<longrightarrow> (\<forall>c \<in> set calls. cc_failures c = []) \<and>
     (case code of None \<Rightarrow> True | Some j \<Rightarrow> is_number j 0))"
  using assms
proof (induction instructions arbitrary: n registers g calls regs failures code g')
  case (Cons instruction rest)
  obtain items call v g1 where i: "as_list instruction = Inr items" "execute env st info items n registers g = (Inr (call, v), g1)"
    and run: "(if cc_failures call \<noteq> [] then alift (Inr ([call], registers, cc_failures call, None))
      else abind (alift (keep_value items v registers)) (\<lambda>registers'.
        if first_operation items = JStr ''EXIT''
        then alift (Inr ([call], registers', exit_failures app (items ! 1), Some (items ! 1)))
        else abind (run_instructions env st app info (n + 1) registers' rest) (\<lambda>(calls, regs, failures, code).
          alift (Inr (call # calls, regs, failures, code))))) g1 = (Inr (calls, regs, failures, code), g')"
    using Cons.prems by (cases "as_list instruction") (auto elim!: abind_Inr)
  obtain extra fs where p: "perform env st info items registers g = (Inr (extra, fs, v), g1)" "call = call_receipt n items extra fs"
    using execute_Inr [OF i(2)] by blast
  show ?case
  proof (cases "fs = []")
    case False
    then show ?thesis using run by (auto simp: p(2) calls_ok_def)
  next
    case True
    then have within: "call_within (ap_capabilities info) call"
      using perform_within p(1) by (auto simp: call_within_def p(2))
    obtain registers' where kept: "keep_value items v registers = Inr registers'"
      using run True by (cases "keep_value items v registers") (auto simp: p(2))
    show ?thesis
    proof (cases "first_operation items = JStr ''EXIT''")
      case exits: True
      then show ?thesis using run True within kept by (auto simp: p(2) calls_ok_def exit_failures_def split: if_splits)
    next
      case False
      then obtain calls' where more: "run_instructions env st app info (Suc n) registers' rest g1 = (Inr (calls', regs, failures, code), g')"
          "calls = call # calls'"
        using run True kept by (auto simp: p(2) elim!: abind_Inr)
      show ?thesis using Cons.IH [OF more(1)] calls_ok_Cons [OF _ _ _ within] True unfolding more(2) by (auto simp: p(2))
    qed
  qed
qed (auto simp: calls_ok_def)

lemma verify_failures_status:
  assumes "verify_package env st seen p = Inr r"
  shows "receipt_failures r = [] \<longleftrightarrow> receipt_status r = ''completed''"
  using assms
  by (subst (asm) verify_package.simps)
    (auto simp: blocked_verify_receipt_def check_package_def Let_def rbind_Inr_iff split: sum.splits option.splits if_splits exn.splits)

section \<open>A run\<close>

lemma process_receipt_run:
  assumes "gn_current_root g \<noteq> None" and "process_receipt_for path app v b calls registers failures code program g = (res, g')"
  shows "g' = g" and "res = Inr r \<Longrightarrow> pp_app r = app \<and> pp_package_verification r = v \<and> pp_build_verification r = b \<and> pp_calls r = calls \<and>
    pp_failures r = failures \<and> pp_exit_code r = code \<and> pp_proof_sha256 r = stable_hash (JObj (pp_proof r)) \<and>
    pp_proof r = process_proof app v program calls (pp_final_root r) code"
proof -
  obtain r1 where root: "current_root g = (r1, g)" using current_root_run [OF assms(1)] by (metis prod.collapse)
  show "g' = g" using assms(2) root
    by (cases r1; cases "sorted_registers registers") (auto simp: process_receipt_for_def abind_run Let_def)
  show "res = Inr r \<Longrightarrow> pp_app r = app \<and> pp_package_verification r = v \<and> pp_build_verification r = b \<and> pp_calls r = calls \<and>
    pp_failures r = failures \<and> pp_exit_code r = code \<and> pp_proof_sha256 r = stable_hash (JObj (pp_proof r)) \<and>
    pp_proof r = process_proof app v program calls (pp_final_root r) code"
    using assms(2) root
    by (cases r1; cases "sorted_registers registers") (auto simp: process_receipt_for_def abind_run Let_def)
qed

text \<open>What has been checked before the first instruction, and what the receipt says of it.\<close>

definition cell_checked :: "cell_env \<Rightarrow> store \<Rightarrow> app_info \<Rightarrow> string \<Rightarrow> process_receipt \<Rightarrow> bool" where
  "cell_checked env st info name r \<longleftrightarrow> (\<exists>v check data program.
     verify_installed_package (ce_store env) st (ap_package info) = Inr v \<and> receipt_status v = ''completed'' \<and>
     pp_package_verification r = Some v \<and> open_file env st info name = Some data \<and>
     pp_build_verification r = Some check \<and> bk_signature_verified check \<and> bk_bytecode_sha256 check = JStr (hexdigest data) \<and>
     load_json env st info name = Inr (Inr (JObj program)) \<and>
     jget program ''format'' = JStr PROGRAM_FORMAT \<and>
     validate_schema (ce_program_schema env) (JObj program) ''bogcell-program.schema.json'' = Inr ())"

lemma check_build_passes:
  assumes "check_build env st info name = Inr (build, [])"
  obtains check data where "build = Some check" and "open_file env st info name = Some data" and "bk_signature_verified check"
    and "bk_bytecode_sha256 check = JStr (hexdigest data)"
proof -
  obtain loaded where l: "load_json env st info (build_receipt_name info) = Inr loaded"
    using assms by (auto simp: check_build_def Let_def rbind_Inr_iff)
  obtain j where j: "loaded = Inr j" using assms l by (cases loaded) (simp_all add: check_build_def)
  obtain rcpt check where c: "as_dict j = Inr rcpt"
      "verify_build_receipt (se_ed (ce_store env)) rcpt (se_trusted_keys (ce_store env)) = Inr check"
    using assms l j by (auto simp: check_build_def Let_def rbind_Inr_iff)
  have fs: "build = Some check" "bk_failures check = []" "\<exists>data. open_file env st info name = Some data \<and> jget rcpt ''bytecode_sha256'' = JStr (hexdigest data)"
    using assms l j c by (auto simp: check_build_def split: option.splits if_splits)
  have "bk_signature_verified check" "bk_bytecode_sha256 check = jget rcpt ''bytecode_sha256''"
    using c(2) fs(2) by (auto simp: verify_build_receipt_def rbind_Inr_iff split: if_splits)
  then show thesis using fs that by auto
qed

lemma check_program_passes:
  "check_program env info name program = [] \<longleftrightarrow> jget program ''format'' = JStr PROGRAM_FORMAT \<and>
     validate_schema (ce_program_schema env) (JObj program) ''bogcell-program.schema.json'' = Inr ()"
  by (auto simp: check_program_def split: sum.splits)

definition receipt_objects_of :: "process_receipt res \<Rightarrow> json list option" where
  "receipt_objects_of res = (case res of Inl _ \<Rightarrow> None | Inr r \<Rightarrow> Some (written_objects (pp_calls r)))"

text \<open>A run that ends before the first instruction.\<close>

definition refused :: "genesis \<Rightarrow> process_receipt res \<Rightarrow> genesis \<Rightarrow> bool" where
  "refused g res g' \<longleftrightarrow> g' = g \<and> (\<forall>r. res = Inr r \<longrightarrow> pp_calls r = [] \<and> pp_failures r \<noteq> [])"

lemma refused_receipt:
  assumes "gn_current_root g \<noteq> None" and "process_receipt_for path app v b [] [] failures None program g = (res, g')" and "failures \<noteq> []"
  shows "refused g res g'"
  using process_receipt_run [OF assms(1,2)] assms(3) by (auto simp: refused_def)

lemma run_program_prechecked:
  assumes root: "gn_current_root g \<noteq> None" and run: "run_program env st app info name g = (res, g')"
  shows "refused g res g' \<or> (\<exists>v build fs program. verify_installed_package (ce_store env) st (ap_package info) = Inr v \<and>
     check_build env st info name = Inr (build, fs) \<and>
     load_json env st info name = Inr (Inr (JObj program)))"
proof -
  have stuck: "refused g (Inl e) g" for e by (simp add: refused_def)
  show ?thesis
  proof (cases "verify_installed_package (ce_store env) st (ap_package info)")
    case v: (Inr v)
    show ?thesis
    proof (cases "check_build env st info name")
      case b: (Inr bf)
      show ?thesis
      proof (cases "load_json env st info name")
        case l: (Inr loaded)
        show ?thesis
        proof (cases loaded)
          case (Inl e)
          obtain build fs where "bf = (build, fs)" by (cases bf)
          then have "process_receipt_for (st_path st) app (Some v) build [] []
              (store_failures v @ fs @ [(install_file info name, Said_Of ''invalid BogCell program: '' e)]) None None g = (res, g')"
            using run v b l Inl by (simp add: run_program_def)
          from refused_receipt [OF root this] show ?thesis by simp
        next
          case (Inr j)
          then show ?thesis using run stuck v b l by (cases bf; cases j) (auto simp: run_program_def as_dict_def)
        qed
      qed (use run stuck v b in \<open>simp add: run_program_def split: prod.splits\<close>)
    qed (use run stuck v in \<open>simp add: run_program_def\<close>)
  qed (use run stuck in \<open>simp add: run_program_def\<close>)
qed

text \<open>A run that is not refused executes the instructions and then writes the receipt.\<close>

definition executed :: "cell_env \<Rightarrow> store \<Rightarrow> string \<Rightarrow> app_info \<Rightarrow> string \<Rightarrow> genesis \<Rightarrow> process_receipt res \<Rightarrow> genesis \<Rightarrow> bool" where
  "executed env st app info name g res g' \<longleftrightarrow> (\<exists>program instructions v build r1 g1.
     verify_installed_package (ce_store env) st (ap_package info) = Inr v \<and> receipt_failures v = [] \<and>
     check_build env st info name = Inr (build, []) \<and>
     load_json env st info name = Inr (Inr (JObj program)) \<and> check_program env info name program = [] \<and>
     run_instructions env st app info 1 [] instructions g = (r1, g1) \<and>
     (case r1 of Inl e \<Rightarrow> res = Inl e \<and> g' = g1
      | Inr (calls, registers, failures, code) \<Rightarrow>
          process_receipt_for (st_path st) app (Some v) build calls registers failures code (Some program) g1 = (res, g')))"

lemma run_program_cases:
  assumes root: "gn_current_root g \<noteq> None" and run: "run_program env st app info name g = (res, g')" and "\<not> refused g res g'"
  shows "executed env st app info name g res g'"
proof -
  obtain v build fs program where pre: "verify_installed_package (ce_store env) st (ap_package info) = Inr v"
      "check_build env st info name = Inr (build, fs)"
      "load_json env st info name = Inr (Inr (JObj program))"
    using run_program_prechecked [OF root run] assms(3) by blast
  let ?failures = "store_failures v @ fs @ check_program env info name program"
  have none: "?failures = []"
  proof (rule ccontr)
    assume "?failures \<noteq> []"
    then have "refused g res g'" using run pre by (intro refused_receipt [OF root]) (auto simp: run_program_def as_dict_def)
    then show False using assms(3) by blast
  qed
  obtain instructions where listed: "as_list (jget_or program ''instructions'' (JList [])) = Inr instructions"
    using run pre none assms(3) by (cases "as_list (jget_or program ''instructions'' (JList []))")
      (auto simp: run_program_def as_dict_def refused_def)
  obtain r1 g1 where r1: "run_instructions env st app info 1 [] instructions g = (r1, g1)" by fastforce
  have "case r1 of Inl e \<Rightarrow> res = Inl e \<and> g' = g1 | Inr (calls, registers, failures, code) \<Rightarrow>
      process_receipt_for (st_path st) app (Some v) build calls registers failures code (Some program) g1 = (res, g')"
    using run pre none listed r1 by (cases r1) (auto simp: run_program_def as_dict_def abind_run)
  then show ?thesis using pre none r1 unfolding executed_def store_failures_def by auto
qed

lemma executed_checked:
  assumes "executed env st app info name g (Inr r) g'" and "gn_current_root g \<noteq> None"
  shows "cell_checked env st info name r \<and> calls_ok (ap_capabilities info) 1 (pp_calls r) \<and>
    (pp_failures r = [] \<longrightarrow> (\<forall>c \<in> set (pp_calls r). cc_failures c = []) \<and>
       (case pp_exit_code r of None \<Rightarrow> True | Some j \<Rightarrow> is_number j 0))"
proof -
  obtain program instructions v build r1 g1 where e:
      "verify_installed_package (ce_store env) st (ap_package info) = Inr v" "receipt_failures v = []"
      "check_build env st info name = Inr (build, [])" "load_json env st info name = Inr (Inr (JObj program))"
      "check_program env info name program = []"
      "run_instructions env st app info 1 [] instructions g = (r1, g1)"
    and r1: "case r1 of Inl e \<Rightarrow> Inr r = Inl e \<and> g' = g1 | Inr (calls, registers, failures, code) \<Rightarrow>
      process_receipt_for (st_path st) app (Some v) build calls registers failures code (Some program) g1 = (Inr r, g')"
    using assms(1) unfolding executed_def by blast
  obtain calls registers failures code where p: "r1 = Inr (calls, registers, failures, code)"
    using r1 by (cases r1) auto
  have receipt: "process_receipt_for (st_path st) app (Some v) build calls registers failures code (Some program) g1 = (Inr r, g')"
    using r1 p by simp
  have "gn_current_root g1 \<noteq> None" using run_instructions_writes [OF e(6)] assms(2) by (rule writes_rooted)
  note r = process_receipt_run(2) [OF this receipt refl]
  have "receipt_status v = ''completed''"
    using e(1,2) verify_failures_status unfolding verify_installed_package_def by blast
  moreover obtain check data where "build = Some check" "open_file env st info name = Some data" "bk_signature_verified check"
      "bk_bytecode_sha256 check = JStr (hexdigest data)"
    using check_build_passes [OF e(3)] by blast
  ultimately have "cell_checked env st info name r"
    using e(1,4,5) r unfolding cell_checked_def check_program_passes by blast
  then show ?thesis using run_instructions_ok [OF e(6) [unfolded p]] r by simp
qed

lemma executed_writes:
  assumes "executed env st app info name g res g'" and "gn_current_root g \<noteq> None"
  shows "writes_of env info g g' (receipt_objects_of res)"
proof -
  obtain program instructions v build r1 g1 where e: "run_instructions env st app info 1 [] instructions g = (r1, g1)"
      "case r1 of Inl e \<Rightarrow> res = Inl e \<and> g' = g1 | Inr (calls, registers, failures, code) \<Rightarrow>
         process_receipt_for (st_path st) app (Some v) build calls registers failures code (Some program) g1 = (res, g')"
    using assms(1) unfolding executed_def by blast
  note w = run_instructions_writes [OF e(1)]
  have root: "gn_current_root g1 \<noteq> None" using w assms(2) by (rule writes_rooted)
  show ?thesis
  proof (cases r1)
    case (Inl x)
    then show ?thesis using w e(2) by (simp add: progress_objects_def receipt_objects_of_def)
  next
    case (Inr p)
    obtain calls registers failures code where p: "p = (calls, registers, failures, code)" by (cases p)
    have run: "process_receipt_for (st_path st) app (Some v) build calls registers failures code (Some program) g1 = (res, g')"
      using e(2) Inr p by simp
    note r = process_receipt_run [OF root run]
    have "writes_of env info g g1 (Some (written_objects calls))" using w Inr p by (simp add: progress_objects_def)
    moreover from this have "writes_of env info g g1 None" by (auto simp: writes_of_def)
    ultimately show ?thesis using r by (cases res) (auto simp: receipt_objects_of_def)
  qed
qed

lemma run_cell_cases:
  assumes root: "gn_current_root g \<noteq> None" and run: "run_cell env st apps app g = (res, g')" and "\<not> refused g res g'"
  obtains info name where "map_of apps app = Some info" and "ap_cell_program info = Some name"
    and "executed env st app info name g res g'"
proof -
  let ?missing = "process_receipt_for (st_path st) app None None [] [] [(JStr app, Said ''installed app is not a BogCell app'')] None None"
  have "refused g res g'" if "?missing g = (res, g')" by (rule refused_receipt [OF root that]) simp
  then obtain info name where "map_of apps app = Some info" "ap_cell_program info = Some name"
      "run_program env st app info name g = (res, g')"
    using run assms(3) by (auto simp: run_cell_def Let_def split: option.splits if_splits)
  then show thesis using that run_program_cases [OF root _ assms(3)] by blast
qed

text \<open>A run of an app is a sequence of writes that its write capability names, and the receipt lists their objects.\<close>

lemma run_cell_writes:
  assumes "gn_current_root g \<noteq> None" and "map_of apps app = Some info" and "run_cell env st apps app g = (res, g')"
  shows "writes_of env info g g' (receipt_objects_of res)"
proof (cases "refused g res g'")
  case True
  then show ?thesis by (cases res) (auto simp: refused_def receipt_objects_of_def)
next
  case False
  then show ?thesis using run_cell_cases [OF assms(1,3)] executed_writes assms(1,2) by (metis option.inject)
qed

section \<open>The files after a run\<close>

fun clear_writes :: "cell_env \<Rightarrow> app_info \<Rightarrow> writes \<Rightarrow> genesis \<Rightarrow> bool" where
  "clear_writes env info [] g \<longleftrightarrow> True"
| "clear_writes env info ((p, data) # ws) g \<longleftrightarrow>
    (case safe_path p of Inl _ \<Rightarrow> True | Inr rel \<Rightarrow> write_clear g rel data) \<and> clear_writes env info ws (one_write env info (p, data) g)"

definition view_write :: "string \<times> bytes \<Rightarrow> (string \<rightharpoonup> bytes) \<Rightarrow> (string \<rightharpoonup> bytes)" where
  "view_write = (\<lambda>(p, data) v. case safe_path p of Inl _ \<Rightarrow> v | Inr rel \<Rightarrow> v(rel \<mapsto> data))"

lemma record_files: "same_files g (snd (record_entry genv ev r g))"
  by (auto simp: record_entry_def Let_def same_files_def split: sum.splits exn.splits)

lemma one_write_view:
  assumes "gfs_ok g" and "case safe_path p of Inl _ \<Rightarrow> True | Inr rel \<Rightarrow> write_clear g rel data"
  shows "gfs_ok (one_write env info (p, data) g) \<and> view (one_write env info (p, data) g) = view_write (p, data) (view g)"
proof (cases "safe_path p")
  case (Inl e)
  then show ?thesis using assms(1) by (simp add: one_write_def fs_write_def view_write_def) (simp add: alift_def)
next
  case (Inr rel)
  then have clear: "write_clear g rel data" using assms(2) by simp
  have "same_files (written g rel data) (one_write env info (p, data) g)"
    using record_files by (simp add: one_write_def fs_write_eq [OF assms(1) Inr])
  then show ?thesis using written_ok [OF assms(1) clear] same_files_keep Inr by (simp add: view_write_def)
qed

lemma apply_writes_view:
  assumes "gfs_ok g" and "clear_writes env info ws g"
  shows "view (apply_writes env info ws g) = foldl (\<lambda>v w. view_write w v) (view g) ws"
  using assms
proof (induction ws arbitrary: g)
  case (Cons w ws)
  obtain p data where w: "w = (p, data)" by fastforce
  have "gfs_ok (one_write env info w g) \<and> view (one_write env info w g) = view_write w (view g)"
    using one_write_view Cons.prems unfolding w by simp
  then show ?case using Cons.IH [of "one_write env info w g"] Cons.prems by (simp add: w)
qed simp

lemma foldl_view_other:
  assumes "\<And>w. w \<in> set ws \<Longrightarrow> safe_path (fst w) \<noteq> Inr p"
  shows "foldl (\<lambda>v w. view_write w v) v ws p = v p"
  using assms
proof (induction ws arbitrary: v)
  case (Cons w ws)
  have "view_write w v p = v p" using Cons.prems [of w] by (auto simp: view_write_def split: prod.splits sum.splits)
  then show ?case using Cons by simp
qed simp

end
