(* ===== verification/BogCell_Compile.thy ===== *)
theory BogCell_Compile
  imports BogCell_Correct
begin

text \<open>
  What the cell compiler produces: a program file that reads back, whose instructions all have one of the
  five forms and end with an exit, and a signed receipt that verifies, carries the digest of the program
  file and lists exactly the names that the program uses. Such a program passes the checks of a run.
\<close>

section \<open>Objects in the order of their keys\<close>

fun str_keys :: "json \<Rightarrow> bool" where
  "str_keys (JList js) = (\<forall>j \<in> set js. str_keys j)"
| "str_keys (JObj kvs) = (\<forall>(k, v) \<in> set kvs. str_keys v)"
| "str_keys (JIntObj kvs) = False"
| "str_keys j = True"

lemma sort_key_sorted: "sort_key fst (sort_key fst kvs) = sort_key fst kvs"
  by (rule properties_for_sort_key) simp_all

lemma dumps_canon: "str_keys j \<Longrightarrow> dumps (canon j) = dumps j"
proof (induction j)
  case (JList js)
  then have "map (\<lambda>x. dumps (canon x)) js = map dumps js" by simp
  then show ?case by (simp only: canon.simps dumps.simps map_map comp_def)
next
  case (JObj kvs)
  have vals: "dumps (canon v) = dumps v" if "(k, v) \<in> set kvs" for k v
    using JObj that by fastforce
  have sorted: "sort_key fst (map (\<lambda>kv. (fst kv, canon (snd kv))) (sort_key fst kvs)) = map (\<lambda>kv. (fst kv, canon (snd kv))) (sort_key fst kvs)"
    by (subst sort_key_map [where f' = fst]) (simp_all add: sort_key_sorted)
  have "map (\<lambda>kv. (fst kv, dumps (canon (snd kv)))) (sort_key fst kvs) = map (\<lambda>kv. (fst kv, dumps (snd kv))) (sort_key fst kvs)"
    using vals by (auto intro!: map_cong)
  then show ?case unfolding canon_JObj dumps_JObj case_prod_unfold sorted map_map comp_def fst_conv snd_conv by (simp only:)
qed simp_all

lemma canon_delete:
  assumes "canon (JObj kvs) = JObj kvs'"
  shows "JObj (AList.delete k kvs') = canon (JObj (AList.delete k kvs))"
proof -
  have "AList.delete k (map (\<lambda>(k, v). (k, canon v)) xs) = map (\<lambda>(k, v). (k, canon v)) (AList.delete k xs)" for xs
    by (induction xs) auto
  moreover have "AList.delete k (sort_key fst kvs) = sort_key fst (AList.delete k kvs)"
    by (simp add: AList.delete_eq filter_sort case_prod_unfold)
  moreover have "kvs' = map (\<lambda>(k, v). (k, canon v)) (sort_key fst kvs)" using assms unfolding canon_JObj by simp
  ultimately show ?thesis unfolding canon_JObj by simp
qed

section \<open>Compiled programs\<close>

fun operand :: "string \<Rightarrow> json \<Rightarrow> string list" where
  "operand operation (JList (JStr x # JStr p # _)) = (if x = operation then [p] else [])"
| "operand operation _ = []"

definition names_used :: "string \<Rightarrow> json list \<Rightarrow> string list" where
  "names_used operation instructions = concat (map (operand operation) instructions)"

lemma names_used_append [simp]: "names_used operation (xs @ ys) = names_used operation xs @ names_used operation ys"
  by (simp add: names_used_def)

inductive compiled_instr :: "json \<Rightarrow> bool" where
  reads: "compiled_instr (instr_json ''READ'' [JStr p, JStr r])"
| gets: "compiled_instr (instr_json ''ENV'' [JStr p, JStr r])"
| needs: "compiled_instr (instr_json ''DEPENDENCY'' [JStr p, JStr r])"
| puts: "compiled_instr (instr_json ''WRITE'' [JStr p, JStr s])"
| stores: "compiled_instr (instr_json ''WRITE'' [JStr p, JObj [(''register'', JStr r)]])"
| exits: "compiled_instr (instr_json ''EXIT'' [JInt n])"

definition compiled :: "json list \<times> capabilities \<Rightarrow> bool" where
  "compiled = (\<lambda>(instructions, caps). list_all compiled_instr instructions \<and>
     cp_read caps = names_used ''READ'' instructions \<and> cp_write caps = names_used ''WRITE'' instructions \<and>
     cp_env caps = names_used ''ENV'' instructions \<and> cp_dependencies caps = names_used ''DEPENDENCY'' instructions)"

lemma written_value_instr: "compiled_instr (instr_json ''WRITE'' [JStr p, written_value parts])"
  by (simp add: written_value_def Let_def compiled_instr.intros)

lemma names_used_one [simp]:
  "names_used operation [instr_json x (JStr p # rest)] = (if x = operation then [p] else [])"
  "names_used operation [instr_json x (JInt n # rest)] = []"
  by (simp_all add: names_used_def instr_json_def)

lemma compile_parts_compiled:
  assumes "compile_parts n raw parts st = Inr st'" and "compiled st"
  shows "compiled st'"
  using assms
  by (auto simp: compile_parts_def compiled_def Let_def rbind_Inr_iff compiled_instr.intros written_value_instr
      split: prod.splits if_splits)

lemma compile_lines_compiled:
  assumes "compile_lines n ls st = Inr st'" and "compiled st"
  shows "compiled st'"
  using assms
proof (induction ls arbitrary: n st)
  case (Cons raw rest)
  obtain st1 where s: "compile_line n raw st = Inr st1" "compile_lines (n + 1) rest st1 = Inr st'"
    using Cons.prems(1) by (auto simp: rbind_Inr_iff)
  have "compiled st1" using s(1) Cons.prems(2) compile_parts_compiled by (auto simp: compile_line_def Let_def split: if_splits)
  then show ?case using Cons.IH s(2) by blast
qed simp

lemma closed_off_compiled:
  assumes "compiled (instructions, caps)"
  shows "compiled (closed_off instructions, caps)" and "closed_off instructions \<noteq> []"
    and "operation_of (last (closed_off instructions)) = ''EXIT''"
  using assms by (auto simp: closed_off_def compiled_def exits) (simp_all add: operation_of_def instr_json_def)

lemma compiled_instr_json:
  assumes "compiled_instr j"
  shows "json_ok j \<and> str_keys j \<and> canon j = j"
  using assms by (induction rule: compiled_instr.induct) (simp_all add: instr_json_def)

lemma program_json_reads:
  assumes "list_all compiled_instr instructions"
  shows "json_ok (program_json instructions)" and "canon (program_json instructions) = program_json instructions"
proof -
  have each: "json_ok j \<and> canon j = j" if "j \<in> set instructions" for j
    using assms compiled_instr_json that by (auto simp: list_all_iff)
  then show "json_ok (program_json instructions)" by (simp add: program_json_def)
  have "map canon instructions = instructions" using each by (simp add: map_idI)
  then show "canon (program_json instructions) = program_json instructions" by (simp add: program_json_def)
qed

section \<open>The files that the compiler writes\<close>

lemma names_json_ok [simp]: "json_ok (names_json names)" "str_keys (names_json names)" "canon (names_json names) = names_json names"
  by (simp_all add: names_json_def)

lemma capabilities_json_ok [simp]: "json_ok (capabilities_json caps)" "str_keys (capabilities_json caps)"
  by (simp_all add: capabilities_json_def)

lemma sign_object_ok:
  assumes "sign_object ed obj key = Inr sg"
  shows "json_ok sg \<and> str_keys sg"
  using assms by (auto simp: sign_object_def rbind_Inr_iff)

lemma build_members_ok:
  "json_ok (JObj (build_members impl source pf caps))" "str_keys (JObj (build_members impl source pf caps))"
  by (simp_all add: build_members_def)

text \<open>The parts of a compilation.\<close>

lemma compile_source_parts:
  assumes "compile_source env source key = Inr (pf, rf, rcpt)"
  obtains instructions caps sg where "compiled (instructions, caps)" and "instructions \<noteq> []" and "operation_of (last instructions) = ''EXIT''"
    and "pf = json_file (program_json instructions)"
    and "rcpt = build_members (ce_implementation env) source pf caps @ [(''compiler_signature'', sg)]" and "rf = json_file (JObj rcpt)"
    and "sign_object (se_ed (ce_store env)) (JObj (build_members (ce_implementation env) source pf caps)) key = Inr sg"
    and "validate_schema (ce_program_schema env) (program_json instructions) ''bogcell-program.schema.json'' = Inr ()"
proof -
  obtain text0 instructions caps sg where c: "compile_lines 1 (splitlines text0) ([], no_capabilities) = Inr (instructions, caps)"
      "pf = json_file (program_json (closed_off instructions))"
      "rcpt = build_members (ce_implementation env) source pf caps @ [(''compiler_signature'', sg)]" "rf = json_file (JObj rcpt)"
      "sign_object (se_ed (ce_store env)) (JObj (build_members (ce_implementation env) source pf caps)) key = Inr sg"
      "validate_schema (ce_program_schema env) (program_json (closed_off instructions)) ''bogcell-program.schema.json'' = Inr ()"
    using assms by (auto simp: compile_source_def Let_def rbind_Inr_iff)
  have "compiled ([], no_capabilities)" by (simp add: compiled_def no_capabilities_def names_used_def)
  then have "compiled (instructions, caps)" using compile_lines_compiled c(1) by blast
  note closed_off_compiled [OF this]
  then show thesis using that c(2-) by blast
qed

lemma build_receipt_verifies:
  assumes sg: "sign_object ed (JObj body) key = Inr sg" and ed: "ed25519_correct ed" "trusts_own ed key trusted"
    and ok: "json_ok (JObj (body @ [(''compiler_signature'', sg)]))" "str_keys (JObj (body @ [(''compiler_signature'', sg)]))"
    and canon: "canon (JObj (body @ [(''compiler_signature'', sg)])) = JObj m"
  shows "\<exists>check. verify_build_receipt ed m trusted = Inr check \<and> bk_signature_verified check \<and> bk_failures check = [] \<and>
    bk_bytecode_sha256 check = canon (jget body ''bytecode_sha256'')"
proof -
  let ?r = "body @ [(''compiler_signature'', sg)]"
  have fresh: "''compiler_signature'' \<notin> fst ` set body" using ok(1) by auto
  have dist: "distinct (map fst ?r)" using ok(1) by simp
  obtain m' where m': "canon (JObj ?r) = JObj m'" "\<And>k. map_of m' k = map_option canon (map_of ?r k)"
    using canon_object [OF dist] by metis
  have m: "map_of m k = map_option canon (map_of ?r k)" for k using m' canon by simp
  have "AList.delete ''compiler_signature'' ?r = body"
    using fresh by (force simp: AList.delete_eq filter_id_conv)
  then have del: "JObj (AList.delete ''compiler_signature'' m) = canon (JObj body)" using canon_delete [OF canon] by metis
  have "str_keys (JObj body)" using ok(2) by auto
  then have bytes: "canonical_bytes (JObj (AList.delete ''compiler_signature'' m)) = canonical_bytes (JObj body)"
    unfolding del canonical_bytes_def by (simp only: dumps_canon)
  obtain k where v: "verify_object_signature ed (JObj body) sg trusted = Inr \<lparr>sc_verified = True, sc_key_id = k, sc_reason = JNull\<rparr>"
    using sign_then_verify [OF ed] sg by (metis sum.inject(2))
  obtain d where d: "sg = JObj d" "\<And>k. map_option canon (map_of d k) = map_of d k" "distinct (map fst d)"
    using sg by (auto simp: sign_object_def rbind_Inr_iff)
  obtain d' where d': "canon (JObj d) = JObj d'" "\<And>k. map_of d' k = map_option canon (map_of d k)"
    using canon_object [OF d(3)] by metis
  have member: "jget_or m ''compiler_signature'' (JObj []) = JObj d'"
    using m [of "''compiler_signature''"] fresh d'(1) d(1)
    by (simp add: jget_or_def map_of_eq_None_iff [THEN iffD2] map_add_def del: canon.simps)
  have same: "map_of d' k = map_of d k" for k using d'(2) d(2) by simp
  note v' = v [unfolded d(1), folded verify_object_signature_same [OF bytes same]]
  have "jget m ''bytecode_sha256'' = canon (jget body ''bytecode_sha256'')"
    using m [of "''bytecode_sha256''"] by (simp add: jget_def map_add_def split: option.split)
  then show ?thesis unfolding verify_build_receipt_def member v' by simp
qed

definition keys_trusted :: "cell_env \<Rightarrow> string option \<Rightarrow> bool" where
  "keys_trusted env key \<longleftrightarrow> ed25519_correct (se_ed (ce_store env)) \<and> trusts_own (se_ed (ce_store env)) key (se_trusted_keys (ce_store env))"

lemma compile_files:
  assumes "compile_source env source key = Inr (pf, rf, rcpt)" and "keys_trusted env key"
  obtains instructions caps m check where "compiled (instructions, caps)" and "instructions \<noteq> []"
    and "operation_of (last instructions) = ''EXIT''" and "jget rcpt ''capabilities'' = capabilities_json caps"
    and "rbind (utf8_decode pf) loads = Inr (program_json instructions)"
    and "rbind (utf8_decode rf) loads = Inr (JObj m)" and "jget m ''bytecode_sha256'' = JStr (hexdigest pf)"
    and "verify_build_receipt (se_ed (ce_store env)) m (se_trusted_keys (ce_store env)) = Inr check"
    and "bk_signature_verified check" and "bk_failures check = []" and "bk_bytecode_sha256 check = JStr (hexdigest pf)"
    and "validate_schema (ce_program_schema env) (program_json instructions) ''bogcell-program.schema.json'' = Inr ()"
proof -
  obtain instructions caps sg where c: "compiled (instructions, caps)" "instructions \<noteq> []" "operation_of (last instructions) = ''EXIT''"
      "pf = json_file (program_json instructions)"
      "rcpt = build_members (ce_implementation env) source pf caps @ [(''compiler_signature'', sg)]" "rf = json_file (JObj rcpt)"
      "sign_object (se_ed (ce_store env)) (JObj (build_members (ce_implementation env) source pf caps)) key = Inr sg"
      "validate_schema (ce_program_schema env) (program_json instructions) ''bogcell-program.schema.json'' = Inr ()"
    by (rule compile_source_parts [OF assms(1)])
  let ?body = "build_members (ce_implementation env) source pf caps"
  have sg: "json_ok sg" "str_keys sg" using sign_object_ok [OF c(7)] by blast+
  have ok: "json_ok (JObj rcpt)" "str_keys (JObj rcpt)"
    using build_members_ok [of "ce_implementation env" source pf caps] sg by (simp_all add: c(5) build_members_def)
  have "list_all compiled_instr instructions" using c(1) by (simp add: compiled_def)
  note pj = program_json_reads [OF this]
  have read_program: "rbind (utf8_decode pf) loads = Inr (program_json instructions)"
    using json_file_reads [OF pj(1)] pj(2) c(4) by simp
  obtain m where m: "canon (JObj rcpt) = JObj m" by simp
  have "rbind (utf8_decode rf) loads = Inr (JObj m)" using json_file_reads [OF ok(1)] unfolding c(6) m .
  moreover obtain check where check: "verify_build_receipt (se_ed (ce_store env)) m (se_trusted_keys (ce_store env)) = Inr check"
      "bk_signature_verified check" "bk_failures check = []" "bk_bytecode_sha256 check = canon (jget ?body ''bytecode_sha256'')"
    using build_receipt_verifies [OF c(7) _ _ ok [unfolded c(5)] m [unfolded c(5)]] assms(2) unfolding keys_trusted_def by blast
  have "jget ?body ''bytecode_sha256'' = JStr (hexdigest pf)" by (simp add: jget_def build_members_def)
  then have bytecode: "bk_bytecode_sha256 check = JStr (hexdigest pf)" using check(4) by simp
  moreover have "jget m ''bytecode_sha256'' = JStr (hexdigest pf)"
    using check(1) bytecode by (auto simp: verify_build_receipt_def rbind_Inr_iff)
  moreover have "jget rcpt ''capabilities'' = capabilities_json caps" by (simp add: c(5) jget_def build_members_def)
  ultimately show thesis using that c(1-3,8) read_program check(1-3) by blast
qed

section \<open>Running a compiled program\<close>

lemma load_json_file:
  assumes "open_file env st info name = Some data" and "rbind (utf8_decode data) loads = Inr j"
  shows "load_json env st info name = Inr (Inr j)"
  using assms by (auto simp: load_json_def rbind_Inr_iff)

text \<open>With its own receipt where the machine looks for it, a compiled program passes every check on the build.\<close>

lemma compiled_passes:
  assumes "compile_source env source key = Inr (pf, rf, rcpt)" and "keys_trusted env key"
    and "open_file env st info name = Some pf" and "open_file env st info (build_receipt_name info) = Some rf"
  obtains instructions caps check where "compiled (instructions, caps)" and "instructions \<noteq> []" and "jget rcpt ''capabilities'' = capabilities_json caps"
    and "check_build env st info name = Inr (Some check, [])" and "load_json env st info name = Inr (Inr (program_json instructions))"
    and "\<And>members. program_json instructions = JObj members \<Longrightarrow> check_program env info name members = [] \<and>
       jget_or members ''instructions'' (JList []) = JList instructions"
proof -
  obtain instructions caps m check where c: "compiled (instructions, caps)" "instructions \<noteq> []" "jget rcpt ''capabilities'' = capabilities_json caps"
      "rbind (utf8_decode pf) loads = Inr (program_json instructions)" "rbind (utf8_decode rf) loads = Inr (JObj m)"
      "jget m ''bytecode_sha256'' = JStr (hexdigest pf)"
      "verify_build_receipt (se_ed (ce_store env)) m (se_trusted_keys (ce_store env)) = Inr check" "bk_failures check = []"
      "validate_schema (ce_program_schema env) (program_json instructions) ''bogcell-program.schema.json'' = Inr ()"
    by (rule compile_files [OF assms(1,2)])
  have "check_build env st info name = Inr (Some check, [])"
    using load_json_file [OF assms(4) c(5)] c(6-8) assms(3) by (simp add: check_build_def as_dict_def)
  moreover have "check_program env info name members = [] \<and> jget_or members ''instructions'' (JList []) = JList instructions"
    if "program_json instructions = JObj members" for members
    using that c(9) by (auto simp: check_program_passes program_json_def jget_def jget_or_def)
  ultimately show thesis using that c(1-3) load_json_file [OF assms(3) c(4)] by blast
qed

lemma names_json_set: "names_json a = names_json b \<Longrightarrow> set a = set b"
  unfolding names_json_def by (simp add: inj_map_eq_map inj_on_def) (metis set_remdups set_sort)

definition same_names :: "capabilities \<Rightarrow> capabilities \<Rightarrow> bool" where
  "same_names a b \<longleftrightarrow> set (cp_read a) = set (cp_read b) \<and> set (cp_write a) = set (cp_write b) \<and>
     set (cp_env a) = set (cp_env b) \<and> set (cp_dependencies a) = set (cp_dependencies b)"

lemma capabilities_json_same: "capabilities_json a = capabilities_json b \<Longrightarrow> same_names a b"
  by (auto simp: capabilities_json_def same_names_def dest: names_json_set)

text \<open>An instruction of a compiled program whose operands the capabilities name.\<close>

definition granted :: "capabilities \<Rightarrow> json \<Rightarrow> bool" where
  "granted caps j \<longleftrightarrow> compiled_instr j \<and> (\<exists>items. j = JList items \<and> within caps items)"

lemmas granted_defs = granted_def within_def instr_json_def first_operation_def permitted_def

lemma names_used_mem: "j \<in> set instructions \<Longrightarrow> p \<in> set (operand operation j) \<Longrightarrow> p \<in> set (names_used operation instructions)"
  by (auto simp: names_used_def)

lemma compiled_granted:
  assumes "compiled (instructions, caps)" and "same_names caps caps'" and "j \<in> set instructions"
  shows "granted caps' j"
proof -
  have ci: "compiled_instr j" using assms(1,3) by (auto simp: compiled_def list_all_iff)
  note mem = names_used_mem [OF assms(3)]
  have caps: "set (cp_read caps') = set (names_used ''READ'' instructions)" "set (cp_write caps') = set (names_used ''WRITE'' instructions)"
      "set (cp_env caps') = set (names_used ''ENV'' instructions)" "set (cp_dependencies caps') = set (names_used ''DEPENDENCY'' instructions)"
    using assms(1,2) by (simp_all add: compiled_def same_names_def)
  show ?thesis using ci
  proof cases
    case (reads p r)
    then show ?thesis using ci mem [of p "''READ''"] by (simp add: granted_defs caps)
  next
    case (gets p r)
    then show ?thesis using ci mem [of p "''ENV''"] by (simp add: granted_defs caps)
  next
    case (needs p r)
    then show ?thesis using ci mem [of p "''DEPENDENCY''"] by (simp add: granted_defs caps)
  next
    case (puts p s)
    then show ?thesis using ci mem [of p "''WRITE''"] by (simp add: granted_defs caps)
  next
    case (stores p r)
    then show ?thesis using ci mem [of p "''WRITE''"] by (simp add: granted_defs caps)
  next
    case (exits n)
    then show ?thesis using ci by (simp add: granted_defs)
  qed
qed

text \<open>
  Such an instruction is blocked only because the file it reads is not a file of the install directory, or
  because the dependency it names does not verify; the capability for it was there.
\<close>

definition missing_read :: "cell_env \<Rightarrow> store \<Rightarrow> app_info \<Rightarrow> json list \<Rightarrow> bool" where
  "missing_read env st info items \<longleftrightarrow> (\<exists>p r. items = [JStr ''READ'', JStr p, JStr r] \<and>
     p \<in> set (cp_read (ap_capabilities info)) \<and> file_inside env st info p = None)"

definition unverified_dependency :: "cell_env \<Rightarrow> store \<Rightarrow> app_info \<Rightarrow> json list \<Rightarrow> bool" where
  "unverified_dependency env st info items \<longleftrightarrow> (\<exists>p r v. items = [JStr ''DEPENDENCY'', JStr p, JStr r] \<and>
     p \<in> set (cp_dependencies (ap_capabilities info)) \<and>
     verify_installed_package (ce_store env) st p = Inr v \<and> receipt_status v \<noteq> ''completed'')"

definition blocked_outside :: "cell_env \<Rightarrow> store \<Rightarrow> app_info \<Rightarrow> cell_call \<Rightarrow> bool" where
  "blocked_outside env st info c \<longleftrightarrow> map_of (cc_evidence c) ''allowed'' = Some (JBool True) \<and>
     (\<exists>items. map_of (cc_evidence c) ''instruction'' = Some (JList items) \<and>
        (missing_read env st info items \<or> unverified_dependency env st info items))"

lemma cell_write_permitted:
  assumes "cell_write env st info registers path raw g = (Inr (extra, fs, v), g')" and "permitted (cp_write (ap_capabilities info)) path"
  shows "fs = []"
  using assms by (auto simp: cell_write_def permitted_def elim!: abind_Inr split: json.splits)

lemma granted_perform:
  assumes "granted (ap_capabilities info) (JList items)" and "perform env st info items registers g = (Inr (extra, fs, v), g')"
    and "fs \<noteq> []"
  shows "extra = allowed_item True \<and> (missing_read env st info items \<or> unverified_dependency env st info items)"
proof -
  have instr: "compiled_instr (JList items)" and caps: "within (ap_capabilities info) items" using assms(1) by (simp_all add: granted_def)
  from instr show ?thesis
  proof cases
    case (reads p r)
    then have items: "items = [JStr ''READ'', JStr p, JStr r]" by (simp add: instr_json_def)
    have p: "p \<in> set (cp_read (ap_capabilities info))" using caps by (simp add: items within_def first_operation_def permitted_def)
    have "cell_read env st info (JStr p) = Inr (extra, fs, v)"
      using assms(2) by (simp add: items perform_def first_operation_def)
    then have "extra = allowed_item True \<and> file_inside env st info p = None"
      using p assms(3) by (auto simp: cell_read_def permitted_def split: option.splits)
    then show ?thesis using p items by (auto simp: missing_read_def)
  next
    case (needs p r)
    then have items: "items = [JStr ''DEPENDENCY'', JStr p, JStr r]" by (simp add: instr_json_def)
    have p: "p \<in> set (cp_dependencies (ap_capabilities info))" using caps by (simp add: items within_def first_operation_def permitted_def)
    have "cell_dependency env st info (JStr p) = Inr (extra, fs, v)"
      using assms(2) by (simp add: items perform_def first_operation_def)
    then have "extra = allowed_item True \<and> (\<exists>w. verify_installed_package (ce_store env) st p = Inr w \<and> receipt_status w \<noteq> ''completed'')"
      using p assms(3) by (auto simp: cell_dependency_def permitted_def rbind_Inr_iff split: if_splits)
    then show ?thesis using p items by (auto simp: unverified_dependency_def)
  next
    case (gets p r)
    then show ?thesis using assms(2,3) caps
      by (auto simp: perform_def instr_json_def first_operation_def cell_getenv_def within_def permitted_def Let_def)
  next
    case (puts p s)
    then show ?thesis using assms(2,3) caps cell_write_permitted
      by (auto simp: perform_def instr_json_def first_operation_def within_def)
  next
    case (stores p r)
    then show ?thesis using assms(2,3) caps cell_write_permitted
      by (auto simp: perform_def instr_json_def first_operation_def within_def)
  next
    case (exits n)
    then show ?thesis using assms(2,3) by (auto simp: perform_def instr_json_def first_operation_def is_int_def)
  qed
qed

lemma call_allowed [simp]:
  "map_of (cc_evidence (call_receipt n items (allowed_item b) fs)) ''allowed'' = Some (JBool b)"
  by (simp add: call_receipt_def allowed_item_def Let_def)

lemma granted_run:
  assumes "run_instructions env st app info n registers instructions g = (Inr (calls, regs, failures, code), g')"
    and "\<forall>j \<in> set instructions. granted (ap_capabilities info) j"
  shows "(\<forall>c \<in> set calls. cc_failures c \<noteq> [] \<longrightarrow> blocked_outside env st info c) \<and> (instructions \<noteq> [] \<longrightarrow> calls \<noteq> [])"
  using assms
proof (induction instructions arbitrary: n registers g calls regs failures code g')
  case (Cons instruction rest)
  obtain items where items: "instruction = JList items" "granted (ap_capabilities info) (JList items)"
    using Cons.prems(2) by (auto simp: granted_def)
  obtain call v g1 where ex: "execute env st info items n registers g = (Inr (call, v), g1)"
    and run: "(if cc_failures call \<noteq> [] then alift (Inr ([call], registers, cc_failures call, None))
      else abind (alift (keep_value items v registers)) (\<lambda>registers'.
        if first_operation items = JStr ''EXIT''
        then alift (Inr ([call], registers', exit_failures app (items ! 1), Some (items ! 1)))
        else abind (run_instructions env st app info (n + 1) registers' rest) (\<lambda>(calls, regs, failures, code).
          alift (Inr (call # calls, regs, failures, code))))) g1 = (Inr (calls, regs, failures, code), g')"
    using Cons.prems(1) by (auto simp: items as_list_def elim!: abind_Inr)
  obtain extra fs where p: "perform env st info items registers g = (Inr (extra, fs, v), g1)" "call = call_receipt n items extra fs"
    using execute_Inr [OF ex] by blast
  have one: "cc_failures call \<noteq> [] \<longrightarrow> blocked_outside env st info call"
  proof
    assume "cc_failures call \<noteq> []"
    then have "extra = allowed_item True \<and> (missing_read env st info items \<or> unverified_dependency env st info items)"
      using granted_perform [OF items(2) p(1)] p(2) by simp
    then show "blocked_outside env st info call" by (auto simp: p(2) blocked_outside_def)
  qed
  show ?case
  proof (cases "\<exists>calls'. calls = call # calls' \<and> (\<exists>registers'. run_instructions env st app info (n + 1) registers' rest g1 =
      (Inr (calls', regs, failures, code), g'))")
    case True
    then show ?thesis using Cons.IH Cons.prems(2) one by fastforce
  next
    case False
    then have "calls = [call]" using run
      by (cases "keep_value items v registers") (auto split: if_splits elim!: abind_Inr)
    then show ?thesis using one by simp
  qed
qed simp

text \<open>
  A compiled program that is found together with its receipt runs: under the capabilities of its receipt no
  call is blocked for lack of one.
\<close>

lemma compiled_runs:
  assumes compile: "compile_source env source key = Inr (pf, rf, rcpt)" and keys: "keys_trusted env key"
    and files: "open_file env st info name = Some pf" "open_file env st info (build_receipt_name info) = Some rf"
    and info: "map_of apps app = Some info" "ap_cell_program info = Some name" "name \<noteq> []"
    and caps: "jget rcpt ''capabilities'' = capabilities_json (ap_capabilities info)"
    and verified: "verify_installed_package (ce_store env) st (ap_package info) = Inr v" "receipt_status v = ''completed''"
    and root: "gn_current_root g \<noteq> None" and run: "run_cell env st apps app g = (Inr r, g')"
  shows "pp_calls r \<noteq> [] \<and> (\<forall>c \<in> set (pp_calls r). cc_failures c \<noteq> [] \<longrightarrow> blocked_outside env st info c)"
proof -
  obtain instructions caps0 check where c: "compiled (instructions, caps0)" "instructions \<noteq> []" "jget rcpt ''capabilities'' = capabilities_json caps0"
      "check_build env st info name = Inr (Some check, [])" "load_json env st info name = Inr (Inr (program_json instructions))"
    and prog: "\<And>members. program_json instructions = JObj members \<Longrightarrow> check_program env info name members = [] \<and>
      jget_or members ''instructions'' (JList []) = JList instructions"
    by (rule compiled_passes [OF compile keys files]) blast
  obtain members where m: "program_json instructions = JObj members" by (simp add: program_json_def)
  have same: "same_names caps0 (ap_capabilities info)" using caps c(3) capabilities_json_same by simp
  have "receipt_failures v = []" using verified verify_failures_status unfolding verify_installed_package_def by blast
  then have "abind (run_instructions env st app info 1 [] instructions) (\<lambda>(calls, registers, run_failures, exit_code).
      process_receipt_for (st_path st) app (Some v) (Some check) calls registers run_failures exit_code (Some members)) g = (Inr r, g')"
    using run info verified(1) c(4,5) prog [OF m] m
    by (simp add: run_cell_def run_program_def as_dict_def as_list_def store_failures_def)
  then obtain calls registers fs code g1 where ri: "run_instructions env st app info 1 [] instructions g = (Inr (calls, registers, fs, code), g1)"
      "process_receipt_for (st_path st) app (Some v) (Some check) calls registers fs code (Some members) g1 = (Inr r, g')"
    by (auto elim!: abind_Inr)
  have "gn_current_root g1 \<noteq> None" using run_instructions_writes [OF ri(1)] root by (rule writes_rooted)
  then have "pp_calls r = calls" using process_receipt_run(2) [OF _ ri(2) refl] by blast
  then show ?thesis using granted_run [OF ri(1)] compiled_granted [OF c(1) same] c(2) by blast
qed

section \<open>Two gaps of the compiler\<close>

text \<open>More than one sign passes the test of the exit code but not \<open>int\<close>, so that the error is not a compiler error.\<close>

lemma two_signs_raise: "\<exists>why. compile_line n ''exit --5'' st = Inl (ValueError why)"
proof -
  have line: "strip ''exit --5'' = ''exit --5''" "words ''exit --5'' = [''exit'', ''--5'']" by code_simp+
  have int: "py_int ''--5'' = Inl (ValueError (''invalid literal for int() with base 10: '' @ ''--5''))" "looks_numeric ''--5''"
    by code_simp+
  show ?thesis by (cases st) (simp add: compile_line_def Let_def line compile_parts_def int)
qed

text \<open>A register that is never set is accepted by the compiler, and writing it writes an empty file.\<close>

lemma unset_register_writes_nothing: "write_content path [] (JObj [(''register'', JStr r)]) = Inr (Inr [])"
  by (simp add: write_content_def register_key_def value_content_def)

end
