(* ===== verification/Genesis_Replay.thy ===== *)
theory Genesis_Replay
  imports Genesis_State
begin

text \<open>
  Replaying a session: a session that starts with a trusted boot and in which every rollback completes is
  replayed without failure, and a rollback that is blocked makes every later replay fail.
\<close>

section \<open>Replay and the object store\<close>

lemma replay_write_clean_iff:
  "replay_write g v e = Inr (v', []) \<longleftrightarrow> jmember e ''before_root_sha256'' = Inr v \<and> jmember e ''after_root_sha256'' = Inr v' \<and>
     (\<exists>name \<in> fst ` set (gn_objects g). jmember e ''object_sha256'' = Inr (JStr name))"
proof (cases "\<exists>b a obj. jmember e ''before_root_sha256'' = Inr b \<and> jmember e ''after_root_sha256'' = Inr a \<and> jmember e ''object_sha256'' = Inr obj")
  case True
  then obtain b a obj where "jmember e ''before_root_sha256'' = Inr b" "jmember e ''after_root_sha256'' = Inr a" "jmember e ''object_sha256'' = Inr obj"
    by blast
  then show ?thesis by (cases obj; cases "b = v"; cases "jmember e ''sequence''") (auto simp: replay_write_def)
qed (auto simp: replay_write_def rbind_Inr_iff)

lemma replay_entry_clean:
  assumes "replay_entry inst g (v, f) e = Inr (v', [])"
  shows "f = []"
  using assms by (auto simp: replay_entry_def rbind_Inr_iff split: if_splits)

lemma replay_entry_keys:
  assumes "replay_entry inst g (v, f) e = Inr (v', [])" and "fst ` set (gn_objects g) \<subseteq> fst ` set (gn_objects g')"
  shows "replay_entry inst g' (v, f) e = Inr (v', [])"
proof -
  have f: "f = []" by (rule replay_entry_clean [OF assms(1)])
  obtain ev where ev: "jmember e ''event'' = Inr ev" using assms(1) by (auto simp: replay_entry_def rbind_Inr_iff)
  show ?thesis
  proof (cases "ev = JStr ''fs-write''")
    case True
    then have "replay_write g v e = Inr (v', [])" using assms(1) by (auto simp: replay_entry_def ev f rbind_Inr_iff)
    then have "replay_write g' v e = Inr (v', [])" using assms(2) unfolding replay_write_clean_iff by blast
    then show ?thesis by (simp add: replay_entry_def ev True f)
  next
    case False
    then have "replay_entry inst g' (v, f) e = replay_entry inst g (v, f) e" by (simp add: replay_entry_def ev)
    then show ?thesis using assms(1) by simp
  qed
qed

lemma fold_replay_clean: "fold_res (replay_entry inst g) (v, f) es = Inr (v', []) \<Longrightarrow> f = []"
proof (induction es arbitrary: v f)
  case (Cons e es)
  then obtain v1 f1 where "replay_entry inst g (v, f) e = Inr (v1, f1)" "fold_res (replay_entry inst g) (v1, f1) es = Inr (v', [])"
    by (auto simp: rbind_Inr_iff)
  then show ?case using Cons.IH replay_entry_clean by metis
qed simp

lemma fold_replay_keys:
  assumes "fold_res (replay_entry inst g) (v, f) es = Inr (v', [])" and "fst ` set (gn_objects g) \<subseteq> fst ` set (gn_objects g')"
  shows "fold_res (replay_entry inst g') (v, f) es = Inr (v', [])"
  using assms(1)
proof (induction es arbitrary: v f)
  case (Cons e es)
  then obtain v1 f1 where one: "replay_entry inst g (v, f) e = Inr (v1, f1)" and rest: "fold_res (replay_entry inst g) (v1, f1) es = Inr (v', [])"
    by (auto simp: rbind_Inr_iff)
  have "f1 = []" by (rule fold_replay_clean [OF rest])
  then show ?case using replay_entry_keys [OF _ assms(2)] one Cons.IH [OF rest] by simp
qed simp

section \<open>Sessions that replay\<close>

definition replay_ok :: "(string \<Rightarrow> bool) \<Rightarrow> genesis \<Rightarrow> bool" where
  "replay_ok inst g \<longleftrightarrow>
     fold_res (replay_entry inst g) (JStr ZERO_HASH, []) (entries g) = Inr (JStr (manifest_root (current_files g)), [])"

lemma extends_keys: "extends g g' \<Longrightarrow> fst ` set (gn_objects g) \<subseteq> fst ` set (gn_objects g')"
  unfolding extends_def by (metis dom_map_of_conv_image_fst map_le_implies_dom_le)

text \<open>
  The events after which a replay also checks the registry and the lock file, and the ledgers without any of
  them. A neutral event is one that replay passes over.
\<close>

definition registry_events :: "string list" where
  "registry_events = [''registry-sync'', ''lock'', ''install'', ''app-run'']"

definition quiet :: "genesis \<Rightarrow> bool" where
  "quiet g \<longleftrightarrow> (\<forall>entry \<in> set (entries g). jget entry ''event'' \<notin> set (map JStr registry_events))"

definition neutral_event :: "string \<Rightarrow> bool" where
  "neutral_event ev \<longleftrightarrow> ev \<notin> set registry_events \<and> ev \<notin> set [''trusted-boot'', ''fs-write'', ''rollback'']"

lemma replay_ok_snoc:
  assumes "fold_res (replay_entry inst g) (JStr ZERO_HASH, []) (entries g) = Inr (v, [])" and "extends g g'" and "quiet g"
    and "entries g' = entries g @ [e]" and "map_of e ''event'' = Some (JStr ev)" and "ev \<notin> set registry_events"
    and "replay_entry inst g' (v, []) e = Inr (JStr (manifest_root (current_files g')), [])"
  shows "replay_ok inst g' \<and> quiet g'"
proof
  show "replay_ok inst g'"
    using fold_replay_keys [OF assms(1) extends_keys [OF assms(2)]] assms(4,7) by (simp add: replay_ok_def fold_res_append)
  have "jget e ''event'' \<notin> set (map JStr registry_events)" using assms(5,6) by (auto simp: jget_def)
  then show "quiet g'" using assms(3,4) by (simp add: quiet_def)
qed

lemma rollback_completed:
  assumes "gfs_ok g" and "rollback env selector g = (Inr e, g')" and "jget e ''execution_status'' = JStr ''completed''"
  shows "\<exists>root files h. map_of (gn_states g) root = Some files \<and>
    record_entry env ''rollback'' (rollback_receipt g h root) (g\<lparr>gn_current_root := Some root\<rparr>) = (Inr e, g')"
proof -
  obtain entry where entry: "read_entry g selector = Inr entry"
    using assms(2) by (auto simp: rollback_def abind_def aread_def split: sum.splits)
  let ?t = "target_root entry"
  have rec: "record_entry env ''rollback'' r g = (Inr e, g') \<Longrightarrow> plain_receipt r \<Longrightarrow> jget r ''execution_status'' = JStr ''completed''" for r
    using recorded_members(4) [of env "''rollback''" r g e g' "''execution_status''"] assms(3) by (simp add: jget_def)
  have good: "truthy ?t \<and> value_str ?t \<in> fst ` set (gn_states g)"
  proof (rule ccontr)
    assume "\<not> ?thesis"
    then obtain sr where "record_entry env ''rollback'' [(''format'', JStr ''BOGOS-Genesis-rollback-receipt-9.0''), (''source_receipt'', sr),
          (''before_root_sha256'', JStr (manifest_root (current_files g))), (''after_root_sha256'', ?t), (''rollback_verified'', JBool False),
          (''failures'', JList [jfailure selector ''receipt does not identify a recoverable state root'']),
          (''execution_status'', status_json [jfailure selector ''receipt does not identify a recoverable state root''])] g = (Inr e, g')"
      using assms(2) by (auto simp: rollback_def abind_def aread_def alift_def Let_def entry current_root_ok [OF assms(1)] jmember_def split: option.splits)
    from rec [OF this] show False by (simp add: plain_receipt_def jget_def status_json_def)
  qed
  obtain root where t: "?t = JStr root"
    using assms(2) good by (auto simp: rollback_def abind_def aread_def alift_def Let_def entry current_root_ok [OF assms(1)] set_current_root_def split: json.splits)
  have ne: "root \<noteq> []" using good t by simp
  have "root \<in> fst ` set (gn_states g)" using good t by simp
  then obtain files where files: "map_of (gn_states g) root = Some files" by (metis map_of_eq_None_iff not_None_eq)
  obtain h where h: "map_of entry ''receipt_hash'' = Some h"
    using assms(2) good t files ne by (cases "map_of entry ''receipt_hash''")
      (auto simp: rollback_def abind_def aread_def alift_def Let_def entry current_root_ok [OF assms(1)] set_current_root_def jmember_def)
  show ?thesis using assms(2) rollback_eq [OF assms(1) entry t ne files h] files by (metis)
qed

inductive replay_step :: "genesis_env \<Rightarrow> genesis \<Rightarrow> genesis \<Rightarrow> bool" for env where
  wrote: "room g \<Longrightarrow> safe_path path = Inr rel \<Longrightarrow> write_clear g rel data \<Longrightarrow> fs_write env path data capability g = (Inr e, g') \<Longrightarrow>
    replay_step env g g'"
| looked: "room g \<Longrightarrow> fs_read env path capability g = (Inr x, g') \<Longrightarrow> replay_step env g g'"
| rolled: "room g \<Longrightarrow> rollback env selector g = (Inr e, g') \<Longrightarrow> jget e ''execution_status'' = JStr ''completed'' \<Longrightarrow> replay_step env g g'"
| booted: "room g \<Longrightarrow> plain_receipt r \<Longrightarrow> map_of r ''state_root_sha256'' = Some (JStr (manifest_root (current_files g))) \<Longrightarrow>
    record_entry env ''trusted-boot'' r g = (Inr e, g') \<Longrightarrow> replay_step env g g'"
| noted: "room g \<Longrightarrow> plain_receipt r \<Longrightarrow> neutral_event ev \<Longrightarrow> record_entry env ev r g = (Inr e, g') \<Longrightarrow> replay_step env g g'"

lemma replay_step_is_step: "replay_step env g g' \<Longrightarrow> genesis_step env g g'"
  by (induction rule: replay_step.induct) (auto intro: genesis_step.intros)

lemma replay_neutral:
  assumes "neutral_event ev" and "map_of e ''event'' = Some (JStr ev)"
  shows "replay_entry inst g (v, f) e = Inr (v, f)"
  using assms by (simp add: replay_entry_def jmember_def neutral_event_def registry_events_def)

lemma recorded_state:
  assumes "session_ok g" and "room g" and "plain_receipt r" and "record_entry env ev r g = (Inr e, g')"
  shows "entries g' = entries g @ [e]" and "same_files g g'" and "continues g g'"
proof -
  have "ledger_wf g" "length (gn_ledger g) + 1 < 10 ^ 6" using assms(1,2) by (auto simp: session_ok_def room_def)
  from record_appends [OF this assms(4)] show "entries g' = entries g @ [e]" "same_files g g'" by (auto simp: same_files_def)
  show "continues g g'" using assms record_recorded recorded_continues by blast
qed

lemma replay_step_ok:
  assumes "replay_step env g g'" and "session_ok g" and "replay_ok inst g" and "quiet g"
  shows "replay_ok inst g' \<and> quiet g'"
proof -
  have ext: "extends g g'" using step_continues [OF replay_step_is_step [OF assms(1)] assms(2)] by (simp add: continues_def)
  have gfs: "gfs_ok g" using assms(2) by (simp add: session_ok_def)
  note snoc = replay_ok_snoc [OF assms(3) [unfolded replay_ok_def] ext assms(4)]
  from assms(1) show ?thesis
  proof cases
    case (wrote path rel data capability e)
    note left = write_leaves [OF assms(2) wrote]
    note m = recorded_members(1,4) [OF left(8) write_receipt_plain]
    have "replay_write g' (JStr (manifest_root (current_files g))) e = Inr (JStr (manifest_root (current_files g')), [])"
      using left(7) unfolding replay_write_clean_iff left(6) by (auto simp: jmember_def m write_receipt_def)
    then show ?thesis by (intro snoc [OF left(2) m(1)]) (simp_all add: replay_entry_def jmember_def m registry_events_def)
  next
    case (looked path capability x)
    obtain rel where rel: "safe_path path = Inr rel" using looked(2)
      by (cases "safe_path path") (simp_all add: fs_read_def, simp add: alift_def)
    obtain e where rec: "record_entry env ''fs-read'' (read_receipt g rel capability) g = (Inr e, g')"
      using looked(2) by (auto simp: fs_read_eq [OF gfs rel] split: prod.splits sum.splits)
    note st = recorded_state [OF assms(2) looked(1) read_receipt_plain rec]
    note ev = recorded_members(1) [OF rec read_receipt_plain]
    have "replay_entry inst g' (v, []) e = Inr (v, [])" for v
      by (rule replay_neutral [OF _ ev]) (simp add: neutral_event_def registry_events_def)
    then show ?thesis by (intro snoc [OF st(1) ev]) (simp_all add: same_files_keep(3) [OF st(2)] registry_events_def)
  next
    case (rolled selector e)
    obtain root files h where root: "map_of (gn_states g) root = Some files"
        and rec: "record_entry env ''rollback'' (rollback_receipt g h root) (g\<lparr>gn_current_root := Some root\<rparr>) = (Inr e, g')"
      using rollback_completed [OF gfs rolled(2,3)] by blast
    let ?g = "g\<lparr>gn_current_root := Some root\<rparr>"
    have "root \<in> fst ` set (gn_states g)" using root by (metis map_of_eq_None_iff option.distinct(1))
    then have ok: "session_ok ?g" using moved_pointer(1) [OF assms(2)] by (simp add: continues_def)
    have "room ?g" using rolled(1) by (simp add: room_def)
    note st = recorded_state [OF ok this rollback_receipt_plain rec]
    have "current_files g' = files" using same_files_keep(3) [OF st(2)] root by (simp add: current_files_def)
    moreover have "root = manifest_root files" using gfs root by (simp add: gfs_ok_def)
    moreover have new: "entries g' = entries g @ [e]" using st(1) by (simp add: entries_def)
    moreover have ev: "map_of e ''event'' = Some (JStr ''rollback'')" by (rule recorded_members(1) [OF rec rollback_receipt_plain])
    moreover have "map_of e ''after_root_sha256'' = Some (JStr root)"
      using recorded_members(4) [OF rec rollback_receipt_plain, of "''after_root_sha256''"] by (simp add: rollback_receipt_def)
    ultimately show ?thesis by (intro snoc [OF new ev]) (simp_all add: replay_entry_def jmember_def registry_events_def)
  next
    case (booted r e)
    note st = recorded_state [OF assms(2) booted(1,2,4)]
    show ?thesis
      by (intro snoc [OF st(1) recorded_members(1) [OF booted(4,2)]])
        (simp_all add: replay_entry_def jmember_def jget_or_def recorded_members(1,4) [OF booted(4,2)] booted(3)
          same_files_keep(3) [OF st(2)] registry_events_def)
  next
    case (noted r ev e)
    note st = recorded_state [OF assms(2) noted(1,2,4)]
    have "replay_entry inst g' (v, []) e = Inr (v, [])" for v
      by (rule replay_neutral [OF noted(3) recorded_members(1) [OF noted(4,2)]])
    moreover have "ev \<notin> set registry_events" using noted(3) by (simp add: neutral_event_def)
    ultimately show ?thesis by (intro snoc [OF st(1) recorded_members(1) [OF noted(4,2)]]) (simp_all add: same_files_keep(3) [OF st(2)])
  qed
qed

lemma replay_run_ok:
  assumes "(replay_step env)\<^sup>*\<^sup>* g g'" and "session_ok g" and "replay_ok inst g" and "quiet g"
  shows "session_ok g' \<and> replay_ok inst g' \<and> quiet g' \<and> (genesis_step env)\<^sup>*\<^sup>* g g'"
  using assms(1)
proof (induction rule: rtranclp_induct)
  case base
  then show ?case using assms by simp
next
  case (step g1 g2)
  have gs: "genesis_step env g1 g2" using step(2) by (rule replay_step_is_step)
  then have "session_ok g2" using step_continues step.IH by (auto simp: continues_def)
  then show ?case using replay_step_ok [OF step(2)] step.IH gs by (meson rtranclp.rtrancl_into_rtrancl)
qed

text \<open>The first entry of a session: a boot that names the current root.\<close>

lemma boot_replays:
  assumes "session_ok g" and "gn_ledger g = []" and "plain_receipt r"
    and "map_of r ''state_root_sha256'' = Some (JStr (manifest_root (current_files g)))"
    and "record_entry env ''trusted-boot'' r g = (Inr e, g')"
  shows "session_ok g'" and "replay_ok inst g'" and "quiet g'"
proof -
  have "room g" using assms(2) by (simp add: room_def)
  note st = recorded_state [OF assms(1) this assms(3,5)]
  show "session_ok g'" using st(3) by (simp add: continues_def)
  have one: "entries g' = [e]" using st(1) assms(2) by (simp add: entries_def)
  then show "quiet g'" by (simp add: quiet_def registry_events_def jget_def recorded_members(1) [OF assms(5,3)])
  show "replay_ok inst g'" using one
    by (simp add: replay_ok_def replay_entry_def jmember_def jget_or_def recorded_members(1,4) [OF assms(5,3)] assms(4) same_files_keep(3) [OF st(2)])
qed

section \<open>The replay receipt\<close>

text \<open>Failures found before the loop are only passed along.\<close>

lemma replay_entry_adds:
  assumes "replay_entry inst g (v, []) e = Inr (v', [])"
  shows "replay_entry inst g (v, f) e = Inr (v', f)"
proof -
  obtain ev where ev: "jmember e ''event'' = Inr ev" using assms by (auto simp: replay_entry_def rbind_Inr_iff)
  consider "ev = JStr ''fs-write''" | "ev = JStr ''app-run''" | "ev \<noteq> JStr ''fs-write''" "ev \<noteq> JStr ''app-run''" by blast
  then show ?thesis
  proof cases
    case 1
    then have "replay_write g v e = Inr (v', [])" using assms by (auto simp: replay_entry_def ev rbind_Inr_iff)
    then show ?thesis by (simp add: replay_entry_def ev 1)
  next
    case 2
    then have "v' = v \<and> replay_process e = Inr []" using assms by (auto simp: replay_entry_def ev rbind_Inr_iff)
    then show ?thesis by (simp add: replay_entry_def ev 2)
  next
    case 3
    then show ?thesis using assms by (auto simp: replay_entry_def ev rbind_Inr_iff split: if_splits)
  qed
qed

lemma fold_replay_adds:
  assumes "fold_res (replay_entry inst g) (v, []) es = Inr (v', [])"
  shows "fold_res (replay_entry inst g) (v, f) es = Inr (v', f)"
  using assms
proof (induction es arbitrary: v)
  case (Cons e es)
  then obtain v1 f1 where one: "replay_entry inst g (v, []) e = Inr (v1, f1)"
      and rest: "fold_res (replay_entry inst g) (v1, f1) es = Inr (v', [])" by (auto simp: rbind_Inr_iff)
  have f1: "f1 = []" by (rule fold_replay_clean [OF rest])
  then have "replay_entry inst g (v, f) e = Inr (v1, f)" using one replay_entry_adds by blast
  then show ?case using Cons.IH rest f1 by simp
qed simp

text \<open>
  Without a source receipt, a replay whose loop finds no failure comes down to recording its receipt; the
  failures before the loop are those of the registry and the lock file, if the ledger asks for them.
\<close>

lemma replay_session_records:
  assumes "gfs_ok g" and "ledger_passes env g" and "fold_res (replay_entry inst g) (JStr ZERO_HASH, []) (entries g) = Inr (v, [])"
  obtains rc clean where "replay_session env reg lock inst None g = record_entry env ''replay-session'' rc g" and "plain_receipt rc"
    and "quiet g \<longrightarrow> clean"
    and "map_of rc ''full_session_replay_verified'' = Some (JBool (clean \<and> v = JStr (manifest_root (current_files g))))"
    and "map_of rc ''replayed_event_count'' = Some (JInt (int (length (entries g))))"
proof -
  obtain chain where chain: "verify_genesis env g = Inr chain" "lr_failures chain = []"
    using assms(2) by (auto simp: ledger_passes_def verify_genesis_def rbind_Inr_iff)
  define fails where "fails = (if quiet g then [] else reg @ lock)"
  have "(\<exists>entry \<in> set (entries g). jget entry ''event'' \<in> set (map JStr [''registry-sync'', ''lock'', ''install'', ''app-run''])) = (\<not> quiet g)"
    by (auto simp: quiet_def registry_events_def)
  then have first: "replay_failures env reg lock None g = Inr (chain, fails)"
    unfolding replay_failures_def chain(1) rbind_simps Let_def by (simp add: chain(2) fails_def)
  define failures where "failures = fails @ (if v \<noteq> JStr (manifest_root (current_files g))
    then [jfailure ''state'' ''replayed final workspace root mismatch''] else [])"
  define rc where "rc = [(''format'', JStr ''BOGOS-Genesis-session-replay-receipt-9.0''), (''source_receipt'', JNull),
       (''source_genesis_session_root'', JNull),
       (''ledger_root_sha256'', lr_ledger_root_sha256 chain), (''replayed_event_count'', JInt (int (length (entries g)))),
       (''replayed_final_state_root_sha256'', v), (''full_session_replay_verified'', JBool (failures = [])),
       (''failures'', JList failures), (''execution_status'', status_json failures)]"
  have "replay_session env reg lock inst None g = record_entry env ''replay-session'' rc g"
    by (simp add: replay_session_def abind_def aread_def first fold_replay_adds [OF assms(3)] current_root_ok [OF assms(1)] Let_def
        failures_def rc_def)
  moreover have "plain_receipt rc" by (simp add: plain_receipt_def rc_def)
  moreover have "map_of rc ''full_session_replay_verified'' = Some (JBool (fails = [] \<and> v = JStr (manifest_root (current_files g))))"
    "map_of rc ''replayed_event_count'' = Some (JInt (int (length (entries g))))"
    by (simp_all add: rc_def failures_def)
  moreover have "quiet g \<longrightarrow> fails = []" by (simp add: fails_def)
  ultimately show thesis using that [where clean = "fails = []"] by blast
qed

text \<open>
  With a readable key, what recording signs does not depend on the schema, and recording raises only if the
  schema rejects it; then nothing changes.
\<close>

lemma record_entry_returns:
  assumes "keys_work env" and "plain_receipt r"
  obtains e g' where "if ge_receipt_schema env (JObj e) = [] then record_entry env ev r g = (Inr e, g')
      else \<exists>s. record_entry env ev r g = (Inl (GenesisError s), g)"
    and "\<And>k. k \<notin> set [''ledger_format'', ''sequence'', ''event'', ''previous_hash'', ''receipt_hash'', ''signature''] \<Longrightarrow> map_of e k = map_of r k"
proof -
  let ?free = "env\<lparr>ge_receipt_schema := \<lambda>_. []\<rparr>"
  let ?payload = "ledger_payload g ev r"
  let ?unsigned = "AList.update ''receipt_hash'' (JStr (stable_hash (JObj ?payload))) ?payload"
  obtain sg where sg: "sign_object (ge_ed env) (JObj ?unsigned) (ge_private_key env) = Inr sg"
    using assms(1) by (auto simp: keys_work_def trusts_own_def sign_object_def)
  have sorted: "sort_key fst es = [] \<longleftrightarrow> es = []" for es :: "(string list \<times> string) list"
    by (metis length_0_conv length_sort)
  let ?e = "AList.update ''signature'' sg ?unsigned"
  let ?g = "g\<lparr>gn_ledger := AList.update (ledger_file (length (entries g) + 1) ev) (Some ?e) (gn_ledger g)\<rparr>"
  have "record_entry ?free ev r g = (Inr ?e, ?g)"
    by (simp add: record_entry_def Let_def sg validate_schema_def)
  note members = recorded_members(4) [OF this assms(2)]
  have "if ge_receipt_schema env (JObj ?e) = [] then record_entry env ev r g = (Inr ?e, ?g)
      else \<exists>s. record_entry env ev r g = (Inl (GenesisError s), g)"
  proof (cases "sort_key fst (ge_receipt_schema env (JObj ?e))")
    case Nil
    then have "ge_receipt_schema env (JObj ?e) = []" by (simp only: sorted)
    then show ?thesis by (simp add: record_entry_def Let_def sg validate_schema_def)
  next
    case (Cons x xs)
    then have "ge_receipt_schema env (JObj ?e) \<noteq> []" using sorted by (metis list.distinct(1))
    then show ?thesis using Cons by (cases x) (simp add: record_entry_def Let_def sg validate_schema_def)
  qed
  then show thesis by (rule that) (rule members)
qed

lemma replay_session_receipt:
  assumes "session_ok g" and "room g" and "ledger_passes env g"
    and fold: "fold_res (replay_entry inst g) (JStr ZERO_HASH, []) (entries g) = Inr (v, [])"
    and rep: "replay_session env reg lock inst None g = (Inr r, g')"
  shows "v \<noteq> JStr (manifest_root (current_files g)) \<Longrightarrow> jget r ''full_session_replay_verified'' = JBool False"
    and "quiet g \<Longrightarrow> jget r ''full_session_replay_verified'' = JBool (v = JStr (manifest_root (current_files g)))"
    and "jget r ''replayed_event_count'' = JInt (int (length (entries g)))"
proof -
  have gfs: "gfs_ok g" using assms(1) by (simp add: session_ok_def)
  obtain rc clean where rc: "replay_session env reg lock inst None g = record_entry env ''replay-session'' rc g" "plain_receipt rc"
      "quiet g \<longrightarrow> clean" "map_of rc ''full_session_replay_verified'' = Some (JBool (clean \<and> v = JStr (manifest_root (current_files g))))"
      "map_of rc ''replayed_event_count'' = Some (JInt (int (length (entries g))))"
    by (rule replay_session_records [OF gfs assms(3) fold, of reg lock])
  note m = recorded_members(4) [OF rep [unfolded rc(1)] rc(2)]
  show "v \<noteq> JStr (manifest_root (current_files g)) \<Longrightarrow> jget r ''full_session_replay_verified'' = JBool False"
    "quiet g \<Longrightarrow> jget r ''full_session_replay_verified'' = JBool (v = JStr (manifest_root (current_files g)))"
    using m [of "''full_session_replay_verified''"] rc(3,4) by (simp_all add: jget_def)
  show "jget r ''replayed_event_count'' = JInt (int (length (entries g)))"
    using m [of "''replayed_event_count''"] rc(5) by (simp add: jget_def)
qed

section \<open>Unreadable entries and blocked rollbacks\<close>

text \<open>The placeholder of an unreadable ledger file has no event, so that replaying it raises.\<close>

lemma broken_entry_raises:
  assumes "broken_entry \<in> set es"
  shows "\<exists>x. fold_res (replay_entry inst g) st es = Inl x"
  using assms
proof (induction es arbitrary: st)
  case (Cons e es)
  have "replay_entry inst g st broken_entry = Inl (KeyError ''event'')"
    by (cases st) (simp add: replay_entry_def broken_entry_def jmember_def)
  then show ?case using Cons by (cases "e = broken_entry"; cases "replay_entry inst g st e") auto
qed simp

text \<open>
  A rollback to a receipt without a recoverable root records the unusable target as its \<open>after_root_sha256\<close>,
  which replay then takes for the current root.
\<close>

definition blocked_receipt :: "genesis \<Rightarrow> string \<Rightarrow> json \<Rightarrow> json \<Rightarrow> jdict" where
  "blocked_receipt g selector source_receipt target =
    [(''format'', JStr ''BOGOS-Genesis-rollback-receipt-9.0''), (''source_receipt'', source_receipt),
     (''before_root_sha256'', JStr (manifest_root (current_files g))), (''after_root_sha256'', target),
     (''rollback_verified'', JBool False),
     (''failures'', JList [jfailure selector ''receipt does not identify a recoverable state root'']),
     (''execution_status'', JStr ''blocked'')]"

lemma blocked_receipt_plain [simp]: "plain_receipt (blocked_receipt g selector h t)"
  by (simp add: plain_receipt_def blocked_receipt_def)

lemma rollback_blocked_eq:
  assumes "gfs_ok g" and "read_entry g selector = Inr entry" and "map_of entry ''receipt_hash'' = Some h"
    and "\<not> (truthy (target_root entry) \<and> value_str (target_root entry) \<in> fst ` set (gn_states g))"
  shows "rollback env selector g = record_entry env ''rollback'' (blocked_receipt g selector h (target_root entry)) g"
  using assms(4) by (auto simp: rollback_def abind_def aread_def alift_def Let_def assms(2,3) current_root_ok [OF assms(1)]
      jmember_def blocked_receipt_def status_json_def)

lemma blocked_rollback_replay:
  assumes ok: "session_ok g" "room g" and replays: "replay_ok inst g" and verified: "ledger_passes env g" "keys_work env"
    and entry: "read_entry g selector = Inr entry" "map_of entry ''receipt_hash'' = Some h"
    and blocked: "\<not> (truthy (target_root entry) \<and> value_str (target_root entry) \<in> fst ` set (gn_states g))"
    and roll: "rollback env selector g = (Inr e, g')" and room': "room g'"
    and rep: "replay_session env reg lock inst None g' = (Inr r, g'')"
  shows "view g' = view g" and "jget e ''execution_status'' = JStr ''blocked''" and "jget r ''full_session_replay_verified'' = JBool False"
proof -
  have gfs: "gfs_ok g" using ok by (simp add: session_ok_def)
  let ?t = "target_root entry" let ?root = "manifest_root (current_files g)"
  have rec: "record_entry env ''rollback'' (blocked_receipt g selector h ?t) g = (Inr e, g')"
    using roll rollback_blocked_eq [OF gfs entry blocked] by simp
  note st = recorded_state [OF ok blocked_receipt_plain rec]
  show "view g' = view g" by (rule same_files_keep(2) [OF st(2)])
  note m = recorded_members(4) [OF rec blocked_receipt_plain]
  show "jget e ''execution_status'' = JStr ''blocked''" using m [of "''execution_status''"] by (simp add: jget_def blocked_receipt_def)
  have "map_of e ''event'' = Some (JStr ''rollback'')" by (rule recorded_members(1) [OF rec blocked_receipt_plain])
  moreover have "map_of e ''after_root_sha256'' = Some ?t" using m [of "''after_root_sha256''"] by (simp add: blocked_receipt_def)
  ultimately have "replay_entry inst g' (v, []) e = Inr (?t, [])" for v by (simp add: replay_entry_def jmember_def)
  then have fold: "fold_res (replay_entry inst g') (JStr ZERO_HASH, []) (entries g') = Inr (?t, [])"
    using fold_replay_keys [OF replays [unfolded replay_ok_def]] st(1,2) by (simp add: fold_res_append same_files_def)
  have "?root \<in> fst ` set (gn_states g)" using gfs_current [OF gfs] by (metis map_of_eq_None_iff option.distinct(1))
  moreover have "truthy (JStr ?root)" by (simp add: manifest_root_def)
  ultimately have differ: "?t \<noteq> JStr ?root" using blocked by (metis value_str.simps(4))
  have "ledger_passes env g'" using step_verified [OF genesis_step.rolled [OF ok(2) roll] ok(1) verified(2,1)] .
  moreover have "session_ok g'" using st(3) by (simp add: continues_def)
  ultimately show "jget r ''full_session_replay_verified'' = JBool False"
    using replay_session_receipt(1) [OF _ room' _ fold rep] differ same_files_keep(3) [OF st(2)] by simp
qed

end
