(* ===== verification/Swarm.thy ===== *)
theory Swarm
  imports Genesis_State
begin

text \<open>
  The candidate tournament of \<^verbatim>\<open>src/bogvm/swarm.py\<close>: proposals become cells with a proof digest, the best
  eligible cell is written through \<open>Genesis.fs_write\<close>, and \<open>replay\<close> re-checks a receipt.

  Proposals and cells are dictionaries of JSON values. Numbers are integers, or text that \<open>int\<close> reads; every
  other kind of number raises \<open>TypeError\<close> here.
\<close>

section \<open>Cells\<close>

record swarm_budget =
  sb_cells :: int
  sb_cost :: int
  sb_memory :: int

definition DEFAULT_BUDGET :: swarm_budget where
  "DEFAULT_BUDGET = \<lparr>sb_cells = 32, sb_cost = 10000, sb_memory = 64 * 1024 * 1024\<rparr>"

definition as_int :: "json \<Rightarrow> int res" where
  "as_int j = (case j of
     JInt i \<Rightarrow> Inr i | JBool b \<Rightarrow> Inr (if b then 1 else 0) | JStr s \<Rightarrow> py_int s | _ \<Rightarrow> Inl TypeError)"

definition unsafe_write_path :: "json \<Rightarrow> bool res" where
  "unsafe_write_path path =
    (if \<not> truthy path then Inr True
     else case path of JStr s \<Rightarrow> Inr (''..'' \<in> set (split_slash [] s)) | _ \<Rightarrow> Inl AttributeError)"

definition cell_failures :: "swarm_budget \<Rightarrow> nat \<Rightarrow> jdict \<Rightarrow> int \<Rightarrow> int \<Rightarrow> json list res" where
  "cell_failures budget index proposal cost total_cost =
    (let action = jget proposal ''action''
     in rbind (as_int (jget_or proposal ''memory'' (JInt 0))) (\<lambda>memory.
        rbind (if action = JStr ''write'' then unsafe_write_path (jget proposal ''path'') else Inr False) (\<lambda>unsafe.
        Inr ((if action \<noteq> JStr ''write'' \<and> action \<noteq> JStr ''reject''
              then [jfailure (value_str action) ''candidate action is outside verifier surface''] else []) @
             (if cost < 0 \<or> total_cost > sb_cost budget
              then [jfailure (str_nat index) ''candidate exceeds swarm cost budget''] else []) @
             (if memory > sb_memory budget then [jfailure (str_nat index) ''candidate exceeds swarm memory budget''] else []) @
             (if unsafe then [jfailure (value_str (jget proposal ''path'')) ''candidate write path is unsafe''] else [])))))"

definition cell_proof :: "nat \<Rightarrow> jdict \<Rightarrow> int \<Rightarrow> int \<Rightarrow> json list \<Rightarrow> jdict" where
  "cell_proof index proposal score cost failures =
    [(''index'', JInt (int index)), (''proposal'', JObj proposal), (''score'', JInt score), (''cost'', JInt cost),
     (''failures'', JList failures)]"

definition swarm_cell :: "swarm_budget \<Rightarrow> nat \<Rightarrow> int \<Rightarrow> jdict \<Rightarrow> (jdict \<times> int) res" where
  "swarm_cell budget index spent proposal =
    rbind (as_int (jget_or proposal ''cost'' (JInt 1))) (\<lambda>cost.
    rbind (cell_failures budget index proposal cost (spent + cost)) (\<lambda>failures.
    rbind (as_int (jget_or proposal ''score'' (JInt 0))) (\<lambda>score.
    let proof = cell_proof index proposal score cost failures
    in Inr ([(''format'', JStr ''BOGCELL-hypothesis-receipt-12.0'')] @ proof @
            [(''proof_sha256'', JStr (stable_hash (JObj proof))), (''execution_status'', status_json failures)], spent + cost))))"

fun swarm_cells :: "swarm_budget \<Rightarrow> nat \<Rightarrow> int \<Rightarrow> jdict list \<Rightarrow> jdict list res" where
  "swarm_cells budget index spent [] = Inr []"
| "swarm_cells budget index spent (proposal # rest) =
    rbind (swarm_cell budget index spent proposal) (\<lambda>(cell, spent').
    rbind (swarm_cells budget (index + 1) spent' rest) (\<lambda>cells. Inr (cell # cells)))"

text \<open>The slice \<open>xs[:n]\<close>.\<close>

definition py_take :: "int \<Rightarrow> 'a list \<Rightarrow> 'a list" where
  "py_take n xs = (if 0 \<le> n then take (nat n) xs else take (length xs - nat (- n)) xs)"

section \<open>Selection\<close>

definition cell_action :: "jdict \<Rightarrow> json res" where
  "cell_action cell = rbind (as_dict (jget_or cell ''proposal'' (JObj []))) (\<lambda>p. Inr (jget p ''action''))"

definition cell_key :: "jdict \<Rightarrow> (int \<times> int \<times> string) res" where
  "cell_key cell =
    rbind (jmember cell ''score'') (\<lambda>score. rbind (jmember cell ''cost'') (\<lambda>cost. rbind (jmember cell ''proof_sha256'') (\<lambda>proof.
    case (score, cost, proof) of (JInt s, JInt c, JStr p) \<Rightarrow> Inr (- s, c, p) | _ \<Rightarrow> Inl TypeError)))"

definition eligible_cells :: "jdict list \<Rightarrow> jdict list res" where
  "eligible_cells cells =
    rbind (map_res (\<lambda>cell. rbind (if jget cell ''execution_status'' = JStr ''completed''
        then rbind (cell_action cell) (\<lambda>a. Inr (a \<noteq> JStr ''reject'')) else Inr False) (\<lambda>keep. Inr (cell, keep))) cells) (\<lambda>tagged.
    rbind (map_res (\<lambda>cell. rbind (cell_key cell) (\<lambda>k. Inr (k, cell))) (map fst (filter snd tagged))) (\<lambda>keyed.
    Inr (map snd (sort_key fst keyed))))"

definition proposal_data :: "jdict \<Rightarrow> bytes res" where
  "proposal_data proposal = encoded_data (jget_or proposal ''data'' (JStr []))"

definition proposal_path :: "jdict \<Rightarrow> string res" where
  "proposal_path proposal = rbind (jmember proposal ''path'') (\<lambda>p. case p of JStr s \<Rightarrow> Inr s | _ \<Rightarrow> Inl TypeError)"

definition admit_cell :: "genesis_env \<Rightarrow> jdict option \<Rightarrow> (genesis, jdict option) action" where
  "admit_cell env selected = (case selected of
     None \<Rightarrow> alift (Inr None)
   | Some cell \<Rightarrow>
       abind (alift (rbind (jmember cell ''proposal'') as_dict)) (\<lambda>proposal.
       abind (alift (proposal_path proposal)) (\<lambda>path.
       abind (fs_write_value env path (proposal_data proposal) ''BogPilotSwarm'') (\<lambda>admission. alift (Inr (Some admission))))))"

definition budget_json :: "swarm_budget \<Rightarrow> json" where
  "budget_json b = JObj [(''cells'', JInt (sb_cells b)), (''cost'', JInt (sb_cost b)), (''memory'', JInt (sb_memory b))]"

definition swarm_receipt :: "string \<Rightarrow> swarm_budget \<Rightarrow> jdict list \<Rightarrow> jdict option \<Rightarrow> jdict option \<Rightarrow> jdict" where
  "swarm_receipt hypothesis budget cells selected admission =
    [(''format'', JStr ''BOGPILOT-swarm-receipt-12.0''), (''hypothesis_sha256'', JStr (hexdigest (utf8 hypothesis))),
     (''budget'', budget_json budget), (''hypothesis_tree'', JList (map JObj cells)),
     (''selected_proof_sha256'', case selected of None \<Rightarrow> JNull | Some cell \<Rightarrow> jget cell ''proof_sha256''),
     (''admission'', opt_json JObj admission), (''pilot_had_direct_authority'', JBool False),
     (''verifier_selected_best_path'', JBool (selected \<noteq> None)),
     (''execution_status'', JStr (if (case admission of None \<Rightarrow> False
        | Some a \<Rightarrow> jget a ''execution_status'' = JStr ''completed'') then ''completed'' else ''blocked''))]"

definition tournament :: "genesis_env \<Rightarrow> string \<Rightarrow> jdict list \<Rightarrow> swarm_budget \<Rightarrow> (genesis, jdict) action" where
  "tournament env hypothesis candidates budget =
    abind (alift (swarm_cells budget 1 0 (py_take (sb_cells budget) candidates))) (\<lambda>cells.
    abind (alift (eligible_cells cells)) (\<lambda>eligible.
    let selected = (case eligible of [] \<Rightarrow> None | cell # _ \<Rightarrow> Some cell)
    in abind (admit_cell env selected) (\<lambda>admission.
       record_entry env ''pilot-swarm'' (swarm_receipt hypothesis budget cells selected admission))))"

section \<open>Replay\<close>

definition replay_cell :: "jdict \<Rightarrow> json list res" where
  "replay_cell cell =
    rbind (map_res (\<lambda>k. rbind (jmember cell k) (\<lambda>v. Inr (k, v))) [''index'', ''proposal'', ''score'', ''cost'', ''failures'']) (\<lambda>proof.
    Inr (if jget cell ''proof_sha256'' \<noteq> JStr (stable_hash (JObj proof))
         then [jfailure (value_str (jget cell ''index'')) ''swarm cell proof mismatch''] else []))"

definition swarm_replay :: "jdict \<Rightarrow> json list res" where
  "swarm_replay receipt =
    rbind (as_list (jget_or receipt ''hypothesis_tree'' (JList []))) (\<lambda>items.
    rbind (map_res as_dict items) (\<lambda>cells.
    rbind (map_res replay_cell cells) (\<lambda>failures.
    rbind (eligible_cells cells) (\<lambda>eligible.
    let expected = (case eligible of [] \<Rightarrow> JNull | cell # _ \<Rightarrow> jget cell ''proof_sha256'')
    in Inr (concat failures @ (if expected \<noteq> jget receipt ''selected_proof_sha256''
         then [jfailure ''selection'' ''swarm best-path selection mismatch''] else []))))))"

section \<open>Replaying a tournament\<close>

lemma cell_members:
  assumes "swarm_cell budget index spent proposal = Inr (cell, spent')"
  obtains cost failures score where "as_int (jget_or proposal ''cost'' (JInt 1)) = Inr cost" and "spent' = spent + cost"
    and "cell_failures budget index proposal cost spent' = Inr failures"
    and "cell = [(''format'', JStr ''BOGCELL-hypothesis-receipt-12.0'')] @ cell_proof index proposal score cost failures @
      [(''proof_sha256'', JStr (stable_hash (JObj (cell_proof index proposal score cost failures)))), (''execution_status'', status_json failures)]"
  using assms that by (auto simp: swarm_cell_def rbind_Inr_iff Let_def)

lemma cells_replay:
  assumes "swarm_cells budget index spent ps = Inr cells"
  shows "map_res replay_cell cells = Inr (map (\<lambda>_. []) cells)"
  using assms
proof (induction ps arbitrary: index spent cells)
  case (Cons p ps)
  then obtain cell spent' more where c: "swarm_cell budget index spent p = Inr (cell, spent')"
      and more: "swarm_cells budget (index + 1) spent' ps = Inr more" and cells: "cells = cell # more"
    by (auto simp: rbind_Inr_iff)
  have "replay_cell cell = Inr []"
    by (rule cell_members [OF c]) (simp add: replay_cell_def jmember_def jget_def cell_proof_def)
  then show ?case using Cons.IH [OF more] by (simp add: cells)
qed simp

lemma tournament_parts:
  assumes "tournament env hypothesis candidates budget g = (Inr receipt, g')"
  obtains cells eligible admission g1 where "swarm_cells budget 1 0 (py_take (sb_cells budget) candidates) = Inr cells"
    and "eligible_cells cells = Inr eligible"
    and "admit_cell env (case eligible of [] \<Rightarrow> None | cell # _ \<Rightarrow> Some cell) g = (Inr admission, g1)"
    and "record_entry env ''pilot-swarm''
      (swarm_receipt hypothesis budget cells (case eligible of [] \<Rightarrow> None | cell # _ \<Rightarrow> Some cell) admission) g1 = (Inr receipt, g')"
proof -
  obtain cells eligible where c: "swarm_cells budget 1 0 (py_take (sb_cells budget) candidates) = Inr cells" "eligible_cells cells = Inr eligible"
    using assms by (cases "swarm_cells budget 1 0 (py_take (sb_cells budget) candidates)")
      (auto simp: tournament_def abind_def alift_def split: sum.splits)
  then show ?thesis using assms that [OF c] by (auto simp: tournament_def abind_def alift_def Let_def split: prod.splits sum.splits)
qed

lemma swarm_receipt_plain [simp]: "plain_receipt (swarm_receipt hypothesis budget cells selected admission)"
  by (simp add: plain_receipt_def swarm_receipt_def)

lemma tournament_replays:
  assumes "tournament env hypothesis candidates budget g = (Inr receipt, g')"
  shows "swarm_replay receipt = Inr []"
proof (rule tournament_parts [OF assms])
  fix cells eligible :: "jdict list" and admission g1
  let ?sel = "case eligible of [] \<Rightarrow> None | cell # _ \<Rightarrow> Some cell"
  assume cells: "swarm_cells budget 1 0 (py_take (sb_cells budget) candidates) = Inr cells" and el: "eligible_cells cells = Inr eligible"
    and rec: "record_entry env ''pilot-swarm'' (swarm_receipt hypothesis budget cells ?sel admission) g1 = (Inr receipt, g')"
  note m = recorded_members(4) [OF rec swarm_receipt_plain]
  have tree: "map_of receipt ''hypothesis_tree'' = Some (JList (map JObj cells))"
    using m [of "''hypothesis_tree''"] by (simp add: swarm_receipt_def)
  have sel: "map_of receipt ''selected_proof_sha256'' = Some (case ?sel of None \<Rightarrow> JNull | Some cell \<Rightarrow> jget cell ''proof_sha256'')"
    using m [of "''selected_proof_sha256''"] by (simp add: swarm_receipt_def)
  have "map_res as_dict (map JObj cells) = Inr cells" by (induction cells) (auto simp: as_dict_def)
  then show "swarm_replay receipt = Inr []" using cells_replay [OF cells] tree sel el
    by (simp add: swarm_replay_def jget_or_def jget_def as_list_def Let_def split: list.split)
qed

section \<open>The best cell is written\<close>

definition selectable :: "jdict \<Rightarrow> bool" where
  "selectable cell \<longleftrightarrow> jget cell ''execution_status'' = JStr ''completed'' \<and> cell_action cell \<noteq> Inr (JStr ''reject'')"

lemma tagged_cells:
  assumes "map_res (\<lambda>cell. rbind (if jget cell ''execution_status'' = JStr ''completed''
        then rbind (cell_action cell) (\<lambda>a. Inr (a \<noteq> JStr ''reject'')) else Inr False) (\<lambda>keep. Inr (cell, keep))) cells = Inr tagged"
  shows "map fst (filter snd tagged) = filter selectable cells"
  using assms by (induction cells arbitrary: tagged) (auto simp: rbind_Inr_iff selectable_def split: if_splits)

lemma keyed_cells:
  assumes "map_res (\<lambda>cell. rbind (cell_key cell) (\<lambda>k. Inr (k, cell))) cs = Inr keyed"
  shows "map snd keyed = cs \<and> (\<forall>(k, c) \<in> set keyed. cell_key c = Inr k)"
  using assms by (induction cs arbitrary: keyed) (auto simp: rbind_Inr_iff)

text \<open>The order of the tournament: higher score, then lower cost, then smaller proof digest.\<close>

definition ranks_before :: "jdict \<Rightarrow> jdict \<Rightarrow> bool" where
  "ranks_before c d \<longleftrightarrow> (\<exists>s k p s' k' p'. jget c ''score'' = JInt s \<and> jget c ''cost'' = JInt k \<and> jget c ''proof_sha256'' = JStr p \<and>
     jget d ''score'' = JInt s' \<and> jget d ''cost'' = JInt k' \<and> jget d ''proof_sha256'' = JStr p' \<and>
     (s' < s \<or> s = s' \<and> (k < k' \<or> k = k' \<and> p \<le> p')))"

lemma cell_key_members:
  assumes "cell_key c = Inr (a, b, p)"
  shows "jget c ''score'' = JInt (- a) \<and> jget c ''cost'' = JInt b \<and> jget c ''proof_sha256'' = JStr p"
  using assms by (auto simp: cell_key_def jmember_def jget_def rbind_Inr_iff split: option.splits json.splits)

lemma keys_rank:
  assumes "cell_key c = Inr k" and "cell_key d = Inr k'" and "k \<le> k'"
  shows "ranks_before c d"
proof -
  obtain a b p a' b' p' where k: "k = (a, b, p)" "k' = (a', b', p')" by (metis prod_cases3)
  have "a < a' \<or> a = a' \<and> (b < b' \<or> b = b' \<and> p \<le> p')" using assms(3) by (auto simp: k)
  then show ?thesis
    using cell_key_members [OF assms(1) [unfolded k]] cell_key_members [OF assms(2) [unfolded k]] unfolding ranks_before_def by auto
qed

lemma eligible_best:
  assumes "eligible_cells cells = Inr eligible"
  shows "set eligible = {c \<in> set cells. selectable c}"
    and "eligible = best # rest \<Longrightarrow> d \<in> set eligible \<Longrightarrow> ranks_before best d"
proof -
  obtain keyed where keyed: "map_res (\<lambda>cell. rbind (cell_key cell) (\<lambda>k. Inr (k, cell))) (filter selectable cells) = Inr keyed"
      and el: "eligible = map snd (sort_key fst keyed)"
    using assms tagged_cells [of cells] by (auto simp: eligible_cells_def rbind_Inr_iff)
  note k = keyed_cells [OF keyed]
  have "set (map snd keyed) = set (filter selectable cells)" using k by simp
  then show "set eligible = {c \<in> set cells. selectable c}" by (auto simp: el)
  assume best: "eligible = best # rest" and d: "d \<in> set eligible"
  obtain kb more where s: "sort_key fst keyed = (kb, best) # more" using best by (cases "sort_key fst keyed") (auto simp: el)
  obtain kd where kd: "(kd, d) \<in> set (sort_key fst keyed)" using d by (auto simp: el)
  have "sorted (map fst (sort_key fst keyed))" by (rule sorted_sort_key)
  then have "kb \<le> kd" using kd by (auto simp: s)
  moreover have "(kb, best) \<in> set (sort_key fst keyed)" by (simp add: s)
  then have "cell_key best = Inr kb" "cell_key d = Inr kd" using k kd unfolding set_sort by auto
  ultimately show "ranks_before best d" using keys_rank by blast
qed

text \<open>What a completed cell that is not a rejection stands for.\<close>

lemma selectable_cell:
  assumes "swarm_cells budget index spent ps = Inr cells" and "c \<in> set cells" and "selectable c"
  shows "\<exists>p \<in> set ps. jget c ''proposal'' = JObj p \<and> jget p ''action'' = JStr ''write'' \<and>
    (\<exists>path. jget p ''path'' = JStr path \<and> path \<noteq> [] \<and> ''..'' \<notin> set (split_slash [] path)) \<and>
    (\<exists>cost memory. as_int (jget_or p ''cost'' (JInt 1)) = Inr cost \<and> 0 \<le> cost \<and>
       as_int (jget_or p ''memory'' (JInt 0)) = Inr memory \<and> memory \<le> sb_memory budget)"
  using assms(1,2)
proof (induction ps arbitrary: index spent cells)
  case (Cons p ps)
  then obtain cell spent' more where c: "swarm_cell budget index spent p = Inr (cell, spent')"
      and more: "swarm_cells budget (index + 1) spent' ps = Inr more" and cells: "cells = cell # more"
    by (auto simp: rbind_Inr_iff)
  show ?case
  proof (cases "c = cell")
    case False
    then have "c \<in> set more" using Cons.prems(2) cells by simp
    from Cons.IH [OF more this] show ?thesis by auto
  next
    case True
    obtain cost failures score where m: "as_int (jget_or p ''cost'' (JInt 1)) = Inr cost" "spent' = spent + cost"
        "cell_failures budget index p cost spent' = Inr failures"
        "cell = [(''format'', JStr ''BOGCELL-hypothesis-receipt-12.0'')] @ cell_proof index p score cost failures @
      [(''proof_sha256'', JStr (stable_hash (JObj (cell_proof index p score cost failures)))), (''execution_status'', status_json failures)]"
      by (rule cell_members [OF c])
    have sel: "failures = []" "jget p ''action'' \<noteq> JStr ''reject''" "jget c ''proposal'' = JObj p"
      using assms(3) unfolding True m(4)
      by (auto simp: selectable_def jget_def jget_or_def cell_proof_def cell_action_def as_dict_def status_json_def split: if_splits)
    obtain memory unsafe where f: "as_int (jget_or p ''memory'' (JInt 0)) = Inr memory" "jget p ''action'' = JStr ''write''"
        "0 \<le> cost" "memory \<le> sb_memory budget" "unsafe_write_path (jget p ''path'') = Inr False"
      using m(3) sel(1,2) by (auto simp: cell_failures_def Let_def rbind_Inr_iff split: if_splits)
    have "\<exists>path. jget p ''path'' = JStr path \<and> path \<noteq> [] \<and> ''..'' \<notin> set (split_slash [] path)"
      using f(5) by (auto simp: unsafe_write_path_def split: if_splits json.splits)
    then show ?thesis using f m(1) sel(3) by (intro bexI [of _ p]) auto
  qed
qed simp

lemma admitted_write:
  assumes "jget c ''proposal'' = JObj p" and "jget p ''path'' = JStr path" and "admit_cell env (Some c) g = (Inr admission, g1)"
  obtains data receipt where "proposal_data p = Inr data" and "fs_write env path data ''BogPilotSwarm'' g = (Inr receipt, g1)"
    and "admission = Some receipt"
proof -
  have "map_of c ''proposal'' = Some (JObj p)" "map_of p ''path'' = Some (JStr path)"
    using assms(1,2) by (auto simp: jget_def split: option.splits)
  then show ?thesis using assms(3) that
    by (auto simp: admit_cell_def jmember_def as_dict_def proposal_path_def fs_write_value_def abind_def alift_def split: sum.splits prod.splits)
qed

text \<open>No candidate's content or resulting manifest collides with a stored one.\<close>

definition candidates_clear :: "genesis \<Rightarrow> jdict list \<Rightarrow> bool" where
  "candidates_clear g candidates \<longleftrightarrow> (\<forall>p \<in> set candidates. \<forall>path rel data. jget p ''path'' = JStr path \<longrightarrow>
     safe_path path = Inr rel \<longrightarrow> proposal_data p = Inr data \<longrightarrow> write_clear g rel data)"

text \<open>
  A finished tournament with a selectable cell has written the proposal of a best one, and nothing else;
  without a selectable cell the files are unchanged.
\<close>

lemma tournament_writes:
  assumes ok: "session_ok g" "room g" and "tournament env hypothesis candidates budget g = (Inr receipt, g')"
    and room1: "length (gn_ledger g) + 2 < 10 ^ 6"
    and clear: "candidates_clear g candidates"
  shows "\<exists>cells. swarm_cells budget 1 0 (py_take (sb_cells budget) candidates) = Inr cells \<and>
    (if \<exists>c \<in> set cells. selectable c
     then \<exists>c \<in> set cells. selectable c \<and> (\<forall>d \<in> set cells. selectable d \<longrightarrow> ranks_before c d) \<and>
       (\<exists>p path rel data. jget c ''proposal'' = JObj p \<and> jget p ''path'' = JStr path \<and> safe_path path = Inr rel \<and>
          proposal_data p = Inr data \<and> view g' = (view g)(rel \<mapsto> data))
     else view g' = view g)"
proof (rule tournament_parts [OF assms(3)])
  fix cells eligible :: "jdict list" and admission g1
  let ?sel = "case eligible of [] \<Rightarrow> None | cell # _ \<Rightarrow> Some cell"
  assume cells: "swarm_cells budget 1 0 (py_take (sb_cells budget) candidates) = Inr cells" and el: "eligible_cells cells = Inr eligible"
    and adm: "admit_cell env ?sel g = (Inr admission, g1)"
    and rec: "record_entry env ''pilot-swarm'' (swarm_receipt hypothesis budget cells ?sel admission) g1 = (Inr receipt, g')"
  show ?thesis
  proof (cases eligible)
    case Nil
    then have "\<not> (\<exists>c \<in> set cells. selectable c)" using eligible_best(1) [OF el] by auto
    moreover have "g1 = g" using adm Nil by (simp add: admit_cell_def alift_def)
    then have "same_files g g'" using recorded_keeps(2) [OF _ _ record_recorded [OF swarm_receipt_plain rec]] ok
      by (simp add: session_ok_def room_def)
    then have "view g' = view g" by (rule same_files_keep)
    ultimately show ?thesis using cells by auto
  next
    case (Cons c rest)
    have c: "c \<in> set cells" "selectable c" using eligible_best(1) [OF el] Cons by auto
    obtain p path where p: "jget c ''proposal'' = JObj p" "jget p ''path'' = JStr path" and "p \<in> set (py_take (sb_cells budget) candidates)"
      using selectable_cell [OF cells c] by blast
    then have given: "p \<in> set candidates" by (auto simp: py_take_def dest: in_set_takeD split: if_splits)
    have "admit_cell env (Some c) g = (Inr admission, g1)" using adm Cons by simp
    then obtain data entry where w: "proposal_data p = Inr data" "fs_write env path data ''BogPilotSwarm'' g = (Inr entry, g1)"
      by (rule admitted_write [OF p])
    obtain rel where rel: "safe_path path = Inr rel"
      using w(2) by (cases "safe_path path") (simp_all add: fs_write_def, simp add: alift_def)
    have "write_clear g rel data" using clear given p(2) rel w(1) by (auto simp: candidates_clear_def)
    note left = write_leaves [OF ok rel this w(2)]
    have "length (entries g1) = length (gn_ledger g1)" "length (entries g) = length (gn_ledger g)" by (simp_all add: entries_def)
    then have "room g1" using left(2) room1 by (simp add: room_def)
    then have "same_files g1 g'" using recorded_keeps(2) [OF _ _ record_recorded [OF swarm_receipt_plain rec]] left(1)
      by (simp add: continues_def session_ok_def room_def)
    then have "view g' = (view g)(rel \<mapsto> data)" using same_files_keep(2) left(3) by simp
    moreover have "\<forall>d \<in> set cells. selectable d \<longrightarrow> ranks_before c d"
      using eligible_best [OF el] Cons by blast
    ultimately show ?thesis using cells c p w(1) rel by auto
  qed
qed

section \<open>Gaps in the checks\<close>

text \<open>
  A candidate with a negative cost is blocked, but its cost still counts towards the total, so that a later
  candidate passes whatever its own cost.
\<close>

lemma negative_cost_pays:
  assumes "0 \<le> sb_cost budget" and "0 \<le> sb_memory budget" and "0 \<le> c"
  shows "\<exists>first second. swarm_cells budget 1 0
      [[(''action'', JStr ''reject''), (''cost'', JInt (- c))],
       [(''action'', JStr ''write''), (''path'', JStr ''x''), (''cost'', JInt c)]] = Inr [first, second] \<and>
    jget second ''execution_status'' = JStr ''completed'' \<and> jget second ''cost'' = JInt c"
  using assms by (simp add: swarm_cell_def cell_failures_def as_int_def unsafe_write_path_def jget_def jget_or_def Let_def
      cell_proof_def status_json_def)

text \<open>An absolute path passes the path check of a cell and then makes the write raise.\<close>

lemma absolute_path_raises:
  assumes "0 < sb_cost budget" and "0 \<le> sb_memory budget" and "1 \<le> sb_cells budget"
  shows "tournament env hypothesis [[(''action'', JStr ''write''), (''path'', JStr ''/x'')]] budget g =
    (Inl (GenesisError ''unsafe Genesis path: /x''), g)"
proof -
  let ?p = "[(''action'', JStr ''write''), (''path'', JStr ''/x'')]"
  have take1: "py_take (sb_cells budget) [?p] = [?p]" using assms(3) by (simp add: py_take_def)
  obtain cell where cell: "swarm_cell budget 1 0 ?p = Inr (cell, 1)" and sel: "jget cell ''execution_status'' = JStr ''completed''"
      "cell_action cell = Inr (JStr ''write'')" "\<exists>k. cell_key cell = Inr k" "jmember cell ''proposal'' = Inr (JObj ?p)"
    using assms(1,2) by (simp add: swarm_cell_def cell_failures_def as_int_def unsafe_write_path_def jget_def jget_or_def Let_def
      cell_proof_def status_json_def cell_action_def as_dict_def cell_key_def jmember_def)
  then have "swarm_cells budget 1 0 [?p] = Inr [cell]" "eligible_cells [cell] = Inr [cell]"
    by (auto simp: eligible_cells_def)
  moreover have "proposal_path ?p = Inr ''/x''" by (simp add: proposal_path_def jmember_def)
  moreover have "fs_write_value env ''/x'' (proposal_data ?p) ''BogPilotSwarm'' g = (Inl (GenesisError ''unsafe Genesis path: /x''), g)"
    by (simp add: fs_write_value_def safe_path_def is_absolute_def) (simp add: alift_def)
  ultimately show ?thesis
    unfolding tournament_def take1
    by (simp only: abind_simps Let_def list.case admit_cell_def option.case sel(4) rbind_simps as_dict_def json.case)
      (simp add: abind_def alift_def)
qed

end
