(* ===== verification/Mesh.thy ===== *)
theory Mesh
  imports Genesis
begin

text \<open>
  The signed claim exchange, \<^verbatim>\<open>src/bogvm/mesh.py\<close>: which stored claims count, how the claims of one namespace
  are grouped by context and by value, how the groups are ranked, and when a value wins, converges or
  splits.

  A stored claim is a record. Members beyond its fields, and an authority or a support that is not an integer,
  are kept apart as they are, because they are hashed and signed with the rest; a missing signature is the
  empty object. Where a claim with such an authority is resolved, the maximum is taken to raise \<open>TypeError\<close>,
  as it does for text; a fraction or a truth value would be compared. The directory of claims, the state file and the peers'
  key files are kept next to the Genesis directory, to whose ledger the receipts are recorded.
\<close>

section \<open>Claims\<close>

record mesh_claim =
  mc_format :: string
  mc_namespace :: string
  mc_value :: json
  mc_context :: json
  mc_authority :: "int option"
  mc_support :: "int option"
  mc_capability_scope :: "string list"
  mc_proposer_key_id :: string
  mc_claim_id :: string
  mc_signature :: json
  mc_extra :: jdict

definition CLAIM_FORMAT :: string where
  "CLAIM_FORMAT = ''BOGMESH-signed-claim-11.0''"

text \<open>The claim without its identifier and signature, and with its identifier.\<close>

definition claim_members :: "mesh_claim \<Rightarrow> (string \<times> json) list" where
  "claim_members c =
    [(''format'', JStr (mc_format c)), (''namespace'', JStr (mc_namespace c)), (''value'', mc_value c),
     (''context'', mc_context c)] @
    (case mc_authority c of None \<Rightarrow> [] | Some a \<Rightarrow> [(''authority'', JInt a)]) @
    (case mc_support c of None \<Rightarrow> [] | Some s \<Rightarrow> [(''support'', JInt s)]) @
    [(''capability_scope'', JList (map JStr (mc_capability_scope c))), (''proposer_key_id'', JStr (mc_proposer_key_id c))] @
    mc_extra c"

definition material_json :: "mesh_claim \<Rightarrow> json" where
  "material_json c = JObj (claim_members c)"

definition unsigned_json :: "mesh_claim \<Rightarrow> json" where
  "unsigned_json c = JObj (claim_members c @ [(''claim_id'', JStr (mc_claim_id c))])"

definition mesh_claim_failures :: "bool \<Rightarrow> mesh_claim \<Rightarrow> json list" where
  "mesh_claim_failures trusted c =
    (let cid = mc_claim_id c in
     (if mc_format c \<noteq> CLAIM_FORMAT \<or> cid \<noteq> stable_hash (material_json c)
      then [jfailure cid ''mesh claim format or hash mismatch''] else []) @
     (if \<not> trusted then [jfailure cid ''mesh claim signature is not trusted''] else []) @
     (if (case mc_support c of None \<Rightarrow> True | Some s \<Rightarrow> s < 1)
      then [jfailure cid ''mesh support must be a positive integer''] else []) @
     (if mc_capability_scope c = [] then [jfailure cid ''mesh claim has no capability scope''] else []))"

text \<open>The trusted keys are those of the workspace followed by the peers' key files in the order of their names.\<close>

definition verify_mesh_claim :: "ed25519 \<Rightarrow> string option list \<Rightarrow> mesh_claim \<Rightarrow> json list res" where
  "verify_mesh_claim ed keys c =
    rbind (verify_object_signature ed (unsigned_json c) (mc_signature c) keys) (\<lambda>check.
    Inr (mesh_claim_failures (sc_verified check) c))"

section \<open>Resolution\<close>

text \<open>\<open>groups.setdefault(key, []).append(item)\<close>.\<close>

definition group_by :: "('a \<Rightarrow> string) \<Rightarrow> 'a list \<Rightarrow> (string, 'a list) pydict" where
  "group_by key xs = foldl (\<lambda>d x. AList.update (key x) ((case map_of d (key x) of None \<Rightarrow> [] | Some ys \<Rightarrow> ys) @ [x]) d) [] xs"

record candidate_value =
  cv_value_hash :: string
  cv_value :: json
  cv_pressure :: int
  cv_authority :: int
  cv_claims :: "string list"

definition support_of :: "mesh_claim \<Rightarrow> int" where
  "support_of c = (case mc_support c of None \<Rightarrow> 0 | Some s \<Rightarrow> s)"

definition authority_of :: "mesh_claim \<Rightarrow> int res" where
  "authority_of c = (case mc_authority c of
     None \<Rightarrow> Inl (if ''authority'' \<in> fst ` set (mc_extra c) then TypeError else KeyError ''authority'')
   | Some a \<Rightarrow> Inr a)"

definition rank_value :: "string \<times> mesh_claim list \<Rightarrow> candidate_value res" where
  "rank_value = (\<lambda>(value_hash, supporters).
    rbind (map_res authority_of supporters) (\<lambda>authorities.
    Inr \<lparr>cv_value_hash = value_hash, cv_value = mc_value (hd supporters),
         cv_pressure = sum_list (map support_of supporters),
         cv_authority = Max (set authorities),
         cv_claims = sort (map mc_claim_id supporters)\<rparr>))"

definition rank_key :: "candidate_value \<Rightarrow> int \<times> int \<times> string" where
  "rank_key c = (- cv_authority c, - cv_pressure c, cv_value_hash c)"

definition value_key :: "mesh_claim \<Rightarrow> string" where
  "value_key c = stable_hash (JObj [(''value'', mc_value c)])"

definition pick_policy :: "candidate_value list \<Rightarrow> (string \<times> candidate_value option) res" where
  "pick_policy ranked = (case ranked of
     [] \<Rightarrow> Inl IndexError
   | [c] \<Rightarrow> Inr (''converge'', Some c)
   | c # d # _ \<Rightarrow>
       if cv_authority c > cv_authority d \<or> cv_pressure c > cv_pressure d
       then Inr (''winner'', Some c) else Inr (''split'', None))"

record mesh_outcome =
  mo_context_key :: string
  mo_context :: json
  mo_policy :: string
  mo_selected :: "candidate_value option"
  mo_candidates :: "candidate_value list"

definition resolve_context :: "string \<times> mesh_claim list \<Rightarrow> mesh_outcome res" where
  "resolve_context = (\<lambda>(context_key, claims).
    rbind (map_res rank_value (group_by value_key claims)) (\<lambda>unsorted.
    let ranked = sort_key rank_key unsorted
    in rbind (pick_policy ranked) (\<lambda>(policy, selected).
       rbind (loads context_key) (\<lambda>context.
       Inr \<lparr>mo_context_key = context_key, mo_context = context, mo_policy = policy, mo_selected = selected,
            mo_candidates = ranked\<rparr>))))"

definition resolve_claims :: "ed25519 \<Rightarrow> string option list \<Rightarrow> mesh_claim list \<Rightarrow> string \<Rightarrow> (mesh_outcome list \<times> string list) res" where
  "resolve_claims ed keys stored namespace =
    rbind (map_res (\<lambda>c. rbind (verify_mesh_claim ed keys c) (\<lambda>failures. Inr (c, failures)))
      (filter (\<lambda>c. mc_namespace c = namespace) stored)) (\<lambda>checked.
    let valid = map fst (filter (\<lambda>(c, failures). failures = []) checked);
        quarantined = map fst (filter (\<lambda>(c, failures). failures \<noteq> []) checked)
    in rbind (map_res resolve_context (sort_key fst (group_by (\<lambda>c. dumps (mc_context c)) valid))) (\<lambda>outcomes.
       Inr (outcomes, map mc_claim_id quarantined)))"

definition candidate_json :: "candidate_value \<Rightarrow> json" where
  "candidate_json c = JObj [(''value_hash'', JStr (cv_value_hash c)), (''value'', cv_value c), (''pressure'', JInt (cv_pressure c)),
     (''authority'', JInt (cv_authority c)), (''claims'', JList (map JStr (cv_claims c)))]"

definition outcome_json :: "mesh_outcome \<Rightarrow> json" where
  "outcome_json oc = JObj [(''context'', mo_context oc), (''policy'', JStr (mo_policy oc)),
     (''selected'', opt_json candidate_json (mo_selected oc)), (''candidates'', JList (map candidate_json (mo_candidates oc)))]"

section \<open>The mesh directory\<close>

record mesh =
  mx_genesis :: genesis
  mx_claims :: "(string, mesh_claim) pydict"
  mx_peers :: "(string, string option) pydict"
  mx_state :: "jdict option"

definition mesh_keys :: "genesis_env \<Rightarrow> mesh \<Rightarrow> string option list" where
  "mesh_keys env m = ge_trusted_keys env @ map snd (sort_key fst (mx_peers m))"

definition stored_claims :: "mesh \<Rightarrow> mesh_claim list" where
  "stored_claims m = map snd (sort_key fst (mx_claims m))"

definition trust_peer :: "string option \<Rightarrow> (mesh, jdict) action" where
  "trust_peer key =
    abind (alift (public_key_info key)) (\<lambda>info.
    let key_id = value_str (jget info ''key_id'')
    in (\<lambda>m. (Inr [(''format'', JStr ''BOGMESH-peer-trust-receipt-11.0''), (''key_id'', JStr key_id), (''execution_status'', JStr ''completed'')],
        m\<lparr>mx_peers := AList.update (key_id @ ''.pub'') key (mx_peers m)\<rparr>)))"

definition mesh_state :: "string \<Rightarrow> mesh_outcome list \<Rightarrow> string list \<Rightarrow> jdict" where
  "mesh_state namespace outcomes quarantined =
    [(''format'', JStr ''BOGMESH-state-11.0''), (''namespace'', JStr namespace), (''outcomes'', JList (map outcome_json outcomes)),
     (''quarantined_claims'', JList (map JStr quarantined))]"

definition mesh_receipt :: "jdict \<Rightarrow> mesh_outcome list \<Rightarrow> jdict" where
  "mesh_receipt state outcomes = jmerge state
    [(''format'', JStr ''BOGMESH-conflict-receipt-11.0''),
     (''conflict_detected'', JBool (\<exists>oc \<in> set outcomes. length (mo_candidates oc) > 1)),
     (''context_split'', JBool ((\<exists>oc \<in> set outcomes. mo_policy oc = ''split'') \<or> length outcomes > 1)),
     (''execution_status'', JStr ''completed'')]"

definition mesh_record :: "genesis_env \<Rightarrow> string \<Rightarrow> jdict \<Rightarrow> (mesh, jdict) action" where
  "mesh_record env event receipt = (\<lambda>m. case record_entry env event receipt (mx_genesis m) of (r, g) \<Rightarrow> (r, m\<lparr>mx_genesis := g\<rparr>))"

definition resolve_mesh :: "genesis_env \<Rightarrow> string \<Rightarrow> (mesh, jdict) action" where
  "resolve_mesh env namespace =
    abind (aread (\<lambda>m. resolve_claims (ge_ed env) (mesh_keys env m) (stored_claims m) namespace)) (\<lambda>(outcomes, quarantined).
    let body = mesh_state namespace outcomes quarantined;
        state = body @ [(''state_root_sha256'', JStr (stable_hash (JObj body)))]
    in abind (\<lambda>m. (Inr (), m\<lparr>mx_state := Some state\<rparr>)) (\<lambda>_.
       mesh_record env ''mesh-resolve'' (mesh_receipt state outcomes)))"

definition store_claim :: "mesh_claim \<Rightarrow> (mesh, unit) action" where
  "store_claim c = (\<lambda>m. (Inr (), m\<lparr>mx_claims := AList.update (mc_claim_id c @ ''.json'') c (mx_claims m)\<rparr>))"

definition propose ::
  "genesis_env \<Rightarrow> string \<Rightarrow> json \<Rightarrow> json \<Rightarrow> int \<Rightarrow> int \<Rightarrow> string list \<Rightarrow> (mesh, jdict) action" where
  "propose env namespace val context authority support scope =
    abind (alift (case ge_trusted_keys env of [] \<Rightarrow> Inl IndexError | key # _ \<Rightarrow> public_key_info key)) (\<lambda>info.
    let c = \<lparr>mc_format = CLAIM_FORMAT, mc_namespace = namespace, mc_value = val, mc_context = context,
             mc_authority = Some authority, mc_support = Some support,
             mc_capability_scope = sort (remdups scope), mc_proposer_key_id = value_str (jget info ''key_id''),
             mc_claim_id = [], mc_signature = JObj [], mc_extra = []\<rparr>;
        c1 = c\<lparr>mc_claim_id := stable_hash (material_json c)\<rparr>
    in abind (alift (sign_object (ge_ed env) (unsigned_json c1) (ge_private_key env))) (\<lambda>signature.
       abind (store_claim (c1\<lparr>mc_signature := signature\<rparr>)) (\<lambda>_.
       resolve_mesh env namespace)))"

definition import_claim :: "genesis_env \<Rightarrow> mesh_claim \<Rightarrow> (mesh, jdict) action" where
  "import_claim env c =
    abind (aread (\<lambda>m. verify_mesh_claim (ge_ed env) (mesh_keys env m) c)) (\<lambda>failures.
    abind (if failures = [] then store_claim c else alift (Inr ())) (\<lambda>_.
    alift (Inr [(''format'', JStr ''BOGMESH-import-receipt-11.0''), (''claim_id'', JStr (mc_claim_id c)),
      (''failures'', JList failures), (''execution_status'', status_json failures)])))"

definition verify_mesh :: "genesis_env \<Rightarrow> mesh \<Rightarrow> json list res" where
  "verify_mesh env m =
    rbind (map_res (verify_mesh_claim (ge_ed env) (mesh_keys env m)) (stored_claims m)) (\<lambda>claim_failures.
    Inr (concat claim_failures @
      (case mx_state m of
         None \<Rightarrow> []
       | Some state \<Rightarrow> if jget state ''state_root_sha256'' \<noteq> JStr (stable_hash (JObj (AList.delete ''state_root_sha256'' state)))
           then [jfailure ''state.json'' ''mesh state root mismatch''] else [])))"

section \<open>Grouping\<close>

lemma group_by_snoc:
  "group_by key (xs @ [x]) = AList.update (key x)
     ((case map_of (group_by key xs) (key x) of None \<Rightarrow> [] | Some ys \<Rightarrow> ys) @ [x]) (group_by key xs)"
  by (simp add: group_by_def)

lemma group_by_props:
  "distinct (map fst (group_by key xs)) \<and>
   (\<forall>k. map_of (group_by key xs) k = (let ys = filter (\<lambda>x. key x = k) xs in if ys = [] then None else Some ys))"
proof (induction xs rule: rev_induct)
  case (snoc x xs)
  then show ?case by (auto simp: group_by_snoc distinct_update Let_def)
qed (simp add: group_by_def)

lemma group_by_members:
  assumes "(k, ys) \<in> set (group_by key xs)"
  shows "ys \<noteq> [] \<and> ys = filter (\<lambda>x. key x = k) xs"
proof -
  have "map_of (group_by key xs) k = Some ys" using assms group_by_props by (metis map_of_is_SomeI)
  then show ?thesis using group_by_props [of key xs] by (auto simp: Let_def split: if_splits)
qed

lemma group_by_keys: "fst ` set (group_by key xs) = key ` set xs"
proof -
  have "dom (map_of (group_by key xs)) = key ` set xs"
    using group_by_props [of key xs] by (auto simp: dom_def Let_def filter_empty_conv)
  then show ?thesis by (simp add: dom_map_of_conv_image_fst)
qed

section \<open>Ranking\<close>

lemma pick_policy_spec:
  assumes "ranked = sort_key rank_key unsorted" and "unsorted \<noteq> []"
  shows "\<exists>policy selected. pick_policy ranked = Inr (policy, selected) \<and> (case selected of
      Some c \<Rightarrow> policy \<in> {''converge'', ''winner''} \<and> c \<in> set unsorted \<and> (\<exists>rest. ranked = c # rest \<and>
        (\<forall>d \<in> set rest. (cv_authority d, cv_pressure d) < (cv_authority c, cv_pressure c)))
    | None \<Rightarrow> policy = ''split'' \<and> (\<exists>c d rest. ranked = c # d # rest \<and> (cv_authority c, cv_pressure c) = (cv_authority d, cv_pressure d) \<and>
        (\<forall>e \<in> set unsorted. (cv_authority e, cv_pressure e) \<le> (cv_authority c, cv_pressure c))))"
proof -
  have sorted: "sorted (map rank_key ranked)" and sets: "set ranked = set unsorted" using assms by auto
  then have ne: "ranked \<noteq> []" using assms(2) by (metis set_empty)
  have mono: "rank_key c \<le> rank_key d \<Longrightarrow> (cv_authority d, cv_pressure d) \<le> (cv_authority c, cv_pressure c)" for c d
    by (auto simp: rank_key_def less_eq_prod_def)
  obtain c rest where r: "ranked = c # rest" using ne by (cases ranked) auto
  have top: "(cv_authority d, cv_pressure d) \<le> (cv_authority c, cv_pressure c)" if "d \<in> set rest" for d
    using sorted that mono by (auto simp: r)
  show ?thesis
  proof (cases rest)
    case Nil
    then show ?thesis using r sets by (auto simp: pick_policy_def)
  next
    case (Cons d more)
    have dtop: "(cv_authority e, cv_pressure e) \<le> (cv_authority d, cv_pressure d)" if "e \<in> set more" for e
      using sorted that mono by (auto simp: r Cons)
    show ?thesis
    proof (cases "cv_authority c > cv_authority d \<or> cv_pressure c > cv_pressure d")
      case True
      then have "(cv_authority d, cv_pressure d) < (cv_authority c, cv_pressure c)"
        using top [of d] Cons by (auto simp: less_eq_prod_def less_prod_def)
      moreover have "(cv_authority e, cv_pressure e) \<le> (cv_authority d, cv_pressure d)" if "e \<in> set rest" for e
        using dtop [of e] that unfolding Cons by (cases "e = d") simp_all
      ultimately have "\<forall>e \<in> set rest. (cv_authority e, cv_pressure e) < (cv_authority c, cv_pressure c)"
        using le_less_trans by blast
      then show ?thesis using True r Cons sets by (auto simp: pick_policy_def)
    next
      case False
      then have "(cv_authority c, cv_pressure c) = (cv_authority d, cv_pressure d)"
        using top [of d] Cons by (auto simp: less_eq_prod_def)
      moreover have "(cv_authority e, cv_pressure e) \<le> (cv_authority c, cv_pressure c)" if "e \<in> set unsorted" for e
      proof (cases "e = c")
        case False
        then have "e \<in> set rest" using that sets r by auto
        then show ?thesis by (rule top)
      qed simp
      moreover have "pick_policy ranked = Inr (''split'', None)" using False by (simp add: pick_policy_def r Cons)
      ultimately show ?thesis using r Cons by auto
    qed
  qed
qed

section \<open>What a resolution says\<close>

lemma rank_value_Inr:
  assumes "rank_value (k, ys) = Inr c" and "ys \<noteq> []"
  shows "cv_value_hash c = k \<and> cv_pressure c = sum_list (map support_of ys) \<and>
    (\<forall>y \<in> set ys. \<exists>a. mc_authority y = Some a \<and> a \<le> cv_authority c) \<and> (\<exists>y \<in> set ys. mc_authority y = Some (cv_authority c))"
proof -
  obtain as where as: "map_res authority_of ys = Inr as" and c: "cv_value_hash c = k" "cv_pressure c = sum_list (map support_of ys)"
      "cv_authority c = Max (set as)"
    using assms(1) by (auto simp: rank_value_def rbind_Inr_iff)
  have "map mc_authority ys = map Some as"
    using as unfolding map_res_Inr_iff
    by (induction ys as rule: list_all2_induct) (auto simp: authority_of_def split: option.splits)
  then have "mc_authority ` set ys = Some ` set as" by (metis list.set_map)
  moreover have "set as \<noteq> {}" using assms(2) as by (cases ys) (auto simp: rbind_Inr_iff)
  then have "Max (set as) \<in> set as" "\<forall>a \<in> set as. a \<le> Max (set as)" by simp_all
  moreover have "\<exists>a. mc_authority y = Some a \<and> a \<le> cv_authority c" if "y \<in> set ys" for y
  proof -
    have "mc_authority y \<in> Some ` set as" using that calculation(1) by blast
    then show ?thesis using calculation(3) c(3) by auto
  qed
  moreover have "Some (cv_authority c) \<in> mc_authority ` set ys" unfolding calculation(1) c(3) using calculation(2) by (rule imageI)
  ultimately show ?thesis using c(1,2) by force
qed

text \<open>
  The outcome of one context: one candidate per distinct value digest, with the summed support and the
  largest authority of the claims for it, and the selected candidate strictly above all others in
  (authority, pressure).
\<close>

definition outcome_ok :: "mesh_claim list \<Rightarrow> mesh_outcome \<Rightarrow> bool" where
  "outcome_ok claims oc \<longleftrightarrow>
     distinct (map cv_value_hash (mo_candidates oc)) \<and> set (map cv_value_hash (mo_candidates oc)) = value_key ` set claims \<and>
     (\<forall>c \<in> set (mo_candidates oc).
        cv_pressure c = sum_list (map support_of (filter (\<lambda>x. value_key x = cv_value_hash c) claims)) \<and>
        (\<exists>x \<in> set claims. value_key x = cv_value_hash c \<and> mc_authority x = Some (cv_authority c)) \<and>
        (\<forall>x \<in> set claims. value_key x = cv_value_hash c \<longrightarrow> (\<exists>a. mc_authority x = Some a \<and> a \<le> cv_authority c))) \<and>
     (case mo_selected oc of
        Some c \<Rightarrow> mo_policy oc \<in> {''converge'', ''winner''} \<and> (\<exists>rest. mo_candidates oc = c # rest \<and>
          (\<forall>d \<in> set rest. (cv_authority d, cv_pressure d) < (cv_authority c, cv_pressure c)))
      | None \<Rightarrow> mo_policy oc = ''split'' \<and> (\<exists>c d rest. mo_candidates oc = c # d # rest \<and>
          (cv_authority c, cv_pressure c) = (cv_authority d, cv_pressure d) \<and>
          (\<forall>e \<in> set (mo_candidates oc). (cv_authority e, cv_pressure e) \<le> (cv_authority c, cv_pressure c))))"

lemma resolve_context_ok:
  assumes "resolve_context (k, claims) = Inr oc" and "claims \<noteq> []"
  shows "mo_context_key oc = k \<and> outcome_ok claims oc"
proof -
  let ?g = "group_by value_key claims"
  obtain cs policy selected cx where cs: "map_res rank_value ?g = Inr cs" and pick: "pick_policy (sort_key rank_key cs) = Inr (policy, selected)"
      and oc: "oc = \<lparr>mo_context_key = k, mo_context = cx, mo_policy = policy, mo_selected = selected, mo_candidates = sort_key rank_key cs\<rparr>"
    using assms(1) by (auto simp: resolve_context_def rbind_Inr_iff Let_def)
  have all2: "list_all2 (\<lambda>g c. rank_value g = Inr c) ?g cs" using cs by (simp add: map_res_Inr_iff)
  have len: "length cs = length ?g" using all2 by (auto dest: list_all2_lengthD)
  have each: "cv_value_hash (cs ! i) = fst (?g ! i) \<and> rank_value (fst (?g ! i), snd (?g ! i)) = Inr (cs ! i) \<and>
      snd (?g ! i) \<noteq> [] \<and> snd (?g ! i) = filter (\<lambda>x. value_key x = cv_value_hash (cs ! i)) claims" if "i < length cs" for i
  proof -
    have r: "rank_value (fst (?g ! i), snd (?g ! i)) = Inr (cs ! i)" using all2 that by (simp add: list_all2_conv_all_nth)
    have "(fst (?g ! i), snd (?g ! i)) \<in> set ?g" using that len by simp
    then have "snd (?g ! i) \<noteq> [] \<and> snd (?g ! i) = filter (\<lambda>x. value_key x = fst (?g ! i)) claims" by (rule group_by_members)
    with rank_value_Inr [OF r] r show ?thesis by metis
  qed
  have hashes: "map cv_value_hash cs = map fst ?g" using each len by (intro nth_equalityI) auto
  have dist: "distinct (map cv_value_hash cs)" unfolding hashes using group_by_props by blast
  have keys: "set (map cv_value_hash cs) = value_key ` set claims" unfolding hashes using group_by_keys by (metis list.set_map)
  have value_ok: "cv_pressure c = sum_list (map support_of (filter (\<lambda>x. value_key x = cv_value_hash c) claims)) \<and>
      (\<exists>x \<in> set claims. value_key x = cv_value_hash c \<and> mc_authority x = Some (cv_authority c)) \<and>
      (\<forall>x \<in> set claims. value_key x = cv_value_hash c \<longrightarrow> (\<exists>a. mc_authority x = Some a \<and> a \<le> cv_authority c))"
    if "c \<in> set cs" for c
  proof -
    have "\<exists>i < length cs. cs ! i = c" using that by (simp only: in_set_conv_nth)
    then obtain i where i: "i < length cs" "c = cs ! i" by blast
    let ?ys = "filter (\<lambda>x. value_key x = cv_value_hash c) claims"
    have e: "rank_value (fst (?g ! i), snd (?g ! i)) = Inr c" "snd (?g ! i) \<noteq> []" "snd (?g ! i) = ?ys"
      using each [OF i(1)] unfolding i(2) by blast+
    from rank_value_Inr [OF e(1,2)] show ?thesis unfolding e(3) by auto
  qed
  have "cs \<noteq> []" using keys assms(2) by auto
  from pick_policy_spec [OF refl this] pick
  have sel: "case selected of
      Some c \<Rightarrow> policy \<in> {''converge'', ''winner''} \<and> c \<in> set cs \<and> (\<exists>rest. sort_key rank_key cs = c # rest \<and>
        (\<forall>d \<in> set rest. (cv_authority d, cv_pressure d) < (cv_authority c, cv_pressure c)))
    | None \<Rightarrow> policy = ''split'' \<and> (\<exists>c d rest. sort_key rank_key cs = c # d # rest \<and>
        (cv_authority c, cv_pressure c) = (cv_authority d, cv_pressure d) \<and>
        (\<forall>e \<in> set cs. (cv_authority e, cv_pressure e) \<le> (cv_authority c, cv_pressure c)))"
    by auto
  have "distinct (map cv_value_hash (sort_key rank_key cs))" using dist by (simp add: distinct_map)
  then show ?thesis using keys value_ok sel unfolding outcome_ok_def oc mesh_outcome.simps set_map set_sort
    by (cases selected; simp only: option.case simp_thms; blast)
qed

lemma map_res_origin:
  assumes "map_res f xs = Inr ys" and "y \<in> set ys"
  obtains x where "x \<in> set xs" and "f x = Inr y"
proof -
  obtain i where i: "i < length ys" "ys ! i = y" using assms(2) by (metis in_set_conv_nth)
  have "list_all2 (\<lambda>x y. f x = Inr y) xs ys" using assms(1) by (simp add: map_res_Inr_iff)
  then have "i < length xs" "f (xs ! i) = Inr y" using i by (simp_all add: list_all2_conv_all_nth)
  then show ?thesis using that [OF nth_mem] by blast
qed

text \<open>The claims of a namespace that verify.\<close>

definition claim_valid :: "ed25519 \<Rightarrow> string option list \<Rightarrow> string \<Rightarrow> mesh_claim \<Rightarrow> bool" where
  "claim_valid ed keys namespace c \<longleftrightarrow> mc_namespace c = namespace \<and> verify_mesh_claim ed keys c = Inr []"

lemma checked_claims:
  assumes "map_res (\<lambda>c. rbind (f c) (\<lambda>failures. Inr (c, failures))) cs = Inr checked"
  shows "map fst (filter (\<lambda>(c, failures). failures = []) checked) = filter (\<lambda>c. f c = Inr []) cs"
  using assms by (induction cs arbitrary: checked) (auto simp: rbind_Inr_iff)

lemma resolve_claims_ok:
  assumes "resolve_claims ed keys stored namespace = Inr (outcomes, quarantined)"
  shows "\<forall>oc \<in> set outcomes. outcome_ok
      (filter (\<lambda>c. claim_valid ed keys namespace c \<and> dumps (mc_context c) = mo_context_key oc) stored) oc"
proof
  fix oc assume oc: "oc \<in> set outcomes"
  let ?valid = "filter (claim_valid ed keys namespace) stored"
  let ?g = "group_by (\<lambda>c. dumps (mc_context c)) ?valid"
  obtain checked where checked: "map_res (\<lambda>c. rbind (verify_mesh_claim ed keys c) (\<lambda>failures. Inr (c, failures)))
        (filter (\<lambda>c. mc_namespace c = namespace) stored) = Inr checked"
      and outs: "map_res resolve_context (sort_key fst (group_by (\<lambda>c. dumps (mc_context c))
        (map fst (filter (\<lambda>(c, failures). failures = []) checked)))) = Inr outcomes"
    using assms by (auto simp: resolve_claims_def Let_def rbind_Inr_iff)
  have "map fst (filter (\<lambda>(c, failures). failures = []) checked) = ?valid"
    unfolding checked_claims [OF checked] filter_filter claim_valid_def by (rule filter_cong) auto
  then have "map_res resolve_context (sort_key fst ?g) = Inr outcomes" using outs by simp
  then obtain g where g: "g \<in> set ?g" "resolve_context g = Inr oc"
    using oc by (rule map_res_origin) simp
  obtain k ys where kys: "g = (k, ys)" by (cases g)
  have ys: "ys \<noteq> []" "ys = filter (\<lambda>c. dumps (mc_context c) = k) ?valid"
    using group_by_members [of k ys "\<lambda>c. dumps (mc_context c)" ?valid] g kys by auto
  have "mo_context_key oc = k \<and> outcome_ok ys oc" using resolve_context_ok g(2) ys(1) kys by blast
  moreover have "ys = filter (\<lambda>c. claim_valid ed keys namespace c \<and> dumps (mc_context c) = k) stored"
    using ys(2) by (simp add: conj_commute)
  ultimately show "outcome_ok
      (filter (\<lambda>c. claim_valid ed keys namespace c \<and> dumps (mc_context c) = mo_context_key oc) stored) oc"
    by simp
qed

section \<open>A verified mesh stays verified\<close>

definition state_root_ok :: "jdict option \<Rightarrow> bool" where
  "state_root_ok st \<longleftrightarrow> (case st of None \<Rightarrow> True | Some state \<Rightarrow>
     jget state ''state_root_sha256'' = JStr (stable_hash (JObj (AList.delete ''state_root_sha256'' state))))"

lemma map_res_all_empty: "(\<exists>yss. map_res f xs = Inr yss \<and> concat yss = []) \<longleftrightarrow> (\<forall>x \<in> set xs. f x = Inr [])"
proof
  assume "\<exists>yss. map_res f xs = Inr yss \<and> concat yss = []"
  then obtain yss where "list_all2 (\<lambda>x ys. f x = Inr ys) xs yss" "concat yss = []" by (auto simp: map_res_Inr_iff)
  then show "\<forall>x \<in> set xs. f x = Inr []" by (induction xs yss rule: list_all2_induct) auto
next
  assume "\<forall>x \<in> set xs. f x = Inr []"
  then have "map_res f xs = Inr (map (\<lambda>_. []) xs)" by (intro map_res_total) simp
  then show "\<exists>yss. map_res f xs = Inr yss \<and> concat yss = []" by (auto intro!: exI [of _ "map (\<lambda>_. []) xs"])
qed

lemma verify_mesh_clean_iff:
  "verify_mesh env m = Inr [] \<longleftrightarrow>
     (\<forall>c \<in> snd ` set (mx_claims m). verify_mesh_claim (ge_ed env) (mesh_keys env m) c = Inr []) \<and> state_root_ok (mx_state m)"
proof -
  have "verify_mesh env m = Inr [] \<longleftrightarrow> (\<exists>cf. map_res (verify_mesh_claim (ge_ed env) (mesh_keys env m)) (stored_claims m) = Inr cf \<and>
      concat cf = []) \<and> state_root_ok (mx_state m)"
    by (auto simp: verify_mesh_def rbind_Inr_iff state_root_ok_def split: option.splits)
  then show ?thesis unfolding map_res_all_empty by (simp add: stored_claims_def)
qed

lemma import_claim_effect:
  assumes "import_claim env c m = (Inr r, m')"
  obtains failures where "verify_mesh_claim (ge_ed env) (mesh_keys env m) c = Inr failures"
    and "jget r ''execution_status'' = status_json failures"
    and "m' = (if failures = [] then m\<lparr>mx_claims := AList.update (mc_claim_id c @ ''.json'') c (mx_claims m)\<rparr> else m)"
  using assms by (cases "verify_mesh_claim (ge_ed env) (mesh_keys env m) c")
    (auto simp: import_claim_def abind_def aread_def alift_def store_claim_def jget_def split: if_splits)

lemma import_keeps_verified:
  assumes "verify_mesh env m = Inr []" and "import_claim env c m = (Inr r, m')"
  shows "verify_mesh env m' = Inr []"
proof -
  obtain failures where f: "verify_mesh_claim (ge_ed env) (mesh_keys env m) c = Inr failures"
      "m' = (if failures = [] then m\<lparr>mx_claims := AList.update (mc_claim_id c @ ''.json'') c (mx_claims m)\<rparr> else m)"
    by (rule import_claim_effect [OF assms(2)])
  show ?thesis
  proof (cases "failures = []")
    case True
    have "snd ` set (AList.update k c d) \<subseteq> insert c (snd ` set d)" for k and d :: "(string, mesh_claim) pydict"
      by (induction d) auto
    then have sub: "snd ` set (mx_claims m') \<subseteq> insert c (snd ` set (mx_claims m))" using f(2) True by simp
    have same: "mesh_keys env m' = mesh_keys env m" "mx_state m' = mx_state m" using f(2) True by (simp_all add: mesh_keys_def)
    have "verify_mesh_claim (ge_ed env) (mesh_keys env m) d = Inr []" if "d \<in> snd ` set (mx_claims m')" for d
    proof -
      have "d = c \<or> d \<in> snd ` set (mx_claims m)" using sub that by blast
      then show ?thesis using assms(1) f(1) True unfolding verify_mesh_clean_iff by blast
    qed
    then show ?thesis using assms(1) unfolding verify_mesh_clean_iff same by blast
  qed (use assms(1) f in simp)
qed

lemma resolve_keeps_verified:
  assumes "verify_mesh env m = Inr []" and "resolve_mesh env namespace m = (res, m')"
  shows "verify_mesh env m' = Inr []"
proof -
  have root: "state_root_ok (Some (mesh_state n outs q @ [(''state_root_sha256'', JStr (stable_hash (JObj (mesh_state n outs q))))]))" for n outs q
    by (simp add: state_root_ok_def mesh_state_def jget_def)
  have "mx_claims m' = mx_claims m \<and> mx_peers m' = mx_peers m \<and> (mx_state m' = mx_state m \<or> state_root_ok (mx_state m'))"
    using assms(2) root
    by (cases "resolve_claims (ge_ed env) (mesh_keys env m) (stored_claims m) namespace")
      (auto simp: resolve_mesh_def abind_def aread_def mesh_record_def Let_def split: prod.splits)
  then show ?thesis using assms(1) by (auto simp: verify_mesh_clean_iff mesh_keys_def)
qed

section \<open>Proposals are valid\<close>

lemma proposed_verifies:
  assumes "ed25519_correct ed" and "trusts_own ed private keys" and "sign_object ed (unsigned_json c) private = Inr sg"
    and "mc_format c = CLAIM_FORMAT" and "mc_claim_id c = stable_hash (material_json c)"
    and "mc_support c = Some s" and "1 \<le> s" and "mc_capability_scope c \<noteq> []"
  shows "verify_mesh_claim ed keys (c\<lparr>mc_signature := sg\<rparr>) = Inr []"
proof -
  obtain k where "verify_object_signature ed (unsigned_json c) sg keys = Inr \<lparr>sc_verified = True, sc_key_id = k, sc_reason = JNull\<rparr>"
    using sign_then_verify [OF assms(1,2)] assms(3) by (metis sum.inject(2))
  moreover have "unsigned_json (c\<lparr>mc_signature := sg\<rparr>) = unsigned_json c" "material_json (c\<lparr>mc_signature := sg\<rparr>) = material_json c"
    by (simp_all add: unsigned_json_def material_json_def claim_members_def)
  ultimately show ?thesis using assms(4-8) by (simp add: verify_mesh_claim_def mesh_claim_failures_def)
qed

end
