(* ===== verification/Genesis_Demo.thy ===== *)
theory Genesis_Demo
  imports Genesis_Replay Swarm Mesh
begin

text \<open>
  One concrete workspace at which the statements about the ledger are instantiated: a signature scheme
  that satisfies the law the code relies on, a key that is trusted by its own workspace, a schema without
  constraints, and a directory with one file. The scheme is only a model of the law and not of Ed25519.
\<close>

definition plain_ed :: ed25519 where
  "plain_ed = \<lparr>ed_public = (\<lambda>sk. sk), ed_sign = (\<lambda>sk m. m), ed_verify = (\<lambda>pk s m. s = m)\<rparr>"

definition demo_key :: "string option" where
  "demo_key = Some (b64encode (replicate 32 0) @ newline)"

definition demo_env :: genesis_env where
  "demo_env = \<lparr>ge_ed = plain_ed, ge_private_key = demo_key, ge_trusted_keys = [demo_key], ge_receipt_schema = (\<lambda>_. [])\<rparr>"

definition demo_files :: files where
  "demo_files = [(''a'', \<lparr>fr_object_sha256 = hexdigest [1], fr_size = 1\<rparr>)]"

definition demo_genesis :: genesis where
  "demo_genesis = \<lparr>gn_ledger = [], gn_objects = [(hexdigest [1], [1])], gn_states = [(manifest_root demo_files, demo_files)],
     gn_current_root = Some (manifest_root demo_files)\<rparr>"

lemma demo_key_bytes: "key_bytes demo_key = Inr (replicate 32 0)"
  unfolding demo_key_def by (rule key_bytes_generated) simp

lemma demo_keys_work: "keys_work demo_env"
  by (simp add: keys_work_def demo_env_def ed25519_correct_def plain_ed_def trusts_own_def demo_key_bytes)

text \<open>With a readable key and no schema constraint recording never raises.\<close>

lemma demo_records: "\<exists>e g'. record_entry demo_env ev r g = (Inr e, g')"
  by (simp add: record_entry_def demo_env_def sign_object_def demo_key_bytes Let_def validate_schema_def)

lemma demo_current: "current_files demo_genesis = demo_files"
  by (simp add: demo_genesis_def current_files_def)

lemma demo_gfs_ok: "gfs_ok demo_genesis"
  by (simp add: gfs_ok_def files_ok_def ref_ok_def demo_genesis_def demo_files_def split: if_splits)

lemma demo_session_ok: "session_ok demo_genesis" "room demo_genesis"
  using demo_gfs_ok by (simp_all add: session_ok_def ledger_wf_def room_def demo_genesis_def)

lemma demo_entries: "entries demo_genesis = []"
  by (simp add: demo_genesis_def entries_def)

lemma demo_passes: "ledger_passes demo_env demo_genesis"
  by (simp add: ledger_passes_def demo_entries)

lemma demo_safe_path: "safe_path ''a'' = Inr ''a''"
  by (simp add: safe_path_def is_absolute_def path_parts_def)

text \<open>Writing the same content again saves the same manifest, so that nothing can collide.\<close>

lemma demo_write_clear: "write_clear demo_genesis ''a'' [1]"
proof -
  have "after_write demo_genesis ''a'' [1] = demo_files" by (simp add: after_write_def demo_current) (simp add: demo_files_def)
  then show ?thesis by (simp add: write_clear_def demo_genesis_def collision_def)
qed

lemma demo_write:
  obtains e g1 where "fs_write demo_env ''a'' [1] ''shell'' demo_genesis = (Inr e, g1)" and "continues demo_genesis g1"
    and "entries g1 = [e]" and "view g1 = (view demo_genesis)(''a'' \<mapsto> [1])" and "room g1"
proof -
  obtain e g1 where w: "fs_write demo_env ''a'' [1] ''shell'' demo_genesis = (Inr e, g1)"
    unfolding fs_write_eq [OF demo_gfs_ok demo_safe_path] using demo_records by blast
  note left = write_leaves [OF demo_session_ok demo_safe_path demo_write_clear w]
  have "length (gn_ledger g1) = length (entries g1)" by (simp add: entries_def)
  then have "room g1" using left(2) by (simp add: room_def demo_entries)
  then show ?thesis using that w left(1-3) by (simp add: demo_entries)
qed

lemma demo_entry_plain:
  assumes "fs_write demo_env ''a'' [1] ''shell'' demo_genesis = (Inr e, g1)"
  shows "json_ok (JObj (entry_payload e))"
proof -
  let ?w = "written demo_genesis ''a'' [1]" let ?r = "write_receipt demo_genesis ''a'' [1] ''shell''"
  have "record_entry demo_env ''fs-write'' ?r ?w = (Inr e, g1)"
    using assms unfolding fs_write_eq [OF demo_gfs_ok demo_safe_path] .
  then have "entry_payload e = ledger_payload ?w ''fs-write'' ?r" by (rule recorded_entry) simp_all
  moreover have "entries ?w = []"
    using written_ok(5) [OF demo_gfs_ok demo_write_clear] by (simp add: entries_def demo_genesis_def)
  ultimately show ?thesis by (simp add: ledger_payload_def jmerge_def write_receipt_def last_hash_def)
qed

text \<open>A replay of a directory in which every entry replays returns its receipt.\<close>

lemma demo_replay_returns:
  assumes "gfs_ok g" and "fold_res (replay_entry inst g) (JStr ZERO_HASH, []) (entries g) = Inr (v, [])" and "ledger_passes demo_env g"
  shows "\<exists>r g'. replay_session demo_env reg lock inst None g = (Inr r, g')"
  by (rule replay_session_records [OF assms(1,3,2), of reg lock]) (use demo_records in simp)

section \<open>A boot, an event, and one mesh claim\<close>

definition demo_boot :: jdict where
  "demo_boot = [(''state_root_sha256'', JStr (manifest_root (current_files demo_genesis)))]"

lemma demo_boot_plain [simp]: "plain_receipt demo_boot" "plain_receipt []"
  by (simp_all add: plain_receipt_def demo_boot_def)

lemma demo_booted:
  obtains e g1 where "record_entry demo_env ''trusted-boot'' demo_boot demo_genesis = (Inr e, g1)"
    and "session_ok g1" and "room g1" and "entries g1 = [e]" and "replay_ok inst g1" and "quiet g1" and "ledger_passes demo_env g1"
proof -
  obtain e g1 where rec: "record_entry demo_env ''trusted-boot'' demo_boot demo_genesis = (Inr e, g1)" using demo_records by blast
  note st = recorded_state [OF demo_session_ok demo_boot_plain(1) rec]
  have "length (gn_ledger g1) = length (entries g1)" by (simp add: entries_def)
  then have "room g1" using st(1) by (simp add: room_def demo_entries)
  moreover have led: "gn_ledger demo_genesis = []" by (simp add: demo_genesis_def)
  have "session_ok g1" "replay_ok inst g1" "quiet g1"
    by (rule boot_replays [OF demo_session_ok(1) led demo_boot_plain(1) _ rec]; simp add: demo_boot_def)+
  moreover have "ledger_passes demo_env g1"
    using step_verified [OF genesis_step.noted [OF demo_session_ok(2) demo_boot_plain(1) rec]] demo_session_ok(1) demo_keys_work demo_passes by blast
  ultimately show ?thesis using that rec st(1) by (simp add: demo_entries)
qed

lemma demo_noted:
  obtains e g2 where "session_ok g2" and "room g2" and "replay_ok inst g2" and "ledger_passes demo_env g2"
    and "read_entry g2 (str_nat 2) = Inr e" and "\<exists>h. map_of e ''receipt_hash'' = Some h" and "target_root e = JNull"
    and "length (entries g2) = 2"
proof -
  obtain e0 g1 where one: "session_ok g1" "room g1" "entries g1 = [e0]" "replay_ok inst g1" "quiet g1" "ledger_passes demo_env g1"
    by (rule demo_booted)
  obtain e g2 where rec: "record_entry demo_env ''note'' [] g1 = (Inr e, g2)" using demo_records by blast
  note st = recorded_state [OF one(1,2) demo_boot_plain(2) rec]
  have step: "replay_step demo_env g1 g2" by (rule replay_step.noted [OF one(2) demo_boot_plain(2) _ rec]) (simp add: neutral_event_def registry_events_def)
  have "length (gn_ledger g2) = length (entries g2)" by (simp add: entries_def)
  then have "room g2" using st(1) one(3) by (simp add: room_def)
  moreover have "read_entry g2 (str_nat 2) = Inr e" using read_numbered [of g2 "[e0]" e "[]"] st(1) one(3) by (simp add: numeral_2_eq_2)
  moreover have "target_root e = JNull"
    using recorded_members(4) [OF rec demo_boot_plain(2)] by (simp add: target_root_def jget_def py_or_def)
  ultimately show ?thesis
    using that [of g2 e] st one step_verified [OF replay_step_is_step [OF step]] replay_step_ok [OF step] recorded_members(3) [OF rec demo_boot_plain(2)]
      demo_keys_work by (auto simp: continues_def)
qed

lemma demo_claim:
  obtains c where "claim_valid plain_ed [demo_key] ''n'' c" and "mc_namespace c = ''n''" and "mc_authority c = Some 0" and "mc_context c = JObj []"
proof -
  let ?c = "\<lparr>mc_format = CLAIM_FORMAT, mc_namespace = ''n'', mc_value = JNull, mc_context = JObj [], mc_authority = Some 0,
    mc_support = Some 1, mc_capability_scope = [''s''], mc_proposer_key_id = [], mc_claim_id = [], mc_signature = JObj [], mc_extra = []\<rparr>"
  let ?d = "?c\<lparr>mc_claim_id := stable_hash (material_json ?c)\<rparr>"
  obtain sg where sg: "sign_object plain_ed (unsigned_json ?d) demo_key = Inr sg" by (simp add: sign_object_def demo_key_bytes)
  have own: "ed25519_correct plain_ed" "trusts_own plain_ed demo_key [demo_key]"
    using demo_keys_work by (simp_all add: keys_work_def demo_env_def)
  have "verify_mesh_claim plain_ed [demo_key] (?d\<lparr>mc_signature := sg\<rparr>) = Inr []"
    by (rule proposed_verifies [OF own sg, where s = 1]) (simp_all add: material_json_def claim_members_def)
  then show ?thesis by (intro that [of "?d\<lparr>mc_signature := sg\<rparr>"]) (simp_all add: claim_valid_def)
qed

lemma demo_resolves:
  assumes "claim_valid plain_ed [demo_key] ''n'' c" and "mc_authority c = Some 0" and "mc_context c = JObj []"
  shows "\<exists>oc. resolve_claims plain_ed [demo_key] [c] ''n'' = Inr ([oc], [])"
proof -
  have "loads ''{}'' = Inr (JObj [])" by code_simp
  moreover have "dumps (JObj []) = ''{}''" by (simp add: dumps_members_def)
  ultimately show ?thesis using assms
    by (simp add: resolve_claims_def claim_valid_def group_by_def resolve_context_def rank_value_def authority_of_def pick_policy_def
        Let_def sort_key_def insort_key.simps)
qed

lemma demo_blocked_replay_returns:
  assumes "session_ok g" and "room g" and "replay_ok inst g" and "ledger_passes demo_env g"
    and rec: "record_entry demo_env ''rollback'' (blocked_receipt g sel h t) g = (Inr e, g1)"
  shows "\<exists>r g2. replay_session demo_env reg lock inst None g1 = (Inr r, g2)"
proof -
  note st = recorded_state [OF assms(1,2) blocked_receipt_plain rec]
  have gfs: "gfs_ok g1" using st(3) by (simp add: continues_def session_ok_def)
  have passes: "ledger_passes demo_env g1"
    using step_verified [OF genesis_step.noted [OF assms(2) blocked_receipt_plain rec]] assms(1,4) demo_keys_work by blast
  have "map_of e ''event'' = Some (JStr ''rollback'')" by (rule recorded_members(1) [OF rec blocked_receipt_plain])
  moreover have "map_of e ''after_root_sha256'' = Some t"
    using recorded_members(4) [OF rec blocked_receipt_plain, of "''after_root_sha256''"] by (simp add: blocked_receipt_def)
  ultimately have "replay_entry inst g1 (v, []) e = Inr (t, [])" for v by (simp add: replay_entry_def jmember_def)
  then have "fold_res (replay_entry inst g1) (JStr ZERO_HASH, []) (entries g1) = Inr (t, [])"
    using fold_replay_keys [OF assms(3) [unfolded replay_ok_def]] st(1,2) by (simp add: fold_res_append same_files_def)
  then show ?thesis using demo_replay_returns [OF gfs _ passes] by blast
qed

definition demo_candidate :: jdict where
  "demo_candidate = [(''action'', JStr ''write''), (''path'', JStr ''a''), (''data'', JStr [CHR 0x01])]"

lemma demo_candidate_clear: "candidates_clear demo_genesis [demo_candidate]"
proof -
  have "utf8 [CHR 0x01] = [1]" by (simp add: utf8_def utf8_char_def)
  then show ?thesis using demo_write_clear demo_safe_path
    by (auto simp: candidates_clear_def demo_candidate_def jget_def proposal_data_def encoded_data_def jget_or_def)
qed

lemma demo_tournament:
  obtains rcpt g' where "tournament demo_env ''h'' [demo_candidate] DEFAULT_BUDGET demo_genesis = (Inr rcpt, g')"
proof -
  have take1: "py_take (sb_cells DEFAULT_BUDGET) [demo_candidate] = [demo_candidate]" by (simp add: py_take_def DEFAULT_BUDGET_def)
  obtain cell where cell: "swarm_cell DEFAULT_BUDGET 1 0 demo_candidate = Inr (cell, 1)" and sel: "jget cell ''execution_status'' = JStr ''completed''"
      "cell_action cell = Inr (JStr ''write'')" "\<exists>k. cell_key cell = Inr k" "jmember cell ''proposal'' = Inr (JObj demo_candidate)"
    by (simp add: swarm_cell_def cell_failures_def as_int_def unsafe_write_path_def jget_def jget_or_def Let_def demo_candidate_def DEFAULT_BUDGET_def
      cell_proof_def status_json_def cell_action_def as_dict_def cell_key_def jmember_def)
  then have cells: "swarm_cells DEFAULT_BUDGET 1 0 [demo_candidate] = Inr [cell]" "eligible_cells [cell] = Inr [cell]"
    by (auto simp: eligible_cells_def)
  have given: "proposal_path demo_candidate = Inr ''a''" "proposal_data demo_candidate = Inr [1]"
    by (simp_all add: demo_candidate_def proposal_path_def proposal_data_def encoded_data_def jmember_def jget_or_def utf8_def utf8_char_def)
  obtain e g1 where "fs_write demo_env ''a'' [1] ''BogPilotSwarm'' demo_genesis = (Inr e, g1)"
    unfolding fs_write_eq [OF demo_gfs_ok demo_safe_path] using demo_records by blast
  then have "fs_write_value demo_env ''a'' (Inr [1]) ''BogPilotSwarm'' demo_genesis = (Inr e, g1)"
    by (simp add: fs_write_value_def demo_safe_path)
  then have "\<exists>rcpt g'. tournament demo_env ''h'' [demo_candidate] DEFAULT_BUDGET demo_genesis = (Inr rcpt, g')"
    unfolding tournament_def take1 cells abind_simps Let_def list.case admit_cell_def option.case sel(4) rbind_simps as_dict_def json.case given
    using demo_records by (simp add: abind_def alift_def)
  then show ?thesis using that by blast
qed

end
