(* ===== verification/Store_Demo.thy ===== *)
theory Store_Demo
  imports Store_Bundle Genesis_Demo
begin

text \<open>
  One concrete store at which the statements about packages are instantiated: a signature scheme that
  satisfies the law the code relies on and whose signatures are never empty, a trusted key, schemas without
  constraints, a directory with one file and an empty store. The scheme is only a model of the law.
\<close>

definition tagged_ed :: ed25519 where
  "tagged_ed = \<lparr>ed_public = (\<lambda>sk. sk), ed_sign = (\<lambda>sk m. 0 # m), ed_verify = (\<lambda>pk s m. s = 0 # m)\<rparr>"

definition demo_senv :: store_env where
  "demo_senv = \<lparr>se_ed = tagged_ed, se_trusted_keys = [demo_key], se_require_signature = True,
     se_container_schema = (\<lambda>_. []), se_manifest_schema = (\<lambda>_. []), se_receipt_schema = (\<lambda>_. [])\<rparr>"

definition demo_directory :: directory where
  "demo_directory = [(''a/b.txt'', [1, 2, 3])]"

definition empty_store :: store where
  "empty_store = \<lparr>st_path = ''store'', st_index = No_Index, st_dirs = []\<rparr>"

lemma demo_packageable:
  assumes "name \<noteq> []" and "[] \<notin> set deps"
  shows "packageable demo_senv demo_directory name ''1'' 64 True deps (Some demo_key)"
proof -
  have "path_contained ''a/b.txt''" "path_parts ''a/b.txt'' = [''a'', ''b.txt'']"
    by (simp_all add: path_contained_def is_absolute_def path_parts_def)
  then have "dir_ok demo_directory" "contents_clear demo_directory"
    by (simp_all add: dir_ok_def layout_ok_def plain_path_def contents_clear_def demo_directory_def)
  moreover have "signer_ok demo_senv (Some demo_key)"
    by (simp add: signer_ok_def demo_senv_def tagged_ed_def ed25519_correct_def trusts_own_def demo_key_bytes)
  ultimately show ?thesis using assms
    by (simp add: packageable_def demo_senv_def schema_complete_def archive_schema_complete_def receipt_schema_complete_def)
qed

lemma empty_store_ok: "store_ok empty_store" "st_index (opened empty_store) = Index []"
  by (simp_all add: store_ok_def empty_store_def opened_def)

lemma demo_keys: "package_key ''a'' ''1'' = Inr ''a-1''" "package_key ''b'' ''1'' = Inr ''b-1''"
  by (simp_all add: package_key_def backslash_def strip_def is_space_def)

lemma demo_first:
  obtains bd rcpt ir st where
    "package_directory demo_senv ''src'' (Some demo_directory) [] ''a'' ''1'' 64 True True [] (Some demo_key) = Inr (bd, rcpt)"
    and "install_bundle demo_senv bd empty_store = (Inr ir, st)" and "ir_package ir = ''a-1''"
    and "verifies demo_senv st {} ''a-1''" and "store_ok st" and "\<exists>index. st_index st = Index index \<and> fst ` set index = {''a-1''}"
proof (rule package_installed [OF demo_packageable [of "''a''" "[]"] empty_store_ok _ demo_keys(1), of "''src''" True])
  fix bd rcpt ir st
  assume a: "package_directory demo_senv ''src'' (Some demo_directory) [] ''a'' ''1'' (int 64) True True [] (Some demo_key) = Inr (bd, rcpt)"
    "install_bundle demo_senv bd empty_store = (Inr ir, st)" "ir_package ir = ''a-1''" "verifies demo_senv st {} ''a-1''" "store_ok st"
  have "\<exists>index. st_index st = Index index \<and> fst ` set index = {''a-1''}"
    using install_index(2) [OF empty_store_ok(1) a(2)] a(3) empty_store_ok(2) by auto
  then show thesis using that a by simp
qed simp_all

text \<open>A second package that depends on the first, then the first one again, now depending on the second.\<close>

lemma demo_cycle:
  obtains st index bd ir st' where "store_ok st" and "st_index st = Index index" and "install_bundle demo_senv bd st = (Inr ir, st')"
    and "''b-1'' \<in> set (ir_dependencies ir)" and "(depends demo_senv st)\<^sup>*\<^sup>* ''b-1'' (ir_package ir)"
    and "verifies demo_senv st {} (ir_package ir)"
proof -
  obtain st1 index1 where one: "verifies demo_senv st1 {} ''a-1''" "store_ok st1" "st_index st1 = Index index1" "fst ` set index1 = {''a-1''}"
    using demo_first by metis
  have opened1: "st_index (opened st1) = Index index1" "opened st1 = st1" using one(3) by (simp_all add: opened_def)
  have dep1: "\<forall>x \<in> set [''a-1'']. verifies demo_senv (opened st1) {} x" using one(1) opened1(2) by simp
  have pk: "packageable demo_senv demo_directory ''b'' ''1'' 64 True [''a-1''] (Some demo_key)" by (rule demo_packageable) simp_all
  have fresh: "''b-1'' \<notin> fst ` set index1" using one(4) by simp
  obtain bd2 ir2 st2 where two: "install_bundle demo_senv bd2 st1 = (Inr ir2, st2)" "ir_package ir2 = ''b-1''" "set (ir_dependencies ir2) = set [''a-1'']"
      "verifies demo_senv st2 {} ''b-1''" "store_ok st2" "\<And>p. verifies demo_senv st1 {} p \<Longrightarrow> verifies demo_senv st2 {} p"
    by (rule package_installed [OF pk one(2) opened1(1) dep1 demo_keys(2) fresh, of "''src''" True]) blast
  have edge: "depends demo_senv st2 ''b-1'' ''a-1''" using install_index(1) [OF one(2) two(1)] two(2,3) by simp
  obtain index2 where index2: "st_index st2 = Index index2" using install_index(2) [OF one(2) two(1)] by blast
  then have opened2: "st_index (opened st2) = Index index2" "opened st2 = st2" by (simp_all add: opened_def)
  have dep2: "\<forall>x \<in> set [''b-1'']. verifies demo_senv (opened st2) {} x" using two(4) opened2(2) by simp
  have pk3: "packageable demo_senv demo_directory ''a'' ''1'' 64 True [''b-1''] (Some demo_key)" by (rule demo_packageable) simp_all
  obtain bd3 ir st' where three: "install_bundle demo_senv bd3 st2 = (Inr ir, st')" "ir_package ir = ''a-1''" "set (ir_dependencies ir) = {''b-1''}"
  proof (rule package_admitted [OF pk3, of "''src''" True])
    fix bd rcpt
    assume inst: "\<And>st index. st_index (opened st) = Index index \<Longrightarrow> \<forall>x \<in> set [''b-1'']. verifies demo_senv (opened st) {} x \<Longrightarrow>
      \<exists>ir st'. install_bundle demo_senv bd st = (Inr ir, st') \<and> package_key ''a'' ''1'' = Inr (ir_package ir) \<and>
        set (ir_dependencies ir) = set [''b-1''] \<and> map_of (dir_files st' (ir_install_dir ir)) = map_of demo_directory"
    show thesis using inst [OF opened2(1) dep2] demo_keys(1) that by auto
  qed
  show thesis by (rule that [OF two(5) index2 three(1)]) (use three(2,3) edge two(6) [OF one(1)] in auto)
qed

end
