(* ===== verification/BogCell_Demo.thy ===== *)
theory BogCell_Demo
  imports BogCell_Compile Store_Demo
begin

text \<open>
  One concrete cell: a source of one line is compiled, its program is packaged and installed in an empty store,
  the build receipt lies in another directory, where the record of the app points, and the app is run in the
  concrete workspace. A second app points to a program outside the package too. The signature scheme
  satisfies the law the code relies on and is only a model of it.
\<close>

section \<open>The cell\<close>

definition digest_ed :: ed25519 where
  "digest_ed = \<lparr>ed_public = (\<lambda>sk. sk), ed_sign = (\<lambda>sk m. sha256 m), ed_verify = (\<lambda>pk s m. s = sha256 m)\<rparr>"

definition cell_senv :: store_env where
  "cell_senv = \<lparr>se_ed = digest_ed, se_trusted_keys = [demo_key], se_require_signature = True,
     se_container_schema = (\<lambda>_. []), se_manifest_schema = (\<lambda>_. []), se_receipt_schema = (\<lambda>_. [])\<rparr>"

definition demo_cell :: "host \<Rightarrow> cell_env" where
  "demo_cell h = \<lparr>ce_genesis = demo_env, ce_store = cell_senv, ce_program_schema = (\<lambda>_. []), ce_build_schema = (\<lambda>_. []),
     ce_implementation = [], ce_host = h\<rparr>"

definition demo_host :: "bytes \<Rightarrow> bytes \<Rightarrow> host" where
  "demo_host pf rf = \<lparr>ho_cwd = [],
     ho_files = (\<lambda>p. if p = [''out'', ''program.bogcell''] then Some pf else if p = [''out'', ''build_receipt.json''] then Some rf else None),
     ho_dirs = (\<lambda>p. p = [''out''])\<rparr>"

definition demo_source :: string where
  "demo_source = ''write a '' @ [CHR 0x01] @ newline"

definition demo_instructions :: "json list" where
  "demo_instructions = [JList [JStr ''WRITE'', JStr ''a'', JStr [CHR 0x01]], JList [JStr ''EXIT'', JInt 0]]"

definition demo_capabilities :: capabilities where
  "demo_capabilities = \<lparr>cp_read = [], cp_write = [''a''], cp_env = [], cp_dependencies = []\<rparr>"

lemma demo_lines:
  "compile_lines (Suc 0) (splitlines demo_source) ([], no_capabilities) =
     Inr ([JList [JStr ''WRITE'', JStr ''a'', JStr [CHR 0x01]]], demo_capabilities)"
  by code_simp

lemma length_utf8: "length (utf8 s) \<le> 2 * length s"
  by (induction s) (simp_all add: utf8_def utf8_char_def Let_def)

section \<open>Compiled, installed and run\<close>

lemma demo_compile:
  obtains pf rf rcpt where "\<And>h. compile_source (demo_cell h) (utf8 demo_source) demo_key = Inr (pf, rf, rcpt)"
    and "length pf < 2 ^ 70"
    and "jget rcpt ''capabilities'' = capabilities_json demo_capabilities" and "pf = json_file (program_json demo_instructions)"
proof -
  let ?pf = "json_file (program_json demo_instructions)"
  let ?body = "build_members [] (utf8 demo_source) ?pf demo_capabilities"
  let ?sg = "JObj [(''format'', JStr SIGNATURE_FORMAT), (''algorithm'', JStr ''ed25519''), (''key_id'', JStr (key_id (replicate 32 0))),
      (''signature'', JStr (b64encode (sha256 (canonical_bytes (JObj ?body)))))]"
  let ?rcpt = "?body @ [(''compiler_signature'', ?sg)]"
  have closed: "closed_off [JList [JStr ''WRITE'', JStr ''a'', JStr [CHR 0x01]]] = demo_instructions" by code_simp
  have sg: "sign_object digest_ed (JObj ?body) demo_key = Inr ?sg"
    by (simp add: sign_object_def demo_key_bytes digest_ed_def)
  have c: "compile_source (demo_cell h) (utf8 demo_source) demo_key = Inr (?pf, json_file (JObj ?rcpt), ?rcpt)" for h
    using sg by (simp add: compile_source_def demo_cell_def cell_senv_def demo_lines closed Let_def validate_schema_def)
  have "length (dumps_indent 0 (program_json demo_instructions)) < 1000" by code_simp
  then have "length ?pf < 2 ^ 70" using length_utf8 [of "dumps_indent 0 (program_json demo_instructions) @ newline"]
    by (simp add: json_file_def newline_def)
  moreover have "jget ?rcpt ''capabilities'' = capabilities_json demo_capabilities" by (simp add: jget_def build_members_def)
  ultimately show thesis using that c by blast
qed

lemma demo_cell_packageable:
  assumes "length pf < 2 ^ 70"
  shows "packageable cell_senv [(''program.bogcell'', pf)] ''a'' ''1'' 64 True [] (Some demo_key)"
proof -
  have "path_contained ''program.bogcell''" "path_parts ''program.bogcell'' = [''program.bogcell'']"
    by (simp_all add: path_contained_def is_absolute_def path_parts_def)
  then have "dir_ok [(''program.bogcell'', pf)]" using assms by (simp add: dir_ok_def layout_ok_def plain_path_def)
  moreover have "contents_clear [(''program.bogcell'', pf)]" by (simp add: contents_clear_def)
  moreover have "sha256 m \<noteq> []" for m using length_sha256 [of m] by (metis list.size(3) zero_neq_numeral)
  then have "signer_ok cell_senv (Some demo_key)"
    by (simp add: signer_ok_def cell_senv_def digest_ed_def ed25519_correct_def trusts_own_def demo_key_bytes)
  ultimately show ?thesis
    by (simp add: packageable_def cell_senv_def schema_complete_def archive_schema_complete_def receipt_schema_complete_def)
qed

definition demo_install :: string where
  "demo_install = ''store/installed/a-1''"

definition demo_app :: "string \<Rightarrow> app_info" where
  "demo_app name = \<lparr>ap_name = ''shell'', ap_package = ''a-1'', ap_install_dir = demo_install, ap_cell_program = Some name,
     ap_capabilities = demo_capabilities, ap_environment = [], ap_build_receipt = Some ''/out/build_receipt.json''\<rparr>"

lemma demo_app_fields [simp]:
  "ap_name (demo_app p) = ''shell''" "ap_package (demo_app p) = ''a-1''" "ap_install_dir (demo_app p) = demo_install"
  "ap_cell_program (demo_app p) = Some p" "ap_capabilities (demo_app p) = demo_capabilities"
  "build_receipt_name (demo_app p) = ''/out/build_receipt.json''"
  by (simp_all add: demo_app_def build_receipt_name_def)

lemma demo_cell_fields [simp]:
  "ce_store (demo_cell h) = cell_senv" "ce_genesis (demo_cell h) = demo_env" "ce_program_schema (demo_cell h) j = []"
  "ce_host (demo_cell h) = h"
  by (simp_all add: demo_cell_def)

lemma demo_keys_trusted: "keys_trusted (demo_cell h) demo_key"
  by (simp add: keys_trusted_def cell_senv_def digest_ed_def ed25519_correct_def trusts_own_def demo_key_bytes)

text \<open>Where the files of the demonstration are found.\<close>

lemma demo_base: "install_parts (demo_host pf rf) demo_install = [''store'', ''installed'', ''a-1'']"
  by (simp add: install_parts_def demo_install_def demo_host_def is_absolute_def path_parts_def step_to_def)

lemma demo_outside:
  "open_file (demo_cell (demo_host pf rf)) st (demo_app p) ''/out/program.bogcell'' = Some pf"
  "open_file (demo_cell (demo_host pf rf)) st (demo_app p) ''/out/build_receipt.json'' = Some rf"
proof -
  have parts: "path_parts ''/out/program.bogcell'' = [''out'', ''program.bogcell'']"
      "path_parts ''/out/build_receipt.json'' = [''out'', ''build_receipt.json'']" "is_absolute (CHR ''/'' # s)" for s
    by (simp_all add: path_parts_def is_absolute_def)
  show "open_file (demo_cell (demo_host pf rf)) st (demo_app p) ''/out/program.bogcell'' = Some pf"
    "open_file (demo_cell (demo_host pf rf)) st (demo_app p) ''/out/build_receipt.json'' = Some rf"
    by (simp_all add: open_file_def demo_base locate_def parts step_to_def dir_exists_def file_content_def Let_def)
      (simp_all add: demo_host_def)
qed

lemma demo_inside:
  assumes "map_of (st_dirs st) demo_install = Some d" and "map_of d = map_of [(''program.bogcell'', pf)]"
  shows "open_file (demo_cell (demo_host pf rf)) st (demo_app p) ''program.bogcell'' = Some pf"
proof -
  have parts: "path_parts ''program.bogcell'' = [''program.bogcell'']" "\<not> is_absolute ''program.bogcell''"
    by (simp_all add: path_parts_def is_absolute_def)
  have "fst ` set d = {''program.bogcell''}" using arg_cong [OF assms(2), of dom] by (simp add: dom_map_of_conv_image_fst)
  then obtain f data rest where d: "d = (f, data) # rest" "f = ''program.bogcell''" by (cases d) auto
  then have "find (\<lambda>(f, _). path_parts f = [''program.bogcell'']) d = Some (f, pf)"
    using fun_cong [OF assms(2), of "''program.bogcell''"] by (simp add: parts)
  then show ?thesis
    by (simp add: open_file_def demo_base locate_def parts step_to_def dir_exists_def file_content_def assms(1) Let_def)
qed

section \<open>The run\<close>

lemma demo_instructions_run:
  obtains calls g1 where "run_instructions (demo_cell h) st app (demo_app name) 1 [] demo_instructions demo_genesis = (Inr (calls, [], [], Some (JInt 0)), g1)"
    and "gfs_ok g1" and "view g1 = (view demo_genesis)(''a'' \<mapsto> [1])" and "length calls = 2" and "entries g1 \<noteq> []"
proof -
  obtain e g1 where w: "fs_write demo_env ''a'' [1] ''shell'' demo_genesis = (Inr e, g1)" "continues demo_genesis g1"
      "view g1 = (view demo_genesis)(''a'' \<mapsto> [1])" "entries g1 \<noteq> []"
    using demo_write by (metis list.distinct(1))
  then have w': "fs_write_value demo_env ''a'' (Inr [1]) ''shell'' demo_genesis = (Inr e, g1)"
    by (simp add: fs_write_value_def demo_safe_path)
  have "record_entry demo_env ''fs-write'' (write_receipt demo_genesis ''a'' [1] ''shell'') (written demo_genesis ''a'' [1]) = (Inr e, g1)"
    using w(1) unfolding fs_write_eq [OF demo_gfs_ok demo_safe_path] .
  from record_members [OF this, of "''after_root_sha256''"] obtain root where root: "jmember e ''after_root_sha256'' = Inr root"
    by (simp add: write_receipt_def jmember_def)
  have obj: "jmember e ''object_sha256'' = Inr (JStr (hexdigest [1]))" by (rule fs_write_members [OF w(1)])
  have utf8: "utf8 [CHR 0x01] = [1]" by code_simp
  obtain extra where puts_one: "perform (demo_cell h) st (demo_app name) [JStr ''WRITE'', JStr ''a'', JStr [CHR 0x01]] [] demo_genesis = (Inr (extra, [], None), g1)"
    by (simp add: perform_def first_operation_def cell_write_def permitted_def demo_capabilities_def write_content_def
        encoded_data_def utf8 w' obj root abind_run)
  have ends: "perform (demo_cell h) st (demo_app name) [JStr ''EXIT'', JInt 0] [] g1 = (Inr ([(''exit_code'', JInt 0)], [], None), g1)"
    by (simp add: perform_def first_operation_def is_int_def)
  have "gfs_ok g1" using w(2) by (simp add: continues_def session_ok_def)
  then show thesis
    using that [of "[call_receipt (Suc 0) [JStr ''WRITE'', JStr ''a'', JStr [CHR 0x01]] extra [], call_receipt (Suc (Suc 0)) [JStr ''EXIT'', JInt 0] [(''exit_code'', JInt 0)] []]" g1] w(3,4)
    by (simp add: demo_instructions_def as_list_def execute_def abind_run puts_one ends keep_value_def first_operation_def exit_failures_def is_number_def)
qed

lemma demo_program_runs:
  assumes c: "\<And>h. compile_source (demo_cell h) (utf8 demo_source) demo_key = Inr (pf, rf, rcpt)"
    and pf: "pf = json_file (program_json demo_instructions)"
    and files: "open_file (demo_cell h) st (demo_app name) name = Some pf"
      "open_file (demo_cell h) st (demo_app name) ''/out/build_receipt.json'' = Some rf"
    and v: "verify_installed_package cell_senv st ''a-1'' = Inr v" "receipt_status v = ''completed''" and name: "name \<noteq> []"
  shows "\<exists>r g'. run_cell (demo_cell h) st [(''app'', demo_app name)] ''app'' demo_genesis = (Inr r, g') \<and>
    length (pp_calls r) = 2 \<and> pp_failures r = [] \<and> view g' = (view demo_genesis)(''a'' \<mapsto> [1]) \<and> entries g' \<noteq> []"
proof -
  from compiled_passes [OF c demo_keys_trusted files(1)] files(2) obtain check where
      check: "check_build (demo_cell h) st (demo_app name) name = Inr (Some check, [])" by auto
  obtain calls g1 where ri: "run_instructions (demo_cell h) st ''app'' (demo_app name) 1 [] demo_instructions demo_genesis = (Inr (calls, [], [], Some (JInt 0)), g1)"
      "gfs_ok g1" "view g1 = (view demo_genesis)(''a'' \<mapsto> [1])" "length calls = 2" "entries g1 \<noteq> []"
    by (rule demo_instructions_run)
  have "list_all compiled_instr demo_instructions"
    using puts exits by (simp add: demo_instructions_def) (simp add: instr_json_def)
  then have "load_json (demo_cell h) st (demo_app name) name = Inr (Inr (program_json demo_instructions))"
    using load_json_file [OF files(1)] json_file_reads program_json_reads pf by metis
  moreover have "receipt_failures v = []" using v verify_failures_status unfolding verify_installed_package_def by blast
  ultimately show ?thesis
    using v check ri(1,3-5) name current_root_ok [OF ri(2)]
    by (simp add: abind_run run_cell_def run_program_def program_json_def as_dict_def as_list_def check_program_passes jget_def jget_or_def
        validate_schema_def process_receipt_for_def sorted_registers_def store_failures_def alift_def [of "Inr (_ :: process_receipt)"] Let_def
      del: One_nat_def)
qed

text \<open>Compiled, packaged, installed and run, with the program inside the package or outside.\<close>

lemma demo_cell_run:
  obtains pf rf rcpt st v where "\<And>h. compile_source (demo_cell h) (utf8 demo_source) demo_key = Inr (pf, rf, rcpt)"
    and "jget rcpt ''capabilities'' = capabilities_json demo_capabilities"
    and "verify_installed_package cell_senv st ''a-1'' = Inr v" and "receipt_status v = ''completed''"
    and "\<And>name. name \<in> {''program.bogcell'', ''/out/program.bogcell''} \<Longrightarrow>
      open_file (demo_cell (demo_host pf rf)) st (demo_app name) name = Some pf \<and>
      open_file (demo_cell (demo_host pf rf)) st (demo_app name) ''/out/build_receipt.json'' = Some rf \<and>
      (\<exists>r g'. run_cell (demo_cell (demo_host pf rf)) st [(''app'', demo_app name)] ''app'' demo_genesis = (Inr r, g') \<and>
        length (pp_calls r) = 2 \<and> pp_failures r = [] \<and> view g' = (view demo_genesis)(''a'' \<mapsto> [1]) \<and> entries g' \<noteq> [])"
proof -
  obtain pf rf rcpt where c: "\<And>h. compile_source (demo_cell h) (utf8 demo_source) demo_key = Inr (pf, rf, rcpt)" "length pf < 2 ^ 70"
      "jget rcpt ''capabilities'' = capabilities_json demo_capabilities" "pf = json_file (program_json demo_instructions)"
    by (rule demo_compile) blast
  obtain bd rcpt' ir st where i: "install_bundle cell_senv bd empty_store = (Inr ir, st)" "ir_package ir = ''a-1''"
      "map_of (dir_files st (ir_install_dir ir)) = map_of [(''program.bogcell'', pf)]" "verifies cell_senv st {} ''a-1''"
    by (rule package_installed [OF demo_cell_packageable [OF c(2)] empty_store_ok _ demo_keys(1), of "''src''" True]) simp_all
  have "ir_install_dir ir = demo_install"
    using i(1,2) by (auto simp: install_bundle_Inr install_path_def empty_store_def demo_install_def)
  then obtain d where d: "map_of (st_dirs st) demo_install = Some d" "map_of d = map_of [(''program.bogcell'', pf)]"
    using i(3) by (cases "map_of (st_dirs st) demo_install") (auto simp: dir_files_def fun_eq_iff split: if_splits)
  obtain v where v: "verify_installed_package cell_senv st ''a-1'' = Inr v" "receipt_status v = ''completed''"
    using i(4) verify_status_iff by blast
  have files: "open_file (demo_cell (demo_host pf rf)) st (demo_app name) name = Some pf"
    if "name \<in> {''program.bogcell'', ''/out/program.bogcell''}" for name
    using that demo_inside [OF d] demo_outside(1) by auto
  show thesis
  proof (rule that [OF c(1,3) v])
    fix name assume name: "name \<in> {''program.bogcell'', ''/out/program.bogcell''}"
    then show "open_file (demo_cell (demo_host pf rf)) st (demo_app name) name = Some pf \<and>
        open_file (demo_cell (demo_host pf rf)) st (demo_app name) ''/out/build_receipt.json'' = Some rf \<and>
        (\<exists>r g'. run_cell (demo_cell (demo_host pf rf)) st [(''app'', demo_app name)] ''app'' demo_genesis = (Inr r, g') \<and>
          length (pp_calls r) = 2 \<and> pp_failures r = [] \<and> view g' = (view demo_genesis)(''a'' \<mapsto> [1]) \<and> entries g' \<noteq> [])"
      using demo_program_runs [OF c(1,4) files [OF name] demo_outside(2) v] files [OF name] demo_outside(2) by auto
  qed
qed

lemma demo_app_runs:
  assumes "name \<in> {''program.bogcell'', ''/out/program.bogcell''}"
  obtains pf rf rcpt st v r g' where
    "compile_source (demo_cell (demo_host pf rf)) (utf8 demo_source) demo_key = Inr (pf, rf, rcpt)"
    and "jget rcpt ''capabilities'' = capabilities_json demo_capabilities"
    and "verify_installed_package cell_senv st ''a-1'' = Inr v" and "receipt_status v = ''completed''"
    and "open_file (demo_cell (demo_host pf rf)) st (demo_app name) name = Some pf"
    and "open_file (demo_cell (demo_host pf rf)) st (demo_app name) ''/out/build_receipt.json'' = Some rf"
    and "run_cell (demo_cell (demo_host pf rf)) st [(''app'', demo_app name)] ''app'' demo_genesis = (Inr r, g')"
    and "length (pp_calls r) = 2" and "pp_failures r = []" and "view g' = (view demo_genesis)(''a'' \<mapsto> [1])" and "entries g' \<noteq> []"
proof (rule demo_cell_run)
  fix pf rf rcpt st v
  let ?h = "demo_host pf rf"
  assume c: "\<And>h. compile_source (demo_cell h) (utf8 demo_source) demo_key = Inr (pf, rf, rcpt)"
    and caps: "jget rcpt ''capabilities'' = capabilities_json demo_capabilities"
    and v: "verify_installed_package cell_senv st ''a-1'' = Inr v" "receipt_status v = ''completed''"
    and all: "\<And>name. name \<in> {''program.bogcell'', ''/out/program.bogcell''} \<Longrightarrow>
      open_file (demo_cell ?h) st (demo_app name) name = Some pf \<and>
      open_file (demo_cell ?h) st (demo_app name) ''/out/build_receipt.json'' = Some rf \<and>
      (\<exists>r g'. run_cell (demo_cell ?h) st [(''app'', demo_app name)] ''app'' demo_genesis = (Inr r, g') \<and>
        length (pp_calls r) = 2 \<and> pp_failures r = [] \<and> view g' = (view demo_genesis)(''a'' \<mapsto> [1]) \<and> entries g' \<noteq> [])"
  obtain r g' where run: "run_cell (demo_cell ?h) st [(''app'', demo_app name)] ''app'' demo_genesis = (Inr r, g')"
      "length (pp_calls r) = 2" "pp_failures r = []" "view g' = (view demo_genesis)(''a'' \<mapsto> [1])" "entries g' \<noteq> []"
    using all [OF assms] by (elim conjE exE)
  show thesis by (rule that [OF c caps v _ _ run]) (use all [OF assms] in simp_all)
qed

text \<open>The program outside is not a file of the package.\<close>

lemma demo_not_inside: "file_inside (demo_cell (demo_host pf rf)) st (demo_app p) ''/out/program.bogcell'' = None"
proof -
  have parts: "path_parts ''/out/program.bogcell'' = [''out'', ''program.bogcell'']" "is_absolute (CHR ''/'' # s)" for s
    by (simp_all add: path_parts_def is_absolute_def)
  show ?thesis by (simp add: file_inside_def demo_base locate_def parts step_to_def Let_def split: option.split)
qed

end
