(* ===== verification/Spec2Isabelle.thy ===== *)
theory Spec2Isabelle
  imports Archive_Correct Bogboot_Correct Packer Workspace_Vectors Bogfs BogCell_Demo
begin

text \<open>
  \<^bold>\<open>A verification library for BOGBIN.\<close>

  BOGBIN is a storage and compute substrate built on one rule: bytes are accepted only after they have
  been reconstructed deterministically and their SHA-256 digest has been compared. This development
  models the Python reference implementation, the modules under \<^verbatim>\<open>src/bogvm\<close> and two of the tools beside
  it, and proves that the rule and what the parts build on it hold.

  \<^bold>\<open>The parts and how they interact.\<close> Reversible \<^emph>\<open>transforms\<close> and deterministic \<^emph>\<open>bases\<close> are the ground: a
  payload is a synthesized basis with byte corrections (residuals), inverted through a transform. The
  \<^emph>\<open>planner\<close> chooses basis, transform and chunk size. A plan travels in one of two forms. The \<^emph>\<open>packer\<close> writes
  it as assembly text, the \<^emph>\<open>assembler\<close> turns the text into a binary program, and the \<^emph>\<open>virtual machine\<close>
  loads the program, synthesizes the blocks, applies the residuals and accepts a block or a claim only
  after a verification instruction. The \<^emph>\<open>container\<close> is the same plan as a JSON value and as the binary BOGPK
  form, and can be compiled to a program of the machine. \<^emph>\<open>Archives\<close> hold one container per file of a
  directory; \<^emph>\<open>BogFS\<close> is a read-only view of an archive, and a flat image of a directory for the kernel. The \<^emph>\<open>package store\<close> bundles an archive with a receipt that may be signed, installs
  bundles, and verifies an installed package with all its dependencies. \<^emph>\<open>Cells\<close> are packaged programs of a small capability
  language: compiled with a signed receipt, run against the Genesis files.
  \<^emph>\<open>Genesis\<close> is a hash-chained ledger of JSON events with copy-on-write files, rollback and replay; the \<^emph>\<open>boot
  ledger\<close>, the \<^emph>\<open>swarm\<close> and the \<^emph>\<open>mesh\<close> write to it, and the mesh exchanges claims \<^emph>\<open>signed\<close> with Ed25519. The
  \<^emph>\<open>workspace oracle\<close> is the reference for the kernel's hash-rooted workspace.

  \<^bold>\<open>Theories and sources.\<close> Definitions keep the names of the source.
  \<^item> \<open>Bog_Prelude\<close>, \<open>Hashlib\<close>, \<open>Py_Text\<close>, \<open>Json\<close>: what the sources use of Python and its library: exceptions as
    values of \<open>res\<close>, bytes, dictionaries in insertion order, hexadecimal text, \<open>str.split\<close>, \<open>int\<close>, \<open>repr\<close>,
    UTF-8, SHA-256 as FIPS 180-4 defines it, and \<open>json.loads\<close> and \<open>json.dumps\<close>. \<open>collision x y\<close> says that two
    different byte strings have one digest.
  \<^item> \<open>Transforms\<close> (\<^verbatim>\<open>transforms.py\<close>), \<open>Bases\<close> (\<^verbatim>\<open>bases.py\<close>), \<open>Optimizer\<close> and \<open>Tournament\<close> (\<^verbatim>\<open>optimizer.py\<close>). The
    locales \<open>reversible_transform\<close>, \<open>byte_code\<close>, \<open>transform_then_bytes\<close>, \<open>previous_ops\<close> and \<open>basis_provider\<close> state
    the interfaces and are interpreted on the code's functions.
  \<^item> \<open>Bogpk\<close>, \<open>Container\<close>, \<open>Container_Correct\<close>, \<open>Bogpk_Roundtrip\<close> (\<^verbatim>\<open>container.py\<close>, \<^verbatim>\<open>schema.py\<close>). The locales
    \<open>stream_codec\<close> and \<open>canonical_codec\<close> state what a reader promises about a writer, with any bytes after it;
    they are interpreted on the variable-length integers and on the two residual codings.
  \<^item> \<open>Assembler\<close>, \<open>Assembler_Correct\<close> (\<^verbatim>\<open>assembler.py\<close>, \<^verbatim>\<open>instruction.py\<close>, \<^verbatim>\<open>opcodes.py\<close>); \<open>VM\<close>, \<open>VM_Correct\<close>,
    \<open>VM_Runs\<close> (\<^verbatim>\<open>vm.py\<close>); \<open>Packer\<close> (\<^verbatim>\<open>packer.py\<close>). The step relation \<open>vm_step\<close> and the locale \<open>gated\<close> carry the
    statements that acceptance is preceded by verification.
  \<^item> \<open>Workspace\<close>, \<open>Workspace_Correct\<close>, \<open>Workspace_Vectors\<close> (\<^verbatim>\<open>kernel/tools/gen_v40_workspace_vectors.py\<close>).
  \<^item> \<open>Archive\<close>, \<open>Archive_Correct\<close> (\<^verbatim>\<open>archive.py\<close>); \<open>Bogfs\<close> (\<^verbatim>\<open>bogfs.py\<close>, \<^verbatim>\<open>scripts/make_bogfs.py\<close>).
  \<^item> \<open>Bogboot\<close>, \<open>Bogboot_Correct\<close> (\<^verbatim>\<open>bogboot.py\<close>).
  \<^item> \<open>Json_Indent\<close>, the indented text form of JSON files; \<open>Store\<close>, \<open>Store_Correct\<close>, \<open>Store_Bundle\<close> (\<^verbatim>\<open>store.py\<close>).
    \<open>Store_Demo\<close> is a concrete store for the witnesses.
  \<^item> \<open>BogCell\<close>, \<open>BogCell_Correct\<close>, \<open>BogCell_Compile\<close> (\<^verbatim>\<open>bogcell.py\<close>); \<open>BogCell_Demo\<close> is a cell for the witnesses.
  \<^item> \<open>Signing\<close> (\<^verbatim>\<open>signing.py\<close>); \<open>Genesis\<close>, \<open>Genesis_Correct\<close>, \<open>Genesis_State\<close>, \<open>Genesis_Replay\<close> (\<^verbatim>\<open>genesis.py\<close>);
    \<open>Swarm\<close> (\<^verbatim>\<open>swarm.py\<close>); \<open>Mesh\<close> (\<^verbatim>\<open>mesh.py\<close>). \<open>Genesis_Demo\<close> is a concrete workspace for the witnesses.

  \<^bold>\<open>What the theorems show.\<close>
  \<^item> Planning: every transform is reversible on every byte string, the planner is total and exact and picks a
    least residual count over the bases it searches (the Fourier basis with delta 0 only), the tournament an
    exact plan of least cost.
  \<^item> Containers: build, encode, decode and reconstruct is the identity for every payload and legal chunking;
    whatever byte string the decoder accepts yields a payload whose length and digest stand in the header fields
    of that byte string; variable-length integers have exactly one accepted encoding.
  \<^item> Programs: an assembled file loads to the emitted instructions; every assembled program ends with a
    receipt; accepted data had a matching digest and accepted claims were supported at the time they were
    verified; the support search terminates and decides reachability; packed text, and a compiled container,
    run to accepted blocks that hold the payload.
  \<^item> Workspace: the operation refines an abstract machine of path bindings; roots commit to the history and to
    the state, and journals against one head agree as far as both go, each up to a collision that the
    statement names.
  \<^item> Archives and images: archiving and restoring is the identity on directories as a listing gives them; a
    completed restore wrote exactly the plain spellings of the paths in the manifest, with the sizes and
    digests listed there; restoring succeeds exactly when verification completes and one directory can hold the
    listed paths; both file views read back every file.
  \<^item> Packages: packaging, installing and verifying a directory succeeds and installs that directory;
    verification completes exactly when the package and everything it depends on are sound and acyclic;
    installing under a new key keeps what was verified, and the new package verifies when its manifest lists
    every path once and plainly spelt.
  \<^item> Cells: the receipt of a compiled program verifies and lists exactly the names it uses; a run changes files
    only through its write capability and its receipt accounts for every write; nothing is executed unless the
    package verifies and the build receipt and the bytecode agree, wherever the app's paths lead to them; a
    compiled program passes these checks and none of its calls lacks a capability.
  \<^item> Ledgers: every session of writes, reads, rollbacks and events leaves a verified ledger that extends the
    old one; files refine a map from paths to contents; rollback restores what the target receipt left, and
    sessions without blocked rollbacks and without events that involve the registry replay. The boot ledger verifies after every run of device events, its
    memory-map check is exactly validity and pairwise disjointness.
  \<^item> Swarm and mesh: a finished tournament wrote a best completed candidate; mesh conflicts are resolved by
    authority and then by support; importing and resolving keep the store verified.
  \<^item> Defects: theorems such as \<open>blocked_rollback_breaks_replay\<close>, \<open>reboot_breaks_ledger\<close>, \<open>reinstall_closes_cycle\<close>,
    \<open>late_patch_is_accepted\<close>, \<open>fourier_delta_not_searched\<close>, \<open>respelt_path_installs_unverified\<close>,
    \<open>program_outside_package_runs\<close> and \<open>journal_suffix_verifies\<close> state what the code does where it differs from its
    intention.

  \<^bold>\<open>Modelling choices, bounds and fuel.\<close>
  \<^item> A raised exception is \<open>Inl\<close> with its class and message. Stateful code passes its state explicitly; a
    Genesis action returns its result together with the state it left, also when it raises, so that partial
    effects stay visible.
  \<^item> Python integers are \<open>int\<close>; bytes are \<open>8 word\<close>, and the packed fields of the assembler and the workspace
    check their widths and raise as \<open>struct.pack\<close> does.
  \<^item> Text is a list of characters with code points below 256. A JSON number with a fraction or exponent is kept
    as its text.
  \<^item> Loops are structural or proved to terminate. The recursion of package verification terminates
    because every call for a dependency has one more installed package on its path. Only the JSON parser takes
    fuel, twice the length of the text plus one: each call consumes a character or descends from one that did;
    that it suffices for every printed value is a lemma of \<open>Json\<close> and \<open>Json_Indent\<close>.
  \<^item> A directory is a dictionary from relative paths to contents. What is written to it has its path in the
    plain spelling (no empty or dot part) that \<open>pathlib\<close> gives it, and a file in the place of a directory, or a
    directory in the place of a file, raises. Symbolic links, permissions and I/O failures of the host are
    outside the model. JSON files are kept as their values where the code only stores and reads
    them; their text form matters, and is modelled, where it is hashed.
  \<^item> SHA-256 is the concrete function. Tamper evidence is therefore never unconditional: the statements give
    either the conclusion or a named pair of byte strings that collide.
  \<^item> Ledger statements assume fewer than a million entries, since entries are read in the order of file names
    that hold a six-digit number.
  \<^item> Parameters: the schema validator (a third-party package), the Ed25519 functions (with the law that a
    signature made with a private key verifies under its public key), and, in replay, the failures that the
    registry, lock file and installed packages report; for a cell, the workspace's record of the app, the
    file of the compiler, whose digest its receipts carry, and the host outside the install directory (its
    working directory, files and directories), where a path of the app can lead.

  \<^bold>\<open>Not modelled.\<close> The registry, lock file, installation, demonstration
  and shell parts of \<^verbatim>\<open>genesis.py\<close>; the shell \<^verbatim>\<open>bogos.py\<close>, the supervisor \<^verbatim>\<open>kernel.py\<close> and \<^verbatim>\<open>bog_runtime.py\<close>, which
  are subprocesses, sockets and clocks; the drivers \<^verbatim>\<open>hypergenesis.py\<close>, \<^verbatim>\<open>vertical.py\<close> and \<^verbatim>\<open>__main__.py\<close>; the image
  builders and \<open>evaluate\<close> scripts under \<^verbatim>\<open>scripts\<close>, which lay out constants or run QEMU; and the kernel in Rust.
\<close>

section \<open>Reversible transforms and the residual planner\<close>

text \<open>
  C14. Every transform that the container format names is reversible on every byte string: applying
  it never raises, keeps the length, and inverting it with the parameter it returned gives the
  bytes back.
\<close>

theorem transforms_reversible:
  assumes "name \<in> set TRANSFORM_ORDER"
  shows "\<exists>t p. apply_transform_with_param name data = Inr (t, p) \<and> length t = length data \<and>
           invert_transform name t (int p) = Inr data"
  by (rule named_transform_roundtrip [OF assms])

theorem transforms_reversible_witness:
  "''bwt_mtf'' \<in> set TRANSFORM_ORDER \<and>
   (\<exists>t p. apply_transform_with_param ''bwt_mtf'' [98, 97, 110, 97, 110, 97] = Inr (t, p) \<and> length t = 6 \<and>
      invert_transform ''bwt_mtf'' t (int p) = Inr [98, 97, 110, 97, 110, 97])"
  using transforms_reversible [of "''bwt_mtf''" "[98, 97, 110, 97, 110, 97]"]
  by (simp add: TRANSFORM_ORDER_def eval_nat_numeral)

text \<open>
  C12. The residual planner is total and exact: for every input it returns a plan, the basis of the plan
  can be synthesized to the length of the input, applying the residuals to it gives the input back, and
  the digest and the residual count that the plan states are right.
\<close>

theorem residual_plan_exact:
  "\<exists>plan generated. optimize_residual_plan data = Inr plan \<and>
     synthesize_basis (p_basis plan) (p_start_byte plan) (int (length data)) (p_delta plan) = Inr generated \<and>
     apply_residuals generated (p_residuals plan) = Inr data \<and>
     p_sha256 plan = hexdigest data \<and> p_residual_count plan = int (length (p_residuals plan)) \<and>
     assert_exact_reconstruction plan data = Inr ()"
proof -
  obtain plan where plan: "optimize_residual_plan data = Inr plan" "plan_exact plan data"
    using optimize_residual_plan_exact by blast
  have "p_reconstructed_hash plan = hexdigest data" by (rule optimize_residual_plan_hash [OF plan(1)])
  then have "assert_exact_reconstruction plan data = Inr ()"
    using plan(2) by (auto simp: assert_exact_reconstruction_def plan_exact_def Let_def)
  then show ?thesis using plan unfolding plan_exact_def by metis
qed

text \<open>
  C13. The planner is optimal over what it searches: no named basis with any byte coefficients, the Fourier
  basis with delta 0 only, needs fewer residuals than the plan it returns. For the Fourier basis with
  another delta this is false, as \<open>fourier_delta_not_searched\<close> below shows.
\<close>

theorem residual_plan_optimal:
  assumes "optimize_residual_plan data = Inr plan"
    and "synthesize_basis b s (int (length data)) d = Inr generated"
    and "b = ''fourier8_u8'' \<Longrightarrow> d = 0"
  shows "p_residual_count plan \<le> int (count_residuals data generated)"
  using optimize_residual_plan_least [OF assms(1) _ _ _ assms(3,2)] bogbasis.synth_Inr_args [OF assms(2)]
  by blast

theorem residual_plan_optimal_witness:
  "\<exists>plan. optimize_residual_plan [7, 8] = Inr plan \<and>
     p_residual_count plan \<le> int (count_residuals [7, 8] [7, 8])"
proof -
  obtain plan where plan: "optimize_residual_plan [7, 8] = Inr plan" using optimize_residual_plan_exact by blast
  have "synthesize_basis ''delta_u8'' 7 2 1 = Inr [7, 8]" by code_simp
  then show ?thesis using residual_plan_optimal [OF plan, of "''delta_u8''" 7 1 "[7, 8]"] plan by simp
qed

lemma word_of_int_byte_eq: "(word_of_int a :: byte) = word_of_int b \<longleftrightarrow> a mod 256 = b mod 256"
  by (simp add: word_of_int_eq_iff take_bit_eq_mod)

lemma start_110_delta:
  assumes "0 \<le> d" and "d \<le> 255" and "(110 + d) mod 256 = (221 :: int)"
  shows "(110 + 2 * d) mod 256 \<noteq> (210 :: int)"
proof -
  have "d = 111" using assms mult_div_mod_eq [of 256 "110 + d"] by presburger
  then show ?thesis by simp
qed

text \<open>
  The Fourier basis is not searched in full: these eight bytes are exactly the Fourier basis with start 10
  and delta 200, so they need no residual at all, but the planner tries that basis with delta 0 only and
  returns a plan that has some.
\<close>

theorem fourier_delta_not_searched:
  "synthesize_basis ''fourier8_u8'' 10 8 200 = Inr [110, 221, 210, 80, 166, 53, 66, 194] \<and>
   (\<exists>plan. optimize_residual_plan [110, 221, 210, 80, 166, 53, 66, 194] = Inr plan \<and> 0 < p_residual_count plan)"
proof
  show "synthesize_basis ''fourier8_u8'' 10 8 200 = Inr [110, 221, 210, 80, 166, 53, 66, 194]" by code_simp
  let ?data = "[110, 221, 210, 80, 166, 53, 66, 194] :: bytes"
  obtain plan where plan: "optimize_residual_plan ?data = Inr plan" "plan_exact plan ?data"
    using optimize_residual_plan_exact by blast
  obtain g where g: "synthesize_basis (p_basis plan) (p_start_byte plan) 8 (p_delta plan) = Inr g"
      "apply_residuals g (p_residuals plan) = Inr ?data" "p_residual_count plan = int (length (p_residuals plan))"
    using plan(2) by (auto simp: plan_exact_def)
  have args: "0 \<le> p_start_byte plan \<and> p_start_byte plan \<le> 255" "0 \<le> p_delta plan \<and> p_delta plan \<le> 255"
    using bogbasis.synth_Inr_args [OF g(1)] by simp_all
  have "\<not> p_residuals plan = []"
  proof
    assume "p_residuals plan = []"
    then have all: "g = ?data" using g(2) by (simp add: apply_residuals_def)
    have "g ! 0 = word_of_int 110" "g ! 1 = word_of_int 221" "g ! 2 = word_of_int 210" "g ! 0 \<noteq> 0" unfolding all by simp_all
    then show False
      using g(1) args optimize_residual_plan_basis [OF plan(1)] start_110_delta [of "p_delta plan"]
      by (auto simp: synthesize_basis_def nth_bytes_from word_of_int_byte_eq BASIS_ORDER_def TRIANGLE_U8_OFFSETS_def SINE8_U8_OFFSETS_def
          simp del: of_int_numeral word_of_int_numeral)
  qed
  then show "\<exists>plan. optimize_residual_plan ?data = Inr plan \<and> 0 < p_residual_count plan"
    using plan(1) g(3) by (intro exI [of _ plan]) simp
qed
text \<open>
  Only five of the nine bases can ever be chosen: the dictionary, run-length, ramp and Fourier bases
  never win the search, since an earlier basis always reaches the same residual count.
\<close>

theorem residual_plan_bases:
  assumes "optimize_residual_plan data = Inr plan"
  shows "p_basis plan \<in> {''zero_block'', ''repeat_byte'', ''delta_u8'', ''triangle_u8'', ''sine8_u8''}"
  by (rule optimize_residual_plan_basis [OF assms])

theorem residual_plan_bases_witness:
  "\<exists>plan. optimize_residual_plan [1, 2, 3] = Inr plan \<and>
     p_basis plan \<in> {''zero_block'', ''repeat_byte'', ''delta_u8'', ''triangle_u8'', ''sine8_u8''}"
proof -
  obtain plan where plan: "optimize_residual_plan [1, 2, 3] = Inr plan" using optimize_residual_plan_exact by blast
  then show ?thesis using residual_plan_bases [OF plan] by blast
qed

text \<open>
  The transform tournament returns, for every input, a plan whose transform can be inverted after its
  residuals are applied, and no transform it tried has a smaller total cost.
\<close>

theorem transform_tournament_exact:
  "\<exists>tp t generated. optimize_transformed_residual_plan data = Inr tp \<and>
     apply_transform_with_param (t_transform tp) data = Inr (t, nat (t_transform_param tp)) \<and>
     synthesize_basis (p_basis tp) (p_start_byte tp) (int (length data)) (p_delta tp) = Inr generated \<and>
     apply_residuals generated (p_residuals tp) = Inr t \<and>
     invert_transform (t_transform tp) t (t_transform_param tp) = Inr data \<and>
     (\<forall>(i, transform) \<in> set (enumerate 0 TRANSFORM_ORDER). \<forall>c.
        transform_candidate data (i, transform) = Inr c \<longrightarrow>
        s_total_cost (t_score tp) \<le> s_total_cost (t_score (snd c)))"
proof -
  obtain tp where tp: "optimize_transformed_residual_plan data = Inr tp" "tplan_exact tp data"
    and least: "\<forall>(i, transform) \<in> set (enumerate 0 TRANSFORM_ORDER). \<forall>c.
        transform_candidate data (i, transform) = Inr c \<longrightarrow>
        s_total_cost (t_score tp) \<le> s_total_cost (t_score (snd c))"
    by (rule optimize_transformed_residual_plan_winner)
  obtain t where t: "apply_transform_with_param (t_transform tp) data = Inr (t, nat (t_transform_param tp))"
      "plan_exact (plan.truncate tp) t" "0 \<le> t_transform_param tp" "t_transform tp \<in> set TRANSFORM_ORDER"
    using tp(2) by (auto simp: tplan_exact_def exact_via_def)
  have inv: "invert_transform (t_transform tp) t (t_transform_param tp) = Inr data" "length t = length data"
    using named_transform_roundtrip [OF t(4), of data] t(1,3) by auto
  have fields: "p_basis (plan.truncate tp) = p_basis tp" "p_start_byte (plan.truncate tp) = p_start_byte tp"
      "p_delta (plan.truncate tp) = p_delta tp" "p_residuals (plan.truncate tp) = p_residuals tp"
    by (simp_all add: plan.defs)
  obtain g where g: "synthesize_basis (p_basis tp) (p_start_byte tp) (p_length (plan.truncate tp)) (p_delta tp) = Inr g"
      "apply_residuals g (p_residuals tp) = Inr t" "p_length (plan.truncate tp) = int (length t)"
    using t(2) unfolding plan_exact_def fields by blast
  show ?thesis
    by (rule exI [of _ tp], rule exI [of _ t], rule exI [of _ g]) (intro conjI tp(1) t(1) g(2) inv(1) least, use g inv(2) in simp)
qed

theorem transform_tournament_exact_witness:
  "\<exists>tp t generated. optimize_transformed_residual_plan [] = Inr tp \<and>
     apply_transform_with_param (t_transform tp) [] = Inr (t, nat (t_transform_param tp)) \<and>
     synthesize_basis (p_basis tp) (p_start_byte tp) 0 (p_delta tp) = Inr generated \<and>
     apply_residuals generated (p_residuals tp) = Inr t \<and>
     invert_transform (t_transform tp) t (t_transform_param tp) = Inr []"
  using transform_tournament_exact [of "[]"] by fastforce

section \<open>Containers\<close>

text \<open>
  C10. A payload survives the whole packing path: building a container with any legal chunk size, or with
  the chunk-size tournament, and with or without the transform tournament succeeds; the container encodes
  to BOGPK bytes when its chunk size is a BOGPK one; the decoder accepts those bytes; and both the built
  and the decoded container reconstruct the payload.
\<close>

theorem pack_unpack:
  assumes "schema_complete iter_errors" and "length data < 2 ^ 70"
    and "auto_chunk \<or> int n \<in> set CANDIDATE_CHUNK_SIZES"
  shows "\<exists>c bs c'. build_bog_container_v1 data (int n) auto_chunk transform_tournament = Inr c \<and>
           reconstruct_bog_container_bytes c = Inr data \<and>
           encode_bogpk_container iter_errors c = Inr bs \<and>
           decode_bogpk_container iter_errors bs = Inr c' \<and>
           reconstruct_bog_container_bytes c' = Inr data"
proof -
  have "auto_chunk \<or> 0 < n \<and> n \<le> 65535" using assms(3) candidate_sizes [of "int n"] by auto
  then obtain c m where c: "build_bog_container_v1 data (int n) auto_chunk transform_tournament = Inr c"
      "container_holds c m data" "if auto_chunk then int m \<in> set CANDIDATE_CHUNK_SIZES else m = n"
    by (rule build_holds)
  have "int m \<in> set CANDIDATE_CHUNK_SIZES" using c(3) assms(3) by (auto split: if_splits)
  then obtain bs c' where "encode_bogpk_container iter_errors c = Inr bs"
      "decode_bogpk_container iter_errors bs = Inr c'" "container_holds c' m data"
    using encode_decode_holds [OF c(2) _ assms(2,1)] by blast
  then show ?thesis using c(1) container_holds_reconstruct [OF c(2)] container_holds_reconstruct by blast
qed

theorem pack_unpack_witness:
  "\<exists>c bs c'. build_bog_container_v1 [1, 2, 3] 64 False True = Inr c \<and>
     reconstruct_bog_container_bytes c = Inr [1, 2, 3] \<and>
     encode_bogpk_container (\<lambda>c. if bogpk_metadata_schema c then [] else [([], ''invalid'')]) c = Inr bs \<and>
     decode_bogpk_container (\<lambda>c. if bogpk_metadata_schema c then [] else [([], ''invalid'')]) bs = Inr c' \<and>
     reconstruct_bog_container_bytes c' = Inr [1, 2, 3]"
  using pack_unpack [of "\<lambda>c. if bogpk_metadata_schema c then [] else [([], ''invalid'')]" "[1, 2, 3]" False 64 True]
  by (simp add: schema_complete_def CANDIDATE_CHUNK_SIZES_def)

text \<open>
  C11. The decoder is sound on arbitrary input: whenever it accepts a byte string, that string is the magic, the
  version, the flags, the code of the chunk size, three variable-length integers, a 32-byte digest and
  the descriptors; the container it returns passes validation and reconstructs a payload; and the header
  states that payload: its length, the chunk and residual counts of the container, and, in the 32
  bytes of the digest field, its SHA-256 digest.
\<close>

theorem decode_accepts_only_verified:
  assumes "decode_bogpk_container iter_errors bs = Inr c"
  shows "\<exists>data flags code A B C rest. validate_bog_container c = Inr () \<and> reconstruct_bog_container_bytes c = Inr data \<and>
    bs = BOGPK_MAGIC @ [BOGPK_VERSION, flags, code] @ A @ B @ C @ sha256 data @ rest \<and>
    encode_varuint (int (length data)) = Inr A \<and> encode_varuint (bc_chunk_count c) = Inr B \<and>
    encode_varuint (bc_total_residual_count c) = Inr C \<and> bc_chunk_size c = CANDIDATE_CHUNK_SIZES ! unat code \<and>
    bc_whole_sha256 c = hexdigest data"
proof (rule decode_sound [OF assms])
  fix data flags code A B C rest
  assume "reconstruct_bog_container_bytes c = Inr data" "container_ok c" "hexdigest data = bc_whole_sha256 c"
    "bs = BOGPK_MAGIC @ [BOGPK_VERSION, flags, code] @ A @ B @ C @ sha256 data @ rest"
    "encode_varuint (int (length data)) = Inr A" "encode_varuint (bc_chunk_count c) = Inr B"
    "encode_varuint (bc_total_residual_count c) = Inr C" "bc_chunk_size c = CANDIDATE_CHUNK_SIZES ! unat code"
  then show ?thesis
    by (intro exI [of _ data] exI [of _ flags] exI [of _ code] exI [of _ A] exI [of _ B] exI [of _ C] exI [of _ rest])
      (simp only: validate_bog_container_iff simp_thms)
qed

theorem decode_accepts_only_verified_witness:
  "\<exists>bs c data before after. decode_bogpk_container (\<lambda>_. []) bs = Inr c \<and> validate_bog_container c = Inr () \<and>
    reconstruct_bog_container_bytes c = Inr data \<and> bs = BOGPK_MAGIC @ before @ sha256 data @ after"
proof -
  obtain c m where c: "container_holds c m [5]" "m = 16"
    using build_holds [of False 16 "[5]" False] by fastforce
  then obtain bs c' where "decode_bogpk_container (\<lambda>_. []) bs = Inr c'"
    using encode_decode_holds [OF c(1), of "\<lambda>_. []"] by (auto simp: schema_complete_def CANDIDATE_CHUNK_SIZES_def)
  then show ?thesis using decode_accepts_only_verified [of "\<lambda>_. []" bs c'] by (metis append_assoc)
qed

text \<open>
  The chunk-size tournament picks a candidate size whose plan needs the fewest residuals, and among
  those the fewest chunks and then the smallest size; the rounded density in its key never decides.
\<close>

theorem chunk_size_tournament:
  "\<exists>ck results sz. optimize_adaptive_chunked_residual_plan data tt = Inr (ck, results) \<and>
     sz \<in> set CANDIDATE_CHUNK_SIZES \<and> optimize_chunked_plan data sz tt = Inr ck \<and>
     (\<forall>sz' \<in> set CANDIDATE_CHUNK_SIZES. \<forall>ck'. optimize_chunked_plan data sz' tt = Inr ck' \<longrightarrow>
        (ck_total_residual_count ck, ck_chunk_count ck, sz) \<le> (ck_total_residual_count ck', ck_chunk_count ck', sz'))"
proof -
  obtain ck results sz where w: "optimize_adaptive_chunked_residual_plan data tt = Inr (ck, results)"
    "sz \<in> set CANDIDATE_CHUNK_SIZES" "optimize_chunked_plan data sz tt = Inr ck"
    "\<And>sz' ck'. sz' \<in> set CANDIDATE_CHUNK_SIZES \<Longrightarrow> optimize_chunked_plan data sz' tt = Inr ck' \<Longrightarrow>
       ck_total_residual_count ck < ck_total_residual_count ck' \<or>
       ck_total_residual_count ck = ck_total_residual_count ck' \<and>
       (ck_chunk_count ck, sz) \<le> (ck_chunk_count ck', sz')"
    by (rule optimize_adaptive_least) (rule that)
  show ?thesis
    by (rule exI [of _ ck], rule exI [of _ results], rule exI [of _ sz])
      (intro conjI ballI allI impI w(1-3), drule (1) w(4), auto)
qed

theorem chunk_size_tournament_witness:
  "\<exists>ck results. optimize_adaptive_chunked_residual_plan [9] False = Inr (ck, results)"
  using chunk_size_tournament [of "[9]" False] by blast

text \<open>
  The variable-length integers of the packed form are canonical: an integer below 2^70 is read back
  from its encoding whatever follows it, and the reader accepts no other bytes for it.
\<close>

theorem varuint_canonical:
  "decode_varuint r = Inr (v, rest) \<longleftrightarrow> 0 \<le> v \<and> v < 2 ^ 70 \<and> (\<exists>bs. encode_varuint v = Inr bs \<and> r = bs @ rest)"
  using varuint.dec_iff by (auto simp: varuint_valid_def)

text \<open>
  Both encodings of a residual list are read back exactly: for strictly increasing offsets inside a
  chunk, the reader that knows the count and the chunk length returns the list and leaves the rest.
\<close>

theorem residual_lists_roundtrip:
  assumes "residuals_ok len (- 1) rs" and "0 \<le> len" and "len < 2 ^ 63"
  shows "\<exists>bd bb. append_residuals rs = Inr bd \<and> append_bitmask_residuals len rs = Inr bb \<and>
           read_residuals (bd @ rest) (int (length rs)) len = Inr (rs, rest) \<and>
           read_bitmask_residuals (bb @ rest) (int (length rs)) len = Inr (rs, rest)"
proof -
  have "residual_list_valid len rs" using assms by (simp add: residual_list_valid_def)
  then show ?thesis using delta_residuals_roundtrip bitmask_residuals_roundtrip by metis
qed

theorem residual_lists_roundtrip_witness:
  "\<exists>bd bb. append_residuals [\<lparr>r_offset = 3, r_byte = 7\<rparr>, \<lparr>r_offset = 9, r_byte = 0\<rparr>] = Inr bd \<and>
     append_bitmask_residuals 10 [\<lparr>r_offset = 3, r_byte = 7\<rparr>, \<lparr>r_offset = 9, r_byte = 0\<rparr>] = Inr bb \<and>
     read_residuals (bd @ [1]) 2 10 = Inr ([\<lparr>r_offset = 3, r_byte = 7\<rparr>, \<lparr>r_offset = 9, r_byte = 0\<rparr>], [1]) \<and>
     read_bitmask_residuals (bb @ [1]) 2 10 = Inr ([\<lparr>r_offset = 3, r_byte = 7\<rparr>, \<lparr>r_offset = 9, r_byte = 0\<rparr>], [1])"
  using residual_lists_roundtrip [of 10 "[\<lparr>r_offset = 3, r_byte = 7\<rparr>, \<lparr>r_offset = 9, r_byte = 0\<rparr>]" "[1]"] by simp

text \<open>
  C15. Reconstruction is exactly specified: it returns \<open>data\<close> if and only if the container passes
  validation, \<open>data\<close> is the concatenation of parts such that every chunk synthesizes, patches and inverts
  to its part with all its digests right, and the digest of \<open>data\<close> is the whole digest.
\<close>

theorem reconstruct_spec:
  "reconstruct_bog_container_bytes c = Inr data \<longleftrightarrow>
     validate_bog_container c = Inr () \<and>
     (\<exists>parts. list_all2 chunk_yields (bc_chunks c) parts \<and> data = concat parts) \<and>
     hexdigest data = bc_whole_sha256 c"
  unfolding reconstruct_iff validate_bog_container_iff by (rule refl)

section \<open>From packed text to accepted bytes\<close>

text \<open>
  C1. A payload packed as chunked assembly text comes back out of the virtual machine: for every chunk
  size up to 65535, at most 32768 chunks and a name without blanks or number signs, packing succeeds, the
  assembler takes every line, and, when the manifest fits its 32-bit length field, assembling gives a
  program that runs to completion, accepts exactly the chunk blocks in order, and holds in block \<open>n\<close> the
  \<open>n\<close>-th slice of the payload.
\<close>

theorem chunked_pack_runs:
  assumes "clean data_name" and "0 < n" and "n \<le> 65535" and "slice_count n (length data) \<le> 32768"
  shows "\<exists>txt. pack_chunked_bytes_to_bogasm data data_name (int n) = Inr txt \<and>
    assembles_to txt (map (\<lambda>i. pack_chunk_name data_name (int i)) [0..<slice_count n (length data)]) (slices n data)"
  using pack_chunked_assembles [OF assms(1-3)] assms(4) by simp

theorem chunked_pack_runs_witness:
  "\<exists>txt. pack_chunked_bytes_to_bogasm [1, 2, 3] ''payload'' 2 = Inr txt \<and>
    assembles_to txt (map (\<lambda>i. pack_chunk_name ''payload'' (int i)) [0..<2]) [[1, 2], [3]]"
proof -
  have name: "clean ''payload''" by (simp add: clean_def is_word_def is_space_def)
  have sl: "slice_count 2 (length [1, 2, 3 :: byte]) = 2" "slices 2 [1, 2, 3 :: byte] = [[1, 2], [3]]" by code_simp+
  show ?thesis using chunked_pack_runs [OF name, of 2 "[1, 2, 3]"] unfolding sl by simp
qed

text \<open>
  A payload of at most 65535 bytes packed as a single block comes back out of the virtual machine in
  the same sense: packing, assembling and running it ends with one accepted block that holds the payload.
\<close>

theorem single_pack_runs:
  assumes "clean data_name" and "length data \<le> 65535"
  shows "\<exists>txt. pack_bytes_to_bogasm data data_name = Inr txt \<and> assembles_to txt [data_name] [data]"
  by (rule pack_bytes_assembles [OF assms])

theorem single_pack_runs_witness:
  "\<exists>txt. pack_bytes_to_bogasm [7, 7, 9] ''blob'' = Inr txt \<and> assembles_to txt [''blob''] [[7, 7, 9]]"
  by (rule single_pack_runs) (simp_all add: clean_def is_word_def is_space_def)

text \<open>
  C2. A container built from a payload compiles to a program that rebuilds every chunk in its transformed
  form, and inverting the transform that the chunk names gives the matching slice of the payload.
\<close>

theorem container_compiles_and_runs:
  assumes "0 < n" and "n \<le> 65535" and "slice_count n (length data) \<le> 32768"
  shows "\<exists>c txt. build_bog_container_v1 data (int n) False tt = Inr c \<and>
    compile_bog_container_to_bogasm c = Inr txt \<and>
    assembles_to txt (map b_name (bc_chunks c)) (map chunk_transformed (bc_chunks c)) \<and>
    list_all2 (\<lambda>chunk part. invert_transform (chunk_transform chunk) (chunk_transformed chunk) (chunk_transform_param chunk) = Inr part)
      (bc_chunks c) (slices n data)"
proof -
  obtain c where c: "build_bog_container_v1 data (int n) False tt = Inr c" "container_holds c n data"
    using build_holds [of False n data tt] assms(1,2) by (metis (full_types))
  have y: "list_all2 chunk_yields (bc_chunks c) (slices n data)" and ok: "container_ok c" "bc_chunk_size c = int n"
    using c(2) by (simp_all add: container_holds_def)
  have "length (bc_chunks c) = slice_count n (length data)" using list_all2_lengthD [OF y] by simp
  moreover have "\<forall>chunk \<in> set (bc_chunks c). hexdigest (chunk_transformed chunk) = b_chunk_sha256 chunk"
    using y by (auto simp: list_all2_conv_all_nth in_set_conv_nth chunk_yields_def)
  ultimately obtain prog where "compile_bog_container_to_bogasm c = Inr prog"
      "assembles_to prog (map b_name (bc_chunks c)) (map chunk_transformed (bc_chunks c))"
    using compile_assembles [OF ok(1)] ok(2) assms(2,3) by auto
  moreover have "list_all2 (\<lambda>chunk part. invert_transform (chunk_transform chunk) (chunk_transformed chunk) (chunk_transform_param chunk) = Inr part)
      (bc_chunks c) (slices n data)"
    using y by (rule list_all2_mono) (simp add: chunk_yields_def)
  ultimately show ?thesis using c(1) by blast
qed

theorem container_compiles_and_runs_witness:
  "\<exists>c txt. build_bog_container_v1 [1, 1, 2] 64 False True = Inr c \<and> compile_bog_container_to_bogasm c = Inr txt \<and>
    assembles_to txt (map b_name (bc_chunks c)) (map chunk_transformed (bc_chunks c))"
proof -
  have "slice_count 64 (length [1, 1, 2 :: byte]) \<le> 32768" by code_simp
  then show ?thesis using container_compiles_and_runs [of 64 "[1, 1, 2]" True] by fastforce
qed

section \<open>The assembler\<close>

lemma not_isl_Inr: "\<not> isl r \<Longrightarrow> \<exists>x. r = Inr x"
  by (cases r) simp_all

text \<open>
  Binary instructions have exactly one encoding: eight bytes unpack to an instruction if and only if
  the instruction packs to those bytes.
\<close>

theorem instruction_codec: "unpack_instruction bs = Inr i \<longleftrightarrow> pack_instruction i = Inr bs"
  using unpack_pack pack_unpack_instruction by blast

text \<open>
  C6. Loading an assembled file gives back what the assembler emitted: the instructions in order, the
  manifest with its keys in sorted order, and the digest of the file.
\<close>

theorem assemble_then_load:
  assumes "assemble_text new_assembler txt = Inr data"
  shows "\<exists>asm. fold_res parse_line new_assembler (splitlines txt) = Inr asm \<and>
    load_bogbin data = Inr (canon (asm_manifest asm), instructions asm, hexdigest data)"
  using load_assembled [OF new_assembler_ok assms] by metis

theorem assemble_then_load_witness:
  "\<exists>data asm. assemble_text new_assembler ''HALT'' = Inr data \<and>
    load_bogbin data = Inr (canon (asm_manifest asm), instructions asm, hexdigest data)"
proof -
  have "\<not> isl (assemble_text new_assembler ''HALT'')" by code_simp
  then have "\<exists>data. assemble_text new_assembler ''HALT'' = Inr data" by (rule not_isl_Inr)
  then show ?thesis using assemble_then_load by blast
qed

text \<open>
  C9. The assembler keeps its tables and its code well-formed: ids are the positions of names, every
  instruction fits its binary fields and refers only to nodes and claims created by earlier instructions;
  so the only way to fail after the last line is a manifest of 4 GiB or more.
\<close>

theorem assembler_invariant:
  assumes "fold_res parse_line new_assembler (splitlines txt) = Inr asm"
  shows "asm_ok asm \<and> (length (utf8 (dumps (asm_manifest asm))) < 2 ^ 32 \<longrightarrow> (\<exists>data. assemble_text new_assembler txt = Inr data))"
  using parse_lines_ok [OF new_assembler_ok assms] write_bogbin_succeeds assms by (auto simp: assemble_text_def)

theorem assembler_invariant_witness:
  "\<exists>asm. fold_res parse_line new_assembler (splitlines ''NOOP'') = Inr asm \<and> asm_ok asm"
proof -
  have "\<not> isl (fold_res parse_line new_assembler (splitlines ''NOOP''))" by code_simp
  then have "\<exists>asm. fold_res parse_line new_assembler (splitlines ''NOOP'') = Inr asm" by (rule not_isl_Inr)
  then show ?thesis using assembler_invariant by blast
qed

section \<open>The virtual machine\<close>

text \<open>
  C5. Blocked execution is auditable for assembled programs: whatever text the assembler accepts, running
  the resulting file returns a receipt and exit code 0 or 1; no other exception escapes.
\<close>

theorem assembled_always_receipt:
  assumes "assemble_text new_assembler txt = Inr data"
  shows "\<exists>r code. run_file_with_block_receipt data = Inr (r, code) \<and> code \<in> {0, 1}"
  by (rule assembled_runs [OF assms])

theorem assembled_always_receipt_witness:
  "\<exists>data r code. assemble_text new_assembler ''LOG_RECEIPT'' = Inr data \<and> run_file_with_block_receipt data = Inr (r, code) \<and> code \<in> {0, 1}"
proof -
  have "\<not> isl (assemble_text new_assembler ''LOG_RECEIPT'')" by code_simp
  then have "\<exists>data. assemble_text new_assembler ''LOG_RECEIPT'' = Inr data" by (rule not_isl_Inr)
  then show ?thesis using assembled_always_receipt by blast
qed

text \<open>
  C3. No claim is accepted without support: whenever a reachable state lists a claim as accepted, an
  earlier state of the run had a path of support edges from the source to the target of the claim, and no
  positive conflict pressure recorded against it.
\<close>

theorem accepted_claims_supported:
  assumes "reachable m h st" and "c \<in> set (accepted_claims st)"
  shows "\<exists>st0 claim. reachable m h st0 \<and> vm_steps st0 st \<and> map_of (claim_table st0) c = Some claim \<and>
    (support_edge st0)\<^sup>*\<^sup>* (cl_source claim) (cl_target claim) \<and>
    (\<forall>p. map_of (pressure_current st0) c = Some p \<longrightarrow> conflict_pressure p \<le> 0)"
proof -
  obtain st0 where "reachable m h st0" "vm_steps st0 st" "verify_claim st0 c = Inr ''verified''"
    using claims_gate.accepted_once [OF assms(1)] assms(2) unfolding once_def by blast
  then show ?thesis using support_path_decides by (metis verify_claim_verified)
qed

theorem accepted_claims_supported_witness:
  "\<exists>m h st. reachable m h st \<and> 0 \<in> set (accepted_claims st) \<and>
    (\<exists>st0 claim. reachable m h st0 \<and> vm_steps st0 st \<and> map_of (claim_table st0) 0 = Some claim \<and>
      (support_edge st0)\<^sup>*\<^sup>* (cl_source claim) (cl_target claim))"
proof -
  let ?m = "JObj [(''nodes'', JObj [(''0'', JStr ''A''), (''1'', JStr ''B'')]), (''claims'', JObj [(''0'', JObj [(''name'', JStr ''c'')])])]"
  let ?is = "[instr 2 0 0 0 0, instr 2 0 1 0 0, instr 3 1 0 0 1, instr 4 0 0 0 1, instr 10 0 0 0 0, instr 11 0 0 0 0]"
  have "case run_loop 0 ?is (new_vm ?m ''h'') of Inl (e, st) \<Rightarrow> 0 \<in> set (accepted_claims st) | Inr _ \<Rightarrow> False"
    by code_simp
  then obtain e st where run: "run_loop 0 ?is (new_vm ?m ''h'') = Inl (e, st)" "0 \<in> set (accepted_claims st)"
    by (auto split: sum.splits prod.splits)
  have "list_all fits ?is" by (simp add: fits_def)
  then have "reachable ?m ''h'' st" using run_loop_reaches [OF _ run(1)] by (simp add: reachable_def)
  then show ?thesis using accepted_claims_supported [of ?m "''h''" st 0] run(2) by blast
qed

text \<open>
  C4. No data block is accepted without a matching digest: whenever a reachable state lists a block as
  accepted, an earlier state of the run held bytes for it whose SHA-256 digest is a constant of the
  manifest.
\<close>

theorem accepted_data_hashed:
  assumes "reachable m h st" and "d \<in> set (accepted_data_blocks st)"
  shows "\<exists>st0 block c. reachable m h st0 \<and> vm_steps st0 st \<and> map_of (data_blocks st0) d = Some block \<and>
    manifest_get st0 ''constants'' c JNull = Inr (JStr (hexdigest (d_bytes block)))"
  using data_gate.accepted_once [OF assms(1)] assms(2) unfolding once_def hash_matches_def by blast

theorem accepted_data_hashed_witness:
  "\<exists>m h st. reachable m h st \<and> 0 \<in> set (accepted_data_blocks st) \<and>
    (\<exists>st0 block c. reachable m h st0 \<and> vm_steps st0 st \<and> map_of (data_blocks st0) 0 = Some block \<and>
      manifest_get st0 ''constants'' c JNull = Inr (JStr (hexdigest (d_bytes block))))"
proof -
  let ?plan = "\<lparr>p_basis = ''zero_block'', p_start_byte = 0, p_delta = 0, p_length = 0, p_sha256 = hexdigest [],
      p_residual_count = 0, p_residuals = [], p_reconstructed_hash = hexdigest []\<rparr>"
  let ?m = "JObj [(''constants'', JObj [(str_int 0, JStr ''zero_block''), (str_int 1, JStr (hexdigest []))]), (''data_blocks'', JObj [(str_int 0, JStr ''x'')])]"
  have "str_int 1 \<noteq> str_int 0" using str_int_inj by fastforce
  then have man: "manifest_get (new_vm ?m ''h'') ''constants'' 0 JNull = Inr (JStr (p_basis ?plan))"
      "manifest_get (new_vm ?m ''h'') ''constants'' 1 JNull = Inr (JStr (p_sha256 ?plan))"
      "manifest_get (new_vm ?m ''h'') ''data_blocks'' 0 JNull = Inr (JStr ''x'')"
    by (simp_all add: manifest_get_def json_index_def json_get_def dict_get_def require_def new_vm_def)
  have "plan_packable ''x'' ?plan" "yields ?plan []"
    by (simp_all add: plan_packable_def yields_def clean_def is_word_def is_space_def BASIS_ORDER_def synthesize_basis_def patch_bytes_def)
  then obtain st where run: "run_loop 0 (block_code 0 0 1 ?plan @ []) (new_vm ?m ''h'') = run_loop (0 + length (block_code 0 0 1 ?plan)) [] st"
      "accepted_data_blocks st = add_sorted 0 (accepted_data_blocks (new_vm ?m ''h''))"
    using run_block [OF _ _ man, of "[]" 0 "[]"] by blast
  have "list_all fits (block_code 0 0 1 ?plan)" by (simp add: block_code_def store_code_def fits_def)
  then have "reachable ?m ''h'' st"
    using run_loop_reaches [of "block_code 0 0 1 ?plan" 0 "new_vm ?m ''h''"] run(1) by (simp add: reachable_def)
  moreover have "0 \<in> set (accepted_data_blocks st)" using run(2) by simp
  ultimately show ?thesis using accepted_data_hashed [of ?m "''h''" st 0] by blast
qed

text \<open>
  The digest check does not cover later changes: after a block has been verified, storing and
  applying one more residual changes its bytes and the block is still accepted.
\<close>

theorem late_patch_is_accepted:
  assumes "map_of (data_blocks st) d = Some blk" and "d_residuals blk = []" and "map_of (data_hash_results st) d = Some ''verified''"
    and "0 \<le> offset" and "offset < int (length (d_bytes blk))" and "int (length (d_bytes blk)) = d_length blk" and "0 \<le> v" and "v \<le> 255"
  shows "\<exists>st1 st2 st3 blk'. step pc ''STORE_RESIDUAL'' \<lparr>i_opcode = 21, i_flags = 0, i_target = d, i_source = offset, i_param = v\<rparr> st = Inr st1 \<and>
     step (pc + 1) ''APPLY_RESIDUAL'' \<lparr>i_opcode = 22, i_flags = 0, i_target = d, i_source = 0, i_param = 0\<rparr> st1 = Inr st2 \<and>
     step (pc + 2) ''ACCEPT_DATA'' \<lparr>i_opcode = 20, i_flags = 0, i_target = d, i_source = 0, i_param = 0\<rparr> st2 = Inr st3 \<and>
     d \<in> set (accepted_data_blocks st3) \<and> map_of (data_blocks st3) d = Some blk' \<and>
     d_bytes blk' = (d_bytes blk)[nat offset := word_of_int v]"
  by (rule late_patch_accepted [OF assms])

theorem late_patch_is_accepted_witness:
  "\<exists>(st :: vm_state) (st3 :: vm_state) blk'. map_of (data_hash_results st) 0 = Some ''verified'' \<and> map_of (data_blocks st) 0 \<noteq> map_of (data_blocks st3) 0 \<and>
     0 \<in> set (accepted_data_blocks st3) \<and> map_of (data_blocks st3) 0 = Some blk' \<and> d_bytes blk' = [9]"
proof -
  let ?blk = "\<lparr>d_id = 0, d_name = JStr ''x'', d_basis = Some ''zero_block'', d_byte = 0, d_delta = 0, d_length = 1, d_bytes = [0], d_residuals = []\<rparr>"
  let ?st = "(new_vm JNull ''h'')\<lparr>data_blocks := [(0, ?blk)], data_hash_results := [(0, ''verified'')]\<rparr>"
  obtain st3 :: vm_state and blk' where "0 \<in> set (accepted_data_blocks st3)" "map_of (data_blocks st3) 0 = Some blk'" "d_bytes blk' = [9]"
    using late_patch_is_accepted [of ?st 0 ?blk 0 9 0] by auto
  then show ?thesis by (intro exI [of _ ?st] exI [of _ st3] exI [of _ blk']) auto
qed

text \<open>
  C7. The support search is correct and always answers: in a well-formed state it returns whether the
  target can be reached from the source along support edges.
\<close>

theorem support_search_correct:
  assumes "vm_ok st"
  shows "support_path_exists st src dst = Inr ((support_edge st)\<^sup>*\<^sup>* src dst)"
proof -
  obtain b where "support_path_exists st src dst = Inr b" using support_path_total assms by (metis vm_ok_def)
  then show ?thesis using support_path_decides by simp
qed

theorem support_search_correct_witness:
  "support_path_exists (new_vm JNull ''h'') 3 3 = Inr ((support_edge (new_vm JNull ''h''))\<^sup>*\<^sup>* 3 3)"
  by (rule support_search_correct [OF new_vm_ok])

text \<open>
  C8. Every reachable state is well-formed: edges join existing nodes and every adjacency entry is an
  edge, activations are non-negative, the lists of accepted, rejected and quarantined ids are sorted,
  free of repetitions and refer to known claims and blocks, and stored residuals are byte patches.
\<close>

theorem vm_invariant:
  assumes "reachable m h st"
  shows "vm_ok st"
  by (rule reachable_ok [OF assms])

theorem vm_invariant_witness: "vm_ok (new_vm JNull ''h'')"
  by (rule vm_invariant [of JNull "''h''"]) (simp add: reachable_def)

text \<open>
  Propagation preserves other sources: it never lowers the activation of any node, and the energy
  that it logs is between zero and the limit.
\<close>

theorem propagation_monotone:
  assumes "exec_propagate pc i st = Inr st'" and "vm_ok st"
  shows "(\<forall>k. dict_get (activation_current st) k 0 \<le> dict_get (activation_current st') k 0) \<and>
    (\<exists>energy details. receipt_ledger st' = receipt_ledger st @ [\<lparr>ev_pc = pc, ev_opcode = ''PROPAGATE'', ev_details = details\<rparr>] \<and>
      map_of details ''energy_spent'' = Some (JInt energy) \<and> 0 \<le> energy \<and> energy \<le> ENERGY_LIMIT)"
  by (rule exec_propagate_Inr [OF assms]) blast

theorem propagation_monotone_witness:
  "\<exists>st'. exec_propagate 0 \<lparr>i_opcode = 6, i_flags = 1, i_target = 0, i_source = 0, i_param = 2\<rparr> (new_vm JNull ''h'') = Inr st' \<and>
    (\<forall>k. dict_get (activation_current (new_vm JNull ''h'')) k 0 \<le> dict_get (activation_current st') k 0)"
proof -
  have "\<not> isl (exec_propagate 0 \<lparr>i_opcode = 6, i_flags = 1, i_target = 0, i_source = 0, i_param = 2\<rparr> (new_vm JNull ''h''))"
    by code_simp
  then obtain st' where run: "exec_propagate 0 \<lparr>i_opcode = 6, i_flags = 1, i_target = 0, i_source = 0, i_param = 2\<rparr> (new_vm JNull ''h'') = Inr st'"
    using not_isl_Inr by blast
  then show ?thesis using propagation_monotone [OF run new_vm_ok] by blast
qed

text \<open>
  A hand-written program can escape the receipt: if the first instruction accepts a claim, the lookup
  of its name raises \<open>KeyError\<close>, which \<open>run_file_with_block_receipt\<close> does not catch.
\<close>

theorem unknown_claim_escapes:
  assumes "load_bogbin data = Inr (m, i # is, h)" and "i_opcode i = 11"
  shows "run_file_with_block_receipt data = Inl (KeyError (str_int (i_target i)))"
proof -
  have "map_of OP_NAMES 11 = Some ''ACCEPT''" by (simp add: OP_NAMES_def OPS_def)
  then show ?thesis
    using assms by (simp add: run_file_with_block_receipt_def run_def step_def exec_accept_def claim_name_def require_def new_vm_def)
qed

theorem unknown_claim_escapes_witness:
  "\<exists>data. run_file_with_block_receipt data = Inl (KeyError (str_int 0))"
proof -
  let ?i = "instr 11 0 0 0 0"
  obtain bs where bs: "pack_instruction ?i = Inr bs" using pack_fits [of ?i] by (auto simp: fits_def)
  let ?data = "BOGBIN_MAGIC @ to_bytes_be 4 2 @ utf8 ''{}'' @ bs"
  have len: "length (utf8 ''{}'') = 2" by code_simp
  have json: "loads ''{}'' = Inr (JObj [])" by code_simp
  have "load_bogbin ?data = Inr (JObj [], [?i], hexdigest ?data)"
    using unpack_packed [of "[?i]" "[bs]"] bs len json by (simp add: load_bogbin_def Let_def)
  then show ?thesis using unknown_claim_escapes [of ?data "JObj []" ?i "[]"] by auto
qed

section \<open>The workspace oracle\<close>

text \<open>
  C16. The operation \<open>apply\<close> of the workspace oracle implements the abstract machine on every branch. In a
  well-formed state, an operation whose fields fit is rejected exactly when the abstract machine rejects
  it, with the same reason and the state unchanged; otherwise it is accepted, the new state is
  well-formed, the path is bound to the new object and no other path changes, and the new root records
  the digest of the old root and of the operation.
\<close>

theorem workspace_refines:
  assumes "ws_ok st" and "op_ok oper"
  shows "case spec_reject (ws_abs st) oper tp of
      Some e \<Rightarrow> ws_apply st oper tp = Inr (st, False, Some e)
    | None \<Rightarrow> \<exists>st'. ws_apply st oper tp = Inr (st', True, None) \<and> ws_ok st' \<and>
        ws_lookup st' = (ws_lookup st)(tp \<mapsto> object_id (new_object oper tp)) \<and>
        st_objects st' = st_objects st @ [new_object oper tp] \<and>
        previous_workspace_root (st_root st') = Some (sha256 (root_image (st_root st))) \<and>
        last_operation_receipt (st_root st') = Some (sha256 (op_image oper tp))"
  using ws_apply_refines [OF assms, of tp] unfolding accepts_def by (simp split: option.splits)

theorem workspace_refines_witness:
  "\<exists>s s'. mk_init = Inr s \<and>
     ws_apply s (vop ''CreateFile'' s [1] [2] 1 cap_digest) [1] = Inr (s', True, None) \<and> ws_lookup s' [1] \<noteq> None"
proof -
  obtain s where s: "mk_init = Inr s" "ws_ok s" "ws_lookup s = Map.empty" "st_objects s = []" by (rule init_state)
  let ?o = "vop ''CreateFile'' s [1] [2] 1 cap_digest"
  have ok: "op_ok ?o" by (rule vop_ok) simp_all
  have "spec_reject (ws_abs s) ?o [1] = None"
    using vop_guard [of "[1]" 1 s "''CreateFile''" "[2]"] s(3,4) by (simp add: spec_reject_def vop_def ws_abs_def)
  then show ?thesis using workspace_refines [OF s(2) ok, of "[1]"] s(1) by auto
qed

text \<open>
  C17. Every history of accepted operations leaves a well-formed workspace with one object per accepted
  operation, so no more than 128 operations are ever accepted.
\<close>

theorem workspace_invariant:
  assumes "ws_history hs ms st"
  shows "ws_ok st \<and> length (st_objects st) = length hs \<and> length hs \<le> 128"
  by (rule ws_history_ok [OF assms])

theorem workspace_invariant_witness: "\<exists>st. mk_init = Inr st \<and> ws_ok st"
proof -
  obtain s where s: "mk_init = Inr s" by (rule init_state)
  show ?thesis using workspace_invariant [OF ws_history.start [OF s]] s by blast
qed

text \<open>
  C18. A root digest commits to the whole history: two histories that end in roots with the same digest
  consist of the same canonical operations in the same order, unless two byte strings hashed at the
  same step of the two histories are an explicit collision.
\<close>

theorem root_commits_history:
  assumes "ws_history hs ms st" and "ws_history hs' ms' st'"
    and "ws_root_h (st_root st) = ws_root_h (st_root st')"
    and "pairs_clear ms ms'" and "pairs_clear (op_images hs) (op_images hs')"
  shows "op_images hs = op_images hs'"
  using history_committed [OF assms(1,2) _ assms(4,5)] assms(3) ws_history_ok [OF assms(1)] ws_history_ok [OF assms(2)]
  by (simp add: ws_ok_def ws_root_h_ok)

theorem root_commits_history_witness:
  "\<exists>s s'. let o1 = vop ''CreateFile'' s [1] [2] 1 cap_digest;
             hs = [(o1, [1])]; ms = [root_image (st_root s'), root_image (st_root s)]
          in ws_history hs ms s' \<and> pairs_clear ms ms \<and> op_images hs = op_images hs"
proof -
  obtain s where s: "mk_init = Inr s" "ws_ok s" "ws_lookup s = Map.empty" "st_objects s = []" by (rule init_state)
  let ?o = "vop ''CreateFile'' s [1] [2] 1 cap_digest"
  have ok: "op_ok ?o" by (rule vop_ok) simp_all
  obtain s' where s': "ws_apply s ?o [1] = Inr (s', True, None)"
    using vop_accepted [OF s(2), of "''CreateFile''" "[1]" 1 "[2]"] s(3,4) by auto
  have h: "ws_history [(?o, [1])] [root_image (st_root s'), root_image (st_root s)] s'"
    by (rule ws_history.accept [OF ws_history.start [OF s(1)] ok s'])
  have "op_images [(?o, [1])] = op_images [(?o, [1])]"
    by (rule root_commits_history [OF h h refl pairs_clear_same pairs_clear_same])
  then show ?thesis unfolding Let_def using h pairs_clear_same by blast
qed

text \<open>
  A root digest commits to the contents: two well-formed states whose roots have the same digest bind
  the same paths to the same objects and hold the same objects, unless their roots, object tables or
  path indexes are an explicit collision.
\<close>

theorem root_commits_state:
  assumes "ws_ok s" and "ws_ok t" and "ws_root_h (st_root s) = ws_root_h (st_root t)"
    and "\<not> collision (root_image (st_root s)) (root_image (st_root t))"
    and "\<not> collision (object_table_message (st_objects s)) (object_table_message (st_objects t))"
    and "\<not> collision (path_index_message (st_paths s)) (path_index_message (st_paths t))"
  shows "ws_lookup s = ws_lookup t \<and>
    mset (map object_image (st_objects s)) = mset (map object_image (st_objects t))"
  using state_committed [OF assms(1,2) _ assms(4-6)] assms(1-3) by (simp add: ws_ok_def ws_root_h_ok)

theorem root_commits_state_witness:
  "\<exists>s t. mk_init = Inr s \<and> mk_init = Inr t \<and> ws_root_h (st_root s) = ws_root_h (st_root t) \<and> ws_lookup s = ws_lookup t"
proof -
  obtain s where s: "mk_init = Inr s" "ws_ok s" by (rule init_state)
  have "ws_lookup s = ws_lookup s"
    using root_commits_state [OF s(2) s(2) refl] by (simp add: collision_def)
  then show ?thesis using s by blast
qed

text \<open>
  C19. The journal is tamper-evident: two journals, of entries with 32-byte digests, that both verify against
  one head agree as far back as the shorter one goes, and are equal when they have the same length, unless
  an entry of one and an entry of the other are an explicit collision; and appending an entry that
  continues the head gives a journal that verifies against the new head. That the shorter one need not be
  all of the longer one is \<open>journal_suffix_verifies\<close> below.
\<close>

theorem journal_tamper_evident:
  assumes "verify_journal_chain head es = Inr True" and "verify_journal_chain head fs = Inr True"
    and "\<forall>e \<in> set es \<union> set fs. entry_sized e" and "\<forall>e \<in> set es. \<forall>f \<in> set fs. \<not> entries_collide e f"
  shows "(suffix es fs \<or> suffix fs es) \<and> (length es = length fs \<longrightarrow> es = fs) \<and>
    (\<forall>op_hash old_root new_root verifier seq accepted head'.
    append_journal head seq op_hash old_root new_root verifier accepted = Inr head' \<longrightarrow>
    verify_journal_chain head' (es @ [\<lparr>j_seq = seq, j_prev = head, j_op_hash = op_hash, j_old = old_root,
      j_new = new_root, j_verifier = verifier, j_accepted = accepted\<rparr>]) = Inr True)"
proof -
  have take: "take (length fs) (rev es) = take (length es) (rev fs)"
    using verify_loops_agree [of head "rev es" "rev fs"] assms by (simp add: verify_journal_chain_def)
  have "prefix (rev es) (rev fs) \<or> prefix (rev fs) (rev es)"
  proof (cases "length es \<le> length fs")
    case True
    then have "rev es = take (length es) (rev fs)" using take by simp
    then show ?thesis by (metis take_is_prefix)
  next
    case False
    then have "rev fs = take (length fs) (rev es)" using take by simp
    then show ?thesis by (metis take_is_prefix)
  qed
  moreover have "es = fs" if "length es = length fs" using take that by simp
  ultimately show ?thesis using verify_append [OF assms(1)] by (simp add: suffix_to_prefix append_journal_def)
qed

theorem journal_tamper_evident_witness:
  "\<exists>head. create_rollback_journal_entry ZERO 0 ZERO ZERO ZERO = Inr head \<and>
    verify_journal_chain head [\<lparr>j_seq = 0, j_prev = ZERO, j_op_hash = sha256 (utf8 ''v41-rollback-op''),
      j_old = ZERO, j_new = ZERO, j_verifier = ZERO, j_accepted = True\<rparr>] = Inr True"
proof -
  let ?e = "\<lparr>j_seq = 0, j_prev = ZERO, j_op_hash = sha256 (utf8 ''v41-rollback-op''), j_old = ZERO, j_new = ZERO,
    j_verifier = ZERO, j_accepted = True\<rparr>"
  have none: "verify_journal_chain ZERO [] = Inr True" by (simp add: verify_journal_chain_def)
  obtain head where "journal_entry_hash ?e = Inr head" by (auto simp: journal_entry_hash_def journal_entry_bytes_def int_le_def)
  then show ?thesis using journal_tamper_evident [OF none none]
    by (auto simp: create_rollback_journal_entry_def append_journal_def)
qed

text \<open>
  A journal that has lost its oldest entries still verifies: the check never asks that the walk ends at the
  first head, so the empty journal verifies against every head.
\<close>

theorem journal_suffix_verifies:
  "verify_journal_chain head [] = Inr True \<and>
   (verify_journal_chain head (older @ newer) = Inr True \<longrightarrow> verify_journal_chain head newer = Inr True)"
  using verify_loop_prefix [of head "rev newer" "rev older"] by (simp add: verify_journal_chain_def)

text \<open>
  Past the guards, \<open>apply\<close> raises exactly for an operation that does not fit its canonical form: a
  version or size outside its field raises \<open>OverflowError\<close>, an unknown kind \<open>KeyError\<close>.
\<close>

theorem workspace_apply_errors:
  assumes "ws_ok st" and "spec_guard (ws_abs st) oper tp = None" and "length (input_content_hash oper) = 32"
  shows "(\<exists>e. ws_apply st oper tp = Inl e) = (\<not> op_ok oper) \<and>
    (\<forall>e. ws_apply st oper tp = Inl e \<longrightarrow> e = OverflowError \<or>
      e = KeyError (op_kind oper) \<and> op_kind oper \<notin> {''CreateFile'', ''EditFile'', ''CreateDirectory''})"
proof (cases "op_ok oper")
  case True
  then obtain r where "ws_apply st oper tp = Inr r"
    using ws_apply_refines [OF assms(1) True, of tp] by (auto split: option.splits)
  then show ?thesis using True by simp
next
  case False
  then show ?thesis using ws_apply_error [OF assms(1,2) False assms(3)] by (auto split: if_splits)
qed

theorem workspace_apply_errors_witness:
  "\<exists>s e. mk_init = Inr s \<and> ws_apply s (vop ''Rename'' s [1] [2] 1 cap_digest) [1] = Inl e"
proof -
  obtain s where s: "mk_init = Inr s" "ws_ok s" by (rule init_state)
  let ?o = "vop ''Rename'' s [1] [2] 1 cap_digest"
  have "\<not> op_ok ?o" and len: "length (input_content_hash ?o) = 32" by (simp_all add: op_ok_def vop_def)
  moreover have "spec_guard (ws_abs s) ?o [1] = None" by (rule vop_guard) simp_all
  ultimately show ?thesis using workspace_apply_errors [OF s(2)] s(1) by blast
qed

text \<open>
  The golden vectors: the tool computes nine vectors without raising, and its verdicts are the listed
  ones. The last vector is recorded as rejected although the oracle accepts its operation, so its
  error is the fallback \<open>root_mismatch\<close>.
\<close>

theorem golden_vectors:
  "\<exists>vs e6 e7 s s'. compute_all_vectors = Inr vs \<and>
    map verdict vs = map Some
      [(JStr ''blank_initial'', JBool True, JNull), (JStr ''create_directory_workspace'', JBool True, JNull),
       (JStr ''create_file_hello'', JBool True, JNull), (JStr ''edit_file_hello_v40'', JBool True, JNull),
       (JStr ''replay_full_chain_final'', JBool True, JNull),
       (JStr ''bad_capability_rejection'', JBool False, error_json e6),
       (JStr ''path_tamper_rejection'', JBool False, error_json e7),
       (JStr ''content_tamper_good'', JBool True, JNull),
       (JStr ''content_tamper_root_mismatch'', JBool False, JStr ''root_mismatch'')] \<and>
    (ZERO = cap_digest \<or> e6 = Some ''InvalidCapability'') \<and>
    (sha256 (utf8 ''/workspace/good.txt'') = sha256 (utf8 ''/workspace/tampered.txt'') \<or> e7 = Some ''PathNotFound'') \<and>
    mk_init = Inr s \<and>
    ws_apply s (vop ''CreateFile'' s (utf8 ''/workspace/t.txt'') (utf8 ''TAMPERED'') 8 cap_digest)
      (utf8 ''/workspace/t.txt'') = Inr (s', True, None)"
proof -
  obtain v1 where v1: "vector_blank = Inr v1" "verdict v1 = Some (JStr ''blank_initial'', JBool True, JNull)"
    using vector_blank_verdict by blast
  obtain v2 where v2: "vector_create_directory = Inr v2"
      "verdict v2 = Some (JStr ''create_directory_workspace'', JBool True, JNull)"
    using vector_create_directory_verdict by blast
  obtain s3 v3 v4 where v3: "vector_create_file = Inr (s3, v3)" "verdict v3 = Some (JStr ''create_file_hello'', JBool True, JNull)"
      and v4: "vector_edit_file s3 = Inr v4" "verdict v4 = Some (JStr ''edit_file_hello_v40'', JBool True, JNull)"
    using vector_file_verdicts by blast
  obtain v5 where v5: "vector_replay = Inr v5" "verdict v5 = Some (JStr ''replay_full_chain_final'', JBool True, JNull)"
    using vector_replay_verdict by blast
  obtain v6 e6 where v6: "vector_bad_capability = Inr v6"
      "verdict v6 = Some (JStr ''bad_capability_rejection'', JBool False, error_json e6)"
      and e6: "ZERO = cap_digest \<or> e6 = Some ''InvalidCapability''"
    using vector_bad_capability_verdict by blast
  obtain v7 e7 where v7: "vector_path_tamper = Inr v7"
      "verdict v7 = Some (JStr ''path_tamper_rejection'', JBool False, error_json e7)"
      and e7: "sha256 (utf8 ''/workspace/good.txt'') = sha256 (utf8 ''/workspace/tampered.txt'') \<or> e7 = Some ''PathNotFound''"
    using vector_path_tamper_verdict by blast
  obtain v8 where v8: "vector_content_good = Inr v8" "verdict v8 = Some (JStr ''content_tamper_good'', JBool True, JNull)"
    using vector_content_good_verdict by blast
  obtain s s' v9 where v9: "vector_content_mismatch = Inr v9"
      "verdict v9 = Some (JStr ''content_tamper_root_mismatch'', JBool False, JStr ''root_mismatch'')"
      and s: "mk_init = Inr s" and s': "ws_apply s (vop ''CreateFile'' s (utf8 ''/workspace/t.txt'') (utf8 ''TAMPERED'') 8 cap_digest)
        (utf8 ''/workspace/t.txt'') = Inr (s', True, None)"
    using vector_content_mismatch_verdict by blast
  have "compute_all_vectors = Inr [v1, v2, v3, v4, v5, v6, v7, v8, v9]"
    by (simp add: compute_all_vectors_def v1 v2 v3 v4 v5 v6 v7 v8 v9)
  moreover have "map verdict [v1, v2, v3, v4, v5, v6, v7, v8, v9] = map Some
      [(JStr ''blank_initial'', JBool True, JNull), (JStr ''create_directory_workspace'', JBool True, JNull),
       (JStr ''create_file_hello'', JBool True, JNull), (JStr ''edit_file_hello_v40'', JBool True, JNull),
       (JStr ''replay_full_chain_final'', JBool True, JNull),
       (JStr ''bad_capability_rejection'', JBool False, error_json e6),
       (JStr ''path_tamper_rejection'', JBool False, error_json e7),
       (JStr ''content_tamper_good'', JBool True, JNull),
       (JStr ''content_tamper_root_mismatch'', JBool False, JStr ''root_mismatch'')]"
    by (simp add: v1 v2 v3 v4 v5 v6 v7 v8 v9)
  ultimately show ?thesis using e6 e7 s s' by blast
qed

section \<open>Directory archives\<close>

text \<open>
  C28. Archiving a directory and restoring the archive gives the directory back. For every directory as a
  listing gives it (distinct contained paths in their plain spelling, no file in the place of a directory)
  whose contents have distinct digests, with automatic chunking or a BOGPK chunk size, building succeeds; restoring that archive completes, reports the tree digest of the
  directory, and writes exactly its files; and verification completes.
\<close>

theorem archive_roundtrip:
  assumes "schema_complete cv" and "archive_schema_complete mv" and "dir_ok d" and "contents_clear d"
    and "auto_chunk \<or> int n \<in> set CANDIDATE_CHUNK_SIZES"
  shows "\<exists>ar mf r v. build_directory_archive cv mv source (Some d) (int n) auto_chunk tt = Inr (ar, mf) \<and>
    snd (restore_directory_archive cv mv ar) = Inr r \<and> rr_tree_sha256 r = tree_hash_for_directory d \<and>
    map_of (out_files (fst (restore_directory_archive cv mv ar))) = map_of d \<and>
    verify_directory_archive cv mv ar = Inr v \<and> vr_execution_status v = ''completed''"
proof (rule build_succeeds [OF assms])
  fix objs
  let ?m = "new_manifest source (map built_entry (sorted_files d))"
  let ?ar = "\<lparr>ar_objects = objs, ar_manifest = Some ?m\<rparr>"
  assume build: "build_directory_archive cv mv source (Some d) (int n) auto_chunk tt = Inr (?ar, ?m)"
    and objs: "\<forall>x \<in> snd ` set d. object_holds cv objs x"
  obtain r where r: "snd (restore_directory_archive cv mv ?ar) = Inr r" "rr_tree_sha256 r = tree_hash_for_directory d"
    using restore_built(2) [OF assms(2,3) objs refl] by blast
  moreover obtain v where "verify_directory_archive cv mv ?ar = Inr v" "vr_execution_status v = ''completed''"
    using restore_built(1) [OF assms(2,3) objs refl] verify_completed_iff [of cv mv ?ar] by blast
  moreover have "map_of (out_files (fst (restore_directory_archive cv mv ?ar))) = map_of d"
    by (rule restore_built(3) [OF assms(2,3) objs refl])
  ultimately show ?thesis using build by blast
qed

lemma single_file_ok: "dir_ok [(''a/b.txt'', [1, 2, 3])]" "contents_clear [(''a/b.txt'', [1, 2, 3])]"
proof -
  have "path_contained ''a/b.txt''" "path_parts ''a/b.txt'' = [''a'', ''b.txt'']"
    by (simp_all add: path_contained_def is_absolute_def path_parts_def)
  then show "dir_ok [(''a/b.txt'', [1, 2, 3])]" "contents_clear [(''a/b.txt'', [1, 2, 3])]"
    by (simp_all add: dir_ok_def layout_ok_def plain_path_def contents_clear_def)
qed

theorem archive_roundtrip_witness:
  "\<exists>ar mf r. build_directory_archive (\<lambda>_. []) (\<lambda>_. []) ''src'' (Some [(''a/b.txt'', [1, 2, 3])]) 64 True True = Inr (ar, mf) \<and>
    snd (restore_directory_archive (\<lambda>_. []) (\<lambda>_. []) ar) = Inr r \<and>
    map_of (out_files (fst (restore_directory_archive (\<lambda>_. []) (\<lambda>_. []) ar))) = map_of [(''a/b.txt'', [1, 2, 3])]"
proof -
  have "schema_complete (\<lambda>_. [])" "archive_schema_complete (\<lambda>_. [])"
    by (simp_all add: schema_complete_def archive_schema_complete_def)
  moreover have "dir_ok [(''a/b.txt'', [1, 2, 3])]" "contents_clear [(''a/b.txt'', [1, 2, 3])]"
    by (rule single_file_ok)+
  ultimately show ?thesis using archive_roundtrip [of "\<lambda>_. []" "\<lambda>_. []" "[(''a/b.txt'', [1, 2, 3])]" True 64 "''src''" True]
    by auto
qed

text \<open>
  C29. Restoring is sound for every archive, tampered with or not. When it completes, the written paths are
  exactly the plain spellings of the paths that the manifest lists; every written file has a path that some
  entry spells, contained in the output directory, and the size and digest of that entry; and the receipt
  has the tree digest of the manifest. When the manifest lists every path once and plainly spelt, each
  entry's file has been written with its size and digest, and the written directory has the
  manifest's tree digest.
\<close>

theorem archive_restore_sound:
  assumes "snd (restore_directory_archive cv mv ar) = Inr r"
    and "restored = out_files (fst (restore_directory_archive cv mv ar))"
  shows "\<exists>mf. read_archive_manifest mv ar = Inr mf \<and> rr_tree_sha256 r = am_tree_sha256 mf \<and>
    fst ` set restored = plain_path ` f_path ` set (am_files mf) \<and>
    (\<forall>(p, data) \<in> set restored. \<exists>entry \<in> set (am_files mf). p = plain_path (f_path entry) \<and>
       path_contained (f_path entry) \<and> f_size entry = int (length data) \<and> f_sha256 entry = hexdigest data) \<and>
    (lists_plainly mf \<longrightarrow> tree_hash_for_directory restored = am_tree_sha256 mf \<and>
       (\<forall>entry \<in> set (am_files mf). \<exists>data. (f_path entry, data) \<in> set restored \<and>
          f_size entry = int (length data) \<and> f_sha256 entry = hexdigest data))"
proof (rule restore_sound [OF assms(1)], fold assms(2))
  fix mf
  assume m: "read_archive_manifest mv ar = Inr mf" "rr_tree_sha256 r = am_tree_sha256 mf"
    and each: "\<forall>(p, data) \<in> set restored. \<exists>entry \<in> set (am_files mf). p = plain_path (f_path entry) \<and>
       path_contained (f_path entry) \<and> entry_matches entry data"
    and paths: "fst ` set restored = plain_path ` f_path ` set (am_files mf)"
    and tree: "lists_plainly mf \<Longrightarrow> tree_hash_for_directory restored = am_tree_sha256 mf"
  have "\<exists>data. (f_path entry, data) \<in> set restored \<and> entry_matches entry data"
    if plainly: "lists_plainly mf" and entry: "entry \<in> set (am_files mf)" for entry
  proof -
    have "f_path entry \<in> fst ` set restored" using paths plainly entry by (force simp: lists_plainly_def)
    then obtain data where data: "(f_path entry, data) \<in> set restored" by force
    then obtain other where "other \<in> set (am_files mf)" "f_path entry = plain_path (f_path other)" "entry_matches other data"
      using each by blast
    moreover then have "other = entry"
      using plainly entry by (auto simp: lists_plainly_def distinct_map inj_on_def)
    ultimately show ?thesis using data by blast
  qed
  then show ?thesis using m each paths tree by (intro exI [of _ mf]) (simp add: entry_matches_def)
qed

theorem archive_restore_sound_witness:
  "\<exists>ar r mf data. snd (restore_directory_archive (\<lambda>_. []) (\<lambda>_. []) ar) = Inr r \<and> read_archive_manifest (\<lambda>_. []) ar = Inr mf \<and>
    (''a/b.txt'', data) \<in> set (out_files (fst (restore_directory_archive (\<lambda>_. []) (\<lambda>_. []) ar))) \<and> length data = 3 \<and>
    tree_hash_for_directory (out_files (fst (restore_directory_archive (\<lambda>_. []) (\<lambda>_. []) ar))) = am_tree_sha256 mf"
proof -
  let ?d = "[(''a/b.txt'', [1, 2, 3 :: byte])]" let ?m = "new_manifest ''src'' (map built_entry (sorted_files ?d))"
  have ok: "schema_complete (\<lambda>_. [])" "archive_schema_complete (\<lambda>_. [])" "False \<or> int 64 \<in> set CANDIDATE_CHUNK_SIZES"
    by (simp_all add: schema_complete_def archive_schema_complete_def CANDIDATE_CHUNK_SIZES_def)
  obtain objs where objs: "\<forall>x \<in> snd ` set ?d. object_holds (\<lambda>_. []) objs x"
    by (rule build_succeeds [OF ok(1,2) single_file_ok ok(3)])
  let ?ar = "\<lparr>ar_objects = objs, ar_manifest = Some ?m\<rparr>"
  obtain r where r: "snd (restore_directory_archive (\<lambda>_. []) (\<lambda>_. []) ?ar) = Inr r"
    using restore_built(2) [OF ok(2) single_file_ok(1) objs refl] by blast
  have man: "read_archive_manifest (\<lambda>_. []) ?ar = Inr ?m" by (rule built_manifest [OF ok(2) single_file_ok(1)])
  let ?e = "built_entry (''a/b.txt'', [1, 2, 3])"
  have entry: "?e \<in> set (am_files ?m)" by (simp add: new_manifest_def sorted_files_def)
  have e: "f_path ?e = ''a/b.txt''" "f_size ?e = 3" by (simp_all add: built_entry_def)
  obtain mf where mf: "read_archive_manifest (\<lambda>_. []) ?ar = Inr mf"
      "lists_plainly mf \<longrightarrow> tree_hash_for_directory (out_files (fst (restore_directory_archive (\<lambda>_. []) (\<lambda>_. []) ?ar))) = am_tree_sha256 mf \<and>
       (\<forall>entry \<in> set (am_files mf). \<exists>data. (f_path entry, data) \<in> set (out_files (fst (restore_directory_archive (\<lambda>_. []) (\<lambda>_. []) ?ar))) \<and>
          f_size entry = int (length data) \<and> f_sha256 entry = hexdigest data)"
    using archive_restore_sound [OF r refl] by blast
  have same: "mf = ?m" using mf(1) unfolding man by (rule Inr_inject [symmetric])
  have tree: "tree_hash_for_directory (out_files (fst (restore_directory_archive (\<lambda>_. []) (\<lambda>_. []) ?ar))) = am_tree_sha256 mf"
    using mf(2) lists_plainly_built [OF single_file_ok(1)] unfolding same by blast
  obtain data where data: "(f_path ?e, data) \<in> set (out_files (fst (restore_directory_archive (\<lambda>_. []) (\<lambda>_. []) ?ar)))"
      "f_size ?e = int (length data)"
    using mf(2) lists_plainly_built [OF single_file_ok(1)] entry unfolding same by blast
  have "length data = 3" using data(2) unfolding e by simp
  then show ?thesis using r mf(1) data(1) tree unfolding e by blast
qed

text \<open>
  Verifying and restoring: on every archive with a readable manifest, restoring succeeds exactly when
  verification reports \<open>completed\<close> and one directory can hold the listed paths, none of them being the
  directory itself or a directory on the way to another.
\<close>

theorem archive_verify_iff_restore:
  assumes "read_archive_manifest mv ar = Inr mf"
  shows "(\<exists>r. snd (restore_directory_archive cv mv ar) = Inr r) \<longleftrightarrow>
   (\<exists>v. verify_directory_archive cv mv ar = Inr v \<and> vr_execution_status v = ''completed'') \<and>
   (\<forall>p \<in> f_path ` set (am_files mf). path_parts p \<noteq> [] \<and>
      (\<forall>q \<in> f_path ` set (am_files mf). \<not> strict_prefix (path_parts p) (path_parts q)))"
  unfolding restore_completed_iff [OF assms] verify_completed_iff layout_ok_def by auto

theorem archive_verify_iff_restore_witness:
  "\<exists>ar. read_archive_manifest (\<lambda>_. []) ar = Inr (new_manifest [] []) \<and>
    ((\<exists>r. snd (restore_directory_archive (\<lambda>_. []) (\<lambda>_. []) ar) = Inr r) \<longleftrightarrow>
     (\<exists>v. verify_directory_archive (\<lambda>_. []) (\<lambda>_. []) ar = Inr v \<and> vr_execution_status v = ''completed''))"
proof -
  let ?ar = "\<lparr>ar_objects = [], ar_manifest = Some (new_manifest [] [])\<rparr>"
  have "read_archive_manifest (\<lambda>_. []) ?ar = Inr (new_manifest [] [])"
    by (simp add: read_archive_manifest_def validate_schema_def as_archive_error_def) (simp add: new_manifest_def)
  moreover have "am_files (new_manifest [] []) = []" by (simp add: new_manifest_def)
  ultimately show ?thesis
    using archive_verify_iff_restore [of "\<lambda>_. []" ?ar "new_manifest [] []" "\<lambda>_. []"] by (intro exI [of _ ?ar]) simp
qed

text \<open>
  A path that is not plainly spelt breaks the promise of the tree digest: an archive that lists \<open>./x\<close> is
  restored without complaint, but it writes the file \<open>x\<close>, and the tree digest of what was written is not the
  manifest's; a package with that archive installs and then never verifies.
\<close>

theorem respelt_path_installs_unverified:
  assumes "install_bundle env bd st = (Inr ir, st')" and "archive_in bd = Inr ar"
    and "read_archive_manifest (se_manifest_schema env) ar = Inr mf" and "am_files mf = [entry]" and "f_path entry = ''./x''"
    and "\<not> collision (tree_row entry) (tree_row (entry\<lparr>f_path := ''x''\<rparr>))"
  shows "\<not> (\<exists>r. verify_installed_package env st' (ir_package ir) = Inr r \<and> receipt_status r = ''completed'')"
  unfolding verify_status_iff by (rule install_respelt [OF assms])

text \<open>
  Restoring makes the parent directory of an entry before it checks that the entry's path is contained:
  on a manifest whose first path leaves the output directory, the restore fails after it has made a
  directory outside.
\<close>

theorem restore_makes_directory_outside:
  assumes "read_archive_manifest mv ar = Inr mf" and "am_files mf = entry # rest"
    and "f_path entry = ''../evil/x''"
  shows "restore_directory_archive cv mv ar =
    (\<lparr>out_made = [''../evil''], out_files = []\<rparr>,
     Inl (ArchiveError ''archive path must be relative and contained''))"
proof -
  have "\<not> path_contained ''../evil/x''" and "parent_of ''../evil/x'' = ''../evil''"
    by (simp_all add: path_contained_def path_parts_def parent_of_def is_absolute_def)
  then show ?thesis using restore_escape [OF assms(1,2), of cv] assms(3) by simp
qed

theorem restore_makes_directory_outside_witness:
  "\<exists>ar. restore_directory_archive (\<lambda>_. []) (\<lambda>_. []) ar =
    (\<lparr>out_made = [''../evil''], out_files = []\<rparr>,
     Inl (ArchiveError ''archive path must be relative and contained''))"
proof -
  let ?e = "\<lparr>f_path = ''../evil/x'', f_size = 0, f_sha256 = hexdigest [], f_object = []\<rparr> :: file_entry"
  let ?ar = "\<lparr>ar_objects = [], ar_manifest = Some (new_manifest [] [?e])\<rparr>"
  have "read_archive_manifest (\<lambda>_. []) ?ar = Inr (new_manifest [] [?e])"
    by (simp add: read_archive_manifest_def validate_schema_def as_archive_error_def) (simp add: new_manifest_def)
  then show ?thesis using restore_makes_directory_outside [of "\<lambda>_. []" ?ar _ ?e "[]" "\<lambda>_. []"]
    by (intro exI [of _ ?ar]) (auto simp: new_manifest_def)
qed

section \<open>The package store\<close>

text \<open>
  C20. Packaging a directory, installing the bundle and verifying the package works. Into an empty bundle
  directory, under a key that the store does not have yet, with dependencies that verify, and signed with a
  trusted key or unsigned where no signature is required: the bundle is accepted, the installed directory
  has exactly the files of the source directory, and verification of the new package completes.
\<close>

theorem package_store_roundtrip:
  assumes "packageable env d name version n auto_chunk deps signing_key" and "store_ok st" and "st_index (opened st) = Index index"
    and "\<forall>x \<in> set deps. \<exists>r. verify_installed_package env (opened st) x = Inr r \<and> receipt_status r = ''completed''"
    and "package_key name version = Inr key" and "key \<notin> fst ` set index"
  shows "\<exists>bd rcpt ir st' r. package_directory env source (Some d) [] name version (int n) auto_chunk tt deps signing_key = Inr (bd, rcpt) \<and>
    install_bundle env bd st = (Inr ir, st') \<and> ir_package ir = key \<and> map_of (dir_files st' (ir_install_dir ir)) = map_of d \<and>
    verify_installed_package env st' key = Inr r \<and> receipt_status r = ''completed''"
proof (rule package_installed [OF assms(1-3) _ assms(5,6), of source tt])
  show "\<forall>x \<in> set deps. verifies env (opened st) {} x" using assms(4) by (simp add: verify_status_iff)
qed (use verify_status_iff in blast)

theorem package_store_roundtrip_witness:
  "\<exists>bd rcpt ir st' r. package_directory demo_senv ''src'' (Some demo_directory) [] ''a'' ''1'' 64 True True [] (Some demo_key) = Inr (bd, rcpt) \<and>
    install_bundle demo_senv bd empty_store = (Inr ir, st') \<and> ir_package ir = ''a-1'' \<and>
    map_of (dir_files st' (ir_install_dir ir)) = map_of demo_directory \<and>
    verify_installed_package demo_senv st' ''a-1'' = Inr r \<and> receipt_status r = ''completed''"
  using package_store_roundtrip [OF demo_packageable [of "''a''" "[]"] empty_store_ok _ demo_keys(1), of "''src''" True] by simp

text \<open>
  C21. Verification of an installed package terminates and completes exactly when the package and everything
  it depends on, directly or not, is sound (signature, bundle digest, index entry, archive and installed
  directory agree with its receipt) and no package among them depends on itself.
\<close>

theorem package_verification_closure:
  "(\<exists>r. verify_installed_package env st p = Inr r \<and> receipt_status r = ''completed'') \<longleftrightarrow>
     (\<forall>q. (depends env st)\<^sup>*\<^sup>* p q \<longrightarrow> package_sound env st q \<and> \<not> (depends env st)\<^sup>+\<^sup>+ q q)"
  unfolding verify_status_iff by (rule verifies_closure)

theorem package_verification_closure_witness:
  "\<exists>st. (\<exists>r. verify_installed_package demo_senv st ''a-1'' = Inr r \<and> receipt_status r = ''completed'') \<and>
     package_sound demo_senv st ''a-1'' \<and> \<not> (depends demo_senv st)\<^sup>+\<^sup>+ ''a-1'' ''a-1''"
proof -
  obtain st where st: "verifies demo_senv st {} ''a-1''" using demo_first by metis
  then have v: "\<exists>r. verify_installed_package demo_senv st ''a-1'' = Inr r \<and> receipt_status r = ''completed''"
    by (simp add: verify_status_iff)
  then show ?thesis using package_verification_closure [of demo_senv st "''a-1''"] by blast
qed

text \<open>
  C22. Installing a bundle under a new key keeps the store: its layout stays well-formed, every package that
  verified still verifies, and so does the new one, provided the manifest of its archive lists every path
  once and in its plain spelling, as the manifest of a packaged directory does. Without that the new
  package need not verify: see \<open>respelt_path_installs_unverified\<close>.
\<close>

theorem fresh_install_keeps_verified:
  assumes "store_ok st" and "install_bundle env bd st = (Inr ir, st')" and "st_index (opened st) = Index index"
    and "ir_package ir \<notin> fst ` set index" and "archive_in bd = Inr ar"
    and "read_archive_manifest (se_manifest_schema env) ar = Inr mf" and "lists_plainly mf"
  shows "store_ok st' \<and>
    (\<exists>r. verify_installed_package env st' (ir_package ir) = Inr r \<and> receipt_status r = ''completed'') \<and>
    ((\<exists>r. verify_installed_package env st p = Inr r \<and> receipt_status r = ''completed'') \<longrightarrow>
     (\<exists>r. verify_installed_package env st' p = Inr r \<and> receipt_status r = ''completed''))"
proof -
  have fresh: "ir_package ir \<notin> fst ` set index'" if "st_index st = Index index'" for index'
    using that assms(3,4) by (simp add: opened_def)
  have paths: "lists_plainly mf'"
    if "archive_in bd = Inr ar'" and "read_archive_manifest (se_manifest_schema env) ar' = Inr mf'" for ar' mf'
    using that assms(5-7) by simp
  have "verifies env st' {} (ir_package ir)" "store_ok st'"
    by (rule install_verified [OF assms(1,2) fresh]; use paths in blast)+
  moreover have "verifies env st' {} p" if "verifies env st {} p"
    by (rule install_verified(2) [OF assms(1,2) fresh _ that]; use paths in blast)
  ultimately show ?thesis unfolding verify_status_iff by blast
qed

theorem fresh_install_keeps_verified_witness:
  "\<exists>bd ir st'. install_bundle demo_senv bd empty_store = (Inr ir, st') \<and> store_ok st' \<and>
     (\<exists>r. verify_installed_package demo_senv st' (ir_package ir) = Inr r \<and> receipt_status r = ''completed'')"
proof -
  obtain bd rcpt where pd: "package_directory demo_senv ''src'' (Some demo_directory) [] ''a'' ''1'' 64 True True [] (Some demo_key) = Inr (bd, rcpt)"
    and inst: "\<exists>ir st'. install_bundle demo_senv bd empty_store = (Inr ir, st')"
    and paths: "\<And>ar mf. archive_in bd = Inr ar \<Longrightarrow> read_archive_manifest (se_manifest_schema demo_senv) ar = Inr mf \<Longrightarrow>
      lists_plainly mf"
    by (rule package_admitted [OF demo_packageable [of "''a''" "[]"], of "''src''" True]) (use empty_store_ok(2) in \<open>simp_all, blast\<close>)
  obtain ir st' where i: "install_bundle demo_senv bd empty_store = (Inr ir, st')" using inst by blast
  obtain ar mf where am: "archive_in bd = Inr ar" "read_archive_manifest (se_manifest_schema demo_senv) ar = Inr mf"
    using i unfolding install_bundle_Inr admitted_def by blast
  have "ir_package ir \<notin> fst ` set ([] :: store_index)" by simp
  from fresh_install_keeps_verified [OF empty_store_ok(1) i empty_store_ok(2) this am paths [OF am]] i show ?thesis by blast
qed

text \<open>
  C23. Reinstalling can break what it replaces: if a bundle is installed whose dependency already depends,
  directly or not, on the package being replaced, the installation succeeds, but the dependencies now form
  a cycle and verification of the installed package no longer completes.
\<close>

theorem reinstall_closes_cycle:
  assumes "store_ok st" and "st_index st = Index index" and "install_bundle env bd st = (Inr ir, st')"
    and "dependency \<in> set (ir_dependencies ir)" and "(depends env st)\<^sup>*\<^sup>* dependency (ir_package ir)"
  shows "\<not> (\<exists>r. verify_installed_package env st' (ir_package ir) = Inr r \<and> receipt_status r = ''completed'')"
  unfolding verify_status_iff by (rule install_cycle [OF assms])

theorem reinstall_closes_cycle_witness:
  "\<exists>st bd ir st'. install_bundle demo_senv bd st = (Inr ir, st') \<and>
     (\<exists>r. verify_installed_package demo_senv st (ir_package ir) = Inr r \<and> receipt_status r = ''completed'') \<and>
     \<not> (\<exists>r. verify_installed_package demo_senv st' (ir_package ir) = Inr r \<and> receipt_status r = ''completed'')"
proof -
  obtain st index bd ir st' where c: "store_ok st" "st_index st = Index index" "install_bundle demo_senv bd st = (Inr ir, st')"
      "''b-1'' \<in> set (ir_dependencies ir)" "(depends demo_senv st)\<^sup>*\<^sup>* ''b-1'' (ir_package ir)" "verifies demo_senv st {} (ir_package ir)"
    by (rule demo_cycle)
  have "\<exists>r. verify_installed_package demo_senv st (ir_package ir) = Inr r \<and> receipt_status r = ''completed''"
    using c(6) by (simp add: verify_status_iff)
  then show ?thesis using c(3) reinstall_closes_cycle [OF c(1-5)] by blast
qed

section \<open>Cells\<close>

text \<open>
  C24. The cell compiler is sound: the program file reads back as a list of instructions, each of one of the
  five forms, that ends with an exit; the capabilities of the receipt are exactly the names that the
  instructions use; and the receipt file reads back, verifies under the trusted keys and carries the digest
  of the program file.
\<close>

theorem compiled_cell_sound:
  assumes "compile_source env source key = Inr (pf, rf, rcpt)" and "keys_trusted env key"
  shows "\<exists>instructions m check. rbind (utf8_decode pf) loads = Inr (program_json instructions) \<and>
     (\<forall>j \<in> set instructions. compiled_instr j) \<and> instructions \<noteq> [] \<and> operation_of (last instructions) = ''EXIT'' \<and>
     jget rcpt ''capabilities'' = JObj [(''read'', names_json (names_used ''READ'' instructions)),
       (''write'', names_json (names_used ''WRITE'' instructions)), (''env'', names_json (names_used ''ENV'' instructions)),
       (''dependencies'', names_json (names_used ''DEPENDENCY'' instructions))] \<and>
     rbind (utf8_decode rf) loads = Inr (JObj m) \<and>
     verify_build_receipt (se_ed (ce_store env)) m (se_trusted_keys (ce_store env)) = Inr check \<and>
     bk_signature_verified check \<and> bk_bytecode_sha256 check = JStr (hexdigest pf)"
proof (rule compile_files [OF assms])
  fix instructions caps m check
  assume "compiled (instructions, caps)" "instructions \<noteq> []" "operation_of (last instructions) = ''EXIT''"
    "jget rcpt ''capabilities'' = capabilities_json caps" "rbind (utf8_decode pf) loads = Inr (program_json instructions)"
    "rbind (utf8_decode rf) loads = Inr (JObj m)"
    "verify_build_receipt (se_ed (ce_store env)) m (se_trusted_keys (ce_store env)) = Inr check"
    "bk_signature_verified check" "bk_bytecode_sha256 check = JStr (hexdigest pf)"
  then show ?thesis
    by (intro exI [of _ instructions] exI [of _ m] exI [of _ check]) (simp add: compiled_def capabilities_json_def list_all_iff)
qed

theorem compiled_cell_sound_witness:
  "\<exists>pf rf rcpt instructions. compile_source (demo_cell (demo_host [] [])) (utf8 demo_source) demo_key = Inr (pf, rf, rcpt) \<and>
     rbind (utf8_decode pf) loads = Inr (program_json instructions) \<and> operation_of (last instructions) = ''EXIT''"
proof -
  obtain pf rf rcpt where c: "compile_source (demo_cell (demo_host [] [])) (utf8 demo_source) demo_key = Inr (pf, rf, rcpt)"
    by (rule demo_compile) blast
  then show ?thesis using compiled_cell_sound [OF c demo_keys_trusted] by blast
qed

text \<open>
  C25. A run is confined: what it does to the Genesis files is a sequence of writes to paths that the write
  capability of the app names, also when it raises half-way; its receipt lists the object of every one of
  them in order; and unless a content or manifest collides with a stored one, the files afterwards are the
  files before, updated with these writes.
\<close>

theorem cell_run_confined:
  assumes "gfs_ok g" and "map_of apps app = Some info" and "run_cell env st apps app g = (res, g')"
  shows "\<exists>ws. fst ` set ws \<subseteq> set (cp_write (ap_capabilities info)) \<and> g' = apply_writes env info ws g \<and>
     (\<forall>r. res = Inr r \<longrightarrow> written_objects (pp_calls r) = write_objects ws) \<and>
     (clear_writes env info ws g \<longrightarrow> view g' = foldl (\<lambda>v w. view_write w v) (view g) ws)"
proof -
  have "gn_current_root g \<noteq> None" using assms(1) by (auto simp: gfs_ok_def)
  from run_cell_writes [OF this assms(2,3)] obtain ws where ws: "within_writes info ws" "g' = apply_writes env info ws g"
      "\<forall>objs. receipt_objects_of res = Some objs \<longrightarrow> objs = write_objects ws"
    unfolding writes_of_def by blast
  then show ?thesis using apply_writes_view [OF assms(1)]
    by (intro exI [of _ ws]) (auto simp: within_writes_def receipt_objects_of_def)
qed

theorem cell_run_confined_witness:
  "\<exists>h st name r g' ws. run_cell (demo_cell h) st [(''app'', demo_app name)] ''app'' demo_genesis = (Inr r, g') \<and>
     ws \<noteq> [] \<and> fst ` set ws \<subseteq> {''a''} \<and> g' = apply_writes (demo_cell h) (demo_app name) ws demo_genesis \<and>
     written_objects (pp_calls r) = write_objects ws \<and> length (pp_calls r) = 2 \<and> view g' ''a'' = Some [1]"
proof (rule demo_app_runs [of "''program.bogcell''"])
  fix pf rf st r g'
  let ?h = "demo_host pf rf" let ?name = "''program.bogcell''"
  assume run: "run_cell (demo_cell ?h) st [(''app'', demo_app ?name)] ''app'' demo_genesis = (Inr r, g')"
    and calls: "length (pp_calls r) = 2" and g': "view g' = (view demo_genesis)(''a'' \<mapsto> [1])" "entries g' \<noteq> []"
  have "map_of [(''app'', demo_app ?name)] ''app'' = Some (demo_app ?name)" by simp
  from cell_run_confined [OF demo_gfs_ok this run] obtain ws where ws: "fst ` set ws \<subseteq> {''a''}"
      "g' = apply_writes (demo_cell ?h) (demo_app ?name) ws demo_genesis" "written_objects (pp_calls r) = write_objects ws"
    by (auto simp: demo_capabilities_def)
  have "ws \<noteq> []" using ws(2) g'(2) demo_entries by auto
  moreover have "view g' ''a'' = Some [1]" using g'(1) by simp
  ultimately show ?thesis using run calls ws by blast
qed simp

text \<open>
  C26. A run is guarded: it either is refused, changing nothing and reporting a failure, or the installed
  package verifies, the signed build receipt verifies and carries the digest of the program file, and the
  program has the right format; then the calls are numbered from 1, only the last one can be blocked, each
  completed call is one that the capabilities permit, and each carries the digest of its evidence. A
  completed run has only completed calls and no exit code but 0. The program and the receipt are the files
  that their paths lead to from the install directory, which need not lie inside it: see
  \<open>program_outside_package_runs\<close>.
\<close>

theorem cell_run_guarded:
  assumes "gn_current_root g \<noteq> None" and "run_cell env st apps app g = (Inr r, g')"
  shows "g' = g \<and> pp_calls r = [] \<and> pp_failures r \<noteq> [] \<or>
    (\<exists>info name. map_of apps app = Some info \<and> ap_cell_program info = Some name \<and> cell_checked env st info name r \<and>
       calls_ok (ap_capabilities info) 1 (pp_calls r) \<and>
       (pp_failures r = [] \<longrightarrow> (\<forall>c \<in> set (pp_calls r). cc_failures c = []) \<and>
          (case pp_exit_code r of None \<Rightarrow> True | Some j \<Rightarrow> is_number j 0)))"
proof (cases "refused g (Inr r) g'")
  case False
  then show ?thesis using run_cell_cases [OF assms] executed_checked assms(1) by metis
qed (simp add: refused_def)

theorem cell_run_guarded_witness:
  "\<exists>h st r g'. run_cell (demo_cell h) st [(''app'', demo_app ''program.bogcell'')] ''app'' demo_genesis = (Inr r, g') \<and>
     length (pp_calls r) = 2 \<and> cell_checked (demo_cell h) st (demo_app ''program.bogcell'') ''program.bogcell'' r \<and>
     calls_ok demo_capabilities 1 (pp_calls r)"
proof (rule demo_app_runs [of "''program.bogcell''"])
  fix pf rf st r g'
  let ?h = "demo_host pf rf" let ?name = "''program.bogcell''"
  assume run: "run_cell (demo_cell ?h) st [(''app'', demo_app ?name)] ''app'' demo_genesis = (Inr r, g')"
    and calls: "length (pp_calls r) = 2"
  have root: "gn_current_root demo_genesis \<noteq> None" by (simp add: demo_genesis_def)
  have "pp_calls r \<noteq> []" using calls by auto
  then have "cell_checked (demo_cell ?h) st (demo_app ?name) ?name r \<and> calls_ok demo_capabilities 1 (pp_calls r)"
    using cell_run_guarded [OF root run] by (auto simp del: One_nat_def)
  then show ?thesis using run calls by blast
qed simp

text \<open>
  Nothing confines the program to the package: with the package verified, a program and a build receipt at
  absolute paths outside the install directory are executed, and write what the capabilities allow.
\<close>

theorem program_outside_package_runs:
  "\<exists>h st r g' v pf. ap_install_dir (demo_app ''/out/program.bogcell'') = ''store/installed/a-1'' \<and>
     verify_installed_package cell_senv st ''a-1'' = Inr v \<and> receipt_status v = ''completed'' \<and>
     ho_files h [''out'', ''program.bogcell''] = Some pf \<and>
     open_file (demo_cell h) st (demo_app ''/out/program.bogcell'') ''/out/program.bogcell'' = Some pf \<and>
     file_inside (demo_cell h) st (demo_app ''/out/program.bogcell'') ''/out/program.bogcell'' = None \<and>
     run_cell (demo_cell h) st [(''app'', demo_app ''/out/program.bogcell'')] ''app'' demo_genesis = (Inr r, g') \<and>
     pp_failures r = [] \<and> entries g' \<noteq> [] \<and> view g' ''a'' = Some [1]"
proof (rule demo_app_runs [of "''/out/program.bogcell''"])
  fix pf rf st v r g'
  let ?h = "demo_host pf rf" let ?name = "''/out/program.bogcell''"
  assume v: "verify_installed_package cell_senv st ''a-1'' = Inr v" "receipt_status v = ''completed''"
    and run: "run_cell (demo_cell ?h) st [(''app'', demo_app ?name)] ''app'' demo_genesis = (Inr r, g')"
      "pp_failures r = []" "open_file (demo_cell ?h) st (demo_app ?name) ?name = Some pf"
    and g': "view g' = (view demo_genesis)(''a'' \<mapsto> [1])" "entries g' \<noteq> []"
  have "file_inside (demo_cell ?h) st (demo_app ?name) ?name = None" by (rule demo_not_inside)
  moreover have "ho_files ?h [''out'', ''program.bogcell''] = Some pf" by (simp add: demo_host_def)
  moreover have "ap_install_dir (demo_app ?name) = ''store/installed/a-1''" by (simp add: demo_install_def)
  moreover have "view g' ''a'' = Some [1]" using g'(1) by simp
  ultimately show ?thesis using run v g'(2) by blast
qed simp

text \<open>
  C27. What the compiler produced runs: with its program file and its receipt where the app names them, the
  app's package verified, and under the capabilities of the receipt, a compiled program passes every check
  and is executed; and no call is ever blocked for lack of a capability. A blocked call is recorded as
  allowed, and is a read of a named path at which the install directory has no file, or a
  dependency that is named and installed but whose verification is not completed.
\<close>

theorem compiled_cell_runs:
  assumes "compile_source env source key = Inr (pf, rf, rcpt)" and "keys_trusted env key"
    and "open_file env st info name = Some pf" and "open_file env st info (build_receipt_name info) = Some rf"
    and "map_of apps app = Some info" and "ap_cell_program info = Some name" and "name \<noteq> []"
    and "jget rcpt ''capabilities'' = capabilities_json (ap_capabilities info)"
    and "verify_installed_package (ce_store env) st (ap_package info) = Inr v" and "receipt_status v = ''completed''"
    and "gn_current_root g \<noteq> None" and "run_cell env st apps app g = (Inr r, g')"
  shows "pp_calls r \<noteq> [] \<and> (\<forall>c \<in> set (pp_calls r). cc_failures c \<noteq> [] \<longrightarrow>
    map_of (cc_evidence c) ''allowed'' = Some (JBool True) \<and>
    (\<exists>path reg.
       map_of (cc_evidence c) ''instruction'' = Some (JList [JStr ''READ'', JStr path, JStr reg]) \<and>
         path \<in> set (cp_read (ap_capabilities info)) \<and> file_inside env st info path = None \<or>
       map_of (cc_evidence c) ''instruction'' = Some (JList [JStr ''DEPENDENCY'', JStr path, JStr reg]) \<and>
         path \<in> set (cp_dependencies (ap_capabilities info)) \<and>
         (\<exists>w. verify_installed_package (ce_store env) st path = Inr w \<and> receipt_status w \<noteq> ''completed'')))"
  using compiled_runs [OF assms] by (fastforce simp: blocked_outside_def missing_read_def unverified_dependency_def)

theorem compiled_cell_runs_witness:
  "\<exists>h st r g' pf rf rcpt. compile_source (demo_cell h) (utf8 demo_source) demo_key = Inr (pf, rf, rcpt) \<and>
     open_file (demo_cell h) st (demo_app ''program.bogcell'') ''program.bogcell'' = Some pf \<and>
     run_cell (demo_cell h) st [(''app'', demo_app ''program.bogcell'')] ''app'' demo_genesis = (Inr r, g') \<and>
     pp_calls r \<noteq> [] \<and> pp_failures r = []"
proof (rule demo_app_runs [of "''program.bogcell''"])
  fix pf rf rcpt st v r g'
  let ?h = "demo_host pf rf" let ?name = "''program.bogcell''"
  assume c: "compile_source (demo_cell ?h) (utf8 demo_source) demo_key = Inr (pf, rf, rcpt)"
    and caps: "jget rcpt ''capabilities'' = capabilities_json demo_capabilities"
    and v: "verify_installed_package cell_senv st ''a-1'' = Inr v" "receipt_status v = ''completed''"
    and files: "open_file (demo_cell ?h) st (demo_app ?name) ?name = Some pf"
      "open_file (demo_cell ?h) st (demo_app ?name) ''/out/build_receipt.json'' = Some rf"
    and run: "run_cell (demo_cell ?h) st [(''app'', demo_app ?name)] ''app'' demo_genesis = (Inr r, g')" "pp_failures r = []"
  have root: "gn_current_root demo_genesis \<noteq> None" by (simp add: demo_genesis_def)
  have "pp_calls r \<noteq> []"
    using compiled_cell_runs [OF c demo_keys_trusted files(1) _ _ _ _ _ _ v(2) root run(1)] files(2) caps v(1) by simp
  then show ?thesis using c run files(1) by blast
qed simp

section \<open>The boot ledger\<close>

text \<open>
  C30. The hardware ledger stays verifiable: after a completed boot of a ledger without claims and any sequence of
  device events, \<open>verify\<close> reports no failure. In every such state an event never raises, is admitted
  exactly when its device is declared, the device's capability is presented and its tick is larger
  than the current one; an admitted event moves the tick and its device's counters only, a quarantined
  one leaves tick and devices alone, and either way the ledger stays verifiable.
\<close>

theorem boot_ledger_verifies:
  assumes "hw_run st"
  shows "verify_ledger st = [] \<and>
    (\<exists>s m st' r s'. hs_state st = Some s \<and> hs_manifest st = Some m \<and>
      irq_claim st source payload ev capabilities t = Inr (st', r) \<and> verify_ledger st' = [] \<and> hs_state st' = Some s' \<and>
      (ir_accepted r \<longleftrightarrow> admits s m source capabilities (claim_tick s t)) \<and>
      event_effect s source payload (claim_tick s t) r s')"
proof -
  have ok: "ledger_ok st" using assms by (rule hw_run_ok)
  obtain s m where s: "hs_state st = Some s" "hs_manifest st = Some m" using ledger_loaded [OF ok] by blast
  obtain st' r s' where "irq_claim st source payload ev capabilities t = Inr (st', r)" "ledger_ok st'" "hs_state st' = Some s'"
      "ir_accepted r \<longleftrightarrow> admits s m source capabilities (claim_tick s t)" "event_effect s source payload (claim_tick s t) r s'"
    using irq_admitted [OF ok s, of source capabilities t payload ev] irq_quarantined [OF ok s, of source capabilities t payload ev]
    by blast
  then show ?thesis using ok s ledger_verifies by blast
qed

lemma default_boot:
  "\<exists>st r. boot \<lparr>hs_manifest = None, hs_state = None, hs_claims = [], hs_quarantine = []\<rparr> None = (st, r) \<and>
    br_failures r = [] \<and> hw_run st \<and> hs_claims st = [] \<and> hs_quarantine st = []"
proof -
  let ?e = "\<lparr>hs_manifest = None, hs_state = None, hs_claims = [], hs_quarantine = []\<rparr>"
  obtain st r where b: "boot ?e None = (st, r)" by fastforce
  have "validate_manifest DEFAULT_MANIFEST = []" by code_simp
  then have "br_failures r = []" "br_execution_status r = ''completed''" "hs_claims st = []" "hs_quarantine st = []"
    using b by (auto simp: boot_def Let_def)
  moreover have "hw_run st" by (rule hw_run.booted [OF _ _ b]) (use calculation in simp_all)
  ultimately show ?thesis using b by blast
qed

theorem boot_ledger_verifies_witness:
  "\<exists>st st' r. boot \<lparr>hs_manifest = None, hs_state = None, hs_claims = [], hs_quarantine = []\<rparr> None = (st, r) \<and>
    verify_ledger st = [] \<and> (\<exists>r'. irq_claim st ''timer'' [] JNull [''hardware.timer.tick''] None = Inr (st', r') \<and> verify_ledger st' = [])"
  using default_boot boot_ledger_verifies [of _ "''timer''" "[]" JNull "[''hardware.timer.tick'']" None] by blast

text \<open>
  The memory-map check of the boot manifest is exact: the check of neighbours in the sorted list finds no
  overlap exactly when every region has a start and a positive size and no two regions of the list
  share an address.
\<close>

theorem memory_map_check_exact:
  "validate_manifest m = [] \<longleftrightarrow> hm_platform m = Some ''qemu-virt-reference'' \<and>
    ''serial'' \<in> fst ` set (hm_devices m) \<and> ''timer'' \<in> fst ` set (hm_devices m) \<and>
    (\<forall>r \<in> set (hm_memory_map m). \<exists>start sz. mr_start r = Some start \<and> mr_size r = Some sz \<and> 0 \<le> start \<and> 0 < sz) \<and>
    (\<forall>i j start1 sz1 start2 sz2. i < j \<and> j < length (hm_memory_map m) \<and>
      mr_start (hm_memory_map m ! i) = Some start1 \<and> mr_size (hm_memory_map m ! i) = Some sz1 \<and>
      mr_start (hm_memory_map m ! j) = Some start2 \<and> mr_size (hm_memory_map m ! j) = Some sz2 \<longrightarrow>
      {start1..<start1 + sz1} \<inter> {start2..<start2 + sz2} = {})"
  by (rule validate_manifest_exact)

theorem memory_map_check_exact_witness:
  "validate_manifest DEFAULT_MANIFEST = [] \<and> hm_platform DEFAULT_MANIFEST = Some ''qemu-virt-reference'' \<and>
   ''timer'' \<in> fst ` set (hm_devices DEFAULT_MANIFEST)"
proof -
  have "validate_manifest DEFAULT_MANIFEST = []" by code_simp
  then show ?thesis using memory_map_check_exact [of DEFAULT_MANIFEST] by blast
qed

text \<open>
  C31. Booting again breaks the ledger: once a claim is recorded, a second completed boot resets the claim
  sequence while the claim files stay, so \<open>verify\<close> reports a sequence mismatch.
\<close>

theorem reboot_breaks_ledger:
  assumes "hw_run st" and "hs_claims st @ hs_quarantine st \<noteq> []"
    and "boot st given = (st', r)" and "br_execution_status r = ''completed''"
  shows "(''bogboot'', ''hardware claim sequence mismatch'') \<in> set (verify_ledger st')"
  by (rule reboot_breaks [OF hw_run_ok [OF assms(1)] assms(2,3)])
    (use assms(3,4) in \<open>auto simp: boot_def Let_def split: if_splits\<close>)

theorem reboot_breaks_ledger_witness:
  "\<exists>st st' r. hw_run st \<and> boot st None = (st', r) \<and> (''bogboot'', ''hardware claim sequence mismatch'') \<in> set (verify_ledger st')"
proof -
  obtain st where st: "hw_run st" "hs_claims st = []" "hs_quarantine st = []" using default_boot by blast
  have ok: "ledger_ok st" using st(1) by (rule hw_run_ok)
  obtain s m where s: "hs_state st = Some s" "hs_manifest st = Some m" using ledger_loaded [OF ok] by blast
  obtain st1 r1 s1 where one: "irq_claim st [] [] JNull [] None = Inr (st1, r1)" "ledger_ok st1" "hs_state st1 = Some s1"
      "event_effect s [] [] (claim_tick s None) r1 s1" "hs_manifest st1 = Some m"
    using irq_admitted [OF ok s, of "[]" "[]" None "[]" JNull] irq_quarantined [OF ok s, of "[]" "[]" None "[]" JNull] by blast
  have run: "hw_run st1" by (rule hw_run.event [OF st(1) one(1)])
  have "hs_claims st1 @ hs_quarantine st1 \<noteq> []"
    using ledger_parts(6) [OF one(2,3,5)] ledger_parts(9) [OF ok s] one(4) by (auto simp: event_effect_def)
  moreover obtain st2 r2 where b: "boot st1 None = (st2, r2)" by fastforce
  moreover have "br_execution_status r2 = ''completed''"
  proof -
    have "validate_manifest DEFAULT_MANIFEST = []" by code_simp
    then show ?thesis using b by (auto simp: boot_def Let_def)
  qed
  ultimately show ?thesis using reboot_breaks_ledger [OF run] run by blast
qed

section \<open>The two file views\<close>

text \<open>
  The flat image holds the directory: when the image of a directory is built, row i of its table names the
  i-th file in sorted order, by the first 63 bytes of its path, and the bytes at the offset and with the
  length that the row states are the file's contents, whose digest the row holds.
\<close>

theorem bogfs_image_reads_back:
  assumes "make_bogfs d = Inr img" and "i < length d"
  shows "image_path img i = path_padded (fst (sorted_files d ! i)) \<and> image_content img i = snd (sorted_files d ! i) \<and>
    image_hash img i = sha256 (image_content img i)"
  using image_reads [OF assms] by simp

theorem bogfs_image_reads_back_witness:
  "\<exists>img. make_bogfs [(''b'', [1, 2]), (''a'', [3])] = Inr img \<and> image_content img 0 = [3] \<and> image_content img 1 = [1, 2]"
proof -
  have sorted: "sorted_files [(''b'', [1, 2]), (''a'', [3])] = [(''a'', [3]), (''b'', [1, 2 :: byte])]"
    by (simp add: sorted_files_def path_parts_def)
  obtain img where made: "make_bogfs [(''b'', [1, 2]), (''a'', [3])] = Inr img"
    by (simp add: make_bogfs_def sorted nat_be_def entry_row_def)
  show ?thesis
    using made bogfs_image_reads_back [OF made, of 0] bogfs_image_reads_back [OF made, of 1] by (simp add: sorted)
qed

text \<open>
  The archive view shows the archived directory: after a directory is archived and the archive opened,
  every file reads back with its bytes, its size and its digest, and \<open>listdir\<close> lists exactly the next path
  parts below a prefix.
\<close>

theorem bogfs_view_reads_back:
  assumes "schema_complete cv" and "archive_schema_complete mv" and "dir_ok d" and "contents_clear d"
    and "auto_chunk \<or> int n \<in> set CANDIDATE_CHUNK_SIZES"
    and "(p, data) \<in> set d" and "hd p \<noteq> CHR ''/''" and "last p \<noteq> CHR ''/''"
  shows "\<exists>ar mf fs. build_directory_archive cv mv source (Some d) (int n) auto_chunk tt = Inr (ar, mf) \<and>
    open_bogfs mv ar = Inr fs \<and> fs_read_bytes cv fs p = Inr data \<and> fs_stat fs p = Inr (file_item p data) \<and>
    (\<forall>prefix name. name \<in> set (listdir fs prefix) \<longleftrightarrow> (\<exists>rest. fs_prefix prefix @ rest \<in> fst ` set (fs_entries fs) \<and>
       name = takeWhile (\<lambda>c. c \<noteq> CHR ''/'') rest))"
  using view_built [OF assms] listdir_iff by blast

theorem bogfs_view_reads_back_witness:
  "\<exists>ar mf fs. build_directory_archive (\<lambda>_. []) (\<lambda>_. []) ''src'' (Some [(''a/b'', [1])]) 64 True True = Inr (ar, mf) \<and>
    open_bogfs (\<lambda>_. []) ar = Inr fs \<and> fs_read_bytes (\<lambda>_. []) fs ''a/b'' = Inr [1]"
proof -
  have "schema_complete (\<lambda>_. [])" "archive_schema_complete (\<lambda>_. [])"
    by (simp_all add: schema_complete_def archive_schema_complete_def)
  moreover have "path_contained ''a/b''" "path_parts ''a/b'' = [''a'', ''b'']"
    by (simp_all add: path_contained_def is_absolute_def path_parts_def)
  then have "dir_ok [(''a/b'', [1])]" by (simp add: dir_ok_def layout_ok_def plain_path_def)
  moreover have "contents_clear [(''a/b'', [1])]" by (simp add: contents_clear_def)
  ultimately show ?thesis using bogfs_view_reads_back [of "\<lambda>_. []" "\<lambda>_. []" "[(''a/b'', [1])]" True 64 "''a/b''" "[1]" "''src''" True]
    by auto
qed

section \<open>The Genesis ledger and its files\<close>

text \<open>
  C32. The ledger stays verifiable and only grows: from a well-formed directory whose ledger verifies, any session
  of writes, reads, rollbacks and other recorded events, successful or not, leaves a ledger that
  verifies, starts with the old entries, and whose root is the digest of its last entry. The signature
  scheme is only assumed to verify what it signed with a trusted key.
\<close>

theorem genesis_ledger_verified:
  assumes "keys_work env" and "session_ok g" and "verify_genesis env g = Inr r" and "lr_ledger_verified r"
    and "(genesis_step env)\<^sup>*\<^sup>* g g'"
  shows "session_ok g' \<and> (\<exists>es. entries g' = entries g @ es) \<and>
    (\<exists>r'. verify_genesis env g' = Inr r' \<and> lr_ledger_verified r' \<and> lr_failures r' = [] \<and>
       lr_entry_count r' = length (entries g') \<and> lr_ledger_root_sha256 r' = last_hash g')"
proof -
  have "ledger_passes env g" using assms(3,4) by (auto simp: verify_genesis_passes)
  then have "ledger_passes env g'" by (rule run_verified [OF assms(5,2,1)])
  then obtain root where root: "check_entries env 1 (JStr ZERO_HASH) (entries g') = Inr ([], root)" by (auto simp: ledger_passes_def)
  then have "last_hash g' = root" by (rule last_hash_root)
  then show ?thesis using root run_continues [OF assms(5,2)] by (auto simp: continues_def verify_genesis_def)
qed

theorem genesis_ledger_verified_witness:
  "\<exists>e g1 r. fs_write demo_env ''a'' [1] ''shell'' demo_genesis = (Inr e, g1) \<and>
    verify_genesis demo_env g1 = Inr r \<and> lr_ledger_verified r \<and> lr_entry_count r = 1"
proof -
  obtain e g1 where w: "fs_write demo_env ''a'' [1] ''shell'' demo_genesis = (Inr e, g1)" "entries g1 = [e]"
    by (rule demo_write)
  have "genesis_step demo_env demo_genesis g1"
    by (rule genesis_step.wrote [OF demo_session_ok(2) demo_safe_path demo_write_clear w(1)])
  then have run: "(genesis_step demo_env)\<^sup>*\<^sup>* demo_genesis g1" by blast
  obtain r where "verify_genesis demo_env demo_genesis = Inr r" "lr_ledger_verified r" using demo_passes by (auto simp: verify_genesis_passes)
  from genesis_ledger_verified [OF demo_keys_work demo_session_ok(1) this run] show ?thesis using w by auto
qed

text \<open>
  C33. The ledger is tamper-evident: two directories whose ledgers verify, possibly for different readers, and
  report the same root have the same sequence of entry payloads, byte for byte, unless two of those
  payloads are an explicit SHA-256 collision.
\<close>

theorem genesis_tamper_evident:
  assumes "verify_genesis env g = Inr r" and "lr_ledger_verified r" and "verify_genesis env' g' = Inr r'" and "lr_ledger_verified r'"
    and "lr_ledger_root_sha256 r = lr_ledger_root_sha256 r'" and "entries g \<noteq> []" and "entries g' \<noteq> []"
    and "plain_entries (entries g)" and "plain_entries (entries g')"
    and "\<forall>e \<in> set (entries g). \<forall>e' \<in> set (entries g'). \<not> collision (payload_bytes e) (payload_bytes e')"
  shows "map payload_bytes (entries g) = map payload_bytes (entries g')"
proof -
  obtain root where "check_entries env 1 (JStr ZERO_HASH) (entries g) = Inr ([], root)"
      "check_entries env' 1 (JStr ZERO_HASH) (entries g') = Inr ([], root)"
    using assms(1-5) by (auto simp: verify_genesis_def rbind_Inr_iff)
  from chain_commits [OF assms(6,7) this assms(8-10)] show ?thesis .
qed

theorem genesis_tamper_evident_witness:
  "\<exists>e g1. fs_write demo_env ''a'' [1] ''shell'' demo_genesis = (Inr e, g1) \<and> entries g1 = [e] \<and>
    map payload_bytes (entries g1) = [payload_bytes e]"
proof -
  obtain e g1 where w: "fs_write demo_env ''a'' [1] ''shell'' demo_genesis = (Inr e, g1)" "entries g1 = [e]"
    by (rule demo_write)
  have "genesis_step demo_env demo_genesis g1"
    by (rule genesis_step.wrote [OF demo_session_ok(2) demo_safe_path demo_write_clear w(1)])
  then have "ledger_passes demo_env g1" using step_verified demo_session_ok(1) demo_keys_work demo_passes by blast
  then obtain r where r: "verify_genesis demo_env g1 = Inr r" "lr_ledger_verified r" by (auto simp: verify_genesis_passes)
  have "json_ok (JObj (entry_payload e))"
    using demo_entry_plain [OF w(1)] .
  then have plain: "plain_entries (entries g1)" by (simp add: plain_entries_def w(2))
  have "map payload_bytes (entries g1) = map payload_bytes (entries g1)"
    by (rule genesis_tamper_evident [OF r r refl _ _ plain plain]) (simp_all add: w(2) collision_def)
  then show ?thesis using w by simp
qed

text \<open>
  C34. Writing and reading refine a map from paths to contents: in a well-formed directory a write with a safe
  path leaves a well-formed directory whose files are the old ones updated at that path, whether or not
  its receipt could be recorded, and a read afterwards returns exactly the contents of that map, reports
  a missing file as blocked, and changes no file.
\<close>

theorem genesis_files_refine:
  assumes "session_ok g" and "room g" and "safe_path path = Inr rel" and "write_clear g rel data"
    and "fs_write env path data capability g = (res, g1)" and "room g1" and "safe_path path' = Inr rel'"
    and "fs_read env path' capability' g1 = (Inr (content, rcpt), g2)"
  shows "session_ok g1 \<and> view g1 = (view g)(rel \<mapsto> data) \<and> view g2 = view g1 \<and>
    content = (case view g1 rel' of None \<Rightarrow> [] | Some d \<Rightarrow> d) \<and>
    jget rcpt ''execution_status'' = JStr (if view g1 rel' = None then ''blocked'' else ''completed'')"
proof -
  have gfs: "gfs_ok g" using assms(1) by (simp add: session_ok_def)
  have ok1: "session_ok g1"
    using step_continues [OF genesis_step.wrote [OF assms(2-5)] assms(1)] by (simp add: continues_def)
  then have gfs1: "gfs_ok g1" by (simp add: session_ok_def)
  let ?w = "written g rel data"
  have wok: "session_ok ?w" using written_continues [OF assms(1,4)] by (simp add: continues_def)
  have "recorded env ?w g1"
    using assms(5) unfolding fs_write_eq [OF gfs assms(3)] by (intro record_recorded) simp_all
  then have "same_files ?w g1"
    using recorded_keeps(2) wok assms(2) written_ok(5) [OF gfs assms(4)] by (auto simp: session_ok_def room_def)
  then have view1: "view g1 = (view g)(rel \<mapsto> data)" using same_files_keep(2) written_ok(3) [OF gfs assms(4)] by metis
  have rec: "record_entry env ''fs-read'' (read_receipt g1 rel' capability') g1 = (Inr rcpt, g2)"
    and content: "content = (case view g1 rel' of None \<Rightarrow> [] | Some d \<Rightarrow> d)"
    using assms(8) by (auto simp: fs_read_eq [OF gfs1 assms(7)] split: prod.splits sum.splits)
  have "view g2 = view g1" using recorded_state(2) [OF ok1 assms(6) read_receipt_plain rec] by (rule same_files_keep)
  moreover have "jget rcpt ''execution_status'' = JStr (if view g1 rel' = None then ''blocked'' else ''completed'')"
    using recorded_members(4) [OF rec read_receipt_plain, of "''execution_status''"]
    by (simp add: jget_def read_receipt_def Let_def status_json_def)
  ultimately show ?thesis using ok1 view1 content by blast
qed

theorem genesis_files_refine_witness:
  "\<exists>e g1 rcpt g2. fs_write demo_env ''a'' [1] ''shell'' demo_genesis = (Inr e, g1) \<and>
    fs_read demo_env ''a'' ''shell'' g1 = (Inr ([1], rcpt), g2) \<and> view g2 ''a'' = Some [1]"
proof -
  obtain e g1 where w: "fs_write demo_env ''a'' [1] ''shell'' demo_genesis = (Inr e, g1)" "continues demo_genesis g1" "room g1"
    by (rule demo_write)
  then have "gfs_ok g1" by (simp add: continues_def session_ok_def)
  then obtain content rcpt g2 where r: "fs_read demo_env ''a'' ''shell'' g1 = (Inr (content, rcpt), g2)"
    using demo_records [of "''fs-read''" "read_receipt g1 ''a'' ''shell''" g1] by (auto simp: fs_read_eq [OF _ demo_safe_path])
  from genesis_files_refine [OF demo_session_ok demo_safe_path demo_write_clear w(1,3) demo_safe_path r]
  show ?thesis using w(1) r by auto
qed

text \<open>
  C35. Rolling back works: after a recorded write and any further session, rolling back to the number of that
  write's receipt makes the files exactly what they were right after the write, and when the rollback is
  recorded its receipt says that it was verified.
\<close>

theorem genesis_rollback_restores:
  assumes "session_ok g0" and "room g0" and "safe_path path = Inr rel" and "write_clear g0 rel data"
    and "fs_write env path data capability g0 = (Inr e, g1)" and "(genesis_step env)\<^sup>*\<^sup>* g1 g2" and "room g2"
    and "rollback env (str_nat (length (entries g1))) g2 = (res, g3)"
  shows "view g3 = (view g0)(rel \<mapsto> data) \<and> (\<forall>r. res = Inr r \<longrightarrow> jget r ''rollback_verified'' = JBool True)"
  using rollback_restores [OF assms] write_leaves(3) [OF assms(1-5)] by simp

theorem genesis_rollback_restores_witness:
  "\<exists>e g1 r g3. fs_write demo_env ''a'' [1] ''shell'' demo_genesis = (Inr e, g1) \<and>
    rollback demo_env (str_nat 1) g1 = (r, g3) \<and> view g3 ''a'' = Some [1]"
proof -
  obtain e g1 where w: "fs_write demo_env ''a'' [1] ''shell'' demo_genesis = (Inr e, g1)" "entries g1 = [e]" "room g1"
    by (rule demo_write)
  obtain res g3 where "rollback demo_env (str_nat (length (entries g1))) g1 = (res, g3)" by fastforce
  from genesis_rollback_restores [OF demo_session_ok demo_safe_path demo_write_clear w(1) _ w(3) this] this
  show ?thesis using w by fastforce
qed

text \<open>
  C36. Sessions replay: a session that starts with a trusted boot of an empty ledger, recorded with the current
  root, and goes on with recorded writes, reads, completed rollbacks, boots that name the current root and
  neutral events (any event but those four, a registry sync, a lock, an installation and the run of an app)
  is replayed without failure, whatever it did to the files. A replay without a source receipt finds no
  failure and counts every event, whatever state the registry, the lock file and the packages are in; it
  returns that receipt, and the only way to raise instead is that the receipt schema rejects the entry
  that would record it. The signature scheme is assumed to verify what it signed with a trusted key.
\<close>

theorem genesis_session_replays:
  assumes "keys_work env" and "session_ok g" and "gn_ledger g = []" and "plain_receipt boot_receipt"
    and "map_of boot_receipt ''state_root_sha256'' = Some (JStr (manifest_root (current_files g)))"
    and "record_entry env ''trusted-boot'' boot_receipt g = (Inr e, g1)"
    and "(replay_step env)\<^sup>*\<^sup>* g1 g2"
  shows "\<exists>rc. jget rc ''full_session_replay_verified'' = JBool True \<and>
    jget rc ''replayed_event_count'' = JInt (int (length (entries g2))) \<and>
    (if ge_receipt_schema env (JObj rc) = []
     then \<exists>g3. replay_session env registry_failures lock_failures installed_ok None g2 = (Inr rc, g3)
     else \<exists>msg. replay_session env registry_failures lock_failures installed_ok None g2 = (Inl (GenesisError msg), g2))"
proof -
  have boot: "session_ok g1" "replay_ok installed_ok g1" "quiet g1" by (rule boot_replays [OF assms(2-6)])+
  have run: "session_ok g2 \<and> replay_ok installed_ok g2 \<and> quiet g2 \<and> (genesis_step env)\<^sup>*\<^sup>* g1 g2"
    by (rule replay_run_ok [OF assms(7) boot])
  have "room g" using assms(3) by (simp add: room_def)
  then have "genesis_step env g g1" by (rule genesis_step.noted [OF _ assms(4,6)])
  moreover have "ledger_passes env g" using assms(3) by (simp add: ledger_passes_def entries_def)
  ultimately have "ledger_passes env g1" using step_verified assms(1,2) by blast
  then have passes: "ledger_passes env g2" using run_verified run boot(1) assms(1) by blast
  have gfs: "gfs_ok g2" using run by (simp add: session_ok_def)
  have fold: "fold_res (replay_entry installed_ok g2) (JStr ZERO_HASH, []) (entries g2) = Inr (JStr (manifest_root (current_files g2)), [])"
    using run by (simp add: replay_ok_def)
  obtain rc clean where rc: "replay_session env registry_failures lock_failures installed_ok None g2 = record_entry env ''replay-session'' rc g2"
      "plain_receipt rc" "quiet g2 \<longrightarrow> clean" "map_of rc ''replayed_event_count'' = Some (JInt (int (length (entries g2))))"
      "map_of rc ''full_session_replay_verified'' = Some (JBool (clean \<and> JStr (manifest_root (current_files g2)) = JStr (manifest_root (current_files g2))))"
    by (rule replay_session_records [OF gfs passes fold, of registry_failures lock_failures])
  show ?thesis
  proof (rule record_entry_returns [OF assms(1) rc(2), where ev = "''replay-session''" and g = g2])
    fix signed g3
    assume out: "if ge_receipt_schema env (JObj signed) = [] then record_entry env ''replay-session'' rc g2 = (Inr signed, g3)
        else \<exists>s. record_entry env ''replay-session'' rc g2 = (Inl (GenesisError s), g2)"
      and keep: "\<And>k. k \<notin> set [''ledger_format'', ''sequence'', ''event'', ''previous_hash'', ''receipt_hash'', ''signature''] \<Longrightarrow>
        map_of signed k = map_of rc k"
    have "jget signed ''full_session_replay_verified'' = JBool True" "jget signed ''replayed_event_count'' = JInt (int (length (entries g2)))"
      using keep [of "''full_session_replay_verified''"] keep [of "''replayed_event_count''"] rc(3-5) run by (simp_all add: jget_def)
    then show ?thesis using out unfolding rc(1) by (intro exI [of _ signed]) (auto split: if_splits)
  qed
qed

theorem genesis_session_replays_witness:
  "\<exists>e g1 w g2 rc g3. record_entry demo_env ''trusted-boot'' demo_boot demo_genesis = (Inr e, g1) \<and>
    fs_write demo_env ''a'' [1] ''shell'' g1 = (Inr w, g2) \<and>
    replay_session demo_env [JStr ''missing registry''] [] (\<lambda>_. True) None g2 = (Inr rc, g3) \<and>
    jget rc ''full_session_replay_verified'' = JBool True \<and> jget rc ''replayed_event_count'' = JInt 2"
proof -
  obtain e g1 where rec: "record_entry demo_env ''trusted-boot'' demo_boot demo_genesis = (Inr e, g1)" using demo_records by blast
  have led: "gn_ledger demo_genesis = []" by (simp add: demo_genesis_def)
  have named: "map_of demo_boot ''state_root_sha256'' = Some (JStr (manifest_root (current_files demo_genesis)))"
    by (simp add: demo_boot_def)
  note st = recorded_state [OF demo_session_ok demo_boot_plain(1) rec]
  have ok: "session_ok g1" using st(3) by (simp add: continues_def)
  have one: "entries g1 = [e]" using st(1) by (simp add: demo_entries)
  have "length (gn_ledger g1) = length (entries g1)" by (simp add: entries_def)
  then have room: "room g1" by (simp add: room_def one)
  have clear: "write_clear g1 ''a'' [1]"
    using demo_write_clear st(2) same_files_keep(3) [OF st(2)] by (simp add: write_clear_def after_write_def same_files_def)
  have "gfs_ok g1" using ok by (simp add: session_ok_def)
  then obtain w g2 where w: "fs_write demo_env ''a'' [1] ''shell'' g1 = (Inr w, g2)"
    using demo_records fs_write_eq [OF _ demo_safe_path] by metis
  have two: "entries g2 = [e, w]" using write_leaves(2) [OF ok room demo_safe_path clear w] one by simp
  have run: "(replay_step demo_env)\<^sup>*\<^sup>* g1 g2" using replay_step.wrote [OF room demo_safe_path clear w] by blast
  have schema: "ge_receipt_schema demo_env j = []" for j by (simp add: demo_env_def)
  from genesis_session_replays [OF demo_keys_work demo_session_ok(1) led demo_boot_plain(1) named rec run,
      of "[JStr ''missing registry'']" "[]" "\<lambda>_. True"]
  obtain rc g3 where "replay_session demo_env [JStr ''missing registry''] [] (\<lambda>_. True) None g2 = (Inr rc, g3)"
      "jget rc ''full_session_replay_verified'' = JBool True" "jget rc ''replayed_event_count'' = JInt (int (length (entries g2)))"
    unfolding schema if_P [OF refl] by (elim exE conjE) (rule that)
  then show ?thesis using rec w two by (intro exI [of _ e] exI [of _ g1] exI [of _ w] exI [of _ g2] exI [of _ rc] exI [of _ g3]) simp
qed

text \<open>
  C37. A blocked rollback spoils replay: when a rollback in a session that replays names a receipt without a
  recoverable root, it is recorded as blocked and changes no file, but the unusable target it records
  makes the next replay report failure, whatever the registry, the lock file and the packages contain.
\<close>

theorem blocked_rollback_breaks_replay:
  assumes "session_ok g" and "room g" and "replay_ok installed_ok g" and "ledger_passes env g" and "keys_work env"
    and "read_entry g selector = Inr entry" and "map_of entry ''receipt_hash'' = Some h"
    and "\<not> (truthy (target_root entry) \<and> value_str (target_root entry) \<in> fst ` set (gn_states g))"
    and "rollback env selector g = (Inr e, g1)" and "room g1"
    and "replay_session env registry_failures lock_failures installed_ok None g1 = (Inr r, g2)"
  shows "view g1 = view g \<and> jget e ''execution_status'' = JStr ''blocked'' \<and>
    jget r ''full_session_replay_verified'' = JBool False"
  using blocked_rollback_replay [OF assms] by simp

theorem blocked_rollback_breaks_replay_witness:
  "\<exists>g e g1 r g2. rollback demo_env (str_nat 2) g = (Inr e, g1) \<and> view g1 = view g \<and>
    replay_session demo_env [] [] (\<lambda>_. True) None g1 = (Inr r, g2) \<and> jget r ''full_session_replay_verified'' = JBool False"
proof -
  obtain e0 g where g: "session_ok g" "room g" "replay_ok (\<lambda>_. True) g" "ledger_passes demo_env g" "read_entry g (str_nat 2) = Inr e0"
      "\<exists>h. map_of e0 ''receipt_hash'' = Some h" "target_root e0 = JNull" "length (entries g) = 2"
    by (rule demo_noted)
  obtain h where h: "map_of e0 ''receipt_hash'' = Some h" using g(6) by blast
  have gfs: "gfs_ok g" using g(1) by (simp add: session_ok_def)
  have blocked: "\<not> (truthy (target_root e0) \<and> value_str (target_root e0) \<in> fst ` set (gn_states g))" using g(7) by simp
  obtain e g1 where rec: "record_entry demo_env ''rollback'' (blocked_receipt g (str_nat 2) h (target_root e0)) g = (Inr e, g1)"
    using demo_records by blast
  then have roll: "rollback demo_env (str_nat 2) g = (Inr e, g1)" using rollback_blocked_eq [OF gfs g(5) h blocked] by simp
  have "length (gn_ledger g1) = length (entries g1)" by (simp add: entries_def)
  then have room: "room g1" using recorded_state(1) [OF g(1,2) blocked_receipt_plain rec] g(8) by (simp add: room_def)
  obtain r g2 where rep: "replay_session demo_env [] [] (\<lambda>_. True) None g1 = (Inr r, g2)"
    using demo_blocked_replay_returns [OF g(1-4) rec, of "[]" "[]"] by blast
  from blocked_rollback_breaks_replay [OF g(1-4) demo_keys_work g(5) h blocked roll room rep] show ?thesis using roll rep by blast
qed

section \<open>The swarm and the mesh\<close>

text \<open>
  C38. The swarm writes the best candidate and nothing else: a finished tournament whose cells include a completed
  write has updated the files at exactly one path, with the data of a cell that has the highest
  score, then the lowest cost, then the smallest proof digest among the completed writes; without such a cell no file changed. In both
  cases replaying the receipt reports no failure.
\<close>

theorem swarm_writes_best:
  assumes "session_ok g" and "length (gn_ledger g) + 2 < 10 ^ 6" and "candidates_clear g candidates"
    and "tournament env hypothesis candidates budget g = (Inr rcpt, g')"
  shows "swarm_replay rcpt = Inr [] \<and>
    (\<exists>cells. swarm_cells budget 1 0 (py_take (sb_cells budget) candidates) = Inr cells \<and>
      (if \<exists>c \<in> set cells. selectable c
       then \<exists>c \<in> set cells. selectable c \<and>
         (\<forall>d \<in> set cells. selectable d \<longrightarrow> ranks_before c d) \<and>
         (\<exists>p path rel data. jget c ''proposal'' = JObj p \<and> jget p ''path'' = JStr path \<and> safe_path path = Inr rel \<and>
            proposal_data p = Inr data \<and> view g' = (view g)(rel \<mapsto> data))
       else view g' = view g))"
proof -
  have "room g" using assms(2) by (simp add: room_def)
  then show ?thesis using tournament_writes [OF assms(1) _ assms(4,2,3)] tournament_replays [OF assms(4)] by blast
qed

theorem swarm_writes_best_witness:
  "\<exists>rcpt g'. tournament demo_env ''h'' [demo_candidate] DEFAULT_BUDGET demo_genesis = (Inr rcpt, g') \<and> swarm_replay rcpt = Inr []"
proof -
  obtain rcpt g' where t: "tournament demo_env ''h'' [demo_candidate] DEFAULT_BUDGET demo_genesis = (Inr rcpt, g')"
    by (rule demo_tournament)
  have "length (gn_ledger demo_genesis) + 2 < 10 ^ 6" by (simp add: demo_genesis_def)
  then show ?thesis using swarm_writes_best [OF demo_session_ok(1) _ demo_candidate_clear t] t by blast
qed

text \<open>
  C39. Mesh conflicts are resolved by authority, then by pressure: in every context of a namespace there is one
  candidate per distinct value of the verified claims, its pressure is the sum of their supports, its
  authority the largest of theirs; a selected candidate is strictly above all others in authority and
  pressure, and nothing is selected only when two candidates tie at the top.
\<close>

theorem mesh_resolution:
  assumes "resolve_claims ed keys stored ns = Inr (outcomes, quarantined)" and "oc \<in> set outcomes"
    and "valid = filter (\<lambda>c. claim_valid ed keys ns c \<and> dumps (mc_context c) = mo_context_key oc) stored"
  shows "distinct (map cv_value_hash (mo_candidates oc)) \<and> set (map cv_value_hash (mo_candidates oc)) = value_key ` set valid \<and>
    (\<forall>c \<in> set (mo_candidates oc).
       cv_pressure c = sum_list (map support_of (filter (\<lambda>x. value_key x = cv_value_hash c) valid)) \<and>
       (\<exists>x \<in> set valid. value_key x = cv_value_hash c \<and> mc_authority x = Some (cv_authority c)) \<and>
       (\<forall>x \<in> set valid. value_key x = cv_value_hash c \<longrightarrow> (\<exists>a. mc_authority x = Some a \<and> a \<le> cv_authority c))) \<and>
    (case mo_selected oc of
       Some c \<Rightarrow> mo_policy oc \<in> {''converge'', ''winner''} \<and> (\<exists>rest. mo_candidates oc = c # rest \<and>
         (\<forall>d \<in> set rest. (cv_authority d, cv_pressure d) < (cv_authority c, cv_pressure c)))
     | None \<Rightarrow> mo_policy oc = ''split'' \<and> (\<exists>c d rest. mo_candidates oc = c # d # rest \<and>
         (cv_authority c, cv_pressure c) = (cv_authority d, cv_pressure d) \<and>
         (\<forall>e \<in> set (mo_candidates oc). (cv_authority e, cv_pressure e) \<le> (cv_authority c, cv_pressure c))))"
  using resolve_claims_ok [OF assms(1)] assms(2,3) unfolding outcome_ok_def by blast

theorem mesh_resolution_witness:
  "\<exists>c oc. resolve_claims plain_ed [demo_key] [c] ''n'' = Inr ([oc], []) \<and> distinct (map cv_value_hash (mo_candidates oc))"
proof -
  obtain c where c: "claim_valid plain_ed [demo_key] ''n'' c" "mc_authority c = Some 0" "mc_context c = JObj []" by (rule demo_claim)
  obtain oc where oc: "resolve_claims plain_ed [demo_key] [c] ''n'' = Inr ([oc], [])" using demo_resolves [OF c] by blast
  from mesh_resolution [OF oc _ refl, of oc] show ?thesis using oc by auto
qed

text \<open>
  C40. The mesh store stays verifiable: importing any claim and resolving any namespace keep the store free of
  verification failures, and an imported claim is stored exactly when it verifies.
\<close>

theorem mesh_stays_verified:
  assumes "verify_mesh env m = Inr []" and "import_claim env c m = (Inr rcpt, m1)" and "resolve_mesh env ns m1 = (res, m2)"
  shows "verify_mesh env m1 = Inr [] \<and> verify_mesh env m2 = Inr [] \<and>
    (jget rcpt ''execution_status'' = JStr ''completed'' \<longleftrightarrow> verify_mesh_claim (ge_ed env) (mesh_keys env m) c = Inr []) \<and>
    m1 = (if verify_mesh_claim (ge_ed env) (mesh_keys env m) c = Inr []
          then m\<lparr>mx_claims := AList.update (mc_claim_id c @ ''.json'') c (mx_claims m)\<rparr> else m)"
proof -
  have v1: "verify_mesh env m1 = Inr []" by (rule import_keeps_verified [OF assms(1,2)])
  obtain failures where "verify_mesh_claim (ge_ed env) (mesh_keys env m) c = Inr failures"
      "jget rcpt ''execution_status'' = status_json failures"
      "m1 = (if failures = [] then m\<lparr>mx_claims := AList.update (mc_claim_id c @ ''.json'') c (mx_claims m)\<rparr> else m)"
    by (rule import_claim_effect [OF assms(2)])
  then show ?thesis using v1 resolve_keeps_verified [OF v1 assms(3)] by (auto simp: status_json_def)
qed

theorem mesh_stays_verified_witness:
  "\<exists>c m1 rcpt. import_claim demo_env c \<lparr>mx_genesis = demo_genesis, mx_claims = [], mx_peers = [], mx_state = None\<rparr> = (Inr rcpt, m1) \<and>
    verify_mesh demo_env m1 = Inr [] \<and> mx_claims m1 = [(mc_claim_id c @ ''.json'', c)]"
proof -
  let ?m = "\<lparr>mx_genesis = demo_genesis, mx_claims = [], mx_peers = [], mx_state = None\<rparr>"
  obtain c where "claim_valid plain_ed [demo_key] ''n'' c" by (rule demo_claim)
  then have v: "verify_mesh_claim (ge_ed demo_env) (mesh_keys demo_env ?m) c = Inr []"
    by (simp add: claim_valid_def mesh_keys_def demo_env_def)
  then obtain rcpt m1 where i: "import_claim demo_env c ?m = (Inr rcpt, m1)"
    by (simp add: import_claim_def abind_def aread_def alift_def store_claim_def)
  have "verify_mesh demo_env ?m = Inr []" by (simp add: verify_mesh_def stored_claims_def)
  moreover obtain res m2 where "resolve_mesh demo_env ''n'' m1 = (res, m2)" by fastforce
  ultimately show ?thesis using mesh_stays_verified [OF _ i] i v by fastforce
qed

end
